(* ===== verification/Prelude.thy ===== *)
theory Prelude
  imports Main "HOL-Library.Word"
begin

unbundle bit_operations_syntax

text \<open>
  Types, outcomes and generic lemmas that every component of the development shares:
  the names of the machine integers, HRESULT values, the outcome of a routine that reads
  memory through a pointer, 16-bit strings, and the bit-level extensionality rules with
  which the encoders and decoders are verified.
\<close>

section \<open>Machine integers and byte strings\<close>

type_synonym u8 = "8 word"
type_synonym u16 = "16 word"
type_synonym u32 = "32 word"
type_synonym u64 = "64 word"
type_synonym bytes = "u8 list"

text \<open>A WSTRING of the native code is a string of UTF-16 code units.\<close>

type_synonym wstring = "u16 list"

text \<open>The macro \<^verbatim>\<open>WStr("...")\<close>: an ASCII literal as 16-bit code units.\<close>

definition WStr :: "string \<Rightarrow> wstring" where
  "WStr s = map of_char s"

section \<open>Collections of facts\<close>

named_theorems all_bits \<open>quantifiers over the bit positions of a word, written out\<close>
named_theorems outcome_simps \<open>evaluation rules of the outcome combinators\<close>
named_theorems enc_simps \<open>equations that unfold byte encoders\<close>

section \<open>HRESULT\<close>

type_synonym hresult = u32

abbreviation (input) S_OK :: hresult where "S_OK \<equiv> 0"
abbreviation (input) S_FALSE :: hresult where "S_FALSE \<equiv> 1"
abbreviation (input) E_FAIL :: hresult where "E_FAIL \<equiv> 0x80004005"
abbreviation (input) E_OUTOFMEMORY :: hresult where "E_OUTOFMEMORY \<equiv> 0x8007000E"
abbreviation (input) META_E_BAD_SIGNATURE :: hresult where "META_E_BAD_SIGNATURE \<equiv> 0x80131192"
abbreviation (input) COR_E_INVALIDPROGRAM :: hresult where "COR_E_INVALIDPROGRAM \<equiv> 0x8013153A"
abbreviation (input) COR_E_INVALIDOPERATION :: hresult where "COR_E_INVALIDOPERATION \<equiv> 0x80131509"
abbreviation (input) COR_E_INDEXOUTOFRANGE :: hresult where "COR_E_INDEXOUTOFRANGE \<equiv> 0x80131508"

text \<open>\<^verbatim>\<open>FAILED(hr)\<close> is \<open>hr < 0\<close> on the signed 32-bit value: the top bit.\<close>

definition FAILED :: "hresult \<Rightarrow> bool" where
  "FAILED hr \<longleftrightarrow> bit hr 31"

lemma FAILED_codes [simp]:
  "\<not> FAILED S_OK" "\<not> FAILED S_FALSE" "FAILED E_FAIL" "FAILED E_OUTOFMEMORY"
  "FAILED META_E_BAD_SIGNATURE" "FAILED COR_E_INVALIDPROGRAM"
  by (simp_all add: FAILED_def)

section \<open>Outcomes of routines that read through pointers\<close>

text \<open>
  \<open>Done\<close> is a normal return, \<open>Reject\<close> the routine's own error return, \<open>Overread\<close> a
  read outside the buffer the caller supplied (undefined behaviour in the source, never a
  value), and \<open>NoFuel\<close> the exhaustion of the recursion bound of a model; each component
  proves that its bound is enough.
\<close>

datatype 'a outcome = Done 'a | Reject | Overread | NoFuel

primrec obind :: "'a outcome \<Rightarrow> ('a \<Rightarrow> 'b outcome) \<Rightarrow> 'b outcome" where
  "obind (Done x) f = f x"
| "obind Reject f = Reject"
| "obind Overread f = Overread"
| "obind NoFuel f = NoFuel"

lemma obind_cong [fundef_cong]:
  "m = m' \<Longrightarrow> (\<And>x. m' = Done x \<Longrightarrow> f x = g x) \<Longrightarrow> obind m f = obind m' g"
  by (cases m') auto

lemma obind_Done_iff [outcome_simps]:
  "obind m f = Done y \<longleftrightarrow> (\<exists>x. m = Done x \<and> f x = Done y)"
  by (cases m) auto

lemma obind_NoFuel_iff [outcome_simps]:
  "obind m f = NoFuel \<longleftrightarrow> m = NoFuel \<or> (\<exists>x. m = Done x \<and> f x = NoFuel)"
  by (cases m) auto

lemma obind_not_NoFuel:
  "m \<noteq> NoFuel \<Longrightarrow> (\<And>x. m = Done x \<Longrightarrow> f x \<noteq> NoFuel) \<Longrightarrow> obind m f \<noteq> NoFuel"
  by (cases m) auto

lemma obind_assoc: "obind (obind m f) g = obind m (\<lambda>x. obind (f x) g)"
  by (cases m) auto

lemma obind_split:
  "P (obind m f) \<longleftrightarrow>
     (\<forall>x. m = Done x \<longrightarrow> P (f x)) \<and> (m = Reject \<longrightarrow> P Reject) \<and>
     (m = Overread \<longrightarrow> P Overread) \<and> (m = NoFuel \<longrightarrow> P NoFuel)"
  by (cases m) auto

text \<open>A conditional rejection: \<^verbatim>\<open>if (!cond) return false;\<close>\<close>

definition guard :: "bool \<Rightarrow> 'a outcome \<Rightarrow> 'a outcome" where
  "guard c m = (if c then m else Reject)"

lemma guard_Done_iff [outcome_simps]: "guard c m = Done y \<longleftrightarrow> c \<and> m = Done y"
  by (simp add: guard_def)

lemma guard_NoFuel_iff [outcome_simps]: "guard c m = NoFuel \<longleftrightarrow> c \<and> m = NoFuel"
  by (simp add: guard_def)

text \<open>Reading the byte under a cursor; the cursor is the part of the buffer still ahead.\<close>

definition peek :: "bytes \<Rightarrow> u8 outcome" where
  "peek bs = (case bs of [] \<Rightarrow> Overread | b # _ \<Rightarrow> Done b)"

lemma peek_Done_iff [outcome_simps]: "peek bs = Done b \<longleftrightarrow> (\<exists>r. bs = b # r)"
  by (cases bs) (auto simp: peek_def)

lemma peek_simps [simp]: "peek (b # r) = Done b" "peek [] = Overread"
  by (simp_all add: peek_def)

lemma peek_not_NoFuel [simp]: "peek bs \<noteq> NoFuel"
  by (cases bs) auto

section \<open>Bit-level extensionality\<close>

text \<open>
  Equations between words of a fixed width are decided bit by bit: \<open>word_eq8\<close> and its
  companions turn an equation into a conjunction over the bit positions, which
  \<open>bit_simps\<close> evaluates.
\<close>

lemma all_less_8 [all_bits]:
  "(\<forall>n<8. P n) \<longleftrightarrow> P 0 \<and> P 1 \<and> P 2 \<and> P 3 \<and> P 4 \<and> P 5 \<and> P 6 \<and> P (7::nat)"
  by (simp add: numeral_eq_Suc All_less_Suc) blast

lemma all_less_add: "(\<forall>n<m + k. P n) \<longleftrightarrow> (\<forall>n<m. P n) \<and> (\<forall>n<k. P (m + n :: nat))"
proof (intro iffI conjI allI impI)
  fix n
  assume h: "(\<forall>n<m. P n) \<and> (\<forall>n<k. P (m + n))" and n: "n < m + k"
  show "P n"
  proof (cases "n < m")
    case False
    then have "n = m + (n - m)" and "n - m < k" using n by auto
    with h show ?thesis by metis
  qed (use h in auto)
qed auto

lemma all_less_16 [all_bits]: "(\<forall>n<16. P n) \<longleftrightarrow> (\<forall>n<8. P n) \<and> (\<forall>n<8. P (8 + n :: nat))"
  using all_less_add [of 8 8 P] by simp

lemma all_less_32 [all_bits]:
  "(\<forall>n<32. P n) \<longleftrightarrow> (\<forall>n<8. P n) \<and> (\<forall>n<8. P (8 + n)) \<and> (\<forall>n<8. P (16 + n)) \<and>
     (\<forall>n<8. P (24 + n :: nat))"
  using all_less_add [of 8 8 P] all_less_add [of 16 8 P] all_less_add [of 24 8 P] by simp

lemma word_eq8: "(x::u8) = y \<longleftrightarrow> (\<forall>n<8. bit x n = bit y n)"
  by (auto intro: bit_word_eqI)

lemma word_eq16: "(x::u16) = y \<longleftrightarrow> (\<forall>n<16. bit x n = bit y n)"
  by (auto intro: bit_word_eqI)

lemma word_eq32: "(x::u32) = y \<longleftrightarrow> (\<forall>n<32. bit x n = bit y n)"
  by (auto intro: bit_word_eqI)

lemma bit_u8_high [simp]: "8 \<le> n \<Longrightarrow> \<not> bit (x::u8) n"
  by (auto dest: bit_imp_le_length)

lemma bit_u16_high [simp]: "16 \<le> n \<Longrightarrow> \<not> bit (x::u16) n"
  by (auto dest: bit_imp_le_length)

lemma bit_u32_high [simp]: "32 \<le> n \<Longrightarrow> \<not> bit (x::u32) n"
  by (auto dest: bit_imp_le_length)

lemma not_bit_if_small:
  fixes x :: "'a::len word"
  assumes "unat x < 2 ^ n" and "n \<le> k"
  shows "\<not> bit x k"
proof -
  have "(2::nat) ^ n \<le> 2 ^ k" using assms(2) by simp
  with assms(1) have "unat x < 2 ^ k" by linarith
  then have "\<not> bit (unat x) k" by (simp add: bit_iff_odd)
  then show ?thesis by (simp add: bit_unsigned_iff bit_imp_le_length)
qed

text \<open>The same bound read the other way: a word with no bit at or above \<open>n\<close> is below \<open>2 ^ n\<close>.\<close>

lemma small_if_not_bit:
  fixes x :: "'a::len word"
  assumes "\<And>k. n \<le> k \<Longrightarrow> \<not> bit x k"
  shows "unat x < 2 ^ n"
proof -
  have "take_bit n x = x"
    by (rule bit_word_eqI) (use assms not_less in \<open>auto simp: bit_take_bit_iff\<close>)
  then have "take_bit n (unat x) = unat x"
    by (metis unsigned_take_bit_eq)
  then show ?thesis by (metis take_bit_nat_less_exp)
qed

lemma small_u32:
  assumes "\<forall>k<32. m \<le> k \<longrightarrow> \<not> bit (x::u32) k"
  shows "unat x < 2 ^ m"
proof (rule small_if_not_bit)
  fix k
  assume "m \<le> k"
  with assms show "\<not> bit x k" by (cases "k < 32") auto
qed

section \<open>Little-endian memory\<close>

definition le_bytes32 :: "u32 \<Rightarrow> bytes" where
  "le_bytes32 x = [ucast x, ucast (drop_bit 8 x), ucast (drop_bit 16 x), ucast (drop_bit 24 x)]"

fun le_word32 :: "bytes \<Rightarrow> u32" where
  "le_word32 [b0, b1, b2, b3] =
     ucast b0 OR push_bit 8 (ucast b1) OR push_bit 16 (ucast b2) OR push_bit 24 (ucast b3)"
| "le_word32 _ = 0"

lemma le_word32_bytes [simp]: "le_word32 (le_bytes32 x) = x"
  unfolding word_eq32 by (simp add: le_bytes32_def all_bits bit_simps)

lemma length_le_bytes32 [simp]: "length (le_bytes32 x) = 4"
  by (simp add: le_bytes32_def)

section \<open>Words as numbers\<close>

lemma unat_u8_bound: "unat (b :: u8) < 256"
  using unsigned_less [of b, where ?'a = nat] by simp

lemma unat_u16_bound: "unat (b :: u16) < 65536"
  using unsigned_less [of b, where ?'a = nat] by simp

lemma unat_u32_bound: "unat (b :: u32) < 4294967296"
  using unsigned_less [of b, where ?'a = nat] by simp

lemma unat_ucast_u8 [simp]: "unat (ucast (b :: u8) :: u32) = unat b"
  using unat_u8_bound [of b] by (simp add: unsigned_ucast_eq take_bit_nat_eq_self)

lemma unat_add32: "unat (x + y :: u32) = (unat x + unat y) mod 4294967296"
  by (simp add: unat_word_ariths)

lemma unat_of_nat32: "unat (of_nat n :: u32) = n mod 4294967296"
  by (simp add: unsigned_of_nat take_bit_eq_mod)

lemma unat_Suc32: "(x :: u32) < y \<Longrightarrow> unat (x + 1) = unat x + 1"
  using unat_u32_bound [of y] by (simp add: word_less_nat_alt unat_add32)

lemma inc_le32: "(x :: u32) < y \<Longrightarrow> x + 1 \<le> y"
  using unat_Suc32 [of x y] by (simp add: word_le_nat_alt word_less_nat_alt)

lemma ucast_byte_bound: "(ucast (b :: u8) :: u32) < 0x100"
  using unat_u8_bound [of b] by (simp add: word_less_nat_alt)

lemma ucast_ucast_u8 [simp]: "ucast (ucast (b :: u8) :: u32) = b"
  by (rule bit_word_eqI) (auto simp: bit_simps)

lemma ucast_two_byte: "ucast (0x100 + ucast (b :: u8) :: u32) = b"
  using unat_u8_bound [of b]
  by (simp add: word_unat_eq_iff unsigned_ucast_eq take_bit_eq_mod unat_word_ariths)

end
