(* ===== verification/CorHdr.thy ===== *)
theory CorHdr
  imports Prelude
begin

text \<open>
  The ECMA-335 constants of \<^verbatim>\<open>corhdr.h\<close> that the native profiler uses: element types of
  signatures, calling conventions, metadata tokens, and the flags of IL method bodies.
  Enumerations are datatypes with their numeric codes; flag sets and token tags are words.
\<close>

section \<open>Element types\<close>

datatype CorElementType =
    ELEMENT_TYPE_END | ELEMENT_TYPE_VOID | ELEMENT_TYPE_BOOLEAN | ELEMENT_TYPE_CHAR
  | ELEMENT_TYPE_I1 | ELEMENT_TYPE_U1 | ELEMENT_TYPE_I2 | ELEMENT_TYPE_U2
  | ELEMENT_TYPE_I4 | ELEMENT_TYPE_U4 | ELEMENT_TYPE_I8 | ELEMENT_TYPE_U8
  | ELEMENT_TYPE_R4 | ELEMENT_TYPE_R8 | ELEMENT_TYPE_STRING
  | ELEMENT_TYPE_PTR | ELEMENT_TYPE_BYREF
  | ELEMENT_TYPE_VALUETYPE | ELEMENT_TYPE_CLASS | ELEMENT_TYPE_VAR | ELEMENT_TYPE_ARRAY
  | ELEMENT_TYPE_GENERICINST | ELEMENT_TYPE_TYPEDBYREF
  | ELEMENT_TYPE_I | ELEMENT_TYPE_U | ELEMENT_TYPE_FNPTR | ELEMENT_TYPE_OBJECT
  | ELEMENT_TYPE_SZARRAY | ELEMENT_TYPE_MVAR
  | ELEMENT_TYPE_CMOD_REQD | ELEMENT_TYPE_CMOD_OPT | ELEMENT_TYPE_INTERNAL
  | ELEMENT_TYPE_MAX | ELEMENT_TYPE_MODIFIER | ELEMENT_TYPE_SENTINEL | ELEMENT_TYPE_PINNED

text \<open>The numeric value each enumerator has in the header.\<close>

primrec elt :: "CorElementType \<Rightarrow> u8" where
  "elt ELEMENT_TYPE_END = 0x00"
| "elt ELEMENT_TYPE_VOID = 0x01"
| "elt ELEMENT_TYPE_BOOLEAN = 0x02"
| "elt ELEMENT_TYPE_CHAR = 0x03"
| "elt ELEMENT_TYPE_I1 = 0x04"
| "elt ELEMENT_TYPE_U1 = 0x05"
| "elt ELEMENT_TYPE_I2 = 0x06"
| "elt ELEMENT_TYPE_U2 = 0x07"
| "elt ELEMENT_TYPE_I4 = 0x08"
| "elt ELEMENT_TYPE_U4 = 0x09"
| "elt ELEMENT_TYPE_I8 = 0x0a"
| "elt ELEMENT_TYPE_U8 = 0x0b"
| "elt ELEMENT_TYPE_R4 = 0x0c"
| "elt ELEMENT_TYPE_R8 = 0x0d"
| "elt ELEMENT_TYPE_STRING = 0x0e"
| "elt ELEMENT_TYPE_PTR = 0x0f"
| "elt ELEMENT_TYPE_BYREF = 0x10"
| "elt ELEMENT_TYPE_VALUETYPE = 0x11"
| "elt ELEMENT_TYPE_CLASS = 0x12"
| "elt ELEMENT_TYPE_VAR = 0x13"
| "elt ELEMENT_TYPE_ARRAY = 0x14"
| "elt ELEMENT_TYPE_GENERICINST = 0x15"
| "elt ELEMENT_TYPE_TYPEDBYREF = 0x16"
| "elt ELEMENT_TYPE_I = 0x18"
| "elt ELEMENT_TYPE_U = 0x19"
| "elt ELEMENT_TYPE_FNPTR = 0x1b"
| "elt ELEMENT_TYPE_OBJECT = 0x1c"
| "elt ELEMENT_TYPE_SZARRAY = 0x1d"
| "elt ELEMENT_TYPE_MVAR = 0x1e"
| "elt ELEMENT_TYPE_CMOD_REQD = 0x1f"
| "elt ELEMENT_TYPE_CMOD_OPT = 0x20"
| "elt ELEMENT_TYPE_INTERNAL = 0x21"
| "elt ELEMENT_TYPE_MAX = 0x22"
| "elt ELEMENT_TYPE_MODIFIER = 0x40"
| "elt ELEMENT_TYPE_SENTINEL = 0x41"
| "elt ELEMENT_TYPE_PINNED = 0x45"

text \<open>
  The cast \<^verbatim>\<open>CorElementType(byte)\<close>, as a \<^verbatim>\<open>switch\<close> over the result sees it: the enumerator
  with that value, or none, which only a \<^verbatim>\<open>default\<close> label matches.
\<close>

definition all_elts :: "CorElementType list" where
  "all_elts =
     [ELEMENT_TYPE_END, ELEMENT_TYPE_VOID, ELEMENT_TYPE_BOOLEAN, ELEMENT_TYPE_CHAR,
      ELEMENT_TYPE_I1, ELEMENT_TYPE_U1, ELEMENT_TYPE_I2, ELEMENT_TYPE_U2,
      ELEMENT_TYPE_I4, ELEMENT_TYPE_U4, ELEMENT_TYPE_I8, ELEMENT_TYPE_U8,
      ELEMENT_TYPE_R4, ELEMENT_TYPE_R8, ELEMENT_TYPE_STRING,
      ELEMENT_TYPE_PTR, ELEMENT_TYPE_BYREF,
      ELEMENT_TYPE_VALUETYPE, ELEMENT_TYPE_CLASS, ELEMENT_TYPE_VAR, ELEMENT_TYPE_ARRAY,
      ELEMENT_TYPE_GENERICINST, ELEMENT_TYPE_TYPEDBYREF,
      ELEMENT_TYPE_I, ELEMENT_TYPE_U, ELEMENT_TYPE_FNPTR, ELEMENT_TYPE_OBJECT,
      ELEMENT_TYPE_SZARRAY, ELEMENT_TYPE_MVAR,
      ELEMENT_TYPE_CMOD_REQD, ELEMENT_TYPE_CMOD_OPT, ELEMENT_TYPE_INTERNAL,
      ELEMENT_TYPE_MAX, ELEMENT_TYPE_MODIFIER, ELEMENT_TYPE_SENTINEL, ELEMENT_TYPE_PINNED]"

definition to_elt :: "u8 \<Rightarrow> CorElementType option" where
  "to_elt b = find (\<lambda>e. elt e = b) all_elts"

lemma set_all_elts [simp]: "e \<in> set all_elts"
  by (cases e) (simp_all add: all_elts_def)

lemma to_elt_elt [simp]: "to_elt (elt e) = Some e"
  by (cases e) (simp_all add: to_elt_def all_elts_def)

lemma elt_inject [simp]: "elt e = elt e' \<longleftrightarrow> e = e'"
  by (metis option.inject to_elt_elt)

lemma to_elt_Some_iff: "to_elt b = Some e \<longleftrightarrow> b = elt e"
proof
  assume "to_elt b = Some e"
  then show "b = elt e" by (auto simp: to_elt_def find_Some_iff)
qed simp

lemma to_elt_None_iff: "to_elt b = None \<longleftrightarrow> b \<notin> range elt"
  by (auto simp: to_elt_def find_None_iff)

text \<open>From here on enumerators are compared as such, and evaluated only on request.\<close>

declare elt.simps [simp del]

section \<open>Calling conventions\<close>

abbreviation (input) IMAGE_CEE_CS_CALLCONV_DEFAULT :: u8 where "IMAGE_CEE_CS_CALLCONV_DEFAULT \<equiv> 0x00"
abbreviation (input) IMAGE_CEE_CS_CALLCONV_GENERIC :: u8 where "IMAGE_CEE_CS_CALLCONV_GENERIC \<equiv> 0x10"
abbreviation (input) IMAGE_CEE_CS_CALLCONV_HASTHIS :: u8 where "IMAGE_CEE_CS_CALLCONV_HASTHIS \<equiv> 0x20"
abbreviation (input) IMAGE_CEE_CS_CALLCONV_LOCAL_SIG :: u8 where "IMAGE_CEE_CS_CALLCONV_LOCAL_SIG \<equiv> 0x07"
abbreviation (input) IMAGE_CEE_CS_CALLCONV_GENERICINST :: u8 where "IMAGE_CEE_CS_CALLCONV_GENERICINST \<equiv> 0x0a"

section \<open>Metadata tokens\<close>

type_synonym mdToken = u32

datatype CorTokenType =
    mdtModule | mdtTypeRef | mdtTypeDef | mdtFieldDef | mdtMethodDef | mdtParamDef
  | mdtInterfaceImpl | mdtMemberRef | mdtCustomAttribute | mdtPermission | mdtSignature
  | mdtEvent | mdtProperty | mdtMethodImpl | mdtModuleRef | mdtTypeSpec | mdtAssembly
  | mdtAssemblyRef | mdtFile | mdtExportedType | mdtManifestResource | mdtGenericParam
  | mdtMethodSpec | mdtGenericParamConstraint | mdtString | mdtName | mdtBaseType

primrec token_tag :: "CorTokenType \<Rightarrow> u32" where
  "token_tag mdtModule = 0x00000000"
| "token_tag mdtTypeRef = 0x01000000"
| "token_tag mdtTypeDef = 0x02000000"
| "token_tag mdtFieldDef = 0x04000000"
| "token_tag mdtMethodDef = 0x06000000"
| "token_tag mdtParamDef = 0x08000000"
| "token_tag mdtInterfaceImpl = 0x09000000"
| "token_tag mdtMemberRef = 0x0a000000"
| "token_tag mdtCustomAttribute = 0x0c000000"
| "token_tag mdtPermission = 0x0e000000"
| "token_tag mdtSignature = 0x11000000"
| "token_tag mdtEvent = 0x14000000"
| "token_tag mdtProperty = 0x17000000"
| "token_tag mdtMethodImpl = 0x19000000"
| "token_tag mdtModuleRef = 0x1a000000"
| "token_tag mdtTypeSpec = 0x1b000000"
| "token_tag mdtAssembly = 0x20000000"
| "token_tag mdtAssemblyRef = 0x23000000"
| "token_tag mdtFile = 0x26000000"
| "token_tag mdtExportedType = 0x27000000"
| "token_tag mdtManifestResource = 0x28000000"
| "token_tag mdtGenericParam = 0x2a000000"
| "token_tag mdtMethodSpec = 0x2b000000"
| "token_tag mdtGenericParamConstraint = 0x2c000000"
| "token_tag mdtString = 0x70000000"
| "token_tag mdtName = 0x71000000"
| "token_tag mdtBaseType = 0x72000000"

definition TokenFromRid :: "u32 \<Rightarrow> u32 \<Rightarrow> mdToken" where
  "TokenFromRid rid tktype = rid OR tktype"

definition RidFromToken :: "mdToken \<Rightarrow> u32" where
  "RidFromToken tk = tk AND 0x00ffffff"

definition TypeFromToken :: "mdToken \<Rightarrow> u32" where
  "TypeFromToken tk = tk AND 0xff000000"

abbreviation (input) mdTokenNil :: mdToken where "mdTokenNil \<equiv> 0"

lemma token_split: "TokenFromRid (RidFromToken tk) (TypeFromToken tk) = tk"
  unfolding TokenFromRid_def RidFromToken_def TypeFromToken_def word_eq32
  by (simp add: all_bits bit_simps)

lemma token_tag_low [simp]: "token_tag t AND 0x00ffffff = 0"
  by (cases t) simp_all

lemma token_tag_high [simp]: "token_tag t AND 0xff000000 = token_tag t"
  by (cases t) simp_all

lemma token_tag_inject [simp]: "token_tag t = token_tag t' \<longleftrightarrow> t = t'"
  by (cases t; cases t') simp_all

section \<open>Flags of IL method bodies\<close>

abbreviation (input) CorILMethod_InitLocals :: u32 where "CorILMethod_InitLocals \<equiv> 0x10"
abbreviation (input) CorILMethod_MoreSects :: u32 where "CorILMethod_MoreSects \<equiv> 0x08"
abbreviation (input) CorILMethod_FormatMask :: u32 where "CorILMethod_FormatMask \<equiv> 0x07"
abbreviation (input) CorILMethod_TinyFormat :: u32 where "CorILMethod_TinyFormat \<equiv> 0x02"
abbreviation (input) CorILMethod_FatFormat :: u32 where "CorILMethod_FatFormat \<equiv> 0x03"
abbreviation (input) CorILMethod_TinyFormat1 :: u32 where "CorILMethod_TinyFormat1 \<equiv> 0x06"
abbreviation (input) CorILMethod_Sect_EHTable :: u8 where "CorILMethod_Sect_EHTable \<equiv> 0x01"
abbreviation (input) CorILMethod_Sect_FatFormat :: u8 where "CorILMethod_Sect_FatFormat \<equiv> 0x40"
abbreviation (input) COR_ILEXCEPTION_CLAUSE_FILTER :: u32 where "COR_ILEXCEPTION_CLAUSE_FILTER \<equiv> 0x01"

end
