(* ===== verification/CorSig.thy ===== *)
theory CorSig
  imports CorHdr
begin

text \<open>
  The compressed integers and tokens of metadata signatures: the inline routines
  \<^verbatim>\<open>CorSigUncompressData\<close>, \<^verbatim>\<open>CorSigUncompressToken\<close>, \<^verbatim>\<open>CorSigCompressData\<close>,
  \<^verbatim>\<open>CorSigCompressToken\<close> and the signed variants of \<^verbatim>\<open>cor.h\<close>, which every signature
  reader and writer of the profiler calls. Reading routines take the bytes ahead of the
  pointer; a read beyond them is \<open>Overread\<close>.
\<close>

section \<open>Reading compressed data\<close>

text \<open>The size in bytes of the compressed number that starts at the pointer.\<close>

definition CorSigUncompressedDataSize :: "bytes \<Rightarrow> u32 outcome" where
  "CorSigUncompressedDataSize pData = obind (peek pData) (\<lambda>b.
     Done (if b AND 0x80 = 0 then 1 else if b AND 0xC0 = 0x80 then 2 else 4))"

text \<open>The overload with an explicit length: the result code, the number, and its size.\<close>

definition CorSigUncompressData_len :: "bytes \<Rightarrow> u32 \<Rightarrow> (hresult \<times> u32 \<times> u32) outcome" where
  "CorSigUncompressData_len pData len =
     (case pData of [] \<Rightarrow> Overread | b0 # r \<Rightarrow>
        if b0 AND 0x80 = 0 then
          (if len < 1 then Done (META_E_BAD_SIGNATURE, 0, 0) else Done (S_OK, ucast b0, 1))
        else if b0 AND 0xC0 = 0x80 then
          (if len < 2 then Done (META_E_BAD_SIGNATURE, 0, 0)
           else (case r of
                   b1 # _ \<Rightarrow> Done (S_OK, push_bit 8 (ucast (b0 AND 0x3f)) OR ucast b1, 2)
                 | [] \<Rightarrow> Overread))
        else if b0 AND 0xE0 = 0xC0 then
          (if len < 4 then Done (META_E_BAD_SIGNATURE, 0, 0)
           else (case r of
                   b1 # b2 # b3 # _ \<Rightarrow>
                     Done (S_OK, push_bit 24 (ucast (b0 AND 0x1f)) OR push_bit 16 (ucast b1) OR
                                 push_bit 8 (ucast b2) OR ucast b3, 4)
                 | _ \<Rightarrow> Overread))
        else Done (META_E_BAD_SIGNATURE, 0, 0))"

text \<open>
  The overload without a length says the signature is 0xff bytes long, and returns the
  size, or \<open>-1\<close> with the number set to 0.
\<close>

definition CorSigUncompressData :: "bytes \<Rightarrow> (u32 \<times> u32) outcome" where
  "CorSigUncompressData pData =
     obind (CorSigUncompressData_len pData 0xff) (\<lambda>(hr, dataOut, dwSizeOfData).
       if FAILED hr then Done (-1, 0) else Done (dwSizeOfData, dataOut))"

text \<open>The overloads that move the pointer; they do not check the lead byte of a 4-byte number.\<close>

definition CorSigUncompressBigData :: "bytes \<Rightarrow> (u32 \<times> bytes) outcome" where
  "CorSigUncompressBigData pData =
     (case pData of [] \<Rightarrow> Overread | b0 # r \<Rightarrow>
        if b0 AND 0xC0 = 0x80 then
          (case r of
             b1 # r' \<Rightarrow> Done (push_bit 8 (ucast (b0 AND 0x3f)) OR ucast b1, r')
           | [] \<Rightarrow> Overread)
        else
          (case r of
             b1 # b2 # b3 # r' \<Rightarrow>
               Done (push_bit 24 (ucast (b0 AND 0x1f)) OR push_bit 16 (ucast b1) OR
                     push_bit 8 (ucast b2) OR ucast b3, r')
           | _ \<Rightarrow> Overread))"

definition CorSigUncompressData_ref :: "bytes \<Rightarrow> (u32 \<times> bytes) outcome" where
  "CorSigUncompressData_ref pData =
     (case pData of [] \<Rightarrow> Overread | b0 # r \<Rightarrow>
        if b0 AND 0x80 = 0 then Done (ucast b0, r) else CorSigUncompressBigData pData)"

section \<open>Reading tokens\<close>

definition g_tkCorEncodeToken :: "u32 list" where
  "g_tkCorEncodeToken =
     [token_tag mdtTypeDef, token_tag mdtTypeRef, token_tag mdtTypeSpec, token_tag mdtBaseType]"

definition decode_token :: "u32 \<Rightarrow> mdToken" where
  "decode_token tk = TokenFromRid (drop_bit 2 tk) (g_tkCorEncodeToken ! unat (tk AND 0x3))"

definition CorSigUncompressToken :: "bytes \<Rightarrow> (u32 \<times> mdToken) outcome" where
  "CorSigUncompressToken pData =
     obind (CorSigUncompressData pData) (\<lambda>(cb, tk). Done (cb, decode_token tk))"

definition CorSigUncompressToken_ref :: "bytes \<Rightarrow> (mdToken \<times> bytes) outcome" where
  "CorSigUncompressToken_ref pData =
     obind (CorSigUncompressData_ref pData) (\<lambda>(tk, r). Done (decode_token tk, r))"

section \<open>Signed numbers\<close>

abbreviation (input) SIGN_MASK_ONEBYTE :: u32 where "SIGN_MASK_ONEBYTE \<equiv> 0xffffffc0"
abbreviation (input) SIGN_MASK_TWOBYTE :: u32 where "SIGN_MASK_TWOBYTE \<equiv> 0xffffe000"
abbreviation (input) SIGN_MASK_FOURBYTE :: u32 where "SIGN_MASK_FOURBYTE \<equiv> 0xf0000000"

text \<open>The result is \<open>None\<close> where the routine returns without setting \<^verbatim>\<open>*pInt\<close>.\<close>

definition CorSigUncompressSignedInt :: "bytes \<Rightarrow> (u32 \<times> u32 option) outcome" where
  "CorSigUncompressSignedInt pData =
     obind (CorSigUncompressData pData) (\<lambda>(cb, iData).
       if cb = -1 then Done (cb, None)
       else let ulSigned = iData AND 1; iData' = drop_bit 1 iData in
         Done (cb, Some (if ulSigned \<noteq> 0
           then iData' OR (if cb = 1 then SIGN_MASK_ONEBYTE
                           else if cb = 2 then SIGN_MASK_TWOBYTE else SIGN_MASK_FOURBYTE)
           else iData')))"

section \<open>Writing compressed data\<close>

text \<open>The returned size (\<open>-1\<close> for a number too big) and the bytes stored.\<close>

definition CorSigCompressData :: "u32 \<Rightarrow> u32 \<times> bytes" where
  "CorSigCompressData iLen =
     (if iLen \<le> 0x7F then (1, [ucast iLen])
      else if iLen \<le> 0x3FFF then
        (2, [ucast (drop_bit 8 iLen OR 0x80), ucast (iLen AND 0xff)])
      else if iLen \<le> 0x1FFFFFFF then
        (4, [ucast (drop_bit 24 iLen OR 0xC0), ucast (drop_bit 16 iLen AND 0xff),
             ucast (drop_bit 8 iLen AND 0xff), ucast (iLen AND 0xff)])
      else (-1, []))"

definition CorSigCompressToken :: "mdToken \<Rightarrow> u32 \<times> bytes" where
  "CorSigCompressToken tk =
     (let rid = RidFromToken tk; ulTyp = TypeFromToken tk in
      if rid > 0x3FFFFFF then (-1, [])
      else
        let rid = push_bit 2 rid in
        CorSigCompressData
          (if ulTyp = g_tkCorEncodeToken ! 1 then rid OR 0x1
           else if ulTyp = g_tkCorEncodeToken ! 2 then rid OR 0x2
           else if ulTyp = g_tkCorEncodeToken ! 3 then rid OR 0x3
           else rid))"

definition CorSigCompressSignedInt :: "u32 \<Rightarrow> u32 \<times> bytes" where
  "CorSigCompressSignedInt iData =
     (let isSigned = (if bit iData 31 then 1 else 0) in
      if iData AND SIGN_MASK_ONEBYTE = 0 \<or> iData AND SIGN_MASK_ONEBYTE = SIGN_MASK_ONEBYTE then
        let v = push_bit 1 (iData AND NOT SIGN_MASK_ONEBYTE) OR isSigned in (1, [ucast v])
      else if iData AND SIGN_MASK_TWOBYTE = 0 \<or> iData AND SIGN_MASK_TWOBYTE = SIGN_MASK_TWOBYTE then
        let v = push_bit 1 (iData AND NOT SIGN_MASK_TWOBYTE) OR isSigned in
        (2, [ucast (drop_bit 8 v OR 0x80), ucast (v AND 0xff)])
      else if iData AND SIGN_MASK_FOURBYTE = 0 \<or> iData AND SIGN_MASK_FOURBYTE = SIGN_MASK_FOURBYTE then
        let v = push_bit 1 (iData AND NOT SIGN_MASK_FOURBYTE) OR isSigned in
        (4, [ucast (drop_bit 24 v OR 0xC0), ucast (drop_bit 16 v AND 0xff),
             ucast (drop_bit 8 v AND 0xff), ucast (v AND 0xff)])
      else (-1, []))"

section \<open>Numbers in bytes\<close>

text \<open>
  The byte strings that are a compressed number, with the number: the format of
  ECMA-335 II.23.2 that the readers implement. A number may also have a longer
  encoding than the one the writer chooses.
\<close>

inductive number_bytes :: "bytes \<Rightarrow> u32 \<Rightarrow> bool" where
  one: "b0 AND 0x80 = 0 \<Longrightarrow> number_bytes [b0] (ucast b0)"
| two: "b0 AND 0xC0 = 0x80 \<Longrightarrow>
     number_bytes [b0, b1] (push_bit 8 (ucast (b0 AND 0x3f)) OR ucast b1)"
| four: "b0 AND 0xE0 = 0xC0 \<Longrightarrow>
     number_bytes [b0, b1, b2, b3]
       (push_bit 24 (ucast (b0 AND 0x1f)) OR push_bit 16 (ucast b1) OR
        push_bit 8 (ucast b2) OR ucast b3)"

inductive_cases number_bytes_elim: "number_bytes bs n"

lemma number_bytes_length: "number_bytes bs n \<Longrightarrow> length bs \<in> {1, 2, 4}"
  by (auto elim: number_bytes_elim)

lemma number_bytes_nonempty [simp]: "\<not> number_bytes [] n"
  by (auto elim: number_bytes_elim)

lemma lead_byte_cases:
  fixes b :: u8
  shows "b AND 0xC0 = 0x80 \<Longrightarrow> b AND 0x80 \<noteq> 0"
    and "b AND 0xE0 = 0xC0 \<Longrightarrow> b AND 0x80 \<noteq> 0 \<and> b AND 0xC0 \<noteq> 0x80"
  unfolding word_eq8 by (simp_all add: all_bits bit_simps)

text \<open>The reader by cases on the lead byte.\<close>

lemma UncompressData_one:
  "b0 AND 0x80 = 0 \<Longrightarrow> CorSigUncompressData (b0 # r) = Done (1, ucast b0)"
  by (simp add: CorSigUncompressData_def CorSigUncompressData_len_def)

lemma UncompressData_two:
  "b0 AND 0xC0 = 0x80 \<Longrightarrow> CorSigUncompressData (b0 # r) =
     (case r of b1 # _ \<Rightarrow> Done (2, push_bit 8 (ucast (b0 AND 0x3f)) OR ucast b1) | [] \<Rightarrow> Overread)"
  by (simp add: CorSigUncompressData_def CorSigUncompressData_len_def lead_byte_cases split: list.split)

lemma UncompressData_four:
  "b0 AND 0xE0 = 0xC0 \<Longrightarrow> CorSigUncompressData (b0 # r) =
     (case r of
        b1 # b2 # b3 # _ \<Rightarrow>
          Done (4, push_bit 24 (ucast (b0 AND 0x1f)) OR push_bit 16 (ucast b1) OR
                   push_bit 8 (ucast b2) OR ucast b3)
      | _ \<Rightarrow> Overread)"
  by (simp add: CorSigUncompressData_def CorSigUncompressData_len_def lead_byte_cases split: list.split)

lemma UncompressData_bad:
  "b0 AND 0x80 \<noteq> 0 \<Longrightarrow> b0 AND 0xC0 \<noteq> 0x80 \<Longrightarrow> b0 AND 0xE0 \<noteq> 0xC0 \<Longrightarrow>
     CorSigUncompressData (b0 # r) = Done (-1, 0)"
  by (simp add: CorSigUncompressData_def CorSigUncompressData_len_def)

lemma UncompressData_Nil [simp]: "CorSigUncompressData [] = Overread"
  by (simp add: CorSigUncompressData_def CorSigUncompressData_len_def)

lemmas UncompressData_cases =
  UncompressData_one UncompressData_two UncompressData_four UncompressData_bad

lemma UncompressData_not_Reject [simp]: "CorSigUncompressData bs \<noteq> Reject"
  and UncompressData_not_NoFuel [simp]: "CorSigUncompressData bs \<noteq> NoFuel"
  by (auto simp: CorSigUncompressData_def CorSigUncompressData_len_def split: list.splits if_splits)

text \<open>The reader returns exactly the number at the pointer, whatever follows it.\<close>

lemma UncompressData_number:
  "number_bytes bs n \<Longrightarrow> CorSigUncompressData (bs @ r) = Done (of_nat (length bs), n)"
  by (erule number_bytes_elim) (auto simp: UncompressData_cases)

lemma UncompressData_Done:
  assumes u: "CorSigUncompressData pData = Done (cb, n)" and cb: "cb \<noteq> -1"
  shows "\<exists>bs r. pData = bs @ r \<and> number_bytes bs n \<and> cb = of_nat (length bs)"
proof -
  obtain b0 r where p: "pData = b0 # r" using u by (cases pData) auto
  consider "b0 AND 0x80 = 0" | "b0 AND 0xC0 = 0x80" | "b0 AND 0xE0 = 0xC0"
    using u cb p UncompressData_bad by fastforce
  then show ?thesis
  proof cases
    case 1
    with u p have "pData = [b0] @ r" "number_bytes [b0] n" "cb = of_nat (length [b0])"
      by (auto simp: UncompressData_one intro: number_bytes.one)
    then show ?thesis by blast
  next
    case 2
    with u p obtain b1 r' where "pData = [b0, b1] @ r'" "number_bytes [b0, b1] n" "cb = of_nat (length [b0, b1])"
      by (auto simp: UncompressData_two intro: number_bytes.two split: list.splits)
    then show ?thesis by blast
  next
    case 3
    with u p obtain b1 b2 b3 r' where "pData = [b0, b1, b2, b3] @ r'"
      "number_bytes [b0, b1, b2, b3] n" "cb = of_nat (length [b0, b1, b2, b3])"
      by (auto simp: UncompressData_four intro: number_bytes.four split: list.splits)
    then show ?thesis by blast
  qed
qed

text \<open>The pointer-moving reader agrees with it on every well-formed number.\<close>

lemma UncompressData_ref_number:
  "number_bytes bs n \<Longrightarrow> CorSigUncompressData_ref (bs @ r) = Done (n, r)"
  by (erule number_bytes_elim)
     (auto simp: CorSigUncompressData_ref_def CorSigUncompressBigData_def lead_byte_cases)

section \<open>Round trips\<close>

text \<open>The three forms the writers store are encodings of the number they hold.\<close>

lemma small_one:
  assumes "n \<le> 0x7F"
  shows "number_bytes [ucast n] n"
proof -
  have "7 \<le> k \<Longrightarrow> \<not> bit n k" for k
    by (rule not_bit_if_small [of n 7]) (use assms in \<open>simp_all add: word_le_nat_alt\<close>)
  then have "(ucast n :: u8) AND 0x80 = 0" "ucast (ucast n :: u8) = n"
    unfolding word_eq8 word_eq32 by (simp_all add: all_bits bit_simps)
  then show ?thesis using number_bytes.one [of "ucast n"] by simp
qed

lemma small_two:
  assumes "n \<le> 0x3FFF"
  shows "number_bytes [ucast (drop_bit 8 n OR 0x80), ucast (n AND 0xff)] n"
proof -
  let ?b0 = "ucast (drop_bit 8 n OR 0x80) :: u8" and ?b1 = "ucast (n AND 0xff) :: u8"
  have "14 \<le> k \<Longrightarrow> \<not> bit n k" for k
    by (rule not_bit_if_small [of n 14]) (use assms in \<open>simp_all add: word_le_nat_alt\<close>)
  then have "?b0 AND 0xC0 = 0x80" "push_bit 8 (ucast (?b0 AND 0x3f)) OR ucast ?b1 = n"
    unfolding word_eq8 word_eq32 by (simp_all add: all_bits bit_simps)
  then show ?thesis using number_bytes.two [of ?b0 ?b1] by simp
qed

lemma small_four:
  assumes "n \<le> 0x1FFFFFFF"
  shows "number_bytes [ucast (drop_bit 24 n OR 0xC0), ucast (drop_bit 16 n AND 0xff),
           ucast (drop_bit 8 n AND 0xff), ucast (n AND 0xff)] n"
proof -
  let ?b0 = "ucast (drop_bit 24 n OR 0xC0) :: u8" and ?b1 = "ucast (drop_bit 16 n AND 0xff) :: u8"
  let ?b2 = "ucast (drop_bit 8 n AND 0xff) :: u8" and ?b3 = "ucast (n AND 0xff) :: u8"
  have "29 \<le> k \<Longrightarrow> \<not> bit n k" for k
    by (rule not_bit_if_small [of n 29]) (use assms in \<open>simp_all add: word_le_nat_alt\<close>)
  then have "?b0 AND 0xE0 = 0xC0"
    "push_bit 24 (ucast (?b0 AND 0x1f)) OR push_bit 16 (ucast ?b1) OR push_bit 8 (ucast ?b2) OR ucast ?b3 = n"
    unfolding word_eq8 word_eq32 by (simp_all add: all_bits bit_simps)
  then show ?thesis using number_bytes.four [of ?b0 ?b1 ?b2 ?b3] by simp
qed

lemma CompressData_number:
  assumes "iLen \<le> 0x1FFFFFFF"
  shows "number_bytes (snd (CorSigCompressData iLen)) iLen"
    and "fst (CorSigCompressData iLen) = of_nat (length (snd (CorSigCompressData iLen)))"
  using assms by (simp_all add: CorSigCompressData_def small_one small_two small_four)

lemma number_bytes_le:
  assumes "number_bytes bs n"
  shows "n \<le> 0x1FFFFFFF"
proof -
  have "\<forall>k<32. 29 \<le> k \<longrightarrow> \<not> bit n k"
    using assms by cases (simp_all add: all_bits bit_simps)
  then have "unat n < 2 ^ 29" by (rule small_u32)
  then show ?thesis by (simp add: word_le_nat_alt)
qed

text \<open>Two encodings of one number differ at most in length; the writer's is the shortest.\<close>

lemma number_bytes_length_bound:
  assumes "number_bytes bs n"
  shows "length (snd (CorSigCompressData n)) \<le> length bs"
  using assms
proof cases
  case (one b0)
  have "\<forall>k<32. 7 \<le> k \<longrightarrow> \<not> bit (ucast b0 :: u32) k"
    using one(3) unfolding word_eq8 by (simp add: all_bits bit_simps)
  then have "unat (ucast b0 :: u32) < 2 ^ 7" by (rule small_u32)
  then have "n \<le> 0x7F" using one(2) by (simp add: word_le_nat_alt)
  with one show ?thesis by (simp add: CorSigCompressData_def)
next
  case (two b0 b1)
  have "\<forall>k<32. 14 \<le> k \<longrightarrow> \<not> bit n k"
    using two(2) by (simp add: all_bits bit_simps)
  then have "unat n < 2 ^ 14" by (rule small_u32)
  then have "n \<le> 0x3FFF" by (simp add: word_le_nat_alt)
  with two show ?thesis by (simp add: CorSigCompressData_def)
next
  case (four b0 b1 b2 b3)
  with number_bytes_le [OF assms] show ?thesis by (simp add: CorSigCompressData_def)
qed

text \<open>
  every number up to 0x1FFFFFFF survives the trip through its compressed form, in any
  context, with the size the writer returned.
\<close>

theorem compress_uncompress_roundtrip:
  assumes "iLen \<le> 0x1FFFFFFF"
  shows "CorSigUncompressData (snd (CorSigCompressData iLen) @ rest) =
           Done (fst (CorSigCompressData iLen), iLen)"
  using assms by (simp add: UncompressData_number [OF CompressData_number(1)] CompressData_number(2))

theorem compress_uncompress_roundtrip_witness:
  "CorSigUncompressData (snd (CorSigCompressData 0x2E57) @ [0x12]) = Done (2, 0x2E57)"
  using compress_uncompress_roundtrip [of "0x2E57" "[0x12]"] by (simp add: CorSigCompressData_def)

section \<open>Tokens\<close>

text \<open>The number a token is written as.\<close>

definition token_number :: "mdToken \<Rightarrow> u32" where
  "token_number tk = push_bit 2 (RidFromToken tk) OR
     (if TypeFromToken tk = token_tag mdtTypeRef then 1
      else if TypeFromToken tk = token_tag mdtTypeSpec then 2
      else if TypeFromToken tk = token_tag mdtBaseType then 3 else 0)"

lemma RidFromToken_le: "RidFromToken tk \<le> 0xFFFFFF"
proof -
  have "\<forall>k<32. 24 \<le> k \<longrightarrow> \<not> bit (RidFromToken tk) k"
    by (simp add: RidFromToken_def all_bits bit_simps)
  then have "unat (RidFromToken tk) < 2 ^ 24" by (rule small_u32)
  then show ?thesis by (simp add: word_le_nat_alt)
qed

lemma token_number_le: "token_number tk \<le> 0x1FFFFFFF"
proof -
  have "\<forall>k<32. 29 \<le> k \<longrightarrow> \<not> bit (token_number tk) k"
    by (simp add: token_number_def RidFromToken_def all_bits bit_simps)
  then have "unat (token_number tk) < 2 ^ 29" by (rule small_u32)
  then show ?thesis by (simp add: word_le_nat_alt)
qed

lemma CompressToken_number: "CorSigCompressToken tk = CorSigCompressData (token_number tk)"
proof -
  have "\<not> RidFromToken tk > 0x3FFFFFF"
    using RidFromToken_le [of tk] by (simp add: word_le_nat_alt word_less_nat_alt)
  then show ?thesis
    by (simp add: CorSigCompressToken_def token_number_def g_tkCorEncodeToken_def Let_def)
qed

lemma token_number_split:
  "token_number tk AND 3 =
     (if TypeFromToken tk = token_tag mdtTypeRef then 1
      else if TypeFromToken tk = token_tag mdtTypeSpec then 2
      else if TypeFromToken tk = token_tag mdtBaseType then 3 else 0)"
  "drop_bit 2 (token_number tk) = RidFromToken tk"
proof -
  let ?r = "RidFromToken tk"
  have low: "(push_bit 2 ?r OR w) AND 3 = w" if "w \<in> {0, 1, 2, 3}" for w
    unfolding word_eq32 using that by (auto simp: all_bits bit_simps)
  have high: "drop_bit 2 (push_bit 2 ?r OR w) = ?r" if "w \<in> {0, 1, 2, 3}" for w
    unfolding word_eq32 using that by (auto simp: RidFromToken_def all_bits bit_simps)
  show "token_number tk AND 3 =
     (if TypeFromToken tk = token_tag mdtTypeRef then 1
      else if TypeFromToken tk = token_tag mdtTypeSpec then 2
      else if TypeFromToken tk = token_tag mdtBaseType then 3 else 0)"
    unfolding token_number_def by (rule low) simp
  show "drop_bit 2 (token_number tk) = ?r"
    unfolding token_number_def by (rule high) simp
qed

lemma decode_token_number:
  "decode_token (token_number tk) =
     (if TypeFromToken tk \<in> set g_tkCorEncodeToken then tk
      else TokenFromRid (RidFromToken tk) (token_tag mdtTypeDef))"
  using token_split [of tk]
  by (auto simp: decode_token_def token_number_split g_tkCorEncodeToken_def)

text \<open>
  a TypeDef, TypeRef, TypeSpec or BaseType token survives the trip through its
  compressed form; a token of any other table comes back as the TypeDef with the same
  row number, because the writer gives it the tag bits 00.
\<close>

theorem compress_token_roundtrip:
  "CorSigUncompressToken (snd (CorSigCompressToken tk) @ rest) =
     Done (fst (CorSigCompressToken tk),
           if TypeFromToken tk \<in> set g_tkCorEncodeToken then tk
           else TokenFromRid (RidFromToken tk) (token_tag mdtTypeDef))"
  by (simp add: CorSigUncompressToken_def CompressToken_number decode_token_number
      UncompressData_number [OF CompressData_number(1)] CompressData_number(2) token_number_le)

section \<open>Signed numbers survive\<close>

text \<open>What the reader makes of a number that was written with the sign in its lowest bit.\<close>

lemma UncompressSigned_number:
  assumes "number_bytes bs v" and "of_nat (length bs) \<noteq> (-1 :: u32)"
  shows "CorSigUncompressSignedInt (bs @ r) = Done (of_nat (length bs), Some
    (if v AND 1 \<noteq> 0 then drop_bit 1 v OR (if length bs = 1 then SIGN_MASK_ONEBYTE
        else if length bs = 2 then SIGN_MASK_TWOBYTE else SIGN_MASK_FOURBYTE)
     else drop_bit 1 v))"
  using assms number_bytes_length [OF assms(1)]
  by (auto simp: CorSigUncompressSignedInt_def UncompressData_number)

definition signed_small :: "u32 \<Rightarrow> u32 \<Rightarrow> bool" where
  "signed_small m i \<longleftrightarrow> i AND m = 0 \<or> i AND m = m"

definition signed_code :: "u32 \<Rightarrow> u32 \<Rightarrow> u32" where
  "signed_code m i = push_bit 1 (i AND NOT m) OR (if bit i 31 then 1 else 0)"

lemma bit_signed_code:
  "k < 32 \<Longrightarrow> bit (signed_code m i) k =
     (if k = 0 then bit i 31 else bit i (k - 1) \<and> \<not> bit m (k - 1))"
  by (cases "bit i 31"; cases k) (simp_all add: signed_code_def bit_simps del: push_bit_Suc)

lemma signed_fold:
  assumes "signed_small m i" and "m \<in> {SIGN_MASK_ONEBYTE, SIGN_MASK_TWOBYTE, SIGN_MASK_FOURBYTE}"
  shows "(if signed_code m i AND 1 \<noteq> 0 then drop_bit 1 (signed_code m i) OR m
          else drop_bit 1 (signed_code m i)) = i"
proof -
  have v1: "signed_code m i AND 1 = (if bit i 31 then 1 else 0)"
    unfolding word_eq32 by (simp add: all_bits bit_simps bit_signed_code)
  have v2: "drop_bit 1 (signed_code m i) = i AND NOT m"
    unfolding word_eq32 using assms(2) by (auto simp: all_bits bit_simps bit_signed_code)
  have m31: "bit m 31" using assms(2) by auto
  show ?thesis
  proof (cases "bit i 31")
    case True
    then have "bit (i AND m) 31" using m31 by (simp add: bit_and_iff)
    then have "i AND m \<noteq> 0" by force
    with assms(1) have "i AND m = m" by (simp add: signed_small_def)
    then have "bit m n \<Longrightarrow> bit i n" for n by (metis bit_and_iff)
    then have "(i AND NOT m) OR m = i" by (intro bit_word_eqI) (auto simp: bit_simps)
    with True v1 v2 show ?thesis by simp
  next
    case False
    then have "i AND m \<noteq> m" using m31 by (metis bit_and_iff)
    with assms(1) have "i AND m = 0" by (simp add: signed_small_def)
    then have "\<not> (bit i n \<and> bit m n)" for n
      using bit_and_iff [of i m n] by simp
    then have "i AND NOT m = i" by (intro bit_word_eqI) (auto simp: bit_simps)
    with False v1 v2 show ?thesis by simp
  qed
qed

lemma signed_code_le:
  "signed_code SIGN_MASK_ONEBYTE i \<le> 0x7F"
  "signed_code SIGN_MASK_TWOBYTE i \<le> 0x3FFF"
  "signed_code SIGN_MASK_FOURBYTE i \<le> 0x1FFFFFFF"
proof -
  have "\<forall>k<32. 7 \<le> k \<longrightarrow> \<not> bit (signed_code SIGN_MASK_ONEBYTE i) k"
    by (simp add: all_bits bit_signed_code)
  from small_u32 [OF this] show "signed_code SIGN_MASK_ONEBYTE i \<le> 0x7F"
    by (simp add: word_le_nat_alt)
  have "\<forall>k<32. 14 \<le> k \<longrightarrow> \<not> bit (signed_code SIGN_MASK_TWOBYTE i) k"
    by (simp add: all_bits bit_signed_code)
  from small_u32 [OF this] show "signed_code SIGN_MASK_TWOBYTE i \<le> 0x3FFF"
    by (simp add: word_le_nat_alt)
  have "\<forall>k<32. 29 \<le> k \<longrightarrow> \<not> bit (signed_code SIGN_MASK_FOURBYTE i) k"
    by (simp add: all_bits bit_signed_code)
  from small_u32 [OF this] show "signed_code SIGN_MASK_FOURBYTE i \<le> 0x1FFFFFFF"
    by (simp add: word_le_nat_alt)
qed

lemma UncompressSigned_code:
  assumes "number_bytes bs (signed_code m i)" and "signed_small m i"
    and "m = (if length bs = 1 then SIGN_MASK_ONEBYTE
              else if length bs = 2 then SIGN_MASK_TWOBYTE else SIGN_MASK_FOURBYTE)"
  shows "CorSigUncompressSignedInt (bs @ r) = Done (of_nat (length bs), Some i)"
proof -
  have "of_nat (length bs) \<noteq> (-1 :: u32)"
    using number_bytes_length [OF assms(1)] by auto
  moreover have "m \<in> {SIGN_MASK_ONEBYTE, SIGN_MASK_TWOBYTE, SIGN_MASK_FOURBYTE}"
    using assms(3) by simp
  ultimately show ?thesis
    using UncompressSigned_number [OF assms(1), of r] signed_fold [OF assms(2)]
    unfolding assms(3) [symmetric] by simp
qed

lemma CompressSignedInt_code:
  "CorSigCompressSignedInt i =
     (if signed_small SIGN_MASK_ONEBYTE i then (1, [ucast (signed_code SIGN_MASK_ONEBYTE i)])
      else if signed_small SIGN_MASK_TWOBYTE i then
        (let v = signed_code SIGN_MASK_TWOBYTE i in
         (2, [ucast (drop_bit 8 v OR 0x80), ucast (v AND 0xff)]))
      else if signed_small SIGN_MASK_FOURBYTE i then
        (let v = signed_code SIGN_MASK_FOURBYTE i in
         (4, [ucast (drop_bit 24 v OR 0xC0), ucast (drop_bit 16 v AND 0xff),
              ucast (drop_bit 8 v AND 0xff), ucast (v AND 0xff)]))
      else (-1, []))"
  unfolding CorSigCompressSignedInt_def signed_small_def signed_code_def Let_def ..

text \<open>
  every signed number from \<open>- 2 ^ 28\<close> to \<open>2 ^ 28 - 1\<close> survives the trip through its
  compressed form, sign included.
\<close>

theorem compress_signed_roundtrip:
  assumes "signed_small SIGN_MASK_FOURBYTE iData"
  shows "CorSigUncompressSignedInt (snd (CorSigCompressSignedInt iData) @ rest) =
           Done (fst (CorSigCompressSignedInt iData), Some iData)"
proof -
  note code = UncompressSigned_code [where r = rest and i = iData]
  consider "signed_small SIGN_MASK_ONEBYTE iData"
    | "\<not> signed_small SIGN_MASK_ONEBYTE iData" "signed_small SIGN_MASK_TWOBYTE iData"
    | "\<not> signed_small SIGN_MASK_ONEBYTE iData" "\<not> signed_small SIGN_MASK_TWOBYTE iData"
    by blast
  then show ?thesis
  proof cases
    case 1
    with code [OF small_one [OF signed_code_le(1)]] show ?thesis
      by (simp add: CompressSignedInt_code)
  next
    case 2
    with code [OF small_two [OF signed_code_le(2)]] show ?thesis
      by (simp add: CompressSignedInt_code Let_def)
  next
    case 3
    with assms code [OF small_four [OF signed_code_le(3)]] show ?thesis
      by (simp add: CompressSignedInt_code Let_def)
  qed
qed

theorem compress_signed_roundtrip_witness:
  "CorSigUncompressSignedInt (snd (CorSigCompressSignedInt (- 8192)) @ []) = Done (2, Some (- 8192))"
  using compress_signed_roundtrip [of "- 8192" "[]"]
  by (simp add: CorSigCompressSignedInt_def signed_small_def Let_def)

end
