(* ===== verification/SigHelpers.thy ===== *)
theory SigHelpers
  imports CorSig
begin

text \<open>
  The recursive-descent recogniser of type signatures of \<^verbatim>\<open>sig_helpers.cpp\<close>. It moves a
  pointer through a signature whose length it does not know, so a read past the buffer is
  possible and is the outcome \<open>Overread\<close>; a successful parse is \<open>Done\<close> with the bytes
  after the type. The recursion of \<^verbatim>\<open>ParseType\<close> is bounded by fuel; the routines it
  calls take the recursive call as their argument.
\<close>

section \<open>The routines\<close>

definition ParseNumber :: "bytes \<Rightarrow> (u32 \<times> bytes) outcome" where
  "ParseNumber p_sig =
     obind (CorSigUncompressData p_sig) (\<lambda>(result, number).
       if result = -1 then Reject else Done (number, drop (unat result) p_sig))"

definition ParseTypeDefOrRefEncoded :: "bytes \<Rightarrow> bytes outcome" where
  "ParseTypeDefOrRefEncoded p_sig =
     obind (CorSigUncompressToken p_sig) (\<lambda>(result, type_token).
       if result = -1 then Reject else Done (drop (unat result) p_sig))"

definition is_cmod :: "u8 \<Rightarrow> bool" where
  "is_cmod b \<longleftrightarrow> b = elt ELEMENT_TYPE_CMOD_OPT \<or> b = elt ELEMENT_TYPE_CMOD_REQD"

definition ParseCustomMod :: "bytes \<Rightarrow> bytes outcome" where
  "ParseCustomMod p_sig =
     obind (peek p_sig) (\<lambda>b. if is_cmod b then ParseTypeDefOrRefEncoded (tl p_sig) else Reject)"

lemma ParseNumber_shorter: "ParseNumber p = Done (n, r) \<Longrightarrow> length r < length p"
  by (auto simp: ParseNumber_def outcome_simps split: if_splits dest!: UncompressData_Done
      dest: number_bytes_length)

lemma ParseTypeDefOrRefEncoded_shorter: "ParseTypeDefOrRefEncoded p = Done r \<Longrightarrow> length r < length p"
  by (auto simp: ParseTypeDefOrRefEncoded_def CorSigUncompressToken_def outcome_simps split: if_splits
      dest!: UncompressData_Done dest: number_bytes_length)

lemma ParseCustomMod_shorter: "ParseCustomMod p = Done r \<Longrightarrow> length r < length p"
  by (auto simp: ParseCustomMod_def outcome_simps split: if_splits
      dest!: ParseTypeDefOrRefEncoded_shorter)

text \<open>The loop over custom modifiers: it ends at the first byte that is not one.\<close>

function ParseOptionalCustomMods :: "bytes \<Rightarrow> bytes outcome" where
  "ParseOptionalCustomMods p_sig =
     obind (peek p_sig) (\<lambda>b.
       if is_cmod b then obind (ParseCustomMod p_sig) ParseOptionalCustomMods
       else Done p_sig)"
  by pat_completeness auto
termination
  by (relation "measure length") (auto dest: ParseCustomMod_shorter)

declare ParseOptionalCustomMods.simps [simp del]

text \<open>\<^verbatim>\<open>ParseRetType\<close> and \<^verbatim>\<open>ParseParam\<close>, over the parser of types \<open>pt\<close>.\<close>

definition ParseRetType :: "(bytes \<Rightarrow> bytes outcome) \<Rightarrow> bytes \<Rightarrow> bytes outcome" where
  "ParseRetType pt p_sig =
     obind (ParseOptionalCustomMods p_sig) (\<lambda>p.
       obind (peek p) (\<lambda>b.
         if b = elt ELEMENT_TYPE_TYPEDBYREF \<or> b = elt ELEMENT_TYPE_VOID then Done (tl p)
         else pt (if b = elt ELEMENT_TYPE_BYREF then tl p else p)))"

definition ParseParam :: "(bytes \<Rightarrow> bytes outcome) \<Rightarrow> bytes \<Rightarrow> bytes outcome" where
  "ParseParam pt p_sig =
     obind (ParseOptionalCustomMods p_sig) (\<lambda>p.
       obind (peek p) (\<lambda>b.
         if b = elt ELEMENT_TYPE_TYPEDBYREF then Done (tl p)
         else pt (if b = elt ELEMENT_TYPE_BYREF then tl p else p)))"

text \<open>The parameter loop of \<^verbatim>\<open>ParseMethod\<close>, with its \<^verbatim>\<open>sentinel_found\<close> flag.\<close>

primrec ParseParams :: "(bytes \<Rightarrow> bytes outcome) \<Rightarrow> nat \<Rightarrow> bool \<Rightarrow> bytes \<Rightarrow> bytes outcome" where
  "ParseParams pt 0 sentinel_found p_sig = Done p_sig"
| "ParseParams pt (Suc n) sentinel_found p_sig =
     obind (peek p_sig) (\<lambda>b.
       if b = elt ELEMENT_TYPE_SENTINEL then
         (if sentinel_found then Reject
          else obind (ParseParam pt (tl p_sig)) (ParseParams pt n True))
       else obind (ParseParam pt p_sig) (ParseParams pt n sentinel_found))"

definition ParseMethod :: "(bytes \<Rightarrow> bytes outcome) \<Rightarrow> bytes \<Rightarrow> bytes outcome" where
  "ParseMethod pt p_sig =
     obind (peek p_sig) (\<lambda>b.
       obind (if b = IMAGE_CEE_CS_CALLCONV_GENERIC
              then obind (ParseNumber (tl p_sig)) (\<lambda>(generic_count, p). Done p)
              else Done p_sig) (\<lambda>p.
         obind (ParseNumber p) (\<lambda>(param_count, p).
           obind (ParseRetType pt p) (ParseParams pt (unat param_count) False))))"

text \<open>The loops of \<^verbatim>\<open>ParseArrayShape\<close> over the sizes and the lower bounds.\<close>

primrec ParseNumbers :: "nat \<Rightarrow> bytes \<Rightarrow> bytes outcome" where
  "ParseNumbers 0 p_sig = Done p_sig"
| "ParseNumbers (Suc n) p_sig = obind (ParseNumber p_sig) (\<lambda>(size, p). ParseNumbers n p)"

definition ParseArrayShape :: "bytes \<Rightarrow> bytes outcome" where
  "ParseArrayShape p_sig =
     obind (ParseNumber p_sig) (\<lambda>(rank, p).
       obind (ParseNumber p) (\<lambda>(numsizes, p).
         obind (ParseNumbers (unat numsizes) p) (\<lambda>p.
           obind (ParseNumber p) (\<lambda>(numsizes, p). ParseNumbers (unat numsizes) p))))"

text \<open>The loop over the arguments of a generic instance.\<close>

primrec ParseTypes :: "(bytes \<Rightarrow> bytes outcome) \<Rightarrow> nat \<Rightarrow> bytes \<Rightarrow> bytes outcome" where
  "ParseTypes pt 0 p_sig = Done p_sig"
| "ParseTypes pt (Suc n) p_sig = obind (pt p_sig) (ParseTypes pt n)"

text \<open>The body of \<^verbatim>\<open>ParseType\<close>, after the element type has been read.\<close>

definition ParseTypeBody ::
  "(bytes \<Rightarrow> bytes outcome) \<Rightarrow> CorElementType option \<Rightarrow> bytes \<Rightarrow> bytes outcome" where
  "ParseTypeBody pt cor_element_type p =
     (case cor_element_type of None \<Rightarrow> Reject | Some e \<Rightarrow>
       (case e of
          ELEMENT_TYPE_VOID \<Rightarrow> Done p
        | ELEMENT_TYPE_BOOLEAN \<Rightarrow> Done p
        | ELEMENT_TYPE_CHAR \<Rightarrow> Done p
        | ELEMENT_TYPE_I1 \<Rightarrow> Done p
        | ELEMENT_TYPE_U1 \<Rightarrow> Done p
        | ELEMENT_TYPE_I2 \<Rightarrow> Done p
        | ELEMENT_TYPE_U2 \<Rightarrow> Done p
        | ELEMENT_TYPE_I4 \<Rightarrow> Done p
        | ELEMENT_TYPE_U4 \<Rightarrow> Done p
        | ELEMENT_TYPE_I8 \<Rightarrow> Done p
        | ELEMENT_TYPE_U8 \<Rightarrow> Done p
        | ELEMENT_TYPE_R4 \<Rightarrow> Done p
        | ELEMENT_TYPE_R8 \<Rightarrow> Done p
        | ELEMENT_TYPE_STRING \<Rightarrow> Done p
        | ELEMENT_TYPE_OBJECT \<Rightarrow> Done p
        | ELEMENT_TYPE_PTR \<Rightarrow>
            obind (ParseOptionalCustomMods p) (\<lambda>p.
              obind (peek p) (\<lambda>b. if b = elt ELEMENT_TYPE_VOID then Done (tl p) else pt p))
        | ELEMENT_TYPE_VALUETYPE \<Rightarrow> ParseTypeDefOrRefEncoded p
        | ELEMENT_TYPE_CLASS \<Rightarrow> ParseTypeDefOrRefEncoded p
        | ELEMENT_TYPE_FNPTR \<Rightarrow> ParseMethod pt p
        | ELEMENT_TYPE_ARRAY \<Rightarrow> obind (pt p) ParseArrayShape
        | ELEMENT_TYPE_SZARRAY \<Rightarrow> obind (ParseOptionalCustomMods p) pt
        | ELEMENT_TYPE_GENERICINST \<Rightarrow>
            obind (peek p) (\<lambda>b.
              if b \<noteq> elt ELEMENT_TYPE_VALUETYPE \<and> b \<noteq> elt ELEMENT_TYPE_CLASS then Reject
              else obind (ParseTypeDefOrRefEncoded (tl p)) (\<lambda>p.
                     obind (ParseNumber p) (\<lambda>(number, p). ParseTypes pt (unat number) p)))
        | ELEMENT_TYPE_VAR \<Rightarrow> obind (ParseNumber p) (\<lambda>(number, p). Done p)
        | ELEMENT_TYPE_MVAR \<Rightarrow> obind (ParseNumber p) (\<lambda>(number, p). Done p)
        | _ \<Rightarrow> Reject))"

primrec ParseType_fuel :: "nat \<Rightarrow> bytes \<Rightarrow> bytes outcome" where
  "ParseType_fuel 0 p_sig = NoFuel"
| "ParseType_fuel (Suc fuel) p_sig =
     obind (peek p_sig) (\<lambda>b. ParseTypeBody (ParseType_fuel fuel) (to_elt b) (tl p_sig))"

text \<open>Every recursive call has consumed a byte, so the length of the buffer bounds the depth.\<close>

definition ParseType :: "bytes \<Rightarrow> bytes outcome" where
  "ParseType p_sig = ParseType_fuel (Suc (length p_sig)) p_sig"

section \<open>The accepted language\<close>

text \<open>
  The language of the recogniser as a grammar over bytes, rule by rule after the
  comments of the source. The nonterminals for return types, parameters and methods take
  the language of types as a parameter.
\<close>

inductive mods :: "bytes \<Rightarrow> bool" where
  mods_Nil: "mods []"
| mods_Cons: "is_cmod b \<Longrightarrow> number_bytes t n \<Longrightarrow> mods m \<Longrightarrow> mods (b # t @ m)"

lemma mods_start: "mods (b # m) \<Longrightarrow> is_cmod b"
  by (erule mods.cases) auto

inductive byref_type :: "(bytes \<Rightarrow> bool) \<Rightarrow> bytes \<Rightarrow> bool" for T where
  plain: "T x \<Longrightarrow> byref_type T x"
| byref: "T x \<Longrightarrow> byref_type T (elt ELEMENT_TYPE_BYREF # x)"

text \<open>\<open>bare\<close> holds the element types that stand alone: TYPEDBYREF, and VOID for a result.\<close>

inductive slot :: "u8 set \<Rightarrow> (bytes \<Rightarrow> bool) \<Rightarrow> bytes \<Rightarrow> bool" for bare T where
  slot_bare: "mods m \<Longrightarrow> b \<in> bare \<Longrightarrow> slot bare T (m @ [b])"
| slot_type: "mods m \<Longrightarrow> byref_type T x \<Longrightarrow> slot bare T (m @ x)"

abbreviation ret_type :: "(bytes \<Rightarrow> bool) \<Rightarrow> bytes \<Rightarrow> bool" where
  "ret_type \<equiv> slot {elt ELEMENT_TYPE_TYPEDBYREF, elt ELEMENT_TYPE_VOID}"

abbreviation param :: "(bytes \<Rightarrow> bool) \<Rightarrow> bytes \<Rightarrow> bool" where
  "param \<equiv> slot {elt ELEMENT_TYPE_TYPEDBYREF}"

text \<open>A parameter list; the flag says whether the sentinel has been seen.\<close>

inductive params :: "(bytes \<Rightarrow> bool) \<Rightarrow> nat \<Rightarrow> bool \<Rightarrow> bytes \<Rightarrow> bool" for T where
  params_Nil: "params T 0 found []"
| params_Cons: "param T p \<Longrightarrow> params T n found ps \<Longrightarrow> params T (Suc n) found (p @ ps)"
| params_Sentinel: "param T p \<Longrightarrow> params T n True ps \<Longrightarrow>
     params T (Suc n) False (elt ELEMENT_TYPE_SENTINEL # p @ ps)"

inductive seq :: "(bytes \<Rightarrow> bool) \<Rightarrow> nat \<Rightarrow> bytes \<Rightarrow> bool" for T where
  seq_Nil: "seq T 0 []"
| seq_Cons: "T x \<Longrightarrow> seq T n xs \<Longrightarrow> seq T (Suc n) (x @ xs)"

inductive method_sig :: "(bytes \<Rightarrow> bool) \<Rightarrow> bytes \<Rightarrow> bool" for T where
  method_plain: "number_bytes c n \<Longrightarrow> hd c \<noteq> IMAGE_CEE_CS_CALLCONV_GENERIC \<Longrightarrow>
     ret_type T r \<Longrightarrow> params T (unat n) False ps \<Longrightarrow> method_sig T (c @ r @ ps)"
| method_generic: "number_bytes g k \<Longrightarrow> number_bytes c n \<Longrightarrow>
     ret_type T r \<Longrightarrow> params T (unat n) False ps \<Longrightarrow>
     method_sig T (IMAGE_CEE_CS_CALLCONV_GENERIC # g @ c @ r @ ps)"

definition a_number :: "bytes \<Rightarrow> bool" where
  "a_number t \<longleftrightarrow> (\<exists>n. number_bytes t n)"

lemma a_numberI [intro]: "number_bytes t n \<Longrightarrow> a_number t"
  by (auto simp: a_number_def)

inductive array_shape :: "bytes \<Rightarrow> bool" where
  "a_number rank \<Longrightarrow> number_bytes ns n \<Longrightarrow> seq a_number (unat n) sizes \<Longrightarrow>
   number_bytes nl l \<Longrightarrow> seq a_number (unat l) bounds \<Longrightarrow>
   array_shape (rank @ ns @ sizes @ nl @ bounds)"

fun primitive :: "CorElementType \<Rightarrow> bool" where
  "primitive e \<longleftrightarrow> e \<in> {ELEMENT_TYPE_VOID, ELEMENT_TYPE_BOOLEAN, ELEMENT_TYPE_CHAR,
     ELEMENT_TYPE_I1, ELEMENT_TYPE_U1, ELEMENT_TYPE_I2, ELEMENT_TYPE_U2, ELEMENT_TYPE_I4,
     ELEMENT_TYPE_U4, ELEMENT_TYPE_I8, ELEMENT_TYPE_U8, ELEMENT_TYPE_R4, ELEMENT_TYPE_R8,
     ELEMENT_TYPE_STRING, ELEMENT_TYPE_OBJECT}"

lemma byref_type_mono [mono]: "T \<le> T' \<Longrightarrow> byref_type T \<le> byref_type T'"
  by (auto elim!: byref_type.cases intro: byref_type.intros)

lemma slot_mono [mono]: "T \<le> T' \<Longrightarrow> slot bare T \<le> slot bare T'"
  by (auto elim!: slot.cases intro: slot.intros dest: byref_type_mono [THEN predicate1D])

lemma params_mono [mono]: "T \<le> T' \<Longrightarrow> params T n found \<le> params T' n found"
proof (rule predicate1I)
  fix ps
  assume le: "T \<le> T'" and "params T n found ps"
  from this(2) show "params T' n found ps"
    by induction (use slot_mono [OF le, THEN predicate1D] in \<open>auto intro: params.intros\<close>)
qed

lemma seq_mono [mono]: "T \<le> T' \<Longrightarrow> seq T n \<le> seq T' n"
proof (rule predicate1I)
  fix xs
  assume le: "T \<le> T'" and "seq T n xs"
  from this(2) show "seq T' n xs"
    by induction (use le in \<open>auto intro: seq.intros\<close>)
qed

lemma method_sig_mono [mono]: "T \<le> T' \<Longrightarrow> method_sig T \<le> method_sig T'"
  by (auto elim!: method_sig.cases intro!: method_sig.intros
      dest: slot_mono [THEN predicate1D] params_mono [THEN predicate1D])

inductive type_sig :: "bytes \<Rightarrow> bool" where
  type_primitive: "primitive e \<Longrightarrow> type_sig [elt e]"
| type_modified: "e \<in> {ELEMENT_TYPE_PTR, ELEMENT_TYPE_SZARRAY} \<Longrightarrow> mods m \<Longrightarrow> type_sig t \<Longrightarrow>
     type_sig (elt e # m @ t)"
| type_named: "e \<in> {ELEMENT_TYPE_VALUETYPE, ELEMENT_TYPE_CLASS} \<Longrightarrow> a_number t \<Longrightarrow>
     type_sig (elt e # t)"
| type_fnptr: "method_sig type_sig m \<Longrightarrow> type_sig (elt ELEMENT_TYPE_FNPTR # m)"
| type_array: "type_sig t \<Longrightarrow> array_shape s \<Longrightarrow> type_sig (elt ELEMENT_TYPE_ARRAY # t @ s)"
| type_generic: "e \<in> {ELEMENT_TYPE_VALUETYPE, ELEMENT_TYPE_CLASS} \<Longrightarrow> a_number t \<Longrightarrow>
     number_bytes c n \<Longrightarrow> seq type_sig (unat n) ts \<Longrightarrow>
     type_sig (elt ELEMENT_TYPE_GENERICINST # elt e # t @ c @ ts)"
| type_variable: "e \<in> {ELEMENT_TYPE_VAR, ELEMENT_TYPE_MVAR} \<Longrightarrow> a_number t \<Longrightarrow>
     type_sig (elt e # t)"

section \<open>Reading numbers\<close>

lemma unat_small_length [simp]: "number_bytes t n \<Longrightarrow> unat (of_nat (length t) :: u32) = length t"
  by (drule number_bytes_length) auto

lemma small_length_not_minus_one [simp]: "number_bytes t n \<Longrightarrow> of_nat (length t) \<noteq> (-1 :: u32)"
  by (drule number_bytes_length) auto

lemma ParseNumber_complete: "number_bytes t n \<Longrightarrow> ParseNumber (t @ r) = Done (n, r)"
  by (simp add: ParseNumber_def UncompressData_number)

lemma ParseNumber_sound: "ParseNumber p = Done (n, r) \<Longrightarrow> \<exists>t. p = t @ r \<and> number_bytes t n"
  by (fastforce simp: ParseNumber_def outcome_simps split: if_splits dest!: UncompressData_Done)

lemma ParseNumber_not_NoFuel [simp]: "ParseNumber p \<noteq> NoFuel"
  by (auto simp: ParseNumber_def outcome_simps)

lemma ParseTypeDefOrRefEncoded_complete: "a_number t \<Longrightarrow> ParseTypeDefOrRefEncoded (t @ r) = Done r"
  by (auto simp: ParseTypeDefOrRefEncoded_def CorSigUncompressToken_def a_number_def UncompressData_number)

lemma ParseTypeDefOrRefEncoded_sound:
  "ParseTypeDefOrRefEncoded p = Done r \<Longrightarrow> \<exists>t. p = t @ r \<and> a_number t"
  by (fastforce simp: ParseTypeDefOrRefEncoded_def CorSigUncompressToken_def a_number_def outcome_simps
      split: if_splits dest!: UncompressData_Done)

lemma ParseTypeDefOrRefEncoded_not_NoFuel [simp]: "ParseTypeDefOrRefEncoded p \<noteq> NoFuel"
  by (auto simp: ParseTypeDefOrRefEncoded_def CorSigUncompressToken_def outcome_simps)

lemma ParseNumbers_sound: "ParseNumbers n p = Done r \<Longrightarrow> \<exists>t. p = t @ r \<and> seq a_number n t"
proof (induction n arbitrary: p)
  case 0
  then show ?case by (auto intro: seq.intros)
next
  case (Suc n)
  then obtain k q where k: "ParseNumber p = Done (k, q)" and q: "ParseNumbers n q = Done r"
    by (auto simp: outcome_simps)
  obtain t where "p = t @ q" "a_number t" using ParseNumber_sound [OF k] by blast
  moreover obtain t' where "q = t' @ r" "seq a_number n t'" using Suc.IH [OF q] by blast
  ultimately show ?case by (metis append.assoc seq_Cons)
qed

lemma ParseNumbers_complete: "seq a_number n t \<Longrightarrow> ParseNumbers n (t @ r) = Done r"
  by (induction rule: seq.induct) (auto simp: a_number_def ParseNumber_complete)

lemma ParseNumbers_not_NoFuel [simp]: "ParseNumbers n p \<noteq> NoFuel"
  by (induction n arbitrary: p) (auto simp: outcome_simps)

lemma ParseArrayShape_sound: "ParseArrayShape p = Done r \<Longrightarrow> \<exists>s. p = s @ r \<and> array_shape s"
  by (fastforce simp: ParseArrayShape_def outcome_simps a_number_def
      dest!: ParseNumber_sound ParseNumbers_sound intro: array_shape.intros)

lemma ParseArrayShape_complete: "array_shape s \<Longrightarrow> ParseArrayShape (s @ r) = Done r"
  by (erule array_shape.cases)
     (auto simp: ParseArrayShape_def a_number_def ParseNumber_complete ParseNumbers_complete)

lemma ParseArrayShape_not_NoFuel [simp]: "ParseArrayShape p \<noteq> NoFuel"
  by (auto simp: ParseArrayShape_def outcome_simps)

section \<open>Custom modifiers\<close>

lemma ParseOptionalCustomMods_sound:
  "ParseOptionalCustomMods p = Done r \<Longrightarrow> \<exists>m. p = m @ r \<and> mods m \<and> (\<exists>b q. r = b # q \<and> \<not> is_cmod b)"
proof (induction p rule: ParseOptionalCustomMods.induct)
  case (1 p)
  then obtain b q where p: "p = b # q"
    by (subst (asm) ParseOptionalCustomMods.simps) (auto simp: outcome_simps)
  show ?case
  proof (cases "is_cmod b")
    case False
    then show ?thesis using 1(2) p
      by (subst (asm) ParseOptionalCustomMods.simps) (auto intro: mods_Nil)
  next
    case True
    then obtain p' where p': "ParseTypeDefOrRefEncoded q = Done p'" "ParseOptionalCustomMods p' = Done r"
      using 1(2) p by (subst (asm) ParseOptionalCustomMods.simps) (auto simp: ParseCustomMod_def outcome_simps)
    with 1(1) True p have "\<exists>m. p' = m @ r \<and> mods m \<and> (\<exists>b q. r = b # q \<and> \<not> is_cmod b)"
      by (auto simp: ParseCustomMod_def)
    moreover obtain t n where "q = t @ p'" "number_bytes t n"
      using ParseTypeDefOrRefEncoded_sound [OF p'(1)] by (auto simp: a_number_def)
    ultimately show ?thesis using p True mods_Cons [of b t n] by auto
  qed
qed

lemma ParseOptionalCustomMods_complete:
  "mods m \<Longrightarrow> r = b # q \<Longrightarrow> \<not> is_cmod b \<Longrightarrow> ParseOptionalCustomMods (m @ r) = Done r"
proof (induction rule: mods.induct)
  case mods_Nil
  then show ?case by (subst ParseOptionalCustomMods.simps) simp
next
  case (mods_Cons c t n m)
  then show ?case
    using ParseTypeDefOrRefEncoded_complete [OF a_numberI [OF mods_Cons(2)], of "m @ r"]
    by (subst ParseOptionalCustomMods.simps) (simp add: ParseCustomMod_def)
qed

lemma ParseOptionalCustomMods_not_NoFuel [simp]: "ParseOptionalCustomMods p \<noteq> NoFuel"
proof (induction p rule: ParseOptionalCustomMods.induct)
  case (1 p)
  show ?case
    by (subst ParseOptionalCustomMods.simps)
       (use 1 in \<open>auto simp: outcome_simps ParseCustomMod_def split: if_splits\<close>)
qed

section \<open>Return types and parameters are one shape\<close>

definition ParseSlot :: "u8 set \<Rightarrow> (bytes \<Rightarrow> bytes outcome) \<Rightarrow> bytes \<Rightarrow> bytes outcome" where
  "ParseSlot bare pt p_sig =
     obind (ParseOptionalCustomMods p_sig) (\<lambda>p. obind (peek p) (\<lambda>b.
       if b \<in> bare then Done (tl p) else pt (if b = elt ELEMENT_TYPE_BYREF then tl p else p)))"

lemma ParseRetType_slot:
  "ParseRetType pt p = ParseSlot {elt ELEMENT_TYPE_TYPEDBYREF, elt ELEMENT_TYPE_VOID} pt p"
  by (simp add: ParseRetType_def ParseSlot_def)

lemma ParseParam_slot: "ParseParam pt p = ParseSlot {elt ELEMENT_TYPE_TYPEDBYREF} pt p"
  by (simp add: ParseParam_def ParseSlot_def)

section \<open>Interfaces of the recursive call\<close>

text \<open>
  What the routines rely on when they call the parser of types: that what it consumed is a
  type; that it accepts every type (up to the length \<open>L\<close> its fuel covers); and that its
  fuel lasts for every buffer shorter than \<open>L\<close>. Each is a locale with the consequences for
  the routines; the fuelled parser is an instance of all three.
\<close>

locale sound_type_parser =
  fixes pt :: "bytes \<Rightarrow> bytes outcome" and T :: "bytes \<Rightarrow> bool"
  assumes pt_sound: "pt p = Done r \<Longrightarrow> \<exists>t. p = t @ r \<and> T t"
begin

lemma ParseByref_sound:
  assumes "pt (if b = elt ELEMENT_TYPE_BYREF then tl p else p) = Done r" and "p = b # q"
  shows "\<exists>x. p = x @ r \<and> byref_type T x"
proof (cases "b = elt ELEMENT_TYPE_BYREF")
  case True
  with assms obtain t where "q = t @ r" "T t" using pt_sound by auto
  with True assms(2) show ?thesis by (metis append_Cons byref_type.byref)
next
  case False
  with assms show ?thesis using pt_sound byref_type.plain by fastforce
qed

lemma ParseSlot_sound:
  assumes "ParseSlot bare pt p = Done r"
  shows "\<exists>s. p = s @ r \<and> slot bare T s"
proof -
  from assms obtain p' b q where m: "ParseOptionalCustomMods p = Done p'" and p': "p' = b # q"
    and k: "(if b \<in> bare then Done (tl p') else pt (if b = elt ELEMENT_TYPE_BYREF then tl p' else p')) = Done r"
    by (auto simp: ParseSlot_def outcome_simps)
  obtain m where m: "p = m @ b # q" "mods m" using ParseOptionalCustomMods_sound [OF m] p' by blast
  show ?thesis
  proof (cases "b \<in> bare")
    case True
    then show ?thesis using k m p' slot_bare [of m b bare T] by (intro exI [of _ "m @ [b]"]) auto
  next
    case False
    with k have "pt (if b = elt ELEMENT_TYPE_BYREF then tl p' else p') = Done r" by simp
    then obtain x where "b # q = x @ r" "byref_type T x" using ParseByref_sound p' by blast
    with m show ?thesis by (intro exI [of _ "m @ x"]) (auto intro: slot_type)
  qed
qed

lemmas ParseRetType_sound = ParseSlot_sound [of "{elt ELEMENT_TYPE_TYPEDBYREF, elt ELEMENT_TYPE_VOID}", folded ParseRetType_slot]
lemmas ParseParam_sound = ParseSlot_sound [of "{elt ELEMENT_TYPE_TYPEDBYREF}", folded ParseParam_slot]

lemma ParseParams_sound:
  "ParseParams pt n found p = Done r \<Longrightarrow> \<exists>ps. p = ps @ r \<and> params T n found ps"
proof (induction n arbitrary: found p)
  case 0
  then show ?case by (auto intro: params_Nil)
next
  case (Suc n)
  from Suc.prems obtain b q where p: "p = b # q" by (auto simp: outcome_simps)
  show ?case
  proof (cases "b = elt ELEMENT_TYPE_SENTINEL")
    case True
    with Suc.prems p have "\<not> found" by (auto split: if_splits)
    with True Suc.prems p obtain q' where q: "ParseParam pt q = Done q'" "ParseParams pt n True q' = Done r"
      by (auto simp: outcome_simps)
    obtain s ps where "q = s @ ps @ r" "param T s" "params T n True ps"
      using ParseParam_sound [OF q(1)] Suc.IH [OF q(2)] by blast
    then show ?thesis
      using True p \<open>\<not> found\<close> params_Sentinel
      by (intro exI [of _ "elt ELEMENT_TYPE_SENTINEL # s @ ps"]) auto
  next
    case False
    with Suc.prems p obtain q' where q: "ParseParam pt p = Done q'" "ParseParams pt n found q' = Done r"
      by (auto simp: outcome_simps)
    obtain s ps where "p = s @ ps @ r" "param T s" "params T n found ps"
      using ParseParam_sound [OF q(1)] Suc.IH [OF q(2)] by blast
    then show ?thesis by (intro exI [of _ "s @ ps"]) (auto intro: params_Cons)
  qed
qed

lemma ParseTypes_sound: "ParseTypes pt n p = Done r \<Longrightarrow> \<exists>ts. p = ts @ r \<and> seq T n ts"
proof (induction n arbitrary: p)
  case 0
  then show ?case by (auto intro: seq_Nil)
next
  case (Suc n)
  then obtain q where q: "pt p = Done q" "ParseTypes pt n q = Done r" by (auto simp: outcome_simps)
  obtain t ts where "p = t @ ts @ r" "T t" "seq T n ts"
    using pt_sound [OF q(1)] Suc.IH [OF q(2)] by blast
  then show ?case by (intro exI [of _ "t @ ts"]) (auto intro: seq_Cons)
qed

lemma ParseMethod_sound:
  assumes "ParseMethod pt p = Done r"
  shows "\<exists>m. p = m @ r \<and> method_sig T m"
proof -
  from assms obtain b q where p: "p = b # q" by (auto simp: ParseMethod_def outcome_simps)
  obtain p1 n p2 p3 where g: "(if b = IMAGE_CEE_CS_CALLCONV_GENERIC
        then obind (ParseNumber (tl p)) (\<lambda>(generic_count, p). Done p) else Done p) = Done p1"
    and n: "ParseNumber p1 = Done (n, p2)" and rt: "ParseRetType pt p2 = Done p3"
    and ps: "ParseParams pt (unat n) False p3 = Done r"
    using assms p by (auto simp: ParseMethod_def obind_Done_iff)
  obtain c x y where c: "p1 = c @ x @ y @ r" "number_bytes c n" "ret_type T x" "params T (unat n) False y"
    using ParseNumber_sound [OF n] ParseRetType_sound [OF rt] ParseParams_sound [OF ps] by blast
  show ?thesis
  proof (cases "b = IMAGE_CEE_CS_CALLCONV_GENERIC")
    case True
    then obtain k where k: "ParseNumber q = Done (k, p1)" using g p by (auto simp: outcome_simps)
    obtain t where "q = t @ p1" "number_bytes t k" using ParseNumber_sound [OF k] by blast
    then show ?thesis
      using True p c method_generic [of t k c n T x y]
      by (intro exI [of _ "IMAGE_CEE_CS_CALLCONV_GENERIC # t @ c @ x @ y"]) auto
  next
    case False
    then have "p = c @ x @ y @ r" using g c(1) by auto
    moreover have "hd c \<noteq> IMAGE_CEE_CS_CALLCONV_GENERIC"
      using False p calculation c(2) by (cases c) auto
    ultimately show ?thesis using c(2-4) method_plain by (intro exI [of _ "c @ x @ y"]) auto
  qed
qed

end

text \<open>What a type may start with, so that the bytes before it are read as intended.\<close>

definition type_start :: "CorElementType \<Rightarrow> bool" where
  "type_start e \<longleftrightarrow> e \<notin> {ELEMENT_TYPE_CMOD_OPT, ELEMENT_TYPE_CMOD_REQD, ELEMENT_TYPE_BYREF,
     ELEMENT_TYPE_TYPEDBYREF, ELEMENT_TYPE_SENTINEL}"

locale complete_type_parser =
  fixes pt :: "bytes \<Rightarrow> bytes outcome" and T :: "bytes \<Rightarrow> bool" and L :: nat
  assumes pt_complete: "T t \<Longrightarrow> length t < L \<Longrightarrow> pt (t @ r) = Done r"
    and T_start: "T t \<Longrightarrow> \<exists>e y. t = elt e # y \<and> type_start e"
    and T_void: "T (elt ELEMENT_TYPE_VOID # y) \<Longrightarrow> y = []"
begin

lemma mods_then:
  "mods m \<Longrightarrow> \<not> is_cmod b \<Longrightarrow> ParseOptionalCustomMods (m @ b # q) = Done (b # q)"
  by (rule ParseOptionalCustomMods_complete) auto

lemma start_not_cmod [simp]: "type_start e \<Longrightarrow> \<not> is_cmod (elt e)"
  by (auto simp: type_start_def is_cmod_def)

lemma ParseSlot_complete:
  assumes "slot bare T s" and "length s < L"
    and bare: "bare \<subseteq> {elt ELEMENT_TYPE_TYPEDBYREF, elt ELEMENT_TYPE_VOID}"
  shows "ParseSlot bare pt (s @ r) = Done r"
  using assms(1)
proof cases
  case (slot_bare m b)
  then have "\<not> is_cmod b" using bare by (auto simp: is_cmod_def)
  with slot_bare show ?thesis by (simp add: ParseSlot_def mods_then)
next
  case (slot_type m x)
  from slot_type(3) show ?thesis
  proof cases
    case plain
    then obtain e y where x: "x = elt e # y" "type_start e" using T_start by blast
    have "pt (x @ r) = Done r" using plain slot_type assms(2) by (intro pt_complete) auto
    moreover have "elt e \<in> bare \<Longrightarrow> y = []"
      using x plain T_void bare by (auto simp: type_start_def)
    ultimately show ?thesis
      using slot_type x by (auto simp: ParseSlot_def mods_then type_start_def)
  next
    case (byref t)
    have "pt (t @ r) = Done r" using byref slot_type assms(2) by (intro pt_complete) auto
    moreover have "elt ELEMENT_TYPE_BYREF \<notin> bare" using bare by auto
    ultimately show ?thesis
      using slot_type byref by (simp add: ParseSlot_def mods_then is_cmod_def)
  qed
qed

lemma ParseParam_complete: "param T s \<Longrightarrow> length s < L \<Longrightarrow> ParseParam pt (s @ r) = Done r"
  and ParseRetType_complete: "ret_type T s \<Longrightarrow> length s < L \<Longrightarrow> ParseRetType pt (s @ r) = Done r"
  by (simp_all add: ParseParam_slot ParseRetType_slot ParseSlot_complete)

lemma slot_start:
  assumes "slot bare T s" and "bare \<subseteq> {elt ELEMENT_TYPE_TYPEDBYREF, elt ELEMENT_TYPE_VOID}"
  shows "\<exists>b q. s = b # q \<and> b \<noteq> elt ELEMENT_TYPE_SENTINEL"
  using assms
proof cases
  case (slot_bare m b)
  then have "b \<noteq> elt ELEMENT_TYPE_SENTINEL" using assms(2) by auto
  with slot_bare show ?thesis
    by (cases m) (auto simp: is_cmod_def dest: mods_start)
next
  case (slot_type m x)
  then have "\<exists>b q. x = b # q \<and> b \<noteq> elt ELEMENT_TYPE_SENTINEL"
    by (auto elim!: byref_type.cases dest!: T_start simp: type_start_def)
  with slot_type show ?thesis
    by (cases m) (auto simp: is_cmod_def dest: mods_start)
qed

lemma ParseParams_complete:
  "params T n found ps \<Longrightarrow> length ps < L \<Longrightarrow> ParseParams pt n found (ps @ r) = Done r"
proof (induction rule: params.induct)
  case params_Nil
  then show ?case by simp
next
  case (params_Cons p n found ps)
  obtain b q where b: "p = b # q" "b \<noteq> elt ELEMENT_TYPE_SENTINEL"
    using slot_start [OF params_Cons(1)] by auto
  have "ParseParam pt (p @ ps @ r) = Done (ps @ r)"
    using params_Cons by (intro ParseParam_complete) auto
  with b params_Cons show ?case by simp
next
  case (params_Sentinel p n ps)
  have "ParseParam pt (p @ ps @ r) = Done (ps @ r)"
    using params_Sentinel by (intro ParseParam_complete) auto
  with params_Sentinel show ?case by simp
qed

lemma ParseTypes_complete: "seq T n ts \<Longrightarrow> length ts < L \<Longrightarrow> ParseTypes pt n (ts @ r) = Done r"
  by (induction rule: seq.induct) (auto simp: pt_complete)

lemma ParseMethod_complete:
  assumes "method_sig T m" and "length m < L"
  shows "ParseMethod pt (m @ r) = Done r"
  using assms(1)
proof cases
  case (method_plain c n x ps)
  then obtain b q where "c = b # q" by (cases c) auto
  moreover have "ParseRetType pt (x @ ps @ r) = Done (ps @ r)"
    using method_plain assms(2) by (intro ParseRetType_complete) auto
  moreover have "ParseParams pt (unat n) False (ps @ r) = Done r"
    using method_plain assms(2) by (intro ParseParams_complete) auto
  ultimately show ?thesis
    using method_plain ParseNumber_complete [of c n "x @ ps @ r"] by (simp add: ParseMethod_def)
next
  case (method_generic g k c n x ps)
  have "ParseRetType pt (x @ ps @ r) = Done (ps @ r)"
    using method_generic assms(2) by (intro ParseRetType_complete) auto
  moreover have "ParseParams pt (unat n) False (ps @ r) = Done r"
    using method_generic assms(2) by (intro ParseParams_complete) auto
  ultimately show ?thesis
    using method_generic ParseNumber_complete [of g k "c @ x @ ps @ r"]
      ParseNumber_complete [of c n "x @ ps @ r"] by (simp add: ParseMethod_def)
qed

end

locale fuelled_type_parser = sound_type_parser +
  fixes L :: nat
  assumes pt_fuel: "length p < L \<Longrightarrow> pt p \<noteq> NoFuel"
    and T_nonempty: "T t \<Longrightarrow> t \<noteq> []"
begin

lemma pt_shorter: "pt p = Done r \<Longrightarrow> length r < length p"
  using pt_sound T_nonempty by fastforce

lemma mods_le: "ParseOptionalCustomMods p = Done q \<Longrightarrow> length q \<le> length p"
  by (drule ParseOptionalCustomMods_sound) auto

lemma number_le: "ParseNumber p = Done (k, q) \<Longrightarrow> length q \<le> length p"
  by (drule ParseNumber_sound) auto

lemma param_le: "ParseParam pt p = Done q \<Longrightarrow> length q \<le> length p"
  by (drule ParseParam_sound) auto

lemma ret_type_le: "ParseRetType pt p = Done q \<Longrightarrow> length q \<le> length p"
  by (drule ParseRetType_sound) auto

lemma ParseSlot_fuel:
  assumes "length p < L"
  shows "ParseSlot bare pt p \<noteq> NoFuel"
  unfolding ParseSlot_def
proof (intro obind_not_NoFuel)
  fix q b
  assume "ParseOptionalCustomMods p = Done q"
  then have "length q < L" using mods_le assms by fastforce
  then show "(if b \<in> bare then Done (tl q)
      else pt (if b = elt ELEMENT_TYPE_BYREF then tl q else q)) \<noteq> NoFuel"
    by (simp add: pt_fuel)
qed simp_all

lemma ParseParam_fuel: "length p < L \<Longrightarrow> ParseParam pt p \<noteq> NoFuel"
  and ParseRetType_fuel: "length p < L \<Longrightarrow> ParseRetType pt p \<noteq> NoFuel"
  by (simp_all add: ParseParam_slot ParseRetType_slot ParseSlot_fuel)

lemma ParseParams_fuel: "length p < L \<Longrightarrow> ParseParams pt n found p \<noteq> NoFuel"
proof (induction n arbitrary: found p)
  case 0
  then show ?case by simp
next
  case (Suc n)
  have step: "obind (ParseParam pt q) (ParseParams pt n f) \<noteq> NoFuel" if q: "length q < L" for q f
  proof (rule obind_not_NoFuel)
    show "ParseParam pt q \<noteq> NoFuel" using q by (rule ParseParam_fuel)
    fix q' assume "ParseParam pt q = Done q'"
    then have "length q' < L" using param_le q by fastforce
    then show "ParseParams pt n f q' \<noteq> NoFuel" by (rule Suc.IH)
  qed
  have "length (tl p) < L" using Suc.prems by simp
  then show ?case unfolding ParseParams.simps
    by (intro obind_not_NoFuel) (simp_all add: step Suc.prems)
qed

lemma ParseTypes_fuel: "length p < L \<Longrightarrow> ParseTypes pt n p \<noteq> NoFuel"
proof (induction n arbitrary: p)
  case (Suc n)
  show ?case unfolding ParseTypes.simps
  proof (rule obind_not_NoFuel)
    show "pt p \<noteq> NoFuel" using Suc.prems by (rule pt_fuel)
    fix q assume "pt p = Done q"
    then have "length q < L" using pt_shorter Suc.prems by fastforce
    then show "ParseTypes pt n q \<noteq> NoFuel" by (rule Suc.IH)
  qed
qed simp

lemma ParseMethod_fuel:
  assumes l: "length p < L"
  shows "ParseMethod pt p \<noteq> NoFuel"
proof -
  have tail: "obind (ParseNumber q) (\<lambda>(c, p). obind (ParseRetType pt p) (ParseParams pt (unat c) False)) \<noteq> NoFuel"
    if q: "length q < L" for q
  proof (rule obind_not_NoFuel)
    fix x assume x: "ParseNumber q = Done x"
    obtain c q' where c: "x = (c, q')" by (cases x)
    have q': "length q' < L" using number_le x c q by fastforce
    have "obind (ParseRetType pt q') (ParseParams pt (unat c) False) \<noteq> NoFuel"
    proof (rule obind_not_NoFuel)
      show "ParseRetType pt q' \<noteq> NoFuel" using q' by (rule ParseRetType_fuel)
      fix q'' assume "ParseRetType pt q' = Done q''"
      then have "length q'' < L" using ret_type_le q' by fastforce
      then show "ParseParams pt (unat c) False q'' \<noteq> NoFuel" by (rule ParseParams_fuel)
    qed
    then show "(case x of (c, p) \<Rightarrow> obind (ParseRetType pt p) (ParseParams pt (unat c) False)) \<noteq> NoFuel"
      by (simp add: c)
  qed simp
  have lead: "length q' < L"
    if "(if b = IMAGE_CEE_CS_CALLCONV_GENERIC
         then obind (ParseNumber (tl p)) (\<lambda>(generic_count, p). Done p) else Done p) = Done q'" for b q'
    using that l number_le [of "tl p"] by (fastforce simp: obind_Done_iff split: if_splits)
  show ?thesis unfolding ParseMethod_def
    by (intro obind_not_NoFuel tail lead) (auto simp: obind_NoFuel_iff split: if_splits)
qed

end

section \<open>The recogniser is exact\<close>

lemma type_sig_start: "type_sig t \<Longrightarrow> \<exists>e y. t = elt e # y \<and> type_start e"
  by (erule type_sig.cases) (auto simp: type_start_def)

lemma type_sig_void: "type_sig (elt ELEMENT_TYPE_VOID # y) \<Longrightarrow> y = []"
  by (erule type_sig.cases) auto

lemma type_sig_void_one: "type_sig [elt ELEMENT_TYPE_VOID]"
  by (rule type_primitive) simp

lemma prefix_exI: "x # p = t @ r \<Longrightarrow> P t \<Longrightarrow> \<exists>t. x # p = t @ r \<and> P t"
  by blast

lemma ParseTypeBody_primitive: "primitive e \<Longrightarrow> ParseTypeBody pt (Some e) p = Done p"
  by (auto simp: ParseTypeBody_def)

lemma ParseTypeBody_accepts:
  "ParseTypeBody pt (Some e) p = Done r \<Longrightarrow> primitive e \<or>
     e \<in> {ELEMENT_TYPE_PTR, ELEMENT_TYPE_SZARRAY, ELEMENT_TYPE_FNPTR, ELEMENT_TYPE_ARRAY,
       ELEMENT_TYPE_GENERICINST, ELEMENT_TYPE_VALUETYPE, ELEMENT_TYPE_CLASS, ELEMENT_TYPE_VAR,
       ELEMENT_TYPE_MVAR}"
  by (cases e) (simp_all add: ParseTypeBody_def)

lemma ParseTypeBody_sound:
  assumes s: "sound_type_parser pt type_sig" and b: "ParseTypeBody pt (Some e) p = Done r"
  shows "\<exists>t. elt e # p = t @ r \<and> type_sig t"
proof -
  note sound = sound_type_parser.pt_sound [OF s]
  have prim: ?thesis if "primitive e" "p = r"
    using that type_primitive [of e] by (intro prefix_exI [of _ _ "[elt e]"]) auto
  have modified: ?thesis if e: "e \<in> {ELEMENT_TYPE_PTR, ELEMENT_TYPE_SZARRAY}"
    and q: "ParseOptionalCustomMods p = Done q" and t: "\<exists>t. q = t @ r \<and> type_sig t" for q
  proof -
    obtain m t where "p = m @ t @ r" "mods m" "type_sig t"
      using ParseOptionalCustomMods_sound [OF q] t by blast
    then show ?thesis using type_modified [OF e, of m t] by (intro prefix_exI [of _ _ "elt e # m @ t"]) auto
  qed
  have named: ?thesis if e: "e \<in> {ELEMENT_TYPE_VALUETYPE, ELEMENT_TYPE_CLASS}"
    and q: "ParseTypeDefOrRefEncoded p = Done r"
    using ParseTypeDefOrRefEncoded_sound [OF q] type_named [OF e] by (metis append_Cons)
  have var: ?thesis if e: "e \<in> {ELEMENT_TYPE_VAR, ELEMENT_TYPE_MVAR}"
    and q: "ParseNumber p = Done (n, r)" for n
    using ParseNumber_sound [OF q] type_variable [OF e] by (metis a_numberI append_Cons)
  from ParseTypeBody_accepts [OF b]
  consider "primitive e" | "e = ELEMENT_TYPE_PTR" | "e = ELEMENT_TYPE_SZARRAY"
    | "e = ELEMENT_TYPE_FNPTR" | "e = ELEMENT_TYPE_ARRAY" | "e = ELEMENT_TYPE_GENERICINST"
    | "e \<in> {ELEMENT_TYPE_VALUETYPE, ELEMENT_TYPE_CLASS}"
    | "e \<in> {ELEMENT_TYPE_VAR, ELEMENT_TYPE_MVAR}" by blast
  then show ?thesis
  proof cases
    case 1
    with b show ?thesis by (intro prim) (simp_all add: ParseTypeBody_primitive)
  next
    case 2
    with b obtain q c where q: "ParseOptionalCustomMods p = Done q" and c: "peek q = Done c"
      and k: "(if c = elt ELEMENT_TYPE_VOID then Done (tl q) else pt q) = Done r"
      by (auto simp: ParseTypeBody_def obind_Done_iff)
    have "\<exists>t. q = t @ r \<and> type_sig t"
    proof (cases "c = elt ELEMENT_TYPE_VOID")
      case True
      with c k have "q = [elt ELEMENT_TYPE_VOID] @ r" by (auto simp: outcome_simps)
      then show ?thesis using type_sig_void_one by blast
    qed (use k sound in auto)
    with q show ?thesis using modified 2 by blast
  next
    case 3
    with b obtain q where "ParseOptionalCustomMods p = Done q" "pt q = Done r"
      by (auto simp: ParseTypeBody_def obind_Done_iff)
    then show ?thesis using modified 3 sound by blast
  next
    case 4
    with b have "ParseMethod pt p = Done r" by (simp add: ParseTypeBody_def)
    from sound_type_parser.ParseMethod_sound [OF s this] 4 show ?thesis
      using type_fnptr by (metis append_Cons)
  next
    case 5
    with b obtain q where q: "pt p = Done q" "ParseArrayShape q = Done r"
      by (auto simp: ParseTypeBody_def obind_Done_iff)
    obtain t x where "p = t @ x @ r" "type_sig t" "array_shape x"
      using sound [OF q(1)] ParseArrayShape_sound [OF q(2)] by blast
    then show ?thesis using type_array [of t x] 5
      by (intro prefix_exI [of _ _ "elt ELEMENT_TYPE_ARRAY # t @ x"]) auto
  next
    case 6
    with b obtain c q0 q1 n q2 where c: "p = c # q0"
      and e': "c = elt ELEMENT_TYPE_VALUETYPE \<or> c = elt ELEMENT_TYPE_CLASS"
      and q1: "ParseTypeDefOrRefEncoded q0 = Done q1" and n: "ParseNumber q1 = Done (n, q2)"
      and q2: "ParseTypes pt (unat n) q2 = Done r"
      by (auto simp: ParseTypeBody_def outcome_simps split: if_splits)
    obtain t x ts where "p = c # t @ x @ ts @ r" "a_number t" "number_bytes x n" "seq type_sig (unat n) ts"
      using c ParseTypeDefOrRefEncoded_sound [OF q1] ParseNumber_sound [OF n]
        sound_type_parser.ParseTypes_sound [OF s q2] by blast
    then show ?thesis using e' 6 type_generic [of _ t x n ts]
      by (intro prefix_exI [of _ _ "elt ELEMENT_TYPE_GENERICINST # c # t @ x @ ts"]) auto
  next
    case 7
    then have "ParseTypeBody pt (Some e) p = ParseTypeDefOrRefEncoded p"
      by (elim insertE) (simp_all add: ParseTypeBody_def)
    with b have "ParseTypeDefOrRefEncoded p = Done r" by metis
    with 7 show ?thesis by (rule named)
  next
    case 8
    then have "ParseTypeBody pt (Some e) p = obind (ParseNumber p) (\<lambda>(number, p). Done p)"
      by (elim insertE) (simp_all add: ParseTypeBody_def)
    with b have "\<exists>n. ParseNumber p = Done (n, r)" by (auto simp: obind_Done_iff)
    with 8 show ?thesis using var by blast
  qed
qed

lemma ParseType_fuel_sound: "ParseType_fuel f p = Done r \<Longrightarrow> \<exists>t. p = t @ r \<and> type_sig t"
proof (induction f arbitrary: p r)
  case 0
  then show ?case by simp
next
  case (Suc f)
  then have "sound_type_parser (ParseType_fuel f) type_sig" by unfold_locales
  moreover from Suc.prems obtain b q where "p = b # q" "ParseTypeBody (ParseType_fuel f) (to_elt b) q = Done r"
    by (auto simp: outcome_simps)
  moreover from this obtain e where "b = elt e" "to_elt b = Some e"
    by (cases "to_elt b") (auto simp: ParseTypeBody_def to_elt_Some_iff)
  ultimately show ?case using ParseTypeBody_sound by metis
qed

lemma ParseType_fuel_enough: "length p < f \<Longrightarrow> ParseType_fuel f p \<noteq> NoFuel"
proof (induction f arbitrary: p)
  case 0
  then show ?case by simp
next
  case (Suc f)
  let ?pt = "ParseType_fuel f"
  have l: "fuelled_type_parser ?pt type_sig f"
    using Suc.IH ParseType_fuel_sound type_sig_start by unfold_locales fastforce+
  note fuel = fuelled_type_parser.pt_fuel [OF l] fuelled_type_parser.ParseMethod_fuel [OF l]
    fuelled_type_parser.ParseTypes_fuel [OF l]
  show ?case unfolding ParseType_fuel.simps
  proof (rule obind_not_NoFuel)
    fix b assume "peek p = Done b"
    with Suc.prems have q: "length (tl p) < f" by (auto simp: outcome_simps)
    have mods: "length q' < f" if "ParseOptionalCustomMods (tl p) = Done q'" for q'
      using fuelled_type_parser.mods_le [OF l that] q by linarith
    have generic: "length q' < f"
      if "ParseTypeDefOrRefEncoded (tl (tl p)) = Done q''" "ParseNumber q'' = Done (n, q')" for q' q'' n
    proof -
      have "length q' < length q''" by (rule ParseNumber_shorter) (rule that)
      moreover have "length q'' < length (tl (tl p))"
        by (rule ParseTypeDefOrRefEncoded_shorter) (rule that)
      moreover have "length (tl (tl p)) \<le> length (tl p)" by simp
      ultimately show ?thesis using q by linarith
    qed
    show "ParseTypeBody ?pt (to_elt b) (tl p) \<noteq> NoFuel"
      using q
      by (auto simp: ParseTypeBody_def obind_NoFuel_iff fuel mods split: option.split CorElementType.split
          dest: generic)
  qed simp
qed

text \<open>Completeness: every type of the grammar is accepted once the fuel exceeds its length.\<close>

definition accepted :: "bytes \<Rightarrow> bool" where
  "accepted t \<longleftrightarrow> type_sig t \<and> (\<forall>fuel r. length t < fuel \<longrightarrow> ParseType_fuel fuel (t @ r) = Done r)"

lemma complete_accepted: "complete_type_parser (ParseType_fuel f) accepted f"
proof unfold_locales
  show "\<exists>e y. t = elt e # y \<and> type_start e" if "accepted t" for t
    using that by (auto simp: accepted_def dest: type_sig_start)
  show "y = []" if "accepted (elt ELEMENT_TYPE_VOID # y)" for y
    using that by (auto simp: accepted_def dest: type_sig_void)
qed (simp add: accepted_def)

lemma acceptedI:
  assumes "type_sig (elt e # t)"
    and "\<And>f r. length t < f \<Longrightarrow> ParseTypeBody (ParseType_fuel f) (Some e) (t @ r) = Done r"
  shows "accepted (elt e # t)"
  unfolding accepted_def
proof (intro conjI allI impI assms(1))
  fix f r
  assume "length (elt e # t) < f"
  then obtain f' where "f = Suc f'" "length t < f'" by (cases f) auto
  then show "ParseType_fuel f ((elt e # t) @ r) = Done r" by (simp add: assms(2))
qed

lemma accepted_type_sig: "accepted t \<Longrightarrow> type_sig t"
  by (simp add: accepted_def)

lemma accepted_mono: "method_sig accepted m \<Longrightarrow> method_sig type_sig m"
  "seq accepted n ts \<Longrightarrow> seq type_sig n ts"
  by (auto elim!: predicate1D [OF method_sig_mono, rotated] predicate1D [OF seq_mono, rotated]
      simp: accepted_def)

lemma accepted_modified:
  assumes e: "e \<in> {ELEMENT_TYPE_PTR, ELEMENT_TYPE_SZARRAY}" and m: "mods m" and t: "accepted t"
  shows "accepted (elt e # m @ t)"
proof (rule acceptedI)
  show "type_sig (elt e # m @ t)" using e m accepted_type_sig [OF t] by (rule type_modified)
  fix f and r :: bytes
  assume l: "length (m @ t) < f"
  obtain b y where b: "t = elt b # y" "type_start b" using type_sig_start [OF accepted_type_sig [OF t]] by blast
  have q: "ParseOptionalCustomMods (m @ t @ r) = Done (t @ r)"
    using complete_type_parser.mods_then [OF complete_accepted m] b
      complete_type_parser.start_not_cmod [OF complete_accepted] by auto
  have p: "ParseType_fuel f (t @ r) = Done r" using t l by (simp add: accepted_def)
  have v: "b = ELEMENT_TYPE_VOID \<Longrightarrow> y = []" using t b type_sig_void by (auto simp: accepted_def)
  from e show "ParseTypeBody (ParseType_fuel f) (Some e) ((m @ t) @ r) = Done r"
    by (elim insertE) (use q p b v in \<open>simp_all add: ParseTypeBody_def\<close>)
qed

lemma accepted_named:
  assumes e: "e \<in> {ELEMENT_TYPE_VALUETYPE, ELEMENT_TYPE_CLASS}" and t: "a_number t"
  shows "accepted (elt e # t)"
proof (rule acceptedI)
  show "type_sig (elt e # t)" using e t by (rule type_named)
  fix f and r :: bytes
  from e show "ParseTypeBody (ParseType_fuel f) (Some e) (t @ r) = Done r"
    by (elim insertE) (simp_all add: ParseTypeBody_def ParseTypeDefOrRefEncoded_complete t)
qed

lemma accepted_variable:
  assumes e: "e \<in> {ELEMENT_TYPE_VAR, ELEMENT_TYPE_MVAR}" and t: "a_number t"
  shows "accepted (elt e # t)"
proof (rule acceptedI)
  show "type_sig (elt e # t)" using e t by (rule type_variable)
  fix f and r :: bytes
  obtain n where "number_bytes t n" using t by (auto simp: a_number_def)
  from e ParseNumber_complete [OF this] show "ParseTypeBody (ParseType_fuel f) (Some e) (t @ r) = Done r"
    by (elim insertE) (simp_all add: ParseTypeBody_def)
qed

lemma accepted_generic:
  assumes e: "e \<in> {ELEMENT_TYPE_VALUETYPE, ELEMENT_TYPE_CLASS}" and t: "a_number t"
    and c: "number_bytes c n" and ts: "seq accepted (unat n) ts"
  shows "accepted (elt ELEMENT_TYPE_GENERICINST # elt e # t @ c @ ts)"
proof (rule acceptedI)
  show "type_sig (elt ELEMENT_TYPE_GENERICINST # elt e # t @ c @ ts)"
    using e t c accepted_mono(2) [OF ts] by (rule type_generic)
  fix f and r :: bytes
  assume "length (elt e # t @ c @ ts) < f"
  then have "ParseTypes (ParseType_fuel f) (unat n) (ts @ r) = Done r"
    by (intro complete_type_parser.ParseTypes_complete [OF complete_accepted ts]) simp
  with e show "ParseTypeBody (ParseType_fuel f) (Some ELEMENT_TYPE_GENERICINST) ((elt e # t @ c @ ts) @ r) = Done r"
    by (auto simp: ParseTypeBody_def ParseTypeDefOrRefEncoded_complete t ParseNumber_complete [OF c])
qed

lemma type_sig_accepted: "type_sig t \<Longrightarrow> accepted t"
proof (induction rule: type_sig.induct)
  case (type_primitive e)
  then show ?case
    by (intro acceptedI) (simp_all add: type_sig.type_primitive ParseTypeBody_primitive del: primitive.simps)
next
  case (type_modified e m t)
  then show ?case by (intro accepted_modified) auto
next
  case (type_named e t)
  then show ?case by (rule accepted_named)
next
  case (type_fnptr m)
  then have m: "method_sig accepted m"
    by (rule predicate1D [OF method_sig_mono, rotated]) auto
  show ?case
  proof (rule acceptedI)
    show "type_sig (elt ELEMENT_TYPE_FNPTR # m)" using accepted_mono(1) [OF m] by (rule type_sig.type_fnptr)
    show "ParseTypeBody (ParseType_fuel f) (Some ELEMENT_TYPE_FNPTR) (m @ r) = Done r" if "length m < f" for f r
      using complete_type_parser.ParseMethod_complete [OF complete_accepted m that]
      by (simp add: ParseTypeBody_def)
  qed
next
  case (type_array t s)
  show ?case
  proof (rule acceptedI)
    show "type_sig (elt ELEMENT_TYPE_ARRAY # t @ s)" using type_array by (intro type_sig.type_array) auto
    show "ParseTypeBody (ParseType_fuel f) (Some ELEMENT_TYPE_ARRAY) ((t @ s) @ r) = Done r"
      if "length (t @ s) < f" for f r
      using that type_array by (simp add: ParseTypeBody_def accepted_def ParseArrayShape_complete)
  qed
next
  case (type_generic e t c n ts)
  then have "seq accepted (unat n) ts"
    by (auto elim!: predicate1D [OF seq_mono, rotated])
  with type_generic show ?case by (intro accepted_generic) auto
next
  case (type_variable e t)
  then show ?case by (rule accepted_variable)
qed

text \<open>The three interfaces on the recogniser itself.\<close>

interpretation fuelled: fuelled_type_parser "ParseType_fuel f" type_sig f
  using ParseType_fuel_sound ParseType_fuel_enough type_sig_start by unfold_locales fastforce+

interpretation sigs: sound_type_parser ParseType type_sig
  by unfold_locales (simp only: ParseType_def ParseType_fuel_sound)

interpretation complete: complete_type_parser "ParseType_fuel f" type_sig f
  using type_sig_accepted type_sig_start type_sig_void
  by unfold_locales (auto simp: accepted_def)

section \<open>Properties\<close>

lemma ParseType_complete: "type_sig t \<Longrightarrow> ParseType (t @ r) = Done r"
  unfolding ParseType_def by (rule complete.pt_complete) simp_all


text \<open>The recursive descent ends on every input: the recursion depth never exceeds the buffer.\<close>

theorem ParseType_terminates: "ParseType p \<noteq> NoFuel"
  unfolding ParseType_def by (rule fuelled.pt_fuel) simp

text \<open>
  The grammar of types is unambiguous: no type is a proper prefix of another, so the end
  the recogniser computes is the only possible one.
\<close>

theorem type_sig_prefix_free: "type_sig t \<Longrightarrow> type_sig (t @ s) \<Longrightarrow> s = []"
  using ParseType_complete [of t s] ParseType_complete [of "t @ s" "[]"] by simp

theorem type_sig_prefix_free_witness:
  "type_sig [elt ELEMENT_TYPE_SZARRAY, elt ELEMENT_TYPE_I4] \<and> [] = ([] :: bytes)"
proof -
  have t: "type_sig [elt ELEMENT_TYPE_SZARRAY, elt ELEMENT_TYPE_I4]"
    using type_modified [OF _ mods_Nil type_primitive [of ELEMENT_TYPE_I4], of ELEMENT_TYPE_SZARRAY] by simp
  show ?thesis using t type_sig_prefix_free [OF t, of "[]"] t by simp
qed

text \<open>
  A function pointer is not parsed as the metadata format defines it: the calling
  convention byte is read as the number of parameters. For the signature of a default
  convention (byte 0) with one parameter the count 1 is then read as the return type VOID,
  and the recogniser stops three bytes in, before the real return type and parameter.
\<close>

theorem ParseType_fnptr_convention_is_count:
  "ParseType (elt ELEMENT_TYPE_FNPTR # IMAGE_CEE_CS_CALLCONV_DEFAULT # 1 # r) = Done r"
proof -
  have c: "number_bytes [0] 0" and v: "(1 :: u8) = elt ELEMENT_TYPE_VOID"
    by (simp_all add: number_bytes.simps elt.simps)
  have "ret_type type_sig [elt ELEMENT_TYPE_VOID]"
    using slot_bare [OF mods_Nil, of "elt ELEMENT_TYPE_VOID"] by simp
  then have "method_sig type_sig ([0] @ [elt ELEMENT_TYPE_VOID] @ [])"
    using c params_Nil by (intro method_plain) auto
  then show ?thesis
    using ParseType_complete [OF type_fnptr, of "[0, elt ELEMENT_TYPE_VOID]" r] v by simp
qed

end
