(* ===== verification/Strings.thy ===== *)
theory Strings
  imports Prelude
begin

text \<open>
  Strings of the native code (\<^verbatim>\<open>util.cpp\<close>, \<^verbatim>\<open>string.cpp\<close>): the operations of
  \<^verbatim>\<open>std::basic_string\<close> the profiler uses, \<^verbatim>\<open>Split\<close>, \<^verbatim>\<open>Trim\<close>, the values of environment
  variables, the hexadecimal and decimal renderings. The platform is the non-Windows
  one (\<^verbatim>\<open>_WIN32\<close> not defined).
\<close>

section \<open>std::basic_string\<close>

text \<open>Positions are \<open>None\<close> for \<^verbatim>\<open>npos\<close>; \<open>substr\<close> is only used with a position in range.\<close>

definition substr :: "'a list \<Rightarrow> nat \<Rightarrow> nat \<Rightarrow> 'a list" where
  "substr s pos n = take n (drop pos s)"

primrec find_first :: "('a \<Rightarrow> bool) \<Rightarrow> 'a list \<Rightarrow> nat option" where
  "find_first P [] = None"
| "find_first P (x # xs) = (if P x then Some 0 else map_option Suc (find_first P xs))"

primrec find_last :: "('a \<Rightarrow> bool) \<Rightarrow> 'a list \<Rightarrow> nat option" where
  "find_last P [] = None"
| "find_last P (x # xs) =
     (case find_last P xs of Some i \<Rightarrow> Some (Suc i) | None \<Rightarrow> if P x then Some 0 else None)"

lemma find_first_None: "find_first P s = None \<longleftrightarrow> (\<forall>x\<in>set s. \<not> P x)"
  by (induction s) auto

lemma find_first_Some:
  "find_first P s = Some i \<longleftrightarrow> i < length s \<and> P (s ! i) \<and> (\<forall>x\<in>set (take i s). \<not> P x)"
  by (induction s arbitrary: i) (auto simp: nth_Cons split: nat.splits)

lemma find_last_None: "find_last P s = None \<longleftrightarrow> (\<forall>x\<in>set s. \<not> P x)"
  by (induction s) (auto split: option.splits)

lemma find_last_Some:
  "find_last P s = Some i \<longleftrightarrow> i < length s \<and> P (s ! i) \<and> (\<forall>x\<in>set (drop (Suc i) s). \<not> P x)"
proof (induction s arbitrary: i)
  case (Cons x s)
  show ?case
  proof (cases "find_last P s")
    case None
    then have "\<forall>x\<in>set s. \<not> P x" by (simp only: find_last_None)
    then show ?thesis by (cases i) (auto simp: None)
  next
    case (Some j)
    then have eq: "j = k \<longleftrightarrow> k < length s \<and> P (s ! k) \<and> (\<forall>x\<in>set (drop (Suc k) s). \<not> P x)" for k
      using Cons.IH [of k] by simp
    then have "j < length s" "P (s ! j)" by auto
    with Some eq show ?thesis by (cases i) auto
  qed
qed simp

section \<open>Split\<close>

text \<open>The loop over the positions \<open>i\<close>; \<open>lpos\<close> is the start of the current piece.\<close>

function Split_loop :: "'a list \<Rightarrow> 'a \<Rightarrow> nat \<Rightarrow> nat \<Rightarrow> 'a list list" where
  "Split_loop s delim i lpos =
     (if i < length s then
        (if s ! i = delim then substr s lpos (i - lpos) # Split_loop s delim (i + 1) (i + 1)
         else Split_loop s delim (i + 1) lpos)
      else [drop lpos s])"
  by pat_completeness auto
termination by (relation "measure (\<lambda>(s, d, i, l). length s - i)") auto

declare Split_loop.simps [simp del]

definition Split :: "'a list \<Rightarrow> 'a \<Rightarrow> 'a list list" where
  "Split s delim = Split_loop s delim 0 0"

text \<open>The pieces put together again with the delimiter between them.\<close>

fun join :: "'a \<Rightarrow> 'a list list \<Rightarrow> 'a list" where
  "join d [] = []"
| "join d [p] = p"
| "join d (p # ps) = p @ d # join d ps"

lemma join_Cons: "ps \<noteq> [] \<Longrightarrow> join d (p # ps) = p @ d # join d ps"
  by (cases ps) auto

lemma Split_loop_not_Nil: "Split_loop s d i l \<noteq> []"
  by (induction s d i l rule: Split_loop.induct) (subst Split_loop.simps, simp)

lemma Split_loop_join: "l \<le> i \<Longrightarrow> i \<le> length s \<Longrightarrow> join d (Split_loop s d i l) = drop l s"
proof (induction s d i l rule: Split_loop.induct)
  case (1 s d i l)
  show ?case
  proof (cases "i < length s")
    case True
    show ?thesis
    proof (cases "s ! i = d")
      case d: True
      have "drop l s = substr s l (i - l) @ drop i s"
        using 1(3) True by (metis append_take_drop_id drop_drop le_add_diff_inverse2 substr_def)
      also have "drop i s = d # drop (i + 1) s" using Cons_nth_drop_Suc [OF True] d by simp
      finally show ?thesis using 1(1) True d
        by (subst Split_loop.simps) (simp add: join_Cons Split_loop_not_Nil)
    next
      case False
      then show ?thesis using 1 True by (subst Split_loop.simps) simp
    qed
  qed (subst Split_loop.simps, use 1 in simp)
qed

lemma Split_loop_pieces:
  "l \<le> i \<Longrightarrow> i \<le> length s \<Longrightarrow> d \<notin> set (substr s l (i - l)) \<Longrightarrow>
   p \<in> set (Split_loop s d i l) \<Longrightarrow> d \<notin> set p"
proof (induction s d i l rule: Split_loop.induct)
  case (1 s d i l)
  show ?case
  proof (cases "i < length s")
    case True
    have snoc: "substr s l (i + 1 - l) = substr s l (i - l) @ [s ! i]"
      using 1(3) True by (simp add: substr_def Suc_diff_le take_Suc_conv_app_nth)
    show ?thesis
    proof (cases "s ! i = d")
      case d: True
      have "p \<in> set (substr s l (i - l) # Split_loop s d (i + 1) (i + 1))"
        using 1(6) True d by (subst (asm) Split_loop.simps) simp
      with 1(1) [OF True d] 1(5) True show ?thesis by (auto simp: substr_def)
    next
      case False
      have "p \<in> set (Split_loop s d (i + 1) l)"
        using 1(6) True False by (subst (asm) Split_loop.simps) simp
      with 1(2) [OF True False] 1(3,5) True False snoc show ?thesis by auto
    qed
  next
    case False
    then have "p = drop l s" "i = length s"
      using 1(4,6) by (subst (asm) Split_loop.simps, simp)+
    with 1(5) show ?thesis by (simp add: substr_def)
  qed
qed

lemma join_Split: "join d (Split s d) = s"
  by (simp add: Split_def Split_loop_join)

lemma Split_pieces: "p \<in> set (Split s d) \<Longrightarrow> d \<notin> set p"
  unfolding Split_def by (rule Split_loop_pieces) (auto simp: substr_def)

lemma Split_not_Nil [simp]: "Split s d \<noteq> []"
  by (simp add: Split_def Split_loop_not_Nil)

text \<open>A list of pieces without the delimiter is determined by what they join to.\<close>

lemma piece_eq: "p @ d # r = q @ d # r' \<Longrightarrow> d \<notin> set p \<Longrightarrow> d \<notin> set q \<Longrightarrow> p = q \<and> r = r'"
  by (induction p arbitrary: q) (auto simp: Cons_eq_append_conv)

lemma join_inject:
  "join d ps = join d qs \<Longrightarrow> ps \<noteq> [] \<Longrightarrow> qs \<noteq> [] \<Longrightarrow>
   \<forall>p\<in>set ps. d \<notin> set p \<Longrightarrow> \<forall>q\<in>set qs. d \<notin> set q \<Longrightarrow> ps = qs"
proof (induction ps arbitrary: qs)
  case (Cons p ps)
  obtain q qs' where qs: "qs = q # qs'" using Cons.prems by (cases qs) auto
  show ?case
  proof (cases "ps = [] \<or> qs' = []")
    case True
    have "d \<in> set (join d (x # y # zs))" for x y zs by simp
    with Cons.prems qs True show ?thesis by (cases ps; cases qs') auto
  next
    case False
    with Cons.prems(1) qs have "p @ d # join d ps = q @ d # join d qs'" by (simp add: join_Cons)
    then have "p = q \<and> join d ps = join d qs'"
      using Cons.prems qs by (intro piece_eq [of p d _ q]) auto
    with Cons.IH [of qs'] Cons.prems False qs show ?thesis by simp
  qed
qed simp

text \<open>
  \<open>Split\<close> is the one way to cut a string at a delimiter: a non-empty list of pieces is its
  result if and only if no piece contains the delimiter and joining the pieces with it
  gives the string back.
\<close>

theorem Split_characterised:
  "Split s d = ps \<longleftrightarrow> ps \<noteq> [] \<and> join d ps = s \<and> d \<notin> \<Union> (set ` set ps)"
proof
  assume r: "ps \<noteq> [] \<and> join d ps = s \<and> d \<notin> \<Union> (set ` set ps)"
  show "Split s d = ps"
  proof (rule join_inject)
    show "join d (Split s d) = join d ps" using r by (simp add: join_Split)
    show "\<forall>p\<in>set (Split s d). d \<notin> set p" using Split_pieces by fast
  qed (use r in auto)
qed (auto simp: join_Split dest: Split_pieces)

section \<open>Trim\<close>

text \<open>The characters of \<^verbatim>\<open>WStr(" \t")\<close>.\<close>

definition is_blank :: "u16 \<Rightarrow> bool" where
  "is_blank c \<longleftrightarrow> c = 0x20 \<or> c = 0x09"

definition Trim :: "wstring \<Rightarrow> wstring" where
  "Trim str =
     (if length str = 0 then []
      else
        let trimmed = (case find_first (\<lambda>c. \<not> is_blank c) str of
                         Some lpos \<Rightarrow> if lpos > 0 then drop lpos str else str
                       | None \<Rightarrow> str)
        in (case find_last (\<lambda>c. \<not> is_blank c) trimmed of
              Some rpos \<Rightarrow> substr trimmed 0 (rpos + 1)
            | None \<Rightarrow> trimmed))"

lemma drop_find_first:
  "drop (case find_first (\<lambda>c. \<not> P c) s of Some i \<Rightarrow> i | None \<Rightarrow> length s) s = dropWhile P s"
proof (induction s)
  case (Cons x s)
  then show ?case by (cases "P x"; cases "find_first (\<lambda>c. \<not> P c) s") auto
qed simp

lemma take_find_last:
  "find_last (\<lambda>c. \<not> P c) s = Some i \<Longrightarrow> take (Suc i) s = rev (dropWhile P (rev s))"
proof -
  assume "find_last (\<lambda>c. \<not> P c) s = Some i"
  then have i: "i < length s" "\<not> P (s ! i)" "\<forall>x\<in>set (drop (Suc i) s). P x"
    by (auto simp: find_last_Some)
  then have "s = take i s @ [s ! i] @ drop (Suc i) s" by (simp add: id_take_nth_drop)
  then have "rev s = rev (drop (Suc i) s) @ s ! i # rev (take i s)"
    by (metis append.assoc append_Cons append_Nil rev_append rev_singleton_conv)
  moreover have "\<forall>x\<in>set (rev (drop (Suc i) s)). P x" using i(3) by simp
  ultimately have "dropWhile P (rev s) = dropWhile P (s ! i # rev (take i s))"
    by (metis dropWhile_append2)
  also have "\<dots> = s ! i # rev (take i s)" using i(2) by simp
  finally have "dropWhile P (rev s) = s ! i # rev (take i s)" .
  then show ?thesis using i(1) by (simp add: take_Suc_conv_app_nth)
qed

lemma hd_not_dropped:
  "\<not> (\<forall>x\<in>set s. P x) \<Longrightarrow> \<not> P (hd (dropWhile P s)) \<and> hd (dropWhile P s) \<in> set (dropWhile P s)"
  by (induction s) auto

lemma Trim_cases:
  "Trim s = (if \<forall>c\<in>set s. is_blank c then s
             else rev (dropWhile is_blank (rev (dropWhile is_blank s))))"
proof (cases "\<forall>c\<in>set s. is_blank c")
  case True
  then have "find_first (\<lambda>c. \<not> is_blank c) s = None" "find_last (\<lambda>c. \<not> is_blank c) s = None"
    by (simp_all add: find_first_None find_last_None)
  with True show ?thesis by (simp add: Trim_def)
next
  case False
  then obtain l where l: "find_first (\<lambda>c. \<not> is_blank c) s = Some l"
    by (metis find_first_None option.exhaust)
  then have d: "drop l s = dropWhile is_blank s" using drop_find_first [where P = is_blank and s = s] by simp
  obtain r where r: "find_last (\<lambda>c. \<not> is_blank c) (dropWhile is_blank s) = Some r"
    using hd_not_dropped [OF False] by (metis find_last_None option.exhaust)
  have "Trim s = take (Suc r) (dropWhile is_blank s)"
    using False l d r by (cases "l = 0") (auto simp: Trim_def substr_def)
  with False take_find_last [OF r] show ?thesis by auto
qed

text \<open>
  \<open>Trim\<close> removes exactly the leading and trailing spaces and tabs of a string that has
  another character; a string of blanks alone is returned unchanged, not emptied.
\<close>

theorem Trim_characterised:
  "Trim s = (if list_all is_blank s then s
             else rev (dropWhile is_blank (rev (dropWhile is_blank s))))"
  by (simp only: Trim_cases list_all_iff)

lemma Trim_Nil_iff: "Trim s = [] \<longleftrightarrow> s = []"
proof -
  have "rev (dropWhile is_blank (rev (dropWhile is_blank s))) \<noteq> []" if "\<not> (\<forall>c\<in>set s. is_blank c)"
    using hd_not_dropped [OF that] by auto
  then show ?thesis by (auto simp: Trim_cases)
qed

lemma set_Trim: "set (Trim s) \<subseteq> set s"
  by (auto simp: Trim_cases dest!: set_dropWhileD)

section \<open>Environment variables\<close>

text \<open>
  \<open>getenv\<close> is the process environment as \<^verbatim>\<open>std::getenv\<close> reports it, between the conversions
  of the name to UTF-8 and of the value back.
\<close>

definition GetEnvironmentValue :: "(wstring \<Rightarrow> wstring option) \<Rightarrow> wstring \<Rightarrow> wstring" where
  "GetEnvironmentValue getenv name = (case getenv name of None \<Rightarrow> [] | Some str \<Rightarrow> Trim str)"

definition GetEnvironmentValues :: "(wstring \<Rightarrow> wstring option) \<Rightarrow> wstring \<Rightarrow> u16 \<Rightarrow> wstring list" where
  "GetEnvironmentValues getenv name delim =
     foldl (\<lambda>values s. let s = Trim s in if s \<noteq> [] then values @ [s] else values) []
       (Split (GetEnvironmentValue getenv name) delim)"

lemma foldl_filter_map:
  "foldl (\<lambda>vs s. let s = f s in if P s then vs @ [s] else vs) acc xs = acc @ filter P (map f xs)"
  by (induction xs arbitrary: acc) (auto simp: Let_def)

text \<open>
  The values of a list-valued variable are the trimmed pieces between the delimiters,
  without the pieces that have no character at all; a piece of blanks is kept as a value.
\<close>

theorem GetEnvironmentValues_pieces:
  "GetEnvironmentValues env name d =
     map Trim (filter (\<lambda>p. p \<noteq> []) (Split (GetEnvironmentValue env name) d))"
  unfolding GetEnvironmentValues_def foldl_filter_map by (simp add: filter_map o_def Trim_Nil_iff)

section \<open>Hexadecimal and decimal renderings\<close>

definition HexMap :: wstring where
  "HexMap = WStr ''0123456789abcdef''"

definition HexStr :: "bytes \<Rightarrow> nat \<Rightarrow> wstring" where
  "HexStr data len =
     fold (\<lambda>i s. s[2 * i := HexMap ! unat (drop_bit 4 (data ! i AND 0xF0)),
                   2 * i + 1 := HexMap ! unat (data ! i AND 0x0F)])
       [0..<len] (replicate (len * 2) 0x20)"

text \<open>The four bytes of a token in memory (the supported platforms are little-endian).\<close>

definition TokenStr :: "u32 \<Rightarrow> wstring" where
  "TokenStr token =
     (let data = le_bytes32 token; len = 4 in
      fold (\<lambda>i s. s[2 * (len - i) - 2 := HexMap ! unat (drop_bit 4 (data ! i AND 0xF0)),
                    2 * (len - i) - 1 := HexMap ! unat (data ! i AND 0x0F)])
        [0..<len] (replicate (len * 2) 0x20))"

definition hex2 :: "u8 \<Rightarrow> wstring" where
  "hex2 b = [HexMap ! unat (drop_bit 4 (b AND 0xF0)), HexMap ! unat (b AND 0x0F)]"

lemma HexStr_prefix:
  "n \<le> len \<Longrightarrow> fold (\<lambda>i s. s[2 * i := HexMap ! unat (drop_bit 4 (data ! i AND 0xF0)),
                   2 * i + 1 := HexMap ! unat (data ! i AND 0x0F)])
       [0..<n] (replicate (len * 2) 0x20) =
     concat (map (\<lambda>i. hex2 (data ! i)) [0..<n]) @ replicate ((len - n) * 2) 0x20"
proof (induction n)
  case (Suc n)
  have l: "length (concat (map (\<lambda>i. hex2 (data ! i)) [0..<n])) = 2 * n" for n
    by (induction n) (auto simp: hex2_def)
  obtain k where k: "len - n = Suc k" using Suc.prems by (metis Suc_diff_Suc Suc_le_lessD)
  then show ?case using Suc l [of n] by (simp add: list_update_append hex2_def)
qed simp

lemma HexStr_bytes: "HexStr data (length data) = concat (map hex2 data)"
proof -
  have "HexStr data (length data) = concat (map (\<lambda>i. hex2 (data ! i)) [0..<length data])"
    unfolding HexStr_def using HexStr_prefix [of "length data" "length data" data] by simp
  also have "map (\<lambda>i. hex2 (data ! i)) [0..<length data] = map hex2 data"
    by (rule nth_equalityI) auto
  finally show ?thesis .
qed

lemma TokenStr_bytes: "TokenStr tk = concat (map hex2 (rev (le_bytes32 tk)))"
  by (simp add: TokenStr_def le_bytes32_def hex2_def upt_rec numeral_eq_Suc Let_def)

fun unhex :: "wstring \<Rightarrow> bytes option" where
  "unhex [] = Some []"
| "unhex (h # l # s) =
     (case (find_first (\<lambda>c. c = h) HexMap, find_first (\<lambda>c. c = l) HexMap) of
        (Some i, Some j) \<Rightarrow> map_option (\<lambda>bs. of_nat (16 * i + j) # bs) (unhex s)
      | _ \<Rightarrow> None)"
| "unhex _ = None"

lemma HexMap_simps: "HexMap = [0x30, 0x31, 0x32, 0x33, 0x34, 0x35, 0x36, 0x37, 0x38, 0x39,
    0x61, 0x62, 0x63, 0x64, 0x65, 0x66]"
  by (simp add: HexMap_def WStr_def of_char_Char)

lemma nibble_cases: "n < 16 \<Longrightarrow> find_first (\<lambda>c. c = HexMap ! n) HexMap = Some n"
proof -
  have "\<forall>n<16. find_first (\<lambda>c. c = HexMap ! n) HexMap = Some n"
    by (simp add: all_bits HexMap_simps)
  then show "n < 16 \<Longrightarrow> ?thesis" by blast
qed

lemma nibbles:
  "unat (drop_bit 4 ((b :: u8) AND 0xF0)) < 16" "unat (b AND 0x0F) < 16"
  "16 * unat (drop_bit 4 (b AND 0xF0)) + unat (b AND 0x0F) = unat b"
proof -
  have hi: "drop_bit 4 (b AND 0xF0) = drop_bit 4 b" and lo: "b AND 0x0F = take_bit 4 b"
    unfolding word_eq8 by (simp_all add: all_bits bit_simps)
  have "unat b < 256" using unsigned_less [of b] by simp
  then show "unat (drop_bit 4 (b AND 0xF0)) < 16" "unat (b AND 0x0F) < 16"
    "16 * unat (drop_bit 4 (b AND 0xF0)) + unat (b AND 0x0F) = unat b"
    unfolding hi lo
    by (simp_all add: drop_bit_eq_div take_bit_eq_mod unat_div_distrib unat_mod_distrib)
qed

lemma unhex_hex2: "unhex (hex2 b @ s) = map_option (\<lambda>bs. b # bs) (unhex s)"
  using nibbles [of b] by (simp add: hex2_def nibble_cases)

lemma unhex_bytes: "unhex (concat (map hex2 bs)) = Some bs"
  by (induction bs) (auto simp: unhex_hex2)

text \<open>The hexadecimal rendering of a byte string loses nothing: reading its digit pairs gives the bytes back.\<close>

theorem HexStr_roundtrip: "unhex (HexStr data (length data)) = Some data"
  by (simp add: HexStr_bytes unhex_bytes)

text \<open>A token is rendered as its eight digits, most significant byte first.\<close>

theorem TokenStr_big_endian: "unhex (TokenStr tk) = Some (rev (le_bytes32 tk))"
  by (simp add: TokenStr_bytes unhex_bytes)

text \<open>Decimal numbers as \<^verbatim>\<open>std::to_string\<close> and \<^verbatim>\<open>operator<<\<close> write them.\<close>

definition digit :: "nat \<Rightarrow> u16" where
  "digit n = of_nat (0x30 + n)"

fun to_string :: "nat \<Rightarrow> wstring" where
  "to_string n = (if n < 10 then [digit n] else to_string (n div 10) @ [digit (n mod 10)])"

declare to_string.simps [simp del]

definition is_digit :: "u16 \<Rightarrow> bool" where
  "is_digit c \<longleftrightarrow> 0x30 \<le> c \<and> c \<le> 0x39"

definition digit_value :: "u16 \<Rightarrow> nat" where
  "digit_value c = unat (c - 0x30)"

definition read_decimal :: "wstring \<Rightarrow> nat" where
  "read_decimal s = foldl (\<lambda>n c. 10 * n + digit_value c) 0 s"

lemma unat_digit: "n < 10 \<Longrightarrow> unat (digit n) = 0x30 + n"
  unfolding digit_def unat_of_nat by simp

lemma is_digit_digit: "n < 10 \<Longrightarrow> is_digit (digit n)"
  by (simp add: is_digit_def word_le_nat_alt unat_digit)

lemma digit_value_digit: "n < 10 \<Longrightarrow> digit_value (digit n) = n"
  by (simp add: digit_value_def digit_def unat_of_nat)

lemma to_string_digits: "c \<in> set (to_string n) \<Longrightarrow> is_digit c"
  by (induction n rule: to_string.induct)
     (subst (asm) (2) to_string.simps, auto simp: is_digit_digit split: if_splits)

lemma to_string_not_Nil [simp]: "to_string n \<noteq> []"
  by (subst to_string.simps) simp

lemma read_decimal_to_string [simp]: "read_decimal (to_string n) = n"
proof (induction n rule: to_string.induct)
  case (1 n)
  then show ?case
    by (subst to_string.simps) (auto simp: read_decimal_def digit_value_digit)
qed

lemma to_string_inject [simp]: "to_string m = to_string n \<longleftrightarrow> m = n"
  by (metis read_decimal_to_string)

text \<open>
  \<^verbatim>\<open>ToWSTRING(uint64_t)\<close> reinterprets the 32-bit \<^verbatim>\<open>wchar_t\<close> units of \<^verbatim>\<open>std::to_wstring\<close> as
  16-bit units, which the string constructor reads up to the first zero.
\<close>

definition ToWSTRING_u64 :: "u64 \<Rightarrow> wstring" where
  "ToWSTRING_u64 i =
     takeWhile (\<lambda>c. c \<noteq> 0) (concat (map (\<lambda>c. [c, 0]) (to_string (unat i))) @ [0, 0])"

text \<open>
  The conversion of a number to a wide string keeps only the first decimal digit, because
  the upper half of its 32-bit unit ends the string.
\<close>

theorem ToWSTRING_u64_one_digit: "ToWSTRING_u64 i = [hd (to_string (unat i))]"
proof -
  obtain c s where c: "to_string (unat i) = c # s" by (cases "to_string (unat i)") auto
  then have "is_digit c" using to_string_digits [of c "unat i"] by simp
  then have "c \<noteq> 0" by (auto simp: is_digit_def)
  with c show ?thesis by (simp add: ToWSTRING_u64_def)
qed

end
