(* ===== verification/MethodSig.thy ===== *)
theory MethodSig
  imports SigHelpers Strings
begin

text \<open>
  The method signatures of \<^verbatim>\<open>clr_helpers.cpp\<close>: \<^verbatim>\<open>FunctionMethodSignature::TryParse\<close> with its
  bounded parser, which cuts a signature into the slices of its return type and parameters,
  and the questions \<^verbatim>\<open>FunctionMethodArgument\<close> answers about a slice. Here the memory is a
  total function of the distance to \<^verbatim>\<open>pbBase\<close>: some checks look at \<^verbatim>\<open>*pbCur\<close> before they
  compare \<^verbatim>\<open>pbCur\<close> with \<^verbatim>\<open>pbEnd\<close>, and the theorems show that what lies there does not matter.
\<close>

section \<open>The parser\<close>

type_synonym mem = "nat \<Rightarrow> u8"

definition ParseByte :: "mem \<Rightarrow> nat \<Rightarrow> nat \<Rightarrow> (u8 \<times> nat) outcome" where
  "ParseByte mem pbCur pbEnd = (if pbCur < pbEnd then Done (mem pbCur, pbCur + 1) else Reject)"

definition ParseNumber_end :: "mem \<Rightarrow> nat \<Rightarrow> nat \<Rightarrow> (u32 \<times> nat) outcome" where
  "ParseNumber_end mem pbCur pbEnd =
     obind (ParseByte mem pbCur pbEnd) (\<lambda>(b1, pbCur).
       if b1 = 0xff then Reject
       else if b1 AND 0x80 = 0 then Done (ucast b1, pbCur)
       else obind (ParseByte mem pbCur pbEnd) (\<lambda>(b2, pbCur).
         if b1 AND 0x40 = 0 then Done (push_bit 8 (ucast (b1 AND 0x3f)) OR ucast b2, pbCur)
         else if b1 AND 0x20 \<noteq> 0 then Reject
         else obind (ParseByte mem pbCur pbEnd) (\<lambda>(b3, pbCur).
           obind (ParseByte mem pbCur pbEnd) (\<lambda>(b4, pbCur).
             Done (push_bit 24 (ucast (b1 AND 0x1f)) OR push_bit 16 (ucast b2) OR
                   push_bit 8 (ucast b3) OR ucast b4, pbCur)))))"

text \<open>The two parts of the encoded token: its table index and its row.\<close>

definition ParseTypeDefOrRefEncoded_end :: "mem \<Rightarrow> nat \<Rightarrow> nat \<Rightarrow> ((u8 \<times> u32) \<times> nat) outcome" where
  "ParseTypeDefOrRefEncoded_end mem pbCur pbEnd =
     obind (ParseNumber_end mem pbCur pbEnd) (\<lambda>(encoded, pbCur).
       Done ((ucast (encoded AND 0x3), drop_bit 2 encoded), pbCur))"

text \<open>The loop over the arguments of a generic instance, with the recursive call as argument.\<close>

primrec ParseTypes_end :: "(nat \<Rightarrow> nat outcome) \<Rightarrow> nat \<Rightarrow> nat \<Rightarrow> nat outcome" where
  "ParseTypes_end pt 0 pbCur = Done pbCur"
| "ParseTypes_end pt (Suc n) pbCur = obind (pt pbCur) (ParseTypes_end pt n)"

text \<open>
  The switch of \<^verbatim>\<open>ParseType\<close>. It has no default case: a byte that is no listed element type
  leaves the switch and is accepted.
\<close>

definition ParseTypeSwitch :: "(nat \<Rightarrow> nat outcome) \<Rightarrow> mem \<Rightarrow> nat \<Rightarrow> u8 \<Rightarrow> nat \<Rightarrow> nat outcome" where
  "ParseTypeSwitch pt mem pbEnd elem_type pbCur =
     (case to_elt elem_type of
        Some ELEMENT_TYPE_PTR \<Rightarrow> Reject
      | Some ELEMENT_TYPE_CLASS \<Rightarrow>
          obind (ParseTypeDefOrRefEncoded_end mem pbCur pbEnd) (\<lambda>(index, pbCur). Done pbCur)
      | Some ELEMENT_TYPE_VALUETYPE \<Rightarrow>
          obind (ParseTypeDefOrRefEncoded_end mem pbCur pbEnd) (\<lambda>(index, pbCur). Done pbCur)
      | Some ELEMENT_TYPE_FNPTR \<Rightarrow> Reject
      | Some ELEMENT_TYPE_ARRAY \<Rightarrow> Reject
      | Some ELEMENT_TYPE_SZARRAY \<Rightarrow> if is_cmod (mem pbCur) then Reject else pt pbCur
      | Some ELEMENT_TYPE_GENERICINST \<Rightarrow>
          obind (ParseByte mem pbCur pbEnd) (\<lambda>(elem_type, pbCur).
            if elem_type \<noteq> elt ELEMENT_TYPE_CLASS \<and> elem_type \<noteq> elt ELEMENT_TYPE_VALUETYPE then Reject
            else obind (ParseTypeDefOrRefEncoded_end mem pbCur pbEnd) (\<lambda>(index, pbCur).
                   obind (ParseNumber_end mem pbCur pbEnd) (\<lambda>(number, pbCur).
                     ParseTypes_end pt (unat number) pbCur)))
      | Some ELEMENT_TYPE_VAR \<Rightarrow>
          obind (ParseNumber_end mem pbCur pbEnd) (\<lambda>(number, pbCur). Done pbCur)
      | Some ELEMENT_TYPE_MVAR \<Rightarrow>
          obind (ParseNumber_end mem pbCur pbEnd) (\<lambda>(number, pbCur). Done pbCur)
      | _ \<Rightarrow> Done pbCur)"

primrec ParseType_end_fuel :: "nat \<Rightarrow> mem \<Rightarrow> nat \<Rightarrow> nat \<Rightarrow> nat outcome" where
  "ParseType_end_fuel 0 mem pbEnd pbCur = NoFuel"
| "ParseType_end_fuel (Suc fuel) mem pbEnd pbCur =
     obind (ParseByte mem pbCur pbEnd) (\<lambda>(elem_type, pbCur).
       ParseTypeSwitch (ParseType_end_fuel fuel mem pbEnd) mem pbEnd elem_type pbCur)"

text \<open>The fuel is the room left plus one.\<close>

definition ParseType_end :: "mem \<Rightarrow> nat \<Rightarrow> nat \<Rightarrow> nat outcome" where
  "ParseType_end mem pbCur pbEnd = ParseType_end_fuel (Suc (pbEnd - pbCur)) mem pbEnd pbCur"

definition ParseParam_end :: "mem \<Rightarrow> nat \<Rightarrow> nat \<Rightarrow> nat outcome" where
  "ParseParam_end mem pbCur pbEnd =
     (if is_cmod (mem pbCur) then Reject
      else if pbCur \<ge> pbEnd then Reject
      else if mem pbCur = elt ELEMENT_TYPE_TYPEDBYREF then Reject
      else let pbCur = if mem pbCur = elt ELEMENT_TYPE_BYREF then pbCur + 1 else pbCur in
        ParseType_end mem pbCur pbEnd)"

definition ParseRetType_end :: "mem \<Rightarrow> nat \<Rightarrow> nat \<Rightarrow> nat outcome" where
  "ParseRetType_end mem pbCur pbEnd =
     (if is_cmod (mem pbCur) then Reject
      else if pbCur \<ge> pbEnd then Reject
      else if mem pbCur = elt ELEMENT_TYPE_TYPEDBYREF then Reject
      else if mem pbCur = elt ELEMENT_TYPE_VOID then Done (pbCur + 1)
      else let pbCur = if mem pbCur = elt ELEMENT_TYPE_BYREF then pbCur + 1 else pbCur in
        ParseType_end mem pbCur pbEnd)"

section \<open>FunctionMethodSignature\<close>

text \<open>A slice of the signature; its \<^verbatim>\<open>pbBase\<close> is that of the signature, address 0 here.\<close>

record FunctionMethodArgument =
  arg_offset :: nat
  arg_length :: nat

record FunctionMethodSignature =
  numberOfTypeArguments :: u32
  numberOfArguments :: u32
  ret :: FunctionMethodArgument
  params_vec :: "FunctionMethodArgument list"

text \<open>The loop over the parameters; \<open>fEncounteredSentinal\<close> is the flag of the source.\<close>

primrec TryParse_params ::
  "mem \<Rightarrow> nat \<Rightarrow> nat \<Rightarrow> bool \<Rightarrow> nat \<Rightarrow> FunctionMethodSignature \<Rightarrow> hresult \<times> FunctionMethodSignature" where
  "TryParse_params mem pbEnd 0 fEncounteredSentinal pbCur self = (S_OK, self)"
| "TryParse_params mem pbEnd (Suc n) fEncounteredSentinal pbCur self =
     (if pbCur \<ge> pbEnd then (E_FAIL, self)
      else if mem pbCur = elt ELEMENT_TYPE_SENTINEL \<and> fEncounteredSentinal then (E_FAIL, self)
      else let sentinel = (mem pbCur = elt ELEMENT_TYPE_SENTINEL);
               pbParam = (if sentinel then pbCur + 1 else pbCur)
        in (case ParseParam_end mem pbParam pbEnd of
              Done pbCur \<Rightarrow>
                TryParse_params mem pbEnd n (fEncounteredSentinal \<or> sentinel) pbCur
                  (self \<lparr>params_vec := params_vec self @
                     [\<lparr>arg_offset = pbParam, arg_length = pbCur - pbParam\<rparr>]\<rparr>)
            | _ \<Rightarrow> (E_FAIL, self)))"

text \<open>The part after the generic count.\<close>

definition TryParse_from ::
  "mem \<Rightarrow> nat \<Rightarrow> FunctionMethodSignature \<Rightarrow> nat \<Rightarrow> hresult \<times> FunctionMethodSignature" where
  "TryParse_from mem len self pbCur =
     (case ParseNumber_end mem pbCur len of
        Done (param_count, pbRet) \<Rightarrow>
          let self = self \<lparr>numberOfArguments := param_count\<rparr> in
          (case ParseRetType_end mem pbRet len of
             Done pbCur \<Rightarrow>
               TryParse_params mem len (unat param_count) False pbCur
                 (self \<lparr>ret := \<lparr>arg_offset = pbRet, arg_length = pbCur - pbRet\<rparr>\<rparr>)
           | _ \<Rightarrow> (E_FAIL, self))
      | _ \<Rightarrow> (E_FAIL, self))"

definition TryParse :: "mem \<Rightarrow> nat \<Rightarrow> FunctionMethodSignature \<Rightarrow> hresult \<times> FunctionMethodSignature" where
  "TryParse mem len self =
     (case ParseByte mem 0 len of
        Done (elem_type, pbCur) \<Rightarrow>
          (case (if elem_type AND IMAGE_CEE_CS_CALLCONV_GENERIC \<noteq> 0
                 then obind (ParseNumber_end mem pbCur len) (\<lambda>(gen_param_count, pbCur).
                        Done (self \<lparr>numberOfTypeArguments := gen_param_count\<rparr>, pbCur))
                 else Done (self, pbCur)) of
             Done (self, pbCur) \<Rightarrow>
               TryParse_from mem len self pbCur
           | _ \<Rightarrow> (E_FAIL, self))
      | _ \<Rightarrow> (E_FAIL, self))"

section \<open>Slices of the memory\<close>

definition mem_slice :: "mem \<Rightarrow> nat \<Rightarrow> nat \<Rightarrow> bytes" where
  "mem_slice mem a b = map mem [a..<b]"

lemma slice_Nil_iff [simp]: "mem_slice mem a b = [] \<longleftrightarrow> b \<le> a" "[] = mem_slice mem a b \<longleftrightarrow> b \<le> a"
  by (auto simp: mem_slice_def)

lemma slice_Cons_iff:
  "mem_slice mem a b = x # xs \<longleftrightarrow> a < b \<and> x = mem a \<and> xs = mem_slice mem (Suc a) b"
  "x # xs = mem_slice mem a b \<longleftrightarrow> a < b \<and> x = mem a \<and> xs = mem_slice mem (Suc a) b"
  by (auto simp: mem_slice_def upt_conv_Cons upt_eq_Cons_conv)

lemma slice_Cons: "a < b \<Longrightarrow> mem_slice mem a b = mem a # mem_slice mem (Suc a) b"
  by (simp add: slice_Cons_iff)

lemma slice_empty [simp]: "mem_slice mem a a = []"
  by simp

lemma hd_slice [simp]: "a < b \<Longrightarrow> hd (mem_slice mem a b) = mem a"
  by (simp add: slice_Cons)

lemma length_slice [simp]: "length (mem_slice mem a b) = b - a"
  by (simp add: mem_slice_def)

lemma slice_append_iff:
  "a \<le> b \<Longrightarrow> mem_slice mem a b = x @ y \<longleftrightarrow>
     (\<exists>k. a \<le> k \<and> k \<le> b \<and> x = mem_slice mem a k \<and> y = mem_slice mem k b)"
proof
  assume ab: "a \<le> b" and e: "mem_slice mem a b = x @ y"
  have l: "length x \<le> b - a" using arg_cong [OF e, of length] by simp
  have "x = take (length x) (mem_slice mem a b)" "y = drop (length x) (mem_slice mem a b)" using e by simp_all
  then show "\<exists>k. a \<le> k \<and> k \<le> b \<and> x = mem_slice mem a k \<and> y = mem_slice mem k b"
    using ab l by (intro exI [of _ "a + length x"]) (auto simp: mem_slice_def take_map drop_map)
next
  assume "\<exists>k. a \<le> k \<and> k \<le> b \<and> x = mem_slice mem a k \<and> y = mem_slice mem k b"
  then show "mem_slice mem a b = x @ y"
    by (auto simp: mem_slice_def simp flip: map_append) (metis le_Suc_ex upt_add_eq_append)
qed

lemma mem_slice_cong: "(\<And>i. a \<le> i \<Longrightarrow> i < b \<Longrightarrow> mem i = mem' i) \<Longrightarrow> mem_slice mem a b = mem_slice mem' a b"
  by (auto simp: mem_slice_def)

section \<open>Bytes and numbers\<close>

lemma ParseByte_exact [simp]:
  "ParseByte mem c e = Done (b, c') \<longleftrightarrow> c < e \<and> b = mem c \<and> c' = Suc c"
  "ParseByte mem c e \<noteq> NoFuel"
  by (auto simp: ParseByte_def)

lemma lead_byte:
  "b AND 0xC0 = 0x80 \<longleftrightarrow> b AND 0x80 \<noteq> 0 \<and> b AND 0x40 = 0"
  "b AND 0xE0 = 0xC0 \<longleftrightarrow> b AND 0x80 \<noteq> 0 \<and> b AND 0x40 \<noteq> 0 \<and> b AND 0x20 = 0" for b :: u8
  unfolding word_eq8 by (auto simp: all_bits bit_simps)

lemma ParseNumber_end_exact:
  "ParseNumber_end mem c e = Done (n, c') \<longleftrightarrow> c \<le> c' \<and> c' \<le> e \<and> number_bytes (mem_slice mem c c') n"
  by (auto simp: ParseNumber_end_def obind_Done_iff number_bytes.simps slice_Cons_iff lead_byte
      split: if_splits)

lemma ParseNumber_end_not_NoFuel [simp]: "ParseNumber_end mem c e \<noteq> NoFuel"
  by (auto simp: ParseNumber_end_def obind_NoFuel_iff split: if_splits)

lemma ParseTypeDefOrRefEncoded_end_exact:
  "(\<exists>i. ParseTypeDefOrRefEncoded_end mem c e = Done (i, c')) \<longleftrightarrow>
     c \<le> c' \<and> c' \<le> e \<and> a_number (mem_slice mem c c')"
  by (auto simp: ParseTypeDefOrRefEncoded_end_def obind_Done_iff ParseNumber_end_exact a_number_def)

lemma ParseTypeDefOrRefEncoded_end_not_NoFuel [simp]: "ParseTypeDefOrRefEncoded_end mem c e \<noteq> NoFuel"
  by (auto simp: ParseTypeDefOrRefEncoded_end_def obind_NoFuel_iff)

section \<open>The accepted types\<close>

text \<open>A byte that the switch has no case for, or a case that reads nothing more.\<close>

definition plain_byte :: "u8 \<Rightarrow> bool" where
  "plain_byte b \<longleftrightarrow>
     b \<notin> elt ` {ELEMENT_TYPE_PTR, ELEMENT_TYPE_CLASS, ELEMENT_TYPE_VALUETYPE, ELEMENT_TYPE_FNPTR,
       ELEMENT_TYPE_ARRAY, ELEMENT_TYPE_SZARRAY, ELEMENT_TYPE_GENERICINST, ELEMENT_TYPE_VAR,
       ELEMENT_TYPE_MVAR}"

inductive loose_type :: "bytes \<Rightarrow> bool" where
  loose_plain: "plain_byte b \<Longrightarrow> loose_type [b]"
| loose_named: "e \<in> {ELEMENT_TYPE_VALUETYPE, ELEMENT_TYPE_CLASS} \<Longrightarrow> a_number t \<Longrightarrow>
     loose_type (elt e # t)"
| loose_szarray: "loose_type t \<Longrightarrow> \<not> is_cmod (hd t) \<Longrightarrow> loose_type (elt ELEMENT_TYPE_SZARRAY # t)"
| loose_generic: "e \<in> {ELEMENT_TYPE_VALUETYPE, ELEMENT_TYPE_CLASS} \<Longrightarrow> a_number t \<Longrightarrow>
     number_bytes c n \<Longrightarrow> seq loose_type (unat n) ts \<Longrightarrow>
     loose_type (elt ELEMENT_TYPE_GENERICINST # elt e # t @ c @ ts)"
| loose_variable: "e \<in> {ELEMENT_TYPE_VAR, ELEMENT_TYPE_MVAR} \<Longrightarrow> a_number t \<Longrightarrow>
     loose_type (elt e # t)"

inductive_simps seq_0 [simp]: "seq T 0 xs"
inductive_simps seq_Suc: "seq T (Suc n) xs"
inductive_cases loose_typeE: "loose_type (b # t)"

lemma loose_type_not_Nil [simp]: "\<not> loose_type []"
  by (auto elim: loose_type.cases)

lemma loose_slice: "loose_type (mem_slice mem a b) \<Longrightarrow> a < b"
  using loose_type_not_Nil by (metis not_less slice_Nil_iff(1))

lemma plain_byte_simps [simp]:
  "\<not> plain_byte (elt ELEMENT_TYPE_PTR)" "\<not> plain_byte (elt ELEMENT_TYPE_CLASS)"
  "\<not> plain_byte (elt ELEMENT_TYPE_VALUETYPE)" "\<not> plain_byte (elt ELEMENT_TYPE_FNPTR)"
  "\<not> plain_byte (elt ELEMENT_TYPE_ARRAY)" "\<not> plain_byte (elt ELEMENT_TYPE_SZARRAY)"
  "\<not> plain_byte (elt ELEMENT_TYPE_GENERICINST)" "\<not> plain_byte (elt ELEMENT_TYPE_VAR)"
  "\<not> plain_byte (elt ELEMENT_TYPE_MVAR)"
  by (auto simp: plain_byte_def)

lemma loose_type_Cons:
  "loose_type (b # t) \<longleftrightarrow>
     plain_byte b \<and> t = [] \<or>
     b \<in> {elt ELEMENT_TYPE_VALUETYPE, elt ELEMENT_TYPE_CLASS, elt ELEMENT_TYPE_VAR, elt ELEMENT_TYPE_MVAR}
       \<and> a_number t \<or>
     b = elt ELEMENT_TYPE_SZARRAY \<and> loose_type t \<and> \<not> is_cmod (hd t) \<or>
     b = elt ELEMENT_TYPE_GENERICINST \<and>
       (\<exists>k u c n ts. t = k # u @ c @ ts \<and> k \<in> {elt ELEMENT_TYPE_VALUETYPE, elt ELEMENT_TYPE_CLASS} \<and>
         a_number u \<and> number_bytes c n \<and> seq loose_type (unat n) ts)"
  by (auto elim!: loose_typeE intro: loose_type.intros)

section \<open>The recursive call as an interface\<close>

text \<open>
  What the parser's loops rely on: with enough room for its fuel \<open>L\<close> the recursive call
  returns \<open>c'\<close> exactly when the bytes up to \<open>c'\<close> are a type and lie before the end.
\<close>

locale cursor_parser =
  fixes mem :: mem and pbEnd :: nat and pt :: "nat \<Rightarrow> nat outcome" and T :: "bytes \<Rightarrow> bool" and L :: nat
  assumes pt_exact: "pbEnd - c < L \<Longrightarrow> pt c = Done c' \<longleftrightarrow> c \<le> c' \<and> c' \<le> pbEnd \<and> T (mem_slice mem c c')"
    and pt_fuel: "pbEnd - c < L \<Longrightarrow> pt c \<noteq> NoFuel"
begin

lemma ParseTypes_end_exact:
  "c \<le> pbEnd \<Longrightarrow> pbEnd - c < L \<Longrightarrow>
   ParseTypes_end pt n c = Done c' \<longleftrightarrow> c \<le> c' \<and> c' \<le> pbEnd \<and> seq T n (mem_slice mem c c')"
proof (induction n arbitrary: c)
  case (Suc n)
  have "ParseTypes_end pt (Suc n) c = Done c' \<longleftrightarrow>
      (\<exists>k. c \<le> k \<and> k \<le> pbEnd \<and> T (mem_slice mem c k) \<and> ParseTypes_end pt n k = Done c')"
    using Suc.prems by (simp add: obind_Done_iff pt_exact)
  also have "\<dots> \<longleftrightarrow> (\<exists>k. c \<le> k \<and> k \<le> pbEnd \<and> T (mem_slice mem c k) \<and>
      k \<le> c' \<and> c' \<le> pbEnd \<and> seq T n (mem_slice mem k c'))"
    using Suc by (metis (no_types, lifting) diff_le_mono2 le_less_trans)
  also have "\<dots> \<longleftrightarrow> c \<le> c' \<and> c' \<le> pbEnd \<and> seq T (Suc n) (mem_slice mem c c')"
    by (cases "c \<le> c'") (auto simp: seq_Suc slice_append_iff)
  finally show ?case .
qed auto

lemma ParseTypes_end_fuel:
  "c \<le> pbEnd \<Longrightarrow> pbEnd - c < L \<Longrightarrow> ParseTypes_end pt n c \<noteq> NoFuel"
proof (induction n arbitrary: c)
  case (Suc n)
  show ?case unfolding ParseTypes_end.simps
  proof (rule obind_not_NoFuel)
    show "pt c \<noteq> NoFuel" using Suc.prems by (intro pt_fuel)
    fix k assume "pt c = Done k"
    with Suc.prems have "c \<le> k" "k \<le> pbEnd" by (simp_all add: pt_exact)
    then show "ParseTypes_end pt n k \<noteq> NoFuel" using Suc by (intro Suc.IH) auto
  qed
qed simp

text \<open>The switch, once the element type at \<open>c\<close> has been read.\<close>

lemma ParseTypeSwitch_generic:
  assumes "c < pbEnd" and "pbEnd - Suc c < L"
  shows "ParseTypeSwitch pt mem pbEnd (elt ELEMENT_TYPE_GENERICINST) (Suc c) = Done c' \<longleftrightarrow>
    Suc c \<le> c' \<and> c' \<le> pbEnd \<and>
    (\<exists>k u d n ts. mem_slice mem (Suc c) c' = k # u @ d @ ts \<and>
       k \<in> {elt ELEMENT_TYPE_VALUETYPE, elt ELEMENT_TYPE_CLASS} \<and>
       a_number u \<and> number_bytes d n \<and> seq T (unat n) ts)"
    (is "?l \<longleftrightarrow> ?r")
proof
  assume ?l
  then obtain i p n q where c: "Suc c < pbEnd"
    and k: "mem (Suc c) \<in> {elt ELEMENT_TYPE_VALUETYPE, elt ELEMENT_TYPE_CLASS}"
    and i: "ParseTypeDefOrRefEncoded_end mem (Suc (Suc c)) pbEnd = Done (i, p)"
    and n: "ParseNumber_end mem p pbEnd = Done (n, q)"
    and t: "ParseTypes_end pt (unat n) q = Done c'"
    by (auto simp: ParseTypeSwitch_def obind_Done_iff split: if_splits)
  have p: "Suc (Suc c) \<le> p" "a_number (mem_slice mem (Suc (Suc c)) p)"
    using ParseTypeDefOrRefEncoded_end_exact [of mem "Suc (Suc c)" pbEnd p] i by blast+
  have q: "p \<le> q" "q \<le> pbEnd" "number_bytes (mem_slice mem p q) n"
    using n by (simp_all add: ParseNumber_end_exact)
  have c': "q \<le> c'" "c' \<le> pbEnd" "seq T (unat n) (mem_slice mem q c')"
    using t ParseTypes_end_exact [of q "unat n" c'] p q assms by simp_all
  have "mem_slice mem (Suc c) c' =
      mem (Suc c) # mem_slice mem (Suc (Suc c)) p @ mem_slice mem p q @ mem_slice mem q c'"
    using p q c' by (simp add: slice_Cons_iff) (metis le_trans slice_append_iff)
  then show ?r using p q c' k by (intro conjI exI [of _ "mem (Suc c)"]) auto
next
  assume ?r
  then obtain k u d n ts where s: "mem_slice mem (Suc c) c' = k # u @ d @ ts" "c' \<le> pbEnd"
    and k: "k \<in> {elt ELEMENT_TYPE_VALUETYPE, elt ELEMENT_TYPE_CLASS}"
    and u: "a_number u" and d: "number_bytes d n" and ts: "seq T (unat n) ts" by blast
  then have m: "k = mem (Suc c)" "Suc c < c'" "mem_slice mem (Suc (Suc c)) c' = u @ d @ ts"
    by (simp_all add: slice_Cons_iff)
  then obtain p q where p: "Suc (Suc c) \<le> p" "p \<le> q" "q \<le> c'" "u = mem_slice mem (Suc (Suc c)) p"
    "d = mem_slice mem p q" "ts = mem_slice mem q c'"
    using slice_append_iff [of "Suc (Suc c)" c'] by (metis Suc_leI slice_append_iff)
  have i: "\<exists>i. ParseTypeDefOrRefEncoded_end mem (Suc (Suc c)) pbEnd = Done (i, p)"
    using ParseTypeDefOrRefEncoded_end_exact p s u by auto
  moreover have "ParseNumber_end mem p pbEnd = Done (n, q)"
    using p s d by (simp add: ParseNumber_end_exact)
  moreover have "ParseTypes_end pt (unat n) q = Done c'"
    using p s ts assms by (subst ParseTypes_end_exact) auto
  ultimately show ?l using k m s(2) by (auto simp: ParseTypeSwitch_def obind_Done_iff)
qed

end

section \<open>The parser accepts exactly the loose types\<close>

lemma ParseTypeSwitch_plain: "plain_byte b \<Longrightarrow> ParseTypeSwitch pt mem e b p = Done p"
proof (cases "to_elt b")
  case (Some x)
  then have b: "b = elt x" by (simp add: to_elt_Some_iff)
  assume "plain_byte b"
  then show ?thesis unfolding b by (cases x) (simp_all add: ParseTypeSwitch_def)
qed (simp add: ParseTypeSwitch_def)

lemma not_plain_byte:
  assumes "\<not> plain_byte b"
  obtains "b \<in> {elt ELEMENT_TYPE_PTR, elt ELEMENT_TYPE_FNPTR, elt ELEMENT_TYPE_ARRAY}"
  | "b \<in> {elt ELEMENT_TYPE_CLASS, elt ELEMENT_TYPE_VALUETYPE}"
  | "b \<in> {elt ELEMENT_TYPE_VAR, elt ELEMENT_TYPE_MVAR}"
  | "b = elt ELEMENT_TYPE_SZARRAY" | "b = elt ELEMENT_TYPE_GENERICINST"
  using assms by (auto simp: plain_byte_def)

lemma ParseTypeSwitch_exact:
  assumes cp: "cursor_parser mem e pt loose_type L" and c: "c < e" "e - Suc c < L"
  shows "ParseTypeSwitch pt mem e b (Suc c) = Done c' \<longleftrightarrow>
    Suc c \<le> c' \<and> c' \<le> e \<and> loose_type (b # mem_slice mem (Suc c) c')"
proof (cases "plain_byte b")
  case True
  then show ?thesis using c by (auto simp: ParseTypeSwitch_plain loose_type_Cons)
next
  case False
  then show ?thesis
  proof (cases rule: not_plain_byte)
    case 1
    then show ?thesis by (auto simp: ParseTypeSwitch_def loose_type_Cons)
  next
    case 2
    then have "ParseTypeSwitch pt mem e b (Suc c) = Done c' \<longleftrightarrow>
        (\<exists>i. ParseTypeDefOrRefEncoded_end mem (Suc c) e = Done (i, c'))"
      by (auto simp: ParseTypeSwitch_def obind_Done_iff)
    moreover have "loose_type (b # t) \<longleftrightarrow> a_number t" for t
      using 2 by (auto simp: loose_type_Cons)
    ultimately show ?thesis by (simp only: ParseTypeDefOrRefEncoded_end_exact)
  next
    case 3
    then have "ParseTypeSwitch pt mem e b (Suc c) = Done c' \<longleftrightarrow>
        (\<exists>n. ParseNumber_end mem (Suc c) e = Done (n, c'))"
      by (auto simp: ParseTypeSwitch_def obind_Done_iff)
    moreover have "loose_type (b # t) \<longleftrightarrow> a_number t" for t
      using 3 by (auto simp: loose_type_Cons)
    ultimately show ?thesis by (auto simp: ParseNumber_end_exact a_number_def)
  next
    case 4
    have "hd (mem_slice mem (Suc c) c') = mem (Suc c)" if "loose_type (mem_slice mem (Suc c) c')"
      using loose_slice [OF that] by simp
    then show ?thesis using 4 c cursor_parser.pt_exact [OF cp, of "Suc c" c']
      by (auto simp: ParseTypeSwitch_def loose_type_Cons)
  next
    case 5
    then show ?thesis using cursor_parser.ParseTypeSwitch_generic [OF cp c]
      by (simp add: loose_type_Cons)
  qed
qed

lemma ParseTypeSwitch_fuel:
  assumes cp: "cursor_parser mem e pt loose_type L" and c: "c < e" "e - Suc c < L"
  shows "ParseTypeSwitch pt mem e b (Suc c) \<noteq> NoFuel"
proof (cases "plain_byte b")
  case False
  then show ?thesis
  proof (cases rule: not_plain_byte)
    case 4
    with cursor_parser.pt_fuel [OF cp c(2)] show ?thesis by (simp add: ParseTypeSwitch_def)
  next
    case 5
    have "ParseTypes_end pt (unat n) q \<noteq> NoFuel"
      if "ParseTypeDefOrRefEncoded_end mem (Suc (Suc c)) e = Done (i, p)" "ParseNumber_end mem p e = Done (n, q)"
      for i p n q
    proof -
      have "Suc (Suc c) \<le> p" using that(1) ParseTypeDefOrRefEncoded_end_exact by blast
      moreover have "p \<le> q" "q \<le> e" using that(2) by (simp_all add: ParseNumber_end_exact)
      ultimately show ?thesis using c by (intro cursor_parser.ParseTypes_end_fuel [OF cp]) auto
    qed
    with 5 show ?thesis by (auto simp: ParseTypeSwitch_def obind_NoFuel_iff split: if_splits)
  qed (auto simp: ParseTypeSwitch_def obind_NoFuel_iff)
qed (simp add: ParseTypeSwitch_plain)

lemma ParseType_end_fuel_parser: "cursor_parser mem e (ParseType_end_fuel f mem e) loose_type f"
proof (induction f)
  case (Suc f)
  show ?case
  proof unfold_locales
    fix c c'
    assume l: "e - c < Suc f"
    show "ParseType_end_fuel (Suc f) mem e c = Done c' \<longleftrightarrow>
        c \<le> c' \<and> c' \<le> e \<and> loose_type (mem_slice mem c c')"
    proof (cases "c < e")
      case True
      then have "ParseType_end_fuel (Suc f) mem e c = Done c' \<longleftrightarrow>
          Suc c \<le> c' \<and> c' \<le> e \<and> loose_type (mem c # mem_slice mem (Suc c) c')"
        using ParseTypeSwitch_exact [OF Suc.IH, of c "mem c" c'] l by (simp add: ParseByte_def)
      also have "\<dots> \<longleftrightarrow> c \<le> c' \<and> c' \<le> e \<and> loose_type (mem_slice mem c c')"
      proof (cases "c < c'")
        case True
        then show ?thesis by (simp add: slice_Cons)
      next
        case False
        then have "mem_slice mem c c' = []" by simp
        with False show ?thesis using loose_type_not_Nil by auto
      qed
      finally show ?thesis .
    next
      case False
      then show ?thesis by (auto simp: ParseByte_def dest: loose_slice)
    qed
    show "ParseType_end_fuel (Suc f) mem e c \<noteq> NoFuel"
      using l ParseTypeSwitch_fuel [OF Suc.IH, of c] by (cases "c < e") (auto simp: ParseByte_def)
  qed
qed (unfold_locales, auto)

interpretation end_parser: cursor_parser mem pbEnd "ParseType_end_fuel f mem pbEnd" loose_type f
  by (rule ParseType_end_fuel_parser)

lemma ParseType_end_exact:
  "ParseType_end mem c e = Done c' \<longleftrightarrow> c \<le> c' \<and> c' \<le> e \<and> loose_type (mem_slice mem c c')"
  unfolding ParseType_end_def by (rule end_parser.pt_exact) simp

lemma ParseType_end_not_NoFuel [simp]: "ParseType_end mem c e \<noteq> NoFuel"
  unfolding ParseType_end_def by (rule end_parser.pt_fuel) simp

section \<open>Parameters, results and the layout of a signature\<close>

definition loose_param :: "bytes \<Rightarrow> bool" where
  "loose_param x \<longleftrightarrow> x \<noteq> [] \<and> \<not> is_cmod (hd x) \<and> hd x \<noteq> elt ELEMENT_TYPE_TYPEDBYREF \<and>
     loose_type (if hd x = elt ELEMENT_TYPE_BYREF then tl x else x)"

definition loose_ret :: "bytes \<Rightarrow> bool" where
  "loose_ret x \<longleftrightarrow> x = [elt ELEMENT_TYPE_VOID] \<or> hd x \<noteq> elt ELEMENT_TYPE_VOID \<and> loose_param x"

lemma tl_slice [simp]: "a < b \<Longrightarrow> tl (mem_slice mem a b) = mem_slice mem (Suc a) b"
  by (simp add: slice_Cons)

lemma ParseParam_end_exact:
  "ParseParam_end mem c e = Done c' \<longleftrightarrow> c \<le> c' \<and> c' \<le> e \<and> loose_param (mem_slice mem c c')"
proof (cases "c < c'")
  case True
  then show ?thesis
    by (auto simp: ParseParam_end_def ParseType_end_exact loose_param_def Let_def dest: loose_slice)
next
  case False
  then show ?thesis
    by (auto simp: ParseParam_end_def ParseType_end_exact loose_param_def Let_def dest!: loose_slice)
qed

lemma ParseRetType_end_exact:
  "ParseRetType_end mem c e = Done c' \<longleftrightarrow> c \<le> c' \<and> c' \<le> e \<and> loose_ret (mem_slice mem c c')"
proof (cases "c < c'")
  case True
  then show ?thesis
    by (auto simp: ParseRetType_end_def ParseType_end_exact loose_ret_def loose_param_def Let_def
        slice_Cons_iff is_cmod_def dest: loose_slice)
next
  case False
  then have "mem_slice mem c c' = []" by simp
  with False show ?thesis
    by (auto simp: ParseRetType_end_def ParseType_end_exact loose_ret_def loose_param_def Let_def
        dest!: loose_slice)
qed

text \<open>The parameters from \<open>cur\<close> to \<open>e\<close>: one slice after the other, with at most one sentinel before one of them.\<close>

fun laid_out :: "mem \<Rightarrow> bool \<Rightarrow> nat \<Rightarrow> FunctionMethodArgument list \<Rightarrow> nat \<Rightarrow> bool" where
  "laid_out mem found cur [] e \<longleftrightarrow> cur = e"
| "laid_out mem found cur (a # as) e \<longleftrightarrow>
     (let sent = (mem cur = elt ELEMENT_TYPE_SENTINEL) in
      \<not> (sent \<and> found) \<and> arg_offset a = (if sent then Suc cur else cur) \<and>
      loose_param (mem_slice mem (arg_offset a) (arg_offset a + arg_length a)) \<and>
      laid_out mem (found \<or> sent) (arg_offset a + arg_length a) as e)"

lemma loose_param_less: "loose_param (mem_slice mem a b) \<Longrightarrow> a < b"
  by (auto simp: loose_param_def)

lemma laid_out_le: "laid_out mem found cur as e \<Longrightarrow> cur \<le> e"
  by (induction mem found cur as e rule: laid_out.induct) (auto simp: Let_def split: if_splits)

lemma TryParse_params_Suc:
  assumes "c \<le> E"
  shows "TryParse_params mem E (Suc n) found c self = (S_OK, self') \<longleftrightarrow>
    (let sent = (mem c = elt ELEMENT_TYPE_SENTINEL); s = (if sent then Suc c else c) in
     \<not> (sent \<and> found) \<and> (\<exists>c'. c' \<le> E \<and> loose_param (mem_slice mem s c') \<and>
       TryParse_params mem E n (found \<or> sent) c'
         (self \<lparr>params_vec := params_vec self @ [\<lparr>arg_offset = s, arg_length = c' - s\<rparr>]\<rparr>) = (S_OK, self')))"
    (is "_ \<longleftrightarrow> ?r")
proof (cases "c < E")
  case True
  let ?s = "if mem c = elt ELEMENT_TYPE_SENTINEL then Suc c else c"
  have eq: "ParseParam_end mem ?s E = Done c' \<longleftrightarrow> c' \<le> E \<and> loose_param (mem_slice mem ?s c')" for c'
    using loose_param_less [of mem ?s c'] by (auto simp: ParseParam_end_exact)
  have ex: "(\<exists>c'. c' \<le> E \<and> loose_param (mem_slice mem ?s c') \<and> P c') \<longleftrightarrow>
      (case ParseParam_end mem ?s E of Done c' \<Rightarrow> P c' | _ \<Rightarrow> False)" for P
  proof -
    have "(\<exists>c'. c' \<le> E \<and> loose_param (mem_slice mem ?s c') \<and> P c') \<longleftrightarrow>
        (\<exists>c'. ParseParam_end mem ?s E = Done c' \<and> P c')"
      by (simp only: eq conj_assoc)
    then show ?thesis by (cases "ParseParam_end mem ?s E") simp_all
  qed
  have "S_OK \<noteq> E_FAIL" by simp
  with True show ?thesis unfolding Let_def ex TryParse_params.simps
    by (cases "ParseParam_end mem ?s E") auto
next
  case False
  with assms have "\<not> ?r" by (auto simp: Let_def dest!: loose_param_less)
  with False show ?thesis by simp
qed

lemma TryParse_params_layout:
  "c \<le> E \<Longrightarrow> TryParse_params mem E n found c self = (S_OK, self') \<longleftrightarrow>
     (\<exists>as e. length as = n \<and> laid_out mem found c as e \<and> e \<le> E \<and>
       self' = self \<lparr>params_vec := params_vec self @ as\<rparr>)"
proof (induction n arbitrary: found c self)
  case (Suc n)
  let ?sent = "mem c = elt ELEMENT_TYPE_SENTINEL"
  let ?s = "if ?sent then Suc c else c"
  have "TryParse_params mem E (Suc n) found c self = (S_OK, self') \<longleftrightarrow>
      \<not> (?sent \<and> found) \<and> (\<exists>c' as e. c' \<le> E \<and> loose_param (mem_slice mem ?s c') \<and>
        length as = n \<and> laid_out mem (found \<or> ?sent) c' as e \<and> e \<le> E \<and>
        self' = self \<lparr>params_vec := params_vec self @ \<lparr>arg_offset = ?s, arg_length = c' - ?s\<rparr> # as\<rparr>)"
  proof -
    have "TryParse_params mem E n f c' (self \<lparr>params_vec := params_vec self @ [a]\<rparr>) = (S_OK, self') \<longleftrightarrow>
        (\<exists>as e. length as = n \<and> laid_out mem f c' as e \<and> e \<le> E \<and>
          self' = self \<lparr>params_vec := params_vec self @ a # as\<rparr>)" if "c' \<le> E" for f c' a
      using Suc.IH [OF that] by simp
    note ih = this
    show ?thesis unfolding TryParse_params_Suc [OF Suc.prems] Let_def
      by (rule conj_cong [OF refl], rule ex_cong1) (simp add: ih cong: conj_cong)
  qed
  also have "\<dots> \<longleftrightarrow> (\<exists>a as e. length as = n \<and> laid_out mem found c (a # as) e \<and> e \<le> E \<and>
        self' = self \<lparr>params_vec := params_vec self @ a # as\<rparr>)" (is "?l \<longleftrightarrow> ?r")
  proof
    assume ?l
    then obtain c' as e where "\<not> (?sent \<and> found)" "loose_param (mem_slice mem ?s c')"
      "length as = n" "laid_out mem (found \<or> ?sent) c' as e" "e \<le> E"
      "self' = self \<lparr>params_vec := params_vec self @ \<lparr>arg_offset = ?s, arg_length = c' - ?s\<rparr> # as\<rparr>"
      by blast
    moreover from this(2) have "?s + (c' - ?s) = c'" by (drule_tac loose_param_less) simp
    ultimately show ?r
      by (intro exI [of _ "\<lparr>arg_offset = ?s, arg_length = c' - ?s\<rparr>"] exI [of _ as] exI [of _ e])
        (simp add: Let_def)
  next
    assume ?r
    then obtain a as e where a: "length as = n" "laid_out mem found c (a # as) e" "e \<le> E"
      "self' = self \<lparr>params_vec := params_vec self @ a # as\<rparr>" by blast
    have "a = \<lparr>arg_offset = ?s, arg_length = (arg_offset a + arg_length a) - ?s\<rparr>"
      using a(2) by (simp add: Let_def)
    with a show ?l
      by (intro conjI exI [of _ "arg_offset a + arg_length a"] exI [of _ as] exI [of _ e])
        (auto simp: Let_def dest: laid_out_le)
  qed
  also have "\<dots> \<longleftrightarrow> (\<exists>as e. length as = Suc n \<and> laid_out mem found c as e \<and> e \<le> E \<and>
        self' = self \<lparr>params_vec := params_vec self @ as\<rparr>)"
    by (auto simp: length_Suc_conv simp del: laid_out.simps)
  finally show ?case .
qed (auto simp: length_0_conv)

lemma case_fail:
  "(case m of Done x \<Rightarrow> f x | Reject \<Rightarrow> (E_FAIL, s1) | Overread \<Rightarrow> (E_FAIL, s2) | NoFuel \<Rightarrow> (E_FAIL, s3)) =
     (S_OK, s') \<longleftrightarrow> (\<exists>x. m = Done x \<and> f x = (S_OK, s'))"
  by (cases m) auto

lemma TryParse_tail:
  "TryParse_from mem len self p = (S_OK, self') \<longleftrightarrow>
    (\<exists>q r e n as. p \<le> q \<and> number_bytes (mem_slice mem p q) n \<and>
        q \<le> r \<and> loose_ret (mem_slice mem q r) \<and>
        length as = unat n \<and> laid_out mem False r as e \<and> e \<le> len \<and>
        self' = self \<lparr>numberOfArguments := n,
          ret := \<lparr>arg_offset = q, arg_length = r - q\<rparr>, params_vec := params_vec self @ as\<rparr>)"
    (is "?t \<longleftrightarrow> ?r")
proof
  assume ?t
  then obtain n q r where n: "ParseNumber_end mem p len = Done (n, q)"
    and r: "ParseRetType_end mem q len = Done r"
    and ps: "TryParse_params mem len (unat n) False r (self \<lparr>numberOfArguments := n,
        ret := \<lparr>arg_offset = q, arg_length = r - q\<rparr>\<rparr>) = (S_OK, self')"
    by (auto simp: TryParse_from_def Let_def case_fail)
  have "r \<le> len" using r by (simp add: ParseRetType_end_exact)
  with ps obtain as e where "length as = unat n" "laid_out mem False r as e" "e \<le> len"
    "self' = self \<lparr>numberOfArguments := n, ret := \<lparr>arg_offset = q, arg_length = r - q\<rparr>,
       params_vec := params_vec self @ as\<rparr>"
    by (auto simp: TryParse_params_layout)
  then show ?r using n r unfolding ParseNumber_end_exact ParseRetType_end_exact by blast
next
  assume ?r
  then obtain q r e n as where r: "p \<le> q" "number_bytes (mem_slice mem p q) n" "q \<le> r"
    "loose_ret (mem_slice mem q r)" "length as = unat n" "laid_out mem False r as e" "e \<le> len"
    "self' = self \<lparr>numberOfArguments := n, ret := \<lparr>arg_offset = q, arg_length = r - q\<rparr>,
       params_vec := params_vec self @ as\<rparr>" by blast
  have l: "r \<le> len" using laid_out_le [OF r(6)] r(7) by simp
  have "TryParse_params mem len (unat n) False r (self \<lparr>numberOfArguments := n,
        ret := \<lparr>arg_offset = q, arg_length = r - q\<rparr>\<rparr>) = (S_OK, self')"
    using r l by (auto simp: TryParse_params_layout)
  moreover have "ParseNumber_end mem p len = Done (n, q)" "ParseRetType_end mem q len = Done r"
    using r l by (simp_all add: ParseNumber_end_exact ParseRetType_end_exact)
  ultimately show ?t by (simp add: TryParse_from_def Let_def)
qed

text \<open>The generic count, and the position after it.\<close>

definition generic_header :: "mem \<Rightarrow> u32 \<Rightarrow> u32 \<Rightarrow> nat \<Rightarrow> bool" where
  "generic_header mem old g p \<longleftrightarrow>
     (if mem 0 AND IMAGE_CEE_CS_CALLCONV_GENERIC \<noteq> 0
      then 1 \<le> p \<and> number_bytes (mem_slice mem 1 p) g else p = 1 \<and> g = old)"

lemma TryParse_exact:
  "TryParse mem len self = (S_OK, self') \<longleftrightarrow>
     (\<exists>g p q r e n as. 0 < len \<and> generic_header mem (numberOfTypeArguments self) g p \<and>
        p \<le> q \<and> number_bytes (mem_slice mem p q) n \<and> q \<le> r \<and> loose_ret (mem_slice mem q r) \<and>
        length as = unat n \<and> laid_out mem False r as e \<and> e \<le> len \<and>
        self' = self \<lparr>numberOfTypeArguments := g, numberOfArguments := n,
          ret := \<lparr>arg_offset = q, arg_length = r - q\<rparr>, params_vec := params_vec self @ as\<rparr>)"
    (is "?t \<longleftrightarrow> ?r")
proof -
  let ?c = "mem 0 AND IMAGE_CEE_CS_CALLCONV_GENERIC \<noteq> 0"
  let ?h = "if ?c then obind (ParseNumber_end mem 1 len) (\<lambda>(gen_param_count, pbCur).
      Done (self \<lparr>numberOfTypeArguments := gen_param_count\<rparr>, pbCur)) else Done (self, 1)"
  have h: "?h = Done (s, p) \<longleftrightarrow> (\<exists>g. (?c \<longrightarrow> p \<le> len) \<and>
      generic_header mem (numberOfTypeArguments self) g p \<and> s = self \<lparr>numberOfTypeArguments := g\<rparr>)" for s p
    by (auto simp: generic_header_def obind_Done_iff ParseNumber_end_exact)
  have "?t \<longleftrightarrow> 0 < len \<and> (\<exists>s p. ?h = Done (s, p) \<and>
      (\<exists>q r e n as. p \<le> q \<and> number_bytes (mem_slice mem p q) n \<and>
        q \<le> r \<and> loose_ret (mem_slice mem q r) \<and>
        length as = unat n \<and> laid_out mem False r as e \<and> e \<le> len \<and>
        self' = s \<lparr>numberOfArguments := n,
          ret := \<lparr>arg_offset = q, arg_length = r - q\<rparr>, params_vec := params_vec s @ as\<rparr>))"
    unfolding TryParse_def case_fail TryParse_tail split_paired_Ex prod.case ParseByte_exact by auto
  also have "\<dots> \<longleftrightarrow> ?r"
  proof
    assume "0 < len \<and> (\<exists>s p. ?h = Done (s, p) \<and>
      (\<exists>q r e n as. p \<le> q \<and> number_bytes (mem_slice mem p q) n \<and>
        q \<le> r \<and> loose_ret (mem_slice mem q r) \<and>
        length as = unat n \<and> laid_out mem False r as e \<and> e \<le> len \<and>
        self' = s \<lparr>numberOfArguments := n,
          ret := \<lparr>arg_offset = q, arg_length = r - q\<rparr>, params_vec := params_vec s @ as\<rparr>))"
    then obtain s p q r e n as where "0 < len" and hp: "?h = Done (s, p)" and rest: "p \<le> q"
      "number_bytes (mem_slice mem p q) n" "q \<le> r" "loose_ret (mem_slice mem q r)"
      "length as = unat n" "laid_out mem False r as e" "e \<le> len"
      "self' = s \<lparr>numberOfArguments := n,
          ret := \<lparr>arg_offset = q, arg_length = r - q\<rparr>, params_vec := params_vec s @ as\<rparr>" by blast
    moreover obtain g where "generic_header mem (numberOfTypeArguments self) g p"
      "s = self \<lparr>numberOfTypeArguments := g\<rparr>" using hp unfolding h by blast
    ultimately show ?r
      by (intro exI [of _ g] exI [of _ p] exI [of _ q] exI [of _ r] exI [of _ e] exI [of _ n]
          exI [of _ as]) simp
  next
    assume ?r
    then obtain g p q r e n as where "0 < len" and hp: "generic_header mem (numberOfTypeArguments self) g p"
      and rest: "p \<le> q" "number_bytes (mem_slice mem p q) n" "q \<le> r" "loose_ret (mem_slice mem q r)"
      "length as = unat n" "laid_out mem False r as e" "e \<le> len"
      "self' = self \<lparr>numberOfTypeArguments := g, numberOfArguments := n,
          ret := \<lparr>arg_offset = q, arg_length = r - q\<rparr>, params_vec := params_vec self @ as\<rparr>" by blast
    moreover have "?h = Done (self \<lparr>numberOfTypeArguments := g\<rparr>, p)"
      unfolding h using hp rest laid_out_le [OF rest(6)] by auto
    ultimately show "0 < len \<and> (\<exists>s p. ?h = Done (s, p) \<and>
      (\<exists>q r e n as. p \<le> q \<and> number_bytes (mem_slice mem p q) n \<and>
        q \<le> r \<and> loose_ret (mem_slice mem q r) \<and>
        length as = unat n \<and> laid_out mem False r as e \<and> e \<le> len \<and>
        self' = s \<lparr>numberOfArguments := n,
          ret := \<lparr>arg_offset = q, arg_length = r - q\<rparr>, params_vec := params_vec s @ as\<rparr>))"
      by (intro conjI exI [of _ "self \<lparr>numberOfTypeArguments := g\<rparr>"] exI [of _ p] exI [of _ q]
          exI [of _ r] exI [of _ e] exI [of _ n] exI [of _ as]) simp_all
  qed
  finally show ?thesis .
qed


section \<open>Memory beyond the end\<close>

definition agree :: "nat \<Rightarrow> mem \<Rightarrow> mem \<Rightarrow> bool" where
  "agree len mem mem' \<longleftrightarrow> (\<forall>i<len. mem i = mem' i)"

lemma agree_slice: "agree len mem mem' \<Longrightarrow> b \<le> len \<Longrightarrow> mem_slice mem a b = mem_slice mem' a b"
  by (auto simp: agree_def mem_slice_def)

lemma agree_number: "agree len mem mem' \<Longrightarrow> ParseNumber_end mem c len = Done x \<longleftrightarrow> ParseNumber_end mem' c len = Done x"
  by (cases x) (auto simp: ParseNumber_end_exact agree_slice)

lemma agree_param: "agree len mem mem' \<Longrightarrow> ParseParam_end mem c len = Done x \<longleftrightarrow> ParseParam_end mem' c len = Done x"
  by (auto simp: ParseParam_end_exact agree_slice)

lemma agree_ret: "agree len mem mem' \<Longrightarrow> ParseRetType_end mem c len = Done x \<longleftrightarrow> ParseRetType_end mem' c len = Done x"
  by (auto simp: ParseRetType_end_exact agree_slice)

lemma case_agree:
  assumes "\<And>x. m = Done x \<longleftrightarrow> m' = Done x" and "\<And>x. f x = f' x"
  shows "(case m of Done x \<Rightarrow> f x | _ \<Rightarrow> s) = (case m' of Done x \<Rightarrow> f' x | _ \<Rightarrow> s)"
proof -
  consider x where "m = Done x" | "\<forall>x. m \<noteq> Done x" by blast
  then show ?thesis
  proof cases
    case 1
    then have "m' = Done x" using assms(1) [of x] by simp
    with 1 assms(2) show ?thesis by simp
  next
    case 2
    then have "\<forall>x. m' \<noteq> Done x" using assms(1) by simp
    with 2 show ?thesis by (cases m; cases m') simp_all
  qed
qed

lemma agree_params:
  "agree len mem mem' \<Longrightarrow> TryParse_params mem len n found c self = TryParse_params mem' len n found c self"
proof (induction n arbitrary: found c self)
  case (Suc n)
  show ?case
  proof (cases "c < len")
    case True
    then have "mem c = mem' c" using Suc.prems by (simp add: agree_def)
    then show ?thesis unfolding TryParse_params.simps Let_def
      by (simp only:) (intro if_cong refl case_agree agree_param Suc)
  qed simp
qed simp

lemma agree_number_eq: "agree len mem mem' \<Longrightarrow> ParseNumber_end mem c len = ParseNumber_end mem' c len"
  by (auto simp: ParseNumber_end_def ParseByte_def agree_def)

lemma agree_from:
  assumes a: "agree len mem mem'"
  shows "TryParse_from mem len self c = TryParse_from mem' len self c"
proof (cases "ParseNumber_end mem' c len")
  case (Done x)
  obtain n q where x: "x = (n, q)" by (cases x)
  show ?thesis unfolding TryParse_from_def agree_number_eq [OF a] Done x Let_def outcome.case prod.case
    by (intro case_agree agree_ret a agree_params)
qed (simp_all add: TryParse_from_def agree_number_eq [OF a])

text \<open>
  The result of \<^verbatim>\<open>TryParse\<close>, failures and partial records included, depends only on the
  \<open>len\<close> bytes of the signature, although some checks read the byte at \<^verbatim>\<open>pbEnd\<close> before they
  test the bound.
\<close>

theorem TryParse_ignores_beyond:
  "(\<forall>i<len. mem i = mem' i) \<Longrightarrow> TryParse mem len self = TryParse mem' len self"
proof -
  assume "\<forall>i<len. mem i = mem' i"
  then have a: "agree len mem mem'" by (simp add: agree_def)
  then have z: "0 < len \<Longrightarrow> mem 0 = mem' 0" by (simp add: agree_def)
  have f: "TryParse_from mem len = TryParse_from mem' len"
    by (intro ext agree_from a)
  show ?thesis unfolding TryParse_def f using z
    by (cases "0 < len") (simp_all add: ParseByte_def agree_number_eq [OF a])
qed

section \<open>The slices lie in the signature\<close>

lemma laid_out_slices:
  "laid_out mem found c as e \<Longrightarrow> (\<forall>a\<in>set as. c \<le> arg_offset a \<and> 0 < arg_length a \<and>
     arg_offset a + arg_length a \<le> e \<and>
     loose_param (mem_slice mem (arg_offset a) (arg_offset a + arg_length a))) \<and>
   sorted_wrt (\<lambda>a b. arg_offset a + arg_length a \<le> arg_offset b) as"
proof (induction mem found c as e rule: laid_out.induct)
  case (2 mem found c a as e)
  let ?sent = "mem c = elt ELEMENT_TYPE_SENTINEL"
  have l: "laid_out mem (found \<or> ?sent) (arg_offset a + arg_length a) as e" "c \<le> arg_offset a"
    and p: "loose_param (mem_slice mem (arg_offset a) (arg_offset a + arg_length a))"
    using "2.prems" by (auto simp: Let_def split: if_splits)
  show ?case
    using "2.IH" [OF refl] l p laid_out_le [OF l(1)] loose_param_less [OF p] "2.prems"
    by (fastforce simp: Let_def)
qed simp

text \<open>
  After a successful parse the result and the new parameters are non-empty slices inside
  the signature, in order and without overlap.
\<close>

theorem TryParse_slices:
  assumes "TryParse mem len self = (S_OK, self')"
  shows "let args = ret self' # drop (length (params_vec self)) (params_vec self') in
     length args = Suc (unat (numberOfArguments self')) \<and>
     (\<forall>a\<in>set args. 0 < arg_length a \<and> arg_offset a + arg_length a \<le> len) \<and>
     sorted_wrt (\<lambda>a b. arg_offset a + arg_length a \<le> arg_offset b) args"
proof -
  obtain g p q r e n as where q: "q \<le> r" "loose_ret (mem_slice mem q r)" "length as = unat n"
      "laid_out mem False r as e" "e \<le> len"
      "self' = self \<lparr>numberOfTypeArguments := g, numberOfArguments := n,
          ret := \<lparr>arg_offset = q, arg_length = r - q\<rparr>, params_vec := params_vec self @ as\<rparr>"
    using assms unfolding TryParse_exact by blast
  have "q < r" using q(2) by (auto simp: loose_ret_def slice_Cons_iff dest: loose_param_less)
  then show ?thesis using q laid_out_slices [OF q(4)] laid_out_le [OF q(4)] by (fastforce simp: Let_def)
qed

definition new_signature :: FunctionMethodSignature where
  "new_signature = \<lparr>numberOfTypeArguments = 0, numberOfArguments = 0,
     ret = \<lparr>arg_offset = 0, arg_length = 0\<rparr>, params_vec = []\<rparr>"

text \<open>The signature of an instance method that takes a 32-bit integer and a by-reference string.\<close>

definition sample_signature :: mem where
  "sample_signature i = ([0x20, 0x02, 0x01, 0x08, 0x10, 0x0e] ! i)"

lemma sample_parse:
  "TryParse sample_signature 6 new_signature =
     (S_OK, \<lparr>numberOfTypeArguments = 0, numberOfArguments = 2,
       ret = \<lparr>arg_offset = 2, arg_length = 1\<rparr>,
       params_vec = [\<lparr>arg_offset = 3, arg_length = 1\<rparr>, \<lparr>arg_offset = 4, arg_length = 2\<rparr>]\<rparr>)"
proof -
  have s: "sample_signature 0 = 0x20" "sample_signature (Suc 0) = 0x02" "sample_signature 2 = 0x01"
    "sample_signature 3 = 0x08" "sample_signature 4 = 0x10" "sample_signature 5 = 0x0e"
    by (simp_all add: sample_signature_def)
  have e: "to_elt 0x08 = Some ELEMENT_TYPE_I4" "to_elt 0x0e = Some ELEMENT_TYPE_STRING"
    by (simp_all add: to_elt_Some_iff elt.simps)
  have "ParseNumber_end sample_signature 1 6 = Done (2, 2)"
    by (simp add: ParseNumber_end_def ParseByte_def s)
  moreover have "ParseRetType_end sample_signature 2 6 = Done 3"
    by (simp add: ParseRetType_end_def s is_cmod_def elt.simps)
  moreover have "ParseParam_end sample_signature 3 6 = Done 4"
    by (simp add: ParseParam_end_def s is_cmod_def elt.simps ParseType_end_def ParseByte_def
        ParseTypeSwitch_def e)
  moreover have "ParseParam_end sample_signature 4 6 = Done 6"
    by (simp add: ParseParam_end_def s is_cmod_def elt.simps ParseType_end_def ParseByte_def
        ParseTypeSwitch_def e Let_def)
  moreover have "TryParse_params sample_signature 6 2 = TryParse_params sample_signature 6 (Suc (Suc 0))"
    by (simp add: numeral_2_eq_2)
  ultimately show ?thesis
    by (simp add: TryParse_def TryParse_from_def ParseByte_def s new_signature_def Let_def elt.simps)
qed

theorem TryParse_ignores_beyond_witness:
  "TryParse (\<lambda>i. if i < 6 then sample_signature i else 0xff) 6 new_signature =
   TryParse sample_signature 6 new_signature"
  by (rule TryParse_ignores_beyond) simp

theorem TryParse_slices_witness:
  "\<exists>self'. TryParse sample_signature 6 new_signature = (S_OK, self') \<and>
     length (ret self' # drop (length (params_vec new_signature)) (params_vec self')) =
       Suc (unat (numberOfArguments self'))"
  using TryParse_slices [OF sample_parse] sample_parse by (auto simp: Let_def)

text \<open>
  The switch has no default case: a byte that stands for no supported type, such as
  SENTINEL, PINNED or a second BYREF, or that is no element type at all, is accepted as a
  type of one byte.
\<close>

theorem ParseType_end_accepts_unknown:
  assumes "c < len" and "mem c = elt ELEMENT_TYPE_PINNED \<or> mem c = elt ELEMENT_TYPE_SENTINEL \<or>
    mem c = elt ELEMENT_TYPE_BYREF \<or> to_elt (mem c) = None"
  shows "ParseType_end mem c len = Done (c + 1)"
proof -
  have "plain_byte (mem c)" using assms(2) by (auto simp: plain_byte_def to_elt_None_iff)
  then show ?thesis using assms(1) by (auto simp: ParseType_end_exact slice_Cons intro: loose_plain)
qed

theorem ParseType_end_accepts_unknown_witness:
  "ParseType_end (\<lambda>i. elt ELEMENT_TYPE_PINNED) 0 1 = Done 1"
  using ParseType_end_accepts_unknown [of 0 1 "\<lambda>i. elt ELEMENT_TYPE_PINNED"] by simp

end
