(* ===== verification/TypeNames.thy ===== *)
theory TypeNames
  imports MethodSig
begin

text \<open>
  What \<^verbatim>\<open>FunctionMethodArgument\<close> (\<^verbatim>\<open>clr_helpers.cpp\<close>) answers about the slice of a type: its
  flags, its token, and its printed name. The metadata interfaces are parameters:
  \<open>DefineTypeRefByName\<close> and \<open>GetTokenFromTypeSpec\<close> for the emitted tokens, \<open>type_name\<close> for the
  name \<^verbatim>\<open>GetTypeInfo\<close> finds for a token.
\<close>

section \<open>Names of the primitive types\<close>

definition SystemBoolean :: wstring where "SystemBoolean = WStr ''System.Boolean''"
definition SystemChar :: wstring where "SystemChar = WStr ''System.Char''"
definition SystemByte :: wstring where "SystemByte = WStr ''System.Byte''"
definition SystemSByte :: wstring where "SystemSByte = WStr ''System.SByte''"
definition SystemUInt16 :: wstring where "SystemUInt16 = WStr ''System.UInt16''"
definition SystemInt16 :: wstring where "SystemInt16 = WStr ''System.Int16''"
definition SystemInt32 :: wstring where "SystemInt32 = WStr ''System.Int32''"
definition SystemUInt32 :: wstring where "SystemUInt32 = WStr ''System.UInt32''"
definition SystemInt64 :: wstring where "SystemInt64 = WStr ''System.Int64''"
definition SystemUInt64 :: wstring where "SystemUInt64 = WStr ''System.UInt64''"
definition SystemSingle :: wstring where "SystemSingle = WStr ''System.Single''"
definition SystemDouble :: wstring where "SystemDouble = WStr ''System.Double''"
definition SystemIntPtr :: wstring where "SystemIntPtr = WStr ''System.IntPtr''"
definition SystemUIntPtr :: wstring where "SystemUIntPtr = WStr ''System.UIntPtr''"
definition SystemString :: wstring where "SystemString = WStr ''System.String''"
definition SystemObject :: wstring where "SystemObject = WStr ''System.Object''"

definition GetSignature :: "mem \<Rightarrow> FunctionMethodArgument \<Rightarrow> bytes" where
  "GetSignature mem self = mem_slice mem (arg_offset self) (arg_offset self + arg_length self)"

section \<open>Flags\<close>

abbreviation (input) TypeFlagByRef :: u32 where "TypeFlagByRef \<equiv> 0x01"
abbreviation (input) TypeFlagVoid :: u32 where "TypeFlagVoid \<equiv> 0x02"
abbreviation (input) TypeFlagBoxedType :: u32 where "TypeFlagBoxedType \<equiv> 0x04"

definition GetTypeFlags :: "bytes \<Rightarrow> (u32 \<times> u8) outcome" where
  "GetTypeFlags sig =
     obind (peek sig) (\<lambda>b.
       if b = elt ELEMENT_TYPE_VOID then Done (TypeFlagVoid, b)
       else
         let flag = (if b = elt ELEMENT_TYPE_BYREF then TypeFlagByRef else 0);
             pbCur = (if b = elt ELEMENT_TYPE_BYREF then tl sig else sig)
         in obind (peek pbCur) (\<lambda>elementType.
           (case to_elt elementType of
              Some ELEMENT_TYPE_BOOLEAN \<Rightarrow> Done (flag OR TypeFlagBoxedType, elementType)
            | Some ELEMENT_TYPE_CHAR \<Rightarrow> Done (flag OR TypeFlagBoxedType, elementType)
            | Some ELEMENT_TYPE_I1 \<Rightarrow> Done (flag OR TypeFlagBoxedType, elementType)
            | Some ELEMENT_TYPE_U1 \<Rightarrow> Done (flag OR TypeFlagBoxedType, elementType)
            | Some ELEMENT_TYPE_U2 \<Rightarrow> Done (flag OR TypeFlagBoxedType, elementType)
            | Some ELEMENT_TYPE_I2 \<Rightarrow> Done (flag OR TypeFlagBoxedType, elementType)
            | Some ELEMENT_TYPE_I4 \<Rightarrow> Done (flag OR TypeFlagBoxedType, elementType)
            | Some ELEMENT_TYPE_U4 \<Rightarrow> Done (flag OR TypeFlagBoxedType, elementType)
            | Some ELEMENT_TYPE_I8 \<Rightarrow> Done (flag OR TypeFlagBoxedType, elementType)
            | Some ELEMENT_TYPE_U8 \<Rightarrow> Done (flag OR TypeFlagBoxedType, elementType)
            | Some ELEMENT_TYPE_R4 \<Rightarrow> Done (flag OR TypeFlagBoxedType, elementType)
            | Some ELEMENT_TYPE_R8 \<Rightarrow> Done (flag OR TypeFlagBoxedType, elementType)
            | Some ELEMENT_TYPE_I \<Rightarrow> Done (flag OR TypeFlagBoxedType, elementType)
            | Some ELEMENT_TYPE_U \<Rightarrow> Done (flag OR TypeFlagBoxedType, elementType)
            | Some ELEMENT_TYPE_VALUETYPE \<Rightarrow> Done (flag OR TypeFlagBoxedType, elementType)
            | Some ELEMENT_TYPE_MVAR \<Rightarrow> Done (flag OR TypeFlagBoxedType, elementType)
            | Some ELEMENT_TYPE_VAR \<Rightarrow> Done (flag OR TypeFlagBoxedType, elementType)
            | Some ELEMENT_TYPE_GENERICINST \<Rightarrow>
                obind (peek (tl pbCur)) (\<lambda>k.
                  Done (if k = elt ELEMENT_TYPE_VALUETYPE then flag OR TypeFlagBoxedType else flag,
                        elementType))
            | _ \<Rightarrow> Done (flag, elementType))))"

section \<open>Tokens\<close>

definition GetTypeTok ::
  "(mdToken \<Rightarrow> wstring \<Rightarrow> mdToken) \<Rightarrow> (bytes \<Rightarrow> mdToken) \<Rightarrow> mdToken \<Rightarrow> bytes \<Rightarrow> mdToken outcome" where
  "GetTypeTok DefineTypeRefByName GetTokenFromTypeSpec corLibRef sig =
     obind (peek sig) (\<lambda>b.
       let pbCur = (if b = elt ELEMENT_TYPE_BYREF then tl sig else sig) in
       obind (peek pbCur) (\<lambda>e.
         (case to_elt e of
            Some ELEMENT_TYPE_BOOLEAN \<Rightarrow> Done (DefineTypeRefByName corLibRef SystemBoolean)
          | Some ELEMENT_TYPE_CHAR \<Rightarrow> Done (DefineTypeRefByName corLibRef SystemChar)
          | Some ELEMENT_TYPE_I1 \<Rightarrow> Done (DefineTypeRefByName corLibRef SystemSByte)
          | Some ELEMENT_TYPE_U1 \<Rightarrow> Done (DefineTypeRefByName corLibRef SystemByte)
          | Some ELEMENT_TYPE_U2 \<Rightarrow> Done (DefineTypeRefByName corLibRef SystemUInt16)
          | Some ELEMENT_TYPE_I2 \<Rightarrow> Done (DefineTypeRefByName corLibRef SystemInt16)
          | Some ELEMENT_TYPE_I4 \<Rightarrow> Done (DefineTypeRefByName corLibRef SystemInt32)
          | Some ELEMENT_TYPE_U4 \<Rightarrow> Done (DefineTypeRefByName corLibRef SystemUInt32)
          | Some ELEMENT_TYPE_I8 \<Rightarrow> Done (DefineTypeRefByName corLibRef SystemInt64)
          | Some ELEMENT_TYPE_U8 \<Rightarrow> Done (DefineTypeRefByName corLibRef SystemUInt64)
          | Some ELEMENT_TYPE_R4 \<Rightarrow> Done (DefineTypeRefByName corLibRef SystemSingle)
          | Some ELEMENT_TYPE_R8 \<Rightarrow> Done (DefineTypeRefByName corLibRef SystemDouble)
          | Some ELEMENT_TYPE_I \<Rightarrow> Done (DefineTypeRefByName corLibRef SystemIntPtr)
          | Some ELEMENT_TYPE_U \<Rightarrow> Done (DefineTypeRefByName corLibRef SystemUIntPtr)
          | Some ELEMENT_TYPE_STRING \<Rightarrow> Done (DefineTypeRefByName corLibRef SystemString)
          | Some ELEMENT_TYPE_OBJECT \<Rightarrow> Done (DefineTypeRefByName corLibRef SystemObject)
          | Some ELEMENT_TYPE_CLASS \<Rightarrow>
              obind (CorSigUncompressToken_ref (tl pbCur)) (\<lambda>(token, pbCur). Done token)
          | Some ELEMENT_TYPE_VALUETYPE \<Rightarrow>
              obind (CorSigUncompressToken_ref (tl pbCur)) (\<lambda>(token, pbCur). Done token)
          | Some ELEMENT_TYPE_GENERICINST \<Rightarrow> Done (GetTokenFromTypeSpec pbCur)
          | Some ELEMENT_TYPE_SZARRAY \<Rightarrow> Done (GetTokenFromTypeSpec pbCur)
          | Some ELEMENT_TYPE_MVAR \<Rightarrow> Done (GetTokenFromTypeSpec pbCur)
          | Some ELEMENT_TYPE_VAR \<Rightarrow> Done (GetTokenFromTypeSpec pbCur)
          | _ \<Rightarrow> Done mdTokenNil)))"

section \<open>Names\<close>

text \<open>
  \<^verbatim>\<open>pbCur += CorSigUncompressData(pbCur, &num)\<close>: the number and the bytes behind it. A number
  that is not one moves the pointer 4294967295 bytes on, out of the signature.
\<close>

definition skip_number :: "bytes \<Rightarrow> (u32 \<times> bytes) outcome" where
  "skip_number pbCur =
     obind (CorSigUncompressData pbCur) (\<lambda>(cb, num).
       if cb = -1 then Overread else Done (num, drop (unat cb) pbCur))"

text \<open>The arguments of a generic instance, with a comma after each but the last.\<close>

primrec arg_names ::
  "(bytes \<Rightarrow> (wstring \<times> bytes) outcome) \<Rightarrow> nat \<Rightarrow> bytes \<Rightarrow> (wstring \<times> bytes) outcome" where
  "arg_names name 0 pbCur = Done ([], pbCur)"
| "arg_names name (Suc n) pbCur =
     obind (name pbCur) (\<lambda>(s, pbCur).
       obind (arg_names name n pbCur) (\<lambda>(rest, pbCur).
         Done (s @ (if n \<noteq> 0 then WStr '','' else []) @ rest, pbCur)))"

definition type_name_switch ::
  "(mdToken \<Rightarrow> wstring) \<Rightarrow> (bytes \<Rightarrow> (wstring \<times> bytes) outcome) \<Rightarrow> bytes \<Rightarrow>
   (wstring \<times> bytes) outcome" where
  "type_name_switch type_name name pbCur =
     obind (peek pbCur) (\<lambda>e.
       (case to_elt e of
          Some ELEMENT_TYPE_BOOLEAN \<Rightarrow> Done (SystemBoolean, tl pbCur)
        | Some ELEMENT_TYPE_CHAR \<Rightarrow> Done (SystemChar, tl pbCur)
        | Some ELEMENT_TYPE_I1 \<Rightarrow> Done (SystemSByte, tl pbCur)
        | Some ELEMENT_TYPE_U1 \<Rightarrow> Done (SystemByte, tl pbCur)
        | Some ELEMENT_TYPE_U2 \<Rightarrow> Done (SystemUInt16, tl pbCur)
        | Some ELEMENT_TYPE_I2 \<Rightarrow> Done (SystemInt16, tl pbCur)
        | Some ELEMENT_TYPE_I4 \<Rightarrow> Done (SystemInt32, tl pbCur)
        | Some ELEMENT_TYPE_U4 \<Rightarrow> Done (SystemUInt32, tl pbCur)
        | Some ELEMENT_TYPE_I8 \<Rightarrow> Done (SystemInt64, tl pbCur)
        | Some ELEMENT_TYPE_U8 \<Rightarrow> Done (SystemUInt64, tl pbCur)
        | Some ELEMENT_TYPE_R4 \<Rightarrow> Done (SystemSingle, tl pbCur)
        | Some ELEMENT_TYPE_R8 \<Rightarrow> Done (SystemDouble, tl pbCur)
        | Some ELEMENT_TYPE_I \<Rightarrow> Done (SystemIntPtr, tl pbCur)
        | Some ELEMENT_TYPE_U \<Rightarrow> Done (SystemUIntPtr, tl pbCur)
        | Some ELEMENT_TYPE_STRING \<Rightarrow> Done (SystemString, tl pbCur)
        | Some ELEMENT_TYPE_OBJECT \<Rightarrow> Done (SystemObject, tl pbCur)
        | Some ELEMENT_TYPE_CLASS \<Rightarrow>
            obind (skip_number (tl pbCur)) (\<lambda>(tk, pbCur). Done (type_name (decode_token tk), pbCur))
        | Some ELEMENT_TYPE_VALUETYPE \<Rightarrow>
            obind (skip_number (tl pbCur)) (\<lambda>(tk, pbCur). Done (type_name (decode_token tk), pbCur))
        | Some ELEMENT_TYPE_SZARRAY \<Rightarrow>
            obind (name (tl pbCur)) (\<lambda>(s, pbCur). Done (s @ WStr ''[]'', pbCur))
        | Some ELEMENT_TYPE_GENERICINST \<Rightarrow>
            obind (name (tl pbCur)) (\<lambda>(s, pbCur).
              obind (skip_number pbCur) (\<lambda>(num, pbCur).
                obind (arg_names name (unat num) pbCur) (\<lambda>(args, pbCur).
                  Done (s @ WStr ''['' @ args @ WStr '']'', pbCur))))
        | Some ELEMENT_TYPE_MVAR \<Rightarrow>
            obind (skip_number (tl pbCur)) (\<lambda>(num, pbCur). Done (WStr ''!!'' @ to_string (unat num), pbCur))
        | Some ELEMENT_TYPE_VAR \<Rightarrow>
            obind (skip_number (tl pbCur)) (\<lambda>(num, pbCur). Done (WStr ''!'' @ to_string (unat num), pbCur))
        | _ \<Rightarrow> Done ([], pbCur)))"

primrec GetSigTypeTokName_fuel ::
  "nat \<Rightarrow> (mdToken \<Rightarrow> wstring) \<Rightarrow> bytes \<Rightarrow> (wstring \<times> bytes) outcome" where
  "GetSigTypeTokName_fuel 0 type_name pbCur = NoFuel"
| "GetSigTypeTokName_fuel (Suc fuel) type_name pbCur =
     obind (peek pbCur) (\<lambda>b.
       let ref_flag = (b = elt ELEMENT_TYPE_BYREF);
           pbCur = (if ref_flag then tl pbCur else pbCur)
       in obind (type_name_switch type_name (GetSigTypeTokName_fuel fuel type_name) pbCur) (\<lambda>(tokenName, pbCur).
            Done (if ref_flag then tokenName @ WStr ''&'' else tokenName, pbCur)))"

definition GetSigTypeTokName :: "(mdToken \<Rightarrow> wstring) \<Rightarrow> bytes \<Rightarrow> (wstring \<times> bytes) outcome" where
  "GetSigTypeTokName type_name pbCur = GetSigTypeTokName_fuel (Suc (length pbCur)) type_name pbCur"

section \<open>Types as trees\<close>

text \<open>
  The types the printer supports, as trees, with the signature the metadata writer produces
  for each and the name the profiler should print for it.
\<close>

datatype sigtype =
    Prim CorElementType
  | Named CorElementType mdToken
  | SzArray sigtype
  | GenericInst CorElementType mdToken "sigtype list"
  | Var u32
  | MVar u32

definition prim_name :: "CorElementType \<Rightarrow> wstring option" where
  "prim_name e = (case e of
       ELEMENT_TYPE_BOOLEAN \<Rightarrow> Some SystemBoolean
     | ELEMENT_TYPE_CHAR \<Rightarrow> Some SystemChar
     | ELEMENT_TYPE_I1 \<Rightarrow> Some SystemSByte
     | ELEMENT_TYPE_U1 \<Rightarrow> Some SystemByte
     | ELEMENT_TYPE_U2 \<Rightarrow> Some SystemUInt16
     | ELEMENT_TYPE_I2 \<Rightarrow> Some SystemInt16
     | ELEMENT_TYPE_I4 \<Rightarrow> Some SystemInt32
     | ELEMENT_TYPE_U4 \<Rightarrow> Some SystemUInt32
     | ELEMENT_TYPE_I8 \<Rightarrow> Some SystemInt64
     | ELEMENT_TYPE_U8 \<Rightarrow> Some SystemUInt64
     | ELEMENT_TYPE_R4 \<Rightarrow> Some SystemSingle
     | ELEMENT_TYPE_R8 \<Rightarrow> Some SystemDouble
     | ELEMENT_TYPE_I \<Rightarrow> Some SystemIntPtr
     | ELEMENT_TYPE_U \<Rightarrow> Some SystemUIntPtr
     | ELEMENT_TYPE_STRING \<Rightarrow> Some SystemString
     | ELEMENT_TYPE_OBJECT \<Rightarrow> Some SystemObject
     | _ \<Rightarrow> None)"

fun wf_type :: "sigtype \<Rightarrow> bool" where
  "wf_type (Prim e) \<longleftrightarrow> prim_name e \<noteq> None"
| "wf_type (Named k tk) \<longleftrightarrow> k \<in> {ELEMENT_TYPE_CLASS, ELEMENT_TYPE_VALUETYPE} \<and>
     TypeFromToken tk \<in> set g_tkCorEncodeToken"
| "wf_type (SzArray t) \<longleftrightarrow> wf_type t"
| "wf_type (GenericInst k tk ts) \<longleftrightarrow> k \<in> {ELEMENT_TYPE_CLASS, ELEMENT_TYPE_VALUETYPE} \<and>
     TypeFromToken tk \<in> set g_tkCorEncodeToken \<and> length ts \<le> 0x1FFFFFFF \<and> (\<forall>t\<in>set ts. wf_type t)"
| "wf_type (Var n) \<longleftrightarrow> n \<le> 0x1FFFFFFF"
| "wf_type (MVar n) \<longleftrightarrow> n \<le> 0x1FFFFFFF"

fun encode :: "sigtype \<Rightarrow> bytes" where
  "encode (Prim e) = [elt e]"
| "encode (Named k tk) = elt k # snd (CorSigCompressToken tk)"
| "encode (SzArray t) = elt ELEMENT_TYPE_SZARRAY # encode t"
| "encode (GenericInst k tk ts) = elt ELEMENT_TYPE_GENERICINST # elt k # snd (CorSigCompressToken tk) @
     snd (CorSigCompressData (of_nat (length ts))) @ concat (map encode ts)"
| "encode (Var n) = elt ELEMENT_TYPE_VAR # snd (CorSigCompressData n)"
| "encode (MVar n) = elt ELEMENT_TYPE_MVAR # snd (CorSigCompressData n)"

fun render :: "(mdToken \<Rightarrow> wstring) \<Rightarrow> sigtype \<Rightarrow> wstring" where
  "render tn (Prim e) = (case prim_name e of Some s \<Rightarrow> s | None \<Rightarrow> [])"
| "render tn (Named k tk) = tn tk"
| "render tn (SzArray t) = render tn t @ WStr ''[]''"
| "render tn (GenericInst k tk ts) =
     tn tk @ WStr ''['' @ join (hd (WStr '','')) (map (render tn) ts) @ WStr '']''"
| "render tn (Var n) = WStr ''!'' @ to_string (unat n)"
| "render tn (MVar n) = WStr ''!!'' @ to_string (unat n)"

lemma skip_number_bytes: "number_bytes bs n \<Longrightarrow> skip_number (bs @ r) = Done (n, r)"
  by (simp add: skip_number_def UncompressData_number)

lemma skip_compressed: "n \<le> 0x1FFFFFFF \<Longrightarrow> skip_number (snd (CorSigCompressData n) @ r) = Done (n, r)"
  by (rule skip_number_bytes) (rule CompressData_number(1))

lemma skip_token: "skip_number (snd (CorSigCompressToken tk) @ r) = Done (token_number tk, r)"
  by (simp add: CompressToken_number skip_compressed token_number_le)

lemma decode_encodable: "TypeFromToken tk \<in> set g_tkCorEncodeToken \<Longrightarrow> decode_token (token_number tk) = tk"
  by (simp add: decode_token_number)

lemma prim_name_cases:
  "prim_name e = Some s \<Longrightarrow> type_name_switch tn name (elt e # r) = Done (s, r) \<and> e \<noteq> ELEMENT_TYPE_BYREF"
  by (cases e) (simp_all add: prim_name_def type_name_switch_def)

lemma named_switch:
  "k \<in> {ELEMENT_TYPE_CLASS, ELEMENT_TYPE_VALUETYPE} \<Longrightarrow> TypeFromToken tk \<in> set g_tkCorEncodeToken \<Longrightarrow>
   type_name_switch tn name (elt k # snd (CorSigCompressToken tk) @ r) = Done (tn tk, r)"
  by (auto simp: type_name_switch_def skip_token decode_encodable)

lemma arg_names_all:
  assumes "\<And>t r. t \<in> set ts \<Longrightarrow> name (encode t @ r) = Done (render tn t, r)"
  shows "arg_names name (length ts) (concat (map encode ts) @ r) =
    Done (join (hd (WStr '','')) (map (render tn) ts), r)"
  using assms
proof (induction ts)
  case (Cons t ts)
  have "arg_names name (length ts) (concat (map encode ts) @ r) =
    Done (join (hd (WStr '','')) (map (render tn) ts), r)"
    by (rule Cons.IH) (use Cons.prems in auto)
  then show ?case using Cons.prems [of t "concat (map encode ts) @ r"]
    by (cases ts) (simp_all add: WStr_def)
qed simp

lemma encode_not_Nil [simp]: "encode t \<noteq> []"
  by (cases t) simp_all

lemma length_of_nat: "n \<le> 0x1FFFFFFF \<Longrightarrow> unat (of_nat n :: u32) = n"
  by (simp add: unat_of_nat)

lemma of_nat_le: "n \<le> 0x1FFFFFFF \<Longrightarrow> (of_nat n :: u32) \<le> 0x1FFFFFFF"
  by (simp add: word_le_nat_alt length_of_nat)

lemma length_encode_member: "t \<in> set ts \<Longrightarrow> length (encode t) \<le> length (concat (map encode ts))"
  by (induction ts) auto

lemma GetSigTypeTokName_step:
  "e \<noteq> ELEMENT_TYPE_BYREF \<Longrightarrow>
   GetSigTypeTokName_fuel (Suc f) tn (elt e # r) =
     type_name_switch tn (GetSigTypeTokName_fuel f tn) (elt e # r)"
  by (cases "type_name_switch tn (GetSigTypeTokName_fuel f tn) (elt e # r)") auto

lemma GetSigTypeTokName_fuel_encode:
  "wf_type t \<Longrightarrow> length (encode t) < f \<Longrightarrow>
   GetSigTypeTokName_fuel f tn (encode t @ r) = Done (render tn t, r)"
proof (induction t arbitrary: f r)
  case (Prim e)
  then obtain s f' where "prim_name e = Some s" "f = Suc f'" by (cases f) auto
  with prim_name_cases [of e s] show ?case by (simp del: GetSigTypeTokName_fuel.simps add: GetSigTypeTokName_step)
next
  case (Named k tk)
  then obtain f' where "f = Suc f'" by (cases f) auto
  with Named named_switch show ?case
    by (auto simp del: GetSigTypeTokName_fuel.simps simp: GetSigTypeTokName_step)
next
  case (SzArray t)
  then obtain f' where "f = Suc f'" "length (encode t) < f'" by (cases f) auto
  with SzArray show ?case
    by (simp del: GetSigTypeTokName_fuel.simps add: GetSigTypeTokName_step type_name_switch_def)
next
  case (GenericInst k tk ts)
  let ?h = "elt k # snd (CorSigCompressToken tk)"
  from GenericInst.prems obtain f' where f: "f = Suc f'"
    and l: "length (?h @ snd (CorSigCompressData (of_nat (length ts))) @ concat (map encode ts)) < f'"
    by (cases f) auto
  then obtain f'' where f'': "f' = Suc f''" by (cases f') auto
  have head: "GetSigTypeTokName_fuel f' tn (?h @ r) = Done (tn tk, r)" for r
    using GenericInst.prems named_switch unfolding f''
    by (auto simp del: GetSigTypeTokName_fuel.simps simp: GetSigTypeTokName_step)
  have args: "arg_names (GetSigTypeTokName_fuel f' tn) (length ts) (concat (map encode ts) @ r) =
      Done (join (hd (WStr '','')) (map (render tn) ts), r)"
  proof (rule arg_names_all)
    fix t r assume t: "t \<in> set ts"
    show "GetSigTypeTokName_fuel f' tn (encode t @ r) = Done (render tn t, r)"
      using t GenericInst.prems l length_encode_member [OF t] by (intro GenericInst.IH) auto
  qed
  have num: "skip_number (snd (CorSigCompressData (of_nat (length ts))) @ r) = Done (of_nat (length ts), r)" for r
    using GenericInst.prems by (intro skip_compressed of_nat_le) simp
  show ?case using head args num GenericInst.prems unfolding f
    by (simp del: GetSigTypeTokName_fuel.simps
        add: GetSigTypeTokName_step type_name_switch_def length_of_nat)
next
  case (Var n)
  then obtain f' where "f = Suc f'" by (cases f) auto
  with Var show ?case
    by (simp del: GetSigTypeTokName_fuel.simps add: GetSigTypeTokName_step type_name_switch_def skip_compressed)
next
  case (MVar n)
  then obtain f' where "f = Suc f'" by (cases f) auto
  with MVar show ?case
    by (simp del: GetSigTypeTokName_fuel.simps add: GetSigTypeTokName_step type_name_switch_def skip_compressed)
qed

text \<open>
  The name printed for a type is the rendering of its tree, whatever follows it in the
  signature, and the pointer ends right behind it: for every primitive, named, array,
  generic and variable type, nested to any depth, as the metadata writer encodes it.
\<close>

theorem GetSigTypeTokName_renders:
  assumes "wf_type t"
  shows "GetSigTypeTokName tn (encode t @ r) = Done (render tn t, r)"
  unfolding GetSigTypeTokName_def by (rule GetSigTypeTokName_fuel_encode [OF assms]) simp

theorem GetSigTypeTokName_renders_witness:
  "GetSigTypeTokName (\<lambda>tk. WStr ''Map'') (encode (GenericInst ELEMENT_TYPE_CLASS 0x01000005
       [Prim ELEMENT_TYPE_I4, SzArray (MVar 0)])) =
     Done (WStr ''Map[System.Int32,!!0[]]'', [])"
proof -
  have "wf_type (GenericInst ELEMENT_TYPE_CLASS 0x01000005 [Prim ELEMENT_TYPE_I4, SzArray (MVar 0)])"
    by (simp add: prim_name_def TypeFromToken_def g_tkCorEncodeToken_def)
  from GetSigTypeTokName_renders [OF this, of "\<lambda>tk. WStr ''Map''" "[]"] show ?thesis
    by (simp add: prim_name_def SystemInt32_def WStr_def to_string.simps digit_def of_char_Char)
qed

section \<open>Flags and tokens of parsed signatures\<close>

text \<open>Types whose values are boxed when they are stored as an object.\<close>

definition value_sig :: "bytes \<Rightarrow> bool" where
  "value_sig y \<longleftrightarrow>
     hd y \<in> elt ` {ELEMENT_TYPE_BOOLEAN, ELEMENT_TYPE_CHAR, ELEMENT_TYPE_I1, ELEMENT_TYPE_U1,
       ELEMENT_TYPE_I2, ELEMENT_TYPE_U2, ELEMENT_TYPE_I4, ELEMENT_TYPE_U4, ELEMENT_TYPE_I8,
       ELEMENT_TYPE_U8, ELEMENT_TYPE_R4, ELEMENT_TYPE_R8, ELEMENT_TYPE_I, ELEMENT_TYPE_U,
       ELEMENT_TYPE_VALUETYPE, ELEMENT_TYPE_VAR, ELEMENT_TYPE_MVAR} \<or>
     hd y = elt ELEMENT_TYPE_GENERICINST \<and> hd (tl y) = elt ELEMENT_TYPE_VALUETYPE"

definition without_byref :: "bytes \<Rightarrow> bytes" where
  "without_byref x = (if hd x = elt ELEMENT_TYPE_BYREF then tl x else x)"

lemma loose_type_generic: "loose_type (elt ELEMENT_TYPE_GENERICINST # y) \<Longrightarrow> y \<noteq> []"
  by (auto simp: loose_type_Cons)

text \<open>The switch on the element type, with its cases gathered.\<close>

definition flag_switch :: "bytes \<Rightarrow> u32 \<Rightarrow> (u32 \<times> u8) outcome" where
  "flag_switch y flag = obind (peek y) (\<lambda>elementType.
      (case to_elt elementType of
         Some e \<Rightarrow>
           if e \<in> {ELEMENT_TYPE_BOOLEAN, ELEMENT_TYPE_CHAR, ELEMENT_TYPE_I1, ELEMENT_TYPE_U1,
             ELEMENT_TYPE_I2, ELEMENT_TYPE_U2, ELEMENT_TYPE_I4, ELEMENT_TYPE_U4, ELEMENT_TYPE_I8,
             ELEMENT_TYPE_U8, ELEMENT_TYPE_R4, ELEMENT_TYPE_R8, ELEMENT_TYPE_I, ELEMENT_TYPE_U,
             ELEMENT_TYPE_VALUETYPE, ELEMENT_TYPE_VAR, ELEMENT_TYPE_MVAR}
           then Done (flag OR TypeFlagBoxedType, elementType)
           else if e = ELEMENT_TYPE_GENERICINST then obind (peek (tl y)) (\<lambda>k.
                  Done (if k = elt ELEMENT_TYPE_VALUETYPE then flag OR TypeFlagBoxedType else flag, elementType))
           else Done (flag, elementType)
       | None \<Rightarrow> Done (flag, elementType)))"

lemma flag_switch_value:
  assumes "loose_type y"
  shows "flag_switch y flag = Done (flag OR (if value_sig y then TypeFlagBoxedType else 0), hd y)"
proof (cases y)
  case (Cons b z)
  show ?thesis
  proof (cases "to_elt b")
    case None
    then have "b \<notin> range elt" by (auto simp: to_elt_None_iff)
    then show ?thesis using Cons None by (auto simp: flag_switch_def value_sig_def)
  next
    case (Some e)
    then have b: "b = elt e" by (simp add: to_elt_Some_iff)
    show ?thesis
    proof (cases "e = ELEMENT_TYPE_GENERICINST")
      case True
      then obtain k w where "z = k # w" using assms b Cons loose_type_generic by (cases z) auto
      then show ?thesis using True b Cons by (simp add: flag_switch_def value_sig_def)
    next
      case False
      then show ?thesis using b Cons Some by (auto simp: flag_switch_def value_sig_def)
    qed
  qed
qed (use assms in simp)

lemma GetTypeFlags_unfold:
  "GetTypeFlags sig =
     obind (peek sig) (\<lambda>b. if b = elt ELEMENT_TYPE_VOID then Done (TypeFlagVoid, b)
       else flag_switch (if b = elt ELEMENT_TYPE_BYREF then tl sig else sig)
              (if b = elt ELEMENT_TYPE_BYREF then TypeFlagByRef else 0))"
  unfolding GetTypeFlags_def flag_switch_def Let_def
  by (intro arg_cong2 [of _ _ _ _ obind] refl ext if_cong) (simp split: option.split CorElementType.split)

lemma GetTypeFlags_slice:
  assumes "loose_ret x \<or> loose_param x"
  shows "GetTypeFlags x =
    Done ((if hd x = elt ELEMENT_TYPE_BYREF then TypeFlagByRef else 0) OR
          (if hd x = elt ELEMENT_TYPE_VOID then TypeFlagVoid else 0) OR
          (if value_sig (without_byref x) then TypeFlagBoxedType else 0), hd (without_byref x))"
proof (cases "hd x = elt ELEMENT_TYPE_VOID")
  case True
  with assms have "x \<noteq> []" by (auto simp: loose_ret_def loose_param_def)
  with True show ?thesis by (cases x) (auto simp: GetTypeFlags_def without_byref_def value_sig_def)
next
  case False
  with assms have p: "loose_param x" by (auto simp: loose_ret_def)
  then obtain b z where x: "x = b # z" by (cases x) (auto simp: loose_param_def)
  have y: "loose_type (without_byref x)" using p by (simp add: loose_param_def without_byref_def)
  show ?thesis
    using False x flag_switch_value [OF y, of "if b = elt ELEMENT_TYPE_BYREF then TypeFlagByRef else 0"]
    by (simp add: GetTypeFlags_unfold without_byref_def)
qed

text \<open>
  For the result and every parameter of a parsed signature \<^verbatim>\<open>GetTypeFlags\<close> stays inside the
  slice and reports exactly: by-reference for a leading BYREF, void for a leading VOID, and
  boxed for the value types, type variables and generic instances of value types.
\<close>

theorem GetTypeFlags_parsed:
  assumes "TryParse mem len self = (S_OK, self')"
    and "a \<in> set (ret self' # drop (length (params_vec self)) (params_vec self'))"
  shows "let x = GetSignature mem a in GetTypeFlags x =
    Done ((if hd x = elt ELEMENT_TYPE_BYREF then TypeFlagByRef else 0) OR
          (if hd x = elt ELEMENT_TYPE_VOID then TypeFlagVoid else 0) OR
          (if value_sig (without_byref x) then TypeFlagBoxedType else 0), hd (without_byref x))"
proof -
  obtain g p q r e n as where q: "q \<le> r" "loose_ret (mem_slice mem q r)" "laid_out mem False r as e"
      "self' = self \<lparr>numberOfTypeArguments := g, numberOfArguments := n,
          ret := \<lparr>arg_offset = q, arg_length = r - q\<rparr>, params_vec := params_vec self @ as\<rparr>"
    using assms(1) unfolding TryParse_exact by blast
  then have "a = \<lparr>arg_offset = q, arg_length = r - q\<rparr> \<or> a \<in> set as" using assms(2) by auto
  then have "loose_ret (GetSignature mem a) \<or> loose_param (GetSignature mem a)"
    using q laid_out_slices [OF q(3)] by (auto simp: GetSignature_def)
  then show ?thesis unfolding Let_def by (rule GetTypeFlags_slice)
qed

theorem GetTypeFlags_parsed_witness:
  "\<exists>self'. TryParse sample_signature 6 new_signature = (S_OK, self') \<and>
     GetTypeFlags (GetSignature sample_signature (params_vec self' ! 1)) = Done (TypeFlagByRef, elt ELEMENT_TYPE_STRING)"
proof -
  have s: "GetSignature sample_signature \<lparr>arg_offset = 4, arg_length = 2\<rparr> =
      [elt ELEMENT_TYPE_BYREF, elt ELEMENT_TYPE_STRING]"
    by (simp add: GetSignature_def mem_slice_def upt_rec sample_signature_def elt.simps)
  show ?thesis
    using GetTypeFlags_parsed [OF sample_parse, of "\<lparr>arg_offset = 4, arg_length = 2\<rparr>"] sample_parse
    by (simp add: new_signature_def s without_byref_def value_sig_def)
qed

section \<open>Tokens of types\<close>

lemma token_ref:
  "TypeFromToken tk \<in> set g_tkCorEncodeToken \<Longrightarrow>
   CorSigUncompressToken_ref (snd (CorSigCompressToken tk)) = Done (tk, [])"
  using UncompressData_ref_number [OF CompressData_number(1), of "token_number tk" "[]"]
  by (simp add: CorSigUncompressToken_ref_def CompressToken_number token_number_le decode_encodable)

lemma prim_token:
  "prim_name e = Some s \<Longrightarrow> GetTypeTok define spec corLib [elt e] = Done (define corLib s) \<and> e \<noteq> ELEMENT_TYPE_BYREF"
  by (cases e) (simp_all add: prim_name_def GetTypeTok_def)

text \<open>
  The token of a type, by value or by reference, is the one the metadata defines for the
  primitive's name, the encoded token of a class or value type, and the token of the type's
  own signature (without the BYREF) for an array, a generic instance or a type variable.
\<close>

theorem GetTypeTok_encode:
  assumes "wf_type t"
  shows "GetTypeTok define spec corLib ((if by_ref then [elt ELEMENT_TYPE_BYREF] else []) @ encode t) =
    Done (case t of Prim e \<Rightarrow> define corLib (the (prim_name e)) | Named k tk \<Rightarrow> tk | _ \<Rightarrow> spec (encode t))"
proof -
  have plain: "GetTypeTok define spec corLib (encode t) =
    Done (case t of Prim e \<Rightarrow> define corLib (the (prim_name e)) | Named k tk \<Rightarrow> tk | _ \<Rightarrow> spec (encode t))"
  proof (cases t)
    case (Prim e)
    with assms prim_token show ?thesis by auto
  next
    case (Named k tk)
    with assms token_ref show ?thesis by (auto simp: GetTypeTok_def)
  qed (simp_all add: GetTypeTok_def)
  have "\<exists>e y. encode t = elt e # y \<and> e \<noteq> ELEMENT_TYPE_BYREF"
    using assms by (cases t) (auto simp: prim_name_def)
  then have "GetTypeTok define spec corLib (elt ELEMENT_TYPE_BYREF # encode t) =
      GetTypeTok define spec corLib (encode t)" by (auto simp: GetTypeTok_def)
  with plain show ?thesis by simp
qed

theorem GetTypeTok_encode_witness:
  "GetTypeTok (\<lambda>lib name. lib) (\<lambda>sig. 0x1b000001) 0x23000001
     ([elt ELEMENT_TYPE_BYREF] @ encode (Named ELEMENT_TYPE_CLASS 0x0100000a)) = Done 0x0100000a"
  using GetTypeTok_encode [of "Named ELEMENT_TYPE_CLASS 0x0100000a" "\<lambda>lib name. lib"
      "\<lambda>sig. 0x1b000001" "0x23000001" True]
  by (simp add: TypeFromToken_def g_tkCorEncodeToken_def)

end
