(* ===== verification/SigAgreement.thy ===== *)
theory SigAgreement
  imports TypeNames
begin

text \<open>
  The profiler has two parsers of metadata signatures: the recogniser of \<^verbatim>\<open>sig_helpers.cpp\<close>
  and the bounded parser of \<^verbatim>\<open>clr_helpers.cpp\<close>. Where both accept, they agree on where the
  type ends; the differences are what each of them refuses.
\<close>

inductive_cases type_sig_ConsE: "type_sig (b # t)"

lemma number_prefix_free:
  assumes "number_bytes a n" and "number_bytes b m" and "a @ r = b @ r'"
  shows "a = b \<and> n = m \<and> r = r'"
proof -
  have "ParseNumber (a @ r) = Done (n, r)" "ParseNumber (a @ r) = Done (m, r')"
    using ParseNumber_complete assms by metis+
  then show ?thesis using assms(3) by simp
qed

lemma a_number_prefix_free: "a_number a \<Longrightarrow> a_number b \<Longrightarrow> a @ r = b @ r' \<Longrightarrow> a = b \<and> r = r'"
  unfolding a_number_def by (elim exE) (drule (2) number_prefix_free, simp)

lemma seq_agree:
  "seq (\<lambda>t. \<forall>u r r'. type_sig u \<longrightarrow> t @ r = u @ r' \<longrightarrow> t = u) n ts \<Longrightarrow> seq type_sig n us \<Longrightarrow>
   ts @ r = us @ r' \<Longrightarrow> ts = us"
proof (induction arbitrary: us rule: seq.induct)
  case (seq_Cons x n xs)
  from seq_Cons.prems obtain u vs where us: "us = u @ vs" "type_sig u" "seq type_sig n vs"
    by (auto simp: seq_Suc)
  then have "x @ (xs @ r) = u @ (vs @ r')" using seq_Cons.prems by simp
  then have "x = u" using seq_Cons.hyps us by blast
  with us seq_Cons show ?case by auto
qed auto

lemma loose_type_agrees: "loose_type t \<Longrightarrow> \<forall>u r r'. type_sig u \<longrightarrow> t @ r = u @ r' \<longrightarrow> t = u"
proof (induction rule: loose_type.induct)
  case (loose_plain b)
  show ?case
  proof (intro allI impI)
    fix u r r' assume u: "type_sig u" "[b] @ r = u @ r'"
    then obtain v where "u = b # v" using type_sig_start by fastforce
    with u(1) loose_plain show "[b] = u" by (auto elim!: type_sig_ConsE)
  qed
next
  case (loose_named e t)
  show ?case
  proof (intro allI impI)
    fix u r r' assume u: "type_sig u" "(elt e # t) @ r = u @ r'"
    then obtain v where v: "u = elt e # v" "t @ r = v @ r'" using type_sig_start by fastforce
    with u(1) loose_named(1) have "a_number v" by (auto elim!: type_sig_ConsE)
    with a_number_prefix_free [OF loose_named(2) this v(2)] v show "elt e # t = u" by simp
  qed
next
  case (loose_szarray t)
  show ?case
  proof (intro allI impI)
    fix u r r' assume u: "type_sig u" "(elt ELEMENT_TYPE_SZARRAY # t) @ r = u @ r'"
    then obtain v where v: "u = elt ELEMENT_TYPE_SZARRAY # v" "t @ r = v @ r'"
      using type_sig_start by fastforce
    with u(1) obtain m w where w: "v = m @ w" "mods m" "type_sig w" by (auto elim!: type_sig_ConsE)
    have "m = []"
    proof (rule ccontr)
      assume "m \<noteq> []"
      then obtain b m' where "m = b # m'" by (cases m) auto
      then have "is_cmod b" "hd t = b" using w v(2) mods_start loose_szarray(1)
        by (auto simp: append_eq_Cons_conv)
      with loose_szarray(2) show False by simp
    qed
    with w v loose_szarray.IH show "elt ELEMENT_TYPE_SZARRAY # t = u" by auto
  qed
next
  case (loose_generic e t c n ts)
  show ?case
  proof (intro allI impI)
    fix u r r' assume u: "type_sig u" "(elt ELEMENT_TYPE_GENERICINST # elt e # t @ c @ ts) @ r = u @ r'"
    then obtain v where v: "u = elt ELEMENT_TYPE_GENERICINST # v" "elt e # t @ c @ ts @ r = v @ r'"
      using type_sig_start by fastforce
    with u(1) obtain e' t' c' n' ts' where w: "v = elt e' # t' @ c' @ ts'" "a_number t'"
        "number_bytes c' n'" "seq type_sig (unat n') ts'" by (auto elim!: type_sig_ConsE)
    with v have e: "e = e'" "t @ c @ ts @ r = t' @ c' @ ts' @ r'" by auto
    have t: "t = t'" "c @ ts @ r = c' @ ts' @ r'"
      using a_number_prefix_free [OF loose_generic(2) w(2) e(2)] by auto
    have c: "c = c'" "n = n'" "ts @ r = ts' @ r'"
      using number_prefix_free [OF loose_generic(3) w(3) t(2)] by auto
    have "seq (\<lambda>t. \<forall>u r r'. type_sig u \<longrightarrow> t @ r = u @ r' \<longrightarrow> t = u) (unat n) ts"
      using loose_generic(4) by (rule predicate1D [OF seq_mono, rotated]) auto
    from seq_agree [OF this _ c(3)] w(4) c(2) have "ts = ts'" by simp
    with v w e t c show "elt ELEMENT_TYPE_GENERICINST # elt e # t @ c @ ts = u" by simp
  qed
next
  case (loose_variable e t)
  show ?case
  proof (intro allI impI)
    fix u r r' assume u: "type_sig u" "(elt e # t) @ r = u @ r'"
    then obtain v where v: "u = elt e # v" "t @ r = v @ r'" using type_sig_start by fastforce
    with u(1) loose_variable(1) have "a_number v" by (auto elim!: type_sig_ConsE)
    with a_number_prefix_free [OF loose_variable(2) this v(2)] v show "elt e # t = u" by simp
  qed
qed

text \<open>
  The two signature parsers agree: when the bounded parser accepts a type in a buffer and
  the recogniser accepts the same bytes, both stop at the same place.
\<close>

theorem signature_parsers_agree:
  assumes "ParseType_end mem 0 len = Done c" and "ParseType (mem_slice mem 0 len) = Done r"
  shows "r = mem_slice mem c len"
proof -
  have c: "c \<le> len" "loose_type (mem_slice mem 0 c)" using assms(1) by (auto simp: ParseType_end_exact)
  obtain u where u: "mem_slice mem 0 len = u @ r" "type_sig u" using sigs.pt_sound [OF assms(2)] by blast
  have s: "mem_slice mem 0 len = mem_slice mem 0 c @ mem_slice mem c len"
    using slice_append_iff [of 0 len mem "mem_slice mem 0 c" "mem_slice mem c len"] c(1) by auto
  then have "mem_slice mem 0 c = u" using loose_type_agrees [OF c(2)] u by metis
  with s u show ?thesis by simp
qed

text \<open>Every type the printer supports is accepted as a whole by the bounded parser.\<close>

lemma prim_plain: "prim_name e \<noteq> None \<Longrightarrow> plain_byte (elt e) \<and> \<not> is_cmod (elt e)"
  by (cases e) (simp_all add: prim_name_def plain_byte_def is_cmod_def)

lemma encode_start: "wf_type t \<Longrightarrow> \<not> is_cmod (hd (encode t))"
  by (cases t) (auto simp: prim_plain, auto simp: is_cmod_def)

lemma a_number_token [simp]: "a_number (snd (CorSigCompressToken tk))"
  unfolding CompressToken_number by (rule a_numberI [OF CompressData_number(1) [OF token_number_le]])

lemma seq_encode: "(\<And>t. t \<in> set ts \<Longrightarrow> loose_type (encode t)) \<Longrightarrow> seq loose_type (length ts) (concat (map encode ts))"
  by (induction ts) (auto intro: seq.intros)

lemma loose_encode: "wf_type t \<Longrightarrow> loose_type (encode t)"
proof (induction t)
  case (GenericInst k tk ts)
  then have "seq loose_type (unat (of_nat (length ts) :: u32)) (concat (map encode ts))"
    using seq_encode by (simp add: length_of_nat)
  with GenericInst show ?case
    using loose_type.loose_generic [OF _ a_number_token CompressData_number(1) [OF of_nat_le]] by auto
next
  case (Var n)
  then show ?case using a_numberI [OF CompressData_number(1)] by (auto intro: loose_type.intros)
next
  case (MVar n)
  then show ?case using a_numberI [OF CompressData_number(1)] by (auto intro: loose_type.intros)
qed (auto simp: prim_plain encode_start intro: loose_type.intros)

text \<open>
  The bounded parser accepts the encoding of every supported type tree and consumes
  exactly its bytes, wherever it lies in the signature and whatever follows it.
\<close>

theorem ParseType_end_encode:
  assumes "wf_type t" and "mem_slice mem c (c + length (encode t)) = encode t"
    and "c + length (encode t) \<le> len"
  shows "ParseType_end mem c len = Done (c + length (encode t))"
  using assms loose_encode [OF assms(1)] by (simp add: ParseType_end_exact)

theorem ParseType_end_encode_witness:
  "ParseType_end sample_signature 3 6 = Done 4"
  using ParseType_end_encode [of "Prim ELEMENT_TYPE_I4" sample_signature 3 6]
  by (simp add: prim_name_def mem_slice_def upt_rec sample_signature_def elt.simps)

theorem signature_parsers_agree_witness:
  "ParseType_end (\<lambda>i. elt ELEMENT_TYPE_I4) 0 2 = Done 1 \<and>
   ParseType [elt ELEMENT_TYPE_I4, elt ELEMENT_TYPE_I4] = Done [elt ELEMENT_TYPE_I4]"
proof -
  have a: "ParseType_end (\<lambda>i. elt ELEMENT_TYPE_I4) 0 2 = Done 1"
    by (simp add: ParseType_end_exact mem_slice_def loose_type_Cons plain_byte_def)
  have s: "mem_slice (\<lambda>i. elt ELEMENT_TYPE_I4) 0 2 = [elt ELEMENT_TYPE_I4, elt ELEMENT_TYPE_I4]"
    by (simp add: mem_slice_def upt_rec)
  obtain r where b: "ParseType [elt ELEMENT_TYPE_I4, elt ELEMENT_TYPE_I4] = Done r"
    using ParseType_complete [OF type_primitive [of ELEMENT_TYPE_I4], of "[elt ELEMENT_TYPE_I4]"] by simp
  have "r = mem_slice (\<lambda>i. elt ELEMENT_TYPE_I4) 1 2"
    by (rule signature_parsers_agree [OF a]) (simp add: s b)
  then show ?thesis using a b by (simp add: mem_slice_def upt_rec)
qed

end
