(* ===== verification/Integration.thy ===== *)
theory Integration
  imports MethodSig
begin

text \<open>
  The data of integrations (\<^verbatim>\<open>integration.h\<close>, \<^verbatim>\<open>integration.cpp\<close>): public key tokens, versions
  and their order, assembly references with their parser and cache, raw method signatures,
  method references and their cache keys. The regular expressions are those of the RE2
  package and are parameters.
\<close>

section \<open>Public keys\<close>

abbreviation (input) kPublicKeySize :: nat where "kPublicKeySize \<equiv> 8"

datatype PublicKey = PublicKey (key_data: bytes)

definition zero_key :: PublicKey where
  "zero_key = PublicKey (replicate kPublicKeySize 0)"

text \<open>The comparison loop of \<^verbatim>\<open>operator==\<close>, from index \<open>i\<close> on.\<close>

function key_eq_from :: "nat \<Rightarrow> PublicKey \<Rightarrow> PublicKey \<Rightarrow> bool" where
  "key_eq_from i self other =
     (if i < kPublicKeySize
      then if key_data self ! i \<noteq> key_data other ! i then False else key_eq_from (i + 1) self other
      else True)"
  by pat_completeness auto
termination by (relation "measure (\<lambda>(i, _). kPublicKeySize - i)") auto

declare key_eq_from.simps [simp del]

definition key_eq :: "PublicKey \<Rightarrow> PublicKey \<Rightarrow> bool" where
  "key_eq self other = key_eq_from 0 self other"

definition key_str :: "PublicKey \<Rightarrow> wstring" where
  "key_str self = concat (map (\<lambda>i. hex2 (key_data self ! i)) [0..<kPublicKeySize])"

definition wf_key :: "PublicKey \<Rightarrow> bool" where
  "wf_key k \<longleftrightarrow> length (key_data k) = kPublicKeySize"

lemma key_eq_from_iff:
  "key_eq_from i a b \<longleftrightarrow> (\<forall>j. i \<le> j \<and> j < kPublicKeySize \<longrightarrow> key_data a ! j = key_data b ! j)"
proof (induction i a b rule: key_eq_from.induct)
  case (1 i a b)
  then show ?case
    by (subst key_eq_from.simps) (auto simp: not_less, metis Suc_leI le_neq_implies_less)
qed

lemma key_eq_iff: "wf_key a \<Longrightarrow> wf_key b \<Longrightarrow> key_eq a b \<longleftrightarrow> a = b"
  by (cases a; cases b) (auto simp: key_eq_def key_eq_from_iff wf_key_def list_eq_iff_nth_eq)

lemma key_str_bytes: "wf_key k \<Longrightarrow> key_str k = concat (map hex2 (key_data k))"
proof -
  assume "wf_key k"
  then have "map (\<lambda>i. hex2 (key_data k ! i)) [0..<kPublicKeySize] = map hex2 (key_data k)"
    by (intro nth_equalityI) (auto simp: wf_key_def)
  then show ?thesis by (simp add: key_str_def)
qed

section \<open>Versions\<close>

datatype Version = Version (major: u16) (minor: u16) (build: u16) (revision: u16)

definition version_str :: "Version \<Rightarrow> wstring" where
  "version_str self = to_string (unat (major self)) @ WStr ''.'' @ to_string (unat (minor self)) @
     WStr ''.'' @ to_string (unat (build self)) @ WStr ''.'' @ to_string (unat (revision self))"

definition version_less :: "Version \<Rightarrow> Version \<Rightarrow> bool" where
  "version_less self other =
     (if major self < major other then True
      else if major self = major other \<and> minor self < minor other then True
      else if major self = major other \<and> minor self = minor other \<and> build self < build other then True
      else False)"

definition version_greater :: "Version \<Rightarrow> Version \<Rightarrow> bool" where
  "version_greater self other = version_less other self"

definition version_le :: "Version \<Rightarrow> Version \<Rightarrow> bool" where
  "version_le self other = (\<not> version_greater self other)"

definition version_ge :: "Version \<Rightarrow> Version \<Rightarrow> bool" where
  "version_ge self other = (\<not> version_less self other)"

text \<open>The operators of the source as the order of the type.\<close>

instantiation Version :: preorder
begin

definition less_Version :: "Version \<Rightarrow> Version \<Rightarrow> bool" where
  "less_Version = version_less"

definition less_eq_Version :: "Version \<Rightarrow> Version \<Rightarrow> bool" where
  "less_eq_Version = version_le"

instance
proof
  fix x y z :: Version
  show "x < y \<longleftrightarrow> x \<le> y \<and> \<not> y \<le> x"
    by (auto simp: less_Version_def less_eq_Version_def version_le_def version_greater_def version_less_def)
  show "x \<le> x"
    by (auto simp: less_eq_Version_def version_le_def version_greater_def version_less_def)
  show "x \<le> y \<Longrightarrow> y \<le> z \<Longrightarrow> x \<le> z"
    by (auto simp: less_eq_Version_def version_le_def version_greater_def version_less_def
        split: if_splits)
qed

end

text \<open>The part of a version that the order looks at.\<close>

definition triple :: "Version \<Rightarrow> nat" where
  "triple v = (unat (major v) * 2 ^ 16 + unat (minor v)) * 2 ^ 16 + unat (build v)"

lemma digits_less:
  fixes a b c d k :: nat
  assumes "b < k" and "d < k"
  shows "a * k + b < c * k + d \<longleftrightarrow> a < c \<or> a = c \<and> b < d"
proof -
  have "x * k + k \<le> y * k" if "x < y" for x y :: nat
    using mult_le_mono1 [of "Suc x" y k] that by simp
  then show ?thesis using assms by (cases a c rule: linorder_cases) fastforce+
qed

lemma digits_eq:
  fixes a b c d k :: nat
  assumes "b < k" and "d < k"
  shows "a * k + b = c * k + d \<longleftrightarrow> a = c \<and> b = d"
  using digits_less [OF assms, of a c] digits_less [OF assms(2,1), of c a] by auto

lemma triple_less:
  "triple a < triple b \<longleftrightarrow> major a < major b \<or> major a = major b \<and> (minor a < minor b \<or>
     minor a = minor b \<and> build a < build b)"
proof -
  have u: "unat (x :: u16) < 2 ^ 16" for x using unsigned_less [of x] by simp
  show ?thesis
    unfolding triple_def word_less_nat_alt word_unat_eq_iff by (simp only: digits_less digits_eq u) blast
qed

lemma version_less_triple: "version_less a b \<longleftrightarrow> triple a < triple b"
  by (auto simp: version_less_def triple_less)

lemma version_le_triple: "version_le a b \<longleftrightarrow> triple a \<le> triple b"
  by (auto simp: version_le_def version_greater_def version_less_triple)

lemma triple_eq: "triple a = triple b \<longleftrightarrow> major a = major b \<and> minor a = minor b \<and> build a = build b"
  using triple_less [of a b] triple_less [of b a] by (metis less_irrefl linorder_neqE)

text \<open>
  The order of versions compares major, minor and build lexicographically and ignores the
  revision: \<open>\<le>\<close> is total and transitive, but two versions that differ only in the revision
  are each \<open>\<le>\<close> the other without being equal.
\<close>

theorem version_order:
  "(version_less a b \<longleftrightarrow> triple a < triple b) \<and> (version_le a b \<longleftrightarrow> triple a \<le> triple b) \<and>
   (version_le a b \<and> version_le b a \<longleftrightarrow> major a = major b \<and> minor a = minor b \<and> build a = build b)"
  using triple_eq [of a b] by (auto simp: version_less_triple version_le_triple)

section \<open>Renderings of versions\<close>

lemma WStr_chars [simp]:
  "WStr [] = []" "WStr (c # cs) = of_char c # WStr cs"
  by (simp_all add: WStr_def)

lemma version_str_join:
  "version_str v = join 0x2e [to_string (unat (major v)), to_string (unat (minor v)),
     to_string (unat (build v)), to_string (unat (revision v))]"
  by (simp add: version_str_def of_char_Char)

lemma dot_not_digit: "0x2e \<notin> set (to_string n)"
  using to_string_digits [of "0x2e" n] by (auto simp: is_digit_def)

lemma version_str_inject: "version_str a = version_str b \<longleftrightarrow> a = b"
proof
  assume "version_str a = version_str b"
  then have "[to_string (unat (major a)), to_string (unat (minor a)),
     to_string (unat (build a)), to_string (unat (revision a))] =
    [to_string (unat (major b)), to_string (unat (minor b)),
     to_string (unat (build b)), to_string (unat (revision b))]"
    unfolding version_str_join by (rule join_inject) (auto simp: dot_not_digit)
  then show "a = b" by (cases a; cases b) (simp add: word_unat_eq_iff)
qed simp

lemma version_str_chars: "c \<in> set (version_str v) \<Longrightarrow> is_digit c \<or> c = 0x2e"
  by (auto simp: version_str_def of_char_Char dest: to_string_digits)

section \<open>Method signatures as byte arrays\<close>

text \<open>\<^verbatim>\<open>data[i]\<close> of a vector, without a bounds check: outside it is undefined.\<close>

definition at_index :: "bytes \<Rightarrow> nat \<Rightarrow> u8 outcome" where
  "at_index data i = (if i < length data then Done (data ! i) else Overread)"

datatype MethodSignature = MethodSignature (data: bytes)

definition CallingConvention :: "MethodSignature \<Rightarrow> u8" where
  "CallingConvention self = (if data self = [] then 0 else data self ! 0)"

definition is_generic_sig :: "MethodSignature \<Rightarrow> bool" where
  "is_generic_sig self \<longleftrightarrow> CallingConvention self AND IMAGE_CEE_CS_CALLCONV_GENERIC \<noteq> 0"

definition NumberOfTypeArguments :: "MethodSignature \<Rightarrow> u8" where
  "NumberOfTypeArguments self =
     (if length (data self) > 1 \<and> is_generic_sig self then data self ! 1 else 0)"

definition NumberOfArguments :: "MethodSignature \<Rightarrow> u8" where
  "NumberOfArguments self =
     (if length (data self) > 2 \<and> is_generic_sig self then data self ! 2
      else if length (data self) > 1 then data self ! 1
      else 0)"

definition ReturnTypeIsObject :: "MethodSignature \<Rightarrow> bool outcome" where
  "ReturnTypeIsObject self =
     (if length (data self) > 2 \<and> is_generic_sig self
      then obind (at_index (data self) 3) (\<lambda>b. Done (b = elt ELEMENT_TYPE_OBJECT))
      else if length (data self) > 1
      then obind (at_index (data self) 2) (\<lambda>b. Done (b = elt ELEMENT_TYPE_OBJECT))
      else Done False)"

definition IndexOfReturnType :: "MethodSignature \<Rightarrow> nat" where
  "IndexOfReturnType self =
     (if length (data self) > 2 \<and> is_generic_sig self then 3
      else if length (data self) > 1 then 2
      else 0)"

definition signature_str :: "MethodSignature \<Rightarrow> wstring" where
  "signature_str self = concat (map hex2 (data self))"

definition IsInstanceMethod :: "MethodSignature \<Rightarrow> bool" where
  "IsInstanceMethod self \<longleftrightarrow> CallingConvention self AND IMAGE_CEE_CS_CALLCONV_HASTHIS \<noteq> 0"

text \<open>
  Asking whether the return type is an object reads past the end of exactly the two-byte
  signatures and the three-byte generic ones: the guards admit a signature one byte too
  short for the index they read.
\<close>

theorem ReturnTypeIsObject_overread:
  "ReturnTypeIsObject self = Overread \<longleftrightarrow>
     length (data self) = 2 \<or> length (data self) = 3 \<and> is_generic_sig self"
  by (auto simp: ReturnTypeIsObject_def at_index_def)

lemma one_byte_number:
  assumes "number_bytes (mem_slice mem c c') n" and "mem c AND 0x80 = 0" and "c \<le> c'"
  shows "c' = Suc c \<and> n = ucast (mem c)"
  using assms by (auto simp: number_bytes.simps slice_Cons_iff lead_byte)

text \<open>
  The quick accessors agree with the parser: for a signature that parses and whose counts
  are written in one byte each, they return the counts the parser records and the index at
  which the parser found the return type.
\<close>

theorem quick_counts_agree:
  assumes "TryParse mem len new_signature = (S_OK, self')"
    and "mem 1 AND 0x80 = 0" and "mem 0 AND IMAGE_CEE_CS_CALLCONV_GENERIC \<noteq> 0 \<longrightarrow> mem 2 AND 0x80 = 0"
  shows "let d = MethodSignature (mem_slice mem 0 len) in
    ucast (NumberOfTypeArguments d) = numberOfTypeArguments self' \<and>
    ucast (NumberOfArguments d) = numberOfArguments self' \<and>
    IndexOfReturnType d = arg_offset (ret self')"
proof -
  obtain g p q r e n as where h: "0 < len" "generic_header mem 0 g p" "p \<le> q"
      "number_bytes (mem_slice mem p q) n" "q \<le> r" "loose_ret (mem_slice mem q r)"
      "laid_out mem False r as e" "e \<le> len"
      "self' = new_signature \<lparr>numberOfTypeArguments := g, numberOfArguments := n,
          ret := \<lparr>arg_offset = q, arg_length = r - q\<rparr>, params_vec := params_vec new_signature @ as\<rparr>"
    using assms(1) unfolding TryParse_exact by (auto simp: new_signature_def)
  have "q < r" using h(6) by (auto simp: loose_ret_def slice_Cons_iff dest: loose_param_less)
  then have q: "q < len" using laid_out_le [OF h(7)] h(8) by simp
  let ?d = "MethodSignature (mem_slice mem 0 len)"
  have d: "data ?d ! i = mem i" if "i < len" for i using that by (simp add: mem_slice_def)
  have conv: "CallingConvention ?d = mem 0" using h(1) d [of 0] by (simp add: CallingConvention_def)
  show ?thesis
  proof (cases "mem 0 AND IMAGE_CEE_CS_CALLCONV_GENERIC = 0")
    case True
    then have p: "p = 1" "g = 0" using h(2) by (simp_all add: generic_header_def)
    then have "q = 2 \<and> n = ucast (mem 1)" using one_byte_number [OF h(4)] h(3) assms(2) by simp
    then show ?thesis using True p q h(9) d [of 1] conv
      by (simp add: NumberOfTypeArguments_def NumberOfArguments_def IndexOfReturnType_def is_generic_sig_def)
  next
    case False
    then have "1 \<le> p" "number_bytes (mem_slice mem 1 p) g" using h(2) by (simp_all add: generic_header_def)
    from one_byte_number [OF this(2) assms(2) this(1)] have p: "p = 2" "g = ucast (mem 1)" by simp_all
    then have "q = 3 \<and> n = ucast (mem 2)" using one_byte_number [OF h(4)] h(3) assms(3) False by simp
    then show ?thesis using False p q h(9) d [of 1] d [of 2] conv
      by (simp add: NumberOfTypeArguments_def NumberOfArguments_def IndexOfReturnType_def is_generic_sig_def)
  qed
qed

theorem quick_counts_agree_witness:
  "(ucast (NumberOfArguments (MethodSignature (mem_slice sample_signature 0 6))) :: u32) = 2"
proof -
  have "sample_signature 1 AND 0x80 = 0" "sample_signature 0 AND IMAGE_CEE_CS_CALLCONV_GENERIC = 0"
    by (simp_all add: sample_signature_def)
  with quick_counts_agree [OF sample_parse] show ?thesis by (simp add: Let_def)
qed

section \<open>Assembly references\<close>

datatype AssemblyReference =
  AssemblyReference (name: wstring) (version: Version) (locale_of: wstring) (public_key: PublicKey)

definition assembly_eq :: "AssemblyReference \<Rightarrow> AssemblyReference \<Rightarrow> bool" where
  "assembly_eq self other \<longleftrightarrow> name self = name other \<and> version self = version other \<and>
     locale_of self = locale_of other \<and> key_eq (public_key self) (public_key other)"

definition assembly_str :: "AssemblyReference \<Rightarrow> wstring" where
  "assembly_str self = name self @ WStr '', Version='' @ version_str (version self) @
     WStr '', Culture='' @ locale_of self @ WStr '', PublicKeyToken='' @ key_str (public_key self)"

definition GetNameFromAssemblyReferenceString :: "wstring \<Rightarrow> wstring" where
  "GetNameFromAssemblyReferenceString wstr =
     (let name = (case find_first (\<lambda>c. c = 0x2c) wstr of Some pos \<Rightarrow> substr wstr 0 pos | None \<Rightarrow> wstr)
      in (case find_last (\<lambda>c. c = 0x20) name of Some pos \<Rightarrow> substr name 0 pos | None \<Rightarrow> name))"

text \<open>
  The three searches of the RE2 package, over the string: the final values of \<^verbatim>\<open>major\<close>,
  \<^verbatim>\<open>minor\<close>, \<^verbatim>\<open>build\<close> and \<^verbatim>\<open>revision\<close> (zero before the call), and the captured text of the
  other two patterns.
\<close>

record re2 =
  match_version :: "wstring \<Rightarrow> Version"
  match_culture :: "wstring \<Rightarrow> wstring option"
  match_token :: "wstring \<Rightarrow> wstring option"

definition GetVersionFromAssemblyReferenceString :: "re2 \<Rightarrow> wstring \<Rightarrow> Version" where
  "GetVersionFromAssemblyReferenceString re str =
     (if str = [] then Version 0 0 0 0 else match_version re str)"

definition GetLocaleFromAssemblyReferenceString :: "re2 \<Rightarrow> wstring \<Rightarrow> wstring" where
  "GetLocaleFromAssemblyReferenceString re str =
     (if str = [] then WStr ''neutral''
      else case match_culture re str of Some match \<Rightarrow> match | None \<Rightarrow> WStr ''neutral'')"

text \<open>\<^verbatim>\<open>stringstream(s) >> std::hex >> x\<close> on two hexadecimal digits.\<close>

definition hex_digit :: "u16 \<Rightarrow> nat" where
  "hex_digit c =
     (if 0x30 \<le> c \<and> c \<le> 0x39 then unat (c - 0x30)
      else if 0x61 \<le> c \<and> c \<le> 0x66 then unat (c - 0x61) + 10
      else unat (c - 0x41) + 10)"

definition hex_pair :: "wstring \<Rightarrow> u8" where
  "hex_pair s = of_nat (hex_digit (s ! 0) * 16 + hex_digit (s ! 1))"

definition GetPublicKeyFromAssemblyReferenceString :: "re2 \<Rightarrow> wstring \<Rightarrow> PublicKey" where
  "GetPublicKeyFromAssemblyReferenceString re str =
     (if str = [] then zero_key
      else case match_token re str of
        Some match \<Rightarrow> PublicKey (map (\<lambda>i. hex_pair (substr match (i * 2) 2)) [0..<8])
      | None \<Rightarrow> zero_key)"

definition new_AssemblyReference :: "re2 \<Rightarrow> wstring \<Rightarrow> AssemblyReference" where
  "new_AssemblyReference re str =
     AssemblyReference (GetNameFromAssemblyReferenceString str) (GetVersionFromAssemblyReferenceString re str)
       (GetLocaleFromAssemblyReferenceString re str) (GetPublicKeyFromAssemblyReferenceString re str)"

section \<open>The documented behaviour of the three searches\<close>

text \<open>
  The patterns are \<^verbatim>\<open>Version=([0-9]+)\.([0-9]+)\.([0-9]+)\.([0-9]+)\<close>,
  \<^verbatim>\<open>Culture=([a-zA-Z0-9]+)\<close> and \<^verbatim>\<open>PublicKeyToken=([a-fA-F0-9]{16})\<close>; a search returns the
  leftmost match with the longest runs.
\<close>

primrec leftmost :: "(wstring \<Rightarrow> 'a option) \<Rightarrow> wstring \<Rightarrow> 'a option" where
  "leftmost m [] = m []"
| "leftmost m (c # s) = (case m (c # s) of Some r \<Rightarrow> Some r | None \<Rightarrow> leftmost m s)"

definition lit_at :: "wstring \<Rightarrow> wstring \<Rightarrow> wstring option" where
  "lit_at lit s = (if take (length lit) s = lit then Some (drop (length lit) s) else None)"

definition number_at :: "wstring \<Rightarrow> (nat \<times> wstring) option" where
  "number_at s = (let ds = takeWhile is_digit s in
     if ds = [] then None else Some (read_decimal ds, dropWhile is_digit s))"

definition version_at :: "wstring \<Rightarrow> (nat \<times> nat \<times> nat \<times> nat) option" where
  "version_at s =
     Option.bind (lit_at (WStr ''Version='') s) (\<lambda>s. Option.bind (number_at s) (\<lambda>(a, s).
     Option.bind (lit_at (WStr ''.'') s) (\<lambda>s. Option.bind (number_at s) (\<lambda>(b, s).
     Option.bind (lit_at (WStr ''.'') s) (\<lambda>s. Option.bind (number_at s) (\<lambda>(c, s).
     Option.bind (lit_at (WStr ''.'') s) (\<lambda>s. Option.bind (number_at s) (\<lambda>(d, s).
       Some (a, b, c, d)))))))))"

definition is_alnum :: "u16 \<Rightarrow> bool" where
  "is_alnum c \<longleftrightarrow> is_digit c \<or> 0x41 \<le> c \<and> c \<le> 0x5a \<or> 0x61 \<le> c \<and> c \<le> 0x7a"

definition culture_at :: "wstring \<Rightarrow> wstring option" where
  "culture_at s = Option.bind (lit_at (WStr ''Culture='') s) (\<lambda>s.
     let run = takeWhile is_alnum s in if run = [] then None else Some run)"

definition is_hex :: "u16 \<Rightarrow> bool" where
  "is_hex c \<longleftrightarrow> is_digit c \<or> 0x41 \<le> c \<and> c \<le> 0x46 \<or> 0x61 \<le> c \<and> c \<le> 0x66"

definition token_at :: "wstring \<Rightarrow> wstring option" where
  "token_at s = Option.bind (lit_at (WStr ''PublicKeyToken='') s) (\<lambda>s.
     if length (takeWhile is_hex s) \<ge> 16 then Some (take 16 s) else None)"

definition re2_documented :: "re2 \<Rightarrow> bool" where
  "re2_documented re \<longleftrightarrow>
     (\<forall>s a b c d. leftmost version_at s = Some (a, b, c, d) \<longrightarrow>
        a < 65536 \<longrightarrow> b < 65536 \<longrightarrow> c < 65536 \<longrightarrow> d < 65536 \<longrightarrow>
        match_version re s = Version (of_nat a) (of_nat b) (of_nat c) (of_nat d)) \<and>
     (\<forall>s. match_culture re s = leftmost culture_at s) \<and>
     (\<forall>s. match_token re s = leftmost token_at s)"

section \<open>Printing and parsing an assembly reference\<close>

lemma leftmost_skip:
  "(\<And>i. i < length u \<Longrightarrow> m (drop i u @ v) = None) \<Longrightarrow> leftmost m (u @ v) = leftmost m v"
proof (induction u)
  case (Cons c u)
  have "m (c # u @ v) = None" using Cons.prems [of 0] by simp
  moreover have "leftmost m (u @ v) = leftmost m v"
    by (rule Cons.IH) (use Cons.prems [of "Suc i" for i] in simp)
  ultimately show ?case by simp
qed simp

lemma leftmost_here: "m s = Some r \<Longrightarrow> leftmost m s = Some r"
  by (cases s) auto

lemma lit_at_append [simp]: "lit_at lit (lit @ s) = Some s"
  by (simp add: lit_at_def)

lemma lit_at_Some: "lit_at lit s = Some r \<Longrightarrow> s = lit @ r"
  by (metis append_take_drop_id lit_at_def option.distinct(1) option.inject)

text \<open>A literal that ends in its only \<^verbatim>\<open>=\<close> is found only where the string has its first one.\<close>

lemma lit_at_first:
  assumes "d \<notin> set p" and "d \<notin> set w" and "w \<noteq> p"
  shows "lit_at (p @ [d]) (w @ d # z) = None"
proof (rule ccontr)
  assume "lit_at (p @ [d]) (w @ d # z) \<noteq> None"
  then obtain r where "w @ d # z = p @ d # r" by (auto dest: lit_at_Some)
  with piece_eq [of w d z p r] assms show False by simp
qed

lemma WStr_append: "WStr (a @ b) = WStr a @ WStr b"
  by (simp add: WStr_def)

definition labels :: "wstring set" where
  "labels = {WStr ''Version'', WStr ''Culture'', WStr ''PublicKeyToken''}"

lemma labels_no_eq: "p \<in> labels \<Longrightarrow> 0x3d \<notin> set p"
  by (auto simp: labels_def of_char_Char)

text \<open>
  A label is not found before its place: not inside a text without an equals sign that ends in
  another label preceded by a blank, and not in a text in front of itself.
\<close>

lemma not_in_front:
  assumes "p \<in> labels" and "0x3d \<notin> set u" and "i < length u"
  shows "lit_at (p @ [0x3d]) (drop i u @ p @ 0x3d # z) = None"
proof -
  have "lit_at (p @ [0x3d]) ((drop i u @ p) @ 0x3d # z) = None"
    using assms labels_no_eq [OF assms(1)]
    by (intro lit_at_first) (auto dest: in_set_dropD)
  then show ?thesis by simp
qed

definition last2 :: "'a list \<Rightarrow> 'a list" where
  "last2 xs = drop (length xs - 2) xs"

lemma last2_append: "2 \<le> length q \<Longrightarrow> last2 (u @ q) = last2 q"
  by (simp add: last2_def)

lemma last2_labels: "p \<in> labels \<Longrightarrow> q \<in> labels \<Longrightarrow> last2 p = last2 q \<Longrightarrow> p = q"
  by (auto simp: labels_def last2_def of_char_Char)

lemma labels_length: "p \<in> labels \<Longrightarrow> 2 \<le> length p"
  by (auto simp: labels_def)

lemma other_label:
  assumes "p \<in> labels" and "q \<in> labels" and "p \<noteq> q"
  shows "drop i (u @ q) \<noteq> p"
proof
  assume e: "drop i (u @ q) = p"
  then have "u @ q = take i (u @ q) @ p" by (metis append_take_drop_id)
  then have "last2 q = last2 p"
    using last2_append [of q u] last2_append [of p "take i (u @ q)"] labels_length assms by metis
  then show False using last2_labels assms by metis
qed

lemma drop_field: "i \<le> length (u @ q) \<Longrightarrow> drop i (u @ q @ x) @ y = drop i (u @ q) @ x @ y"
  using drop_append [of i "u @ q" x] by simp

text \<open>The label \<open>p\<close> behind a field that ends in another label \<open>q\<close> and its value.\<close>

lemma not_in_field:
  assumes "p \<in> labels" and "q \<in> labels" and "p \<noteq> q" and "0x3d \<notin> set u" and "0x3d \<notin> set val"
    and "i < length (u @ q @ 0x3d # val)"
  shows "lit_at (p @ [0x3d]) (drop i (u @ q @ 0x3d # val) @ p @ 0x3d # z) = None"
proof (cases "i \<le> length (u @ q)")
  case True
  then have "drop i (u @ q @ 0x3d # val) @ p @ 0x3d # z = drop i (u @ q) @ 0x3d # (val @ p @ 0x3d # z)"
    by (simp add: drop_append)
  also have "lit_at (p @ [0x3d]) \<dots> = None"
    using assms labels_no_eq other_label [OF assms(1,2,3)]
    by (intro lit_at_first) (auto dest: in_set_dropD simp flip: drop_append)
  finally show ?thesis .
next
  case False
  then obtain j where j: "drop i (u @ q @ 0x3d # val) = drop j val" "j < length val"
    using assms(6) by (intro that [of "i - Suc (length (u @ q))"]) (auto simp: drop_Cons')
  then show ?thesis using not_in_front [OF assms(1,5)] by simp
qed

lemma literals:
  "WStr ''Version='' = WStr ''Version'' @ [0x3d]" "WStr ''Culture='' = WStr ''Culture'' @ [0x3d]"
  "WStr ''PublicKeyToken='' = WStr ''PublicKeyToken'' @ [0x3d]"
  "WStr '', Version='' = [0x2c, 0x20] @ WStr ''Version'' @ [0x3d]"
  "WStr '', Culture='' = [0x2c, 0x20] @ WStr ''Culture'' @ [0x3d]"
  "WStr '', PublicKeyToken='' = [0x2c, 0x20] @ WStr ''PublicKeyToken'' @ [0x3d]"
  by (simp_all add: of_char_Char)

definition alnum_string :: "wstring \<Rightarrow> bool" where
  "alnum_string s \<longleftrightarrow> s \<noteq> [] \<and> (\<forall>c\<in>set s. is_alnum c)"

definition wf_assembly :: "AssemblyReference \<Rightarrow> bool" where
  "wf_assembly a \<longleftrightarrow> set (name a) \<inter> {0x20, 0x2c, 0x3d} = {} \<and> alnum_string (locale_of a) \<and> wf_key (public_key a)"

lemma number_at_to_string:
  "r = [] \<or> \<not> is_digit (hd r) \<Longrightarrow> number_at (to_string n @ r) = Some (n, r)"
proof -
  assume r: "r = [] \<or> \<not> is_digit (hd r)"
  then have "takeWhile is_digit r = []" "dropWhile is_digit r = r" by (cases r; auto)+
  then show ?thesis
    using to_string_digits [of _ n]
    by (simp add: number_at_def takeWhile_append2 dropWhile_append2)
qed

lemma version_at_str:
  assumes "r = [] \<or> \<not> is_digit (hd r)"
  shows "version_at (WStr ''Version'' @ 0x3d # version_str v @ r) =
    Some (unat (major v), unat (minor v), unat (build v), unat (revision v))"
proof -
  have dot: "WStr ''.'' = [0x2e]" "\<not> is_digit 0x2e" by (simp_all add: of_char_Char is_digit_def)
  have "lit_at (WStr ''Version='') (WStr ''Version'' @ 0x3d # s) = Some s" for s
    unfolding literals using lit_at_append [of "WStr ''Version'' @ [0x3d]" s] by simp
  moreover have "lit_at [0x2e] (0x2e # s) = Some s" for s by (simp add: lit_at_def)
  ultimately show ?thesis
    unfolding version_at_def version_str_def dot
    by (simp add: number_at_to_string assms dot del: WStr_chars)
qed

lemma culture_at_alnum:
  assumes "alnum_string l" and "r = [] \<or> \<not> is_alnum (hd r)"
  shows "culture_at (WStr ''Culture'' @ 0x3d # l @ r) = Some l"
proof -
  have "takeWhile is_alnum r = []" using assms(2) by (cases r) auto
  then have "takeWhile is_alnum (l @ r) = l"
    using assms(1) by (simp add: takeWhile_append2 alnum_string_def)
  then show ?thesis
    unfolding culture_at_def literals
    using lit_at_append [of "WStr ''Culture'' @ [0x3d]" "l @ r"] assms(1)
    by (simp add: alnum_string_def del: WStr_chars)
qed

lemma hex2_is_hex: "c \<in> set (hex2 b) \<Longrightarrow> is_hex c"
proof -
  have "\<forall>n<16. is_hex (HexMap ! n)" by (simp add: all_bits HexMap_simps is_hex_def is_digit_def)
  then show "c \<in> set (hex2 b) \<Longrightarrow> is_hex c" using nibbles [of b] by (auto simp: hex2_def)
qed

lemma length_hex [simp]: "length (concat (map hex2 bs)) = 2 * length bs"
  by (induction bs) (auto simp: hex2_def)

lemma token_at_key:
  assumes "wf_key k"
  shows "token_at (WStr ''PublicKeyToken'' @ 0x3d # key_str k) = Some (key_str k)"
proof -
  have "\<forall>c\<in>set (key_str k). is_hex c" by (auto simp: key_str_bytes [OF assms] dest: hex2_is_hex)
  then have t: "takeWhile is_hex (key_str k) = key_str k" by (simp add: takeWhile_eq_all_conv)
  have l: "length (key_str k) = 16" using assms by (simp add: key_str_bytes wf_key_def)
  have "length (takeWhile is_hex (key_str k)) = 16" unfolding t by (rule l)
  with l show ?thesis
    unfolding token_at_def literals
    using lit_at_append [of "WStr ''PublicKeyToken'' @ [0x3d]" "key_str k"] by (simp del: WStr_chars)
qed

lemma hex_digit_HexMap: "n < 16 \<Longrightarrow> hex_digit (HexMap ! n) = n"
proof -
  have "\<forall>n<16. hex_digit (HexMap ! n) = n" by (simp add: all_bits HexMap_simps hex_digit_def)
  then show "n < 16 \<Longrightarrow> ?thesis" by blast
qed

lemma hex_pair_hex2 [simp]: "hex_pair (hex2 b) = b"
  using nibbles [of b] by (simp add: hex_pair_def hex2_def hex_digit_HexMap mult.commute)

lemma substr_hex: "i < length bs \<Longrightarrow> substr (concat (map hex2 bs)) (i * 2) 2 = hex2 (bs ! i)"
proof (induction bs arbitrary: i)
  case (Cons b bs)
  then show ?case by (cases i) (auto simp: substr_def hex2_def)
qed simp

lemma assembly_str_fields:
  "assembly_str a = (name a @ [0x2c, 0x20]) @ WStr ''Version'' @ 0x3d # (version_str (version a) @ [0x2c, 0x20]) @
     WStr ''Culture'' @ 0x3d # (locale_of a @ [0x2c, 0x20]) @ WStr ''PublicKeyToken'' @ 0x3d # key_str (public_key a)"
  unfolding assembly_str_def literals by (simp del: WStr_chars)

lemma in_labels: "WStr ''Version'' \<in> labels" "WStr ''Culture'' \<in> labels" "WStr ''PublicKeyToken'' \<in> labels"
  "WStr ''Version'' \<noteq> WStr ''Culture''" "WStr ''PublicKeyToken'' \<noteq> WStr ''Version''"
  "WStr ''PublicKeyToken'' \<noteq> WStr ''Culture''"
  by (simp_all add: labels_def del: WStr_chars) (simp_all add: of_char_Char)

lemma lit_None: "lit_at (p @ [0x3d]) s = None \<Longrightarrow> WStr l = p @ [0x3d] \<Longrightarrow> lit_at (WStr l) s = None"
  by simp

lemma version_not_digit: "0x3d \<notin> set (version_str v @ [0x2c, 0x20])"
  using version_str_chars [of "0x3d" v] by (auto simp: is_digit_def)

lemma alnum_no_eq: "alnum_string l \<Longrightarrow> 0x3d \<notin> set (l @ [0x2c, 0x20])"
  by (auto simp: alnum_string_def is_alnum_def is_digit_def)

lemma find_version:
  assumes "wf_assembly a"
  shows "leftmost version_at (assembly_str a) =
    Some (unat (major (version a)), unat (minor (version a)), unat (build (version a)), unat (revision (version a)))"
proof -
  let ?u = "name a @ [0x2c, 0x20]"
  have u: "0x3d \<notin> set ?u" using assms by (auto simp: wf_assembly_def)
  have "version_at (drop i ?u @ WStr ''Version'' @ 0x3d # z) = None" if "i < length ?u" for i z
    unfolding version_at_def literals not_in_front [OF in_labels(1) u that] by simp
  then have "leftmost version_at (assembly_str a) = leftmost version_at (WStr ''Version'' @ 0x3d #
      version_str (version a) @ [0x2c, 0x20] @ WStr ''Culture'' @ 0x3d # (locale_of a @ [0x2c, 0x20]) @
      WStr ''PublicKeyToken'' @ 0x3d # key_str (public_key a))"
    unfolding assembly_str_fields by (subst leftmost_skip) (simp_all del: WStr_chars)
  also have "\<dots> = Some (unat (major (version a)), unat (minor (version a)), unat (build (version a)),
      unat (revision (version a)))"
    by (intro leftmost_here version_at_str) (simp add: is_digit_def)
  finally show ?thesis .
qed

lemma find_culture:
  assumes "wf_assembly a"
  shows "leftmost culture_at (assembly_str a) = Some (locale_of a)"
proof -
  let ?u = "name a @ [0x2c, 0x20]" and ?val = "version_str (version a) @ [0x2c, 0x20]"
  let ?f = "?u @ WStr ''Version'' @ 0x3d # ?val"
  have u: "0x3d \<notin> set ?u" using assms by (auto simp: wf_assembly_def)
  have "culture_at (drop i ?f @ WStr ''Culture'' @ 0x3d # z) = None" if "i < length ?f" for i z
    unfolding culture_at_def literals not_in_field [OF in_labels(2,1) in_labels(4) [symmetric] u version_not_digit that]
    by simp
  then have "leftmost culture_at (?f @ WStr ''Culture'' @ 0x3d # z) = leftmost culture_at (WStr ''Culture'' @ 0x3d # z)" for z
    by (rule leftmost_skip)
  then have "leftmost culture_at (assembly_str a) = leftmost culture_at (WStr ''Culture'' @ 0x3d # locale_of a @
      [0x2c, 0x20] @ WStr ''PublicKeyToken'' @ 0x3d # key_str (public_key a))"
    unfolding assembly_str_fields by (simp del: WStr_chars)
  also have "\<dots> = Some (locale_of a)"
    using assms by (intro leftmost_here culture_at_alnum) (auto simp: wf_assembly_def is_alnum_def is_digit_def)
  finally show ?thesis .
qed

lemma find_token:
  assumes "wf_assembly a"
  shows "leftmost token_at (assembly_str a) = Some (key_str (public_key a))"
proof -
  let ?u = "name a @ [0x2c, 0x20]" and ?val = "version_str (version a) @ [0x2c, 0x20]"
  let ?f1 = "?u @ WStr ''Version'' @ 0x3d # ?val" and ?l = "locale_of a @ [0x2c, 0x20]"
  let ?f2 = "?val @ WStr ''Culture'' @ 0x3d # ?l"
  let ?P = "WStr ''PublicKeyToken''"
  have u: "0x3d \<notin> set ?u" and l: "0x3d \<notin> set ?l"
    using assms alnum_no_eq by (auto simp: wf_assembly_def)
  have none: "token_at s = None" if "lit_at (?P @ [0x3d]) s = None" for s
    unfolding token_at_def literals that by simp
  have two: "token_at (drop i ?f2 @ ?P @ 0x3d # z) = None" if "i < length ?f2" for i z
    by (rule none, rule not_in_field [OF in_labels(3,2,6) version_not_digit l that])
  have one: "token_at (drop i (?u @ WStr ''Version'' @ 0x3d # ?f2) @ ?P @ 0x3d # z) = None"
    if i: "i < length (?u @ WStr ''Version'' @ 0x3d # ?f2)" for i z
  proof (cases "i \<le> length (?u @ WStr ''Version'')")
    case True
    then have "drop i (?u @ WStr ''Version'' @ 0x3d # ?f2) @ ?P @ 0x3d # z =
        drop i (?u @ WStr ''Version'') @ 0x3d # (?f2 @ ?P @ 0x3d # z)"
      by (subst drop_field) (simp_all del: WStr_chars)
    moreover have "lit_at (?P @ [0x3d]) (drop i (?u @ WStr ''Version'') @ 0x3d # (?f2 @ ?P @ 0x3d # z)) = None"
      using u labels_no_eq in_labels(1,3) other_label [OF in_labels(3,1,5)]
      by (intro lit_at_first) (auto dest: in_set_dropD simp del: WStr_chars simp flip: drop_append append_assoc)
    ultimately show ?thesis using none by (simp del: WStr_chars)
  next
    case False
    then obtain j where "drop i (?u @ WStr ''Version'' @ 0x3d # ?f2) = drop j ?f2" "j < length ?f2"
      using i by (intro that [of "i - Suc (length (?u @ WStr ''Version''))"]) (auto simp: drop_Cons' simp del: WStr_chars)
    then show ?thesis using two by (simp del: WStr_chars)
  qed
  have "leftmost token_at (assembly_str a) =
      leftmost token_at ((?u @ WStr ''Version'' @ 0x3d # ?f2) @ ?P @ 0x3d # key_str (public_key a))"
    unfolding assembly_str_fields by (simp del: WStr_chars)
  also have "\<dots> = leftmost token_at (?P @ 0x3d # key_str (public_key a))"
    by (rule leftmost_skip) (rule one)
  also have "\<dots> = Some (key_str (public_key a))"
    using assms by (intro leftmost_here token_at_key) (simp add: wf_assembly_def)
  finally show ?thesis .
qed

text \<open>
  An assembly reference survives the trip through its string: whenever its name has no
  space, comma or equals sign, its culture is alphanumeric, and the regular expressions
  behave as documented, parsing what \<open>str\<close> prints gives the reference back.
\<close>

theorem assembly_roundtrip:
  assumes "re2_documented re" and "wf_assembly a"
  shows "new_AssemblyReference re (assembly_str a) = a"
proof -
  have ne: "assembly_str a \<noteq> []" by (simp add: assembly_str_def)
  have "find_first (\<lambda>c. c = 0x2c) (assembly_str a) = Some (length (name a))"
    using assms(2) by (auto simp: find_first_Some assembly_str_fields wf_assembly_def nth_append simp del: WStr_chars)
  then have n: "GetNameFromAssemblyReferenceString (assembly_str a) = name a"
  proof -
    have "find_last (\<lambda>c. c = 0x20) (name a) = None"
      using assms(2) by (auto simp: find_last_None wf_assembly_def)
    then show ?thesis
      using \<open>find_first (\<lambda>c. c = 0x2c) (assembly_str a) = Some (length (name a))\<close>
      by (simp add: GetNameFromAssemblyReferenceString_def substr_def assembly_str_fields Let_def del: WStr_chars)
  qed
  have "match_version re (assembly_str a) = version a"
  proof -
    have "unat x < 65536" for x :: u16 using unsigned_less [of x] by simp
    then show ?thesis using assms(1) find_version [OF assms(2)] by (cases "version a") (simp add: re2_documented_def)
  qed
  then have v: "GetVersionFromAssemblyReferenceString re (assembly_str a) = version a"
    using ne by (simp add: GetVersionFromAssemblyReferenceString_def)
  have l: "GetLocaleFromAssemblyReferenceString re (assembly_str a) = locale_of a"
    using ne assms find_culture by (simp add: GetLocaleFromAssemblyReferenceString_def re2_documented_def)
  have "map (\<lambda>i. hex_pair (substr (key_str (public_key a)) (i * 2) 2)) [0..<8] = key_data (public_key a)"
    using assms(2) by (intro nth_equalityI) (auto simp: wf_assembly_def key_str_bytes wf_key_def substr_hex)
  then have k: "GetPublicKeyFromAssemblyReferenceString re (assembly_str a) = public_key a"
    using ne assms find_token by (simp add: GetPublicKeyFromAssemblyReferenceString_def re2_documented_def)
  show ?thesis unfolding new_AssemblyReference_def n v l k by simp
qed

text \<open>The documented behaviour as searches that can be run.\<close>

definition leftmost_re2 :: re2 where
  "leftmost_re2 =
     \<lparr>match_version = (\<lambda>s. case leftmost version_at s of
        Some (a, b, c, d) \<Rightarrow> Version (of_nat a) (of_nat b) (of_nat c) (of_nat d) | None \<Rightarrow> Version 0 0 0 0),
      match_culture = leftmost culture_at, match_token = leftmost token_at\<rparr>"

lemma leftmost_re2_documented: "re2_documented leftmost_re2"
  by (simp add: re2_documented_def leftmost_re2_def)

definition sample_assembly :: AssemblyReference where
  "sample_assembly = AssemblyReference (WStr ''Some.Assembly'') (Version 1 0 20 3) (WStr ''neutral'')
     (PublicKey [0xde, 0xf8, 0x6d, 0x06, 0x1d, 0x0d, 0x2e, 0xeb])"

lemma wf_sample_assembly: "wf_assembly sample_assembly"
  by (simp add: wf_assembly_def sample_assembly_def alnum_string_def is_alnum_def is_digit_def
      wf_key_def of_char_Char)

theorem assembly_roundtrip_witness:
  "re2_documented leftmost_re2 \<and>
   new_AssemblyReference leftmost_re2 (assembly_str sample_assembly) = sample_assembly"
  using leftmost_re2_documented assembly_roundtrip [OF leftmost_re2_documented wf_sample_assembly] by simp

section \<open>The cache of assembly references\<close>

text \<open>
  A cache that computes an entry on the first request for its key. The interface is a
  finite map; what the client needs is that an insertion changes one key.
\<close>

locale memo_map =
  fixes lookup :: "'s \<Rightarrow> 'k \<Rightarrow> 'v option" and insert_at :: "'s \<Rightarrow> 'k \<Rightarrow> 'v \<Rightarrow> 's"
  assumes lookup_insert: "lookup (insert_at s k v) k' = (if k' = k then Some v else lookup s k')"
begin

definition get :: "('k \<Rightarrow> 'v) \<Rightarrow> 's \<Rightarrow> 'k \<Rightarrow> 'v \<times> 's" where
  "get compute s k = (case lookup s k of Some v \<Rightarrow> (v, s) | None \<Rightarrow> (compute k, insert_at s k (compute k)))"

definition consistent :: "('k \<Rightarrow> 'v) \<Rightarrow> 's \<Rightarrow> bool" where
  "consistent compute s \<longleftrightarrow> (\<forall>k v. lookup s k = Some v \<longrightarrow> v = compute k)"

lemma get_consistent: "consistent compute s \<Longrightarrow> consistent compute (snd (get compute s k))"
  by (auto simp: consistent_def get_def lookup_insert split: option.splits)

lemma get_value: "consistent compute s \<Longrightarrow> fst (get compute s k) = compute k"
  by (auto simp: consistent_def get_def split: option.splits)

lemma get_stays: "lookup s k = Some v \<Longrightarrow> lookup (snd (get compute s k')) k = Some v"
  by (auto simp: get_def lookup_insert split: option.splits)

lemma get_cached: "lookup (snd (get compute s k)) k \<noteq> None"
  by (auto simp: get_def lookup_insert split: option.splits)

end

text \<open>\<^verbatim>\<open>m_assemblyReferenceCache\<close>, and the critical section of \<^verbatim>\<open>GetFromCache\<close> as one step.\<close>

type_synonym assembly_cache = "wstring \<rightharpoonup> AssemblyReference"

definition cache_insert :: "assembly_cache \<Rightarrow> wstring \<Rightarrow> AssemblyReference \<Rightarrow> assembly_cache" where
  "cache_insert cache str aref = cache(str \<mapsto> aref)"

definition GetFromCache :: "re2 \<Rightarrow> assembly_cache \<Rightarrow> wstring \<Rightarrow> AssemblyReference \<times> assembly_cache" where
  "GetFromCache re cache str =
     (case cache str of
        Some aref \<Rightarrow> (aref, cache)
      | None \<Rightarrow> let aref = new_AssemblyReference re str in (aref, cache_insert cache str aref))"

interpretation cache: memo_map "\<lambda>c :: assembly_cache. c" cache_insert
  by unfold_locales (simp add: cache_insert_def)

lemma GetFromCache_get: "GetFromCache re c s = cache.get (new_AssemblyReference re) c s"
  by (simp only: GetFromCache_def cache.get_def Let_def)

text \<open>A run of requests, in the order in which they take the lock.\<close>

definition requests :: "re2 \<Rightarrow> wstring list \<Rightarrow> assembly_cache \<Rightarrow> assembly_cache" where
  "requests re ss c = fold (\<lambda>s c. snd (GetFromCache re c s)) ss c"

lemma requests_consistent:
  "cache.consistent (new_AssemblyReference re) c \<Longrightarrow> cache.consistent (new_AssemblyReference re) (requests re ss c)"
  by (induction ss arbitrary: c) (simp_all add: requests_def GetFromCache_get cache.get_consistent)

lemma requests_stay: "c s = Some v \<Longrightarrow> requests re ss c s = Some v"
  by (induction ss arbitrary: c) (auto simp: requests_def GetFromCache_get dest: cache.get_stays)

text \<open>
  The cache is transparent and stable: after any sequence of requests, in any order of the
  threads, a request returns exactly the parsed reference of its string, and an entry once
  made is never replaced by a later request.
\<close>

theorem GetFromCache_transparent:
  "fst (GetFromCache re (requests re ss Map.empty) s) = new_AssemblyReference re s \<and>
   requests re (ss @ s # ss') Map.empty s = Some (new_AssemblyReference re s)"
proof
  let ?c = "requests re ss Map.empty"
  have c: "cache.consistent (new_AssemblyReference re) ?c"
    by (rule requests_consistent) (simp add: cache.consistent_def)
  then show "fst (GetFromCache re ?c s) = new_AssemblyReference re s"
    by (simp add: GetFromCache_get cache.get_value)
  have "snd (GetFromCache re ?c s) s = Some (new_AssemblyReference re s)"
    using cache.get_cached [of "new_AssemblyReference re" ?c s] cache.get_consistent [OF c, of s]
    by (auto simp: GetFromCache_get cache.consistent_def)
  then show "requests re (ss @ s # ss') Map.empty s = Some (new_AssemblyReference re s)"
    using requests_stay by (simp add: requests_def)
qed

section \<open>Method references and their cache keys\<close>

record MethodReference =
  assembly :: AssemblyReference
  type_name_of :: wstring
  method_name :: wstring
  action :: wstring
  method_signature :: MethodSignature
  min_version :: Version
  max_version :: Version
  signature_types :: "wstring list"

definition no_MethodReference :: MethodReference where
  "no_MethodReference = \<lparr>assembly = AssemblyReference [] (Version 0 0 0 0) [] zero_key,
     type_name_of = [], method_name = [], action = [], method_signature = MethodSignature [],
     min_version = Version 0 0 0 0, max_version = Version 0xFFFF 0xFFFF 0xFFFF 0xFFFF, signature_types = []\<rparr>"

definition get_type_cache_key :: "MethodReference \<Rightarrow> wstring" where
  "get_type_cache_key self = WStr ''['' @ name (assembly self) @ WStr '']'' @ type_name_of self @
     WStr ''_vMin_'' @ version_str (min_version self) @ WStr ''_vMax_'' @ version_str (max_version self)"

definition get_method_cache_key :: "MethodReference \<Rightarrow> wstring" where
  "get_method_cache_key self = WStr ''['' @ name (assembly self) @ WStr '']'' @ type_name_of self @
     WStr ''.'' @ method_name self @
     WStr ''_vMin_'' @ version_str (min_version self) @ WStr ''_vMax_'' @ version_str (max_version self)"

definition method_ref_eq :: "MethodReference \<Rightarrow> MethodReference \<Rightarrow> bool" where
  "method_ref_eq self other \<longleftrightarrow>
     assembly_eq (assembly self) (assembly other) \<and> type_name_of self = type_name_of other \<and>
     min_version self = min_version other \<and> max_version self = max_version other \<and>
     method_name self = method_name other \<and> method_signature self = method_signature other"

record MethodReplacement =
  caller_method :: MethodReference
  target_method :: MethodReference
  wrapper_method :: MethodReference

definition replacement_eq :: "MethodReplacement \<Rightarrow> MethodReplacement \<Rightarrow> bool" where
  "replacement_eq self other \<longleftrightarrow> method_ref_eq (caller_method self) (caller_method other) \<and>
     method_ref_eq (target_method self) (target_method other) \<and>
     method_ref_eq (wrapper_method self) (wrapper_method other)"

record IntegrationMethod =
  integration_name :: wstring
  replacement :: MethodReplacement

definition integration_eq :: "IntegrationMethod \<Rightarrow> IntegrationMethod \<Rightarrow> bool" where
  "integration_eq self other \<longleftrightarrow> integration_name self = integration_name other \<and>
     replacement_eq (replacement self) (replacement other)"

lemma version_no_underscore: "0x5f \<notin> set (version_str v)"
  using version_str_chars [of "0x5f" v] by (auto simp: is_digit_def)

text \<open>The last label of a key is found from its end.\<close>

lemma last_label_eq:
  assumes "x @ 0x5f # l @ 0x5f # version_str v = y @ 0x5f # l @ 0x5f # version_str w" and "0x5f \<notin> set l"
  shows "x = y \<and> v = w"
proof -
  have "rev (version_str v) @ 0x5f # rev (x @ 0x5f # l) = rev (version_str w) @ 0x5f # rev (y @ 0x5f # l)"
    using arg_cong [OF assms(1), of rev] by simp
  then have "rev (version_str v) = rev (version_str w) \<and> rev (x @ 0x5f # l) = rev (y @ 0x5f # l)"
    by (rule piece_eq) (simp_all add: version_no_underscore)
  then show ?thesis by (auto simp: version_str_inject)
qed

lemma version_suffix_eq:
  assumes "x @ WStr ''_vMin_'' @ version_str a @ WStr ''_vMax_'' @ version_str b =
    y @ WStr ''_vMin_'' @ version_str c @ WStr ''_vMax_'' @ version_str d"
  shows "x = y \<and> a = c \<and> b = d"
proof -
  have l: "WStr ''_vMin_'' = 0x5f # WStr ''vMin'' @ [0x5f]" "WStr ''_vMax_'' = 0x5f # WStr ''vMax'' @ [0x5f]"
    "0x5f \<notin> set (WStr ''vMin'')" "0x5f \<notin> set (WStr ''vMax'')"
    by (simp_all add: of_char_Char)
  have "(x @ 0x5f # WStr ''vMin'' @ 0x5f # version_str a) @ 0x5f # WStr ''vMax'' @ 0x5f # version_str b =
    (y @ 0x5f # WStr ''vMin'' @ 0x5f # version_str c) @ 0x5f # WStr ''vMax'' @ 0x5f # version_str d"
    using assms unfolding l by (simp del: WStr_chars)
  from last_label_eq [OF this l(4)]
  have "x @ 0x5f # WStr ''vMin'' @ 0x5f # version_str a = y @ 0x5f # WStr ''vMin'' @ 0x5f # version_str c" "b = d"
    by simp_all
  from last_label_eq [OF this(1) l(3)] this(2) show ?thesis by simp
qed

lemma key_assembly_eq:
  assumes "WStr ''['' @ n @ WStr '']'' @ r = WStr ''['' @ n' @ WStr '']'' @ r'" and "0x5d \<notin> set n" "0x5d \<notin> set n'"
  shows "n = n' \<and> r = r'"
proof -
  have "n @ 0x5d # r = n' @ 0x5d # r'" using assms(1) by (simp add: of_char_Char)
  then show ?thesis using assms(2,3) by (rule piece_eq)
qed

text \<open>
  Two references whose assembly names have no closing bracket share a type cache key only
  if they name the same assembly, type and version range, whatever the type name contains.
\<close>

theorem type_cache_key_inject:
  assumes "get_type_cache_key a = get_type_cache_key b"
    and "0x5d \<notin> set (name (assembly a))" and "0x5d \<notin> set (name (assembly b))"
  shows "name (assembly a) = name (assembly b) \<and> type_name_of a = type_name_of b \<and>
    min_version a = min_version b \<and> max_version a = max_version b"
  using key_assembly_eq [OF assms(1) [unfolded get_type_cache_key_def] assms(2,3)] version_suffix_eq by blast

text \<open>
  The method cache key separates type and method with a dot, so it determines the method
  only when the method names have no dot: type T with method A.B and type T.A with method B
  have the same key.
\<close>

theorem method_cache_key_ambiguous:
  "get_method_cache_key (m \<lparr>type_name_of := t, method_name := a @ WStr ''.'' @ b\<rparr>) =
   get_method_cache_key (m \<lparr>type_name_of := t @ WStr ''.'' @ a, method_name := b\<rparr>)"
  by (simp add: get_method_cache_key_def del: WStr_chars)

text \<open>
  Without dots in the method names, and without closing brackets in the assembly names, the
  method cache key determines assembly, type, method and version range.
\<close>

theorem method_cache_key_inject:
  assumes "get_method_cache_key a = get_method_cache_key b"
    and "0x5d \<notin> set (name (assembly a))" and "0x5d \<notin> set (name (assembly b))"
    and "0x2e \<notin> set (method_name a)" and "0x2e \<notin> set (method_name b)"
  shows "name (assembly a) = name (assembly b) \<and> type_name_of a = type_name_of b \<and>
    method_name a = method_name b \<and> min_version a = min_version b \<and> max_version a = max_version b"
proof -
  have e: "name (assembly a) = name (assembly b)"
    "(type_name_of a @ WStr ''.'' @ method_name a) @ WStr ''_vMin_'' @ version_str (min_version a) @
       WStr ''_vMax_'' @ version_str (max_version a) =
     (type_name_of b @ WStr ''.'' @ method_name b) @ WStr ''_vMin_'' @ version_str (min_version b) @
       WStr ''_vMax_'' @ version_str (max_version b)"
    using key_assembly_eq [OF assms(1) [unfolded get_method_cache_key_def] assms(2,3)]
    by (simp_all del: WStr_chars)
  from version_suffix_eq [OF e(2)]
  have s: "type_name_of a @ WStr ''.'' @ method_name a = type_name_of b @ WStr ''.'' @ method_name b"
    and v: "min_version a = min_version b" "max_version a = max_version b" by simp_all
  have "rev (method_name a) @ 0x2e # rev (type_name_of a) = rev (method_name b) @ 0x2e # rev (type_name_of b)"
    using arg_cong [OF s, of rev] by (simp add: of_char_Char)
  then have "rev (method_name a) = rev (method_name b) \<and> rev (type_name_of a) = rev (type_name_of b)"
    using assms(4,5) by (intro piece_eq) auto
  with e(1) v show ?thesis by simp
qed

definition sample_reference :: MethodReference where
  "sample_reference = no_MethodReference \<lparr>assembly := sample_assembly, type_name_of := WStr ''Some.Type'',
     method_name := WStr ''Run'', min_version := Version 1 0 0 0\<rparr>"

theorem type_cache_key_inject_witness:
  "name (assembly sample_reference) = name (assembly (sample_reference \<lparr>action := []\<rparr>)) \<and>
   type_name_of sample_reference = type_name_of (sample_reference \<lparr>action := []\<rparr>)"
proof -
  have "get_type_cache_key sample_reference = get_type_cache_key (sample_reference \<lparr>action := []\<rparr>)"
    by (simp add: get_type_cache_key_def)
  from type_cache_key_inject [OF this] show ?thesis
    by (simp add: sample_reference_def sample_assembly_def of_char_Char)
qed

theorem method_cache_key_inject_witness:
  "method_name sample_reference = method_name (sample_reference \<lparr>action := []\<rparr>)"
proof -
  have "get_method_cache_key sample_reference = get_method_cache_key (sample_reference \<lparr>action := []\<rparr>)"
    by (simp add: get_method_cache_key_def)
  from method_cache_key_inject [OF this] show ?thesis
    by (simp add: sample_reference_def sample_assembly_def of_char_Char)
qed

end
