(* ===== verification/IntegrationLoader.thy ===== *)
theory IntegrationLoader
  imports Integration
begin

text \<open>
  Loading the integrations (\<^verbatim>\<open>integration_loader.cpp\<close>) and selecting those that apply to a
  module (the filters of \<^verbatim>\<open>clr_helpers.cpp\<close>). The JSON package is a parameter: a record of the
  accessors the loader calls, each of which returns a value or throws. A loader step maps a
  state (the vector of integrations and the cache of assembly references) to a result or an
  exception and the state it leaves, so what was loaded before an exception stays loaded.
\<close>

section \<open>The JSON accessors\<close>

record ('j, 'e) json_lib =
  is_object :: "'j \<Rightarrow> bool"
  is_array :: "'j \<Rightarrow> bool"
  is_string :: "'j \<Rightarrow> bool"
  is_number_unsigned :: "'j \<Rightarrow> bool"
  items :: "'j \<Rightarrow> 'j list"
  value_string :: "'j \<Rightarrow> string \<Rightarrow> string \<Rightarrow> 'e + wstring"
  value_json :: "'j \<Rightarrow> string \<Rightarrow> 'j \<Rightarrow> 'e + 'j"
  member :: "'j \<Rightarrow> string \<Rightarrow> 'j option"
  get_ushort :: "'j \<Rightarrow> 'e + u16"
  get_byte :: "'j \<Rightarrow> 'e + u8"
  get_strings :: "'j \<Rightarrow> 'e + wstring list"
  get_chars :: "'j \<Rightarrow> 'e + bytes"
  empty_object :: 'j
  empty_array :: 'j

section \<open>Steps that may throw\<close>

record loader_state =
  integrationMethods :: "IntegrationMethod list"
  referenceCache :: assembly_cache

type_synonym ('e, 'a) step = "loader_state \<Rightarrow> ('e + 'a) \<times> loader_state"

definition return :: "'a \<Rightarrow> ('e, 'a) step" where
  "return x s = (Inr x, s)"

definition bind :: "('e, 'a) step \<Rightarrow> ('a \<Rightarrow> ('e, 'b) step) \<Rightarrow> ('e, 'b) step" where
  "bind m f s = (case m s of (Inl e, s') \<Rightarrow> (Inl e, s') | (Inr x, s') \<Rightarrow> f x s')"

definition try_get :: "'e + 'a \<Rightarrow> ('e, 'a) step" where
  "try_get r s = (r, s)"

primrec for_each :: "('a \<Rightarrow> ('e, unit) step) \<Rightarrow> 'a list \<Rightarrow> ('e, unit) step" where
  "for_each f [] = return ()"
| "for_each f (x # xs) = bind (f x) (\<lambda>_. for_each f xs)"

definition push_back :: "IntegrationMethod \<Rightarrow> ('e, unit) step" where
  "push_back m s = (Inr (), s \<lparr>integrationMethods := integrationMethods s @ [m]\<rparr>)"

text \<open>The constructor of \<^verbatim>\<open>MethodReference\<close> takes its assembly from the cache.\<close>

definition new_MethodReference ::
  "re2 \<Rightarrow> wstring \<Rightarrow> wstring \<Rightarrow> wstring \<Rightarrow> wstring \<Rightarrow> Version \<Rightarrow> Version \<Rightarrow> bytes \<Rightarrow> wstring list \<Rightarrow>
   ('e, MethodReference) step" where
  "new_MethodReference re assembly_name type meth act minv maxv sig types s =
     (let (aref, cache) = GetFromCache re (referenceCache s) assembly_name in
      (Inr \<lparr>assembly = aref, type_name_of = type, method_name = meth, action = act,
            method_signature = MethodSignature sig, min_version = minv, max_version = maxv,
            signature_types = types\<rparr>,
       s \<lparr>referenceCache := cache\<rparr>))"

section \<open>Hexadecimal signatures\<close>

definition char_hex :: "u8 \<Rightarrow> u8 option" where
  "char_hex c =
     (if 0x30 \<le> c \<and> c \<le> 0x39 then Some (c - 0x30)
      else if 0x61 \<le> c \<and> c \<le> 0x66 then Some (c - 0x61 + 10)
      else if 0x41 \<le> c \<and> c \<le> 0x46 then Some (c - 0x41 + 10)
      else None)"

text \<open>The loop over the characters, with its variables \<open>flip\<close>, \<open>prev\<close> and \<open>signature\<close>.\<close>

primrec hex_loop :: "bytes \<Rightarrow> bool \<Rightarrow> u8 \<Rightarrow> bytes \<Rightarrow> bytes" where
  "hex_loop [] flip prev signature = signature"
| "hex_loop (c # str) flip prev signature =
     (case char_hex c of
        None \<Rightarrow> hex_loop str flip prev signature
      | Some b \<Rightarrow> hex_loop str (\<not> flip) b (if flip then signature @ [push_bit 4 prev + b] else signature))"

section \<open>References\<close>

text \<open>The bytes of a signature given as an array: the elements that are unsigned numbers.\<close>

primrec signature_bytes :: "('j, 'e) json_lib \<Rightarrow> 'j list \<Rightarrow> 'e + bytes" where
  "signature_bytes js [] = Inr []"
| "signature_bytes js (el # els) =
     (if is_number_unsigned js el
      then (case get_byte js el of
              Inl e \<Rightarrow> Inl e
            | Inr b \<Rightarrow> (case signature_bytes js els of Inl e \<Rightarrow> Inl e | Inr bs \<Rightarrow> Inr (b # bs)))
      else signature_bytes js els)"

definition read_signature :: "('j, 'e) json_lib \<Rightarrow> 'j \<Rightarrow> 'e + bytes" where
  "read_signature js raw_signature =
     (if is_array js raw_signature then signature_bytes js (items js raw_signature)
      else if is_string js raw_signature
      then (case get_chars js raw_signature of Inl e \<Rightarrow> Inl e | Inr str \<Rightarrow> Inr (hex_loop str False 0 []))
      else Inr [])"

text \<open>The loop that fills the vector of types from its last index down, on \<^verbatim>\<open>size_t\<close> indices.\<close>

function type_loop :: "wstring list \<Rightarrow> u64 \<Rightarrow> wstring list \<Rightarrow> wstring list" where
  "type_loop sig_types i arr =
     (if i < of_nat (length sig_types)
      then type_loop sig_types (i - 1) (arr[unat i := sig_types ! unat i])
      else arr)"
  by pat_completeness auto
termination
proof (relation "measure (\<lambda>(ts, i, _). if (i :: u64) < of_nat (length ts) then Suc (unat i) else 0)", goal_cases)
  case (2 ts i arr)
  show ?case
  proof (cases "i = 0")
    case True
    have "\<not> (- 1 :: u64) < of_nat (length ts)" by (simp add: not_less)
    with True 2 show ?thesis by simp
  next
    case False
    then have "unat i \<noteq> 0" by (simp add: unat_eq_zero)
    with False 2 show ?thesis by (auto simp: unat_minus_one)
  qed
qed simp

declare type_loop.simps [simp del]

definition read_types :: "wstring list \<Rightarrow> wstring list" where
  "read_types sig_types =
     type_loop sig_types (of_nat (length sig_types) - 1) (replicate (length sig_types) [])"

definition ushort_field :: "('j, 'e) json_lib \<Rightarrow> 'j \<Rightarrow> string \<Rightarrow> u16 \<Rightarrow> 'e + u16" where
  "ushort_field js src key dflt = (case member js src key of None \<Rightarrow> Inr dflt | Some j \<Rightarrow> get_ushort js j)"

definition MethodReferenceFromJson ::
  "('j, 'e) json_lib \<Rightarrow> re2 \<Rightarrow> 'j \<Rightarrow> bool \<Rightarrow> bool \<Rightarrow> ('e, MethodReference) step" where
  "MethodReferenceFromJson js re src is_target_method is_wrapper_method =
     (if \<not> is_object js src then return no_MethodReference
      else
        bind (try_get (value_string js src ''assembly'' '''')) (\<lambda>assembly.
        bind (try_get (value_string js src ''type'' '''')) (\<lambda>type.
        bind (try_get (value_string js src ''method'' '''')) (\<lambda>meth.
        bind (try_get (value_json js src ''signature'' (empty_array js))) (\<lambda>raw_signature.
        bind (if is_target_method
              then
                bind (try_get (ushort_field js src ''minimum_major'' 0)) (\<lambda>min_major.
                bind (try_get (ushort_field js src ''minimum_minor'' 0)) (\<lambda>min_minor.
                bind (try_get (ushort_field js src ''minimum_patch'' 0)) (\<lambda>min_patch.
                bind (try_get (ushort_field js src ''maximum_major'' 0xFFFF)) (\<lambda>max_major.
                bind (try_get (ushort_field js src ''maximum_minor'' 0xFFFF)) (\<lambda>max_minor.
                bind (try_get (ushort_field js src ''maximum_patch'' 0xFFFF)) (\<lambda>max_patch.
                bind (case member js src ''signature_types'' of
                        None \<Rightarrow> return []
                      | Some j \<Rightarrow> bind (try_get (get_strings js j)) (\<lambda>sig_types. return (read_types sig_types)))
                  (\<lambda>signature_type_array.
                return (Version min_major min_minor min_patch 0,
                        Version max_major max_minor max_patch 0xFFFF, signature_type_array, [])))))))) 
              else if is_wrapper_method
              then bind (try_get (value_string js src ''action'' '''')) (\<lambda>action.
                return (Version 0 0 0 0, Version 0xFFFF 0xFFFF 0xFFFF 0xFFFF, [], action))
              else return (Version 0 0 0 0, Version 0xFFFF 0xFFFF 0xFFFF 0xFFFF, [], []))
          (\<lambda>(minv, maxv, signature_type_array, action).
        bind (try_get (read_signature js raw_signature)) (\<lambda>signature.
        new_MethodReference re assembly type meth action minv maxv signature signature_type_array)))))))"

section \<open>Replacements, integrations, streams and files\<close>

definition MethodReplacementFromJson ::
  "('j, 'e) json_lib \<Rightarrow> re2 \<Rightarrow> 'j \<Rightarrow> wstring \<Rightarrow> bool \<Rightarrow> bool \<Rightarrow> ('e, unit) step" where
  "MethodReplacementFromJson js re src integrationName isCallTargetEnabled isNetstandardEnabled =
     (if \<not> is_object js src then return ()
      else
        bind (try_get (value_json js src ''wrapper'' (empty_object js))) (\<lambda>w.
        bind (try_get (value_string js w ''action'' '''')) (\<lambda>wrapperAction.
        if isCallTargetEnabled \<and> wrapperAction \<noteq> WStr ''CallTargetModification'' then return ()
        else if isCallTargetEnabled then
          bind (try_get (value_json js src ''wrapper'' (empty_object js))) (\<lambda>w.
          bind (MethodReferenceFromJson js re w False True) (\<lambda>wrapper.
          bind (try_get (value_json js src ''target'' (empty_object js))) (\<lambda>t.
          bind (MethodReferenceFromJson js re t True False) (\<lambda>target.
          push_back \<lparr>integration_name = integrationName, replacement =
            \<lparr>caller_method = no_MethodReference, target_method = target, wrapper_method = wrapper\<rparr>\<rparr>))))
        else
          bind (try_get (value_json js src ''target'' (empty_object js))) (\<lambda>t.
          bind (MethodReferenceFromJson js re t True False) (\<lambda>target.
          if \<not> isNetstandardEnabled \<and> name (assembly target) = WStr ''netstandard'' then return ()
          else
            bind (try_get (value_json js src ''wrapper'' (empty_object js))) (\<lambda>w.
            bind (MethodReferenceFromJson js re w False True) (\<lambda>wrapper.
            bind (try_get (value_json js src ''caller'' (empty_object js))) (\<lambda>c.
            bind (MethodReferenceFromJson js re c False False) (\<lambda>caller.
            push_back \<lparr>integration_name = integrationName, replacement =
              \<lparr>caller_method = caller, target_method = target, wrapper_method = wrapper\<rparr>\<rparr>)))))))))"

definition IntegrationFromJson ::
  "('j, 'e) json_lib \<Rightarrow> re2 \<Rightarrow> 'j \<Rightarrow> bool \<Rightarrow> bool \<Rightarrow> wstring list \<Rightarrow> ('e, unit) step" where
  "IntegrationFromJson js re src isCallTargetEnabled isNetstandardEnabled disabledIntegrationNames =
     (if \<not> is_object js src then return ()
      else
        bind (try_get (value_string js src ''name'' '''')) (\<lambda>name.
        if name = [] then return ()
        else if \<exists>disabledName \<in> set disabledIntegrationNames. name = disabledName then return ()
        else
          bind (try_get (value_json js src ''method_replacements'' (empty_array js))) (\<lambda>arr.
          if is_array js arr
          then for_each (\<lambda>el. MethodReplacementFromJson js re el name isCallTargetEnabled isNetstandardEnabled)
                 (items js arr)
          else return ())))"

text \<open>Every exception is logged and swallowed; \<open>parse\<close> is \<^verbatim>\<open>stream >> j\<close>.\<close>

definition LoadIntegrationsFromStream ::
  "('j, 'e) json_lib \<Rightarrow> re2 \<Rightarrow> 'e + 'j \<Rightarrow> bool \<Rightarrow> bool \<Rightarrow> wstring list \<Rightarrow> loader_state \<Rightarrow> loader_state" where
  "LoadIntegrationsFromStream js re parse isCallTargetEnabled isNetstandardEnabled disabledIntegrationNames s =
     snd (bind (try_get parse) (\<lambda>j.
       for_each (\<lambda>el. IntegrationFromJson js re el isCallTargetEnabled isNetstandardEnabled
         disabledIntegrationNames) (items js j)) s)"

text \<open>\<open>open_file\<close> is the content of the file, or \<open>None\<close> where the stream is not usable.\<close>

definition LoadIntegrationsFromFile ::
  "('j, 'e) json_lib \<Rightarrow> re2 \<Rightarrow> (wstring \<Rightarrow> ('e + 'j) option) \<Rightarrow> wstring \<Rightarrow> bool \<Rightarrow> bool \<Rightarrow> wstring list \<Rightarrow>
   loader_state \<Rightarrow> loader_state" where
  "LoadIntegrationsFromFile js re open_file file_path isCallTargetEnabled isNetstandardEnabled
       disabledIntegrationNames s =
     (case open_file file_path of
        Some parse \<Rightarrow> LoadIntegrationsFromStream js re parse isCallTargetEnabled isNetstandardEnabled
          disabledIntegrationNames s
      | None \<Rightarrow> s)"

definition integrations_path :: wstring where
  "integrations_path = WStr ''DD_INTEGRATIONS''"

definition LoadIntegrationsFromEnvironment ::
  "('j, 'e) json_lib \<Rightarrow> re2 \<Rightarrow> (wstring \<Rightarrow> wstring option) \<Rightarrow> (wstring \<Rightarrow> ('e + 'j) option) \<Rightarrow> bool \<Rightarrow> bool \<Rightarrow>
   wstring list \<Rightarrow> loader_state \<Rightarrow> loader_state" where
  "LoadIntegrationsFromEnvironment js re getenv open_file isCallTargetEnabled isNetstandardEnabled
       disabledIntegrationNames s =
     fold (\<lambda>filePath. LoadIntegrationsFromFile js re open_file filePath isCallTargetEnabled
         isNetstandardEnabled disabledIntegrationNames)
       (GetEnvironmentValues getenv integrations_path 0x3b) s"

section \<open>Hexadecimal signatures are read back\<close>

lemma char_hex_HexMap: "n < 16 \<Longrightarrow> char_hex (ucast (HexMap ! n)) = Some (of_nat n)"
proof -
  have "\<forall>n<16. char_hex (ucast (HexMap ! n)) = Some (of_nat n)"
    by (simp add: all_bits HexMap_simps char_hex_def)
  then show "n < 16 \<Longrightarrow> ?thesis" by blast
qed

lemma byte_from_nibbles:
  assumes "16 * i + j = unat (b :: u8)"
  shows "push_bit 4 (of_nat i) + of_nat j = b"
proof -
  have "push_bit 4 (of_nat i) + of_nat j = (of_nat (16 * i + j) :: u8)"
    by (simp add: push_bit_eq_mult)
  then show ?thesis unfolding assms by simp
qed

lemma hex_loop_hex2:
  "\<exists>p'. hex_loop (map ucast (hex2 b) @ str) False p sig = hex_loop str False p' (sig @ [b])"
proof -
  obtain i j where ij: "hex2 b = [HexMap ! i, HexMap ! j]" "i < 16" "j < 16" "16 * i + j = unat b"
    using nibbles [of b] unfolding hex2_def by blast
  then show ?thesis
    by (intro exI [of _ "of_nat j"]) (simp add: char_hex_HexMap byte_from_nibbles del: of_nat_add of_nat_mult)
qed

lemma hex_loop_bytes: "hex_loop (map ucast (concat (map hex2 bs))) False p sig = sig @ bs"
proof (induction bs arbitrary: p sig)
  case (Cons b bs)
  obtain p' where "hex_loop (map ucast (hex2 b) @ map ucast (concat (map hex2 bs))) False p sig =
      hex_loop (map ucast (concat (map hex2 bs))) False p' (sig @ [b])" using hex_loop_hex2 by blast
  with Cons.IH show ?case by simp
qed simp

text \<open>
  A signature printed by \<^verbatim>\<open>MethodSignature::str\<close> is read back by the loader's hexadecimal
  parser, byte for byte.
\<close>

theorem hex_signature_roundtrip:
  "hex_loop (map ucast (signature_str (MethodSignature bs))) False 0 [] = bs"
  by (simp add: signature_str_def hex_loop_bytes)

lemma type_loop_fills:
  assumes "length ts < 2 ^ 64" and "length arr = length ts" and "k \<le> length ts"
    and "drop k arr = drop k ts"
  shows "type_loop ts (of_nat k - 1) arr = ts"
  using assms
proof (induction k arbitrary: arr)
  case 0
  have "\<not> (- 1 :: u64) < of_nat (length ts)" by (simp add: not_less)
  with 0 show ?case by (subst type_loop.simps) simp
next
  case (Suc k)
  have u: "unat (of_nat k :: u64) = k" using Suc.prems by (simp add: unat_of_nat)
  then have l: "(of_nat k :: u64) < of_nat (length ts)"
    using Suc.prems by (simp add: word_less_nat_alt unat_of_nat)
  have d: "drop k (arr[k := ts ! k]) = drop k ts"
    using Suc.prems by (metis Cons_nth_drop_Suc Suc_le_lessD drop_update_cancel lessI length_list_update nth_list_update_eq)
  have "type_loop ts (of_nat k) arr = type_loop ts (of_nat k - 1) (arr[k := ts ! k])"
    using l u by (subst type_loop.simps) simp
  also have "\<dots> = ts" using Suc.prems d by (intro Suc.IH) auto
  finally show ?case by simp
qed

text \<open>
  The loop over the type names, whose index wraps around below zero, ends with every name
  in its place, for the empty list too.
\<close>

theorem read_types_all: "length ts < 2 ^ 64 \<Longrightarrow> read_types ts = ts"
  unfolding read_types_def by (rule type_loop_fills) auto

theorem read_types_all_witness: "read_types [WStr ''System.Int32'', []] = [WStr ''System.Int32'', []]"
  by (rule read_types_all) simp

section \<open>What a loader step may change\<close>

text \<open>
  A relation between the states before and after a step that every sequence of related steps
  keeps: the combinators keep it when their parts do.
\<close>

locale step_relation =
  fixes R :: "loader_state \<Rightarrow> loader_state \<Rightarrow> bool"
  assumes R_refl: "R s s" and R_trans: "R s t \<Longrightarrow> R t u \<Longrightarrow> R s u"
begin

definition keeps :: "('e, 'a) step \<Rightarrow> bool" where
  "keeps f \<longleftrightarrow> (\<forall>s. R s (snd (f s)))"

lemma keeps_return [simp]: "keeps (return x)"
  by (simp add: keeps_def return_def R_refl)

lemma keeps_try [simp]: "keeps (try_get r)"
  by (simp add: keeps_def try_get_def R_refl)

lemma keeps_bind:
  assumes "keeps m" and "\<And>x s s'. m s = (Inr x, s') \<Longrightarrow> keeps (f x)"
  shows "keeps (bind m f)"
  unfolding keeps_def
proof
  fix s
  obtain r s' where m: "m s = (r, s')" by (cases "m s")
  have R: "R s s'" using assms(1) m by (metis keeps_def snd_conv)
  show "R s (snd (bind m f s))"
  proof (cases r)
    case (Inr x)
    then have "R s' (snd (f x s'))" using assms(2) m unfolding keeps_def by blast
    with R m Inr show ?thesis by (auto simp: bind_def intro: R_trans)
  qed (use R m in \<open>simp add: bind_def\<close>)
qed

lemma keeps_bind_try: "(\<And>x. r = Inr x \<Longrightarrow> keeps (f x)) \<Longrightarrow> keeps (bind (try_get r) f)"
  by (rule keeps_bind) (auto simp: try_get_def)

lemma keeps_for_each: "(\<And>x. x \<in> set xs \<Longrightarrow> keeps (f x)) \<Longrightarrow> keeps (for_each f xs)"
  by (induction xs) (auto intro!: keeps_bind)

lemma keeps_if: "(c \<Longrightarrow> keeps f) \<Longrightarrow> (\<not> c \<Longrightarrow> keeps g) \<Longrightarrow> keeps (if c then f else g)"
  by simp

end

text \<open>New integrations are appended and satisfy \<open>P\<close>; the cache stays the one of the parser.\<close>

definition extends :: "(IntegrationMethod \<Rightarrow> bool) \<Rightarrow> re2 \<Rightarrow> loader_state \<Rightarrow> loader_state \<Rightarrow> bool" where
  "extends P re s s' \<longleftrightarrow>
     (\<exists>new. integrationMethods s' = integrationMethods s @ new \<and> (\<forall>m\<in>set new. P m)) \<and>
     (cache.consistent (new_AssemblyReference re) (referenceCache s) \<longrightarrow>
      cache.consistent (new_AssemblyReference re) (referenceCache s'))"

interpretation ext: step_relation "extends P re"
proof
  show "extends P re s s" for s by (auto simp: extends_def)
  show "extends P re s u" if st: "extends P re s t" and tu: "extends P re t u" for s t u
  proof -
    from st tu obtain a b where "integrationMethods t = integrationMethods s @ a" "\<forall>m\<in>set a. P m"
      "integrationMethods u = integrationMethods t @ b" "\<forall>m\<in>set b. P m" by (auto simp: extends_def)
    then have "integrationMethods u = integrationMethods s @ (a @ b) \<and> (\<forall>m\<in>set (a @ b). P m)" by auto
    with st tu show ?thesis unfolding extends_def by blast
  qed
qed

lemma keeps_push_back: "P m \<Longrightarrow> ext.keeps P re (push_back m)"
  by (auto simp: ext.keeps_def push_back_def extends_def)

lemma keeps_new_MethodReference:
  "ext.keeps P re (new_MethodReference re a t m act minv maxv sig types)"
proof -
  have "cache.consistent (new_AssemblyReference re) (snd (GetFromCache re c a))"
    if "cache.consistent (new_AssemblyReference re) c" for c
    using that by (simp add: GetFromCache_get cache.get_consistent)
  then show ?thesis
    by (auto simp: ext.keeps_def new_MethodReference_def extends_def split_beta)
qed

lemma keeps_MethodReferenceFromJson:
  "ext.keeps P re (MethodReferenceFromJson js re src t w)"
  unfolding MethodReferenceFromJson_def
  by (intro ext.keeps_if ext.keeps_return ext.keeps_bind_try ext.keeps_bind ext.keeps_try)
     (auto intro!: ext.keeps_bind_try ext.keeps_bind keeps_new_MethodReference split: option.split)

text \<open>The accessors refuse to look a key up in a value that is no object, as documented.\<close>

definition json_documented :: "('j, 'e) json_lib \<Rightarrow> bool" where
  "json_documented js \<longleftrightarrow> (\<forall>j k d s. value_string js j k d = Inr s \<longrightarrow> is_object js j)"

lemma bind_InrD: "bind m f s = (Inr y, s') \<Longrightarrow> \<exists>x t. m s = (Inr x, t) \<and> f x t = (Inr y, s')"
  by (auto simp: bind_def split: prod.splits sum.splits)

lemma try_get_InrD: "try_get r s = (Inr x, t) \<Longrightarrow> r = Inr x \<and> t = s"
  by (simp add: try_get_def)

lemma wrapper_action:
  assumes "MethodReferenceFromJson js re w False True s = (Inr r, s')" and "is_object js w"
  shows "value_string js w ''action'' '''' = Inr (action r)"
  using assms
  by (auto simp: MethodReferenceFromJson_def new_MethodReference_def return_def split_beta
      dest!: bind_InrD try_get_InrD)

definition admissible :: "bool \<Rightarrow> bool \<Rightarrow> wstring list \<Rightarrow> IntegrationMethod \<Rightarrow> bool" where
  "admissible isCallTargetEnabled isNetstandardEnabled disabled m \<longleftrightarrow>
     integration_name m \<noteq> [] \<and> integration_name m \<notin> set disabled \<and>
     (isCallTargetEnabled \<longrightarrow> action (wrapper_method (replacement m)) = WStr ''CallTargetModification'') \<and>
     (\<not> isCallTargetEnabled \<and> \<not> isNetstandardEnabled \<longrightarrow>
        name (assembly (target_method (replacement m))) \<noteq> WStr ''netstandard'')"

lemma keeps_MethodReplacementFromJson:
  assumes js: "json_documented js" and n: "integrationName \<noteq> []" "integrationName \<notin> set disabled"
  shows "ext.keeps (admissible ct ns disabled) re (MethodReplacementFromJson js re src integrationName ct ns)"
  unfolding MethodReplacementFromJson_def
proof (intro ext.keeps_if ext.keeps_return ext.keeps_bind_try, goal_cases)
  case (1 w wa w')
  have o: "is_object js w" using js 1(3) unfolding json_documented_def by blast
  have w: "w' = w" using 1(2,6) by simp
  show ?case
  proof (rule ext.keeps_bind [OF keeps_MethodReferenceFromJson], intro ext.keeps_bind_try
      ext.keeps_bind [OF keeps_MethodReferenceFromJson] keeps_push_back)
    fix wrapper s s' target
    assume "MethodReferenceFromJson js re w' False True s = (Inr wrapper, s')"
    with w o wrapper_action 1(3,4,5) show "admissible ct ns disabled
      \<lparr>integration_name = integrationName, replacement =
         \<lparr>caller_method = no_MethodReference, target_method = target, wrapper_method = wrapper\<rparr>\<rparr>"
      using n by (fastforce simp: admissible_def)
  qed
next
  case (2 w wa t)
  then show ?case using n
    by (intro ext.keeps_bind [OF keeps_MethodReferenceFromJson] ext.keeps_if ext.keeps_return
        ext.keeps_bind_try keeps_push_back) (auto simp: admissible_def)
qed

lemma keeps_IntegrationFromJson:
  "json_documented js \<Longrightarrow>
   ext.keeps (admissible ct ns disabled) re (IntegrationFromJson js re src ct ns disabled)"
  unfolding IntegrationFromJson_def
  by (intro ext.keeps_if ext.keeps_return ext.keeps_bind_try ext.keeps_for_each
      keeps_MethodReplacementFromJson) auto

lemma extends_LoadIntegrationsFromFile:
  assumes "json_documented js"
  shows "extends (admissible ct ns disabled) re s (LoadIntegrationsFromFile js re open_file f ct ns disabled s)"
proof (cases "open_file f")
  case (Some parse)
  have "ext.keeps (admissible ct ns disabled) re (bind (try_get parse) (\<lambda>j.
       for_each (\<lambda>el. IntegrationFromJson js re el ct ns disabled) (items js j)))"
    by (intro ext.keeps_bind_try ext.keeps_for_each keeps_IntegrationFromJson assms)
  with Some show ?thesis
    by (simp add: LoadIntegrationsFromFile_def LoadIntegrationsFromStream_def ext.keeps_def)
qed (simp add: LoadIntegrationsFromFile_def ext.R_refl)

lemma extends_fold:
  "(\<And>x s. extends P re s (f x s)) \<Longrightarrow> extends P re s (fold f xs s)"
  by (induction xs arbitrary: s) (auto intro: ext.R_refl ext.R_trans)

text \<open>
  Loading from the environment, whatever the files contain and wherever an exception stops
  a file, only appends: no integration loaded before is lost, and each new one has a name
  that is not disabled, is a call-target modification when call target is enabled, and does
  not target netstandard unless that is enabled. The cache stays consistent.
\<close>

theorem LoadIntegrationsFromEnvironment_admissible:
  assumes "json_documented js"
  shows "extends (admissible isCallTargetEnabled isNetstandardEnabled disabled) re s
    (LoadIntegrationsFromEnvironment js re getenv open_file isCallTargetEnabled isNetstandardEnabled disabled s)"
  unfolding LoadIntegrationsFromEnvironment_def
  by (rule extends_fold) (rule extends_LoadIntegrationsFromFile [OF assms])

text \<open>A small instance of the accessors, and an integration file for it.\<close>

datatype json = JObject "(string \<times> json) list" | JArray "json list" | JString wstring

definition sample_lib :: "(json, unit) json_lib" where
  "sample_lib = \<lparr>
     is_object = (\<lambda>j. case j of JObject ms \<Rightarrow> True | _ \<Rightarrow> False),
     is_array = (\<lambda>j. case j of JArray js \<Rightarrow> True | _ \<Rightarrow> False),
     is_string = (\<lambda>j. case j of JString s \<Rightarrow> True | _ \<Rightarrow> False),
     is_number_unsigned = (\<lambda>j. False),
     items = (\<lambda>j. case j of JArray js \<Rightarrow> js | _ \<Rightarrow> []),
     value_string = (\<lambda>j k d. case j of
         JObject ms \<Rightarrow> (case map_of ms k of None \<Rightarrow> Inr (WStr d) | Some (JString s) \<Rightarrow> Inr s | _ \<Rightarrow> Inl ())
       | _ \<Rightarrow> Inl ()),
     value_json = (\<lambda>j k d. case j of
         JObject ms \<Rightarrow> (case map_of ms k of None \<Rightarrow> Inr d | Some x \<Rightarrow> Inr x) | _ \<Rightarrow> Inl ()),
     member = (\<lambda>j k. case j of JObject ms \<Rightarrow> map_of ms k | _ \<Rightarrow> None),
     get_ushort = (\<lambda>j. Inl ()), get_byte = (\<lambda>j. Inl ()), get_strings = (\<lambda>j. Inl ()),
     get_chars = (\<lambda>j. case j of JString s \<Rightarrow> Inr (map ucast s) | _ \<Rightarrow> Inl ()),
     empty_object = JObject [], empty_array = JArray []\<rparr>"

lemma sample_lib_documented: "json_documented sample_lib"
  by (auto simp: json_documented_def sample_lib_def split: json.splits)

definition sample_file :: json where
  "sample_file = JArray [JObject [(''name'', JString (WStr ''X'')), (''method_replacements'', JArray
     [JObject [(''wrapper'', JObject [(''action'', JString (WStr ''CallTargetModification''))])]])]]"

definition start_state :: loader_state where
  "start_state = \<lparr>integrationMethods = [], referenceCache = Map.empty\<rparr>"

lemma sample_file_loads:
  "length (integrationMethods (LoadIntegrationsFromFile sample_lib leftmost_re2 (\<lambda>f. Some (Inr sample_file))
     (WStr ''f'') True False [] start_state)) = 1"
  by (simp add: LoadIntegrationsFromFile_def LoadIntegrationsFromStream_def sample_file_def sample_lib_def
      IntegrationFromJson_def MethodReplacementFromJson_def MethodReferenceFromJson_def bind_def try_get_def
      return_def push_back_def new_MethodReference_def split_beta ushort_field_def read_signature_def
      start_state_def)

theorem LoadIntegrationsFromEnvironment_admissible_witness:
  "extends (admissible True False []) leftmost_re2 start_state
    (LoadIntegrationsFromEnvironment sample_lib leftmost_re2 (\<lambda>n. Some (WStr ''f''))
      (\<lambda>f. Some (Inr sample_file)) True False [] start_state)"
  by (rule LoadIntegrationsFromEnvironment_admissible) (rule sample_lib_documented)

section \<open>Selecting integrations\<close>

definition FilterIntegrationsByCaller :: "IntegrationMethod list \<Rightarrow> wstring \<Rightarrow> IntegrationMethod list" where
  "FilterIntegrationsByCaller integration_methods assembly_name =
     foldl (\<lambda>enabled i.
       if name (assembly (caller_method (replacement i))) = [] \<or>
          name (assembly (caller_method (replacement i))) = assembly_name
       then enabled @ [i] else enabled) [] integration_methods"

record AssemblyMetadata =
  metadata_module_id :: u64
  metadata_name :: wstring
  assembly_token :: mdToken
  metadata_version :: Version

definition AssemblyMeetsIntegrationRequirements :: "AssemblyMetadata \<Rightarrow> MethodReplacement \<Rightarrow> bool" where
  "AssemblyMeetsIntegrationRequirements metadata method_replacement =
     (let target = target_method method_replacement in
      if name (assembly target) \<noteq> metadata_name metadata then False
      else if version_greater (min_version target) (metadata_version metadata) then False
      else if version_less (max_version target) (metadata_version metadata) then False
      else True)"

text \<open>The search over the referenced assemblies stops at the first that fits.\<close>

primrec any_reference :: "AssemblyMetadata list \<Rightarrow> MethodReplacement \<Rightarrow> bool" where
  "any_reference [] r = False"
| "any_reference (m # ms) r = (if AssemblyMeetsIntegrationRequirements m r then True else any_reference ms r)"

text \<open>
  \<open>assembly_metadata\<close> and \<open>refs\<close> are what \<^verbatim>\<open>GetAssemblyImportMetadata\<close> and
  \<^verbatim>\<open>EnumAssemblyRefs\<close> report of the module.
\<close>

definition FilterIntegrationsByTarget ::
  "IntegrationMethod list \<Rightarrow> AssemblyMetadata \<Rightarrow> AssemblyMetadata list \<Rightarrow> IntegrationMethod list" where
  "FilterIntegrationsByTarget integration_methods assembly_metadata refs =
     foldl (\<lambda>enabled i.
       if (if AssemblyMeetsIntegrationRequirements assembly_metadata (replacement i) then True
           else any_reference refs (replacement i))
       then enabled @ [i] else enabled) [] integration_methods"

primrec name_excluded :: "wstring list \<Rightarrow> wstring \<Rightarrow> bool" where
  "name_excluded [] n = False"
| "name_excluded (e # es) n = (if n = e then True else name_excluded es n)"

definition FilterIntegrationsByTargetAssemblyName ::
  "IntegrationMethod list \<Rightarrow> wstring list \<Rightarrow> IntegrationMethod list" where
  "FilterIntegrationsByTargetAssemblyName integration_methods excluded_assembly_names =
     foldl (\<lambda>methods i.
       if \<not> name_excluded excluded_assembly_names (name (assembly (target_method (replacement i))))
       then methods @ [i] else methods) [] integration_methods"

lemma foldl_filter: "foldl (\<lambda>acc x. if P x then acc @ [x] else acc) acc xs = acc @ filter P xs"
  by (induction xs arbitrary: acc) auto

definition in_range :: "Version \<Rightarrow> MethodReference \<Rightarrow> bool" where
  "in_range v m \<longleftrightarrow> triple (min_version m) \<le> triple v \<and> triple v \<le> triple (max_version m)"

lemma AssemblyMeets_iff:
  "AssemblyMeetsIntegrationRequirements d r \<longleftrightarrow>
     name (assembly (target_method r)) = metadata_name d \<and> in_range (metadata_version d) (target_method r)"
  by (auto simp: AssemblyMeetsIntegrationRequirements_def Let_def version_greater_def version_less_triple in_range_def)

lemma any_reference_iff: "any_reference ms r \<longleftrightarrow> (\<exists>d\<in>set ms. AssemblyMeetsIntegrationRequirements d r)"
  by (induction ms) auto

text \<open>
  The filter by target keeps, in their order, exactly the integrations whose target is the
  module's own assembly or one it references, by name and with a version whose major, minor
  and build lie in the integration's range; the revisions play no part.
\<close>

theorem FilterIntegrationsByTarget_exact:
  "FilterIntegrationsByTarget ms own refs =
     filter (\<lambda>i. let t = target_method (replacement i) in
       \<exists>d\<in>set (own # refs). name (assembly t) = metadata_name d \<and> in_range (metadata_version d) t) ms"
  unfolding FilterIntegrationsByTarget_def foldl_filter
  by (auto simp: AssemblyMeets_iff any_reference_iff Let_def intro!: filter_cong)

lemma name_excluded_iff: "name_excluded es n \<longleftrightarrow> n \<in> set es"
  by (induction es) auto

text \<open>
  The three filters commute: each keeps the order and decides on each integration alone,
  so the profiler may apply them in any order.
\<close>

theorem filters_commute:
  "FilterIntegrationsByTarget (FilterIntegrationsByCaller ms n) own refs =
     FilterIntegrationsByCaller (FilterIntegrationsByTarget ms own refs) n \<and>
   FilterIntegrationsByTargetAssemblyName (FilterIntegrationsByTarget ms own refs) ex =
     FilterIntegrationsByTarget (FilterIntegrationsByTargetAssemblyName ms ex) own refs \<and>
   FilterIntegrationsByTargetAssemblyName (FilterIntegrationsByCaller ms n) ex =
     FilterIntegrationsByCaller (FilterIntegrationsByTargetAssemblyName ms ex) n"
  unfolding FilterIntegrationsByTarget_def FilterIntegrationsByCaller_def
    FilterIntegrationsByTargetAssemblyName_def foldl_filter
  by (simp add: conj_commute)

end
