(* ===== verification/ClrInfo.thy ===== *)
theory ClrInfo
  imports IntegrationLoader
begin

text \<open>
  What the profiler asks the runtime about modules, assemblies, types and functions: the
  readers of \<^verbatim>\<open>clr_helpers.cpp\<close> and the enumerator of \<^verbatim>\<open>clr_helpers.h\<close>. The runtime's
  interfaces are records of functions, parameters of the model: each returns the result code
  with the values it leaves in the out-parameters of the call, names being read up to their
  terminator. The two readers of types and functions call each other without a bound in the
  source; \<open>fuel\<close> bounds the depth of the calls here, and \<open>NoFuel\<close> is a stack that overflows.
\<close>

section \<open>Enumerations\<close>

text \<open>
  The answers of an enumeration handle, call by call: the status and the tokens written.
  After the last the handle answers \<^verbatim>\<open>S_FALSE\<close> with none.
\<close>

type_synonym 'a pages = "(hresult \<times> 'a list) list"

record 'a EnumeratorIterator =
  it_status :: hresult
  it_arr :: "'a list"
  it_idx :: nat
  it_pages :: "'a pages"

definition it_Next :: "'a pages \<Rightarrow> hresult \<times> 'a list \<times> 'a pages" where
  "it_Next ps = (case ps of [] \<Rightarrow> (S_FALSE, [], []) | (hr, xs) # r \<Rightarrow> (hr, xs, r))"

text \<open>The call of \<^verbatim>\<open>Next\<close> with the correction of an empty success, in constructor and increment.\<close>

definition it_fetch :: "'a pages \<Rightarrow> 'a EnumeratorIterator" where
  "it_fetch ps = (let (hr, xs, r) = it_Next ps in
     \<lparr>it_status = (if hr = S_OK \<and> length xs = 0 then S_FALSE else hr),
      it_arr = xs, it_idx = 0, it_pages = r\<rparr>)"

definition it_begin :: "'a pages \<Rightarrow> 'a EnumeratorIterator" where
  "it_begin ps = it_fetch ps"

definition it_not_end :: "'a EnumeratorIterator \<Rightarrow> bool" where
  "it_not_end it \<longleftrightarrow> it_status it = S_OK"

definition it_deref :: "'a EnumeratorIterator \<Rightarrow> 'a" where
  "it_deref it = it_arr it ! it_idx it"

definition it_inc :: "'a EnumeratorIterator \<Rightarrow> 'a EnumeratorIterator" where
  "it_inc it =
     (if it_idx it < length (it_arr it) - 1 then it \<lparr>it_idx := it_idx it + 1\<rparr>
      else it_fetch (it_pages it))"

text \<open>A loop from \<^verbatim>\<open>begin()\<close> to \<^verbatim>\<open>end()\<close>: the elements it visits, in order.\<close>

function it_loop :: "'a EnumeratorIterator \<Rightarrow> 'a list" where
  "it_loop it = (if it_not_end it then it_deref it # it_loop (it_inc it) else [])"
  by pat_completeness auto
termination
proof (relation "measures [\<lambda>it. if it_not_end it then Suc (length (it_pages it)) else 0,
    \<lambda>it. length (it_arr it) - it_idx it]", simp, goal_cases)
  case (1 it)
  then show ?case
    by (cases "it_pages it")
      (auto simp: it_inc_def it_fetch_def it_Next_def it_not_end_def)
qed

declare it_loop.simps [simp del]

definition enumerated :: "'a pages \<Rightarrow> 'a list" where
  "enumerated ps = it_loop (it_begin ps)"

lemma it_loop_page:
  "i < length xs \<Longrightarrow>
   it_loop \<lparr>it_status = S_OK, it_arr = xs, it_idx = i, it_pages = ps\<rparr> = drop i xs @ enumerated ps"
proof (induction "length xs - i" arbitrary: i)
  case (Suc n)
  let ?it = "\<lparr>it_status = S_OK, it_arr = xs, it_idx = i, it_pages = ps\<rparr>"
  have l: "it_loop ?it = xs ! i # it_loop (it_inc ?it)"
    by (subst it_loop.simps) (simp add: it_not_end_def it_deref_def)
  show ?case
  proof (cases "i < length xs - 1")
    case True
    then have "it_loop (it_inc ?it) = drop (Suc i) xs @ enumerated ps"
      using Suc.hyps(1) [of "Suc i"] Suc.hyps(2) by (simp add: it_inc_def)
    then show ?thesis using l Suc.prems by (simp add: Cons_nth_drop_Suc [symmetric])
  next
    case False
    then have "drop i xs = [xs ! i]" using Suc.prems
      by (metis Cons_nth_drop_Suc One_nat_def Suc_lessI diff_Suc_1 drop_all gr_implies_not0 less_Suc_eq_le
          less_imp_Suc_add not_less)
    then show ?thesis using l False by (simp add: it_inc_def enumerated_def it_begin_def)
  qed
qed simp

text \<open>The pages are read until one fails or is empty; what a failing page carries is dropped.\<close>

lemma enumerated_pages:
  "enumerated ps = concat (map snd (takeWhile (\<lambda>(hr, xs). hr = S_OK \<and> xs \<noteq> []) ps))"
proof (induction ps)
  case Nil
  show ?case
    by (simp add: enumerated_def it_begin_def it_fetch_def it_Next_def it_loop.simps it_not_end_def)
next
  case (Cons p ps)
  obtain hr xs where p: "p = (hr, xs)" by (cases p)
  show ?case
  proof (cases "hr = S_OK \<and> xs \<noteq> []")
    case True
    then have "enumerated (p # ps) = it_loop \<lparr>it_status = S_OK, it_arr = xs, it_idx = 0, it_pages = ps\<rparr>"
      by (simp add: p enumerated_def it_begin_def it_fetch_def it_Next_def)
    then show ?thesis using True Cons.IH it_loop_page [of 0 xs ps] p by simp
  next
    case False
    then show ?thesis
      by (auto simp: p enumerated_def it_begin_def it_fetch_def it_Next_def it_loop.simps it_not_end_def)
  qed
qed


section \<open>Modules and assemblies\<close>

record ASSEMBLYMETADATA =
  usMajorVersion :: u16
  usMinorVersion :: u16
  usBuildNumber :: u16
  usRevisionNumber :: u16

record AssemblyInfo =
  assembly_id :: u64
  assembly_name :: wstring
  manifest_module_id :: u64
  app_domain_id :: u64
  app_domain_name :: wstring

definition no_AssemblyInfo :: AssemblyInfo where
  "no_AssemblyInfo = \<lparr>assembly_id = 0, assembly_name = [], manifest_module_id = 0,
     app_domain_id = 0, app_domain_name = []\<rparr>"

record ModuleInfo =
  module_id :: u64
  module_path :: wstring
  module_assembly :: AssemblyInfo
  module_flags :: u32

definition no_ModuleInfo :: ModuleInfo where
  "no_ModuleInfo = \<lparr>module_id = 0, module_path = [], module_assembly = no_AssemblyInfo, module_flags = 0\<rparr>"

definition ModuleInfo_IsValid :: "ModuleInfo \<Rightarrow> bool" where
  "ModuleInfo_IsValid self \<longleftrightarrow> module_id self \<noteq> 0"

definition IsNGEN :: "ModuleInfo \<Rightarrow> bool" where
  "IsNGEN self \<longleftrightarrow> module_flags self AND 0x2 \<noteq> 0"

definition IsDynamic :: "ModuleInfo \<Rightarrow> bool" where
  "IsDynamic self \<longleftrightarrow> module_flags self AND 0x4 \<noteq> 0"

definition IsResource :: "ModuleInfo \<Rightarrow> bool" where
  "IsResource self \<longleftrightarrow> module_flags self AND 0x10 \<noteq> 0"

definition IsWindowsRuntime :: "ModuleInfo \<Rightarrow> bool" where
  "IsWindowsRuntime self \<longleftrightarrow> module_flags self AND 0x40 \<noteq> 0"

text \<open>
  The profiling interface \<^verbatim>\<open>ICorProfilerInfo4\<close>: names with the length the runtime reports for
  them, the application domain and manifest module of an assembly, the path, assembly and
  flags of a module.
\<close>

record CorProfilerInfo =
  prof_GetAssemblyInfo :: "u64 \<Rightarrow> hresult \<times> wstring \<times> u32 \<times> u64 \<times> u64"
  prof_GetAppDomainInfo :: "u64 \<Rightarrow> hresult \<times> wstring \<times> u32"
  prof_GetModuleInfo2 :: "u64 \<Rightarrow> hresult \<times> wstring \<times> u32 \<times> u64 \<times> u32"

definition GetAssemblyInfo :: "'p CorProfilerInfo_scheme \<Rightarrow> u64 \<Rightarrow> AssemblyInfo" where
  "GetAssemblyInfo info aid =
     (let (hr, a_name, assembly_name_len, app_domain, manifest_module) = prof_GetAssemblyInfo info aid in
      if FAILED hr \<or> assembly_name_len = 0 then no_AssemblyInfo
      else let (hr, d_name, app_domain_name_len) = prof_GetAppDomainInfo info app_domain in
        if FAILED hr \<or> app_domain_name_len = 0 then no_AssemblyInfo
        else \<lparr>assembly_id = aid, assembly_name = a_name, manifest_module_id = manifest_module,
              app_domain_id = app_domain, app_domain_name = d_name\<rparr>)"

definition GetModuleInfo :: "'p CorProfilerInfo_scheme \<Rightarrow> u64 \<Rightarrow> ModuleInfo" where
  "GetModuleInfo info mid =
     (let (hr, path, module_path_len, aid, flags) = prof_GetModuleInfo2 info mid in
      if FAILED hr \<or> module_path_len = 0 then no_ModuleInfo
      else \<lparr>module_id = mid, module_path = path, module_assembly = GetAssemblyInfo info aid,
            module_flags = flags\<rparr>)"

text \<open>
  \<^verbatim>\<open>IMetaDataAssemblyImport\<close>: the token of the module's own assembly, the properties of it and
  of the referenced assemblies, and the enumeration of those.
\<close>

record AssemblyImport =
  GetAssemblyFromScope :: "hresult \<times> mdToken"
  GetAssemblyProps :: "mdToken \<Rightarrow> hresult \<times> wstring \<times> u32 \<times> ASSEMBLYMETADATA"
  GetAssemblyRefProps :: "mdToken \<Rightarrow> hresult \<times> wstring \<times> u32 \<times> ASSEMBLYMETADATA"
  EnumAssemblyRefs :: "mdToken pages"

definition no_AssemblyMetadata :: AssemblyMetadata where
  "no_AssemblyMetadata = \<lparr>metadata_module_id = 0, metadata_name = [], assembly_token = mdTokenNil,
     metadata_version = Version 0 0 0 0\<rparr>"

definition new_AssemblyMetadata :: "wstring \<Rightarrow> mdToken \<Rightarrow> ASSEMBLYMETADATA \<Rightarrow> AssemblyMetadata" where
  "new_AssemblyMetadata a_name token md =
     \<lparr>metadata_module_id = 0, metadata_name = a_name, assembly_token = token,
      metadata_version = Version (usMajorVersion md) (usMinorVersion md) (usBuildNumber md) (usRevisionNumber md)\<rparr>"

definition GetAssemblyImportMetadata :: "AssemblyImport \<Rightarrow> AssemblyMetadata" where
  "GetAssemblyImportMetadata assembly_import =
     (let (hr, current) = GetAssemblyFromScope assembly_import in
      if FAILED hr then no_AssemblyMetadata
      else let (hr, a_name, name_len, md) = GetAssemblyProps assembly_import current in
        if FAILED hr \<or> name_len = 0 then no_AssemblyMetadata
        else new_AssemblyMetadata a_name current md)"

definition GetReferencedAssemblyMetadata :: "AssemblyImport \<Rightarrow> mdToken \<Rightarrow> AssemblyMetadata" where
  "GetReferencedAssemblyMetadata assembly_import assembly_ref =
     (let (hr, a_name, name_len, md) = GetAssemblyRefProps assembly_import assembly_ref in
      if FAILED hr \<or> name_len = 0 then no_AssemblyMetadata
      else new_AssemblyMetadata a_name assembly_ref md)"

primrec find_ref :: "AssemblyImport \<Rightarrow> wstring \<Rightarrow> mdToken list \<Rightarrow> mdToken" where
  "find_ref assembly_import a_name [] = token_tag mdtAssemblyRef"
| "find_ref assembly_import a_name (r # rs) =
     (if metadata_name (GetReferencedAssemblyMetadata assembly_import r) = a_name then r
      else find_ref assembly_import a_name rs)"

definition FindAssemblyRef :: "AssemblyImport \<Rightarrow> wstring \<Rightarrow> mdToken" where
  "FindAssemblyRef assembly_import a_name =
     find_ref assembly_import a_name (enumerated (EnumAssemblyRefs assembly_import))"

section \<open>Types and functions\<close>

datatype TypeInfo = TypeInfo (type_id: mdToken) (info_name: wstring) (info_spec: mdToken)
  (info_token_type: u32) (extend_from: "TypeInfo option") (valueType: bool) (isGeneric: bool)
  (parent_type: "TypeInfo option")

definition no_TypeInfo :: TypeInfo where
  "no_TypeInfo = TypeInfo 0 [] 0 0 None False False None"

definition TypeInfo_IsValid :: "TypeInfo \<Rightarrow> bool" where
  "TypeInfo_IsValid self \<longleftrightarrow> type_id self \<noteq> 0"

text \<open>A signature in the metadata: a pointer and a length.\<close>

type_synonym blob = "mem \<times> nat"

record FunctionInfo =
  fi_id :: mdToken
  fi_name :: wstring
  fi_type :: TypeInfo
  is_generic :: bool
  fi_signature :: MethodSignature
  function_spec_signature :: MethodSignature
  method_def_id :: mdToken
  fi_blob :: blob
  fi_method_signature :: FunctionMethodSignature

definition no_FunctionInfo :: FunctionInfo where
  "no_FunctionInfo = \<lparr>fi_id = 0, fi_name = [], fi_type = no_TypeInfo, is_generic = False,
     fi_signature = MethodSignature [], function_spec_signature = MethodSignature [], method_def_id = 0,
     fi_blob = ((\<lambda>_. 0), 0), fi_method_signature = new_signature\<rparr>"

definition FunctionInfo_IsValid :: "FunctionInfo \<Rightarrow> bool" where
  "FunctionInfo_IsValid self \<longleftrightarrow> fi_id self \<noteq> 0"

text \<open>
  \<^verbatim>\<open>IMetaDataImport2\<close>. A token is what the call leaves in the out-parameter, which the source
  initialises with \<^verbatim>\<open>mdTokenNil\<close>; a name is given with the length reported for it.
\<close>

record MetaDataImport =
  GetTypeDefProps :: "mdToken \<Rightarrow> hresult \<times> wstring \<times> u32 \<times> mdToken"
  GetNestedClassProps :: "mdToken \<Rightarrow> mdToken"
  GetTypeRefProps :: "mdToken \<Rightarrow> hresult \<times> wstring \<times> u32"
  GetTypeSpecFromToken :: "mdToken \<Rightarrow> hresult \<times> blob"
  GetModuleRefProps :: "mdToken \<Rightarrow> hresult \<times> wstring \<times> u32"
  GetMemberRefProps :: "mdToken \<Rightarrow> hresult \<times> mdToken \<times> wstring \<times> u32 \<times> blob"
  GetMemberProps :: "mdToken \<Rightarrow> hresult \<times> mdToken \<times> wstring \<times> u32 \<times> blob"
  GetMethodSpecProps :: "mdToken \<Rightarrow> hresult \<times> mdToken \<times> blob"
  meta_FindTypeDefByName :: "wstring \<Rightarrow> mdToken \<Rightarrow> hresult \<times> mdToken"
  EnumMethodsWithName :: "mdToken \<Rightarrow> wstring \<Rightarrow> mdToken pages"

definition GetSignatureByteRepresentation :: "blob \<Rightarrow> bytes" where
  "GetSignatureByteRepresentation raw = mem_slice (fst raw) 0 (snd raw)"


text \<open>A generic name ends in a backquote and one or two characters.\<close>

definition tick :: u16 where "tick = 0x60"

definition name_is_generic :: "wstring \<Rightarrow> bool" where
  "name_is_generic s = (case find_last (\<lambda>c. c = tick) s of
       None \<Rightarrow> False
     | Some generic_token_index \<Rightarrow>
         let idxFromRight = length s - generic_token_index - 1 in idxFromRight = 1 \<or> idxFromRight = 2)"

text \<open>The end of \<^verbatim>\<open>GetTypeInfo\<close>, behind the switch.\<close>

definition new_TypeInfo ::
  "mdToken \<Rightarrow> hresult \<Rightarrow> wstring \<Rightarrow> u32 \<Rightarrow> TypeInfo option \<Rightarrow> bool \<Rightarrow> TypeInfo option \<Rightarrow> TypeInfo" where
  "new_TypeInfo token hr t_name type_name_len extendsInfo type_valueType parentTypeInfo =
     (if FAILED hr \<or> type_name_len = 0 then no_TypeInfo
      else TypeInfo token t_name (token_tag mdtTypeSpec) (TypeFromToken token) extendsInfo type_valueType
             (name_is_generic t_name) parentTypeInfo)"

text \<open>A type read only if its token is not \<^verbatim>\<open>mdTokenNil\<close>.\<close>

definition info_unless_nil :: "(mdToken \<Rightarrow> TypeInfo outcome) \<Rightarrow> mdToken \<Rightarrow> TypeInfo option outcome" where
  "info_unless_nil rec_t tk =
     (if tk \<noteq> mdTokenNil then obind (rec_t tk) (\<lambda>i. Done (Some i)) else Done None)"

definition value_type_names :: "wstring list" where
  "value_type_names = [WStr ''System.ValueType'', WStr ''System.Enum'']"

text \<open>
  The body of \<^verbatim>\<open>GetTypeInfo\<close>; the recursive calls are arguments. A specification is a
  reference to its generic type when its first byte has a bit in common with
  \<^verbatim>\<open>ELEMENT_TYPE_GENERICINST\<close>, as the source writes it.
\<close>

definition GetTypeInfo_body ::
  "MetaDataImport \<Rightarrow> (mdToken \<Rightarrow> TypeInfo outcome) \<Rightarrow> (mdToken \<Rightarrow> FunctionInfo outcome) \<Rightarrow>
   mdToken \<Rightarrow> TypeInfo outcome" where
  "GetTypeInfo_body metadata_import rec_t rec_f token =
     (if TypeFromToken token = token_tag mdtTypeDef then
        let (hr, t_name, type_name_len, type_extends) = GetTypeDefProps metadata_import token;
            parent_type_token = GetNestedClassProps metadata_import token
        in obind (info_unless_nil rec_t parent_type_token) (\<lambda>parentTypeInfo.
             obind (info_unless_nil rec_t type_extends) (\<lambda>extendsInfo.
               Done (new_TypeInfo token hr t_name type_name_len extendsInfo
                 (case extendsInfo of None \<Rightarrow> False | Some e \<Rightarrow> info_name e \<in> set value_type_names)
                 parentTypeInfo)))
      else if TypeFromToken token = token_tag mdtTypeRef then
        let (hr, t_name, type_name_len) = GetTypeRefProps metadata_import token
        in Done (new_TypeInfo token hr t_name type_name_len None False None)
      else if TypeFromToken token = token_tag mdtTypeSpec then
        let (hr, signature) = GetTypeSpecFromToken metadata_import token;
            sig = GetSignatureByteRepresentation signature
        in if FAILED hr \<or> length sig < 3 then Done no_TypeInfo
           else if hd sig AND elt ELEMENT_TYPE_GENERICINST \<noteq> 0 then
             obind (CorSigUncompressToken (drop 2 sig)) (\<lambda>(_, type_token).
               obind (rec_t type_token) (\<lambda>baseType.
                 Done (TypeInfo (type_id baseType) (info_name baseType) token (TypeFromToken token)
                   (extend_from baseType) (valueType baseType) (isGeneric baseType) (parent_type baseType))))
           else Done (new_TypeInfo token hr [] 0 None False None)
      else if TypeFromToken token = token_tag mdtModuleRef then
        let (_, t_name, type_name_len) = GetModuleRefProps metadata_import token
        in Done (new_TypeInfo token E_FAIL t_name type_name_len None False None)
      else if TypeFromToken token = token_tag mdtMemberRef \<or> TypeFromToken token = token_tag mdtMethodDef then
        obind (rec_f token) (\<lambda>f. Done (fi_type f))
      else Done (new_TypeInfo token E_FAIL [] 0 None False None))"

definition GetFunctionInfo_body ::
  "MetaDataImport \<Rightarrow> (mdToken \<Rightarrow> TypeInfo outcome) \<Rightarrow> (mdToken \<Rightarrow> FunctionInfo outcome) \<Rightarrow>
   mdToken \<Rightarrow> FunctionInfo outcome" where
  "GetFunctionInfo_body metadata_import rec_t rec_f token =
     (if TypeFromToken token = token_tag mdtMemberRef \<or> TypeFromToken token = token_tag mdtMethodDef then
        let (hr, parent_token, function_name, function_name_len, raw_signature) =
              (if TypeFromToken token = token_tag mdtMemberRef then GetMemberRefProps metadata_import token
               else GetMemberProps metadata_import token)
        in if FAILED hr \<or> function_name_len = 0 then Done no_FunctionInfo
           else obind (rec_t parent_token) (\<lambda>type_info.
             Done \<lparr>fi_id = token, fi_name = function_name, fi_type = type_info, is_generic = False,
               fi_signature = MethodSignature (GetSignatureByteRepresentation raw_signature),
               function_spec_signature = MethodSignature [], method_def_id = 0,
               fi_blob = raw_signature, fi_method_signature = new_signature\<rparr>)
      else if TypeFromToken token = token_tag mdtMethodSpec then
        let (hr, parent_token, raw_signature) = GetMethodSpecProps metadata_import token
        in if FAILED hr then Done no_FunctionInfo
           else obind (rec_f parent_token) (\<lambda>generic_info.
             obind (rec_t parent_token) (\<lambda>type_info.
               Done \<lparr>fi_id = token, fi_name = fi_name generic_info, fi_type = type_info, is_generic = True,
                 fi_signature = fi_signature generic_info,
                 function_spec_signature = MethodSignature (GetSignatureByteRepresentation raw_signature),
                 method_def_id = fi_id generic_info,
                 fi_blob = raw_signature, fi_method_signature = new_signature\<rparr>))
      else Done no_FunctionInfo)"

primrec infos ::
  "nat \<Rightarrow> MetaDataImport \<Rightarrow> (mdToken \<Rightarrow> TypeInfo outcome) \<times> (mdToken \<Rightarrow> FunctionInfo outcome)" where
  "infos 0 metadata_import = (\<lambda>token. NoFuel, \<lambda>token. NoFuel)"
| "infos (Suc fuel) metadata_import =
     (\<lambda>token. GetTypeInfo_body metadata_import (fst (infos fuel metadata_import))
        (snd (infos fuel metadata_import)) token,
      \<lambda>token. GetFunctionInfo_body metadata_import (fst (infos fuel metadata_import))
        (snd (infos fuel metadata_import)) token)"

definition GetTypeInfo :: "nat \<Rightarrow> MetaDataImport \<Rightarrow> mdToken \<Rightarrow> TypeInfo outcome" where
  "GetTypeInfo fuel metadata_import token = fst (infos fuel metadata_import) token"

definition GetFunctionInfo :: "nat \<Rightarrow> MetaDataImport \<Rightarrow> mdToken \<Rightarrow> FunctionInfo outcome" where
  "GetFunctionInfo fuel metadata_import token = snd (infos fuel metadata_import) token"

lemma infos_eq: "fst (infos n md) = GetTypeInfo n md" "snd (infos n md) = GetFunctionInfo n md"
  by (simp_all add: fun_eq_iff GetTypeInfo_def GetFunctionInfo_def)

lemma GetTypeInfo_simps:
  "GetTypeInfo 0 md token = NoFuel"
  "GetTypeInfo (Suc n) md token = GetTypeInfo_body md (GetTypeInfo n md) (GetFunctionInfo n md) token"
  unfolding infos_eq [symmetric] by simp_all

lemma GetFunctionInfo_simps:
  "GetFunctionInfo 0 md token = NoFuel"
  "GetFunctionInfo (Suc n) md token = GetFunctionInfo_body md (GetTypeInfo n md) (GetFunctionInfo n md) token"
  unfolding infos_eq [symmetric] by simp_all

text \<open>
  \<^verbatim>\<open>FindTypeDefByName\<close>: a name with one plus sign is a nested class, more are refused. The
  token is the one found for the enclosing type in the first call.
\<close>

definition plus_sign :: u16 where "plus_sign = 0x2b"

definition FindTypeDefByName :: "MetaDataImport \<Rightarrow> wstring \<Rightarrow> mdToken option" where
  "FindTypeDefByName metadata_import targetTypeName =
     (let nameParts = Split targetTypeName plus_sign;
          find = (\<lambda>parentTypeDef typeName.
            let (hr, typeDef) = meta_FindTypeDefByName metadata_import typeName parentTypeDef
            in if FAILED hr then None else Some typeDef)
      in if length nameParts = 2 then
           let (hr, parentTypeDef) = meta_FindTypeDefByName metadata_import (nameParts ! 0) mdTokenNil
           in if FAILED hr then None else find parentTypeDef (nameParts ! 1)
         else if length nameParts > 2 then None
         else find (token_tag mdtTypeDef) targetTypeName)"

section \<open>Termination of the readers\<close>

text \<open>The tokens a reader passes to its recursive calls.\<close>

definition refers :: "MetaDataImport \<Rightarrow> mdToken \<Rightarrow> mdToken list" where
  "refers md tk =
     (if TypeFromToken tk = token_tag mdtTypeDef then
        filter (\<lambda>t. t \<noteq> mdTokenNil) [GetNestedClassProps md tk, snd (snd (snd (GetTypeDefProps md tk)))]
      else if TypeFromToken tk = token_tag mdtTypeSpec then
        (case CorSigUncompressToken (drop 2 (GetSignatureByteRepresentation (snd (GetTypeSpecFromToken md tk)))) of
           Done (_, t) \<Rightarrow> [t] | _ \<Rightarrow> [])
      else if TypeFromToken tk = token_tag mdtMemberRef then [fst (snd (GetMemberRefProps md tk))]
      else if TypeFromToken tk = token_tag mdtMethodDef then [fst (snd (GetMemberProps md tk))]
      else if TypeFromToken tk = token_tag mdtMethodSpec then [fst (snd (GetMethodSpecProps md tk))]
      else [])"

definition ranked :: "MetaDataImport \<Rightarrow> (mdToken \<Rightarrow> nat) \<Rightarrow> bool" where
  "ranked md rk \<longleftrightarrow> (\<forall>tk. \<forall>t\<in>set (refers md tk). rk t < rk tk)"


lemma CorSigUncompressToken_not_NoFuel [simp]: "CorSigUncompressToken bs \<noteq> NoFuel"
  by (cases "CorSigUncompressData bs")
    (auto simp: CorSigUncompressToken_def CorSigUncompressData_def CorSigUncompressData_len_def
      split: list.splits if_splits)

lemma refers_TypeSpec:
  "TypeFromToken tk = token_tag mdtTypeSpec \<Longrightarrow>
   CorSigUncompressToken (drop 2 (GetSignatureByteRepresentation (snd (GetTypeSpecFromToken md tk)))) = Done (a, t) \<Longrightarrow>
   t \<in> set (refers md tk)"
  by (simp add: refers_def)

lemma refers_TypeDef:
  "TypeFromToken tk = token_tag mdtTypeDef \<Longrightarrow> t \<noteq> mdTokenNil \<Longrightarrow>
   t = GetNestedClassProps md tk \<or> t = snd (snd (snd (GetTypeDefProps md tk))) \<Longrightarrow> t \<in> set (refers md tk)"
  by (auto simp: refers_def)

lemma body_fuel:
  assumes t: "\<And>t. t \<in> set (refers md tk) \<Longrightarrow> rec_t t \<noteq> NoFuel"
    and f: "\<And>t. t \<in> set (refers md tk) \<Longrightarrow> rec_f t \<noteq> NoFuel"
  shows "GetFunctionInfo_body md rec_t rec_f tk \<noteq> NoFuel"
    and "rec_f tk \<noteq> NoFuel \<Longrightarrow> GetTypeInfo_body md rec_t rec_f tk \<noteq> NoFuel"
proof -
  show "GetFunctionInfo_body md rec_t rec_f tk \<noteq> NoFuel"
    using t f by (auto simp: GetFunctionInfo_body_def refers_def obind_NoFuel_iff split: prod.splits if_splits)
  assume "rec_f tk \<noteq> NoFuel"
  then show "GetTypeInfo_body md rec_t rec_f tk \<noteq> NoFuel"
    unfolding GetTypeInfo_body_def Let_def
    using t [OF refers_TypeSpec] t [OF refers_TypeDef]
    by (auto simp: info_unless_nil_def obind_NoFuel_iff split: prod.splits if_splits)
qed

lemma ranked_enough:
  assumes "ranked md rk"
  shows "2 * rk tk < n \<Longrightarrow> GetFunctionInfo n md tk \<noteq> NoFuel"
    and "2 * rk tk + 1 < n \<Longrightarrow> GetTypeInfo n md tk \<noteq> NoFuel"
proof (induction n arbitrary: tk)
  case (Suc n)
  have below: "2 * rk t + 2 \<le> 2 * rk tk" if "t \<in> set (refers md tk)" for t tk
  proof -
    have "rk t < rk tk" using assms that by (auto simp: ranked_def)
    then show ?thesis by linarith
  qed
  {
    case 1
    have "2 * rk t + 1 < n" if "t \<in> set (refers md tk)" for t
      using below [OF that] 1 by linarith
    then show ?case unfolding GetFunctionInfo_simps
      by (intro body_fuel(1) Suc.IH) fastforce+
  next
    case 2
    have "2 * rk t + 1 < n" if "t \<in> set (refers md tk)" for t
      using below [OF that] 2 by linarith
    then show ?case unfolding GetTypeInfo_simps
      using 2 by (intro body_fuel(2) Suc.IH) fastforce+
  }
qed simp_all


text \<open>More fuel changes nothing but a result that ran out of it.\<close>

definition fuel_le :: "'a outcome \<Rightarrow> 'a outcome \<Rightarrow> bool" where
  "fuel_le m m' \<longleftrightarrow> m = NoFuel \<or> m = m'"

named_theorems fuel_mono \<open>monotonicity of programs in the fuel of their parts\<close>

lemma fuel_le_refl [fuel_mono]: "fuel_le m m"
  by (simp add: fuel_le_def)

lemma fuel_le_obind [fuel_mono]: "fuel_le m m' \<Longrightarrow> (\<And>x. fuel_le (f x) (f' x)) \<Longrightarrow> fuel_le (obind m f) (obind m' f')"
proof -
  assume m: "fuel_le m m'" and f: "\<And>x. fuel_le (f x) (f' x)"
  show ?thesis
  proof (cases m)
    case (Done x)
    with m have "m' = Done x" by (simp add: fuel_le_def)
    with Done f [of x] show ?thesis by (simp add: fuel_le_def)
  qed (use m in \<open>auto simp: fuel_le_def\<close>)
qed

lemma fuel_le_if [fuel_mono]: "fuel_le a a' \<Longrightarrow> fuel_le b b' \<Longrightarrow> fuel_le (if c then a else b) (if c then a' else b')"
  by simp

lemma fuel_le_prod [fuel_mono]:
  "(\<And>x y. fuel_le (f x y) (f' x y)) \<Longrightarrow> fuel_le (case p of (x, y) \<Rightarrow> f x y) (case p of (x, y) \<Rightarrow> f' x y)"
  by (cases p) simp

lemma fuel_le_Let [fuel_mono]: "(\<And>x. fuel_le (f x) (f' x)) \<Longrightarrow> fuel_le (let x = e in f x) (let x = e in f' x)"
  by simp

lemma body_mono:
  assumes t: "\<And>t. fuel_le (rec_t t) (rec_t' t)" and f: "\<And>t. fuel_le (rec_f t) (rec_f' t)"
  shows "fuel_le (GetTypeInfo_body md rec_t rec_f tk) (GetTypeInfo_body md rec_t' rec_f' tk)"
    and "fuel_le (GetFunctionInfo_body md rec_t rec_f tk) (GetFunctionInfo_body md rec_t' rec_f' tk)"
  unfolding GetTypeInfo_body_def GetFunctionInfo_body_def info_unless_nil_def
  by (intro fuel_mono t f)+

lemma infos_mono:
  "fuel_le (GetTypeInfo n md tk) (GetTypeInfo (n + k) md tk)"
  "fuel_le (GetFunctionInfo n md tk) (GetFunctionInfo (n + k) md tk)"
proof (induction n arbitrary: tk)
  case (Suc n)
  {
    case 1
    show ?case by (simp add: GetTypeInfo_simps Suc.IH body_mono)
  next
    case 2
    show ?case by (simp add: GetFunctionInfo_simps Suc.IH body_mono)
  }
qed (simp_all add: fuel_le_def GetTypeInfo_simps GetFunctionInfo_simps)

lemma fuel_irrelevant:
  assumes "GetTypeInfo n md tk \<noteq> NoFuel" and "GetTypeInfo m md tk \<noteq> NoFuel"
  shows "GetTypeInfo n md tk = GetTypeInfo m md tk"
proof -
  have "fuel_le (GetTypeInfo n md tk) (GetTypeInfo (n + m) md tk)"
    and "fuel_le (GetTypeInfo m md tk) (GetTypeInfo (m + n) md tk)" by (rule infos_mono)+
  with assms show ?thesis by (simp add: fuel_le_def add.commute)
qed

text \<open>
  C36: On metadata whose references go down some rank (nesting, inheritance, generic
  instances and members), the two readers return, with a depth of calls of at most twice the
  rank; and the result does not depend on the depth that is allowed.
\<close>

theorem GetTypeInfo_returns:
  assumes "ranked md rk" and "2 * rk tk + 1 < n"
  shows "GetTypeInfo n md tk \<noteq> NoFuel \<and> GetFunctionInfo n md tk \<noteq> NoFuel \<and>
    (\<forall>m. GetTypeInfo m md tk \<noteq> NoFuel \<longrightarrow> GetTypeInfo m md tk = GetTypeInfo n md tk)"
  using ranked_enough [OF assms(1), of tk n] assms(2) fuel_irrelevant by fastforce

section \<open>Soundness of the type information\<close>

text \<open>
  What a type information says of the metadata, at every level of it: an invalid one is
  empty of a token; a valid one names a definition or a reference, with the name the metadata
  has for it, is a value type exactly when it extends one of the two base classes, and
  carries the information of its parents.
\<close>

fun sound_info :: "MetaDataImport \<Rightarrow> TypeInfo \<Rightarrow> bool" where
  "sound_info md (TypeInfo tk nm spec tt ext vt gen par) \<longleftrightarrow>
     tk = 0 \<or>
     (TypeFromToken tk = token_tag mdtTypeDef \<and>
        (\<exists>hr len. GetTypeDefProps md tk = (hr, nm, len, case ext of None \<Rightarrow> mdTokenNil
            | Some e \<Rightarrow> snd (snd (snd (GetTypeDefProps md tk)))) \<and> \<not> FAILED hr \<and> len \<noteq> 0) \<and>
        (vt \<longleftrightarrow> (case ext of None \<Rightarrow> False | Some e \<Rightarrow> info_name e \<in> set value_type_names)) \<and>
        (par = None \<longleftrightarrow> GetNestedClassProps md tk = mdTokenNil) \<or>
      TypeFromToken tk = token_tag mdtTypeRef \<and>
        (\<exists>hr len. GetTypeRefProps md tk = (hr, nm, len) \<and> \<not> FAILED hr \<and> len \<noteq> 0) \<and>
        ext = None \<and> \<not> vt \<and> par = None) \<and>
     gen = name_is_generic nm \<and>
     (spec = token_tag mdtTypeSpec \<and> tt = TypeFromToken tk \<or>
      TypeFromToken spec = token_tag mdtTypeSpec \<and> tt = token_tag mdtTypeSpec) \<and>
     (case ext of None \<Rightarrow> True | Some e \<Rightarrow> sound_info md e) \<and>
     (case par of None \<Rightarrow> True | Some p \<Rightarrow> sound_info md p)"


lemma sound_no_TypeInfo: "sound_info md no_TypeInfo"
  by (simp add: no_TypeInfo_def)

lemma sound_spec:
  "sound_info md i \<Longrightarrow> TypeFromToken spec = token_tag mdtTypeSpec \<Longrightarrow>
   sound_info md (TypeInfo (type_id i) (info_name i) spec (token_tag mdtTypeSpec) (extend_from i)
     (valueType i) (isGeneric i) (parent_type i))"
  by (cases i) auto

lemma sound_new:
  assumes "TypeFromToken tk = token_tag mdtTypeDef" and "GetTypeDefProps md tk = (hr, nm, len, ext_tk)"
    and "ext = None \<longleftrightarrow> ext_tk = mdTokenNil" and "\<And>e. ext = Some e \<Longrightarrow> sound_info md e"
    and "par = None \<longleftrightarrow> GetNestedClassProps md tk = mdTokenNil" and "\<And>p. par = Some p \<Longrightarrow> sound_info md p"
  shows "sound_info md (new_TypeInfo tk hr nm len ext
    (case ext of None \<Rightarrow> False | Some e \<Rightarrow> info_name e \<in> set value_type_names) par)"
  using assms by (auto simp: new_TypeInfo_def sound_no_TypeInfo split: option.splits)

lemma body_sound:
  assumes t: "\<And>t i. rec_t t = Done i \<Longrightarrow> sound_info md i"
    and f: "\<And>t i. rec_f t = Done i \<Longrightarrow> sound_info md (fi_type i)"
  shows "GetTypeInfo_body md rec_t rec_f tk = Done i \<Longrightarrow> sound_info md i"
    and "GetFunctionInfo_body md rec_t rec_f tk = Done g \<Longrightarrow> sound_info md (fi_type g)"
proof -
  have none: "x = no_TypeInfo \<Longrightarrow> sound_info md x" for x by (simp add: sound_no_TypeInfo)
  show "GetFunctionInfo_body md rec_t rec_f tk = Done g \<Longrightarrow> sound_info md (fi_type g)"
    by (auto simp: GetFunctionInfo_body_def no_FunctionInfo_def sound_no_TypeInfo outcome_simps
        split: if_splits prod.splits intro: t)
  assume i: "GetTypeInfo_body md rec_t rec_f tk = Done i"
  have unless: "info_unless_nil rec_t t = Done x \<Longrightarrow> (x = None \<longleftrightarrow> t = mdTokenNil) \<and> (\<forall>e. x = Some e \<longrightarrow> sound_info md e)"
    for t x by (auto simp: info_unless_nil_def outcome_simps split: if_splits intro: t)
  show "sound_info md i"
  proof (cases "TypeFromToken tk = token_tag mdtTypeDef")
    case True
    obtain hr nm len ext_tk where p: "GetTypeDefProps md tk = (hr, nm, len, ext_tk)"
      by (cases "GetTypeDefProps md tk")
    from i True p obtain par ext where
      par: "info_unless_nil rec_t (GetNestedClassProps md tk) = Done par"
      and ext: "info_unless_nil rec_t ext_tk = Done ext"
      and new: "i = new_TypeInfo tk hr nm len ext
        (case ext of None \<Rightarrow> False | Some e \<Rightarrow> info_name e \<in> set value_type_names) par"
      by (auto simp: GetTypeInfo_body_def Let_def outcome_simps)
    show ?thesis unfolding new
      by (rule sound_new [OF True p]) (use unless [OF par] unless [OF ext] in simp_all)
  next
    case False
    note tags = GetTypeInfo_body_def new_TypeInfo_def
    consider (ref) "TypeFromToken tk = token_tag mdtTypeRef" | (spec) "TypeFromToken tk = token_tag mdtTypeSpec"
      | (member) "TypeFromToken tk = token_tag mdtMemberRef \<or> TypeFromToken tk = token_tag mdtMethodDef"
      | (other) "TypeFromToken tk \<notin> {token_tag mdtTypeRef, token_tag mdtTypeSpec, token_tag mdtMemberRef,
          token_tag mdtMethodDef}"
      by blast
    then show ?thesis
    proof cases
      case ref
      with i show ?thesis
        by (auto simp: tags sound_no_TypeInfo split: prod.splits if_splits)
    next
      case spec
      then have "i = no_TypeInfo \<or> (\<exists>t b. rec_t t = Done b \<and> i = TypeInfo (type_id b) (info_name b) tk
          (token_tag mdtTypeSpec) (extend_from b) (valueType b) (isGeneric b) (parent_type b))"
        using i by (auto simp: tags Let_def outcome_simps split: prod.splits if_splits)
      then show ?thesis using t sound_spec spec none by blast
    next
      case member
      then show ?thesis using i f by (auto simp: tags outcome_simps)
    next
      case other
      obtain a b c where "GetModuleRefProps md tk = (a, b, c)" by (cases "GetModuleRefProps md tk")
      with i False other have "i = no_TypeInfo"
        by (cases "TypeFromToken tk = token_tag mdtModuleRef") (simp_all add: tags)
      then show ?thesis by (rule none)
    qed
  qed
qed

lemma infos_sound:
  "GetTypeInfo n md tk = Done i \<Longrightarrow> sound_info md i"
  "GetFunctionInfo n md tk = Done g \<Longrightarrow> sound_info md (fi_type g)"
proof (induction n arbitrary: tk i g)
  case (Suc n)
  {
    case 1
    then show ?case unfolding GetTypeInfo_simps using Suc.IH by (rule body_sound(1) [rotated 2])
  next
    case 2
    then show ?case unfolding GetFunctionInfo_simps using Suc.IH by (rule body_sound(2) [rotated 2])
  }
qed (simp_all add: GetTypeInfo_simps GetFunctionInfo_simps)



text \<open>
  A reference to a module is never valid: its result code is dropped, and the initial
  \<^verbatim>\<open>E_FAIL\<close> is tested.
\<close>

lemma ModuleRef_invalid:
  "TypeFromToken tk = token_tag mdtModuleRef \<Longrightarrow> GetTypeInfo (Suc n) md tk = Done no_TypeInfo"
  by (simp add: GetTypeInfo_simps GetTypeInfo_body_def new_TypeInfo_def split: prod.splits)

text \<open>
  The test for a generic instance also holds for other specifications: an array of a class
  is given the identity and the name of the class of its elements.
\<close>

theorem GetTypeInfo_of_array:
  assumes "TypeFromToken tk = token_tag mdtTypeSpec" and "GetTypeSpecFromToken md tk = (S_OK, sig)"
    and "GetSignatureByteRepresentation sig =
      elt ELEMENT_TYPE_SZARRAY # elt ELEMENT_TYPE_CLASS # snd (CorSigCompressToken element)"
    and "TypeFromToken element \<in> set g_tkCorEncodeToken"
    and "GetTypeInfo n md element = Done i"
  shows "\<exists>j. GetTypeInfo (Suc n) md tk = Done j \<and> type_id j = type_id i \<and> info_name j = info_name i \<and>
    valueType j = valueType i"
proof -
  have "number_bytes (snd (CorSigCompressToken element)) (token_number element)"
    by (simp add: CompressToken_number CompressData_number token_number_le)
  then have t: "CorSigUncompressToken (snd (CorSigCompressToken element)) =
      Done (of_nat (length (snd (CorSigCompressToken element))), element)"
    and l: "snd (CorSigCompressToken element) \<noteq> []"
    using UncompressData_number [of "snd (CorSigCompressToken element)" "token_number element" "[]"] assms(4)
    by (auto simp: CorSigUncompressToken_def decode_token_number)
  then have "3 \<le> length (GetSignatureByteRepresentation sig)"
    using assms(3) by (cases "snd (CorSigCompressToken element)") auto
  then show ?thesis using assms t l
    by (simp add: GetTypeInfo_simps GetTypeInfo_body_def Let_def elt.simps)
qed

section \<open>Sample metadata\<close>

text \<open>A class, a generic structure nested in it, an instance of the structure and an array of the class.\<close>

definition blob_of :: "bytes \<Rightarrow> blob" where
  "blob_of bs = ((\<lambda>i. if i < length bs then bs ! i else 0), length bs)"

lemma blob_of_bytes [simp]: "GetSignatureByteRepresentation (blob_of bs) = bs"
  by (rule nth_equalityI) (simp_all add: GetSignatureByteRepresentation_def blob_of_def mem_slice_def)

definition sample_metadata :: MetaDataImport where
  "sample_metadata = \<lparr>
     GetTypeDefProps = (\<lambda>tk. if tk = 0x02000002 then (S_OK, WStr ''Outer'', 6, 0)
       else if tk = 0x02000003 then (S_OK, [0x50, tick, 0x31], 4, 0x01000001) else (E_FAIL, [], 0, 0)),
     GetNestedClassProps = (\<lambda>tk. if tk = 0x02000003 then 0x02000002 else 0),
     GetTypeRefProps = (\<lambda>tk. if tk = 0x01000001 then (S_OK, WStr ''System.ValueType'', 17) else (E_FAIL, [], 0)),
     GetTypeSpecFromToken = (\<lambda>tk. if tk = 0x1b000001 then (S_OK, blob_of [0x15, 0x11, 0x0c, 0x01, 0x08])
       else if tk = 0x1b000002 then (S_OK, blob_of [0x1d, 0x12, 0x08]) else (E_FAIL, blob_of [])),
     GetModuleRefProps = (\<lambda>tk. (E_FAIL, [], 0)),
     GetMemberRefProps = (\<lambda>tk. (E_FAIL, 0, [], 0, blob_of [])),
     GetMemberProps = (\<lambda>tk. if tk = 0x06000001 then (S_OK, 0x02000002, WStr ''Run'', 4, blob_of [0x20, 0x01, 0x01, 0x08])
       else (E_FAIL, 0, [], 0, blob_of [])),
     GetMethodSpecProps = (\<lambda>tk. (E_FAIL, 0, blob_of [])),
     meta_FindTypeDefByName = (\<lambda>nm tk. if nm = WStr ''Outer'' then (S_OK, 0x02000002) else (E_FAIL, 0)),
     EnumMethodsWithName = (\<lambda>tk nm. if nm = WStr ''Run'' then [(S_OK, [0x06000001])] else [])\<rparr>"

definition sample_rank :: "mdToken \<Rightarrow> nat" where
  "sample_rank tk =
     (if TypeFromToken tk = token_tag mdtMemberRef \<or> TypeFromToken tk = token_tag mdtMethodDef \<or>
         TypeFromToken tk = token_tag mdtMethodSpec then 3
      else if TypeFromToken tk = token_tag mdtTypeSpec then 2
      else if tk = 0x02000003 then 1 else 0)"

lemma sample_tokens:
  "CorSigUncompressToken [0x0c, 0x01, 0x08] = Done (1, 0x02000003)"
  "CorSigUncompressToken [0x08] = Done (1, 0x02000002)" "CorSigUncompressToken [] = Overread"
  by code_simp+

lemma sample_ranked: "ranked sample_metadata sample_rank"
  by (auto simp: ranked_def refers_def sample_metadata_def sample_rank_def sample_tokens TypeFromToken_def)

theorem GetTypeInfo_returns_witness: "GetTypeInfo 6 sample_metadata 0x1b000001 \<noteq> NoFuel"
  using GetTypeInfo_returns [OF sample_ranked, of "0x1b000001" 6]
  by (simp add: sample_rank_def TypeFromToken_def)

definition sample_outer :: TypeInfo where
  "sample_outer = TypeInfo 0x02000002 (WStr ''Outer'') 0x1b000000 0x02000000 None False False None"

lemma sample_outer_info: "GetTypeInfo 1 sample_metadata 0x02000002 = Done sample_outer"
  by code_simp

definition sample_point :: TypeInfo where
  "sample_point = TypeInfo 0x02000003 [0x50, tick, 0x31] 0x1b000001 0x1b000000
     (Some (TypeInfo 0x01000001 (WStr ''System.ValueType'') 0x1b000000 0x01000000 None False False None))
     True True (Some sample_outer)"

lemma sample_point_info: "GetTypeInfo 3 sample_metadata 0x1b000001 = Done sample_point"
  by code_simp


theorem GetTypeInfo_of_array_witness:
  "\<exists>j. GetTypeInfo (Suc 1) sample_metadata 0x1b000002 = Done j \<and> type_id j = type_id sample_outer \<and>
     info_name j = info_name sample_outer \<and> valueType j = valueType sample_outer"
proof (rule GetTypeInfo_of_array [OF _ _ _ _ sample_outer_info])
  show "GetTypeSpecFromToken sample_metadata 0x1b000002 = (S_OK, blob_of [0x1d, 0x12, 0x08])"
    by (simp add: sample_metadata_def)
  show "TypeFromToken 0x1b000002 = token_tag mdtTypeSpec" by code_simp
  show "TypeFromToken 0x02000002 \<in> set g_tkCorEncodeToken" by code_simp
  show "GetSignatureByteRepresentation (blob_of [0x1d, 0x12, 0x08]) =
      elt ELEMENT_TYPE_SZARRAY # elt ELEMENT_TYPE_CLASS # snd (CorSigCompressToken 0x02000002)"
    unfolding blob_of_bytes by code_simp
qed

end
