(* ===== verification/SigTypes.thy ===== *)
theory SigTypes
  imports ClrInfo TypeNames
begin

text \<open>
  The names of the types in a method signature (\<^verbatim>\<open>TryParseSignatureTypes\<close> of
  \<^verbatim>\<open>clr_helpers.cpp\<close>), by which a call site is compared with the target of an integration. The
  parser is one loop over the bytes with a stack of the generic arguments still to come. It
  returns false where it gives up and where an exception is thrown, both \<open>Reject\<close> here;
  \<open>Overread\<close> is a read behind the signature; \<open>NoFuel\<close> is the stack overflow of the type reader,
  or the loop over the enclosing types that does not end.
\<close>

section \<open>Numbers in names\<close>

text \<open>\<^verbatim>\<open>std::stoi\<close> on the end of a name, with its two exceptions.\<close>

definition is_space :: "u16 \<Rightarrow> bool" where
  "is_space c \<longleftrightarrow> c = 0x20 \<or> 9 \<le> c \<and> c \<le> 13"

definition stoi :: "wstring \<Rightarrow> int outcome" where
  "stoi s =
     (let s = dropWhile is_space s;
          minus = (s \<noteq> [] \<and> hd s = 0x2d);
          ds = takeWhile is_digit (if s \<noteq> [] \<and> (hd s = 0x2d \<or> hd s = 0x2b) then tl s else s);
          v = (if minus then - int (read_decimal ds) else int (read_decimal ds))
      in if ds = [] \<or> v < - (2 ^ 31) \<or> 2 ^ 31 \<le> v then Reject else Done v)"

text \<open>The text behind the last backquote, or all of the name.\<close>

definition behind_tick :: "wstring \<Rightarrow> wstring" where
  "behind_tick s = (case find_last (\<lambda>c. c = tick) s of None \<Rightarrow> s | Some i \<Rightarrow> drop (i + 1) s)"

section \<open>The parser\<close>

record SigTypes =
  current_index :: nat
  current_type_index :: nat
  type_names :: "wstring list"
  generic_arg_stack :: "int list"
  append_to_type :: wstring
  current_type_name :: wstring

definition piece_name :: "CorElementType \<Rightarrow> wstring option" where
  "piece_name e = (case e of
       ELEMENT_TYPE_VOID \<Rightarrow> Some (WStr ''System.Void'')
     | ELEMENT_TYPE_BOOLEAN \<Rightarrow> Some (WStr ''System.Boolean'')
     | ELEMENT_TYPE_CHAR \<Rightarrow> Some (WStr ''System.Char16'')
     | ELEMENT_TYPE_I1 \<Rightarrow> Some (WStr ''System.SByte'')
     | ELEMENT_TYPE_U1 \<Rightarrow> Some (WStr ''System.Byte'')
     | ELEMENT_TYPE_I2 \<Rightarrow> Some (WStr ''System.Int16'')
     | ELEMENT_TYPE_U2 \<Rightarrow> Some (WStr ''System.UInt16'')
     | ELEMENT_TYPE_I4 \<Rightarrow> Some (WStr ''System.Int32'')
     | ELEMENT_TYPE_U4 \<Rightarrow> Some (WStr ''System.UInt32'')
     | ELEMENT_TYPE_I8 \<Rightarrow> Some (WStr ''System.Int64'')
     | ELEMENT_TYPE_U8 \<Rightarrow> Some (WStr ''System.UInt64'')
     | ELEMENT_TYPE_R4 \<Rightarrow> Some (WStr ''System.Single'')
     | ELEMENT_TYPE_R8 \<Rightarrow> Some (WStr ''System.Double'')
     | ELEMENT_TYPE_STRING \<Rightarrow> Some (WStr ''System.String'')
     | ELEMENT_TYPE_OBJECT \<Rightarrow> Some (WStr ''System.Object'')
     | ELEMENT_TYPE_BYREF \<Rightarrow> Some (WStr ''ref'')
     | _ \<Rightarrow> None)"

text \<open>
  The enclosing type of a type: the variable is not initialised, so where the call leaves it
  alone its value is what the memory \<open>held\<close>.
\<close>

definition potentialParentToken :: "MetaDataImport \<Rightarrow> mdToken \<Rightarrow> mdToken \<Rightarrow> mdToken" where
  "potentialParentToken metadata_import held token =
     (let parent = GetNestedClassProps metadata_import token in if parent = mdTokenNil then held else parent)"

definition dot :: u16 where "dot = 0x2e"

text \<open>The name of a type behind those it is nested in; the last argument is the name so far.\<close>

primrec nested_name :: "nat \<Rightarrow> nat \<Rightarrow> MetaDataImport \<Rightarrow> mdToken \<Rightarrow> mdToken \<Rightarrow> wstring \<Rightarrow> wstring \<Rightarrow> wstring outcome" where
  "nested_name 0 fuel metadata_import held examined_token examined_name ongoing_name = NoFuel"
| "nested_name (Suc rounds) fuel metadata_import held examined_token examined_name ongoing_name =
     (if dot \<in> set examined_name then Done ongoing_name
      else let parent = potentialParentToken metadata_import held examined_token in
        if parent = mdTokenNil then Done ongoing_name
        else obind (GetTypeInfo fuel metadata_import parent) (\<lambda>nesting_type.
          nested_name rounds fuel metadata_import held (type_id nesting_type) (info_name nesting_type)
            (info_name nesting_type @ WStr ''+'' @ ongoing_name)))"

definition RetrieveTypeForSignature :: "nat \<Rightarrow> MetaDataImport \<Rightarrow> bytes \<Rightarrow> nat \<Rightarrow> (TypeInfo \<times> u32) outcome" where
  "RetrieveTypeForSignature fuel metadata_import sig index =
     obind (CorSigUncompressToken (drop index sig)) (\<lambda>(token_length, type_token).
     obind (GetTypeInfo fuel metadata_import type_token) (\<lambda>type_data. Done (type_data, token_length)))"

text \<open>The further dimensions of an array of arrays.\<close>

function array_ranks :: "bytes \<Rightarrow> nat \<Rightarrow> wstring \<Rightarrow> (nat \<times> wstring) outcome" where
  "array_ranks sig index ranks =
     obind (at_index sig (Suc index)) (\<lambda>b.
       if b = elt ELEMENT_TYPE_SZARRAY then array_ranks sig (Suc index) (ranks @ WStr ''[]'') else Done (index, ranks))"
  by pat_completeness auto
termination
  by (relation "measure (\<lambda>(sig, index, ranks). length sig - index)") (auto simp: at_index_def split: if_splits)

declare array_ranks.simps [simp del]

text \<open>The cases of the switch: the state behind them, and whether the rest of the loop's body is run.\<close>

definition name_piece :: "wstring \<Rightarrow> SigTypes \<Rightarrow> (bool \<times> SigTypes) outcome" where
  "name_piece s st = Done (True, st \<lparr>current_type_name := current_type_name st @ s\<rparr>)"

definition named_piece :: "nat \<Rightarrow> MetaDataImport \<Rightarrow> mdToken \<Rightarrow> bytes \<Rightarrow> SigTypes \<Rightarrow> (bool \<times> SigTypes) outcome" where
  "named_piece fuel metadata_import held sig st =
     (let i = current_index st + 1 in
      obind (RetrieveTypeForSignature fuel metadata_import sig i) (\<lambda>(type_data, token_length).
      obind (nested_name fuel fuel metadata_import held (type_id type_data) (info_name type_data) (info_name type_data)) (\<lambda>s.
        name_piece s (st \<lparr>current_index := i + unat (token_length - 1)\<rparr>))))"

definition array_piece :: "bytes \<Rightarrow> SigTypes \<Rightarrow> (bool \<times> SigTypes) outcome" where
  "array_piece sig st =
     obind (array_ranks sig (current_index st) (append_to_type st @ WStr ''[]'')) (\<lambda>(i, ranks).
       Done (False, st \<lparr>current_index := i, append_to_type := ranks\<rparr>))"

definition variable_piece :: "bytes \<Rightarrow> SigTypes \<Rightarrow> (bool \<times> SigTypes) outcome" where
  "variable_piece sig st =
     obind (CorSigUncompressToken (drop (current_index st) sig)) (\<lambda>(token_length, type_token).
       name_piece (WStr ''T'') (st \<lparr>current_index := current_index st + unat token_length\<rparr>))"

definition generic_piece :: "nat \<Rightarrow> MetaDataImport \<Rightarrow> bytes \<Rightarrow> SigTypes \<Rightarrow> (bool \<times> SigTypes) outcome" where
  "generic_piece fuel metadata_import sig st =
     (let i = current_index st + 2 in
      obind (RetrieveTypeForSignature fuel metadata_import sig i) (\<lambda>(type_data, token_length).
      obind (stoi (behind_tick (info_name type_data))) (\<lambda>actual_arg_count.
        Done (False, st \<lparr>current_type_name := current_type_name st @ info_name type_data @ WStr ''<'',
          generic_arg_stack := actual_arg_count # (case generic_arg_stack st of [] \<Rightarrow> [] | k # s \<Rightarrow> (k - 1) # s),
          current_index := i + unat token_length\<rparr>))))"

definition sig_switch :: "nat \<Rightarrow> MetaDataImport \<Rightarrow> mdToken \<Rightarrow> bytes \<Rightarrow> SigTypes \<Rightarrow> (bool \<times> SigTypes) outcome" where
  "sig_switch fuel metadata_import held sig st =
     obind (at_index sig (current_index st)) (\<lambda>param_piece.
     let other = name_piece (to_string (unat param_piece)) st in
     case to_elt param_piece of None \<Rightarrow> other | Some e \<Rightarrow>
     if e = ELEMENT_TYPE_VALUETYPE \<or> e = ELEMENT_TYPE_CLASS then named_piece fuel metadata_import held sig st
     else if e = ELEMENT_TYPE_SZARRAY then array_piece sig st
     else if e = ELEMENT_TYPE_MVAR \<or> e = ELEMENT_TYPE_VAR then variable_piece sig st
     else if e = ELEMENT_TYPE_GENERICINST then generic_piece fuel metadata_import sig st
     else if e = ELEMENT_TYPE_END then Done (False, st)
     else (case piece_name e of Some s \<Rightarrow> name_piece s st | None \<Rightarrow> other))"

text \<open>The generics with no arguments left.\<close>

primrec unwind :: "int list \<Rightarrow> wstring \<times> int list" where
  "unwind [] = ([], [])"
| "unwind (k # s) =
     (if k = 0 then (WStr ''>'' @ (if s \<noteq> [] \<and> hd s > 0 then WStr '', '' else []) @ fst (unwind s), snd (unwind s))
      else ([], k # s))"

definition end_of_piece :: "nat \<Rightarrow> SigTypes \<Rightarrow> SigTypes outcome" where
  "end_of_piece expected st =
     (let st = st \<lparr>current_type_name := current_type_name st @ append_to_type st, append_to_type := []\<rparr>;
          st = (case generic_arg_stack st of [] \<Rightarrow> st
            | k # s \<Rightarrow> st \<lparr>generic_arg_stack := (k - 1) # s,
                current_type_name := current_type_name st @ (if k - 1 > 0 then WStr '', '' else [])\<rparr>);
          (closing, s) = unwind (generic_arg_stack st);
          st = st \<lparr>generic_arg_stack := s, current_type_name := current_type_name st @ closing\<rparr>
      in if s \<noteq> [] then Done st
         else if current_type_index st \<ge> expected then Reject
         else Done (st \<lparr>type_names := (type_names st) [current_type_index st := current_type_name st],
           current_type_name := [], current_type_index := current_type_index st + 1\<rparr>))"

definition sig_step :: "nat \<Rightarrow> MetaDataImport \<Rightarrow> mdToken \<Rightarrow> bytes \<Rightarrow> nat \<Rightarrow> SigTypes \<Rightarrow> SigTypes outcome" where
  "sig_step fuel metadata_import held sig expected st =
     obind (sig_switch fuel metadata_import held sig st) (\<lambda>(piece, st). if piece then end_of_piece expected st else Done st)"

lemma array_ranks_index: "array_ranks sig i r = Done (j, r') \<Longrightarrow> i \<le> j"
proof (induction sig i r rule: array_ranks.induct)
  case (1 sig i r)
  then show ?case unfolding array_ranks.simps [of sig i r] by (fastforce simp: outcome_simps split: if_splits)
qed

lemma end_of_piece_index: "end_of_piece n st = Done st' \<Longrightarrow> current_index st' = current_index st"
  by (auto simp: end_of_piece_def Let_def split: prod.splits list.splits if_splits)

lemma piece_index:
  "name_piece s st = Done (b, st') \<Longrightarrow> current_index st' = current_index st"
  "named_piece fuel md held sig st = Done (b, st') \<Longrightarrow> current_index st \<le> current_index st'"
  "array_piece sig st = Done (b, st') \<Longrightarrow> current_index st \<le> current_index st'"
  "variable_piece sig st = Done (b, st') \<Longrightarrow> current_index st \<le> current_index st'"
  "generic_piece fuel md sig st = Done (b, st') \<Longrightarrow> current_index st \<le> current_index st'"
  by (auto simp: name_piece_def named_piece_def array_piece_def variable_piece_def generic_piece_def outcome_simps Let_def
      dest: array_ranks_index)

lemma sig_switch_index:
  assumes "sig_switch fuel md held sig st = Done (b, st')"
  shows "current_index st \<le> current_index st'"
proof -
  let ?p = "sig ! current_index st"
  have s: "(case to_elt ?p of None \<Rightarrow> name_piece (to_string (unat ?p)) st | Some e \<Rightarrow>
     if e = ELEMENT_TYPE_VALUETYPE \<or> e = ELEMENT_TYPE_CLASS then named_piece fuel md held sig st
     else if e = ELEMENT_TYPE_SZARRAY then array_piece sig st
     else if e = ELEMENT_TYPE_MVAR \<or> e = ELEMENT_TYPE_VAR then variable_piece sig st
     else if e = ELEMENT_TYPE_GENERICINST then generic_piece fuel md sig st
     else if e = ELEMENT_TYPE_END then Done (False, st)
     else (case piece_name e of Some s \<Rightarrow> name_piece s st | None \<Rightarrow> name_piece (to_string (unat ?p)) st)) = Done (b, st')"
    using assms by (simp add: sig_switch_def Let_def at_index_def split: if_splits)
  show ?thesis
    using s piece_index by (cases "to_elt ?p"; cases "piece_name (the (to_elt ?p))") (fastforce split: if_splits)+
qed

lemma sig_step_index:
  assumes "sig_step fuel md held sig n st = Done st'"
  shows "current_index st \<le> current_index st'"
proof -
  obtain piece st1 where s: "sig_switch fuel md held sig st = Done (piece, st1)"
    and e: "(if piece then end_of_piece n st1 else Done st1) = Done st'"
    using assms by (auto simp: sig_step_def outcome_simps)
  have "current_index st' = current_index st1" using e end_of_piece_index by (auto split: if_splits)
  then show ?thesis using sig_switch_index [OF s] by simp
qed

function sig_loop :: "nat \<Rightarrow> MetaDataImport \<Rightarrow> mdToken \<Rightarrow> bytes \<Rightarrow> nat \<Rightarrow> SigTypes \<Rightarrow> SigTypes outcome" where
  "sig_loop fuel metadata_import held sig expected st =
     (if current_index st < length sig
      then obind (sig_step fuel metadata_import held sig expected st) (\<lambda>st.
        sig_loop fuel metadata_import held sig expected (st \<lparr>current_index := current_index st + 1\<rparr>))
      else Done st)"
  by pat_completeness auto
termination
  by (relation "measure (\<lambda>(fuel, md, held, sig, n, st). length sig - current_index st)") (auto dest!: sig_step_index)

declare sig_loop.simps [simp del]

definition TryParseSignatureTypes :: "nat \<Rightarrow> MetaDataImport \<Rightarrow> mdToken \<Rightarrow> FunctionInfo \<Rightarrow> wstring list outcome" where
  "TryParseSignatureTypes fuel metadata_import held function_info =
     (let signature = fi_signature function_info;
          start = (if NumberOfTypeArguments signature > 0 then 3 else 2);
          expected = unat (NumberOfArguments signature) + 1
      in obind (sig_loop fuel metadata_import held (data signature) expected
           \<lparr>current_index = start, current_type_index = 0, type_names = replicate expected [], generic_arg_stack = [],
            append_to_type = [], current_type_name = []\<rparr>)
         (\<lambda>st. Done (type_names st)))"

section \<open>The names of well-formed types\<close>

text \<open>
  The types the parser reads: primitives with a name, named types, variables with a number below
  128, generic types with up to 127 arguments, and arrays of those that are not generic.
\<close>

fun generic_base :: "sigtype \<Rightarrow> bool" where
  "generic_base (GenericInst k tk ts) \<longleftrightarrow> True"
| "generic_base (SzArray t) \<longleftrightarrow> generic_base t"
| "generic_base t \<longleftrightarrow> False"

text \<open>The result of a reader that returned.\<close>

definition result_is :: "'a outcome \<Rightarrow> ('a \<Rightarrow> bool) \<Rightarrow> bool" where
  "result_is m P \<longleftrightarrow> (case m of Done x \<Rightarrow> P x | _ \<Rightarrow> False)"

lemma result_is_iff [simp]: "result_is m P \<longleftrightarrow> (\<exists>x. m = Done x \<and> P x)"
  by (cases m) (simp_all add: result_is_def)

fun readable_type :: "nat \<Rightarrow> MetaDataImport \<Rightarrow> mdToken \<Rightarrow> (mdToken \<Rightarrow> wstring) \<Rightarrow> sigtype \<Rightarrow> bool" where
  "readable_type fuel md held tn (Prim e) \<longleftrightarrow> e \<noteq> ELEMENT_TYPE_BYREF \<and> piece_name e \<noteq> None"
| "readable_type fuel md held tn (Named k tk) \<longleftrightarrow> k \<in> {ELEMENT_TYPE_CLASS, ELEMENT_TYPE_VALUETYPE} \<and>
     TypeFromToken tk \<in> set g_tkCorEncodeToken \<and> result_is (GetTypeInfo fuel md tk) (\<lambda>i.
       nested_name fuel fuel md held (type_id i) (info_name i) (info_name i) = Done (tn tk))"
| "readable_type fuel md held tn (SzArray t) \<longleftrightarrow> readable_type fuel md held tn t \<and> \<not> generic_base t"
| "readable_type fuel md held tn (GenericInst k tk ts) \<longleftrightarrow> TypeFromToken tk \<in> set g_tkCorEncodeToken \<and>
     ts \<noteq> [] \<and> length ts \<le> 0x7F \<and> result_is (GetTypeInfo fuel md tk) (\<lambda>i. info_name i = tn tk) \<and>
     stoi (behind_tick (tn tk)) = Done (int (length ts)) \<and> (\<forall>t\<in>set ts. readable_type fuel md held tn t)"
| "readable_type fuel md held tn (Var n) \<longleftrightarrow> n \<le> 0x7F"
| "readable_type fuel md held tn (MVar n) \<longleftrightarrow> n \<le> 0x7F"

fun comma_list :: "wstring list \<Rightarrow> wstring" where
  "comma_list [] = []"
| "comma_list [s] = s"
| "comma_list (s # ss) = s @ WStr '', '' @ comma_list ss"

fun sig_name :: "(mdToken \<Rightarrow> wstring) \<Rightarrow> sigtype \<Rightarrow> wstring" where
  "sig_name tn (Prim e) = (case piece_name e of Some s \<Rightarrow> s | None \<Rightarrow> [])"
| "sig_name tn (Named k tk) = tn tk"
| "sig_name tn (SzArray t) = sig_name tn t @ WStr ''[]''"
| "sig_name tn (GenericInst k tk ts) = tn tk @ WStr ''<'' @ comma_list (map (sig_name tn) ts) @ WStr ''>''"
| "sig_name tn (Var n) = WStr ''T''"
| "sig_name tn (MVar n) = WStr ''T''"

abbreviation sig_state :: "nat \<Rightarrow> nat \<Rightarrow> wstring list \<Rightarrow> int list \<Rightarrow> wstring \<Rightarrow> wstring \<Rightarrow> SigTypes" where
  "sig_state i c ns s a m \<equiv> \<lparr>current_index = i, current_type_index = c, type_names = ns, generic_arg_stack = s,
     append_to_type = a, current_type_name = m\<rparr>"

text \<open>The end of a piece, on the stack without the argument that was read.\<close>

definition one_less :: "int list \<Rightarrow> int list" where
  "one_less s = (case s of [] \<Rightarrow> [] | k # s \<Rightarrow> (k - 1) # s)"

definition settle :: "int list \<Rightarrow> wstring \<times> int list" where
  "settle s = ((case s of [] \<Rightarrow> [] | k # _ \<Rightarrow> if k > 0 then WStr '', '' else []) @ fst (unwind s), snd (unwind s))"

definition conclude :: "nat \<Rightarrow> nat \<Rightarrow> nat \<Rightarrow> wstring list \<Rightarrow> int list \<Rightarrow> wstring \<Rightarrow> SigTypes outcome" where
  "conclude n i c ns s m =
     (if snd (settle s) \<noteq> [] then Done (sig_state i c ns (snd (settle s)) [] (m @ fst (settle s)))
      else if c \<ge> n then Reject else Done (sig_state i (c + 1) (ns [c := m @ fst (settle s)]) [] [] []))"

lemma end_of_piece_conclude: "end_of_piece n (sig_state i c ns s a m) = conclude n i c ns (one_less s) (m @ a)"
  by (cases s) (auto simp: end_of_piece_def conclude_def settle_def one_less_def Let_def split_def)

lemma conclude_last: "conclude n i c ns (0 # s) m = conclude n i c ns s (m @ WStr ''>'')"
  by (cases s) (simp_all add: conclude_def settle_def)

lemma conclude_more: "k > 0 \<Longrightarrow> conclude n i c ns (k # s) m = Done (sig_state i c ns (k # s) [] (m @ WStr '', ''))"
  by (simp add: conclude_def settle_def)

lemma conclude_type: "c < n \<Longrightarrow> conclude n i c ns [] m = Done (sig_state i (c + 1) (ns [c := m]) [] [] [])"
  by (simp add: conclude_def settle_def)

lemma uncompress_token:
  assumes "TypeFromToken tk \<in> set g_tkCorEncodeToken"
  shows "CorSigUncompressToken (snd (CorSigCompressToken tk) @ r) = Done (of_nat (length (snd (CorSigCompressToken tk))), tk)"
    and "unat (of_nat (length (snd (CorSigCompressToken tk))) :: u32) = length (snd (CorSigCompressToken tk))"
    and "length (snd (CorSigCompressToken tk)) > 0"
proof -
  have n: "number_bytes (snd (CorSigCompressToken tk)) (token_number tk)"
    using CompressData_number(1) [OF token_number_le] by (simp add: CompressToken_number)
  show "CorSigUncompressToken (snd (CorSigCompressToken tk) @ r) = Done (of_nat (length (snd (CorSigCompressToken tk))), tk)"
    using UncompressData_number [OF n] decode_encodable [OF assms] by (simp add: CorSigUncompressToken_def)
  show "unat (of_nat (length (snd (CorSigCompressToken tk))) :: u32) = length (snd (CorSigCompressToken tk))"
    using unat_small_length [OF n] .
  show "length (snd (CorSigCompressToken tk)) > 0" using number_bytes_length [OF n] by auto
qed

lemma drop_next: "drop i sig = x @ r \<Longrightarrow> drop (i + length x) sig = r"
  by (metis add.commute append_eq_conv_conj drop_drop)

lemma nth_head: "drop i sig = b # r \<Longrightarrow> i < length sig \<and> sig ! i = b"
  by (metis drop_eq_Nil2 hd_drop_conv_nth leI list.sel(1) list.simps(3))

lemma loop_head:
  assumes "drop i sig = b # r"
  shows "sig_loop fuel md held sig n (sig_state i c ns s a m) =
    obind (sig_step fuel md held sig n (sig_state i c ns s a m)) (\<lambda>st.
      sig_loop fuel md held sig n (st \<lparr>current_index := current_index st + 1\<rparr>))"
  using nth_head [OF assms] by (subst sig_loop.simps) simp

lemma step_head:
  assumes "drop i sig = elt e # r"
  shows "sig_step fuel md held sig n (sig_state i c ns s a m) =
    obind (if e = ELEMENT_TYPE_VALUETYPE \<or> e = ELEMENT_TYPE_CLASS then named_piece fuel md held sig (sig_state i c ns s a m)
     else if e = ELEMENT_TYPE_SZARRAY then array_piece sig (sig_state i c ns s a m)
     else if e = ELEMENT_TYPE_MVAR \<or> e = ELEMENT_TYPE_VAR then variable_piece sig (sig_state i c ns s a m)
     else if e = ELEMENT_TYPE_GENERICINST then generic_piece fuel md sig (sig_state i c ns s a m)
     else if e = ELEMENT_TYPE_END then Done (False, sig_state i c ns s a m)
     else (case piece_name e of Some t \<Rightarrow> name_piece t (sig_state i c ns s a m)
       | None \<Rightarrow> name_piece (to_string (unat (elt e))) (sig_state i c ns s a m)))
    (\<lambda>(piece, st). if piece then end_of_piece n st else Done st)"
  using nth_head [OF assms] by (simp add: sig_step_def sig_switch_def at_index_def Let_def)

text \<open>A type that is not generic, behind the dimensions \<open>a\<close> of an array.\<close>

abbreviation loop_on :: "nat \<Rightarrow> MetaDataImport \<Rightarrow> mdToken \<Rightarrow> bytes \<Rightarrow> nat \<Rightarrow> nat \<Rightarrow> nat \<Rightarrow> nat \<Rightarrow> wstring list \<Rightarrow> int list \<Rightarrow> wstring \<Rightarrow> SigTypes outcome" where
  "loop_on fuel md held sig n i l c ns s m \<equiv>
     obind (conclude n (i + l - 1) c ns (one_less s) m) (\<lambda>st.
       sig_loop fuel md held sig n (st \<lparr>current_index := current_index st + 1\<rparr>))"

lemma leaf_loop:
  assumes "drop i sig = encode t @ r" and "readable_type fuel md held tn t" and "\<not> generic_base t" and "\<forall>u. t \<noteq> SzArray u"
  shows "sig_loop fuel md held sig n (sig_state i c ns s a m) = loop_on fuel md held sig n i (length (encode t)) c ns s (m @ sig_name tn t @ a)"
proof (cases t)
  case (Prim e)
  then have d: "drop i sig = elt e # r" and e: "e \<noteq> ELEMENT_TYPE_BYREF" "piece_name e \<noteq> None" using assms by simp_all
  have "e \<notin> {ELEMENT_TYPE_VALUETYPE, ELEMENT_TYPE_CLASS, ELEMENT_TYPE_SZARRAY, ELEMENT_TYPE_MVAR, ELEMENT_TYPE_VAR,
      ELEMENT_TYPE_GENERICINST, ELEMENT_TYPE_END}" using e by (auto simp: piece_name_def)
  then show ?thesis using e
    by (auto simp: loop_head [OF d] step_head [OF d] name_piece_def end_of_piece_conclude Prim)
next
  case (Named k tk)
  then have k: "k \<in> {ELEMENT_TYPE_CLASS, ELEMENT_TYPE_VALUETYPE}" and tk: "TypeFromToken tk \<in> set g_tkCorEncodeToken"
    and d: "drop i sig = elt k # snd (CorSigCompressToken tk) @ r" using assms by auto
  obtain j where j: "GetTypeInfo fuel md tk = Done j" "nested_name fuel fuel md held (type_id j) (info_name j) (info_name j) = Done (tn tk)"
    using assms(2) Named by auto
  note U = uncompress_token [OF tk]
  have d1: "drop (Suc i) sig = snd (CorSigCompressToken tk) @ r" using drop_next [of i sig "[elt k]"] d by simp
  let ?l = "length (snd (CorSigCompressToken tk))"
  have "(1 :: u32) \<le> of_nat ?l" unfolding word_le_nat_alt U(2) using U(3) by (simp add: Suc_le_eq)
  then have "unat ((of_nat ?l :: u32) - 1) = ?l - 1" using U(2) by (simp add: unat_sub)
  then have "named_piece fuel md held sig (sig_state i c ns s a m) = Done (True, sig_state (i + ?l) c ns s a (m @ tn tk))"
    using U(3) by (simp add: named_piece_def RetrieveTypeForSignature_def Let_def d1 U(1) j name_piece_def)
  then show ?thesis using k by (auto simp: loop_head [OF d] step_head [OF d] end_of_piece_conclude Named)
next
  case (Var v)
  then have v: "v \<le> 0x7F" and d: "drop i sig = elt ELEMENT_TYPE_VAR # snd (CorSigCompressData v) @ r" using assms by simp_all
  have "snd (CorSigCompressData v) = [ucast v]" using v by (simp add: CorSigCompressData_def)
  moreover have "CorSigUncompressToken (elt ELEMENT_TYPE_VAR # x) = Done (1, decode_token 0x13)" for x
    by (simp add: CorSigUncompressToken_def UncompressData_one elt_def)
  ultimately show ?thesis
    by (simp add: loop_head [OF d] step_head [OF d] variable_piece_def d name_piece_def end_of_piece_conclude Var)
next
  case (MVar v)
  then have v: "v \<le> 0x7F" and d: "drop i sig = elt ELEMENT_TYPE_MVAR # snd (CorSigCompressData v) @ r" using assms by simp_all
  have "snd (CorSigCompressData v) = [ucast v]" using v by (simp add: CorSigCompressData_def)
  moreover have "CorSigUncompressToken (elt ELEMENT_TYPE_MVAR # x) = Done (1, decode_token 0x1e)" for x
    by (simp add: CorSigUncompressToken_def UncompressData_one elt_def)
  ultimately show ?thesis
    by (simp add: loop_head [OF d] step_head [OF d] variable_piece_def d name_piece_def end_of_piece_conclude MVar)
qed (use assms in auto)

text \<open>An array is read with all its dimensions at once.\<close>

fun ranks :: "sigtype \<Rightarrow> nat" where
  "ranks (SzArray t) = Suc (ranks t)"
| "ranks t = 0"

fun base_type :: "sigtype \<Rightarrow> sigtype" where
  "base_type (SzArray t) = base_type t"
| "base_type t = t"

definition brackets :: "nat \<Rightarrow> wstring" where
  "brackets k = concat (replicate k (WStr ''[]''))"

lemma brackets_simps: "brackets 0 = []" "brackets (Suc k) = brackets k @ WStr ''[]''"
  unfolding brackets_def by (simp_all add: replicate_append_same [symmetric])

lemma brackets_Cons: "WStr ''[]'' @ brackets k = brackets k @ WStr ''[]''"
  by (induction k) (simp_all add: brackets_simps)

lemma array_type:
  "encode t = replicate (ranks t) (elt ELEMENT_TYPE_SZARRAY) @ encode (base_type t)"
  "sig_name tn t = sig_name tn (base_type t) @ brackets (ranks t)" "\<forall>u. base_type t \<noteq> SzArray u"
  "readable_type fuel md held tn t \<Longrightarrow> readable_type fuel md held tn (base_type t)" "generic_base (base_type t) = generic_base t"
  by (induction t) (auto simp: brackets_simps)

lemma array_ranks_all:
  assumes "drop (Suc i) sig = replicate k (elt ELEMENT_TYPE_SZARRAY) @ b # r" and "b \<noteq> elt ELEMENT_TYPE_SZARRAY"
  shows "array_ranks sig i a = Done (i + k, a @ brackets k)"
  using assms
proof (induction k arbitrary: i a)
  case 0
  then show ?case using nth_head [of "Suc i" sig b r]
    by (subst array_ranks.simps) (simp add: at_index_def brackets_def)
next
  case (Suc k)
  then have d: "drop (Suc i) sig = elt ELEMENT_TYPE_SZARRAY # replicate k (elt ELEMENT_TYPE_SZARRAY) @ b # r" by simp
  have "drop (Suc (Suc i)) sig = replicate k (elt ELEMENT_TYPE_SZARRAY) @ b # r"
    using drop_next [of "Suc i" sig "[elt ELEMENT_TYPE_SZARRAY]"] d by simp
  from Suc.IH [OF this Suc.prems(2), of "a @ WStr ''[]''"] show ?case
    using nth_head [OF d] by (subst array_ranks.simps) (simp add: at_index_def brackets_def)
qed

lemma encode_head:
  assumes "\<forall>u. t \<noteq> SzArray u" and "readable_type fuel md held tn t"
  obtains b r where "encode t = b # r" and "b \<noteq> elt ELEMENT_TYPE_SZARRAY"
proof -
  have "e \<noteq> ELEMENT_TYPE_SZARRAY" if "piece_name e \<noteq> None" for e using that by (auto simp: piece_name_def)
  then show ?thesis using assms that by (cases t) auto
qed

lemma plain_loop:
  assumes "drop i sig = encode t @ r" and "readable_type fuel md held tn t" and "\<not> generic_base t"
  shows "sig_loop fuel md held sig n (sig_state i c ns s [] m) = loop_on fuel md held sig n i (length (encode t)) c ns s (m @ sig_name tn t)"
proof (cases "ranks t")
  case 0
  then have "base_type t = t" by (cases t) simp_all
  then show ?thesis using leaf_loop [OF assms] array_type(3) [where t = t] by simp
next
  case (Suc k)
  let ?b = "base_type t" and ?sz = "elt ELEMENT_TYPE_SZARRAY"
  note A = array_type [where t = t]
  have base: "readable_type fuel md held tn ?b" "\<not> generic_base ?b" "\<forall>u. ?b \<noteq> SzArray u" using A(3,4,5) assms by auto
  obtain b x where b: "encode ?b = b # x" "b \<noteq> ?sz" by (rule encode_head [OF base(3,1)])
  have d: "drop i sig = ?sz # replicate k ?sz @ b # (x @ r)" using assms(1) b(1) A(1) Suc by simp
  have d1: "drop (Suc i) sig = replicate k ?sz @ b # (x @ r)" using drop_next [of i sig "[?sz]"] d by simp
  have d2: "drop (i + k + 1) sig = encode ?b @ r" using drop_next [OF d1] b(1) by (simp add: add.commute add.left_commute)
  have "array_piece sig (sig_state i c ns s [] m) = Done (False, sig_state (i + k) c ns s (brackets (Suc k)) m)"
    by (simp add: array_piece_def array_ranks_all [OF d1 b(2)] brackets_def)
  then have "sig_loop fuel md held sig n (sig_state i c ns s [] m) =
      sig_loop fuel md held sig n (sig_state (i + k + 1) c ns s (brackets (Suc k)) m)"
    by (simp add: loop_head [OF d] step_head [OF d])
  also have "\<dots> = loop_on fuel md held sig n (i + k + 1) (length (encode ?b)) c ns s (m @ sig_name tn ?b @ brackets (Suc k))"
    by (rule leaf_loop [OF d2 base])
  finally show ?thesis using A(1,2) Suc by (simp add: add.assoc)
qed

text \<open>The arguments of a generic type, and any type.\<close>

lemma args_loop:
  assumes "\<And>t i c ns s m r. t \<in> set ts \<Longrightarrow> drop i sig = encode t @ r \<Longrightarrow>
      sig_loop fuel md held sig n (sig_state i c ns s [] m) = loop_on fuel md held sig n i (length (encode t)) c ns s (m @ sig_name tn t)"
    and "ts \<noteq> []" and "drop i sig = concat (map encode ts) @ r" and "\<And>t. t \<in> set ts \<Longrightarrow> encode t \<noteq> []"
  shows "sig_loop fuel md held sig n (sig_state i c ns (int (length ts) # s) [] m) =
    obind (conclude n (i + length (concat (map encode ts)) - 1) c ns s (m @ comma_list (map (sig_name tn) ts) @ WStr ''>''))
      (\<lambda>st. sig_loop fuel md held sig n (st \<lparr>current_index := current_index st + 1\<rparr>))"
  using assms
proof (induction ts arbitrary: i m)
  case (Cons t ts)
  have d: "drop i sig = encode t @ concat (map encode ts) @ r" using Cons.prems(3) by simp
  have one: "sig_loop fuel md held sig n (sig_state i c ns (int (length (t # ts)) # s) [] m) =
      loop_on fuel md held sig n i (length (encode t)) c ns (int (length (t # ts)) # s) (m @ sig_name tn t)"
    using Cons.prems(1) d by simp
  have len: "length (encode t) > 0" using Cons.prems(4) by simp
  show ?case
  proof (cases ts)
    case Nil
    then show ?thesis unfolding one by (simp add: one_less_def conclude_last)
  next
    case (Cons u us)
    then have pos: "int (length ts) > 0" by simp
    have "sig_loop fuel md held sig n (sig_state i c ns (int (length (t # ts)) # s) [] m) =
        sig_loop fuel md held sig n (sig_state (i + length (encode t)) c ns (int (length ts) # s) [] (m @ sig_name tn t @ WStr '', ''))"
      unfolding one using len by (simp add: one_less_def conclude_more [OF pos])
    also have "\<dots> = obind (conclude n (i + length (encode t) + length (concat (map encode ts)) - 1) c ns s
        ((m @ sig_name tn t @ WStr '', '') @ comma_list (map (sig_name tn) ts) @ WStr ''>''))
      (\<lambda>st. sig_loop fuel md held sig n (st \<lparr>current_index := current_index st + 1\<rparr>))"
      using Cons.prems(1,4) Cons drop_next [OF d] by (intro Cons.IH) auto
    finally show ?thesis using Cons by (simp add: add.assoc)
  qed
qed simp

lemma readable_not_Nil: "readable_type fuel md held tn t \<Longrightarrow> encode t \<noteq> []"
  by (cases t) auto

lemma type_loop:
  assumes "drop i sig = encode t @ r" and "readable_type fuel md held tn t"
  shows "sig_loop fuel md held sig n (sig_state i c ns s [] m) = loop_on fuel md held sig n i (length (encode t)) c ns s (m @ sig_name tn t)"
  using assms
proof (induction t arbitrary: i c ns s m r)
  case (GenericInst k tk ts)
  let ?tok = "snd (CorSigCompressToken tk)"
  obtain j where j: "GetTypeInfo fuel md tk = Done j" "info_name j = tn tk" and st: "stoi (behind_tick (tn tk)) = Done (int (length ts))"
    and tk: "TypeFromToken tk \<in> set g_tkCorEncodeToken" and ts: "ts \<noteq> []" "length ts \<le> 0x7F" "\<forall>t\<in>set ts. readable_type fuel md held tn t"
    using GenericInst.prems(2) by auto
  note U = uncompress_token [OF tk]
  have "(of_nat (length ts) :: u32) \<le> 0x7F" using ts(2) by (simp add: word_le_nat_alt unat_of_nat32)
  then have cnt: "snd (CorSigCompressData (of_nat (length ts))) = [ucast (of_nat (length ts) :: u32)]"
    by (simp add: CorSigCompressData_def)
  let ?rest = "ucast (of_nat (length ts) :: u32) # concat (map encode ts) @ r"
  have d: "drop i sig = elt ELEMENT_TYPE_GENERICINST # elt k # ?tok @ ?rest" using GenericInst.prems(1) cnt by simp
  have d2: "drop (i + 2) sig = ?tok @ ?rest" using drop_next [of i sig "[elt ELEMENT_TYPE_GENERICINST, elt k]"] d by simp
  have d3: "drop (i + 2 + length ?tok + 1) sig = concat (map encode ts) @ r"
    using drop_next [OF d2] drop_next [of "i + 2 + length ?tok" sig "[ucast (of_nat (length ts) :: u32)]"] by simp
  have "generic_piece fuel md sig (sig_state i c ns s [] m) = Done (False, sig_state (i + 2 + length ?tok) c ns
      (int (length ts) # one_less s) [] (m @ tn tk @ WStr ''<''))"
    by (simp add: generic_piece_def RetrieveTypeForSignature_def Let_def d2 [simplified] U j st one_less_def)
  then have "sig_loop fuel md held sig n (sig_state i c ns s [] m) = sig_loop fuel md held sig n
      (sig_state (i + 2 + length ?tok + 1) c ns (int (length ts) # one_less s) [] (m @ tn tk @ WStr ''<''))"
    by (simp add: loop_head [OF d] step_head [OF d])
  also have "\<dots> = obind (conclude n (i + 2 + length ?tok + 1 + length (concat (map encode ts)) - 1) c ns (one_less s)
      ((m @ tn tk @ WStr ''<'') @ comma_list (map (sig_name tn) ts) @ WStr ''>''))
      (\<lambda>st. sig_loop fuel md held sig n (st \<lparr>current_index := current_index st + 1\<rparr>))"
    by (rule args_loop [OF _ ts(1) d3]) (use GenericInst.IH ts(3) readable_not_Nil in auto)
  finally show ?case by (simp add: cnt add.assoc)
next
  case (SzArray t)
  then show ?case by (intro plain_loop) auto
qed (intro plain_loop; simp)+

lemma types_loop:
  assumes "drop i sig = concat (map encode ts)" and "\<forall>t\<in>set ts. readable_type fuel md held tn t" and "c + length ts \<le> n"
    and "length ns = n"
  shows "\<exists>st. sig_loop fuel md held sig n (sig_state i c ns [] [] []) = Done st \<and>
    type_names st = take c ns @ map (sig_name tn) ts @ drop (c + length ts) ns"
  using assms
proof (induction ts arbitrary: i c ns)
  case Nil
  then show ?case by (subst sig_loop.simps) simp
next
  case (Cons t ts)
  have d: "drop i sig = encode t @ concat (map encode ts)" using Cons.prems(1) by simp
  have len: "length (encode t) > 0" using readable_not_Nil Cons.prems(2) by (metis length_greater_0_conv list.set_intros(1))
  let ?ns = "ns [c := sig_name tn t]"
  have "sig_loop fuel md held sig n (sig_state i c ns [] [] []) =
      loop_on fuel md held sig n i (length (encode t)) c ns [] ([] @ sig_name tn t)"
    by (rule type_loop [OF d]) (use Cons.prems in simp)
  then have "sig_loop fuel md held sig n (sig_state i c ns [] [] []) =
      sig_loop fuel md held sig n (sig_state (i + length (encode t)) (c + 1) ?ns [] [] [])"
    using Cons.prems(3) len by (simp add: one_less_def conclude_type)
  moreover obtain st where "sig_loop fuel md held sig n (sig_state (i + length (encode t)) (c + 1) ?ns [] [] []) = Done st"
    "type_names st = take (c + 1) ?ns @ map (sig_name tn) ts @ drop (c + 1 + length ts) ?ns"
    using Cons.IH [OF drop_next [OF d], of "c + 1" ?ns] Cons.prems by auto
  moreover have "take (c + 1) ?ns = take c ns @ [sig_name tn t]" using Cons.prems(3,4) by (simp add: take_Suc_conv_app_nth)
  ultimately show ?case by simp
qed


text \<open>
  The brackets of an array of a generic type end up behind the first argument of that type: they
  are kept until the next name is complete.
\<close>

lemma array_of_generic_misnamed:
  assumes "data (fi_signature f) = [0, 0] @ encode (SzArray (GenericInst k tk [Prim e]))"
    and "readable_type fuel md held tn (GenericInst k tk [Prim e])"
  shows "TryParseSignatureTypes fuel md held f = Done [tn tk @ WStr ''<'' @ sig_name tn (Prim e) @ WStr ''[]'' @ WStr ''>'']"
proof -
  let ?sig = "data (fi_signature f)" and ?tok = "snd (CorSigCompressToken tk)"
  let ?i = "5 + length ?tok + 1"
  obtain j where j: "GetTypeInfo fuel md tk = Done j" "info_name j = tn tk" and st: "stoi (behind_tick (tn tk)) = Done 1"
    and tk: "TypeFromToken tk \<in> set g_tkCorEncodeToken" and e: "readable_type fuel md held tn (Prim e)"
    using assms(2) by auto
  note U = uncompress_token [OF tk]
  have sig: "?sig = [0, 0, elt ELEMENT_TYPE_SZARRAY, elt ELEMENT_TYPE_GENERICINST, elt k] @ ?tok @ [0x01, elt e]"
    using assms(1) by (simp add: CorSigCompressData_def)
  have d: "drop 2 ?sig = elt ELEMENT_TYPE_SZARRAY # elt ELEMENT_TYPE_GENERICINST # elt k # ?tok @ [0x01, elt e]"
    "drop (Suc 2) ?sig = replicate 0 (elt ELEMENT_TYPE_SZARRAY) @ elt ELEMENT_TYPE_GENERICINST # elt k # ?tok @ [0x01, elt e]"
    "drop 5 ?sig = ?tok @ [0x01, elt e]"
    unfolding sig by simp_all
  have tl: "drop ?i ?sig = encode (Prim e) @ []"
    using drop_next [of "5 + length ?tok" ?sig "[0x01]" "[elt e]"] drop_next [OF d(3)] by (simp add: add.commute)
  have d3: "drop 3 ?sig = elt ELEMENT_TYPE_GENERICINST # elt k # ?tok @ [0x01, elt e]" using d(2) by simp
  have n: "unat (NumberOfArguments (fi_signature f)) = 0" "NumberOfTypeArguments (fi_signature f) = 0"
    unfolding NumberOfArguments_def NumberOfTypeArguments_def is_generic_sig_def CallingConvention_def by (simp_all add: sig)
  have "array_ranks ?sig 2 (WStr ''[]'') = Done (2, WStr ''[]'')"
    using array_ranks_all [of 2 ?sig 0 "elt ELEMENT_TYPE_GENERICINST"] d(2) by (simp add: brackets_simps)
  then have "sig_loop fuel md held ?sig 1 (sig_state 2 0 [[]] [] [] []) = sig_loop fuel md held ?sig 1 (sig_state 3 0 [[]] [] (WStr ''[]'') [])"
    by (simp add: loop_head [OF d(1)] step_head [OF d(1)] array_piece_def)
  also have "\<dots> = sig_loop fuel md held ?sig 1 (sig_state ?i 0 [[]] [1] (WStr ''[]'') (tn tk @ WStr ''<''))"
    using d(3) by (simp add: loop_head [OF d3] step_head [OF d3] generic_piece_def RetrieveTypeForSignature_def Let_def U j st)
  also have "\<dots> = loop_on fuel md held ?sig 1 ?i (length (encode (Prim e))) 0 [[]] [1] ((tn tk @ WStr ''<'') @ sig_name tn (Prim e) @ WStr ''[]'')"
    by (rule leaf_loop [OF tl e]) simp_all
  also have "\<dots> = sig_loop fuel md held ?sig 1 (sig_state (?i + 1) 1 [tn tk @ WStr ''<'' @ sig_name tn (Prim e) @ WStr ''[]'' @ WStr ''>''] [] [] [])"
    by (simp add: one_less_def conclude_def settle_def)
  also have "\<dots> = Done (sig_state (?i + 1) 1 [tn tk @ WStr ''<'' @ sig_name tn (Prim e) @ WStr ''[]'' @ WStr ''>''] [] [] [])"
    by (subst sig_loop.simps) (simp add: sig)
  finally show ?thesis by (simp add: TryParseSignatureTypes_def Let_def n)
qed

section \<open>Concrete signatures\<close>


end
