(* ===== verification/ILOpcodes.thy ===== *)
theory ILOpcodes
  imports Prelude
begin

text \<open>
  The instruction table of the IL rewriter. \<^verbatim>\<open>il_rewriter.h\<close> and \<^verbatim>\<open>il_rewriter.cpp\<close> include
  \<^verbatim>\<open>opcode.def\<close> three times, each time with another definition of its \<^verbatim>\<open>OPDEF\<close> macro: for the
  enumeration of the opcodes, for the byte of flags that gives the size and the kind of the
  operand, and for the number of stack slots an instruction pushes. The rows of the file are
  one list here, and the three tables are computed from it.
\<close>

section \<open>The rows of the opcode table\<close>

datatype OpArgs =
    InlineNone | ShortInlineVar | InlineVar | ShortInlineI | InlineI | InlineI8 | ShortInlineR
  | InlineR | ShortInlineBrTarget | InlineBrTarget | InlineMethod | InlineField | InlineType
  | InlineString | InlineSig | InlineRVA | InlineTok | InlineSwitch

datatype StackPush = Push0 | Push1 | PushI | PushI8 | PushR4 | PushR8 | PushRef | VarPush

text \<open>A row: the enumerator, the stack slots pushed and the kind of operand.\<close>

type_synonym opdef = "string \<times> StackPush list \<times> OpArgs"

definition opcode_def_1 :: "opdef list" where
  "opcode_def_1 =
    [(''CEE_NOP'', [Push0], InlineNone),
     (''CEE_BREAK'', [Push0], InlineNone),
     (''CEE_LDARG_0'', [Push1], InlineNone),
     (''CEE_LDARG_1'', [Push1], InlineNone),
     (''CEE_LDARG_2'', [Push1], InlineNone),
     (''CEE_LDARG_3'', [Push1], InlineNone),
     (''CEE_LDLOC_0'', [Push1], InlineNone),
     (''CEE_LDLOC_1'', [Push1], InlineNone),
     (''CEE_LDLOC_2'', [Push1], InlineNone),
     (''CEE_LDLOC_3'', [Push1], InlineNone),
     (''CEE_STLOC_0'', [Push0], InlineNone),
     (''CEE_STLOC_1'', [Push0], InlineNone),
     (''CEE_STLOC_2'', [Push0], InlineNone),
     (''CEE_STLOC_3'', [Push0], InlineNone),
     (''CEE_LDARG_S'', [Push1], ShortInlineVar),
     (''CEE_LDARGA_S'', [PushI], ShortInlineVar),
     (''CEE_STARG_S'', [Push0], ShortInlineVar),
     (''CEE_LDLOC_S'', [Push1], ShortInlineVar),
     (''CEE_LDLOCA_S'', [PushI], ShortInlineVar),
     (''CEE_STLOC_S'', [Push0], ShortInlineVar),
     (''CEE_LDNULL'', [PushRef], InlineNone),
     (''CEE_LDC_I4_M1'', [PushI], InlineNone),
     (''CEE_LDC_I4_0'', [PushI], InlineNone),
     (''CEE_LDC_I4_1'', [PushI], InlineNone),
     (''CEE_LDC_I4_2'', [PushI], InlineNone),
     (''CEE_LDC_I4_3'', [PushI], InlineNone),
     (''CEE_LDC_I4_4'', [PushI], InlineNone),
     (''CEE_LDC_I4_5'', [PushI], InlineNone),
     (''CEE_LDC_I4_6'', [PushI], InlineNone),
     (''CEE_LDC_I4_7'', [PushI], InlineNone),
     (''CEE_LDC_I4_8'', [PushI], InlineNone),
     (''CEE_LDC_I4_S'', [PushI], ShortInlineI),
     (''CEE_LDC_I4'', [PushI], InlineI),
     (''CEE_LDC_I8'', [PushI8], InlineI8),
     (''CEE_LDC_R4'', [PushR4], ShortInlineR),
     (''CEE_LDC_R8'', [PushR8], InlineR),
     (''CEE_UNUSED49'', [Push0], InlineNone),
     (''CEE_DUP'', [Push1, Push1], InlineNone),
     (''CEE_POP'', [Push0], InlineNone),
     (''CEE_JMP'', [Push0], InlineMethod),
     (''CEE_CALL'', [VarPush], InlineMethod),
     (''CEE_CALLI'', [VarPush], InlineSig),
     (''CEE_RET'', [Push0], InlineNone),
     (''CEE_BR_S'', [Push0], ShortInlineBrTarget),
     (''CEE_BRFALSE_S'', [Push0], ShortInlineBrTarget),
     (''CEE_BRTRUE_S'', [Push0], ShortInlineBrTarget),
     (''CEE_BEQ_S'', [Push0], ShortInlineBrTarget),
     (''CEE_BGE_S'', [Push0], ShortInlineBrTarget),
     (''CEE_BGT_S'', [Push0], ShortInlineBrTarget),
     (''CEE_BLE_S'', [Push0], ShortInlineBrTarget),
     (''CEE_BLT_S'', [Push0], ShortInlineBrTarget),
     (''CEE_BNE_UN_S'', [Push0], ShortInlineBrTarget),
     (''CEE_BGE_UN_S'', [Push0], ShortInlineBrTarget),
     (''CEE_BGT_UN_S'', [Push0], ShortInlineBrTarget),
     (''CEE_BLE_UN_S'', [Push0], ShortInlineBrTarget),
     (''CEE_BLT_UN_S'', [Push0], ShortInlineBrTarget),
     (''CEE_BR'', [Push0], InlineBrTarget),
     (''CEE_BRFALSE'', [Push0], InlineBrTarget),
     (''CEE_BRTRUE'', [Push0], InlineBrTarget),
     (''CEE_BEQ'', [Push0], InlineBrTarget),
     (''CEE_BGE'', [Push0], InlineBrTarget),
     (''CEE_BGT'', [Push0], InlineBrTarget),
     (''CEE_BLE'', [Push0], InlineBrTarget),
     (''CEE_BLT'', [Push0], InlineBrTarget),
     (''CEE_BNE_UN'', [Push0], InlineBrTarget),
     (''CEE_BGE_UN'', [Push0], InlineBrTarget),
     (''CEE_BGT_UN'', [Push0], InlineBrTarget),
     (''CEE_BLE_UN'', [Push0], InlineBrTarget),
     (''CEE_BLT_UN'', [Push0], InlineBrTarget),
     (''CEE_SWITCH'', [Push0], InlineSwitch),
     (''CEE_LDIND_I1'', [PushI], InlineNone),
     (''CEE_LDIND_U1'', [PushI], InlineNone),
     (''CEE_LDIND_I2'', [PushI], InlineNone),
     (''CEE_LDIND_U2'', [PushI], InlineNone),
     (''CEE_LDIND_I4'', [PushI], InlineNone),
     (''CEE_LDIND_U4'', [PushI], InlineNone),
     (''CEE_LDIND_I8'', [PushI8], InlineNone),
     (''CEE_LDIND_I'', [PushI], InlineNone),
     (''CEE_LDIND_R4'', [PushR4], InlineNone),
     (''CEE_LDIND_R8'', [PushR8], InlineNone),
     (''CEE_LDIND_REF'', [PushRef], InlineNone),
     (''CEE_STIND_REF'', [Push0], InlineNone),
     (''CEE_STIND_I1'', [Push0], InlineNone),
     (''CEE_STIND_I2'', [Push0], InlineNone),
     (''CEE_STIND_I4'', [Push0], InlineNone),
     (''CEE_STIND_I8'', [Push0], InlineNone),
     (''CEE_STIND_R4'', [Push0], InlineNone),
     (''CEE_STIND_R8'', [Push0], InlineNone),
     (''CEE_ADD'', [Push1], InlineNone),
     (''CEE_SUB'', [Push1], InlineNone),
     (''CEE_MUL'', [Push1], InlineNone),
     (''CEE_DIV'', [Push1], InlineNone),
     (''CEE_DIV_UN'', [Push1], InlineNone),
     (''CEE_REM'', [Push1], InlineNone),
     (''CEE_REM_UN'', [Push1], InlineNone),
     (''CEE_AND'', [Push1], InlineNone),
     (''CEE_OR'', [Push1], InlineNone),
     (''CEE_XOR'', [Push1], InlineNone),
     (''CEE_SHL'', [Push1], InlineNone),
     (''CEE_SHR'', [Push1], InlineNone)]"

definition opcode_def_2 :: "opdef list" where
  "opcode_def_2 =
    [(''CEE_SHR_UN'', [Push1], InlineNone),
     (''CEE_NEG'', [Push1], InlineNone),
     (''CEE_NOT'', [Push1], InlineNone),
     (''CEE_CONV_I1'', [PushI], InlineNone),
     (''CEE_CONV_I2'', [PushI], InlineNone),
     (''CEE_CONV_I4'', [PushI], InlineNone),
     (''CEE_CONV_I8'', [PushI8], InlineNone),
     (''CEE_CONV_R4'', [PushR4], InlineNone),
     (''CEE_CONV_R8'', [PushR8], InlineNone),
     (''CEE_CONV_U4'', [PushI], InlineNone),
     (''CEE_CONV_U8'', [PushI8], InlineNone),
     (''CEE_CALLVIRT'', [VarPush], InlineMethod),
     (''CEE_CPOBJ'', [Push0], InlineType),
     (''CEE_LDOBJ'', [Push1], InlineType),
     (''CEE_LDSTR'', [PushRef], InlineString),
     (''CEE_NEWOBJ'', [PushRef], InlineMethod),
     (''CEE_CASTCLASS'', [PushRef], InlineType),
     (''CEE_ISINST'', [PushI], InlineType),
     (''CEE_CONV_R_UN'', [PushR8], InlineNone),
     (''CEE_UNUSED58'', [Push0], InlineNone),
     (''CEE_UNUSED1'', [Push0], InlineNone),
     (''CEE_UNBOX'', [PushI], InlineType),
     (''CEE_THROW'', [Push0], InlineNone),
     (''CEE_LDFLD'', [Push1], InlineField),
     (''CEE_LDFLDA'', [PushI], InlineField),
     (''CEE_STFLD'', [Push0], InlineField),
     (''CEE_LDSFLD'', [Push1], InlineField),
     (''CEE_LDSFLDA'', [PushI], InlineField),
     (''CEE_STSFLD'', [Push0], InlineField),
     (''CEE_STOBJ'', [Push0], InlineType),
     (''CEE_CONV_OVF_I1_UN'', [PushI], InlineNone),
     (''CEE_CONV_OVF_I2_UN'', [PushI], InlineNone),
     (''CEE_CONV_OVF_I4_UN'', [PushI], InlineNone),
     (''CEE_CONV_OVF_I8_UN'', [PushI8], InlineNone),
     (''CEE_CONV_OVF_U1_UN'', [PushI], InlineNone),
     (''CEE_CONV_OVF_U2_UN'', [PushI], InlineNone),
     (''CEE_CONV_OVF_U4_UN'', [PushI], InlineNone),
     (''CEE_CONV_OVF_U8_UN'', [PushI8], InlineNone),
     (''CEE_CONV_OVF_I_UN'', [PushI], InlineNone),
     (''CEE_CONV_OVF_U_UN'', [PushI], InlineNone),
     (''CEE_BOX'', [PushRef], InlineType),
     (''CEE_NEWARR'', [PushRef], InlineType),
     (''CEE_LDLEN'', [PushI], InlineNone),
     (''CEE_LDELEMA'', [PushI], InlineType),
     (''CEE_LDELEM_I1'', [PushI], InlineNone),
     (''CEE_LDELEM_U1'', [PushI], InlineNone),
     (''CEE_LDELEM_I2'', [PushI], InlineNone),
     (''CEE_LDELEM_U2'', [PushI], InlineNone),
     (''CEE_LDELEM_I4'', [PushI], InlineNone),
     (''CEE_LDELEM_U4'', [PushI], InlineNone),
     (''CEE_LDELEM_I8'', [PushI8], InlineNone),
     (''CEE_LDELEM_I'', [PushI], InlineNone),
     (''CEE_LDELEM_R4'', [PushR4], InlineNone),
     (''CEE_LDELEM_R8'', [PushR8], InlineNone),
     (''CEE_LDELEM_REF'', [PushRef], InlineNone),
     (''CEE_STELEM_I'', [Push0], InlineNone),
     (''CEE_STELEM_I1'', [Push0], InlineNone),
     (''CEE_STELEM_I2'', [Push0], InlineNone),
     (''CEE_STELEM_I4'', [Push0], InlineNone),
     (''CEE_STELEM_I8'', [Push0], InlineNone),
     (''CEE_STELEM_R4'', [Push0], InlineNone),
     (''CEE_STELEM_R8'', [Push0], InlineNone),
     (''CEE_STELEM_REF'', [Push0], InlineNone),
     (''CEE_LDELEM'', [Push1], InlineType),
     (''CEE_STELEM'', [Push0], InlineType),
     (''CEE_UNBOX_ANY'', [Push1], InlineType),
     (''CEE_UNUSED5'', [Push0], InlineNone),
     (''CEE_UNUSED6'', [Push0], InlineNone),
     (''CEE_UNUSED7'', [Push0], InlineNone),
     (''CEE_UNUSED8'', [Push0], InlineNone),
     (''CEE_UNUSED9'', [Push0], InlineNone),
     (''CEE_UNUSED10'', [Push0], InlineNone),
     (''CEE_UNUSED11'', [Push0], InlineNone),
     (''CEE_UNUSED12'', [Push0], InlineNone),
     (''CEE_UNUSED13'', [Push0], InlineNone),
     (''CEE_UNUSED14'', [Push0], InlineNone),
     (''CEE_UNUSED15'', [Push0], InlineNone),
     (''CEE_UNUSED16'', [Push0], InlineNone),
     (''CEE_UNUSED17'', [Push0], InlineNone),
     (''CEE_CONV_OVF_I1'', [PushI], InlineNone),
     (''CEE_CONV_OVF_U1'', [PushI], InlineNone),
     (''CEE_CONV_OVF_I2'', [PushI], InlineNone),
     (''CEE_CONV_OVF_U2'', [PushI], InlineNone),
     (''CEE_CONV_OVF_I4'', [PushI], InlineNone),
     (''CEE_CONV_OVF_U4'', [PushI], InlineNone),
     (''CEE_CONV_OVF_I8'', [PushI8], InlineNone),
     (''CEE_CONV_OVF_U8'', [PushI8], InlineNone),
     (''CEE_UNUSED50'', [Push0], InlineNone),
     (''CEE_UNUSED18'', [Push0], InlineNone),
     (''CEE_UNUSED19'', [Push0], InlineNone),
     (''CEE_UNUSED20'', [Push0], InlineNone),
     (''CEE_UNUSED21'', [Push0], InlineNone),
     (''CEE_UNUSED22'', [Push0], InlineNone),
     (''CEE_UNUSED23'', [Push0], InlineNone),
     (''CEE_REFANYVAL'', [PushI], InlineType),
     (''CEE_CKFINITE'', [PushR8], InlineNone),
     (''CEE_UNUSED24'', [Push0], InlineNone),
     (''CEE_UNUSED25'', [Push0], InlineNone),
     (''CEE_MKREFANY'', [Push1], InlineType),
     (''CEE_UNUSED59'', [Push0], InlineNone)]"

definition opcode_def_3 :: "opdef list" where
  "opcode_def_3 =
    [(''CEE_UNUSED60'', [Push0], InlineNone),
     (''CEE_UNUSED61'', [Push0], InlineNone),
     (''CEE_UNUSED62'', [Push0], InlineNone),
     (''CEE_UNUSED63'', [Push0], InlineNone),
     (''CEE_UNUSED64'', [Push0], InlineNone),
     (''CEE_UNUSED65'', [Push0], InlineNone),
     (''CEE_UNUSED66'', [Push0], InlineNone),
     (''CEE_UNUSED67'', [Push0], InlineNone),
     (''CEE_LDTOKEN'', [PushI], InlineTok),
     (''CEE_CONV_U2'', [PushI], InlineNone),
     (''CEE_CONV_U1'', [PushI], InlineNone),
     (''CEE_CONV_I'', [PushI], InlineNone),
     (''CEE_CONV_OVF_I'', [PushI], InlineNone),
     (''CEE_CONV_OVF_U'', [PushI], InlineNone),
     (''CEE_ADD_OVF'', [Push1], InlineNone),
     (''CEE_ADD_OVF_UN'', [Push1], InlineNone),
     (''CEE_MUL_OVF'', [Push1], InlineNone),
     (''CEE_MUL_OVF_UN'', [Push1], InlineNone),
     (''CEE_SUB_OVF'', [Push1], InlineNone),
     (''CEE_SUB_OVF_UN'', [Push1], InlineNone),
     (''CEE_ENDFINALLY'', [Push0], InlineNone),
     (''CEE_LEAVE'', [Push0], InlineBrTarget),
     (''CEE_LEAVE_S'', [Push0], ShortInlineBrTarget),
     (''CEE_STIND_I'', [Push0], InlineNone),
     (''CEE_CONV_U'', [PushI], InlineNone),
     (''CEE_UNUSED26'', [Push0], InlineNone),
     (''CEE_UNUSED27'', [Push0], InlineNone),
     (''CEE_UNUSED28'', [Push0], InlineNone),
     (''CEE_UNUSED29'', [Push0], InlineNone),
     (''CEE_UNUSED30'', [Push0], InlineNone),
     (''CEE_UNUSED31'', [Push0], InlineNone),
     (''CEE_UNUSED32'', [Push0], InlineNone),
     (''CEE_UNUSED33'', [Push0], InlineNone),
     (''CEE_UNUSED34'', [Push0], InlineNone),
     (''CEE_UNUSED35'', [Push0], InlineNone),
     (''CEE_UNUSED36'', [Push0], InlineNone),
     (''CEE_UNUSED37'', [Push0], InlineNone),
     (''CEE_UNUSED38'', [Push0], InlineNone),
     (''CEE_UNUSED39'', [Push0], InlineNone),
     (''CEE_UNUSED40'', [Push0], InlineNone),
     (''CEE_UNUSED41'', [Push0], InlineNone),
     (''CEE_UNUSED42'', [Push0], InlineNone),
     (''CEE_UNUSED43'', [Push0], InlineNone),
     (''CEE_UNUSED44'', [Push0], InlineNone),
     (''CEE_UNUSED45'', [Push0], InlineNone),
     (''CEE_UNUSED46'', [Push0], InlineNone),
     (''CEE_UNUSED47'', [Push0], InlineNone),
     (''CEE_UNUSED48'', [Push0], InlineNone),
     (''CEE_PREFIX7'', [Push0], InlineNone),
     (''CEE_PREFIX6'', [Push0], InlineNone),
     (''CEE_PREFIX5'', [Push0], InlineNone),
     (''CEE_PREFIX4'', [Push0], InlineNone),
     (''CEE_PREFIX3'', [Push0], InlineNone),
     (''CEE_PREFIX2'', [Push0], InlineNone),
     (''CEE_PREFIX1'', [Push0], InlineNone),
     (''CEE_PREFIXREF'', [Push0], InlineNone),
     (''CEE_ARGLIST'', [PushI], InlineNone),
     (''CEE_CEQ'', [PushI], InlineNone),
     (''CEE_CGT'', [PushI], InlineNone),
     (''CEE_CGT_UN'', [PushI], InlineNone),
     (''CEE_CLT'', [PushI], InlineNone),
     (''CEE_CLT_UN'', [PushI], InlineNone),
     (''CEE_LDFTN'', [PushI], InlineMethod),
     (''CEE_LDVIRTFTN'', [PushI], InlineMethod),
     (''CEE_UNUSED56'', [Push0], InlineNone),
     (''CEE_LDARG'', [Push1], InlineVar),
     (''CEE_LDARGA'', [PushI], InlineVar),
     (''CEE_STARG'', [Push0], InlineVar),
     (''CEE_LDLOC'', [Push1], InlineVar),
     (''CEE_LDLOCA'', [PushI], InlineVar),
     (''CEE_STLOC'', [Push0], InlineVar),
     (''CEE_LOCALLOC'', [PushI], InlineNone),
     (''CEE_UNUSED57'', [Push0], InlineNone),
     (''CEE_ENDFILTER'', [Push0], InlineNone),
     (''CEE_UNALIGNED'', [Push0], ShortInlineI),
     (''CEE_VOLATILE'', [Push0], InlineNone),
     (''CEE_TAILCALL'', [Push0], InlineNone),
     (''CEE_INITOBJ'', [Push0], InlineType),
     (''CEE_CONSTRAINED'', [Push0], InlineType),
     (''CEE_CPBLK'', [Push0], InlineNone),
     (''CEE_INITBLK'', [Push0], InlineNone),
     (''CEE_UNUSED69'', [Push0], InlineNone),
     (''CEE_RETHROW'', [Push0], InlineNone),
     (''CEE_UNUSED51'', [Push0], InlineNone),
     (''CEE_SIZEOF'', [PushI], InlineType),
     (''CEE_REFANYTYPE'', [PushI], InlineNone),
     (''CEE_READONLY'', [Push0], InlineNone),
     (''CEE_UNUSED53'', [Push0], InlineNone),
     (''CEE_UNUSED54'', [Push0], InlineNone),
     (''CEE_UNUSED55'', [Push0], InlineNone),
     (''CEE_UNUSED70'', [Push0], InlineNone),
     (''CEE_ILLEGAL'', [Push0], InlineNone),
     (''CEE_MACRO_END'', [Push0], InlineNone),
     (''CEE_CODE_LABEL'', [Push0], InlineNone)]"

definition opcode_defs :: "opdef list" where
  "opcode_defs = opcode_def_1 @ opcode_def_2 @ opcode_def_3"

section \<open>The enumeration\<close>

text \<open>
  An opcode is the position of its row; \<^verbatim>\<open>CEE_COUNT\<close> follows the last row and
  \<^verbatim>\<open>CEE_SWITCH_ARG\<close>, the internal instruction for one entry of a jump table, follows it.
\<close>

definition CEE_COUNT :: u32 where
  "CEE_COUNT = of_nat (length opcode_defs)"

definition CEE_SWITCH_ARG :: u32 where
  "CEE_SWITCH_ARG = CEE_COUNT + 1"

abbreviation (input) CEE_NOP :: u32 where "CEE_NOP \<equiv> 0x0"
abbreviation (input) CEE_LDARG_0 :: u32 where "CEE_LDARG_0 \<equiv> 0x2"
abbreviation (input) CEE_LDARG_1 :: u32 where "CEE_LDARG_1 \<equiv> 0x3"
abbreviation (input) CEE_LDARG_2 :: u32 where "CEE_LDARG_2 \<equiv> 0x4"
abbreviation (input) CEE_LDARG_3 :: u32 where "CEE_LDARG_3 \<equiv> 0x5"
abbreviation (input) CEE_LDLOC_0 :: u32 where "CEE_LDLOC_0 \<equiv> 0x6"
abbreviation (input) CEE_LDLOC_1 :: u32 where "CEE_LDLOC_1 \<equiv> 0x7"
abbreviation (input) CEE_LDLOC_2 :: u32 where "CEE_LDLOC_2 \<equiv> 0x8"
abbreviation (input) CEE_LDLOC_3 :: u32 where "CEE_LDLOC_3 \<equiv> 0x9"
abbreviation (input) CEE_STLOC_0 :: u32 where "CEE_STLOC_0 \<equiv> 0xA"
abbreviation (input) CEE_STLOC_1 :: u32 where "CEE_STLOC_1 \<equiv> 0xB"
abbreviation (input) CEE_STLOC_2 :: u32 where "CEE_STLOC_2 \<equiv> 0xC"
abbreviation (input) CEE_STLOC_3 :: u32 where "CEE_STLOC_3 \<equiv> 0xD"
abbreviation (input) CEE_LDARG_S :: u32 where "CEE_LDARG_S \<equiv> 0xE"
abbreviation (input) CEE_LDARGA_S :: u32 where "CEE_LDARGA_S \<equiv> 0xF"
abbreviation (input) CEE_LDLOC_S :: u32 where "CEE_LDLOC_S \<equiv> 0x11"
abbreviation (input) CEE_LDLOCA_S :: u32 where "CEE_LDLOCA_S \<equiv> 0x12"
abbreviation (input) CEE_STLOC_S :: u32 where "CEE_STLOC_S \<equiv> 0x13"
abbreviation (input) CEE_LDNULL :: u32 where "CEE_LDNULL \<equiv> 0x14"
abbreviation (input) CEE_LDC_I4_0 :: u32 where "CEE_LDC_I4_0 \<equiv> 0x16"
abbreviation (input) CEE_LDC_I4_1 :: u32 where "CEE_LDC_I4_1 \<equiv> 0x17"
abbreviation (input) CEE_LDC_I4_2 :: u32 where "CEE_LDC_I4_2 \<equiv> 0x18"
abbreviation (input) CEE_LDC_I4_3 :: u32 where "CEE_LDC_I4_3 \<equiv> 0x19"
abbreviation (input) CEE_LDC_I4_4 :: u32 where "CEE_LDC_I4_4 \<equiv> 0x1A"
abbreviation (input) CEE_LDC_I4_5 :: u32 where "CEE_LDC_I4_5 \<equiv> 0x1B"
abbreviation (input) CEE_LDC_I4_6 :: u32 where "CEE_LDC_I4_6 \<equiv> 0x1C"
abbreviation (input) CEE_LDC_I4_7 :: u32 where "CEE_LDC_I4_7 \<equiv> 0x1D"
abbreviation (input) CEE_LDC_I4_8 :: u32 where "CEE_LDC_I4_8 \<equiv> 0x1E"
abbreviation (input) CEE_LDC_I4_S :: u32 where "CEE_LDC_I4_S \<equiv> 0x1F"
abbreviation (input) CEE_LDC_I4 :: u32 where "CEE_LDC_I4 \<equiv> 0x20"
abbreviation (input) CEE_LDC_I8 :: u32 where "CEE_LDC_I8 \<equiv> 0x21"
abbreviation (input) CEE_DUP :: u32 where "CEE_DUP \<equiv> 0x25"
abbreviation (input) CEE_POP :: u32 where "CEE_POP \<equiv> 0x26"
abbreviation (input) CEE_CALL :: u32 where "CEE_CALL \<equiv> 0x28"
abbreviation (input) CEE_RET :: u32 where "CEE_RET \<equiv> 0x2A"
abbreviation (input) CEE_BR_S :: u32 where "CEE_BR_S \<equiv> 0x2B"
abbreviation (input) CEE_BRFALSE_S :: u32 where "CEE_BRFALSE_S \<equiv> 0x2C"
abbreviation (input) CEE_BRTRUE_S :: u32 where "CEE_BRTRUE_S \<equiv> 0x2D"
abbreviation (input) CEE_BLT_UN_S :: u32 where "CEE_BLT_UN_S \<equiv> 0x37"
abbreviation (input) CEE_BR :: u32 where "CEE_BR \<equiv> 0x38"
abbreviation (input) CEE_BRFALSE :: u32 where "CEE_BRFALSE \<equiv> 0x39"
abbreviation (input) CEE_BRTRUE :: u32 where "CEE_BRTRUE \<equiv> 0x3A"
abbreviation (input) CEE_BLT_UN :: u32 where "CEE_BLT_UN \<equiv> 0x44"
abbreviation (input) CEE_SWITCH :: u32 where "CEE_SWITCH \<equiv> 0x45"
abbreviation (input) CEE_LDIND_REF :: u32 where "CEE_LDIND_REF \<equiv> 0x50"
abbreviation (input) CEE_CONV_I4 :: u32 where "CEE_CONV_I4 \<equiv> 0x69"
abbreviation (input) CEE_CALLVIRT :: u32 where "CEE_CALLVIRT \<equiv> 0x6F"
abbreviation (input) CEE_LDOBJ :: u32 where "CEE_LDOBJ \<equiv> 0x71"
abbreviation (input) CEE_LDSTR :: u32 where "CEE_LDSTR \<equiv> 0x72"
abbreviation (input) CEE_NEWOBJ :: u32 where "CEE_NEWOBJ \<equiv> 0x73"
abbreviation (input) CEE_CASTCLASS :: u32 where "CEE_CASTCLASS \<equiv> 0x74"
abbreviation (input) CEE_ISINST :: u32 where "CEE_ISINST \<equiv> 0x75"
abbreviation (input) CEE_THROW :: u32 where "CEE_THROW \<equiv> 0x7A"
abbreviation (input) CEE_LDFLD :: u32 where "CEE_LDFLD \<equiv> 0x7B"
abbreviation (input) CEE_STFLD :: u32 where "CEE_STFLD \<equiv> 0x7D"
abbreviation (input) CEE_LDSFLD :: u32 where "CEE_LDSFLD \<equiv> 0x7E"
abbreviation (input) CEE_STSFLD :: u32 where "CEE_STSFLD \<equiv> 0x80"
abbreviation (input) CEE_STOBJ :: u32 where "CEE_STOBJ \<equiv> 0x81"
abbreviation (input) CEE_BOX :: u32 where "CEE_BOX \<equiv> 0x8C"
abbreviation (input) CEE_NEWARR :: u32 where "CEE_NEWARR \<equiv> 0x8D"
abbreviation (input) CEE_LDLEN :: u32 where "CEE_LDLEN \<equiv> 0x8E"
abbreviation (input) CEE_LDELEM_REF :: u32 where "CEE_LDELEM_REF \<equiv> 0x9A"
abbreviation (input) CEE_STELEM_REF :: u32 where "CEE_STELEM_REF \<equiv> 0xA2"
abbreviation (input) CEE_UNBOX_ANY :: u32 where "CEE_UNBOX_ANY \<equiv> 0xA5"
abbreviation (input) CEE_LDTOKEN :: u32 where "CEE_LDTOKEN \<equiv> 0xD0"
abbreviation (input) CEE_ENDFINALLY :: u32 where "CEE_ENDFINALLY \<equiv> 0xDC"
abbreviation (input) CEE_LEAVE :: u32 where "CEE_LEAVE \<equiv> 0xDD"
abbreviation (input) CEE_LEAVE_S :: u32 where "CEE_LEAVE_S \<equiv> 0xDE"
abbreviation (input) CEE_PREFIX7 :: u32 where "CEE_PREFIX7 \<equiv> 0xF8"
abbreviation (input) CEE_PREFIX2 :: u32 where "CEE_PREFIX2 \<equiv> 0xFD"
abbreviation (input) CEE_PREFIX1 :: u32 where "CEE_PREFIX1 \<equiv> 0xFE"
abbreviation (input) CEE_LDFTN :: u32 where "CEE_LDFTN \<equiv> 0x106"
abbreviation (input) CEE_LDARG :: u32 where "CEE_LDARG \<equiv> 0x109"
abbreviation (input) CEE_LDARGA :: u32 where "CEE_LDARGA \<equiv> 0x10A"
abbreviation (input) CEE_LDLOC :: u32 where "CEE_LDLOC \<equiv> 0x10C"
abbreviation (input) CEE_LDLOCA :: u32 where "CEE_LDLOCA \<equiv> 0x10D"
abbreviation (input) CEE_STLOC :: u32 where "CEE_STLOC \<equiv> 0x10E"
abbreviation (input) CEE_INITOBJ :: u32 where "CEE_INITOBJ \<equiv> 0x115"
abbreviation (input) CEE_CONSTRAINED :: u32 where "CEE_CONSTRAINED \<equiv> 0x116"
abbreviation (input) CEE_RETHROW :: u32 where "CEE_RETHROW \<equiv> 0x11A"

definition named_opcodes :: "(string \<times> u32) list" where
  "named_opcodes =
    [(''CEE_NOP'', CEE_NOP), (''CEE_LDARG_0'', CEE_LDARG_0), (''CEE_LDARG_1'', CEE_LDARG_1),
     (''CEE_LDARG_2'', CEE_LDARG_2), (''CEE_LDARG_3'', CEE_LDARG_3), (''CEE_LDLOC_0'', CEE_LDLOC_0),
     (''CEE_LDLOC_1'', CEE_LDLOC_1), (''CEE_LDLOC_2'', CEE_LDLOC_2), (''CEE_LDLOC_3'', CEE_LDLOC_3),
     (''CEE_STLOC_0'', CEE_STLOC_0), (''CEE_STLOC_1'', CEE_STLOC_1), (''CEE_STLOC_2'', CEE_STLOC_2),
     (''CEE_STLOC_3'', CEE_STLOC_3), (''CEE_LDARG_S'', CEE_LDARG_S), (''CEE_LDARGA_S'', CEE_LDARGA_S),
     (''CEE_LDLOC_S'', CEE_LDLOC_S), (''CEE_LDLOCA_S'', CEE_LDLOCA_S), (''CEE_STLOC_S'', CEE_STLOC_S),
     (''CEE_LDNULL'', CEE_LDNULL), (''CEE_LDC_I4_0'', CEE_LDC_I4_0), (''CEE_LDC_I4_1'', CEE_LDC_I4_1),
     (''CEE_LDC_I4_2'', CEE_LDC_I4_2), (''CEE_LDC_I4_3'', CEE_LDC_I4_3), (''CEE_LDC_I4_4'', CEE_LDC_I4_4),
     (''CEE_LDC_I4_5'', CEE_LDC_I4_5), (''CEE_LDC_I4_6'', CEE_LDC_I4_6), (''CEE_LDC_I4_7'', CEE_LDC_I4_7),
     (''CEE_LDC_I4_8'', CEE_LDC_I4_8), (''CEE_LDC_I4_S'', CEE_LDC_I4_S), (''CEE_LDC_I4'', CEE_LDC_I4),
     (''CEE_LDC_I8'', CEE_LDC_I8), (''CEE_DUP'', CEE_DUP), (''CEE_POP'', CEE_POP),
     (''CEE_CALL'', CEE_CALL), (''CEE_RET'', CEE_RET), (''CEE_BR_S'', CEE_BR_S),
     (''CEE_BRFALSE_S'', CEE_BRFALSE_S), (''CEE_BRTRUE_S'', CEE_BRTRUE_S), (''CEE_BLT_UN_S'', CEE_BLT_UN_S),
     (''CEE_BR'', CEE_BR), (''CEE_BRFALSE'', CEE_BRFALSE), (''CEE_BRTRUE'', CEE_BRTRUE),
     (''CEE_BLT_UN'', CEE_BLT_UN), (''CEE_SWITCH'', CEE_SWITCH), (''CEE_LDIND_REF'', CEE_LDIND_REF),
     (''CEE_CONV_I4'', CEE_CONV_I4), (''CEE_CALLVIRT'', CEE_CALLVIRT), (''CEE_LDOBJ'', CEE_LDOBJ),
     (''CEE_LDSTR'', CEE_LDSTR), (''CEE_NEWOBJ'', CEE_NEWOBJ), (''CEE_CASTCLASS'', CEE_CASTCLASS),
     (''CEE_ISINST'', CEE_ISINST), (''CEE_THROW'', CEE_THROW), (''CEE_LDFLD'', CEE_LDFLD),
     (''CEE_STFLD'', CEE_STFLD), (''CEE_LDSFLD'', CEE_LDSFLD), (''CEE_STSFLD'', CEE_STSFLD),
     (''CEE_STOBJ'', CEE_STOBJ), (''CEE_BOX'', CEE_BOX), (''CEE_NEWARR'', CEE_NEWARR),
     (''CEE_LDLEN'', CEE_LDLEN), (''CEE_LDELEM_REF'', CEE_LDELEM_REF), (''CEE_STELEM_REF'', CEE_STELEM_REF),
     (''CEE_UNBOX_ANY'', CEE_UNBOX_ANY), (''CEE_LDTOKEN'', CEE_LDTOKEN), (''CEE_ENDFINALLY'', CEE_ENDFINALLY),
     (''CEE_LEAVE'', CEE_LEAVE), (''CEE_LEAVE_S'', CEE_LEAVE_S), (''CEE_PREFIX7'', CEE_PREFIX7),
     (''CEE_PREFIX2'', CEE_PREFIX2), (''CEE_PREFIX1'', CEE_PREFIX1), (''CEE_LDFTN'', CEE_LDFTN),
     (''CEE_LDARG'', CEE_LDARG), (''CEE_LDARGA'', CEE_LDARGA), (''CEE_LDLOC'', CEE_LDLOC),
     (''CEE_LDLOCA'', CEE_LDLOCA), (''CEE_STLOC'', CEE_STLOC), (''CEE_INITOBJ'', CEE_INITOBJ),
     (''CEE_CONSTRAINED'', CEE_CONSTRAINED), (''CEE_RETHROW'', CEE_RETHROW)]"

section \<open>Flags of the operand\<close>

abbreviation (input) OPCODEFLAGS_SizeMask :: u8 where "OPCODEFLAGS_SizeMask \<equiv> 0x0F"
abbreviation (input) OPCODEFLAGS_BranchTarget :: u8 where "OPCODEFLAGS_BranchTarget \<equiv> 0x10"
abbreviation (input) OPCODEFLAGS_Switch :: u8 where "OPCODEFLAGS_Switch \<equiv> 0x20"

text \<open>The macros that give the kinds of operand their flags while the table is included.\<close>

fun args_flags :: "OpArgs \<Rightarrow> u8" where
  "args_flags InlineNone = 0"
| "args_flags ShortInlineVar = 1"
| "args_flags InlineVar = 2"
| "args_flags ShortInlineI = 1"
| "args_flags InlineI = 4"
| "args_flags InlineI8 = 8"
| "args_flags ShortInlineR = 4"
| "args_flags InlineR = 8"
| "args_flags ShortInlineBrTarget = 1 OR OPCODEFLAGS_BranchTarget"
| "args_flags InlineBrTarget = 4 OR OPCODEFLAGS_BranchTarget"
| "args_flags InlineMethod = 4"
| "args_flags InlineField = 4"
| "args_flags InlineType = 4"
| "args_flags InlineString = 4"
| "args_flags InlineSig = 4"
| "args_flags InlineRVA = 4"
| "args_flags InlineTok = 4"
| "args_flags InlineSwitch = 0 OR OPCODEFLAGS_Switch"

definition s_OpCodeFlags :: "u8 list" where
  "s_OpCodeFlags =
     map (\<lambda>(c, push, args). args_flags args) opcode_defs @ [0, 4 OR OPCODEFLAGS_BranchTarget]"

definition op_flags :: "u32 \<Rightarrow> u8" where
  "op_flags opcode = s_OpCodeFlags ! unat opcode"

section \<open>Stack slots pushed\<close>

fun push_count :: "StackPush \<Rightarrow> nat" where
  "push_count Push0 = 0"
| "push_count Push1 = 1"
| "push_count PushI = 1"
| "push_count PushI8 = 1"
| "push_count PushR4 = 1"
| "push_count PushR8 = 1"
| "push_count PushRef = 1"
| "push_count VarPush = 1"

definition k_rgnStackPushes :: "nat list" where
  "k_rgnStackPushes =
     map (\<lambda>(c, push, args). sum_list (map push_count push)) opcode_defs @ [0, 0]"

definition stack_pushes :: "u32 \<Rightarrow> u32" where
  "stack_pushes opcode = of_nat (k_rgnStackPushes ! unat opcode)"

section \<open>Facts of the tables\<close>

lemma length_opcode_defs [simp]: "length opcode_defs = 294"
  by (simp add: opcode_defs_def opcode_def_1_def opcode_def_2_def opcode_def_3_def)

lemma CEE_COUNT_eq [simp]: "CEE_COUNT = 294"
  by (simp add: CEE_COUNT_def)

lemma CEE_SWITCH_ARG_eq [simp]: "CEE_SWITCH_ARG = 295"
  by (simp add: CEE_SWITCH_ARG_def)

lemma length_s_OpCodeFlags [simp]: "length s_OpCodeFlags = 296"
  by (simp add: s_OpCodeFlags_def)

lemma length_k_rgnStackPushes [simp]: "length k_rgnStackPushes = 296"
  by (simp add: k_rgnStackPushes_def)

text \<open>The flags by position, as a literal list: the tables are computed once.\<close>

lemma s_OpCodeFlags_eq:
  "s_OpCodeFlags = replicate 14 0 @ replicate 6 1 @ replicate 11 0 @ [1, 4, 8, 4, 8, 0, 0, 0, 4, 4, 4, 0] @
     replicate 13 17 @ replicate 13 20 @ [32] @ replicate 41 0 @ replicate 7 4 @ [0, 0, 0, 4,
     0] @ replicate 7 4 @ replicate 10 0 @ [4, 4, 0, 4] @ replicate 19 0 @ [4, 4, 4] @
     replicate 28 0 @ [4, 0, 0, 0, 4] @ replicate 9 0 @ [4] @ replicate 12 0 @ [20, 17] @
     replicate 39 0 @ [4, 4, 0] @ replicate 6 2 @ [0, 0, 0, 1, 0, 0, 4, 4] @ replicate 5 0 @
     [4] @ replicate 10 0 @ [20]"
  by (simp add: s_OpCodeFlags_def opcode_defs_def opcode_def_1_def opcode_def_2_def opcode_def_3_def
      numeral_eq_Suc)

text \<open>The positions at which a value occurs in a list given by runs.\<close>

primrec positions :: "'a \<Rightarrow> nat \<Rightarrow> 'a list \<Rightarrow> nat list" where
  "positions x k [] = []"
| "positions x k (y # ys) = (if y = x then k # positions x (Suc k) ys else positions x (Suc k) ys)"

lemma positions_append: "positions x k (xs @ ys) = positions x k xs @ positions x (k + length xs) ys"
  by (induction xs arbitrary: k) auto

lemma positions_replicate: "positions x k (replicate n y) = (if y = x then [k..<k + n] else [])"
  by (induction n arbitrary: k) (auto simp: upt_conv_Cons)

lemma positions_ge: "j \<in> set (positions x k xs) \<Longrightarrow> k \<le> j"
  by (induction xs arbitrary: k) (auto split: if_splits dest: Suc_leD)

lemma nth_positions: "i < length xs \<Longrightarrow> xs ! i = x \<longleftrightarrow> k + i \<in> set (positions x k xs)"
proof (induction xs arbitrary: i k)
  case (Cons y ys)
  show ?case
  proof (cases i)
    case 0
    then show ?thesis using positions_ge [of k x "Suc k" ys] by auto
  next
    case (Suc j)
    then show ?thesis using Cons.IH [of j "Suc k"] Cons.prems by auto
  qed
qed simp

text \<open>The rows with a branch target and the row of the jump table.\<close>

lemma positions_s_OpCodeFlags:
  "positions 17 0 s_OpCodeFlags = [0x2B..<0x38] @ [0xDE]"
  "positions 20 0 s_OpCodeFlags = [0x38..<0x45] @ [0xDD, 295]"
  "positions 32 0 s_OpCodeFlags = [0x45]"
  unfolding s_OpCodeFlags_eq
  by (simp_all add: positions_append positions_replicate del: upt_Suc upt_rec_numeral append_assoc)

lemma flags_rows:
  assumes "i < 296"
  shows "s_OpCodeFlags ! i = 17 \<longleftrightarrow> (0x2B \<le> i \<and> i < 0x38) \<or> i = 0xDE"
    and "s_OpCodeFlags ! i = 20 \<longleftrightarrow> (0x38 \<le> i \<and> i < 0x45) \<or> i = 0xDD \<or> i = 295"
    and "s_OpCodeFlags ! i = 32 \<longleftrightarrow> i = 0x45"
  using assms nth_positions [of i s_OpCodeFlags _ 0]
  by (auto simp: positions_s_OpCodeFlags simp del: upt_rec_numeral)

lemma flags_values: "set s_OpCodeFlags \<subseteq> {0, 1, 2, 4, 8, 17, 20, 32}"
  unfolding s_OpCodeFlags_eq by simp

text \<open>The numbers of the opcodes the code names are the positions of their rows.\<close>

fun rows_agree :: "u32 \<Rightarrow> (string \<times> u32) list \<Rightarrow> opdef list \<Rightarrow> bool" where
  "rows_agree i [] ds = True"
| "rows_agree i ((n, v) # ns) [] = False"
| "rows_agree i ((n, v) # ns) (d # ds) =
     (if i = v then fst d = n \<and> rows_agree (i + 1) ns ds else rows_agree (i + 1) ((n, v) # ns) ds)"

lemma named_opcodes_positions: "rows_agree 0 named_opcodes opcode_defs"
  by code_simp

end
