(* ===== verification/ILRewriter.thy ===== *)
theory ILRewriter
  imports ILOpcodes
begin

text \<open>
  The IL rewriter (\<^verbatim>\<open>il_rewriter.h\<close>, \<^verbatim>\<open>il_rewriter.cpp\<close>): its state, its doubly linked list
  of instructions and the import of a method body. The objects reached through pointers live
  in a store, the field \<open>heap\<close>: a pointer is an address, 0 is \<^verbatim>\<open>NULL\<close>, the sentinel
  \<^verbatim>\<open>m_IL\<close> has the address \<open>il_head\<close>, and \<^verbatim>\<open>new ILInstr()\<close> returns the next unused address
  (\<open>m_brk\<close>). An operation that may fail returns an \<open>exec\<close>; one that loops returns an option,
  \<open>None\<close> for a loop that does not end.
\<close>

section \<open>Outcomes and loops\<close>

text \<open>
  \<open>Ok\<close> is \<^verbatim>\<open>S_OK\<close>, \<open>Fail\<close> an error HRESULT, and \<open>Overrun\<close> a store outside the buffer it
  was meant for, which the source leaves undefined.
\<close>

datatype 'a exec = Ok 'a | Fail hresult | Overrun

primrec xbind :: "'a exec \<Rightarrow> ('a \<Rightarrow> 'b exec) \<Rightarrow> 'b exec" where
  "xbind (Ok x) f = f x"
| "xbind (Fail hr) f = Fail hr"
| "xbind Overrun f = Overrun"

definition obind_exec :: "'a exec option \<Rightarrow> ('a \<Rightarrow> 'b exec option) \<Rightarrow> 'b exec option" where
  "obind_exec m f = (case m of
     None \<Rightarrow> None
   | Some (Ok x) \<Rightarrow> f x
   | Some (Fail hr) \<Rightarrow> Some (Fail hr)
   | Some Overrun \<Rightarrow> Some Overrun)"

lemma obind_exec_simps [simp]:
  "obind_exec None f = None" "obind_exec (Some (Ok x)) f = f x"
  "obind_exec (Some (Fail hr)) f = Some (Fail hr)" "obind_exec (Some Overrun) f = Some Overrun"
  by (simp_all add: obind_exec_def)

lemma xbind_Ok_iff: "xbind m f = Ok y \<longleftrightarrow> (\<exists>x. m = Ok x \<and> f x = Ok y)"
  by (cases m) auto

text \<open>A body run over the elements of a list, up to its first failure.\<close>

primrec foldE :: "('s \<Rightarrow> 'a \<Rightarrow> 's exec) \<Rightarrow> 'a list \<Rightarrow> 's \<Rightarrow> 's exec" where
  "foldE body [] s = Ok s"
| "foldE body (p # ps) s = xbind (body s p) (foldE body ps)"

section \<open>Instructions and the store\<close>

type_synonym ptr = nat

abbreviation (input) NULL :: ptr where "NULL \<equiv> 0"

text \<open>
  The union of the operand: the eight bytes it occupies, or the pointer that was stored in
  it. A shorter member is its low bytes; reading a number where a pointer was stored gives
  the address, and reading a pointer where a number was stored the address it spells.
\<close>

datatype ILArg = Target ptr | Bits u64

record ILInstr =
  m_pNext :: ptr
  m_pPrev :: ptr
  m_opcode :: u32
  m_offset :: u32
  m_arg :: ILArg

type_synonym heap = "ptr \<Rightarrow> ILInstr"

primrec arg_bits :: "ILArg \<Rightarrow> u64" where
  "arg_bits (Target p) = of_nat p"
| "arg_bits (Bits w) = w"

primrec arg_ptr :: "ILArg \<Rightarrow> ptr" where
  "arg_ptr (Target p) = p"
| "arg_ptr (Bits w) = unat w"

text \<open>Writing a member of \<open>k\<close> bytes leaves the other bytes of the union as they were.\<close>

definition set_bytes :: "nat \<Rightarrow> u64 \<Rightarrow> ILArg \<Rightarrow> ILArg" where
  "set_bytes k v a =
     Bits (take_bit (8 * k) v OR push_bit (8 * k) (drop_bit (8 * k) (arg_bits a)))"

definition set_Arg8 :: "u8 \<Rightarrow> ILInstr \<Rightarrow> ILInstr" where
  "set_Arg8 v i = i \<lparr>m_arg := set_bytes 1 (ucast v) (m_arg i)\<rparr>"

definition set_Arg16 :: "u16 \<Rightarrow> ILInstr \<Rightarrow> ILInstr" where
  "set_Arg16 v i = i \<lparr>m_arg := set_bytes 2 (ucast v) (m_arg i)\<rparr>"

definition set_Arg32 :: "u32 \<Rightarrow> ILInstr \<Rightarrow> ILInstr" where
  "set_Arg32 v i = i \<lparr>m_arg := set_bytes 4 (ucast v) (m_arg i)\<rparr>"

definition set_Arg64 :: "u64 \<Rightarrow> ILInstr \<Rightarrow> ILInstr" where
  "set_Arg64 v i = i \<lparr>m_arg := set_bytes 8 v (m_arg i)\<rparr>"

definition set_pTarget :: "ptr \<Rightarrow> ILInstr \<Rightarrow> ILInstr" where
  "set_pTarget p i = i \<lparr>m_arg := Target p\<rparr>"

definition get_Arg32 :: "ILInstr \<Rightarrow> u32" where
  "get_Arg32 i = ucast (arg_bits (m_arg i))"

definition get_pTarget :: "ILInstr \<Rightarrow> ptr" where
  "get_pTarget i = arg_ptr (m_arg i)"

text \<open>The value of an object made by \<^verbatim>\<open>new ILInstr()\<close>: every member is zero.\<close>

definition zero_instr :: ILInstr where
  "zero_instr = \<lparr>m_pNext = NULL, m_pPrev = NULL, m_opcode = 0, m_offset = 0, m_arg = Bits 0\<rparr>"

section \<open>The state of the rewriter\<close>

text \<open>An exception clause; its last member is a union of a class token and a filter.\<close>

record EHClause =
  m_Flags :: u32
  m_pTryBegin :: ptr
  m_pTryEnd :: ptr
  m_pHandlerBegin :: ptr
  m_pHandlerEnd :: ptr
  m_ClassToken_pFilter :: ILArg

record ILRewriter =
  m_tkLocalVarSig :: u32
  m_maxStack :: u32
  m_flags :: u32
  m_fGenerateTinyHeader :: bool
  m_nEH :: u32
  m_pEH :: "EHClause list option"
  m_pOffsetToInstr :: "ptr list"
  m_CodeSize :: u32
  m_nInstrs :: u32
  m_pOutputBuffer :: bytes
  heap :: heap
  m_brk :: ptr

definition il_head :: ptr where
  "il_head = 1"

definition upd :: "ptr \<Rightarrow> (ILInstr \<Rightarrow> ILInstr) \<Rightarrow> ILRewriter \<Rightarrow> ILRewriter" where
  "upd p f s = s \<lparr>heap := (heap s) (p := f (heap s p))\<rparr>"

text \<open>
  The constructor. The members it does not initialise keep what the memory held, the
  argument \<open>mem\<close>.
\<close>

definition new_ILRewriter :: "ILRewriter \<Rightarrow> ILRewriter" where
  "new_ILRewriter mem = mem
     \<lparr>m_fGenerateTinyHeader := False, m_pEH := None, m_pOffsetToInstr := [], m_pOutputBuffer := [],
      heap := (heap mem) (il_head := (heap mem il_head) \<lparr>m_pNext := il_head, m_pPrev := il_head\<rparr>),
      m_nInstrs := 0, m_brk := 2\<rparr>"

definition InitializeTiny :: "ILRewriter \<Rightarrow> ILRewriter" where
  "InitializeTiny s = s
     \<lparr>m_tkLocalVarSig := 0, m_maxStack := 8, m_flags := 2, m_CodeSize := 0, m_nEH := 0,
      m_fGenerateTinyHeader := True\<rparr>"

definition GetTkLocalVarSig :: "ILRewriter \<Rightarrow> u32" where
  "GetTkLocalVarSig s = m_tkLocalVarSig s"

definition SetTkLocalVarSig :: "u32 \<Rightarrow> ILRewriter \<Rightarrow> ILRewriter" where
  "SetTkLocalVarSig tk s = s \<lparr>m_tkLocalVarSig := tk, m_fGenerateTinyHeader := False\<rparr>"

definition GetEHCount :: "ILRewriter \<Rightarrow> u32" where
  "GetEHCount s = m_nEH s"

definition GetEHPointer :: "ILRewriter \<Rightarrow> EHClause list option" where
  "GetEHPointer s = m_pEH s"

definition SetEHClause :: "EHClause list option \<Rightarrow> u32 \<Rightarrow> ILRewriter \<Rightarrow> ILRewriter" where
  "SetEHClause ehPointer ehLength s =
     (let s1 = (if m_pEH s \<noteq> None then s \<lparr>m_nEH := 0\<rparr> else s) in
      s1 \<lparr>m_nEH := ehLength, m_pEH := ehPointer\<rparr>)"

definition GetILList :: "ILRewriter \<Rightarrow> ptr" where
  "GetILList s = il_head"

definition GetMaxStackValue :: "ILRewriter \<Rightarrow> u32" where
  "GetMaxStackValue s = m_maxStack s"

section \<open>The linked list of instructions\<close>

definition NewILInstr :: "ILRewriter \<Rightarrow> ptr \<times> ILRewriter" where
  "NewILInstr s =
     (m_brk s,
      s \<lparr>m_nInstrs := m_nInstrs s + 1, heap := (heap s) (m_brk s := zero_instr),
         m_brk := m_brk s + 1\<rparr>)"

definition AdjustState :: "ptr \<Rightarrow> ILRewriter \<Rightarrow> ILRewriter" where
  "AdjustState pNewInstr s =
     s \<lparr>m_maxStack := m_maxStack s + stack_pushes (m_opcode (heap s pNewInstr))\<rparr>"

definition InsertBefore :: "ptr \<Rightarrow> ptr \<Rightarrow> ILRewriter \<Rightarrow> ILRewriter" where
  "InsertBefore pWhere pWhat s =
     (let s1 = upd pWhat (m_pNext_update (\<lambda>_. pWhere)) s;
          s2 = upd pWhat (m_pPrev_update (\<lambda>_. m_pPrev (heap s1 pWhere))) s1;
          s3 = upd (m_pNext (heap s2 pWhat)) (m_pPrev_update (\<lambda>_. pWhat)) s2;
          s4 = upd (m_pPrev (heap s3 pWhat)) (m_pNext_update (\<lambda>_. pWhat)) s3 in
      AdjustState pWhat s4)"

definition InsertAfter :: "ptr \<Rightarrow> ptr \<Rightarrow> ILRewriter \<Rightarrow> ILRewriter" where
  "InsertAfter pWhere pWhat s =
     (let s1 = upd pWhat (m_pNext_update (\<lambda>_. m_pNext (heap s pWhere))) s;
          s2 = upd pWhat (m_pPrev_update (\<lambda>_. pWhere)) s1;
          s3 = upd (m_pNext (heap s2 pWhat)) (m_pPrev_update (\<lambda>_. pWhat)) s2;
          s4 = upd (m_pPrev (heap s3 pWhat)) (m_pNext_update (\<lambda>_. pWhat)) s3 in
      AdjustState pWhat s4)"

text \<open>
  The loop \<^verbatim>\<open>for (p = m_IL.m_pNext; p != &m_IL; p = p->m_pNext)\<close> with its body; the link
  is read in the state the body leaves.
\<close>

partial_function (option) for_instrs ::
  "('s \<Rightarrow> ILRewriter) \<Rightarrow> ('s \<Rightarrow> ptr \<Rightarrow> 's exec) \<Rightarrow> ptr \<Rightarrow> 's \<Rightarrow> 's exec option" where
  "for_instrs rw body p s =
     (if p = il_head then Some (Ok s)
      else case body s p of
             Ok s' \<Rightarrow> for_instrs rw body (m_pNext (heap (rw s') p)) s'
           | Fail hr \<Rightarrow> Some (Fail hr)
           | Overrun \<Rightarrow> Some Overrun)"

declare for_instrs.simps [code]

definition first_instr :: "ILRewriter \<Rightarrow> ptr" where
  "first_instr s = m_pNext (heap s il_head)"

section \<open>The list refines a sequence of instructions\<close>

text \<open>
  \<open>chain h zs\<close>: every two neighbours of \<open>zs\<close> are linked in both directions. The rewriter's
  list is the ring through the sentinel and the addresses \<open>ps\<close>.
\<close>

fun chain :: "heap \<Rightarrow> ptr list \<Rightarrow> bool" where
  "chain h (a # b # zs) \<longleftrightarrow> m_pNext (h a) = b \<and> m_pPrev (h b) = a \<and> chain h (b # zs)"
| "chain h _ \<longleftrightarrow> True"

definition ring :: "ILRewriter \<Rightarrow> ptr list \<Rightarrow> bool" where
  "ring s ps \<longleftrightarrow>
     chain (heap s) (il_head # ps @ [il_head]) \<and> distinct (il_head # ps) \<and>
     (\<forall>p\<in>set (il_head # ps). p \<noteq> NULL \<and> p < m_brk s)"

lemma chain_append: "chain h (xs @ a # ys) \<longleftrightarrow> chain h (xs @ [a]) \<and> chain h (a # ys)"
  by (induction h xs rule: chain.induct) (auto; (cases ys; simp))+

lemma chain_frame:
  assumes "\<And>x. x \<in> set (butlast zs) \<Longrightarrow> m_pNext (h' x) = m_pNext (h x)"
    and "\<And>x. x \<in> set (tl zs) \<Longrightarrow> m_pPrev (h' x) = m_pPrev (h x)"
  shows "chain h' zs = chain h zs"
  using assms by (induction h zs rule: chain.induct) (auto split: if_splits)

text \<open>What both insertions do to the store: \<open>p\<close> is linked between \<open>a\<close> and \<open>b\<close>.\<close>

definition link_between :: "ptr \<Rightarrow> ptr \<Rightarrow> ptr \<Rightarrow> heap \<Rightarrow> heap" where
  "link_between a p b h = (\<lambda>x. (h x)
     \<lparr>m_pNext := if x = a then p else if x = p then b else m_pNext (h x),
      m_pPrev := if x = b then p else if x = p then a else m_pPrev (h x)\<rparr>)"

lemma link_between_simps [simp]:
  "m_pNext (link_between a p b h x) = (if x = a then p else if x = p then b else m_pNext (h x))"
  "m_pPrev (link_between a p b h x) = (if x = b then p else if x = p then a else m_pPrev (h x))"
  "m_opcode (link_between a p b h x) = m_opcode (h x)"
  "m_offset (link_between a p b h x) = m_offset (h x)"
  "m_arg (link_between a p b h x) = m_arg (h x)"
  "get_Arg32 (link_between a p b h x) = get_Arg32 (h x)"
  "get_pTarget (link_between a p b h x) = get_pTarget (h x)"
  by (simp_all add: link_between_def get_Arg32_def get_pTarget_def)

lemma InsertBefore_link:
  assumes "m_pPrev (heap s q) = a" and "p \<noteq> q" and "p \<noteq> a"
  shows "InsertBefore q p s = s
    \<lparr>heap := link_between a p q (heap s),
     m_maxStack := m_maxStack s + stack_pushes (m_opcode (heap s p))\<rparr>"
  using assms
  by (auto simp: InsertBefore_def upd_def AdjustState_def link_between_def Let_def fun_eq_iff)

lemma InsertAfter_link:
  assumes "m_pNext (heap s q) = b" and "p \<noteq> q" and "p \<noteq> b"
  shows "InsertAfter q p s = s
    \<lparr>heap := link_between q p b (heap s),
     m_maxStack := m_maxStack s + stack_pushes (m_opcode (heap s p))\<rparr>"
  using assms
  by (auto simp: InsertAfter_def upd_def AdjustState_def link_between_def Let_def fun_eq_iff)

lemma chain_link_between:
  assumes c: "chain h (xs @ a # b # ys)" and d: "distinct (xs @ [a] @ butlast (b # ys))"
    "distinct (tl (xs @ [a]) @ b # ys)" and p: "p \<notin> set (xs @ a # b # ys)"
  shows "chain (link_between a p b h) (xs @ a # p # b # ys)"
proof -
  let ?h = "link_between a p b h"
  have c1: "chain h (xs @ [a])" and c2: "chain h (b # ys)"
    using c chain_append [of h xs a "b # ys"] by auto
  have "chain ?h (xs @ [a])"
    using c1 d p by (subst chain_frame [where h = h]) (auto dest: list.set_sel(2) [rotated] split: if_splits simp: butlast_append)
  moreover have "chain ?h (b # ys)"
    using c2 d p by (subst chain_frame [where h = h]) (auto split: if_splits dest: in_set_butlastD)
  ultimately show ?thesis
    using p chain_append [of ?h xs a "p # b # ys"] by auto
qed

text \<open>The neighbours of a position of the ring, and a new address between them.\<close>

abbreviation left_of :: "ptr list \<Rightarrow> ptr" where "left_of xs \<equiv> last (il_head # xs)"
abbreviation right_of :: "ptr list \<Rightarrow> ptr" where "right_of ys \<equiv> hd (ys @ [il_head])"

definition unlinked :: "ILRewriter \<Rightarrow> ptr list \<Rightarrow> ptr \<Rightarrow> bool" where
  "unlinked s ps p \<longleftrightarrow> p \<noteq> NULL \<and> p < m_brk s \<and> p \<notin> set (il_head # ps)"

lemma ring_links:
  assumes "ring s (xs @ ys)"
  shows "m_pNext (heap s (left_of xs)) = right_of ys" and "m_pPrev (heap s (right_of ys)) = left_of xs"
proof -
  have "chain (heap s) (butlast (il_head # xs) @ left_of xs # (ys @ [il_head]))"
    using assms by (simp add: ring_def append_butlast_last_id
        flip: append_Cons append_assoc [of _ "[_]"] del: append_assoc last.simps butlast.simps)
       (metis append.assoc append_Cons append_butlast_last_id append_self_conv2 list.distinct(1))
  then have "chain (heap s) (left_of xs # ys @ [il_head])"
    using chain_append by blast
  then show "m_pNext (heap s (left_of xs)) = right_of ys" "m_pPrev (heap s (right_of ys)) = left_of xs"
    by (cases ys; simp)+
qed

lemma ring_link:
  assumes r: "ring s (xs @ ys)" and u: "unlinked s (xs @ ys) p"
  shows "chain (link_between (left_of xs) p (right_of ys) (heap s)) (il_head # xs @ p # ys @ [il_head])"
proof -
  obtain zs where zs: "il_head # xs = zs @ [left_of xs]"
    by (metis append_butlast_last_id list.distinct(1))
  obtain b ws where ws: "ys @ [il_head] = b # ws" by (cases ys) auto
  then have b: "right_of ys = b" by simp
  have eq: "il_head # (xs @ ys) @ [il_head] = zs @ left_of xs # b # ws"
    using zs ws by (metis append.assoc append_Cons append_Nil)
  have d1: "distinct (zs @ [left_of xs] @ butlast (b # ws))"
    using r zs ws unfolding ring_def
    by (metis append.assoc append_Cons butlast_snoc)
  have "tl (zs @ [left_of xs]) = xs" using zs by (metis list.sel(3))
  then have d2: "distinct (tl (zs @ [left_of xs]) @ b # ws)"
    using r ws unfolding ring_def
    by (metis append.assoc append.right_neutral distinct.simps(2) distinct1_rotate rotate1.simps(2))
  have "chain (link_between (left_of xs) p b (heap s)) (zs @ left_of xs # p # b # ws)"
  proof (rule chain_link_between)
    show "chain (heap s) (zs @ left_of xs # b # ws)" using r eq by (simp add: ring_def)
    show "p \<notin> set (zs @ left_of xs # b # ws)"
      using u eq unfolding unlinked_def by (metis Un_iff insertCI list.set(1,2) set_append empty_iff insertE list.simps(15))
  qed (use d1 d2 in auto)
  moreover have "zs @ left_of xs # p # b # ws = il_head # xs @ p # ys @ [il_head]"
    using zs ws by (metis append.assoc append_Cons append_Nil)
  ultimately show ?thesis by (simp add: b)
qed

lemma unlinked_neighbours:
  assumes "ring s (xs @ ys)" and "unlinked s (xs @ ys) p"
  shows "p \<noteq> left_of xs" and "p \<noteq> right_of ys"
  using assms by (cases xs rule: rev_cases; cases ys; auto simp: unlinked_def)+

text \<open>\<open>InsertBefore\<close> and \<open>InsertAfter\<close> are list insertion.\<close>

lemma ring_InsertBefore:
  assumes r: "ring s (xs @ ys)" and u: "unlinked s (xs @ ys) p"
  shows "ring (InsertBefore (right_of ys) p s) (xs @ p # ys)"
    and "InsertBefore (right_of ys) p s = s
      \<lparr>heap := link_between (left_of xs) p (right_of ys) (heap s),
       m_maxStack := m_maxStack s + stack_pushes (m_opcode (heap s p))\<rparr>"
proof -
  show eq: "InsertBefore (right_of ys) p s = s
      \<lparr>heap := link_between (left_of xs) p (right_of ys) (heap s),
       m_maxStack := m_maxStack s + stack_pushes (m_opcode (heap s p))\<rparr>"
    using InsertBefore_link ring_links(2) [OF r] unlinked_neighbours [OF r u] by blast
  show "ring (InsertBefore (right_of ys) p s) (xs @ p # ys)"
    using ring_link [OF r u] r u by (auto simp: eq ring_def unlinked_def)
qed

lemma ring_InsertAfter:
  assumes r: "ring s (xs @ ys)" and u: "unlinked s (xs @ ys) p"
  shows "ring (InsertAfter (left_of xs) p s) (xs @ p # ys)"
    and "InsertAfter (left_of xs) p s = s
      \<lparr>heap := link_between (left_of xs) p (right_of ys) (heap s),
       m_maxStack := m_maxStack s + stack_pushes (m_opcode (heap s p))\<rparr>"
proof -
  show eq: "InsertAfter (left_of xs) p s = s
      \<lparr>heap := link_between (left_of xs) p (right_of ys) (heap s),
       m_maxStack := m_maxStack s + stack_pushes (m_opcode (heap s p))\<rparr>"
    using InsertAfter_link ring_links(1) [OF r] unlinked_neighbours [OF r u] by blast
  show "ring (InsertAfter (left_of xs) p s) (xs @ p # ys)"
    unfolding eq using ring_link [OF r u] r u
    by (auto simp: ring_def unlinked_def simp del: last.simps)
qed

lemma ring_new: "ring (new_ILRewriter mem) []"
  by (simp add: ring_def new_ILRewriter_def il_head_def)

lemma NewILInstr_unlinked:
  assumes "ring s ps" and "NewILInstr s = (p, s')"
  shows "ring s' ps" and "unlinked s' ps p" and "heap s' p = zero_instr"
proof -
  have *: "p \<notin> set (il_head # ps @ [il_head])"
    using assms by (auto simp: ring_def NewILInstr_def)
  have "chain ((heap s)(p := zero_instr)) (il_head # ps @ [il_head])"
    using assms * by (subst chain_frame [where h = "heap s"]) (auto simp: ring_def split: if_splits)
  then show "ring s' ps"
    using assms by (auto simp: ring_def NewILInstr_def less_SucI)
  show "unlinked s' ps p"
    using assms * by (auto simp: ring_def NewILInstr_def unlinked_def)
  show "heap s' p = zero_instr"
    using assms by (auto simp: NewILInstr_def)
qed

section \<open>A loop over the list is a fold over its addresses\<close>

fun follows :: "heap \<Rightarrow> ptr \<Rightarrow> ptr list \<Rightarrow> bool" where
  "follows h q [] \<longleftrightarrow> m_pNext (h q) = il_head"
| "follows h q (p # ps) \<longleftrightarrow> m_pNext (h q) = p \<and> follows h p ps"

lemma chain_follows: "chain h (q # ps @ [il_head]) \<Longrightarrow> follows h q ps"
  by (induction ps arbitrary: q) auto

lemma ring_follows: "ring s ps \<Longrightarrow> follows (heap s) il_head ps"
  by (simp add: ring_def chain_follows)

lemma follows_frame: "(\<And>x. m_pNext (h' x) = m_pNext (h x)) \<Longrightarrow> follows h' q ps = follows h q ps"
  by (induction ps arbitrary: q) auto

lemma for_instrs_follows:
  assumes frame: "\<And>s p s' x. body s p = Ok s' \<Longrightarrow> m_pNext (heap (rw s') x) = m_pNext (heap (rw s) x)"
    and "follows (heap (rw s)) q ps" and "il_head \<notin> set ps"
  shows "for_instrs rw body (m_pNext (heap (rw s) q)) s = Some (foldE body ps s)"
  using assms(2,3)
proof (induction ps arbitrary: q s)
  case Nil
  then show ?case by (simp add: for_instrs.simps)
next
  case (Cons p ps)
  show ?case
  proof (cases "body s p")
    case (Ok s')
    have "follows (heap (rw s')) p ps"
      using Cons.prems follows_frame [of "heap (rw s')" "heap (rw s)"] frame [OF Ok] by simp
    with Cons.IH [of s' p] Cons.prems Ok show ?thesis by (subst for_instrs.simps) simp
  qed (use Cons.prems in \<open>simp_all add: for_instrs.simps\<close>)
qed

lemma for_instrs_ring:
  assumes "\<And>s p s' x. body s p = Ok s' \<Longrightarrow> m_pNext (heap (rw s') x) = m_pNext (heap (rw s) x)"
    and "ring (rw s) ps"
  shows "for_instrs rw body (first_instr (rw s)) s = Some (foldE body ps s)"
  unfolding first_instr_def
  by (rule for_instrs_follows) (use assms ring_follows in \<open>auto simp: ring_def\<close>)

section \<open>Insertion\<close>

text \<open>
  C23: On the list the rewriter keeps, inserting before or after a position is insertion into the
  sequence of its instructions, both directions of the links included, and the stack depth grows
  by what the new instruction pushes.
\<close>

theorem insertion_refines_list:
  assumes "ring s (xs @ ys)" and "unlinked s (xs @ ys) p"
  shows "ring (InsertBefore (right_of ys) p s) (xs @ p # ys) \<and>
    ring (InsertAfter (left_of xs) p s) (xs @ p # ys) \<and>
    m_maxStack (InsertBefore (right_of ys) p s) = m_maxStack s + stack_pushes (m_opcode (heap s p)) \<and>
    m_maxStack (InsertAfter (left_of xs) p s) = m_maxStack s + stack_pushes (m_opcode (heap s p))"
  using ring_InsertBefore [OF assms] ring_InsertAfter [OF assms] by (simp del: last.simps)

text \<open>Memory of zeros, in which the examples make their rewriter.\<close>

definition blank_memory :: ILRewriter where
  "blank_memory = \<lparr>m_tkLocalVarSig = 0, m_maxStack = 0, m_flags = 0, m_fGenerateTinyHeader = False,
     m_nEH = 0, m_pEH = None, m_pOffsetToInstr = [], m_CodeSize = 0, m_nInstrs = 0, m_pOutputBuffer = [],
     heap = (\<lambda>_. zero_instr), m_brk = 0\<rparr>"

lemma insertion_refines_list_witness:
  "\<exists>p s. NewILInstr (new_ILRewriter blank_memory) = (p, s) \<and> ring (InsertBefore il_head p s) [p]"
proof -
  obtain p s where n: "NewILInstr (new_ILRewriter blank_memory) = (p, s)"
    by (cases "NewILInstr (new_ILRewriter blank_memory)")
  note N = NewILInstr_unlinked [OF ring_new n]
  show ?thesis using insertion_refines_list [of s "[]" "[]" p] N n by simp
qed

end
