(* ===== verification/ILLayout.thy ===== *)
theory ILLayout
  imports ILRewriter
begin

text \<open>
  The layout of a list of instructions in the bytes of a method: the size of an instruction,
  the position of each in the code and its encoding. The functions are over the store and the
  addresses in the order of the ring; import and export are both specified with them.
\<close>

section \<open>Operands as bytes\<close>

primrec le_value :: "bytes \<Rightarrow> u64" where
  "le_value [] = 0"
| "le_value (b # bs) = ucast b OR push_bit 8 (le_value bs)"

primrec le_bytes :: "nat \<Rightarrow> u64 \<Rightarrow> bytes" where
  "le_bytes 0 w = []"
| "le_bytes (Suc k) w = ucast w # le_bytes k (drop_bit 8 w)"

lemma length_le_bytes [simp]: "length (le_bytes k w) = k"
  by (induction k arbitrary: w) auto

lemma le_bytes_take_bit: "le_bytes k (take_bit (8 * k) w) = le_bytes k w"
proof (induction k arbitrary: w)
  case (Suc k)
  have "ucast (take_bit (8 * Suc k) w) = (ucast w :: u8)"
    by (rule bit_word_eqI) (auto simp: bit_simps)
  moreover have "drop_bit 8 (take_bit (8 * Suc k) w) = take_bit (8 * k) (drop_bit 8 w)"
    by (simp add: drop_bit_take_bit)
  ultimately show ?case using Suc.IH [of "drop_bit 8 w"] by simp
qed simp

lemma bit_le_value: "bit (le_value bs) n \<Longrightarrow> n < 8 * length bs"
proof (induction bs arbitrary: n)
  case (Cons b bs)
  then show ?case
    by (cases "n < 8") (auto simp: bit_simps dest!: Cons.IH dest: bit_imp_le_length)
qed simp

lemma le_bytes_value:
  assumes "length bs \<le> 8"
  shows "le_bytes (length bs) (le_value bs) = bs"
  using assms
proof (induction bs)
  case (Cons b bs)
  have "ucast (le_value (b # bs)) = b"
    by (rule bit_word_eqI) (auto simp: bit_simps)
  moreover have "drop_bit 8 (le_value (b # bs)) = le_value bs"
    using Cons.prems
    by (intro bit_word_eqI) (auto simp: bit_simps dest: bit_le_value bit_imp_le_length)
  ultimately show ?case using Cons by simp
qed simp

lemma take_bit_le_value: "take_bit (8 * length bs) (le_value bs) = le_value bs"
  by (rule bit_word_eqI) (auto simp: bit_simps dest: bit_le_value)

lemma le_bytes_arg_bits_set: "le_bytes k (arg_bits (set_bytes k v a)) = le_bytes k v"
proof -
  have "take_bit (8 * k) (arg_bits (set_bytes k v a)) = take_bit (8 * k) v"
    by (rule bit_word_eqI) (auto simp: set_bytes_def bit_simps)
  then show ?thesis by (metis le_bytes_take_bit)
qed

section \<open>Sizes and positions\<close>

definition instr_size :: "u32 \<Rightarrow> nat" where
  "instr_size opcode =
     (if opcode < CEE_COUNT then (if 0x100 \<le> opcode then 2 else 1) else 0) +
     unat (op_flags opcode AND OPCODEFLAGS_SizeMask) +
     (if op_flags opcode = OPCODEFLAGS_Switch then 4 else 0)"

definition code_len :: "heap \<Rightarrow> ptr list \<Rightarrow> nat" where
  "code_len h ps = sum_list (map (\<lambda>p. instr_size (m_opcode (h p))) ps)"

text \<open>The distance from the start of the code to \<open>p\<close>; the whole length for the sentinel.\<close>

primrec position :: "heap \<Rightarrow> ptr list \<Rightarrow> ptr \<Rightarrow> nat" where
  "position h [] q = 0"
| "position h (p # ps) q = (if p = q then 0 else instr_size (m_opcode (h p)) + position h ps q)"

text \<open>The opcodes of instructions that have an encoding.\<close>

definition known_opcode :: "u32 \<Rightarrow> bool" where
  "known_opcode opcode \<longleftrightarrow> opcode < CEE_COUNT \<or> opcode = CEE_SWITCH_ARG"

section \<open>Encoding\<close>

definition encode_opcode :: "u32 \<Rightarrow> bytes" where
  "encode_opcode opcode =
     (if opcode < CEE_COUNT then (if 0x100 \<le> opcode then [ucast CEE_PREFIX1] else []) @ [ucast opcode]
      else [])"

text \<open>
  An instruction whose target, if it has one, is at \<open>t\<close>; \<open>base\<close> is the end of the jump table
  an entry belongs to and \<open>nxt\<close> the offset of the following instruction.
\<close>

definition encode_instr :: "ILInstr \<Rightarrow> u32 \<Rightarrow> u32 \<Rightarrow> u32 \<Rightarrow> bytes" where
  "encode_instr i t base nxt =
     encode_opcode (m_opcode i) @
     (let flags = op_flags (m_opcode i); k = unat (flags AND OPCODEFLAGS_SizeMask) in
      if m_opcode i = CEE_SWITCH_ARG then le_bytes 4 (ucast (t - base))
      else if flags AND OPCODEFLAGS_BranchTarget \<noteq> 0 then le_bytes k (ucast (t - nxt))
      else if flags = OPCODEFLAGS_Switch then le_bytes 4 (arg_bits (m_arg i))
      else le_bytes k (arg_bits (m_arg i)))"

definition next_base :: "ILInstr \<Rightarrow> u32 \<Rightarrow> nat \<Rightarrow> u32" where
  "next_base i base k =
     (if m_opcode i = CEE_SWITCH then of_nat k + 1 + 4 * (get_Arg32 i + 1) else base)"

fun encode :: "heap \<Rightarrow> (ptr \<Rightarrow> u32) \<Rightarrow> u32 \<Rightarrow> nat \<Rightarrow> ptr list \<Rightarrow> bytes list" where
  "encode h tgt base k [] = []"
| "encode h tgt base k (p # ps) =
     (let k' = k + instr_size (m_opcode (h p)) in
      encode_instr (h p) (tgt p) base (of_nat k') #
      encode h tgt (next_base (h p) base k) k' ps)"

fun end_base :: "heap \<Rightarrow> u32 \<Rightarrow> nat \<Rightarrow> ptr list \<Rightarrow> u32" where
  "end_base h base k [] = base"
| "end_base h base k (p # ps) =
     end_base h (next_base (h p) base k) (k + instr_size (m_opcode (h p))) ps"

text \<open>The distance of every short branch fits into its one byte.\<close>

definition fits_INT8 :: "u32 \<Rightarrow> bool" where
  "fits_INT8 d \<longleftrightarrow> scast (ucast d :: u8) = d"

fun fits :: "heap \<Rightarrow> (ptr \<Rightarrow> u32) \<Rightarrow> nat \<Rightarrow> ptr list \<Rightarrow> bool" where
  "fits h tgt k [] \<longleftrightarrow> True"
| "fits h tgt k (p # ps) \<longleftrightarrow>
     (let k' = k + instr_size (m_opcode (h p)) in
      (op_flags (m_opcode (h p)) = 1 OR OPCODEFLAGS_BranchTarget \<longrightarrow> fits_INT8 (tgt p - of_nat k')) \<and>
      fits h tgt k' ps)"

section \<open>Facts of sizes, positions and encodings\<close>

lemma code_len_simps [simp]:
  "code_len h [] = 0" "code_len h (p # ps) = instr_size (m_opcode (h p)) + code_len h ps"
  "code_len h (ps @ qs) = code_len h ps + code_len h qs"
  by (simp_all add: code_len_def)

lemma op_flags_values:
  assumes "unat op < 296"
  shows "op_flags op = 0 \<or> op_flags op = 1 \<or> op_flags op = 2 \<or> op_flags op = 4 \<or> op_flags op = 8 \<or>
    op_flags op = 17 \<or> op_flags op = 20 \<or> op_flags op = 32"
proof -
  have "op_flags op \<in> set s_OpCodeFlags" using assms by (simp add: op_flags_def)
  with flags_values have "op_flags op \<in> {0, 1, 2, 4, 8, 17, 20, 32}" by blast
  then show ?thesis by simp
qed

lemma opcode_unat: "unat (op :: u32) < 296 \<longleftrightarrow> op < 296"
  by (simp add: word_less_nat_alt)

lemma known_opcode_bound: "known_opcode op \<Longrightarrow> unat op < 296"
  by (auto simp: known_opcode_def word_less_nat_alt)

lemma op_flags_eq:
  assumes "unat op < 296"
  shows "op_flags op = 17 \<longleftrightarrow> (0x2B \<le> op \<and> op < 0x38) \<or> op = 0xDE"
    and "op_flags op = 20 \<longleftrightarrow> (0x38 \<le> op \<and> op < 0x45) \<or> op = 0xDD \<or> op = 295"
    and "op_flags op = 32 \<longleftrightarrow> op = 0x45"
  using flags_rows [OF assms]
  by (simp_all add: op_flags_def word_less_nat_alt word_le_nat_alt word_unat_eq_iff)

lemma op_flags_SWITCH [simp]: "op_flags 0x45 = 32"
  using op_flags_eq(3) [of "0x45"] by simp

lemma op_flags_SWITCH_ARG [simp]: "op_flags 295 = 20"
  using op_flags_eq(2) [of 295] by simp

lemma branch_flag:
  assumes "unat op < 296"
  shows "op_flags op AND OPCODEFLAGS_BranchTarget \<noteq> 0 \<longleftrightarrow> op_flags op = 17 \<or> op_flags op = 20"
  using op_flags_values [OF assms] by auto

lemma instr_size_le: "unat op < 296 \<Longrightarrow> instr_size op \<le> 10"
  using op_flags_values [of op] by (auto simp: instr_size_def)

lemma instr_size_pos: "known_opcode op \<Longrightarrow> 0 < instr_size op"
  by (auto simp: instr_size_def known_opcode_def)

lemma length_encode_instr:
  "unat (m_opcode i) < 296 \<Longrightarrow> length (encode_instr i t base nxt) = instr_size (m_opcode i)"
  using op_flags_values [of "m_opcode i"] op_flags_eq(3) [of "m_opcode i"]
  by (auto simp: encode_instr_def instr_size_def encode_opcode_def Let_def)

lemma length_encode [simp]: "length (encode h tgt base k ps) = length ps"
  by (induction ps arbitrary: base k) (auto simp: Let_def)

lemma length_concat_encode:
  "(\<And>p. p \<in> set ps \<Longrightarrow> unat (m_opcode (h p)) < 296) \<Longrightarrow>
   length (concat (encode h tgt base k ps)) = code_len h ps"
  by (induction ps arbitrary: base k) (auto simp: Let_def length_encode_instr)

lemma encode_append:
  "encode h tgt base k (ps @ qs) =
   encode h tgt base k ps @ encode h tgt (end_base h base k ps) (k + code_len h ps) qs"
  by (induction ps arbitrary: base k) (auto simp: Let_def add.assoc)

lemma end_base_append:
  "end_base h base k (ps @ qs) = end_base h (end_base h base k ps) (k + code_len h ps) qs"
  by (induction ps arbitrary: base k) (auto simp: add.assoc)

lemma fits_append:
  "fits h tgt k (ps @ qs) \<longleftrightarrow> fits h tgt k ps \<and> fits h tgt (k + code_len h ps) qs"
  by (induction ps arbitrary: k) (auto simp: Let_def add.assoc)

text \<open>Only the opcode and the operand of the instructions matter.\<close>

definition agree :: "heap \<Rightarrow> heap \<Rightarrow> ptr set \<Rightarrow> bool" where
  "agree h h' A \<longleftrightarrow> (\<forall>q\<in>A. m_opcode (h' q) = m_opcode (h q) \<and> m_arg (h' q) = m_arg (h q))"

lemma code_len_agree: "agree h h' (set ps) \<Longrightarrow> code_len h' ps = code_len h ps"
  by (induction ps) (auto simp: agree_def)

lemma position_agree: "agree h h' (set ps) \<Longrightarrow> position h' ps q = position h ps q"
  by (induction ps) (auto simp: agree_def)

lemma next_base_agree: "agree h h' {p} \<Longrightarrow> next_base (h' p) base k = next_base (h p) base k"
  by (simp add: agree_def next_base_def get_Arg32_def)

lemma encode_instr_agree:
  "agree h h' {p} \<Longrightarrow> encode_instr (h' p) t base nxt = encode_instr (h p) t base nxt"
  by (simp add: agree_def encode_instr_def Let_def)

lemma agree_Cons: "agree h h' (set (p # ps)) \<longleftrightarrow> agree h h' {p} \<and> agree h h' (set ps)"
  by (auto simp: agree_def)

lemma encode_agree:
  "agree h h' (set ps) \<Longrightarrow> (\<And>q. q \<in> set ps \<Longrightarrow> tgt' q = tgt q) \<Longrightarrow>
   encode h' tgt' base k ps = encode h tgt base k ps"
proof (induction ps arbitrary: base k)
  case (Cons p ps)
  have "m_opcode (h' p) = m_opcode (h p)" using Cons.prems(1) by (simp add: agree_def)
  then show ?case
    using Cons agree_Cons [of h h' p ps] next_base_agree [of h h' p] encode_instr_agree [of h h' p]
    by (simp add: Let_def)
qed simp

lemma fits_agree:
  "agree h h' (set ps) \<Longrightarrow> (\<And>q. q \<in> set ps \<Longrightarrow> tgt' q = tgt q) \<Longrightarrow>
   fits h' tgt' k ps = fits h tgt k ps"
  by (induction ps arbitrary: k) (auto simp: agree_def Let_def)

lemma end_base_agree: "agree h h' (set ps) \<Longrightarrow> end_base h' base k ps = end_base h base k ps"
proof (induction ps arbitrary: base k)
  case (Cons p ps)
  have "m_opcode (h' p) = m_opcode (h p)" using Cons.prems(1) by (simp add: agree_def)
  then show ?case using Cons agree_Cons [of h h' p ps] next_base_agree [of h h' p] by simp
qed simp

lemma position_notin: "q \<notin> set ps \<Longrightarrow> position h ps q = code_len h ps"
  by (induction ps) auto

lemma position_append:
  "position h (ps @ qs) q = (if q \<in> set ps then position h ps q else code_len h ps + position h qs q)"
  by (induction ps) auto

lemma position_le: "q \<in> set ps \<Longrightarrow> position h ps q + instr_size (m_opcode (h q)) \<le> code_len h ps"
  by (induction ps) auto

end
