(* ===== verification/ILImport.thy ===== *)
theory ILImport
  imports ILLayout
begin

text \<open>
  The import of a method body into the rewriter (\<^verbatim>\<open>ImportIL\<close>, \<^verbatim>\<open>ImportEH\<close> in
  \<^verbatim>\<open>il_rewriter.cpp\<close>). The code is read through the pointer \<open>pIL\<close>, a function from the
  distance to the byte; every read of the loop is guarded by the size of the code. The main
  lemma is \<open>ImportIL_layout\<close>: after a successful import the ring spells exactly the bytes of
  the code, and every branch points to the instruction at its target.
\<close>

section \<open>Reading the code\<close>

definition read_bytes :: "(nat \<Rightarrow> u8) \<Rightarrow> u32 \<Rightarrow> nat \<Rightarrow> bytes" where
  "read_bytes pIL offset k = map (\<lambda>i. pIL (unat offset + i)) [0..<k]"

definition read_INT8 :: "(nat \<Rightarrow> u8) \<Rightarrow> u32 \<Rightarrow> u8" where
  "read_INT8 pIL offset = ucast (le_value (read_bytes pIL offset 1))"

definition read_INT16 :: "(nat \<Rightarrow> u8) \<Rightarrow> u32 \<Rightarrow> u16" where
  "read_INT16 pIL offset = ucast (le_value (read_bytes pIL offset 2))"

definition read_INT32 :: "(nat \<Rightarrow> u8) \<Rightarrow> u32 \<Rightarrow> u32" where
  "read_INT32 pIL offset = ucast (le_value (read_bytes pIL offset 4))"

definition read_INT64 :: "(nat \<Rightarrow> u8) \<Rightarrow> u32 \<Rightarrow> u64" where
  "read_INT64 pIL offset = le_value (read_bytes pIL offset 8)"

section \<open>Import of the instructions\<close>

definition GetInstrFromOffset :: "u32 \<Rightarrow> ILRewriter \<Rightarrow> ptr exec" where
  "GetInstrFromOffset offset s =
     (if offset \<le> m_CodeSize s
      then (let result = m_pOffsetToInstr s ! unat offset in
            if result \<noteq> NULL then Ok result else Fail COR_E_INVALIDPROGRAM)
      else Fail COR_E_INVALIDPROGRAM)"

text \<open>The opcode, of one byte or of two after \<^verbatim>\<open>CEE_PREFIX1\<close>, and the offset behind it.\<close>

definition fetch_opcode :: "(nat \<Rightarrow> u8) \<Rightarrow> u32 \<Rightarrow> u32 \<Rightarrow> (u32 \<times> u32) exec" where
  "fetch_opcode pIL codeSize offset =
     (let opcode = ucast (pIL (unat offset)); offset = offset + 1 in
      if opcode = CEE_PREFIX1
      then (if codeSize \<le> offset then Fail COR_E_INVALIDPROGRAM
            else Ok (0x100 + ucast (pIL (unat offset)), offset + 1))
      else Ok (opcode, offset))"

text \<open>
  The entries of a jump table, with the comparisons of \<^verbatim>\<open>offset + sizeof(INT32)\<close> in the
  width of \<^verbatim>\<open>size_t\<close>, where they do not wrap.
\<close>

primrec import_switch_args ::
  "(nat \<Rightarrow> u8) \<Rightarrow> u32 \<Rightarrow> nat \<Rightarrow> u32 \<times> ILRewriter \<Rightarrow> (u32 \<times> ILRewriter) exec" where
  "import_switch_args pIL base 0 st = Ok st"
| "import_switch_args pIL base (Suc n) st =
     (let (offset, s) = st in
      if unat offset + 4 > unat (m_CodeSize s) then Fail COR_E_INVALIDPROGRAM
      else
        let (pInstr, s1) = NewILInstr s;
            s2 = upd pInstr (m_opcode_update (\<lambda>_. CEE_SWITCH_ARG)) s1;
            s3 = upd pInstr (set_Arg32 (base + read_INT32 pIL offset)) s2 in
        import_switch_args pIL base n (offset + 4, InsertBefore il_head pInstr s3))"

text \<open>The \<^verbatim>\<open>switch (flags)\<close>: the operand, and whether it has branch targets to resolve.\<close>

definition import_operand ::
  "(nat \<Rightarrow> u8) \<Rightarrow> u8 \<Rightarrow> ptr \<Rightarrow> bool \<Rightarrow> u32 \<Rightarrow> ILRewriter \<Rightarrow> (u32 \<times> bool \<times> ILRewriter) exec" where
  "import_operand pIL flags pInstr fBranch offset s =
     (if flags = 0 then Ok (offset, fBranch, s)
      else if flags = 1 then Ok (offset, fBranch, upd pInstr (set_Arg8 (read_INT8 pIL offset)) s)
      else if flags = 2 then Ok (offset, fBranch, upd pInstr (set_Arg16 (read_INT16 pIL offset)) s)
      else if flags = 4 then Ok (offset, fBranch, upd pInstr (set_Arg32 (read_INT32 pIL offset)) s)
      else if flags = 8 then Ok (offset, fBranch, upd pInstr (set_Arg64 (read_INT64 pIL offset)) s)
      else if flags = 1 OR OPCODEFLAGS_BranchTarget then
        Ok (offset, True, upd pInstr (set_Arg32 (offset + 1 + scast (read_INT8 pIL offset))) s)
      else if flags = 4 OR OPCODEFLAGS_BranchTarget then
        Ok (offset, True, upd pInstr (set_Arg32 (offset + 4 + read_INT32 pIL offset)) s)
      else if flags = 0 OR OPCODEFLAGS_Switch then
        (if unat offset + 4 > unat (m_CodeSize s) then Fail COR_E_INVALIDPROGRAM
         else
           let nTargets = read_INT32 pIL offset;
               s1 = upd pInstr (set_Arg32 nTargets) s;
               offset1 = offset + 4;
               base = offset1 + nTargets * 4 in
           xbind (import_switch_args pIL base (unat nTargets) (offset1, s1))
             (\<lambda>(offset2, s2). Ok (offset2, True, s2)))
      else Fail COR_E_INVALIDPROGRAM)"

text \<open>One round of the loop over the code.\<close>

definition import_instr ::
  "(nat \<Rightarrow> u8) \<Rightarrow> u32 \<times> bool \<times> ILRewriter \<Rightarrow> (u32 \<times> bool \<times> ILRewriter) exec" where
  "import_instr pIL st =
     (let (startOffset, fBranch, s) = st in
      xbind (fetch_opcode pIL (m_CodeSize s) startOffset) (\<lambda>(opcode, offset).
        if CEE_PREFIX7 \<le> opcode \<and> opcode \<le> CEE_PREFIX2 then Fail COR_E_INVALIDPROGRAM
        else if CEE_COUNT \<le> opcode then Fail COR_E_INVALIDPROGRAM
        else
          let flags = op_flags opcode;
              size = ucast (flags AND OPCODEFLAGS_SizeMask) in
          if offset + size > m_CodeSize s then Fail COR_E_INVALIDPROGRAM
          else
            let (pInstr, s1) = NewILInstr s;
                s2 = upd pInstr (m_opcode_update (\<lambda>_. opcode)) s1;
                s3 = InsertBefore il_head pInstr s2;
                s4 = s3 \<lparr>m_pOffsetToInstr := (m_pOffsetToInstr s3) [unat startOffset := pInstr]\<rparr> in
            xbind (import_operand pIL flags pInstr fBranch offset s4)
              (\<lambda>(offset1, fBranch1, s5). Ok (offset1 + size, fBranch1, s5))))"

partial_function (option) import_loop ::
  "(nat \<Rightarrow> u8) \<Rightarrow> u32 \<times> bool \<times> ILRewriter \<Rightarrow> (u32 \<times> bool \<times> ILRewriter) exec option" where
  "import_loop pIL st =
     (if fst st < m_CodeSize (snd (snd st))
      then case import_instr pIL st of
             Ok st' \<Rightarrow> import_loop pIL st'
           | Fail hr \<Rightarrow> Some (Fail hr)
           | Overrun \<Rightarrow> Some Overrun
      else Some (Ok st))"

declare import_loop.simps [code]

definition resolve_target :: "ILRewriter \<Rightarrow> ptr \<Rightarrow> ILRewriter exec" where
  "resolve_target s pInstr =
     (if op_flags (m_opcode (heap s pInstr)) AND OPCODEFLAGS_BranchTarget \<noteq> 0
      then xbind (GetInstrFromOffset (get_Arg32 (heap s pInstr)) s)
             (\<lambda>t. Ok (upd pInstr (set_pTarget t) s))
      else Ok s)"

definition ImportIL :: "(nat \<Rightarrow> u8) \<Rightarrow> ILRewriter \<Rightarrow> ILRewriter exec option" where
  "ImportIL pIL s =
     (let s1 = s \<lparr>m_pOffsetToInstr := replicate (unat (m_CodeSize s)) NULL @ [il_head]\<rparr>;
          s2 = upd il_head (m_opcode_update (\<lambda>_. - 1)) s1 in
      obind_exec (import_loop pIL (0, False, s2)) (\<lambda>(offset, fBranch, s3).
        if offset \<noteq> m_CodeSize s3 then Some (Fail COR_E_INVALIDPROGRAM)
        else if fBranch then for_instrs (\<lambda>s. s) resolve_target (first_instr s3) s3
        else Some (Ok s3)))"

section \<open>What the import keeps of the list\<close>

lemma links_set [simp]:
  "m_pNext (set_Arg8 a i) = m_pNext i" "m_pPrev (set_Arg8 a i) = m_pPrev i"
  "m_pNext (set_Arg16 b i) = m_pNext i" "m_pPrev (set_Arg16 b i) = m_pPrev i"
  "m_pNext (set_Arg32 c i) = m_pNext i" "m_pPrev (set_Arg32 c i) = m_pPrev i"
  "m_pNext (set_Arg64 d i) = m_pNext i" "m_pPrev (set_Arg64 d i) = m_pPrev i"
  "m_pNext (set_pTarget p i) = m_pNext i" "m_pPrev (set_pTarget p i) = m_pPrev i"
  by (simp_all add: set_Arg8_def set_Arg16_def set_Arg32_def set_Arg64_def set_pTarget_def)

lemma opcode_set [simp]:
  "m_opcode (set_Arg8 a i) = m_opcode i" "m_opcode (set_Arg16 b i) = m_opcode i"
  "m_opcode (set_Arg32 c i) = m_opcode i" "m_opcode (set_Arg64 d i) = m_opcode i"
  "m_opcode (set_pTarget p i) = m_opcode i"
  by (simp_all add: set_Arg8_def set_Arg16_def set_Arg32_def set_Arg64_def set_pTarget_def)

lemma upd_simps [simp]:
  "heap (upd p f s) q = (if q = p then f (heap s p) else heap s q)"
  "m_CodeSize (upd p f s) = m_CodeSize s" "m_pOffsetToInstr (upd p f s) = m_pOffsetToInstr s"
  "m_nInstrs (upd p f s) = m_nInstrs s" "m_maxStack (upd p f s) = m_maxStack s"
  "m_brk (upd p f s) = m_brk s" "m_pOutputBuffer (upd p f s) = m_pOutputBuffer s"
  "m_pEH (upd p f s) = m_pEH s" "m_nEH (upd p f s) = m_nEH s"
  "m_tkLocalVarSig (upd p f s) = m_tkLocalVarSig s" "m_flags (upd p f s) = m_flags s"
  "m_fGenerateTinyHeader (upd p f s) = m_fGenerateTinyHeader s"
  by (simp_all add: upd_def)

lemma ring_frame:
  assumes "\<And>x. m_pNext (heap s' x) = m_pNext (heap s x)"
    and "\<And>x. m_pPrev (heap s' x) = m_pPrev (heap s x)" and "m_brk s' = m_brk s"
  shows "ring s' ps = ring s ps"
  using assms chain_frame [of _ "heap s'" "heap s"] by (simp add: ring_def)

lemma ring_upd:
  "(\<And>i. m_pNext (f i) = m_pNext i) \<Longrightarrow> (\<And>i. m_pPrev (f i) = m_pPrev i) \<Longrightarrow>
   ring (upd p f s) ps = ring s ps"
  by (rule ring_frame) auto

text \<open>A new instruction, given its members by \<open>f\<close> and inserted at the end of the list.\<close>

lemma append_instr:
  assumes r: "ring s ps" and n: "NewILInstr s = (p, s1)"
    and f: "\<And>i. m_pNext (f i) = m_pNext i" "\<And>i. m_pPrev (f i) = m_pPrev i"
    and s': "s' = InsertBefore il_head p (upd p f s1)"
  shows "ring s' (ps @ [p])" and "p \<notin> set (il_head # ps)" and "p \<noteq> NULL"
    and "agree (heap s) (heap s') (- {p})"
    and "m_opcode (heap s' p) = m_opcode (f zero_instr)" and "m_arg (heap s' p) = m_arg (f zero_instr)"
    and "m_CodeSize s' = m_CodeSize s" and "m_pOffsetToInstr s' = m_pOffsetToInstr s"
    and "m_nInstrs s' = m_nInstrs s + 1"
    and "m_maxStack s' = m_maxStack s + stack_pushes (m_opcode (f zero_instr))"
proof -
  have u: "unlinked (upd p f s1) (ps @ []) p" and r2: "ring (upd p f s1) (ps @ [])"
    using NewILInstr_unlinked [OF r n] ring_upd [of f p s1 ps] f by (auto simp: unlinked_def)
  note I = ring_InsertBefore [OF r2 u]
  show "ring s' (ps @ [p])" using I(1) s' by simp
  have eq: "s' = (upd p f s1)
      \<lparr>heap := link_between (left_of ps) p il_head (heap (upd p f s1)),
       m_maxStack := m_maxStack s1 + stack_pushes (m_opcode (heap (upd p f s1) p))\<rparr>"
    using I(2) s' by simp
  have z: "heap s1 p = zero_instr" using NewILInstr_unlinked(3) [OF r n] .
  have s1: "s1 = s \<lparr>m_nInstrs := m_nInstrs s + 1, heap := (heap s) (p := zero_instr),
         m_brk := m_brk s + 1\<rparr>"
    using n by (auto simp: NewILInstr_def)
  show "p \<notin> set (il_head # ps)" "p \<noteq> NULL" using u by (auto simp: unlinked_def)
  show "agree (heap s) (heap s') (- {p})" unfolding eq by (simp add: agree_def s1)
  show "m_opcode (heap s' p) = m_opcode (f zero_instr)" "m_arg (heap s' p) = m_arg (f zero_instr)"
    unfolding eq by (simp_all add: z)
  show "m_CodeSize s' = m_CodeSize s" "m_pOffsetToInstr s' = m_pOffsetToInstr s"
    "m_nInstrs s' = m_nInstrs s + 1"
    "m_maxStack s' = m_maxStack s + stack_pushes (m_opcode (f zero_instr))"
    unfolding eq by (simp_all add: s1)
qed

section \<open>The bytes read are the bytes encoded\<close>

lemma length_read_bytes [simp]: "length (read_bytes pIL offset k) = k"
  by (simp add: read_bytes_def)

lemma le_bytes_cong: "take_bit (8 * k) v = take_bit (8 * k) w \<Longrightarrow> le_bytes k v = le_bytes k w"
  by (metis le_bytes_take_bit)

lemma take_bit_ucast:
  "take_bit 8 (ucast (ucast (w :: u64) :: u8) :: u64) = take_bit 8 w"
  "take_bit 16 (ucast (ucast (w :: u64) :: u16) :: u64) = take_bit 16 w"
  "take_bit 32 (ucast (ucast (w :: u64) :: u32) :: u64) = take_bit 32 w"
  by (rule bit_word_eqI; auto simp: bit_simps)+

lemma le_bytes_read:
  "le_bytes 1 (ucast (read_INT8 pIL offset)) = read_bytes pIL offset 1"
  "le_bytes 2 (ucast (read_INT16 pIL offset)) = read_bytes pIL offset 2"
  "le_bytes 4 (ucast (read_INT32 pIL offset)) = read_bytes pIL offset 4"
  "le_bytes 8 (read_INT64 pIL offset) = read_bytes pIL offset 8"
proof -
  have *: "le_bytes k (le_value (read_bytes pIL offset k)) = read_bytes pIL offset k" if "k \<le> 8" for k
    using le_bytes_value [of "read_bytes pIL offset k"] that by simp
  show "le_bytes 1 (ucast (read_INT8 pIL offset)) = read_bytes pIL offset 1"
    using le_bytes_cong [of 1 _ "le_value (read_bytes pIL offset 1)"] take_bit_ucast(1) * [of 1]
    by (simp add: read_INT8_def del: One_nat_def)
  show "le_bytes 2 (ucast (read_INT16 pIL offset)) = read_bytes pIL offset 2"
    using take_bit_ucast(2)
    by (subst * [symmetric]) (auto simp: read_INT16_def intro!: le_bytes_cong)
  show "le_bytes 4 (ucast (read_INT32 pIL offset)) = read_bytes pIL offset 4"
    using take_bit_ucast(3)
    by (subst * [symmetric]) (auto simp: read_INT32_def intro!: le_bytes_cong)
  show "le_bytes 8 (read_INT64 pIL offset) = read_bytes pIL offset 8"
    using * by (simp add: read_INT64_def)
qed

lemma le_bytes_scast: "le_bytes 1 (ucast (scast (b :: u8) :: u32)) = le_bytes 1 (ucast b)"
  by (rule le_bytes_cong) (rule bit_word_eqI, auto simp: bit_simps)

lemma get_set_Arg32 [simp]: "get_Arg32 (set_Arg32 v i) = v"
  by (rule bit_word_eqI) (auto simp: get_Arg32_def set_Arg32_def set_bytes_def bit_simps)

lemma get_Arg32_cong: "m_arg i = m_arg j \<Longrightarrow> get_Arg32 i = get_Arg32 j"
  by (simp add: get_Arg32_def)

lemma fits_INT8_scast: "fits_INT8 (scast (b :: u8))"
proof -
  have "ucast (scast b :: u32) = b" by (rule bit_word_eqI) (auto simp: bit_simps)
  then show ?thesis by (simp add: fits_INT8_def)
qed

lemma fetch_opcode_bytes:
  assumes f: "fetch_opcode pIL codeSize offset = Ok (op, offset1)" and o: "offset < codeSize"
  shows "offset1 \<le> codeSize"
    and "op < CEE_COUNT \<Longrightarrow> encode_opcode op = map pIL [unat offset..<unat offset1]"
    and "op < CEE_COUNT \<Longrightarrow> unat offset1 = unat offset + (if 0x100 \<le> op then 2 else 1)"
proof -
  have o1: "unat (offset + 1) = unat offset + 1" "offset + 1 \<le> codeSize"
    using unat_Suc32 [OF o] inc_le32 [OF o] .
  have "offset1 \<le> codeSize \<and> (op < CEE_COUNT \<longrightarrow>
     encode_opcode op = map pIL [unat offset..<unat offset1] \<and>
     unat offset1 = unat offset + (if 0x100 \<le> op then 2 else 1))"
  proof (cases "ucast (pIL (unat offset)) = (CEE_PREFIX1 :: u32)")
    case True
    with f have c: "offset + 1 < codeSize" and op: "op = 0x100 + ucast (pIL (unat (offset + 1)))"
      and off: "offset1 = offset + 1 + 1"
      by (auto simp: fetch_opcode_def Let_def split: if_splits)
    have o2: "unat offset1 = unat offset + 2" "offset1 \<le> codeSize"
      using unat_Suc32 [OF c] inc_le32 [OF c] o1 off by auto
    have "pIL (unat offset) = 0xFE"
      using True ucast_ucast_u8 [of "pIL (unat offset)"] by simp
    moreover have "0x100 \<le> op"
    proof -
      have "unat (ucast (pIL (unat (offset + 1))) :: u32) < 256"
        using ucast_byte_bound [of "pIL (unat (offset + 1))"] by (simp add: word_less_nat_alt)
      then show ?thesis by (simp add: op word_le_nat_alt unat_word_ariths)
    qed
    ultimately show ?thesis
      using o1 o2 by (simp add: encode_opcode_def op ucast_two_byte upt_rec)
  next
    case False
    with f have op: "op = ucast (pIL (unat offset))" and off: "offset1 = offset + 1"
      by (auto simp: fetch_opcode_def Let_def split: if_splits)
    have "\<not> 0x100 \<le> op" using ucast_byte_bound op by (simp add: not_le)
    then show ?thesis using o1 by (simp add: encode_opcode_def op off)
  qed
  then show "offset1 \<le> codeSize"
    "op < CEE_COUNT \<Longrightarrow> encode_opcode op = map pIL [unat offset..<unat offset1]"
    "op < CEE_COUNT \<Longrightarrow> unat offset1 = unat offset + (if 0x100 \<le> op then 2 else 1)"
    by blast+
qed

section \<open>The list spells the code read so far\<close>

text \<open>
  \<open>spelled pIL s offset ps\<close>: the instructions at \<open>ps\<close>, with the targets still in \<open>m_Arg32\<close>,
  encode to the first \<open>offset\<close> bytes of the code.
\<close>

definition raw_target :: "heap \<Rightarrow> ptr \<Rightarrow> u32" where
  "raw_target h p = get_Arg32 (h p)"

definition spelled :: "(nat \<Rightarrow> u8) \<Rightarrow> ILRewriter \<Rightarrow> u32 \<Rightarrow> ptr list \<Rightarrow> bool" where
  "spelled pIL s offset ps \<longleftrightarrow>
     ring s ps \<and> offset \<le> m_CodeSize s \<and> code_len (heap s) ps = unat offset \<and>
     (\<forall>p\<in>set ps. known_opcode (m_opcode (heap s p))) \<and>
     concat (encode (heap s) (raw_target (heap s)) 0 0 ps) = map pIL [0..<unat offset] \<and>
     fits (heap s) (raw_target (heap s)) 0 ps"

text \<open>The table of offsets holds each instruction that is not an entry of a jump table, only.\<close>

definition table_ok :: "ILRewriter \<Rightarrow> ptr list \<Rightarrow> bool" where
  "table_ok s ps \<longleftrightarrow>
     (ps \<noteq> [] \<longrightarrow> m_opcode (heap s (hd ps)) \<noteq> CEE_SWITCH_ARG) \<and>
     length (m_pOffsetToInstr s) = Suc (unat (m_CodeSize s)) \<and>
     m_pOffsetToInstr s ! unat (m_CodeSize s) = il_head \<and>
     (\<forall>j<unat (m_CodeSize s). \<forall>p. m_pOffsetToInstr s ! j = p \<and> p \<noteq> NULL \<longleftrightarrow>
        p \<in> set ps \<and> m_opcode (heap s p) \<noteq> CEE_SWITCH_ARG \<and> position (heap s) ps p = j)"

text \<open>What an import step does not change, and the totals it keeps.\<close>

definition totals :: "ILRewriter \<Rightarrow> ILRewriter \<Rightarrow> ptr list \<Rightarrow> bool" where
  "totals s0 s ps \<longleftrightarrow>
     m_CodeSize s = m_CodeSize s0 \<and>
     m_nInstrs s = m_nInstrs s0 + of_nat (length ps) \<and>
     m_maxStack s = m_maxStack s0 + sum_list (map (\<lambda>p. stack_pushes (m_opcode (heap s p))) ps)"

lemma spelled_append:
  assumes sp: "spelled pIL s offset ps" and r: "ring s' (ps @ [p])" and p: "p \<notin> set ps"
    and ag: "agree (heap s) (heap s') (set ps)"
    and cs: "m_CodeSize s' = m_CodeSize s" "offset' \<le> m_CodeSize s"
    and k: "known_opcode (m_opcode (heap s' p))"
    and o: "unat offset' = unat offset + instr_size (m_opcode (heap s' p))"
    and b: "encode_instr (heap s' p) (get_Arg32 (heap s' p)) (end_base (heap s) 0 0 ps) offset' =
      map pIL [unat offset..<unat offset']"
    and f: "op_flags (m_opcode (heap s' p)) = 17 \<Longrightarrow> fits_INT8 (get_Arg32 (heap s' p) - offset')"
  shows "spelled pIL s' offset' (ps @ [p])"
proof -
  note S = sp [unfolded spelled_def]
  have tg: "raw_target (heap s') q = raw_target (heap s) q" if "q \<in> set ps" for q
    using ag that by (simp add: raw_target_def agree_def get_Arg32_def)
  have len: "code_len (heap s') ps = unat offset" using S code_len_agree [OF ag] by simp
  note k' = o [symmetric]
  have E: "encode (heap s') (raw_target (heap s')) 0 0 ps = encode (heap s) (raw_target (heap s)) 0 0 ps"
    by (rule encode_agree [OF ag tg])
  have "encode (heap s') (raw_target (heap s')) (end_base (heap s) 0 0 ps) (unat offset) [p] =
      [map pIL [unat offset..<unat offset']]"
    by (simp add: Let_def raw_target_def k' b)
  then have "concat (encode (heap s') (raw_target (heap s')) 0 0 (ps @ [p])) =
      map pIL [0..<unat offset] @ map pIL [unat offset..<unat offset']"
    using S by (simp only: encode_append E len end_base_agree [OF ag] concat_append add_0) simp
  moreover have "[0..<unat offset] @ [unat offset..<unat offset'] = [0..<unat offset']"
    using o upt_add_eq_append [of 0 "unat offset"] by simp
  ultimately have c: "concat (encode (heap s') (raw_target (heap s')) 0 0 (ps @ [p])) =
    map pIL [0..<unat offset']" by (metis map_append)
  have "fits (heap s') (raw_target (heap s')) (unat offset) [p]"
    using f by (simp add: Let_def raw_target_def k')
  then have "fits (heap s') (raw_target (heap s')) 0 (ps @ [p])"
    using S fits_agree [OF ag tg, where k = 0] len by (simp only: fits_append add_0 simp_thms)
  moreover have "\<forall>q\<in>set (ps @ [p]). known_opcode (m_opcode (heap s' q))"
    using S k ag by (auto simp: agree_def)
  ultimately show ?thesis
    using r cs o len c by (simp add: spelled_def)
qed

lemma totals_append:
  assumes "totals s0 s ps" and "agree (heap s) (heap s') (set ps)" and "m_CodeSize s' = m_CodeSize s"
    and "m_nInstrs s' = m_nInstrs s + 1"
    and "m_maxStack s' = m_maxStack s + stack_pushes (m_opcode (heap s' p))"
  shows "totals s0 s' (ps @ [p])"
proof -
  have "map (\<lambda>p. stack_pushes (m_opcode (heap s' p))) ps = map (\<lambda>p. stack_pushes (m_opcode (heap s p))) ps"
    using assms(2) by (auto simp: agree_def)
  then have "sum_list (map (\<lambda>p. stack_pushes (m_opcode (heap s' p))) ps) =
    sum_list (map (\<lambda>p. stack_pushes (m_opcode (heap s p))) ps)" by (rule arg_cong)
  with assms show ?thesis by (simp add: totals_def)
qed

lemma spelled_positions:
  assumes "spelled pIL s offset ps" and "q \<in> set ps"
  shows "position (heap s) ps q < unat offset"
  using assms position_le [of q ps "heap s"] instr_size_pos [of "m_opcode (heap s q)"]
  by (force simp: spelled_def)

lemma table_ok_append_arg:
  assumes "table_ok s ps" and "ps \<noteq> []" and "p \<notin> set ps" and "agree (heap s) (heap s') (set ps)"
    and "m_CodeSize s' = m_CodeSize s" and "m_pOffsetToInstr s' = m_pOffsetToInstr s"
    and "m_opcode (heap s' p) = CEE_SWITCH_ARG"
  shows "table_ok s' (ps @ [p])"
  using assms(1-3,5-7) position_agree [OF assms(4)] assms(4)
  by (auto simp: table_ok_def position_append agree_def)

lemma table_ok_append_instr:
  assumes t: "table_ok s ps" and sp: "spelled pIL s offset ps" and o: "offset < m_CodeSize s"
    and p: "p \<notin> set ps" "p \<noteq> NULL" and ag: "agree (heap s) (heap s') (set ps)"
    and cs: "m_CodeSize s' = m_CodeSize s"
    and tb: "m_pOffsetToInstr s' = (m_pOffsetToInstr s) [unat offset := p]"
    and op: "m_opcode (heap s' p) \<noteq> CEE_SWITCH_ARG"
  shows "table_ok s' (ps @ [p])"
proof -
  have ou: "unat offset < unat (m_CodeSize s)" using o by (simp add: word_less_nat_alt)
  have len: "code_len (heap s') ps = unat offset"
    using sp code_len_agree [OF ag] by (simp add: spelled_def)
  have pos: "position (heap s') (ps @ [p]) q =
      (if q \<in> set ps then position (heap s) ps q else if q = p then unat offset
       else unat offset + instr_size (m_opcode (heap s' p)))" for q
    using p position_agree [OF ag] len by (simp add: position_append)
  have lt: "position (heap s) ps q < unat offset" if "q \<in> set ps" for q
    using spelled_positions [OF sp that] .
  have "(m_pOffsetToInstr s') ! j = q \<and> q \<noteq> NULL \<longleftrightarrow>
      q \<in> set (ps @ [p]) \<and> m_opcode (heap s' q) \<noteq> CEE_SWITCH_ARG \<and> position (heap s') (ps @ [p]) q = j"
    if j: "j < unat (m_CodeSize s)" for j q
  proof (cases "j = unat offset")
    case True
    then show ?thesis
      using t ou p op lt [of q] by (auto simp: table_ok_def tb pos)
  next
    case False
    then have "(m_pOffsetToInstr s') ! j = (m_pOffsetToInstr s) ! j" by (simp add: tb)
    with False show ?thesis
      using t j p ag by (auto simp: table_ok_def pos agree_def)
  qed
  moreover have "m_opcode (heap s' (hd (ps @ [p]))) \<noteq> CEE_SWITCH_ARG"
    using t op ag by (cases ps) (auto simp: table_ok_def agree_def)
  ultimately show ?thesis using t cs ou tb by (simp add: table_ok_def)
qed

definition has_target :: "u32 \<Rightarrow> bool" where
  "has_target opcode \<longleftrightarrow> op_flags opcode AND OPCODEFLAGS_BranchTarget \<noteq> 0"

definition imported :: "(nat \<Rightarrow> u8) \<Rightarrow> ILRewriter \<Rightarrow> u32 \<times> bool \<times> ILRewriter \<Rightarrow> ptr list \<Rightarrow> bool" where
  "imported pIL s0 st ps \<longleftrightarrow>
     (case st of (offset, fBranch, s) \<Rightarrow>
        spelled pIL s offset ps \<and> table_ok s ps \<and> totals s0 s ps \<and>
        (\<not> fBranch \<longrightarrow> (\<forall>p\<in>set ps. \<not> has_target (m_opcode (heap s p)))))"

lemma read_bytes_map: "read_bytes pIL offset k = map pIL [unat offset..<unat offset + k]"
proof -
  have "map (\<lambda>i. unat offset + i) [0..<k] = [unat offset..<unat offset + k]"
    by (simp add: add.commute map_add_upt)
  then show ?thesis by (simp add: read_bytes_def flip: map_map [unfolded o_def])
qed

lemma unat_add_le:
  fixes offset codeSize :: u32
  assumes "unat offset + k \<le> unat codeSize"
  shows "unat (offset + of_nat k) = unat offset + k"
  using assms unat_u32_bound [of codeSize] by (simp add: unat_add32 unat_of_nat32)

lemma import_switch_args_imported:
  assumes "import_switch_args pIL base n (offset, s) = Ok (offset', s')"
    and "imported pIL s0 (offset, True, s) ps" and "end_base (heap s) 0 0 ps = base" and "ps \<noteq> []"
  shows "unat offset \<le> unat offset' \<and> (\<exists>qs. length qs = n \<and> imported pIL s0 (offset', True, s') (ps @ qs))"
  using assms
proof (induction n arbitrary: offset s ps)
  case 0
  then show ?case by simp
next
  case (Suc n)
  obtain p s1 where n: "NewILInstr s = (p, s1)" by (cases "NewILInstr s")
  let ?f = "\<lambda>i. set_Arg32 (base + read_INT32 pIL offset) (m_opcode_update (\<lambda>_. CEE_SWITCH_ARG) i)"
  define s2 where "s2 = InsertBefore il_head p (upd p ?f s1)"
  have u: "upd p (set_Arg32 a) (upd p g s1) = upd p (\<lambda>i. set_Arg32 a (g i)) s1" for a g
    by (simp add: upd_def)
  from Suc.prems(1) n have le: "unat offset + 4 \<le> unat (m_CodeSize s)"
    and rest: "import_switch_args pIL base n (offset + 4, s2) = Ok (offset', s')"
    by (auto simp: Let_def u s2_def split: if_splits)
  note I = Suc.prems(2) [unfolded imported_def, simplified]
  have r: "ring s ps" using I by (simp add: spelled_def)
  note A = append_instr [OF r n _ _ s2_def, simplified]
  have ag: "agree (heap s) (heap s2) (set ps)" using A(2,4) by (auto simp: agree_def)
  have o': "unat (offset + 4) = unat offset + 4" using unat_add_le [OF le] by simp
  have le': "offset + 4 \<le> m_CodeSize s" using o' le by (simp add: word_le_nat_alt)
  have arg: "get_Arg32 (heap s2 p) = base + read_INT32 pIL offset"
    using get_Arg32_cong [OF A(6)] by simp
  have op: "m_opcode (heap s2 p) = 295" using A(5) by simp
  have size: "instr_size 295 = 4" by (simp add: instr_size_def)
  have enc: "encode_instr (heap s2 p) (get_Arg32 (heap s2 p)) base (offset + 4) =
      map pIL [unat offset..<unat (offset + 4)]"
    using le_bytes_read(3) [of pIL offset]
    by (simp add: encode_instr_def encode_opcode_def op arg o' read_bytes_map)
  have "spelled pIL s2 (offset + 4) (ps @ [p])"
    by (rule spelled_append [of pIL s offset ps])
      (use I A ag le' enc Suc.prems(3) in \<open>auto simp: o' op size known_opcode_def\<close>)
  moreover have "table_ok s2 (ps @ [p])"
    by (rule table_ok_append_arg [of s]) (use I A ag op Suc.prems(4) in auto)
  moreover have "totals s0 s2 (ps @ [p])"
    by (rule totals_append [of s0 s]) (use I A ag op in auto)
  ultimately have inv: "imported pIL s0 (offset + 4, True, s2) (ps @ [p])"
    by (simp add: imported_def)
  have "end_base (heap s2) 0 0 (ps @ [p]) = base"
    using Suc.prems(3) end_base_agree [OF ag] op by (simp add: end_base_append next_base_def)
  from Suc.IH [OF rest inv this] obtain qs where le_o: "unat offset \<le> unat offset'"
    and "length qs = n" "imported pIL s0 (offset', True, s') (ps @ p # qs)" using o' by auto
  then have "length (p # qs) = Suc n \<and> imported pIL s0 (offset', True, s') (ps @ p # qs)" by simp
  with le_o show ?case by blast
qed

lemma upt_split: "a \<le> b \<Longrightarrow> b \<le> c \<Longrightarrow> [a..<b] @ [b..<c] = [a..<c]"
  using upt_add_eq_append [of a b "c - b"] by simp

text \<open>One instruction with its operand stored by \<open>g\<close>, up to the end of the operand.\<close>

lemma import_one:
  assumes inv: "imported pIL s0 (offset, fBranch, s) ps" and o: "offset < m_CodeSize s"
    and fe: "fetch_opcode pIL (m_CodeSize s) offset = Ok (op, offset1)" and op: "op < CEE_COUNT"
    and n: "NewILInstr s = (p, s1)"
    and s3: "s3 = InsertBefore il_head p (upd p (m_opcode_update (\<lambda>_. op)) s1)"
    and s': "s' = upd p g (s3 \<lparr>m_pOffsetToInstr := (m_pOffsetToInstr s3) [unat offset := p]\<rparr>)"
    and g: "\<And>i. m_pNext (g i) = m_pNext i" "\<And>i. m_pPrev (g i) = m_pPrev i"
      "\<And>i. m_opcode (g i) = m_opcode i"
    and le: "offset' \<le> m_CodeSize s"
    and o': "unat offset' = unat offset1 + unat (op_flags op AND 15) + (if op_flags op = 32 then 4 else 0)"
    and enc: "\<And>i base. m_opcode i = op \<Longrightarrow> encode_instr (g i) (get_Arg32 (g i)) base offset' =
      encode_opcode op @ map pIL [unat offset1..<unat offset']"
    and fit: "\<And>i. op_flags op = 17 \<Longrightarrow> fits_INT8 (get_Arg32 (g i) - offset')"
    and fb: "fBranch' \<or> \<not> fBranch \<and> \<not> has_target op"
  shows "imported pIL s0 (offset', fBranch', s') (ps @ [p])" and "p \<notin> set ps"
    and "agree (heap s) (heap s') (set ps)" and "heap s' p = g (heap s3 p)"
    and "m_opcode (heap s3 p) = op"
proof -
  note I = inv [unfolded imported_def, simplified]
  have r: "ring s ps" using I by (simp add: spelled_def)
  note A = append_instr [OF r n _ _ s3, simplified]
  have ring': "ring s' (ps @ [p])"
    unfolding s' using A(1) g ring_frame [of "s3 \<lparr>m_pOffsetToInstr := x\<rparr>" s3 for x]
    by (simp add: ring_upd)
  show p: "p \<notin> set ps" using A(2) by simp
  have hs': "heap s' q = (if q = p then g (heap s3 p) else heap s3 q)" for q by (simp add: s')
  then show "heap s' p = g (heap s3 p)" by simp
  have ag: "agree (heap s) (heap s') (set ps)" using A(2,4) by (auto simp: agree_def hs')
  then show "agree (heap s) (heap s') (set ps)" .
  have op3: "m_opcode (heap s3 p) = op" using A(5) by simp
  then show "m_opcode (heap s3 p) = op" .
  have op': "m_opcode (heap s' p) = op" by (simp add: hs' g op3)
  have known: "known_opcode op" "op \<noteq> 295" using op by (auto simp: known_opcode_def)
  note F = fetch_opcode_bytes [OF fe o]
  have size: "unat offset' = unat offset + instr_size op"
    using o' F(3) [OF op] op by (simp add: instr_size_def)
  have le1: "unat offset \<le> unat offset1" "unat offset1 \<le> unat offset'" using o' F(3) [OF op] by auto
  have e: "encode_instr (heap s' p) (get_Arg32 (heap s' p)) base offset' = map pIL [unat offset..<unat offset']"
    for base
    using enc [OF op3] F(2) [OF op] upt_split [OF le1]
    by (simp add: hs' flip: map_append)
  have cs: "m_CodeSize s' = m_CodeSize s" "m_nInstrs s' = m_nInstrs s + 1"
    "m_maxStack s' = m_maxStack s + stack_pushes op"
    "m_pOffsetToInstr s' = (m_pOffsetToInstr s) [unat offset := p]"
    using A(7-10) by (simp_all add: s')
  have fit': "op_flags op = 17 \<Longrightarrow> fits_INT8 (get_Arg32 (heap s' p) - offset')"
    by (simp add: hs' fit)
  have "spelled pIL s' offset' (ps @ [p])"
    by (rule spelled_append [of pIL s offset ps])
      (use I ring' p ag le size e known cs fit' in \<open>auto simp: op'\<close>)
  moreover have "table_ok s' (ps @ [p])"
    by (rule table_ok_append_instr [of s ps pIL offset])
      (use I o p ag known A(3) cs in \<open>auto simp: op'\<close>)
  moreover have "totals s0 s' (ps @ [p])"
    by (rule totals_append [of s0 s]) (use I ag cs in \<open>auto simp: op'\<close>)
  moreover have "\<not> fBranch' \<longrightarrow> (\<forall>q\<in>set (ps @ [p]). \<not> has_target (m_opcode (heap s' q)))"
    using fb I ag op' by (auto simp: agree_def)
  ultimately show "imported pIL s0 (offset', fBranch', s') (ps @ [p])"
    by (simp add: imported_def)
qed

lemma operand_bytes:
  assumes "m_opcode i = op" and "op < CEE_COUNT"
  shows "op_flags op = 0 \<Longrightarrow> encode_instr i t base nxt = encode_opcode op"
    and "op_flags op = 1 \<Longrightarrow>
      encode_instr (set_Arg8 a i) t base nxt = encode_opcode op @ le_bytes 1 (ucast a)"
    and "op_flags op = 2 \<Longrightarrow>
      encode_instr (set_Arg16 b i) t base nxt = encode_opcode op @ le_bytes 2 (ucast b)"
    and "op_flags op = 4 \<Longrightarrow>
      encode_instr (set_Arg32 c i) t base nxt = encode_opcode op @ le_bytes 4 (ucast c)"
    and "op_flags op = 8 \<Longrightarrow>
      encode_instr (set_Arg64 d i) t base nxt = encode_opcode op @ le_bytes 8 d"
    and "op_flags op = 17 \<Longrightarrow>
      encode_instr (set_Arg32 c i) t base nxt = encode_opcode op @ le_bytes 1 (ucast (t - nxt))"
    and "op_flags op = 20 \<Longrightarrow>
      encode_instr (set_Arg32 c i) t base nxt = encode_opcode op @ le_bytes 4 (ucast (t - nxt))"
    and "op_flags op = 32 \<Longrightarrow>
      encode_instr (set_Arg32 c i) t base nxt = encode_opcode op @ le_bytes 4 (ucast c)"
  using assms le_bytes_arg_bits_set [of 1] le_bytes_arg_bits_set [of 2] le_bytes_arg_bits_set [of 4]
    le_bytes_arg_bits_set [of 8]
  by (auto simp: encode_instr_def Let_def set_Arg8_def set_Arg16_def set_Arg32_def set_Arg64_def)

lemma import_instr_imported:
  assumes ok: "import_instr pIL (offset, fBranch, s) = Ok st'"
    and inv: "imported pIL s0 (offset, fBranch, s) ps" and o: "offset < m_CodeSize s"
    and big: "unat (m_CodeSize s) + 8 < 2 ^ 32"
  shows "unat offset < unat (fst st') \<and> (\<exists>qs. imported pIL s0 st' (ps @ qs))"
proof -
  obtain op offset1 where fe: "fetch_opcode pIL (m_CodeSize s) offset = Ok (op, offset1)"
    using ok by (auto simp: import_instr_def xbind_Ok_iff split: prod.splits)
  obtain p s1 where n: "NewILInstr s = (p, s1)" by (cases "NewILInstr s")
  define s3 where "s3 = InsertBefore il_head p (upd p (m_opcode_update (\<lambda>_. op)) s1)"
  define s4 where "s4 = s3 \<lparr>m_pOffsetToInstr := (m_pOffsetToInstr s3) [unat offset := p]\<rparr>"
  define size where "size = (ucast (op_flags op AND 15) :: u32)"
  have op: "op < CEE_COUNT" and fits: "\<not> offset1 + size > m_CodeSize s"
    and opr: "xbind (import_operand pIL (op_flags op) p fBranch offset1 s4)
              (\<lambda>(offset1, fBranch1, s5). Ok (offset1 + size, fBranch1, s5)) = Ok st'"
    using ok fe n
    by (auto simp: import_instr_def Let_def s3_def s4_def size_def not_le split: if_splits)
  note F = fetch_opcode_bytes [OF fe o]
  have o1: "unat offset1 \<le> unat (m_CodeSize s)" using F(1) by (simp add: word_le_nat_alt)
  have "unat (op_flags op) < 256" "unat op < 296" using unat_u8_bound op by (auto simp: word_less_nat_alt)
  have flags: "op_flags op = 0 \<or> op_flags op = 1 \<or> op_flags op = 2 \<or> op_flags op = 4 \<or> op_flags op = 8 \<or>
    op_flags op = 17 \<or> op_flags op = 20 \<or> op_flags op = 32"
    using op_flags_values [of op] op by (simp add: word_less_nat_alt)
  have sz: "unat size = unat (op_flags op AND 15)" by (simp add: size_def)
  have "unat size \<le> 8" using flags by (auto simp: sz)
  then have add: "unat (offset1 + size) = unat offset1 + unat size"
    using o1 big by (simp add: unat_add32)
  then have le: "offset1 + size \<le> m_CodeSize s" using fits by simp
  have same: "upd p (\<lambda>i. i) s4 = s4" by (simp add: upd_def)
  have tgt: "has_target op \<longleftrightarrow> op_flags op = 17 \<or> op_flags op = 20"
    using branch_flag [of op] op by (simp add: has_target_def word_less_nat_alt)
  have more: "unat offset < unat offset1" using F(3) [OF op] by simp
  have done1: "unat offset < unat (fst st') \<and> (\<exists>qs. imported pIL s0 st' (ps @ qs))"
    if "st' = (offset1 + size, fB, upd p g s4)"
      and "\<And>i. m_pNext (g i) = m_pNext i" "\<And>i. m_pPrev (g i) = m_pPrev i"
        "\<And>i. m_opcode (g i) = m_opcode i"
      and "\<And>i base. m_opcode i = op \<Longrightarrow> encode_instr (g i) (get_Arg32 (g i)) base (offset1 + size) =
        encode_opcode op @ read_bytes pIL offset1 (unat size)"
      and "\<And>i. op_flags op = 17 \<Longrightarrow> fits_INT8 (get_Arg32 (g i) - (offset1 + size))"
      and "fB \<or> \<not> fBranch \<and> \<not> has_target op" and "op_flags op \<noteq> 32"
    for g fB
  proof -
    have "imported pIL s0 st' (ps @ [p])"
      unfolding that(1)
      by (rule import_one(1) [OF inv o fe op n s3_def _ that(2-4) le])
        (use that add sz in \<open>auto simp: s4_def read_bytes_map\<close>)
    moreover have "unat offset < unat (fst st')" using that(1) more add by simp
    ultimately show ?thesis by blast
  qed
  consider "op_flags op = 0" | "op_flags op = 1" | "op_flags op = 2" | "op_flags op = 4"
    | "op_flags op = 8" | "op_flags op = 17" | "op_flags op = 20" | "op_flags op = 32"
    using flags by auto
  then show ?thesis
  proof cases
    case 1
    then show ?thesis
      by (intro done1 [of fBranch "\<lambda>i. i"])
        (use opr same in \<open>auto simp: import_operand_def size_def read_bytes_def operand_bytes(1) [OF _ op] tgt\<close>)
  next
    case 2
    then show ?thesis
      by (intro done1 [of fBranch "set_Arg8 (read_INT8 pIL offset1)"])
        (use opr in \<open>auto simp: import_operand_def size_def operand_bytes(2) [OF _ op] tgt le_bytes_read simp del: One_nat_def\<close>)
  next
    case 3
    then show ?thesis
      by (intro done1 [of fBranch "set_Arg16 (read_INT16 pIL offset1)"])
        (use opr in \<open>auto simp: import_operand_def size_def operand_bytes(3) [OF _ op] tgt le_bytes_read\<close>)
  next
    case 4
    then show ?thesis
      by (intro done1 [of fBranch "set_Arg32 (read_INT32 pIL offset1)"])
        (use opr in \<open>auto simp: import_operand_def size_def operand_bytes(4) [OF _ op] tgt le_bytes_read\<close>)
  next
    case 5
    then show ?thesis
      by (intro done1 [of fBranch "set_Arg64 (read_INT64 pIL offset1)"])
        (use opr in \<open>auto simp: import_operand_def size_def operand_bytes(5) [OF _ op] tgt le_bytes_read\<close>)
  next
    case 6
    have "size = 1" using 6 by (simp add: size_def)
    then show ?thesis
      using 6 le_bytes_read(1) [of pIL offset1]
      by (intro done1 [of True "set_Arg32 (offset1 + 1 + scast (read_INT8 pIL offset1))"])
        (use opr in \<open>auto simp: import_operand_def operand_bytes(6) [OF _ op] fits_INT8_scast le_bytes_scast
          simp del: One_nat_def\<close>)
  next
    case 7
    have "size = 4" using 7 by (simp add: size_def)
    then show ?thesis
      using 7 le_bytes_read(3) [of pIL offset1]
      by (intro done1 [of True "set_Arg32 (offset1 + 4 + read_INT32 pIL offset1)"])
        (use opr in \<open>auto simp: import_operand_def operand_bytes(7) [OF _ op]\<close>)
  next
    case 8
    let ?n = "read_INT32 pIL offset1"
    define s5 where "s5 = upd p (set_Arg32 ?n) s4"
    have s0: "size = 0" using 8 by (simp add: size_def)
    obtain offset2 s6 where le4: "unat offset1 + 4 \<le> unat (m_CodeSize s)"
      and args: "import_switch_args pIL (offset1 + 4 + ?n * 4) (unat ?n) (offset1 + 4, s5) = Ok (offset2, s6)"
      and st': "st' = (offset2, True, s6)"
      using opr 8 s0 append_instr(7) [OF _ n _ _ s3_def] inv
      by (auto simp: import_operand_def Let_def xbind_Ok_iff s5_def s4_def imported_def spelled_def
          split: if_splits)
    have o4: "unat (offset1 + 4) = unat offset1 + 4" using unat_add_le [OF le4] by simp
    have le4': "offset1 + 4 \<le> m_CodeSize s" using le4 o4 by (simp add: word_le_nat_alt)
    note one = import_one [OF inv o fe op n s3_def s5_def [unfolded s4_def] _ _ _ le4', of True]
    have enc: "encode_instr (set_Arg32 ?n i) (get_Arg32 (set_Arg32 ?n i)) base (offset1 + 4) =
        encode_opcode op @ map pIL [unat offset1..<unat (offset1 + 4)]" if "m_opcode i = op" for i base
      using operand_bytes(8) [OF that op] 8 le_bytes_read(3) [of pIL offset1]
      by (simp add: read_bytes_map o4)
    have one': "imported pIL s0 (offset1 + 4, True, s5) (ps @ [p])" "agree (heap s) (heap s5) (set ps)"
      "heap s5 p = set_Arg32 ?n (heap s3 p)" "m_opcode (heap s3 p) = op"
      using one enc 8 o4 by auto
    have op45: "op = 0x45" using 8 op_flags_eq(3) [of op] op by (simp add: word_less_nat_alt)
    have "unat offset1 = unat offset + 1" using F(3) [OF op] op45 by simp
    then have oo: "offset1 = offset + 1" using unat_Suc32 [OF o] by (simp add: word_unat_eq_iff)
    have "end_base (heap s5) 0 0 (ps @ [p]) = offset1 + 4 + ?n * 4"
      using inv one'(3,4) code_len_agree [OF one'(2)] op45
      by (simp add: imported_def spelled_def end_base_append next_base_def oo algebra_simps)
    from import_switch_args_imported [OF args one'(1) this] obtain qs
      where "unat (offset1 + 4) \<le> unat offset2" "imported pIL s0 st' ((ps @ [p]) @ qs)"
      unfolding st' by blast
    moreover have "unat offset < unat (offset1 + 4)" using more o4 by simp
    ultimately show ?thesis unfolding st' fst_conv append_assoc by (meson less_le_trans)
  qed
qed

section \<open>The loop over the code ends\<close>

text \<open>The only error of the import.\<close>

definition ok_or_invalid :: "'a exec \<Rightarrow> bool" where
  "ok_or_invalid r \<longleftrightarrow> (\<forall>hr. r = Fail hr \<longrightarrow> hr = COR_E_INVALIDPROGRAM) \<and> r \<noteq> Overrun"

lemma ok_or_invalid_simps [simp]:
  "ok_or_invalid (Ok x)" "ok_or_invalid (Fail hr) \<longleftrightarrow> hr = COR_E_INVALIDPROGRAM"
  "\<not> ok_or_invalid Overrun"
  by (auto simp: ok_or_invalid_def)

lemma ok_or_invalid_bind:
  "ok_or_invalid m \<Longrightarrow> (\<And>x. m = Ok x \<Longrightarrow> ok_or_invalid (f x)) \<Longrightarrow> ok_or_invalid (xbind m f)"
  by (cases m) auto

lemma import_switch_args_error: "ok_or_invalid (import_switch_args pIL base n st)"
  by (induction n arbitrary: st) (auto simp: Let_def split: prod.splits)

lemma import_instr_error: "ok_or_invalid (import_instr pIL st)"
proof -
  obtain offset fBranch s where st: "st = (offset, fBranch, s)" by (cases st)
  have fetch: "ok_or_invalid (fetch_opcode pIL c o1)" for c o1
    by (simp add: fetch_opcode_def Let_def)
  have operand: "ok_or_invalid (import_operand pIL flags p fB o1 s1)" for flags p fB o1 s1
    using import_switch_args_error
    by (auto simp: import_operand_def Let_def intro!: ok_or_invalid_bind)
  show ?thesis
    unfolding import_instr_def st Let_def using fetch operand
    by (auto split: prod.splits intro!: ok_or_invalid_bind)
qed

lemma import_loop_imported:
  assumes "imported pIL s0 st ps" and "unat (m_CodeSize s0) + 8 < 2 ^ 32"
  shows "\<exists>r. import_loop pIL st = Some r \<and> ok_or_invalid r \<and>
    (\<forall>st'. r = Ok st' \<longrightarrow> \<not> fst st' < m_CodeSize s0 \<and> (\<exists>qs. imported pIL s0 st' qs))"
  using assms(1)
proof (induction "unat (m_CodeSize s0) - unat (fst st)" arbitrary: st ps rule: less_induct)
  case less
  obtain offset fBranch s where st: "st = (offset, fBranch, s)" by (cases st)
  have cs: "m_CodeSize s = m_CodeSize s0"
    using less.prems by (simp add: st imported_def totals_def)
  show ?case
  proof (cases "offset < m_CodeSize s0")
    case False
    then show ?thesis
      using less.prems cs by (subst import_loop.simps) (auto simp: st)
  next
    case True
    show ?thesis
    proof (cases "import_instr pIL st")
      case (Ok st1)
      obtain qs where lt: "unat offset < unat (fst st1)" and inv: "imported pIL s0 st1 (ps @ qs)"
        using import_instr_imported [OF Ok [unfolded st] less.prems [unfolded st]] True cs assms(2) by auto
      have "unat (m_CodeSize s0) - unat (fst st1) < unat (m_CodeSize s0) - unat (fst st)"
        using lt True by (simp add: st word_less_nat_alt)
      from less.hyps [OF this inv] show ?thesis
        using True cs Ok by (subst import_loop.simps) (simp add: st)
    next
      case (Fail hr)
      then show ?thesis
        using True cs import_instr_error [of pIL st] by (subst import_loop.simps) (simp add: st)
    next
      case Overrun
      then show ?thesis using import_instr_error [of pIL st] by simp
    qed
  qed
qed

section \<open>Resolution of the branch targets\<close>

text \<open>Encoding and fit depend on the target only where an instruction has one.\<close>

definition retargets :: "heap \<Rightarrow> heap \<Rightarrow> ptr set \<Rightarrow> bool" where
  "retargets h h' A \<longleftrightarrow>
     (\<forall>q\<in>A. m_opcode (h' q) = m_opcode (h q) \<and>
        (\<not> has_target (m_opcode (h q)) \<longrightarrow> m_arg (h' q) = m_arg (h q)))"

lemma has_target_eq: "unat op < 296 \<Longrightarrow> has_target op \<longleftrightarrow> op_flags op = 17 \<or> op_flags op = 20"
  using branch_flag by (simp add: has_target_def)

lemma encode_retarget:
  assumes "retargets h h' (set ps)" and "\<forall>q\<in>set ps. known_opcode (m_opcode (h q))"
    and "\<And>q. q \<in> set ps \<Longrightarrow> has_target (m_opcode (h q)) \<Longrightarrow> tgt' q = tgt q"
  shows "encode h' tgt' base k ps = encode h tgt base k ps" and "fits h' tgt' k ps = fits h tgt k ps"
proof -
  have one: "encode_instr (h' q) (tgt' q) b n = encode_instr (h q) (tgt q) b n"
    "next_base (h' q) b m = next_base (h q) b m"
    "op_flags (m_opcode (h q)) = 17 \<Longrightarrow> tgt' q = tgt q" "m_opcode (h' q) = m_opcode (h q)"
    if q: "q \<in> set ps" for q b n m
  proof -
    have op: "m_opcode (h' q) = m_opcode (h q)" and k: "known_opcode (m_opcode (h q))"
      using assms q by (auto simp: retargets_def)
    show "m_opcode (h' q) = m_opcode (h q)" by fact
    have arg: "\<not> has_target (m_opcode (h q)) \<Longrightarrow> m_arg (h' q) = m_arg (h q)"
      using assms q by (auto simp: retargets_def)
    note ht = has_target_eq [OF known_opcode_bound [OF k]]
    show "op_flags (m_opcode (h q)) = 17 \<Longrightarrow> tgt' q = tgt q" using assms(3) [OF q] ht by simp
    show "next_base (h' q) b m = next_base (h q) b m"
      using op arg ht by (auto simp: next_base_def get_Arg32_def)
    show "encode_instr (h' q) (tgt' q) b n = encode_instr (h q) (tgt q) b n"
      using op arg assms(3) [OF q]
      by (cases "has_target (m_opcode (h q))"; auto simp: encode_instr_def Let_def has_target_def)
  qed
  have "encode h' tgt' base k qs = encode h tgt base k qs \<and> fits h' tgt' k qs = fits h tgt k qs"
    if "set qs \<subseteq> set ps" for qs
    using that by (induction qs arbitrary: base k) (auto simp: Let_def one)
  from this [of ps] show "encode h' tgt' base k ps = encode h tgt base k ps"
    "fits h' tgt' k ps = fits h tgt k ps" by simp_all
qed

text \<open>Every branch of the list points to what the table holds at its target.\<close>

lemma resolve_error: "ok_or_invalid (foldE resolve_target ps s)"
  by (induction ps arbitrary: s)
    (auto simp: resolve_target_def GetInstrFromOffset_def Let_def intro!: ok_or_invalid_bind)

lemma resolve_target_heap: "resolve_target s p = Ok s' \<Longrightarrow> s' = s \<lparr>heap := heap s'\<rparr>"
  by (auto simp: resolve_target_def xbind_Ok_iff upd_def split: if_splits)

lemma resolve_heap: "foldE resolve_target ps s = Ok s' \<Longrightarrow> s' = s \<lparr>heap := heap s'\<rparr>"
proof (induction ps arbitrary: s)
  case (Cons p ps)
  then obtain s1 where "resolve_target s p = Ok s1" and "foldE resolve_target ps s1 = Ok s'"
    by (auto simp: xbind_Ok_iff)
  with Cons.IH resolve_target_heap [of s p s1] show ?case
    by (metis ILRewriter.select_convs(11) ILRewriter.surjective ILRewriter.update_convs(11))
qed simp

lemma resolve_all:
  assumes "foldE resolve_target ps s = Ok s'" and "distinct ps"
  shows "(\<forall>q. m_pNext (heap s' q) = m_pNext (heap s q) \<and> m_pPrev (heap s' q) = m_pPrev (heap s q) \<and>
      m_opcode (heap s' q) = m_opcode (heap s q)) \<and>
    (\<forall>q. m_arg (heap s' q) =
      (if q \<in> set ps \<and> has_target (m_opcode (heap s q))
       then Target (m_pOffsetToInstr s ! unat (get_Arg32 (heap s q))) else m_arg (heap s q))) \<and>
    (\<forall>q\<in>set ps. has_target (m_opcode (heap s q)) \<longrightarrow>
      get_Arg32 (heap s q) \<le> m_CodeSize s \<and>
      m_pOffsetToInstr s ! unat (get_Arg32 (heap s q)) \<noteq> NULL)"
  using assms
proof (induction ps arbitrary: s)
  case Nil
  then show ?case by simp
next
  case (Cons p ps)
  obtain s1 where s1: "resolve_target s p = Ok s1" and rest: "foldE resolve_target ps s1 = Ok s'"
    using Cons.prems(1) by (auto simp: xbind_Ok_iff)
  note IH = Cons.IH [OF rest]
  show ?case
  proof (cases "has_target (m_opcode (heap s p))")
    case False
    then have "s1 = s" using s1 by (simp add: resolve_target_def has_target_def)
    with IH Cons.prems(2) False show ?thesis by auto
  next
    case True
    let ?t = "m_pOffsetToInstr s ! unat (get_Arg32 (heap s p))"
    have t: "get_Arg32 (heap s p) \<le> m_CodeSize s" "?t \<noteq> NULL"
      and eq: "s1 = upd p (set_pTarget ?t) s"
      using s1 True
      by (auto simp: resolve_target_def has_target_def xbind_Ok_iff GetInstrFromOffset_def Let_def
          split: if_splits)
    have h1: "heap s1 q = (if q = p then set_pTarget ?t (heap s p) else heap s q)" for q
      by (simp add: eq)
    have same: "m_pOffsetToInstr s1 = m_pOffsetToInstr s" "m_CodeSize s1 = m_CodeSize s"
      by (simp_all add: eq)
    have arg: "m_arg (set_pTarget x i) = Target x" for x i by (simp add: set_pTarget_def)
    have p: "p \<notin> set ps" "distinct ps" using Cons.prems(2) by auto
    have op1: "m_opcode (heap s1 q) = m_opcode (heap s q)" for q by (simp add: h1)
    have "m_arg (heap s' q) = (if q \<in> set (p # ps) \<and> has_target (m_opcode (heap s q))
       then Target (m_pOffsetToInstr s ! unat (get_Arg32 (heap s q))) else m_arg (heap s q))" for q
    proof (cases "q = p")
      case True
      then show ?thesis
        using IH [OF p(2)] p(1) \<open>has_target (m_opcode (heap s p))\<close> by (simp add: h1 arg)
    next
      case False
      then show ?thesis using IH [OF p(2)] by (simp add: op1 same) (simp add: h1)
    qed
    moreover have "get_Arg32 (heap s q) \<le> m_CodeSize s \<and>
        m_pOffsetToInstr s ! unat (get_Arg32 (heap s q)) \<noteq> NULL"
      if "q \<in> set (p # ps)" "has_target (m_opcode (heap s q))" for q
    proof (cases "q = p")
      case False
      then have "heap s1 q = heap s q" "q \<in> set ps" using that h1 by auto
      with IH [OF p(2)] that show ?thesis unfolding same by metis
    qed (use t in simp)
    moreover have "m_pNext (heap s' q) = m_pNext (heap s q) \<and> m_pPrev (heap s' q) = m_pPrev (heap s q) \<and>
        m_opcode (heap s' q) = m_opcode (heap s q)" for q
      using IH [OF p(2)] by (simp add: h1)
    ultimately show ?thesis by blast
  qed
qed

section \<open>The result of the import\<close>

text \<open>The offset of the instruction a branch points to, by the positions in the list.\<close>

definition list_target :: "heap \<Rightarrow> ptr list \<Rightarrow> ptr \<Rightarrow> u32" where
  "list_target h ps p = of_nat (position h ps (get_pTarget (h p)))"

text \<open>
  \<open>spells\<close>: the ring at \<open>ps\<close> encodes to \<open>code\<close>, every branch points into the ring or to its
  end, and never into a jump table.
\<close>

definition points_into :: "heap \<Rightarrow> ptr list \<Rightarrow> bool" where
  "points_into h ps \<longleftrightarrow>
     (\<forall>p\<in>set ps. has_target (m_opcode (h p)) \<longrightarrow>
        (\<exists>t. m_arg (h p) = Target t \<and>
           (t = il_head \<or> t \<in> set ps \<and> m_opcode (h t) \<noteq> CEE_SWITCH_ARG)))"

definition spells :: "ILRewriter \<Rightarrow> ptr list \<Rightarrow> bytes \<Rightarrow> bool" where
  "spells s ps code \<longleftrightarrow>
     ring s ps \<and> code_len (heap s) ps = length code \<and>
     (\<forall>p\<in>set ps. known_opcode (m_opcode (heap s p))) \<and> points_into (heap s) ps \<and>
     concat (encode (heap s) (list_target (heap s) ps) 0 0 ps) = code \<and>
     fits (heap s) (list_target (heap s) ps) 0 ps"

definition import_start :: "ILRewriter \<Rightarrow> ILRewriter" where
  "import_start s =
     upd il_head (m_opcode_update (\<lambda>_. - 1))
       (s \<lparr>m_pOffsetToInstr := replicate (unat (m_CodeSize s)) NULL @ [il_head]\<rparr>)"

lemma imported_start:
  assumes "ring s []"
  shows "imported pIL s (0, False, import_start s) []"
proof -
  have "ring (import_start s) []"
    using assms ring_upd [of "m_opcode_update (\<lambda>_. - 1)" il_head "s \<lparr>m_pOffsetToInstr := x\<rparr>" "[]" for x]
      ring_frame [of "s \<lparr>m_pOffsetToInstr := x\<rparr>" s "[]" for x]
    by (simp add: import_start_def)
  then show ?thesis
    by (simp add: imported_def spelled_def table_ok_def totals_def import_start_def nth_append)
qed

lemma table_target:
  assumes t: "table_ok s ps" and sp: "spelled pIL s (m_CodeSize s) ps"
    and le: "a \<le> m_CodeSize s" and nz: "m_pOffsetToInstr s ! unat a \<noteq> NULL"
  shows "position (heap s) ps (m_pOffsetToInstr s ! unat a) = unat a"
    and "m_pOffsetToInstr s ! unat a = il_head \<or>
      m_pOffsetToInstr s ! unat a \<in> set ps \<and> m_opcode (heap s (m_pOffsetToInstr s ! unat a)) \<noteq> CEE_SWITCH_ARG"
proof -
  have head: "position (heap s) ps il_head = unat (m_CodeSize s)"
    using sp position_notin [of il_head ps "heap s"] by (simp add: spelled_def ring_def)
  have "position (heap s) ps (m_pOffsetToInstr s ! unat a) = unat a \<and>
    (m_pOffsetToInstr s ! unat a = il_head \<or>
      m_pOffsetToInstr s ! unat a \<in> set ps \<and> m_opcode (heap s (m_pOffsetToInstr s ! unat a)) \<noteq> CEE_SWITCH_ARG)"
  proof (cases "unat a = unat (m_CodeSize s)")
    case True
    then show ?thesis using t head by (simp add: table_ok_def)
  next
    case False
    then have "unat a < unat (m_CodeSize s)" using le by (simp add: word_le_nat_alt)
    with t nz show ?thesis unfolding table_ok_def by blast
  qed
  then show "position (heap s) ps (m_pOffsetToInstr s ! unat a) = unat a"
    "m_pOffsetToInstr s ! unat a = il_head \<or>
      m_pOffsetToInstr s ! unat a \<in> set ps \<and> m_opcode (heap s (m_pOffsetToInstr s ! unat a)) \<noteq> CEE_SWITCH_ARG"
    by blast+
qed

text \<open>The list after the loop, with or without the resolution of targets, spells the code.\<close>

lemma spells_resolved:
  assumes sp: "spelled pIL s (m_CodeSize s) ps" and t: "table_ok s ps"
    and s': "s' = s \<lparr>heap := heap s'\<rparr>"
    and links: "\<And>q. m_pNext (heap s' q) = m_pNext (heap s q) \<and> m_pPrev (heap s' q) = m_pPrev (heap s q) \<and>
      m_opcode (heap s' q) = m_opcode (heap s q)"
    and arg: "\<And>q. m_arg (heap s' q) =
      (if q \<in> set ps \<and> has_target (m_opcode (heap s q))
       then Target (m_pOffsetToInstr s ! unat (get_Arg32 (heap s q))) else m_arg (heap s q))"
    and hit: "\<And>q. q \<in> set ps \<Longrightarrow> has_target (m_opcode (heap s q)) \<Longrightarrow>
      get_Arg32 (heap s q) \<le> m_CodeSize s \<and> m_pOffsetToInstr s ! unat (get_Arg32 (heap s q)) \<noteq> NULL"
  shows "spells s' ps (map pIL [0..<unat (m_CodeSize s)])" and "table_ok s' ps"
proof -
  note S = sp [unfolded spelled_def]
  have brk: "m_brk s' = m_brk s" "m_CodeSize s' = m_CodeSize s" "m_pOffsetToInstr s' = m_pOffsetToInstr s"
    by (subst s', simp)+
  have ring: "ring s' ps" using ring_frame [of s' s ps] links brk S by simp
  have pos: "position (heap s') qs q = position (heap s) qs q" "code_len (heap s') qs = code_len (heap s) qs"
    for qs q using links by (induction qs) auto
  have re: "retargets (heap s) (heap s') (set ps)"
    using links arg by (simp add: retargets_def)
  have tgt: "list_target (heap s') ps q = raw_target (heap s) q"
    if "q \<in> set ps" "has_target (m_opcode (heap s q))" for q
    using table_target(1) [OF t sp, of "get_Arg32 (heap s q)"] hit [OF that] arg [of q] that
    by (simp add: list_target_def raw_target_def pos get_pTarget_def)
  note E = encode_retarget [OF re _ tgt]
  have "points_into (heap s') ps"
    using table_target(2) [OF t sp] hit arg links by (auto simp: points_into_def)
  then show "spells s' ps (map pIL [0..<unat (m_CodeSize s)])"
    using S ring links E by (simp add: spells_def pos)
  show "table_ok s' ps" using t links by (simp add: table_ok_def brk pos)
qed

text \<open>The import ends; when it succeeds, the list spells the code.\<close>

lemma ImportIL_spells:
  assumes r: "ring s []" and big: "unat (m_CodeSize s) + 8 < 2 ^ 32"
  shows "\<exists>r. ImportIL pIL s = Some r \<and> ok_or_invalid r \<and>
    (\<forall>s'. r = Ok s' \<longrightarrow> (\<exists>ps. spells s' ps (map pIL [0..<unat (m_CodeSize s)]) \<and>
       table_ok s' ps \<and> totals s s' ps))"
proof -
  obtain r where loop: "import_loop pIL (0, False, import_start s) = Some r" and err: "ok_or_invalid r"
    and inv: "\<And>st'. r = Ok st' \<Longrightarrow> \<not> fst st' < m_CodeSize s \<and> (\<exists>qs. imported pIL s st' qs)"
    using import_loop_imported [OF imported_start [OF r] big] by blast
  have unf: "ImportIL pIL s = obind_exec (import_loop pIL (0, False, import_start s)) (\<lambda>(offset, fBranch, s3).
        if offset \<noteq> m_CodeSize s3 then Some (Fail COR_E_INVALIDPROGRAM)
        else if fBranch then for_instrs (\<lambda>s. s) resolve_target (first_instr s3) s3
        else Some (Ok s3))"
    by (simp add: ImportIL_def import_start_def)
  show ?thesis
  proof (cases r)
    case (Ok st')
    obtain offset fBranch s3 where st': "st' = (offset, fBranch, s3)" by (cases st')
    obtain ps where "imported pIL s st' ps" using inv [OF Ok] by blast
    then have sp: "spelled pIL s3 offset ps" and t: "table_ok s3 ps" and tot: "totals s s3 ps"
      and nb: "\<not> fBranch \<Longrightarrow> \<forall>p\<in>set ps. \<not> has_target (m_opcode (heap s3 p))"
      by (auto simp: imported_def st')
    have cs: "m_CodeSize s3 = m_CodeSize s" using tot by (simp add: totals_def)
    have ring3: "ring s3 ps" and d: "distinct ps" using sp by (auto simp: spelled_def ring_def)
    have fin: "spells s' ps (map pIL [0..<unat (m_CodeSize s)]) \<and> table_ok s' ps \<and> totals s s' ps"
      if "offset = m_CodeSize s" and s': "s' = s3 \<lparr>heap := heap s'\<rparr>"
        and "\<And>q. m_pNext (heap s' q) = m_pNext (heap s3 q) \<and> m_pPrev (heap s' q) = m_pPrev (heap s3 q) \<and>
          m_opcode (heap s' q) = m_opcode (heap s3 q)"
        and "\<And>q. m_arg (heap s' q) =
          (if q \<in> set ps \<and> has_target (m_opcode (heap s3 q))
           then Target (m_pOffsetToInstr s3 ! unat (get_Arg32 (heap s3 q))) else m_arg (heap s3 q))"
        and "\<And>q. q \<in> set ps \<Longrightarrow> has_target (m_opcode (heap s3 q)) \<Longrightarrow>
          get_Arg32 (heap s3 q) \<le> m_CodeSize s3 \<and>
          m_pOffsetToInstr s3 ! unat (get_Arg32 (heap s3 q)) \<noteq> NULL" for s'
    proof -
      have "m_nInstrs s' = m_nInstrs s3" "m_maxStack s' = m_maxStack s3" "m_CodeSize s' = m_CodeSize s3"
        by (subst s', simp)+
      then have "totals s s' ps" using tot that(3) by (simp add: totals_def)
      then show ?thesis
        using spells_resolved [OF _ t s' that(3-5)] sp that(1) cs by simp
    qed
    show ?thesis
    proof (cases "offset = m_CodeSize s")
      case True
      show ?thesis
      proof (cases fBranch)
        case True
        have "for_instrs (\<lambda>s. s) resolve_target (first_instr s3) s3 = Some (foldE resolve_target ps s3)"
          by (rule for_instrs_ring [where rw = "\<lambda>s. s"])
            (auto simp: resolve_target_def xbind_Ok_iff ring3 split: if_splits)
        then have unf': "ImportIL pIL s = Some (foldE resolve_target ps s3)"
          using loop Ok \<open>offset = m_CodeSize s\<close> cs True by (simp add: unf st')
        have "spells s' ps (map pIL [0..<unat (m_CodeSize s)]) \<and> table_ok s' ps \<and> totals s s' ps"
          if f: "foldE resolve_target ps s3 = Ok s'" for s'
          by (rule fin [OF \<open>offset = m_CodeSize s\<close> resolve_heap [OF f]])
            (use resolve_all [OF f d] in blast)+
        then show ?thesis unfolding unf' using resolve_error by blast
      next
        case False
        then have "ImportIL pIL s = Some (Ok s3)"
          using loop Ok \<open>offset = m_CodeSize s\<close> cs by (simp add: unf st')
        moreover have "spells s3 ps (map pIL [0..<unat (m_CodeSize s)]) \<and> table_ok s3 ps \<and> totals s s3 ps"
          by (rule fin [OF \<open>offset = m_CodeSize s\<close>]) (use nb False in auto)
        ultimately show ?thesis by auto
      qed
    next
      case False
      then show ?thesis using loop Ok cs by (simp add: unf st')
    qed
  next
    case (Fail hr)
    then show ?thesis using loop err by (simp add: unf)
  next
    case Overrun
    then show ?thesis using err by simp
  qed
qed

end
