(* ===== verification/ILExport.thy ===== *)
theory ILExport
  imports ILImport
begin

text \<open>
  The code part of \<^verbatim>\<open>ILRewriter::Export\<close>: the pass that writes the instructions, the pass
  that resolves the branches and replaces short branches by long ones, and the loop
  \<^verbatim>\<open>again\<close> around them. Stores go to \<^verbatim>\<open>m_pOutputBuffer\<close>; one that does not fit is
  \<open>Overrun\<close>. Main results: the loop ends, no store leaves the buffer, and the buffer then
  holds the encoding of the list with every branch resolved (\<open>export_loop_spells\<close>).
\<close>

section \<open>The two passes\<close>

definition store :: "u32 \<Rightarrow> bytes \<Rightarrow> ILRewriter \<Rightarrow> ILRewriter exec" where
  "store offset bs s =
     (let buf = m_pOutputBuffer s; n = unat offset in
      if n + length bs \<le> length buf
      then Ok (s \<lparr>m_pOutputBuffer := take n buf @ bs @ drop (n + length bs) buf\<rparr>)
      else Overrun)"

text \<open>The lead byte of a two-byte opcode, then the low byte of the opcode.\<close>

definition emit_opcode :: "u32 \<Rightarrow> u32 \<times> ILRewriter \<Rightarrow> (u32 \<times> ILRewriter) exec" where
  "emit_opcode opcode st =
     (let (offset, s) = st in
      if opcode < CEE_COUNT then
        xbind (if 0x100 \<le> opcode
               then xbind (store offset [ucast CEE_PREFIX1] s) (\<lambda>s1. Ok (offset + 1, s1))
               else Ok (offset, s))
          (\<lambda>(offset1, s1). xbind (store offset1 [ucast opcode] s1) (\<lambda>s2. Ok (offset1 + 1, s2)))
      else Ok (offset, s))"

definition emit_operand ::
  "u8 \<Rightarrow> ILInstr \<Rightarrow> bool \<Rightarrow> u32 \<times> ILRewriter \<Rightarrow> (u32 \<times> bool \<times> ILRewriter) exec" where
  "emit_operand flags i fBranch st =
     (let (offset, s) = st; put = (\<lambda>k. store offset (le_bytes k (arg_bits (m_arg i))) s) in
      if flags = 0 then Ok (offset, fBranch, s)
      else if flags = 1 then xbind (put 1) (\<lambda>s1. Ok (offset, fBranch, s1))
      else if flags = 2 then xbind (put 2) (\<lambda>s1. Ok (offset, fBranch, s1))
      else if flags = 4 then xbind (put 4) (\<lambda>s1. Ok (offset, fBranch, s1))
      else if flags = 8 then xbind (put 8) (\<lambda>s1. Ok (offset, fBranch, s1))
      else if flags = 1 OR OPCODEFLAGS_BranchTarget then Ok (offset, True, s)
      else if flags = 4 OR OPCODEFLAGS_BranchTarget then Ok (offset, True, s)
      else if flags = 0 OR OPCODEFLAGS_Switch
        then xbind (put 4) (\<lambda>s1. Ok (offset + 4, fBranch, s1))
      else Fail COR_E_INVALIDPROGRAM)"

definition emit_instr ::
  "u32 \<Rightarrow> u32 \<times> bool \<times> ILRewriter \<Rightarrow> ptr \<Rightarrow> (u32 \<times> bool \<times> ILRewriter) exec" where
  "emit_instr maxSize st pInstr =
     (let (offset, fBranch, s) = st in
      if maxSize \<le> offset then Fail COR_E_INDEXOUTOFRANGE
      else
        let s1 = upd pInstr (m_offset_update (\<lambda>_. offset)) s;
            opcode = m_opcode (heap s1 pInstr) in
        xbind (emit_opcode opcode (offset, s1)) (\<lambda>st1.
          if length s_OpCodeFlags \<le> unat opcode then Fail COR_E_INVALIDPROGRAM
          else
            let flags = op_flags opcode in
            xbind (emit_operand flags (heap s1 pInstr) fBranch st1) (\<lambda>(offset2, fBranch2, s2).
              Ok (offset2 + ucast (flags AND OPCODEFLAGS_SizeMask), fBranch2, s2))))"

text \<open>The long form of a short branch, with the checks around the arithmetic.\<close>

definition lengthen :: "u32 \<Rightarrow> u32 exec" where
  "lengthen opcode =
     (if opcode = CEE_LEAVE_S then Ok CEE_LEAVE
      else if \<not> (CEE_BR_S \<le> opcode \<and> opcode \<le> CEE_BLT_UN_S) then Fail COR_E_INVALIDPROGRAM
      else
        let opcode1 = opcode - CEE_BR_S + CEE_BR in
        if \<not> (CEE_BR \<le> opcode1 \<and> opcode1 \<le> CEE_BLT_UN) then Fail COR_E_INVALIDPROGRAM
        else Ok opcode1)"

definition branch_delta :: "heap \<Rightarrow> ptr \<Rightarrow> u32" where
  "branch_delta h pInstr = m_offset (h (get_pTarget (h pInstr))) - m_offset (h (m_pNext (h pInstr)))"

definition relocate ::
  "u32 \<times> bool \<times> ILRewriter \<Rightarrow> ptr \<Rightarrow> (u32 \<times> bool \<times> ILRewriter) exec" where
  "relocate st pInstr =
     (let (switchBase, fTryAgain, s) = st; i = heap s pInstr; opcode = m_opcode i in
      if opcode = CEE_SWITCH then
        Ok (m_offset i + 1 + 4 * (get_Arg32 i + 1), fTryAgain, s)
      else if opcode = CEE_SWITCH_ARG then
        xbind (store (m_offset i)
                (le_bytes 4 (ucast (m_offset (heap s (get_pTarget i)) - switchBase))) s)
          (\<lambda>s1. Ok (switchBase, fTryAgain, s1))
      else
        let flags = op_flags opcode; delta = branch_delta (heap s) pInstr;
            nextOffset = m_offset (heap s (m_pNext i)) in
        if flags AND OPCODEFLAGS_BranchTarget \<noteq> 0 then
          (if flags = 1 OR OPCODEFLAGS_BranchTarget then
             (if \<not> fits_INT8 delta
              then xbind (lengthen opcode) (\<lambda>opcode1.
                Ok (switchBase, True, upd pInstr (m_opcode_update (\<lambda>_. opcode1)) s))
              else xbind (store (nextOffset - 1) (le_bytes 1 (ucast delta)) s)
                (\<lambda>s1. Ok (switchBase, fTryAgain, s1)))
           else if flags = 4 OR OPCODEFLAGS_BranchTarget then
             xbind (store (nextOffset - 4) (le_bytes 4 (ucast delta)) s)
               (\<lambda>s1. Ok (switchBase, fTryAgain, s1))
           else Fail COR_E_INVALIDPROGRAM)
        else Ok (switchBase, fTryAgain, s))"

section \<open>The loop around them\<close>

text \<open>From the label \<^verbatim>\<open>again\<close> to the test of \<^verbatim>\<open>fTryAgain\<close>.\<close>

definition export_round :: "u32 \<Rightarrow> ILRewriter \<Rightarrow> (u32 \<times> bool \<times> ILRewriter) exec option" where
  "export_round maxSize s =
     obind_exec (for_instrs (\<lambda>(_, _, s). s) (emit_instr maxSize) (first_instr s) (0, False, s))
       (\<lambda>(offset, fBranch, s1).
         let s2 = upd il_head (m_offset_update (\<lambda>_. offset)) s1 in
         if fBranch then
           obind_exec (for_instrs (\<lambda>(_, _, s). s) relocate (first_instr s2) (0, False, s2))
             (\<lambda>(switchBase, fTryAgain, s3). Some (Ok (offset, fTryAgain, s3)))
         else Some (Ok (offset, False, s2)))"

partial_function (option) export_loop :: "u32 \<Rightarrow> ILRewriter \<Rightarrow> (u32 \<times> ILRewriter) exec option" where
  "export_loop maxSize s =
     (case export_round maxSize s of
        None \<Rightarrow> None
      | Some r \<Rightarrow>
         (case r of
            Ok (offset, fTryAgain, s') \<Rightarrow>
              if fTryAgain then export_loop maxSize s' else Some (Ok (offset, s'))
          | Fail hr \<Rightarrow> Some (Fail hr)
          | Overrun \<Rightarrow> Some Overrun))"

declare export_loop.simps [code]

section \<open>The pass that writes\<close>

text \<open>The offsets the pass gives the instructions.\<close>

fun place :: "heap \<Rightarrow> nat \<Rightarrow> ptr list \<Rightarrow> heap" where
  "place h k [] = h"
| "place h k (p # ps) = place (h (p := (h p) \<lparr>m_offset := of_nat k\<rparr>)) (k + instr_size (m_opcode (h p))) ps"

text \<open>What the pass leaves for an instruction: the place of a target holds any bytes.\<close>

definition chunk :: "heap \<Rightarrow> ptr \<Rightarrow> bytes \<Rightarrow> bool" where
  "chunk h p c \<longleftrightarrow>
     length c = instr_size (m_opcode (h p)) \<and>
     (if has_target (m_opcode (h p)) then \<exists>w. c = encode_opcode (m_opcode (h p)) @ w
      else \<forall>t base nxt. c = encode_instr (h p) t base nxt)"

lemma store_at:
  assumes "m_pOutputBuffer s = pre @ old @ rest" and "unat offset = length pre"
    and "length bs = length old"
  shows "store offset bs s = Ok (s \<lparr>m_pOutputBuffer := pre @ bs @ rest\<rparr>)"
  using assms by (simp add: store_def)

lemma store_rest:
  assumes "m_pOutputBuffer s = pre @ rest" and "unat offset = length pre" and "length bs \<le> length rest"
  shows "store offset bs s = Ok (s \<lparr>m_pOutputBuffer := pre @ bs @ drop (length bs) rest\<rparr>)"
  using assms by (simp add: store_def)

lemma unat_of_nat_small: "k < 4294967296 \<Longrightarrow> unat (of_nat k :: u32) = k"
  by (simp add: unat_of_nat32)

lemma emit_opcode_at:
  assumes "m_pOutputBuffer s = pre @ rest" and "length pre = k" and "2 \<le> length rest"
    and "k + 2 < 4294967296"
  shows "emit_opcode op (of_nat k, s) =
    Ok (of_nat (k + length (encode_opcode op)),
      s \<lparr>m_pOutputBuffer := pre @ encode_opcode op @ drop (length (encode_opcode op)) rest\<rparr>)"
proof -
  consider "\<not> op < CEE_COUNT" | "op < 0x100" "op < CEE_COUNT" | "0x100 \<le> op" "op < CEE_COUNT"
    by fastforce
  then show ?thesis
  proof cases
    case 1
    then show ?thesis using assms by (simp add: emit_opcode_def encode_opcode_def)
  next
    case 2
    have "store (of_nat k) [ucast op] s = Ok (s \<lparr>m_pOutputBuffer := pre @ [ucast op] @ drop 1 rest\<rparr>)"
      using assms store_rest [of s pre rest "of_nat k" "[ucast op]"] by (simp add: unat_of_nat_small)
    then show ?thesis
      using 2 leD [of "0x100" op] by (auto simp: emit_opcode_def encode_opcode_def add.commute [of 1])
  next
    case 3
    let ?s1 = "s \<lparr>m_pOutputBuffer := pre @ [0xFE] @ drop 1 rest\<rparr>"
    have st1: "store (of_nat k) [0xFE] s = Ok ?s1"
      using assms store_rest [of s pre rest "of_nat k" "[0xFE]"] by (simp add: unat_of_nat_small)
    have u: "unat (of_nat k + 1 :: u32) = k + 1"
      using assms(4) unat_of_nat_small [of "k + 1"] by (simp add: add.commute)
    have st2: "store (of_nat k + 1) [ucast op] ?s1 =
        Ok (?s1 \<lparr>m_pOutputBuffer := (pre @ [0xFE]) @ [ucast op] @ drop 1 (drop 1 rest)\<rparr>)"
      by (subst store_rest [of ?s1 "pre @ [0xFE]" "drop 1 rest"]) (use assms(2,3) u in auto)
    have of2: "of_nat k + 1 + 1 = (of_nat (k + 2) :: u32)" by simp
    have "drop (Suc 0) (drop (Suc 0) rest) = drop (Suc (Suc 0)) rest" by simp
    then show ?thesis
      using 3 st1 st2 of2 by (simp add: emit_opcode_def encode_opcode_def del: drop_drop)
  qed
qed

definition operand_written :: "u8 \<Rightarrow> ILInstr \<Rightarrow> bytes" where
  "operand_written flags i =
     (if flags = 17 \<or> flags = 20 then [] else if flags = 32 then le_bytes 4 (arg_bits (m_arg i))
      else le_bytes (unat (flags AND OPCODEFLAGS_SizeMask)) (arg_bits (m_arg i)))"

lemma emit_operand_at:
  assumes "m_pOutputBuffer s = pre @ rest" and "length pre = k" and "8 \<le> length rest"
    and "k + 8 < 4294967296"
    and "flags \<in> {0, 1, 2, 4, 8, 17, 20, 32}"
  shows "emit_operand flags i fBranch (of_nat k, s) =
    Ok (of_nat (k + (if flags = 32 then 4 else 0)), fBranch \<or> flags = 17 \<or> flags = 20,
      s \<lparr>m_pOutputBuffer := pre @ operand_written flags i @ drop (length (operand_written flags i)) rest\<rparr>)"
proof -
  have st: "store (of_nat k) (le_bytes m w) s = Ok (s \<lparr>m_pOutputBuffer := pre @ le_bytes m w @ drop m rest\<rparr>)"
    if "m \<le> 8" for m w
    using assms that store_rest [of s pre rest "of_nat k" "le_bytes m w"]
    by (simp add: unat_of_nat_small)
  have same: "s \<lparr>m_pOutputBuffer := pre @ rest\<rparr> = s" using assms(1) by simp
  consider "flags = 0" | "flags = 1" | "flags = 2" | "flags = 4" | "flags = 8" | "flags = 17"
    | "flags = 20" | "flags = 32"
    using assms(5) by auto
  then show ?thesis
    by cases (simp_all add: emit_operand_def operand_written_def st same del: One_nat_def)
qed

lemma emit_one:
  assumes b: "m_pOutputBuffer s = pre @ rest" "length pre = k" "length (m_pOutputBuffer s) = unat maxSize"
    and k: "k + 10 \<le> unat maxSize" and op: "known_opcode op" "op = m_opcode (heap s p)"
  shows "\<exists>c rest'. emit_instr maxSize (of_nat k, fBranch, s) p =
      Ok (of_nat (k + instr_size op), fBranch \<or> has_target op,
        s \<lparr>heap := (heap s) (p := (heap s p) \<lparr>m_offset := of_nat k\<rparr>),
           m_pOutputBuffer := (pre @ c) @ rest'\<rparr>) \<and>
      chunk (heap s) p c \<and> length ((pre @ c) @ rest') = unat maxSize"
proof -
  let ?flags = "op_flags op"
  let ?s1 = "upd p (m_offset_update (\<lambda>_. of_nat k)) s"
  let ?e = "encode_opcode op" and ?w = "operand_written ?flags (heap s p)"
  have big: "k + 10 < 4294967296" using k unat_u32_bound [of maxSize] by simp
  have lt: "\<not> maxSize \<le> of_nat k" using k big by (simp add: word_le_nat_alt unat_of_nat_small)
  have op296: "unat op < 296" using known_opcode_bound [OF op(1)] .
  have fl: "?flags \<in> {0, 1, 2, 4, 8, 17, 20, 32}" using op_flags_values [OF op296] by simp
  have ht: "has_target op \<longleftrightarrow> ?flags = 17 \<or> ?flags = 20" using has_target_eq [OF op296] .
  have le: "length ?e \<le> 2" by (simp add: encode_opcode_def)
  have rest: "10 \<le> length rest" using b k by simp
  define r1 where "r1 = drop (length ?e) rest"
  have e: "emit_opcode op (of_nat k, ?s1) = Ok (of_nat (k + length ?e), ?s1 \<lparr>m_pOutputBuffer := pre @ ?e @ r1\<rparr>)"
    using emit_opcode_at [of ?s1 pre rest k op] b rest big by (simp add: r1_def)
  have o: "emit_operand ?flags (heap ?s1 p) fBranch (of_nat (k + length ?e), ?s1 \<lparr>m_pOutputBuffer := pre @ ?e @ r1\<rparr>) =
      Ok (of_nat (k + length ?e + (if ?flags = 32 then 4 else 0)), fBranch \<or> has_target op,
        ?s1 \<lparr>m_pOutputBuffer := (pre @ ?e) @ ?w @ drop (length ?w) r1\<rparr>)"
    using emit_operand_at [of "?s1 \<lparr>m_pOutputBuffer := pre @ ?e @ r1\<rparr>" "pre @ ?e" r1 "k + length ?e"
        ?flags "heap ?s1 p" fBranch] b rest big le fl ht
    by (simp add: r1_def operand_written_def)
  define sz where "sz = unat (?flags AND OPCODEFLAGS_SizeMask)"
  define rest' where "rest' = (if has_target op then drop sz r1 else drop (length ?w) r1)"
  define c where "c = ?e @ (if has_target op then take sz r1 else ?w)"
  have size: "instr_size op = length ?e + sz + (if ?flags = 32 then 4 else 0)"
    by (simp add: instr_size_def encode_opcode_def sz_def)
  have buf: "(pre @ ?e) @ ?w @ drop (length ?w) r1 = (pre @ c) @ rest'"
    using ht by (simp add: c_def rest'_def operand_written_def)
  have szle: "sz \<le> 8" using fl by (auto simp: sz_def)
  have off: "of_nat (k + length ?e + (if ?flags = 32 then 4 else 0)) + ucast (?flags AND OPCODEFLAGS_SizeMask) =
      (of_nat (k + instr_size op) :: u32)"
    using size by (simp add: sz_def add.assoc)
  have "emit_instr maxSize (of_nat k, fBranch, s) p =
      Ok (of_nat (k + instr_size op), fBranch \<or> has_target op,
        s \<lparr>heap := (heap s) (p := (heap s p) \<lparr>m_offset := of_nat k\<rparr>),
           m_pOutputBuffer := (pre @ c) @ rest'\<rparr>)"
    using lt e o op296 off op(2) buf by (simp add: emit_instr_def Let_def upd_def)
  moreover have "chunk (heap s) p c"
    unfolding chunk_def op(2) [symmetric]
    using rest szle le size ht op296 op fl
    by (auto simp: c_def r1_def operand_written_def encode_instr_def Let_def sz_def has_target_def)
  moreover have "length ((pre @ c) @ rest') = unat maxSize"
    using b rest szle le fl
    by (auto simp: c_def rest'_def r1_def operand_written_def sz_def)
  ultimately show ?thesis by blast
qed

lemma place_other [simp]: "p \<notin> set ps \<Longrightarrow> place h k ps p = h p"
  by (induction ps arbitrary: h k) auto

lemma place_fields [simp]:
  "m_opcode (place h k ps p) = m_opcode (h p)" "m_arg (place h k ps p) = m_arg (h p)"
  "m_pNext (place h k ps p) = m_pNext (h p)" "m_pPrev (place h k ps p) = m_pPrev (h p)"
  "get_pTarget (place h k ps p) = get_pTarget (h p)"
  by (induction ps arbitrary: h k) (auto simp: get_pTarget_def)

lemma chunk_cong:
  "m_opcode (h' p) = m_opcode (h p) \<Longrightarrow> m_arg (h' p) = m_arg (h p) \<Longrightarrow> chunk h' p c = chunk h p c"
  by (simp add: chunk_def encode_instr_def Let_def)

text \<open>The whole pass: offsets are placed, and the buffer holds a chunk for every instruction.\<close>

lemma emit_all:
  assumes "m_pOutputBuffer s = pre @ rest" and "length pre = k"
    and "length (m_pOutputBuffer s) = unat maxSize" and "k + 10 * length ps \<le> unat maxSize"
    and "\<forall>p\<in>set ps. known_opcode (m_opcode (heap s p))" and "distinct ps"
  shows "\<exists>cs rest'. foldE (emit_instr maxSize) ps (of_nat k, fBranch, s) =
      Ok (of_nat (k + code_len (heap s) ps), fBranch \<or> (\<exists>p\<in>set ps. has_target (m_opcode (heap s p))),
        s \<lparr>heap := place (heap s) k ps, m_pOutputBuffer := pre @ concat cs @ rest'\<rparr>) \<and>
      list_all2 (chunk (heap s)) ps cs \<and> length (pre @ concat cs @ rest') = unat maxSize"
  using assms
proof (induction ps arbitrary: s pre rest k fBranch)
  case Nil
  show ?case
    by (intro exI [of _ "[]"] exI [of _ rest])
      (use Nil.prems(3) in \<open>simp add: Nil.prems(1) [symmetric]\<close>)
next
  case (Cons p ps)
  let ?op = "m_opcode (heap s p)"
  let ?h1 = "(heap s) (p := (heap s p) \<lparr>m_offset := of_nat k\<rparr>)"
  have op: "known_opcode ?op" using Cons.prems by simp
  obtain c r1 where one: "emit_instr maxSize (of_nat k, fBranch, s) p =
      Ok (of_nat (k + instr_size ?op), fBranch \<or> has_target ?op,
        s \<lparr>heap := ?h1, m_pOutputBuffer := (pre @ c) @ r1\<rparr>)" and c: "chunk (heap s) p c"
    and len: "length ((pre @ c) @ r1) = unat maxSize"
    using emit_one [OF Cons.prems(1-3) _ op refl, of fBranch] Cons.prems(4) by auto
  let ?s1 = "s \<lparr>heap := ?h1, m_pOutputBuffer := (pre @ c) @ r1\<rparr>"
  have fields: "m_opcode (?h1 q) = m_opcode (heap s q)" "m_arg (?h1 q) = m_arg (heap s q)" for q
    by auto
  have lc: "length (pre @ c) = k + instr_size ?op"
    using c Cons.prems(2) by (simp add: chunk_def)
  have "code_len ?h1 ps = code_len (heap s) ps"
    by (rule code_len_agree) (simp add: agree_def)
  moreover have "chunk ?h1 = chunk (heap s)" by (intro ext chunk_cong fields)
  moreover have "k + instr_size ?op + 10 * length ps \<le> unat maxSize"
    using Cons.prems(4) instr_size_le [OF known_opcode_bound [OF op]] by simp
  ultimately obtain cs r2 where "foldE (emit_instr maxSize) ps (of_nat (k + instr_size ?op), fBranch \<or> has_target ?op, ?s1) =
      Ok (of_nat (k + instr_size ?op + code_len (heap s) ps),
        (fBranch \<or> has_target ?op) \<or> (\<exists>q\<in>set ps. has_target (m_opcode (heap s q))),
        ?s1 \<lparr>heap := place ?h1 (k + instr_size ?op) ps, m_pOutputBuffer := (pre @ c) @ concat cs @ r2\<rparr>)"
    "list_all2 (chunk (heap s)) ps cs" "length ((pre @ c) @ concat cs @ r2) = unat maxSize"
    using Cons.IH [of ?s1 "pre @ c" r1 "k + instr_size ?op" "fBranch \<or> has_target ?op"] Cons.prems lc len fields
    by (auto simp del: fun_upd_apply)
  then show ?case
    using one c by (intro exI [of _ "c # cs"] exI [of _ r2]) (simp add: add.assoc disj_assoc)
qed

section \<open>The pass that resolves\<close>

text \<open>
  \<open>laid h k ps\<close>: every instruction of the list has its offset, and the offset of its
  successor lies behind it.
\<close>

fun laid :: "heap \<Rightarrow> nat \<Rightarrow> ptr list \<Rightarrow> bool" where
  "laid h k [] \<longleftrightarrow> m_offset (h il_head) = of_nat k"
| "laid h k (p # ps) \<longleftrightarrow>
     m_offset (h p) = of_nat k \<and>
     m_offset (h (m_pNext (h p))) = of_nat (k + instr_size (m_opcode (h p))) \<and>
     laid h (k + instr_size (m_opcode (h p))) ps"

definition needs_long :: "heap \<Rightarrow> ptr \<Rightarrow> bool" where
  "needs_long h p \<longleftrightarrow> op_flags (m_opcode (h p)) = 17 \<and> \<not> fits_INT8 (branch_delta h p)"

text \<open>The opcode of the long form, and the store after the pass.\<close>

definition long_opcode :: "u32 \<Rightarrow> u32" where
  "long_opcode opcode = (if opcode = CEE_LEAVE_S then CEE_LEAVE else opcode - CEE_BR_S + CEE_BR)"

definition lengthened :: "heap \<Rightarrow> ptr set \<Rightarrow> heap" where
  "lengthened h A = (\<lambda>p. if p \<in> A \<and> needs_long h p
     then (h p) \<lparr>m_opcode := long_opcode (m_opcode (h p))\<rparr> else h p)"

text \<open>The target of a branch as the pass reads it.\<close>

definition offset_target :: "heap \<Rightarrow> ptr \<Rightarrow> u32" where
  "offset_target h p = m_offset (h (get_pTarget (h p)))"

lemma short_opcodes:
  assumes "unat op < 296" and "op_flags op = 17"
  shows "lengthen op = Ok (long_opcode op)" and "op_flags (long_opcode op) = 20"
    and "known_opcode (long_opcode op)" and "long_opcode op \<noteq> CEE_SWITCH_ARG"
    and "op \<noteq> CEE_SWITCH_ARG" and "op \<noteq> CEE_SWITCH"
proof -
  have op: "(0x2B \<le> op \<and> op < 0x38) \<or> op = 0xDE" using op_flags_eq(1) [OF assms(1)] assms(2) by simp
  have r: "op - 0x2B + 0x38 < 0x45 \<and> 0x38 \<le> op - 0x2B + 0x38" if "0x2B \<le> op" "op < 0x38"
    using that by (simp add: word_le_nat_alt word_less_nat_alt unat_word_ariths unat_sub)
  show "lengthen op = Ok (long_opcode op)"
    using op r by (auto simp: lengthen_def long_opcode_def Let_def word_le_nat_alt word_less_nat_alt)
  have l: "(0x38 \<le> long_opcode op \<and> long_opcode op < 0x45) \<or> long_opcode op = 0xDD"
    using op r by (auto simp: long_opcode_def)
  then have b: "unat (long_opcode op) < 294" by (auto simp: word_less_nat_alt)
  show "op_flags (long_opcode op) = 20" using op_flags_eq(2) [of "long_opcode op"] b l by auto
  show "known_opcode (long_opcode op)" using b by (simp add: known_opcode_def word_less_nat_alt)
  show "long_opcode op \<noteq> CEE_SWITCH_ARG" "op \<noteq> CEE_SWITCH_ARG" "op \<noteq> CEE_SWITCH"
    using l op by auto
qed

lemma lengthened_none: "\<forall>p\<in>A. \<not> needs_long h p \<Longrightarrow> lengthened h A = h"
  by (auto simp: lengthened_def fun_eq_iff)

lemma instr_size_encode:
  "instr_size op = length (encode_opcode op) + unat (op_flags op AND OPCODEFLAGS_SizeMask) +
     (if op_flags op = OPCODEFLAGS_Switch then 4 else 0)"
  by (simp add: instr_size_def encode_opcode_def)

lemma unat_diff_of_nat:
  "n \<le> k \<Longrightarrow> k < 4294967296 \<Longrightarrow> unat (of_nat k - of_nat n :: u32) = k - n"
  by (metis of_nat_diff unat_of_nat_small less_imp_diff_less)

lemma relocate_one:
  assumes b: "m_pOutputBuffer s = pre @ c @ rest" "length pre = k" and c: "chunk (heap s) p c"
    and op: "known_opcode op" "op = m_opcode (heap s p)"
    and o: "m_offset (heap s p) = of_nat k"
      "m_offset (heap s (m_pNext (heap s p))) = of_nat (k + instr_size op)"
    and big: "k + instr_size op < 4294967296"
  shows "\<exists>c'. relocate (base, again, s) p =
      Ok (next_base (heap s p) base k, again \<or> needs_long (heap s) p,
        s \<lparr>heap := lengthened (heap s) {p}, m_pOutputBuffer := pre @ c' @ rest\<rparr>) \<and>
      length c' = length c \<and>
      (\<not> needs_long (heap s) p \<longrightarrow>
        c' = encode_instr (heap s p) (offset_target (heap s) p) base (of_nat (k + instr_size op)))"
proof -
  let ?i = "heap s p" and ?t = "offset_target (heap s) p" and ?nx = "of_nat (k + instr_size op) :: u32"
  have op296: "unat op < 296" using known_opcode_bound [OF op(1)] .
  have ht: "has_target op \<longleftrightarrow> op_flags op = 17 \<or> op_flags op = 20" using has_target_eq [OF op296] .
  have sw: "op_flags op = 32 \<longleftrightarrow> op = CEE_SWITCH" using op_flags_eq(3) [OF op296] by simp
  have len: "length c = instr_size op" using c op(2) by (simp add: chunk_def)
  have delta: "branch_delta (heap s) p = ?t - ?nx"
    using o by (simp add: branch_delta_def offset_target_def)
  have keep: "s \<lparr>heap := lengthened (heap s) {p}, m_pOutputBuffer := pre @ c @ rest\<rparr> = s"
    if "\<not> needs_long (heap s) p"
    using that lengthened_none [of "{p}" "heap s"] b(1) by simp
  have put: "store a bs s = Ok (s \<lparr>heap := lengthened (heap s) {p}, m_pOutputBuffer := pre @ (e @ bs) @ rest\<rparr>)"
    if "\<not> needs_long (heap s) p" "c = e @ w" "length bs = length w" "unat a = k + length e" for a bs e w
    using that lengthened_none [of "{p}" "heap s"] b store_at [of s "pre @ e" w rest a bs] by simp
  consider (switch) "op = CEE_SWITCH" | (arg) "op = CEE_SWITCH_ARG"
    | (short) "op_flags op = 17" | (long) "op_flags op = 20" "op \<noteq> CEE_SWITCH_ARG"
    | (plain) "\<not> has_target op" "op \<noteq> CEE_SWITCH"
    using ht by blast
  then show ?thesis
  proof cases
    case switch
    then have "\<not> needs_long (heap s) p" "\<not> has_target op" using op(2) ht by (auto simp: needs_long_def)
    moreover have "relocate (base, again, s) p = Ok (next_base ?i base k, again, s)"
      using switch op(2) o by (simp add: relocate_def next_base_def Let_def)
    ultimately show ?thesis
      using c op(2) keep by (intro exI [of _ c]) (auto simp: chunk_def)
  next
    case arg
    then have n: "\<not> needs_long (heap s) p" using op(2) by (auto simp: needs_long_def)
    have size: "instr_size op = 4" using arg by (simp add: instr_size_def)
    let ?bs = "le_bytes 4 (ucast (?t - base))"
    have "store (of_nat k) ?bs s = Ok (s \<lparr>heap := lengthened (heap s) {p}, m_pOutputBuffer := pre @ ([] @ ?bs) @ rest\<rparr>)"
      by (rule put [OF n, of "[]" c]) (use len size big in \<open>auto simp: unat_of_nat_small\<close>)
    then have "relocate (base, again, s) p = Ok (next_base ?i base k, again,
        s \<lparr>heap := lengthened (heap s) {p}, m_pOutputBuffer := pre @ ?bs @ rest\<rparr>)"
      using arg op(2) o by (simp add: relocate_def next_base_def Let_def offset_target_def)
    moreover have "encode_instr ?i ?t base ?nx = ?bs"
      using arg op(2) by (simp add: encode_instr_def encode_opcode_def)
    ultimately show ?thesis using n len size by (intro exI [of _ ?bs]) simp
  next
    case short
    obtain w where w: "c = encode_opcode op @ w" using c op(2) ht short by (auto simp: chunk_def)
    have lw: "length w = 1" and lt: "op \<noteq> CEE_SWITCH" "op \<noteq> CEE_SWITCH_ARG"
      using len w short_opcodes(5,6) [OF op296 short] short
      by (auto simp: instr_size_encode)
    show ?thesis
    proof (cases "needs_long (heap s) p")
      case True
      then have "\<not> fits_INT8 (branch_delta (heap s) p)" by (simp add: needs_long_def)
      moreover have "upd p (m_opcode_update (\<lambda>_. long_opcode op)) s =
          s \<lparr>heap := lengthened (heap s) {p}, m_pOutputBuffer := pre @ c @ rest\<rparr>"
        using True op(2) b(1) by (auto simp: upd_def lengthened_def fun_eq_iff)
      ultimately have "relocate (base, again, s) p = Ok (next_base ?i base k, True,
          s \<lparr>heap := lengthened (heap s) {p}, m_pOutputBuffer := pre @ c @ rest\<rparr>)"
        using short op(2) lt short_opcodes(1) [OF op296 short]
        by (simp add: relocate_def next_base_def Let_def)
      then show ?thesis using True by (intro exI [of _ c]) simp
    next
      case False
      let ?bs = "le_bytes 1 (ucast (?t - ?nx))"
      have "store (?nx - 1) ?bs s =
          Ok (s \<lparr>heap := lengthened (heap s) {p}, m_pOutputBuffer := pre @ (encode_opcode op @ ?bs) @ rest\<rparr>)"
        by (rule put [OF False w]) (use lw len w big unat_diff_of_nat [of 1 "k + instr_size op"] in auto)
      then have "relocate (base, again, s) p = Ok (next_base ?i base k, again,
          s \<lparr>heap := lengthened (heap s) {p}, m_pOutputBuffer := pre @ (encode_opcode op @ ?bs) @ rest\<rparr>)"
        using short op(2) lt o False
        by (simp add: relocate_def next_base_def Let_def delta needs_long_def del: One_nat_def)
      moreover have "encode_instr ?i ?t base ?nx = encode_opcode op @ ?bs"
        using short op(2) lt by (simp add: encode_instr_def Let_def)
      ultimately show ?thesis using False w lw by (intro exI [of _ "encode_opcode op @ ?bs"]) simp
    qed
  next
    case long
    have n: "\<not> needs_long (heap s) p" using long op(2) by (simp add: needs_long_def)
    obtain w where w: "c = encode_opcode op @ w" using c op(2) ht long by (auto simp: chunk_def)
    have lw: "length w = 4" and lt: "op \<noteq> CEE_SWITCH"
      using len w sw long by (auto simp: instr_size_encode)
    let ?bs = "le_bytes 4 (ucast (?t - ?nx))"
    have "store (?nx - 4) ?bs s =
        Ok (s \<lparr>heap := lengthened (heap s) {p}, m_pOutputBuffer := pre @ (encode_opcode op @ ?bs) @ rest\<rparr>)"
      by (rule put [OF n w]) (use lw len w big unat_diff_of_nat [of 4 "k + instr_size op"] in auto)
    then have "relocate (base, again, s) p = Ok (next_base ?i base k, again,
        s \<lparr>heap := lengthened (heap s) {p}, m_pOutputBuffer := pre @ (encode_opcode op @ ?bs) @ rest\<rparr>)"
      using long op(2) lt o by (simp add: relocate_def next_base_def Let_def delta)
    moreover have "encode_instr ?i ?t base ?nx = encode_opcode op @ ?bs"
      using long op(2) lt by (simp add: encode_instr_def Let_def)
    ultimately show ?thesis using n w lw by (intro exI [of _ "encode_opcode op @ ?bs"]) simp
  next
    case plain
    then have "\<not> needs_long (heap s) p" using op(2) ht by (auto simp: needs_long_def)
    moreover have "relocate (base, again, s) p = Ok (next_base ?i base k, again, s)"
      using plain op(2) ht
      by (auto simp: relocate_def next_base_def Let_def has_target_def)
    ultimately show ?thesis
      using c op(2) keep plain by (intro exI [of _ c]) (auto simp: chunk_def)
  qed
qed

text \<open>The whole pass.\<close>

lemma lengthened_fields [simp]:
  "m_offset (lengthened h A p) = m_offset (h p)" "m_pNext (lengthened h A p) = m_pNext (h p)"
  "m_pPrev (lengthened h A p) = m_pPrev (h p)" "m_arg (lengthened h A p) = m_arg (h p)"
  "get_pTarget (lengthened h A p) = get_pTarget (h p)" "get_Arg32 (lengthened h A p) = get_Arg32 (h p)"
  by (auto simp: lengthened_def get_pTarget_def get_Arg32_def)

lemma lengthened_other [simp]: "q \<notin> A \<Longrightarrow> lengthened h A q = h q"
  by (simp add: lengthened_def)

lemma offset_target_lengthened [simp]: "offset_target (lengthened h A) = offset_target h"
  by (rule ext) (simp add: offset_target_def)

lemma needs_long_lengthened: "q \<notin> A \<Longrightarrow> needs_long (lengthened h A) q = needs_long h q"
  by (simp add: needs_long_def branch_delta_def)

lemma laid_frame:
  "(\<And>q. m_offset (h' q) = m_offset (h q)) \<Longrightarrow> (\<And>q. m_pNext (h' q) = m_pNext (h q)) \<Longrightarrow>
   (\<And>q. q \<in> set ps \<Longrightarrow> m_opcode (h' q) = m_opcode (h q)) \<Longrightarrow> laid h' k ps = laid h k ps"
  by (induction ps arbitrary: k) auto

lemma lengthened_insert:
  "p \<notin> A \<Longrightarrow> lengthened (lengthened h {p}) A = lengthened h (insert p A)"
  by (auto simp: lengthened_def needs_long_lengthened [unfolded lengthened_def] fun_eq_iff needs_long_def
      branch_delta_def get_pTarget_def)

lemma relocate_all:
  assumes "m_pOutputBuffer s = pre @ concat cs @ rest" and "length pre = k"
    and "list_all2 (chunk (heap s)) ps cs" and "laid (heap s) k ps"
    and "\<forall>p\<in>set ps. known_opcode (m_opcode (heap s p))" and "distinct ps"
    and "k + code_len (heap s) ps < 4294967296"
  shows "\<exists>base' cs'. foldE relocate ps (base, again, s) =
      Ok (base', again \<or> (\<exists>p\<in>set ps. needs_long (heap s) p),
        s \<lparr>heap := lengthened (heap s) (set ps), m_pOutputBuffer := pre @ concat cs' @ rest\<rparr>) \<and>
      length (concat cs') = length (concat cs) \<and>
      (\<not> (\<exists>p\<in>set ps. needs_long (heap s) p) \<longrightarrow>
        cs' = encode (heap s) (offset_target (heap s)) base k ps)"
  using assms
proof (induction ps arbitrary: s pre cs k base again)
  case Nil
  have "lengthened (heap s) {} = heap s" by (simp add: lengthened_none)
  moreover have cs: "cs = []" and buf: "pre @ rest = m_pOutputBuffer s" using Nil.prems(1,3) by simp_all
  ultimately show ?case by (intro exI [of _ base] exI [of _ "[]"]) (simp add: buf)
next
  case (Cons p ps)
  obtain c ds where cs: "cs = c # ds" and c: "chunk (heap s) p c" and ds: "list_all2 (chunk (heap s)) ps ds"
    using Cons.prems(3) by (auto simp: list_all2_Cons1)
  let ?op = "m_opcode (heap s p)"
  let ?k = "k + instr_size ?op"
  have op: "known_opcode ?op" using Cons.prems by simp
  obtain c' where one: "relocate (base, again, s) p =
      Ok (next_base (heap s p) base k, again \<or> needs_long (heap s) p,
        s \<lparr>heap := lengthened (heap s) {p}, m_pOutputBuffer := pre @ c' @ concat ds @ rest\<rparr>)"
    and len: "length c' = length c"
    and enc: "\<not> needs_long (heap s) p \<Longrightarrow>
        c' = encode_instr (heap s p) (offset_target (heap s) p) base (of_nat ?k)"
    using relocate_one [OF _ Cons.prems(2) c op refl, of "concat ds @ rest" base again] Cons.prems cs
    by auto
  let ?s1 = "s \<lparr>heap := lengthened (heap s) {p}, m_pOutputBuffer := (pre @ c') @ concat ds @ rest\<rparr>"
  have p: "p \<notin> set ps" "distinct ps" using Cons.prems by auto
  have same: "lengthened (heap s) {p} q = heap s q" if "q \<in> set ps" for q
    by (rule lengthened_other) (use that p in auto)
  have "list_all2 (chunk (heap ?s1)) ps ds"
    using ds same by (auto simp: list_all2_conv_all_nth chunk_def)
  moreover have "laid (heap ?s1) ?k ps"
    using Cons.prems(4) laid_frame [of "heap ?s1" "heap s" ps] same by simp
  moreover have "code_len (heap ?s1) ps = code_len (heap s) ps"
    by (rule code_len_agree) (simp add: agree_def same)
  moreover have "length (pre @ c') = ?k" using len c Cons.prems(2) by (simp add: chunk_def)
  ultimately obtain base' cs' where rest: "foldE relocate ps
      (next_base (heap s p) base k, again \<or> needs_long (heap s) p, ?s1) =
      Ok (base', (again \<or> needs_long (heap s) p) \<or> (\<exists>q\<in>set ps. needs_long (heap ?s1) q),
        ?s1 \<lparr>heap := lengthened (heap ?s1) (set ps), m_pOutputBuffer := (pre @ c') @ concat cs' @ rest\<rparr>)"
    and len': "length (concat cs') = length (concat ds)"
    and enc': "\<not> (\<exists>q\<in>set ps. needs_long (heap ?s1) q) \<Longrightarrow>
      cs' = encode (heap ?s1) (offset_target (heap ?s1)) (next_base (heap s p) base k) ?k ps"
    using Cons.IH [of ?s1 "pre @ c'" ds ?k "next_base (heap s p) base k" "again \<or> needs_long (heap s) p"]
      Cons.prems p same by auto
  have nl: "(\<exists>q\<in>set ps. needs_long (heap ?s1) q) = (\<exists>q\<in>set ps. needs_long (heap s) q)"
    using p by (intro bex_cong) (auto intro!: needs_long_lengthened)
  have "encode (heap ?s1) (offset_target (heap ?s1)) b ?k ps = encode (heap s) (offset_target (heap s)) b ?k ps" for b
    by (rule encode_agree) (auto simp: agree_def same)
  with enc enc' nl have "cs' = encode (heap s) (offset_target (heap s)) (next_base (heap s p) base k) ?k ps"
    if "\<not> (\<exists>q\<in>set ps. needs_long (heap s) q)" using that by simp
  then show ?case
    using one rest len len' nl cs enc
    by (intro exI [of _ base'] exI [of _ "c' # cs'"])
      (auto simp: lengthened_insert [OF p(1)] Let_def)
qed

section \<open>A round\<close>

lemma place_offset:
  assumes "distinct ps" and "p \<in> set ps"
  shows "m_offset (place h k ps p) = of_nat (k + position h ps p)"
  using assms
proof (induction ps arbitrary: h k)
  case (Cons q ps)
  let ?h = "h (q := (h q) \<lparr>m_offset := of_nat k\<rparr>)"
  have "position ?h ps p = position h ps p"
    by (rule position_agree) (simp add: agree_def)
  then show ?case using Cons by (auto simp: add.assoc)
qed simp

text \<open>The store after the first pass is laid out.\<close>

lemma laid_positions:
  assumes "follows h q0 ps" and "\<And>i. i < length ps \<Longrightarrow> m_offset (h (ps ! i)) = of_nat (k + code_len h (take i ps))"
    and "m_offset (h il_head) = of_nat (k + code_len h ps)"
  shows "laid h k ps"
  using assms
proof (induction ps arbitrary: k q0)
  case Nil
  then show ?case by simp
next
  case (Cons p ps)
  have "m_offset (h (m_pNext (h p))) = of_nat (k + instr_size (m_opcode (h p)))"
  proof (cases ps)
    case Nil
    then show ?thesis using Cons.prems by simp
  next
    case (Cons q qs)
    then show ?thesis using Cons.prems(1) Cons.prems(2) [of 1] by simp
  qed
  moreover have "laid h (k + instr_size (m_opcode (h p))) ps"
    using Cons.prems Cons.prems(2) [of "Suc i" for i]
    by (intro Cons.IH [of p]) (auto simp: add.assoc)
  moreover have "m_offset (h p) = of_nat k" using Cons.prems(2) [of 0] by simp
  ultimately show ?case by simp
qed

lemma position_nth:
  "distinct ps \<Longrightarrow> i < length ps \<Longrightarrow> position h ps (ps ! i) = code_len h (take i ps)"
  by (induction ps arbitrary: i) (auto simp: nth_Cons split: nat.splits)

definition end_offset :: "heap \<Rightarrow> nat \<Rightarrow> heap" where
  "end_offset h k = h (il_head := (h il_head) \<lparr>m_offset := of_nat k\<rparr>)"

lemma laid_place:
  assumes f: "follows h il_head ps" and d: "distinct (il_head # ps)"
  shows "laid (end_offset (place h 0 ps) (code_len h ps)) 0 ps"
proof -
  let ?h = "end_offset (place h 0 ps) (code_len h ps)"
  have ag: "agree h ?h (set ps)" "agree h ?h (set (take i ps))" for i
    using d by (auto simp: agree_def end_offset_def)
  show ?thesis
  proof (rule laid_positions)
    show "follows ?h il_head ps"
      using f follows_frame [of ?h h] by (auto simp: end_offset_def)
    show "m_offset (?h il_head) = of_nat (0 + code_len ?h ps)"
      using code_len_agree [OF ag(1)] by (simp add: end_offset_def)
    show "m_offset (?h (ps ! i)) = of_nat (0 + code_len ?h (take i ps))" if "i < length ps" for i
    proof -
      have "ps ! i \<noteq> il_head" using d that by (metis distinct.simps(2) nth_mem)
      then show ?thesis
        using d that place_offset [of ps "ps ! i" h 0] position_nth [of ps i h] code_len_agree [OF ag(2)]
        by (simp add: end_offset_def)
    qed
  qed
qed

lemma laid_fits:
  "laid h k ps \<Longrightarrow> \<forall>p\<in>set ps. \<not> needs_long h p \<Longrightarrow> fits h (offset_target h) k ps"
  by (induction ps arbitrary: k) (auto simp: Let_def needs_long_def branch_delta_def offset_target_def)

definition ready :: "u32 \<Rightarrow> ILRewriter \<Rightarrow> ptr list \<Rightarrow> bool" where
  "ready maxSize s ps \<longleftrightarrow>
     ring s ps \<and> (\<forall>p\<in>set ps. known_opcode (m_opcode (heap s p))) \<and>
     length (m_pOutputBuffer s) = unat maxSize \<and> 10 * length ps \<le> unat maxSize"

lemma for_instrs_emit:
  assumes "ring s ps"
  shows "for_instrs (\<lambda>(_, _, s). s) (emit_instr maxSize) (first_instr s) (a, b, s) =
    Some (foldE (emit_instr maxSize) ps (a, b, s))"
proof -
  have "heap s1 = heap s2"
    if "emit_opcode op (o1, s2) = Ok (o2, s1)" for op o1 o2 s1 s2
    using that by (auto simp: emit_opcode_def store_def Let_def xbind_Ok_iff split: if_splits)
  moreover have "heap s1 = heap s2"
    if "emit_operand fl i fB (o1, s2) = Ok (o2, fB2, s1)" for fl i fB o1 o2 fB2 s1 s2
    using that by (auto simp: emit_operand_def store_def Let_def xbind_Ok_iff split: if_splits)
  ultimately have "m_pNext (heap s1 x) = m_pNext (heap s2 x)"
    if "emit_instr maxSize (o1, b1, s2) p = Ok (o2, b2, s1)" for o1 b1 s2 p o2 b2 s1 x
    using that by (fastforce simp: emit_instr_def Let_def xbind_Ok_iff split: if_splits)
  then show ?thesis
    using for_instrs_ring [of "emit_instr maxSize" "\<lambda>(_, _, s). s" "(a, b, s)" ps] assms by auto
qed

lemma for_instrs_relocate:
  assumes "ring s ps"
  shows "for_instrs (\<lambda>(_, _, s). s) relocate (first_instr s) (a, b, s) =
    Some (foldE relocate ps (a, b, s))"
proof -
  have "m_pNext (heap s1 x) = m_pNext (heap s2 x)"
    if "relocate (o1, b1, s2) p = Ok (o2, b2, s1)" for o1 b1 s2 p o2 b2 s1 x
    using that
    by (auto simp: relocate_def store_def Let_def xbind_Ok_iff split: if_splits)
  then show ?thesis
    using for_instrs_ring [of relocate "\<lambda>(_, _, s). s" "(a, b, s)" ps] assms by auto
qed

lemma chunks_plain:
  "list_all2 (chunk h) ps cs \<Longrightarrow> \<forall>p\<in>set ps. \<not> has_target (m_opcode (h p)) \<Longrightarrow>
   cs = encode h tgt base k ps"
  by (induction ps cs arbitrary: base k rule: list_all2_induct) (auto simp: chunk_def Let_def)

lemma needs_long_target: "needs_long h p \<Longrightarrow> has_target (m_opcode (h p))"
  by (simp add: needs_long_def has_target_def)

definition laid_heap :: "ILRewriter \<Rightarrow> ptr list \<Rightarrow> heap" where
  "laid_heap s ps = end_offset (place (heap s) 0 ps) (code_len (heap s) ps)"

lemma laid_heap_fields [simp]:
  "m_opcode (laid_heap s ps p) = m_opcode (heap s p)" "m_arg (laid_heap s ps p) = m_arg (heap s p)"
  "m_pNext (laid_heap s ps p) = m_pNext (heap s p)" "m_pPrev (laid_heap s ps p) = m_pPrev (heap s p)"
  "get_pTarget (laid_heap s ps p) = get_pTarget (heap s p)"
  by (auto simp: laid_heap_def end_offset_def get_pTarget_def)

lemma code_len_bound:
  "\<forall>p\<in>set ps. known_opcode (m_opcode (h p)) \<Longrightarrow> code_len h ps \<le> 10 * length ps"
proof (induction ps)
  case (Cons p ps)
  then show ?case using instr_size_le [OF known_opcode_bound, of "m_opcode (h p)"] by force
qed simp

lemma export_round_ready:
  assumes r: "ready maxSize s ps"
  shows "\<exists>buf. export_round maxSize s =
      Some (Ok (of_nat (code_len (heap s) ps), \<exists>p\<in>set ps. needs_long (laid_heap s ps) p,
        s \<lparr>heap := lengthened (laid_heap s ps) (set ps), m_pOutputBuffer := buf\<rparr>)) \<and>
      length buf = unat maxSize \<and>
      (\<not> (\<exists>p\<in>set ps. needs_long (laid_heap s ps) p) \<longrightarrow>
        (\<exists>rest. buf = concat (encode (laid_heap s ps) (offset_target (laid_heap s ps)) 0 0 ps) @ rest))"
proof -
  note R = r [unfolded ready_def]
  let ?h = "laid_heap s ps" and ?n = "code_len (heap s) ps"
  have d: "distinct ps" "il_head \<notin> set ps" using R by (auto simp: ring_def)
  obtain cs rest where emit: "foldE (emit_instr maxSize) ps (0, False, s) =
      Ok (of_nat ?n, \<exists>p\<in>set ps. has_target (m_opcode (heap s p)),
        s \<lparr>heap := place (heap s) 0 ps, m_pOutputBuffer := concat cs @ rest\<rparr>)"
    and cs: "list_all2 (chunk (heap s)) ps cs" and len: "length (concat cs @ rest) = unat maxSize"
    using emit_all [of s "[]" "m_pOutputBuffer s" 0 maxSize ps False] R d by auto
  let ?s2 = "s \<lparr>heap := ?h, m_pOutputBuffer := concat cs @ rest\<rparr>"
  have s2: "upd il_head (m_offset_update (\<lambda>_. of_nat ?n))
      (s \<lparr>heap := place (heap s) 0 ps, m_pOutputBuffer := concat cs @ rest\<rparr>) = ?s2"
    by (simp add: upd_def laid_heap_def end_offset_def)
  have cs2: "list_all2 (chunk ?h) ps cs"
    using cs by (rule list_all2_mono) (simp add: chunk_cong [of ?h _ "heap s"])
  have ring2: "ring ?s2 ps" using R ring_frame [of ?s2 s ps] by simp
  have round: "export_round maxSize s =
      (if \<exists>p\<in>set ps. has_target (m_opcode (heap s p)) then
           obind_exec (Some (foldE relocate ps (0, False, ?s2)))
             (\<lambda>(switchBase, fTryAgain, s3). Some (Ok (of_nat ?n, fTryAgain, s3)))
         else Some (Ok (of_nat ?n, False, ?s2)))"
    using R emit for_instrs_emit [of s ps maxSize 0 False] for_instrs_relocate [OF ring2, of 0 False]
    by (simp add: export_round_def s2 Let_def)
  show ?thesis
  proof (cases "\<exists>p\<in>set ps. has_target (m_opcode (heap s p))")
    case False
    then have n: "\<forall>p\<in>set ps. \<not> needs_long ?h p" using needs_long_target [of ?h] by auto
    then show ?thesis
      using round False len chunks_plain [OF cs2, of "offset_target ?h" 0 0] lengthened_none [OF n]
      by (intro exI [of _ "concat cs @ rest"]) auto
  next
    case True
    have "0 + code_len (heap ?s2) ps < 4294967296"
      using R code_len_bound [of ps "heap s"] code_len_agree [of "heap s" ?h ps] unat_u32_bound [of maxSize]
      by (auto simp: agree_def)
    then obtain base' cs' where rel: "foldE relocate ps (0, False, ?s2) =
        Ok (base', \<exists>p\<in>set ps. needs_long ?h p,
          ?s2 \<lparr>heap := lengthened ?h (set ps), m_pOutputBuffer := concat cs' @ rest\<rparr>)"
      and "length (concat cs') = length (concat cs)"
      and "\<not> (\<exists>p\<in>set ps. needs_long ?h p) \<longrightarrow> cs' = encode ?h (offset_target ?h) 0 0 ps"
      using relocate_all [of ?s2 "[]" cs rest 0 ps 0 False] cs2 R d ring_follows [of s ps] laid_place [of "heap s" ps]
      by (auto simp: laid_heap_def [symmetric])
    then show ?thesis
      using round True len by (intro exI [of _ "concat cs' @ rest"]) auto
  qed
qed

section \<open>The loop ends\<close>

text \<open>Each further round has lengthened a branch; a branch is lengthened at most once.\<close>

definition short_branches :: "heap \<Rightarrow> ptr list \<Rightarrow> nat" where
  "short_branches h ps = length (filter (\<lambda>p. op_flags (m_opcode (h p)) = 17) ps)"

text \<open>What export may change of an instruction: its offset, and a short branch to its long form.\<close>

definition same_or_long :: "u32 \<Rightarrow> u32 \<Rightarrow> bool" where
  "same_or_long op op' \<longleftrightarrow>
     op' = op \<or> unat op < 296 \<and> op_flags op = 1 OR OPCODEFLAGS_BranchTarget \<and> op' = long_opcode op"

definition relaxed :: "heap \<Rightarrow> heap \<Rightarrow> bool" where
  "relaxed h h' \<longleftrightarrow> (\<forall>p. m_arg (h' p) = m_arg (h p) \<and> m_pNext (h' p) = m_pNext (h p) \<and>
     m_pPrev (h' p) = m_pPrev (h p) \<and> same_or_long (m_opcode (h p)) (m_opcode (h' p)))"

lemma same_or_long_trans:
  assumes "same_or_long a b" and "same_or_long b c"
  shows "same_or_long a c"
proof (cases "b = a")
  case False
  then have b: "unat a < 296" "op_flags a = 17" "b = long_opcode a"
    using assms(1) by (auto simp: same_or_long_def)
  then have "op_flags b = 20" using short_opcodes(2) by simp
  then have "c = b" using assms(2) by (auto simp: same_or_long_def)
  with assms(1) show ?thesis by simp
qed (use assms in simp)

lemma relaxed_trans: "relaxed h h1 \<Longrightarrow> relaxed h1 h2 \<Longrightarrow> relaxed h h2"
  unfolding relaxed_def using same_or_long_trans by metis

lemma same_or_long_facts:
  assumes "same_or_long op op'" and "known_opcode op"
  shows "known_opcode op'" and "has_target op' = has_target op"
    and "op' = CEE_SWITCH_ARG \<longleftrightarrow> op = CEE_SWITCH_ARG" and "op' = CEE_SWITCH \<longleftrightarrow> op = CEE_SWITCH"
proof -
  have "known_opcode op' \<and> has_target op' = has_target op \<and>
     (op' = CEE_SWITCH_ARG \<longleftrightarrow> op = CEE_SWITCH_ARG) \<and> (op' = CEE_SWITCH \<longleftrightarrow> op = CEE_SWITCH)"
  proof (cases "op' = op")
    case False
    then have a: "unat op < 296" "op_flags op = 17" "op' = long_opcode op"
      using assms(1) by (auto simp: same_or_long_def)
    note S = short_opcodes [OF a(1,2)]
    have "op' \<noteq> CEE_SWITCH" using S(2) a(3) by auto
    then show ?thesis using S a by (simp add: has_target_def)
  qed (use assms in simp)
  then show "known_opcode op'" "has_target op' = has_target op"
    "op' = CEE_SWITCH_ARG \<longleftrightarrow> op = CEE_SWITCH_ARG" "op' = CEE_SWITCH \<longleftrightarrow> op = CEE_SWITCH" by blast+
qed

lemma relaxed_round:
  assumes "ready maxSize s ps"
  shows "relaxed (heap s) (lengthened (laid_heap s ps) (set ps))"
proof -
  have "unat (m_opcode (heap s p)) < 296" if "p \<in> set ps" for p
    using assms that known_opcode_bound by (auto simp: ready_def)
  then show ?thesis
    by (auto simp: relaxed_def same_or_long_def lengthened_def needs_long_def)
qed

lemma ready_round:
  assumes r: "ready maxSize s ps" and "length buf = unat maxSize"
  shows "ready maxSize (s \<lparr>heap := lengthened (laid_heap s ps) (set ps), m_pOutputBuffer := buf\<rparr>) ps"
proof -
  let ?s = "s \<lparr>heap := lengthened (laid_heap s ps) (set ps), m_pOutputBuffer := buf\<rparr>"
  have "ring ?s ps" using r ring_frame [of ?s s ps] by (simp add: ready_def)
  then show ?thesis
    using assms relaxed_round [OF r] same_or_long_facts(1) by (auto simp: ready_def relaxed_def)
qed

lemma short_branches_decrease:
  assumes "ready maxSize s ps" and "\<exists>p\<in>set ps. needs_long (laid_heap s ps) p"
  shows "short_branches (lengthened (laid_heap s ps) (set ps)) ps < short_branches (heap s) ps"
proof -
  let ?h = "lengthened (laid_heap s ps) (set ps)"
  have kn: "unat (m_opcode (heap s p)) < 296" if "p \<in> set ps" for p
    using assms that known_opcode_bound by (auto simp: ready_def)
  have sub: "op_flags (m_opcode (heap s p)) = 17 \<and> \<not> needs_long (laid_heap s ps) p \<longleftrightarrow>
      op_flags (m_opcode (?h p)) = 17" if "p \<in> set ps" for p
    using that short_opcodes(2) [OF kn [OF that]]
    by (auto simp: lengthened_def needs_long_def)
  have "short_branches ?h ps =
      length (filter (\<lambda>p. op_flags (m_opcode (heap s p)) = 17 \<and> \<not> needs_long (laid_heap s ps) p) ps)"
    unfolding short_branches_def by (rule arg_cong [of _ _ length], rule filter_cong) (use sub in auto)
  also have "\<dots> = length (filter (\<lambda>p. \<not> needs_long (laid_heap s ps) p)
      (filter (\<lambda>p. op_flags (m_opcode (heap s p)) = 17) ps))" by simp
  also have "\<dots> < short_branches (heap s) ps"
  proof -
    obtain p where "p \<in> set (filter (\<lambda>p. op_flags (m_opcode (heap s p)) = 17) ps)"
      "\<not> \<not> needs_long (laid_heap s ps) p"
      using assms(2) by (auto simp: needs_long_def)
    then show ?thesis unfolding short_branches_def by (rule length_filter_less)
  qed
  finally show ?thesis .
qed

text \<open>
  What the loop leaves: every instruction at its offset, every short branch in range, and the
  encoding of the list at the start of the buffer.
\<close>

definition exported :: "u32 \<Rightarrow> ILRewriter \<Rightarrow> ptr list \<Rightarrow> bool" where
  "exported maxSize s ps \<longleftrightarrow>
     ready maxSize s ps \<and> laid (heap s) 0 ps \<and> fits (heap s) (offset_target (heap s)) 0 ps \<and>
     take (code_len (heap s) ps) (m_pOutputBuffer s) =
       concat (encode (heap s) (offset_target (heap s)) 0 0 ps)"

lemma exported_round:
  assumes r: "ready maxSize s ps" and n: "\<not> (\<exists>p\<in>set ps. needs_long (laid_heap s ps) p)"
    and buf: "length buf = unat maxSize"
      "buf = concat (encode (laid_heap s ps) (offset_target (laid_heap s ps)) 0 0 ps) @ rest"
  shows "exported maxSize (s \<lparr>heap := lengthened (laid_heap s ps) (set ps), m_pOutputBuffer := buf\<rparr>) ps"
proof -
  let ?h = "laid_heap s ps"
  have h: "lengthened ?h (set ps) = ?h" using lengthened_none n by blast
  have l: "laid ?h 0 ps"
    using r laid_place [OF ring_follows, of s ps] by (auto simp: ready_def ring_def laid_heap_def)
  have "\<forall>p\<in>set ps. unat (m_opcode (?h p)) < 296"
    using r known_opcode_bound by (auto simp: ready_def)
  then have "length (concat (encode ?h (offset_target ?h) 0 0 ps)) = code_len ?h ps"
    by (intro length_concat_encode) blast
  then have "take (code_len ?h ps) buf = concat (encode ?h (offset_target ?h) 0 0 ps)"
    by (simp add: buf(2))
  then show ?thesis
    using ready_round [OF r buf(1)] l laid_fits [OF l] n by (simp add: exported_def h)
qed

lemma code_len_laid [simp]: "code_len (laid_heap s ps) qs = code_len (heap s) qs"
  by (rule code_len_agree) (simp add: agree_def)

lemma export_loop_ready:
  assumes "ready maxSize s ps"
  shows "\<exists>s'. export_loop maxSize s = Some (Ok (of_nat (code_len (heap s') ps), s')) \<and>
    exported maxSize s' ps \<and> relaxed (heap s) (heap s') \<and>
    s' = s \<lparr>heap := heap s', m_pOutputBuffer := m_pOutputBuffer s'\<rparr>"
  using assms
proof (induction "short_branches (heap s) ps" arbitrary: s rule: less_induct)
  case less
  let ?n = "\<exists>p\<in>set ps. needs_long (laid_heap s ps) p"
  let ?h = "lengthened (laid_heap s ps) (set ps)"
  obtain buf where round: "export_round maxSize s = Some (Ok (of_nat (code_len (heap s) ps), ?n,
        s \<lparr>heap := ?h, m_pOutputBuffer := buf\<rparr>))"
    and len: "length buf = unat maxSize"
    and enc: "\<not> ?n \<Longrightarrow> \<exists>rest. buf = concat (encode (laid_heap s ps) (offset_target (laid_heap s ps)) 0 0 ps) @ rest"
    using export_round_ready [OF less.prems] by blast
  let ?s1 = "s \<lparr>heap := ?h, m_pOutputBuffer := buf\<rparr>"
  have rel: "relaxed (heap s) (heap ?s1)" using relaxed_round [OF less.prems] by simp
  show ?case
  proof (cases ?n)
    case True
    have "short_branches (heap ?s1) ps < short_branches (heap s) ps"
      using short_branches_decrease [OF less.prems True] by simp
    from less.hyps [OF this ready_round [OF less.prems len]] obtain s'
      where IH: "export_loop maxSize ?s1 = Some (Ok (of_nat (code_len (heap s') ps), s'))"
        "exported maxSize s' ps" "relaxed (heap ?s1) (heap s')"
        "s' = ?s1 \<lparr>heap := heap s', m_pOutputBuffer := m_pOutputBuffer s'\<rparr>" by blast
    have "export_loop maxSize s = export_loop maxSize ?s1"
      using round True by (subst export_loop.simps) simp
    moreover have "s' = s \<lparr>heap := heap s', m_pOutputBuffer := m_pOutputBuffer s'\<rparr>"
      by (subst IH(4)) simp
    ultimately show ?thesis using IH(1,2) relaxed_trans [OF rel IH(3)] by metis
  next
    case False
    obtain rest where "buf = concat (encode (laid_heap s ps) (offset_target (laid_heap s ps)) 0 0 ps) @ rest"
      using enc [OF False] by blast
    then have "exported maxSize ?s1 ps" using exported_round [OF less.prems False len] by simp
    moreover have "export_loop maxSize s = Some (Ok (of_nat (code_len (heap s) ps), ?s1))"
      using round False by (subst export_loop.simps) simp
    moreover have "code_len (heap ?s1) ps = code_len (heap s) ps"
      using lengthened_none [of "set ps" "laid_heap s ps"] False by simp
    ultimately show ?thesis using rel by (intro exI [of _ ?s1]) simp
  qed
qed

text \<open>The first round is the last when all short branches fit: export then changes no opcode.\<close>

lemma export_loop_fits:
  assumes r: "ready maxSize s ps" and n: "\<not> (\<exists>p\<in>set ps. needs_long (laid_heap s ps) p)"
  shows "\<exists>buf rest. export_loop maxSize s =
      Some (Ok (of_nat (code_len (heap s) ps), s \<lparr>heap := laid_heap s ps, m_pOutputBuffer := buf\<rparr>)) \<and>
    buf = concat (encode (laid_heap s ps) (offset_target (laid_heap s ps)) 0 0 ps) @ rest"
proof -
  have "lengthened (laid_heap s ps) (set ps) = laid_heap s ps" using lengthened_none n by blast
  then show ?thesis
    using export_round_ready [OF r] n by (subst export_loop.simps) auto
qed

section \<open>Targets by position\<close>

lemma laid_offsets:
  assumes "laid h k ps" and "distinct (il_head # ps)" and "t \<in> set (il_head # ps)"
  shows "m_offset (h t) = of_nat (k + position h ps t)"
  using assms
proof (induction ps arbitrary: k)
  case (Cons p ps)
  then show ?case by (auto simp: add.assoc)
qed simp

lemma offset_list_target:
  assumes "laid h 0 ps" and "distinct (il_head # ps)" and "points_into h ps"
    and "p \<in> set ps" and "has_target (m_opcode (h p))"
  shows "offset_target h p = list_target h ps p"
  using assms laid_offsets [OF assms(1,2), of "get_pTarget (h p)"]
  by (fastforce simp: offset_target_def list_target_def points_into_def get_pTarget_def)

text \<open>With every branch pointing into the list, the exported list spells the code.\<close>

lemma exported_spells:
  assumes e: "exported maxSize s ps" and pt: "points_into (heap s) ps"
  shows "spells s ps (take (code_len (heap s) ps) (m_pOutputBuffer s))"
proof -
  note E = e [unfolded exported_def ready_def]
  have d: "distinct (il_head # ps)" using E by (simp add: ring_def)
  have tgt: "list_target (heap s) ps q = offset_target (heap s) q"
    if "q \<in> set ps" "has_target (m_opcode (heap s q))" for q
    using offset_list_target [OF _ d pt that] E by simp
  have "retargets (heap s) (heap s) (set ps)" by (simp add: retargets_def)
  note T = encode_retarget [OF this _ tgt]
  have "length (concat (encode (heap s) (offset_target (heap s)) 0 0 ps)) = code_len (heap s) ps"
    using E known_opcode_bound by (intro length_concat_encode) blast
  then show ?thesis using E pt T by (simp add: spells_def)
qed

lemma relaxed_points_into:
  assumes "relaxed h h'" and "points_into h ps" and "\<forall>p\<in>set ps. known_opcode (m_opcode (h p))"
  shows "points_into h' ps"
proof -
  have "has_target (m_opcode (h' p)) = has_target (m_opcode (h p)) \<and> m_arg (h' p) = m_arg (h p) \<and>
      (m_opcode (h' p) = CEE_SWITCH_ARG \<longleftrightarrow> m_opcode (h p) = CEE_SWITCH_ARG)" if "p \<in> set ps" for p
    using assms(1,3) that same_or_long_facts(2,3) [of "m_opcode (h p)" "m_opcode (h' p)"]
    by (auto simp: relaxed_def)
  then show ?thesis using assms(2) unfolding points_into_def by metis
qed

end
