(* ===== verification/ILMethod.thy ===== *)
theory ILMethod
  imports ILExport
begin

text \<open>
  Whole method bodies: the decoder of \<^verbatim>\<open>corhlpr.cpp\<close> for tiny and fat headers and their
  exception clauses, \<^verbatim>\<open>ILRewriter::Import\<close> with \<^verbatim>\<open>ImportEH\<close>, and
  \<^verbatim>\<open>ILRewriter::Export\<close> with its headers. The CLR behind the profiling interfaces is a
  parameter, the record \<open>clr\<close>. A body is read through a pointer, a function from the distance
  to the byte.
\<close>

section \<open>Fields in memory\<close>

definition mem8 :: "(nat \<Rightarrow> u8) \<Rightarrow> nat \<Rightarrow> u32" where
  "mem8 body a = ucast (body a)"

definition mem16 :: "(nat \<Rightarrow> u8) \<Rightarrow> nat \<Rightarrow> u32" where
  "mem16 body a = ucast (le_value [body a, body (a + 1)])"

definition mem32 :: "(nat \<Rightarrow> u8) \<Rightarrow> nat \<Rightarrow> u32" where
  "mem32 body a = ucast (le_value [body a, body (a + 1), body (a + 2), body (a + 3)])"

text \<open>The address behind \<open>a\<close> rounded up to a multiple of four.\<close>

definition align4 :: "nat \<Rightarrow> nat" where
  "align4 a = (a + 3) div 4 * 4"

section \<open>Exception clauses\<close>

record clause_fat =
  Flags :: u32
  TryOffset :: u32
  TryLength :: u32
  HandlerOffset :: u32
  HandlerLength :: u32
  ClassToken_FilterOffset :: u32

text \<open>\<^verbatim>\<open>SectEH_EHClause\<close>: the clause \<open>idx\<close> of a section, a small one widened.\<close>

definition SectEH_EHClause :: "(nat \<Rightarrow> u8) \<Rightarrow> nat \<Rightarrow> nat \<Rightarrow> clause_fat" where
  "SectEH_EHClause body sect idx =
     (if mem8 body sect AND 0x40 \<noteq> 0
      then let a = sect + 4 + 24 * idx in
        \<lparr>Flags = mem32 body a, TryOffset = mem32 body (a + 4), TryLength = mem32 body (a + 8),
         HandlerOffset = mem32 body (a + 12), HandlerLength = mem32 body (a + 16),
         ClassToken_FilterOffset = mem32 body (a + 20)\<rparr>
      else let a = sect + 4 + 12 * idx in
        \<lparr>Flags = mem16 body a AND 0x0000FFFF, TryOffset = mem16 body (a + 2),
         TryLength = mem8 body (a + 4), HandlerOffset = mem16 body (a + 5),
         HandlerLength = mem8 body (a + 7), ClassToken_FilterOffset = mem32 body (a + 8)\<rparr>)"

definition GetDataSize :: "(nat \<Rightarrow> u8) \<Rightarrow> nat \<Rightarrow> u32" where
  "GetDataSize body sect =
     mem8 body (sect + 1) OR push_bit 8 (mem8 body (sect + 2)) OR push_bit 16 (mem8 body (sect + 3))"

definition EHCount :: "(nat \<Rightarrow> u8) \<Rightarrow> nat \<Rightarrow> u32" where
  "EHCount body sect =
     (if mem8 body sect AND 0x40 \<noteq> 0 then GetDataSize body sect div 24
      else mem8 body (sect + 1) div 12)"

section \<open>Headers\<close>

definition Tiny_IsTiny :: "(nat \<Rightarrow> u8) \<Rightarrow> bool" where
  "Tiny_IsTiny body \<longleftrightarrow> mem8 body 0 AND drop_bit 1 7 = 2"

definition Tiny_GetCodeSize :: "(nat \<Rightarrow> u8) \<Rightarrow> u32" where
  "Tiny_GetCodeSize body = drop_bit 2 (mem8 body 0)"

definition Fat_IsFat :: "(nat \<Rightarrow> u8) \<Rightarrow> bool" where
  "Fat_IsFat body \<longleftrightarrow> mem8 body 0 AND 7 = 3"

definition Fat_GetSize :: "(nat \<Rightarrow> u8) \<Rightarrow> u32" where
  "Fat_GetSize body = drop_bit 4 (mem8 body 1)"

definition Fat_GetFlags :: "(nat \<Rightarrow> u8) \<Rightarrow> u32" where
  "Fat_GetFlags body = mem8 body 0 OR push_bit 8 (mem8 body 1 AND 0x0F)"

definition Fat_GetSect :: "(nat \<Rightarrow> u8) \<Rightarrow> nat option" where
  "Fat_GetSect body =
     (if mem8 body 0 AND 8 = 0 then None
      else Some (align4 (4 * unat (Fat_GetSize body) + unat (mem32 body 4))))"

text \<open>
  What the rewriter reads from a decoder. \<open>Code\<close> and \<open>EH\<close> are distances from the header,
  \<open>None\<close> for a null pointer.
\<close>

record decoder =
  dec_Flags :: u32
  dec_MaxStack :: u32
  dec_CodeSize :: u32
  dec_LocalVarSigTok :: u32
  dec_Code :: "nat option"
  dec_EH :: "nat option"

definition zero_decoder :: decoder where
  "zero_decoder = \<lparr>dec_Flags = 0, dec_MaxStack = 0, dec_CodeSize = 0, dec_LocalVarSigTok = 0,
     dec_Code = None, dec_EH = None\<rparr>"

text \<open>\<^verbatim>\<open>DecoderInit\<close> on a 64-bit host; \<open>aligned\<close>: the header is at a multiple of four.\<close>

definition DecoderInit :: "(nat \<Rightarrow> u8) \<Rightarrow> bool \<Rightarrow> decoder" where
  "DecoderInit body aligned =
     (if Tiny_IsTiny body then
        zero_decoder \<lparr>dec_MaxStack := 8, dec_Code := Some 1, dec_CodeSize := Tiny_GetCodeSize body,
          dec_Flags := 2\<rparr>
      else if Fat_IsFat body then
        (if aligned then
           let d = zero_decoder \<lparr>dec_Flags := Fat_GetFlags body, dec_MaxStack := mem16 body 2,
                 dec_CodeSize := mem32 body 4, dec_LocalVarSigTok := mem32 body 8,
                 dec_Code := Some (4 * unat (Fat_GetSize body))\<rparr> in
           if 3 \<le> Fat_GetSize body then
             case Fat_GetSect body of
               None \<Rightarrow> d
             | Some sect \<Rightarrow> if mem8 body sect AND 0x3F = 1 then d \<lparr>dec_EH := Some sect\<rparr> else d
           else d
         else zero_decoder)
      else zero_decoder)"

definition dec_EHCount :: "(nat \<Rightarrow> u8) \<Rightarrow> decoder \<Rightarrow> u32" where
  "dec_EHCount body d = (case dec_EH d of None \<Rightarrow> 0 | Some sect \<Rightarrow> EHCount body sect)"

section \<open>Import\<close>

text \<open>What the rewriter asks of the CLR, with the answers.\<close>

record clr =
  GetILFunctionBody :: "hresult + (nat \<Rightarrow> u8) \<times> bool"
  has_function_control :: bool
  GetILFunctionBodyAllocator :: hresult
  Alloc_succeeds :: "u32 \<Rightarrow> bool"
  control_SetILFunctionBody :: "u32 \<Rightarrow> bytes \<Rightarrow> hresult"
  info_SetILFunctionBody :: "bytes \<Rightarrow> hresult"

text \<open>One clause: its offsets become the instructions at them.\<close>

definition import_clause :: "ILRewriter \<Rightarrow> clause_fat \<Rightarrow> EHClause exec" where
  "import_clause s ehInfo =
     xbind (GetInstrFromOffset (TryOffset ehInfo) s) (\<lambda>tryBegin.
     xbind (GetInstrFromOffset (TryOffset ehInfo + TryLength ehInfo) s) (\<lambda>tryEnd.
     xbind (GetInstrFromOffset (HandlerOffset ehInfo) s) (\<lambda>handlerBegin.
     xbind (GetInstrFromOffset (HandlerOffset ehInfo + HandlerLength ehInfo) s) (\<lambda>handlerNext.
     let clause = \<lparr>m_Flags = Flags ehInfo, m_pTryBegin = tryBegin, m_pTryEnd = tryEnd,
           m_pHandlerBegin = handlerBegin, m_pHandlerEnd = m_pPrev (heap s handlerNext),
           m_ClassToken_pFilter = Bits (ucast (ClassToken_FilterOffset ehInfo))\<rparr> in
     if Flags ehInfo AND 1 = 0 then Ok clause
     else xbind (GetInstrFromOffset (ClassToken_FilterOffset ehInfo) s) (\<lambda>filter_instr.
       Ok (clause \<lparr>m_ClassToken_pFilter := Target filter_instr\<rparr>))))))"

primrec import_clauses :: "ILRewriter \<Rightarrow> clause_fat list \<Rightarrow> EHClause list exec" where
  "import_clauses s [] = Ok []"
| "import_clauses s (c # cs) =
     xbind (import_clause s c) (\<lambda>e. xbind (import_clauses s cs) (\<lambda>es. Ok (e # es)))"

definition ImportEH :: "(nat \<Rightarrow> clause_fat) \<Rightarrow> u32 \<Rightarrow> ILRewriter \<Rightarrow> ILRewriter exec" where
  "ImportEH EHClause_at nEH s =
     (if m_pEH s \<noteq> None then Fail COR_E_INVALIDOPERATION
      else
        let s1 = s \<lparr>m_nEH := nEH\<rparr> in
        if nEH = 0 then Ok s1
        else xbind (import_clauses s1 (map EHClause_at [0..<unat nEH]))
          (\<lambda>es. Ok (s1 \<lparr>m_pEH := Some es\<rparr>)))"

definition Import :: "clr \<Rightarrow> ILRewriter \<Rightarrow> ILRewriter exec option" where
  "Import ci s =
     (case GetILFunctionBody ci of
        Inl hr \<Rightarrow> Some (Fail hr)
      | Inr (body, aligned) \<Rightarrow>
          let d = DecoderInit body aligned;
              s1 = s \<lparr>m_tkLocalVarSig := dec_LocalVarSigTok d, m_maxStack := dec_MaxStack d,
                m_flags := dec_Flags d AND 0x10, m_CodeSize := dec_CodeSize d\<rparr>;
              pIL = (\<lambda>i. body (case_option 0 id (dec_Code d) + i)) in
          obind_exec (ImportIL pIL s1) (\<lambda>s2.
            Some (ImportEH (SectEH_EHClause body (case_option 0 id (dec_EH d))) (dec_EHCount body d) s2)))"

section \<open>Export\<close>

text \<open>Fields of the body are written in order; \<open>le32\<close> is a \<^verbatim>\<open>DWORD\<close> in memory.\<close>

definition le32 :: "u32 \<Rightarrow> bytes" where
  "le32 w = le_bytes 4 (ucast w)"

text \<open>
  The header \<^verbatim>\<open>IMAGE_COR_ILMETHOD_FAT\<close>: the first word holds the bit fields \<^verbatim>\<open>Flags : 12\<close>,
  \<^verbatim>\<open>Size : 4\<close> and \<^verbatim>\<open>MaxStack : 16\<close>, each cut to its width.
\<close>

definition fat_header :: "u32 \<Rightarrow> u32 \<Rightarrow> u32 \<Rightarrow> u32 \<Rightarrow> bytes" where
  "fat_header flags maxStack codeSize tk =
     le32 (take_bit 12 flags OR push_bit 12 3 OR push_bit 16 (take_bit 16 maxStack)) @
     le32 codeSize @ le32 tk"

text \<open>The header of the clause section, \<^verbatim>\<open>Kind : 8\<close> and \<^verbatim>\<open>DataSize : 24\<close>.\<close>

definition sect_fat :: "u32 \<Rightarrow> u32 \<Rightarrow> bytes" where
  "sect_fat kind dataSize = le32 (take_bit 8 kind OR push_bit 8 (take_bit 24 dataSize))"

definition export_clause :: "heap \<Rightarrow> EHClause \<Rightarrow> clause_fat" where
  "export_clause h pSrc =
     \<lparr>Flags = m_Flags pSrc,
      TryOffset = m_offset (h (m_pTryBegin pSrc)),
      TryLength = m_offset (h (m_pTryEnd pSrc)) - m_offset (h (m_pTryBegin pSrc)),
      HandlerOffset = m_offset (h (m_pHandlerBegin pSrc)),
      HandlerLength =
        m_offset (h (m_pNext (h (m_pHandlerEnd pSrc)))) - m_offset (h (m_pHandlerBegin pSrc)),
      ClassToken_FilterOffset =
        (if m_Flags pSrc AND 1 = 0 then ucast (arg_bits (m_ClassToken_pFilter pSrc))
         else m_offset (h (arg_ptr (m_ClassToken_pFilter pSrc))))\<rparr>"

definition clause_bytes :: "clause_fat \<Rightarrow> bytes" where
  "clause_bytes c =
     le32 (Flags c) @ le32 (TryOffset c) @ le32 (TryLength c) @ le32 (HandlerOffset c) @
     le32 (HandlerLength c) @ le32 (ClassToken_FilterOffset c)"

text \<open>The \<open>m_nEH\<close> elements of the array of clauses.\<close>

definition eh_clauses :: "ILRewriter \<Rightarrow> EHClause list" where
  "eh_clauses s = (case m_pEH s of None \<Rightarrow> [] | Some es \<Rightarrow> take (unat (m_nEH s)) es)"

text \<open>The sizes, in the width of \<^verbatim>\<open>unsigned\<close>.\<close>

definition alignedCodeSize :: "u32 \<Rightarrow> u32" where
  "alignedCodeSize offset = (offset + 3) AND NOT 3"

definition fat_totalSize :: "u32 \<Rightarrow> u32 \<Rightarrow> u32" where
  "fat_totalSize nEH offset =
     12 + alignedCodeSize offset + (if nEH \<noteq> 0 then 4 + 24 * nEH else 0)"

text \<open>
  The body. The bytes between the end of the code and the next section are not written: they
  are what the allocated memory held, the argument \<open>mem\<close>.
\<close>

definition tiny_body :: "u32 \<Rightarrow> ILRewriter \<Rightarrow> bytes" where
  "tiny_body codeSize s =
     ucast (2 OR push_bit 2 codeSize) # take (unat codeSize) (m_pOutputBuffer s)"

definition fat_body :: "(nat \<Rightarrow> u8) \<Rightarrow> u32 \<Rightarrow> ILRewriter \<Rightarrow> bytes" where
  "fat_body mem codeSize s =
     fat_header (m_flags s OR (if m_nEH s \<noteq> 0 then 8 else 0) OR 3) (m_maxStack s) codeSize
       (m_tkLocalVarSig s) @
     take (unat codeSize) (m_pOutputBuffer s) @
     map mem [12 + unat codeSize..<12 + unat (alignedCodeSize codeSize)] @
     (if m_nEH s \<noteq> 0
      then sect_fat (1 OR 0x40) (4 + 24 * m_nEH s) @
        concat (map (\<lambda>e. clause_bytes (export_clause (heap s) e)) (eh_clauses s))
      else [])"

definition AllocateILMemory :: "clr \<Rightarrow> u32 \<Rightarrow> bool" where
  "AllocateILMemory ci totalSize \<longleftrightarrow>
     has_function_control ci \<or> \<not> FAILED (GetILFunctionBodyAllocator ci) \<and> Alloc_succeeds ci totalSize"

definition SetILFunctionBody :: "clr \<Rightarrow> u32 \<Rightarrow> bytes \<Rightarrow> hresult" where
  "SetILFunctionBody ci totalSize pBody =
     (let hr = (if has_function_control ci then control_SetILFunctionBody ci totalSize pBody
                else info_SetILFunctionBody ci pBody) in
      if FAILED hr then hr else S_OK)"

text \<open>
  \<^verbatim>\<open>Export\<close>: the state it leaves, the size and the bytes it submits. The output buffer is
  allocated with ten bytes for each instruction and starts with arbitrary contents.
\<close>

definition submit :: "clr \<Rightarrow> u32 \<Rightarrow> bytes \<Rightarrow> ILRewriter \<Rightarrow> (ILRewriter \<times> u32 \<times> bytes) exec" where
  "submit ci totalSize pBody s =
     (if \<not> AllocateILMemory ci totalSize then Fail E_OUTOFMEMORY
      else
        let hr = SetILFunctionBody ci totalSize pBody in
        if FAILED hr then Fail hr else Ok (s, totalSize, pBody))"

definition Export ::
  "clr \<Rightarrow> (nat \<Rightarrow> u8) \<Rightarrow> ILRewriter \<Rightarrow> (ILRewriter \<times> u32 \<times> bytes) exec option" where
  "Export ci mem s =
     (let maxSize = m_nInstrs s * 10;
          s1 = s \<lparr>m_pOutputBuffer := map mem [0..<unat maxSize]\<rparr> in
      obind_exec (export_loop maxSize s1) (\<lambda>(codeSize, s2). Some (
        if m_fGenerateTinyHeader s2 then
          (if 64 \<le> codeSize then Fail E_FAIL
           else submit ci (1 + codeSize) (tiny_body codeSize s2) s2)
        else submit ci (fat_totalSize (m_nEH s2) codeSize) (fat_body mem codeSize s2) s2)))"

section \<open>Reading back what was written\<close>

definition bytes_at :: "(nat \<Rightarrow> u8) \<Rightarrow> nat \<Rightarrow> bytes \<Rightarrow> bool" where
  "bytes_at body a bs \<longleftrightarrow> map body [a..<a + length bs] = bs"

lemma bytes_at_append: "bytes_at body a (xs @ ys) \<longleftrightarrow> bytes_at body a xs \<and> bytes_at body (a + length xs) ys"
proof -
  have "[a..<a + length (xs @ ys)] = [a..<a + length xs] @ [a + length xs..<a + length xs + length ys]"
    by (simp only: length_append add.assoc [symmetric]) (rule upt_split [symmetric], simp_all)
  then show ?thesis by (simp add: bytes_at_def)
qed

lemma bytes_at_Nil [simp]: "bytes_at body a []"
  by (simp add: bytes_at_def)

lemma bytes_at_Cons: "bytes_at body a (x # xs) \<longleftrightarrow> body a = x \<and> bytes_at body (a + 1) xs"
proof -
  have "[a..<a + length (x # xs)] = a # [a + 1..<a + 1 + length xs]" by (simp add: upt_conv_Cons del: upt_Suc)
  then show ?thesis by (simp add: bytes_at_def del: upt_Suc)
qed

lemma bytes_at_nth: "bytes_at (nth xs) 0 xs"
  by (simp add: bytes_at_def map_nth)

lemma bytes_at_concat_map:
  assumes "bytes_at body a (concat (map f xs))" and "\<And>x. length (f x) = k" and "i < length xs"
  shows "bytes_at body (a + k * i) (f (xs ! i))"
  using assms
proof (induction xs arbitrary: a i)
  case (Cons x xs)
  then show ?case
  proof (cases i)
    case (Suc j)
    have "bytes_at body (a + k) (concat (map f xs))"
      using Cons.prems(1,2) by (simp add: bytes_at_append)
    from Cons.IH [OF this, of j] Cons.prems Suc show ?thesis by (simp add: add.assoc)
  qed (simp add: bytes_at_append)
qed simp

lemma le_value_bytes: "k \<le> 8 \<Longrightarrow> le_value (le_bytes k w) = take_bit (8 * k) w"
proof (induction k arbitrary: w)
  case (Suc k)
  have "ucast (ucast w :: u8) OR push_bit 8 (take_bit (8 * k) (drop_bit 8 w)) = take_bit (8 * Suc k) w"
    using Suc.prems by (intro bit_word_eqI) (auto simp: bit_simps)
  then show ?case using Suc by simp
qed simp

lemma mem32_le32: "bytes_at body a (le32 w) \<Longrightarrow> mem32 body a = w"
proof -
  assume "bytes_at body a (le32 w)"
  then have "[body a, body (a + 1), body (a + 2), body (a + 3)] = le_bytes 4 (ucast w)"
    by (simp add: bytes_at_def le32_def upt_rec eval_nat_numeral)
  then have "mem32 body a = ucast (take_bit 32 (ucast w :: u64))"
    using le_value_bytes [of 4 "ucast w"] by (simp add: mem32_def)
  also have "\<dots> = w" by (rule bit_word_eqI) (auto simp: bit_simps)
  finally show ?thesis .
qed

lemma length_le32 [simp]: "length (le32 w) = 4"
  by (simp add: le32_def)

lemma bytes_of_le32:
  assumes "bytes_at body a (le32 w)"
  shows "body a = ucast w" and "body (a + 1) = ucast (drop_bit 8 w)"
    and "body (a + 2) = ucast (drop_bit 16 w)" and "body (a + 3) = ucast (drop_bit 24 w)"
proof -
  have "[body a, body (a + 1), body (a + 2), body (a + 3)] = le_bytes 4 (ucast w)"
    using assms by (simp add: bytes_at_def le32_def upt_rec eval_nat_numeral)
  then have *: "body a = ucast (ucast w :: u64)" "body (a + 1) = ucast (drop_bit 8 (ucast w) :: u64)"
    "body (a + 2) = ucast (drop_bit 16 (ucast w) :: u64)" "body (a + 3) = ucast (drop_bit 24 (ucast w) :: u64)"
    by (simp_all add: numeral_eq_Suc)
  show "body a = ucast w" "body (a + 1) = ucast (drop_bit 8 w)"
    "body (a + 2) = ucast (drop_bit 16 w)" "body (a + 3) = ucast (drop_bit 24 w)"
    unfolding * by (rule bit_word_eqI; auto simp: bit_simps)+
qed

section \<open>The decoder reads what export writes\<close>

definition header_word :: "u32 \<Rightarrow> u32 \<Rightarrow> u32" where
  "header_word flags maxStack = take_bit 12 flags OR push_bit 12 3 OR push_bit 16 (take_bit 16 maxStack)"

lemma header_word_bytes:
  "(ucast (header_word flags maxStack) :: u8) = ucast flags"
  "(ucast (drop_bit 8 (header_word flags maxStack)) :: u8) = ucast (take_bit 4 (drop_bit 8 flags)) OR 0x30"
  unfolding word_eq8 header_word_def by (simp_all add: all_bits bit_simps)

lemma header_word_stack:
  "(ucast (le_value [ucast (drop_bit 16 (header_word flags maxStack)),
      ucast (drop_bit 24 (header_word flags maxStack))]) :: u32) = take_bit 16 maxStack"
proof -
  have "ucast (drop_bit 16 (header_word flags maxStack)) = (ucast maxStack :: u8)"
    "ucast (drop_bit 24 (header_word flags maxStack)) = (ucast (drop_bit 8 maxStack) :: u8)"
    unfolding word_eq8 header_word_def by (simp_all add: all_bits bit_simps)
  moreover have "(ucast (le_value [ucast maxStack, ucast (drop_bit 8 maxStack)]) :: u32) = take_bit 16 maxStack"
    unfolding word_eq32 by (simp add: all_bits bit_simps)
  ultimately show ?thesis by simp
qed

text \<open>The flag word export writes, for the flags a rewriter can hold.\<close>

lemma export_flags_cases:
  fixes mf :: u32
  assumes "mf = 0 \<or> mf = 2 \<or> mf = 0x10"
  shows "mf OR (if b then 8 else 0) OR 3 \<in> {3, 0x13, 0xB, 0x1B}"
    and "(mf OR (if b then 8 else 0) OR 3) AND 0x10 = mf AND 0x10"
    and "(mf OR (if b then 8 else 0) OR 3) AND 8 = (if b then 8 else 0)"
  using assms by (auto split: if_splits)

lemma decode_fat_header:
  assumes b: "bytes_at body 0 (fat_header fl maxStack codeSize tk)" and fl: "fl \<in> {3, 0x13, 0xB, 0x1B}"
  shows "DecoderInit body True =
    \<lparr>dec_Flags = fl, dec_MaxStack = take_bit 16 maxStack, dec_CodeSize = codeSize,
     dec_LocalVarSigTok = tk, dec_Code = Some 12,
     dec_EH = (if fl AND 8 = 0 then None
       else if mem8 body (align4 (12 + unat codeSize)) AND 0x3F = 1
         then Some (align4 (12 + unat codeSize)) else None)\<rparr>"
proof -
  have w: "bytes_at body 0 (le32 (header_word fl maxStack))" and cs: "mem32 body 4 = codeSize"
    and tk: "mem32 body 8 = tk"
    using b mem32_le32 [of body 4] mem32_le32 [of body 8]
    by (simp_all add: fat_header_def header_word_def bytes_at_append)
  note B = bytes_of_le32 [OF w, simplified]
  have m0: "mem8 body 0 = fl" using B(1) fl by (auto simp: mem8_def header_word_bytes)
  have m1: "mem8 body 1 = 0x30" using B(2) fl by (auto simp: mem8_def header_word_bytes)
  have ms: "mem16 body 2 = take_bit 16 maxStack"
    using B(3,4) header_word_stack [of fl maxStack] by (simp add: mem16_def eval_nat_numeral)
  have size: "Fat_GetSize body = 3" using m1 by (simp add: Fat_GetSize_def)
  have flags: "Fat_GetFlags body = fl" using m0 m1 by (simp add: Fat_GetFlags_def)
  have tiny: "\<not> Tiny_IsTiny body" "Fat_IsFat body"
    using fl by (auto simp: Tiny_IsTiny_def Fat_IsFat_def m0)
  have sect: "Fat_GetSect body = (if fl AND 8 = 0 then None else Some (align4 (12 + unat codeSize)))"
    by (simp add: Fat_GetSect_def m0 size cs)
  show ?thesis
    using tiny by (simp add: DecoderInit_def zero_decoder_def size flags cs tk ms sect Let_def)
qed

lemma aligned_size:
  assumes "unat codeSize + 4 \<le> 2 ^ 32 - 1"
  shows "12 + unat (alignedCodeSize codeSize) = align4 (12 + unat codeSize)"
    and "unat codeSize \<le> unat (alignedCodeSize codeSize)"
proof -
  have u: "unat (codeSize + 3) = unat codeSize + 3" using assms by (simp add: unat_add32)
  have "x AND NOT 3 = push_bit 2 (drop_bit 2 x)" for x :: u32
    unfolding word_eq32 by (simp add: all_bits bit_simps) (simp add: eval_nat_numeral)
  then have "alignedCodeSize codeSize = push_bit 2 (drop_bit 2 (codeSize + 3))"
    by (simp only: alignedCodeSize_def)
  then have "unat (alignedCodeSize codeSize) = take_bit 32 (push_bit 2 (unat (codeSize + 3) div 4))"
    by (simp add: unsigned_push_bit_eq unsigned_drop_bit_eq drop_bit_eq_div unat_div)
  also have "\<dots> = (unat codeSize + 3) div 4 * 4"
    unfolding u using assms by (subst take_bit_nat_eq_self) (auto simp: push_bit_eq_mult)
  finally have e: "unat (alignedCodeSize codeSize) = (unat codeSize + 3) div 4 * 4" .
  show "12 + unat (alignedCodeSize codeSize) = align4 (12 + unat codeSize)"
    unfolding e align4_def by presburger
  show "unat codeSize \<le> unat (alignedCodeSize codeSize)"
    unfolding e by presburger
qed

lemma sect_fat_bytes:
  assumes "bytes_at body a (sect_fat 0x41 n)" and "unat n < 2 ^ 24"
  shows "mem8 body a = 0x41" and "GetDataSize body a = n"
proof -
  let ?w = "take_bit 8 (0x41 :: u32) OR push_bit 8 (take_bit 24 n)"
  note B = bytes_of_le32 [OF assms(1) [unfolded sect_fat_def]]
  have "(ucast (ucast ?w :: u8) :: u32) = 0x41"
    unfolding word_eq32 by (simp add: all_bits bit_simps)
  then show "mem8 body a = 0x41" using B(1) by (simp add: mem8_def)
  have small: "take_bit 24 n = n"
    using assms(2) by (simp add: word_unat_eq_iff unsigned_take_bit_eq take_bit_nat_eq_self)
  have "GetDataSize body a = take_bit 24 n"
    unfolding GetDataSize_def mem8_def B(2-4) word_eq32 by (simp add: all_bits bit_simps)
  then show "GetDataSize body a = n" by (simp add: small)
qed

lemma length_clause_bytes [simp]: "length (clause_bytes c) = 24"
  by (simp add: clause_bytes_def)

lemma clause_bytes_read:
  assumes "bytes_at body (sect + 4 + 24 * i) (clause_bytes c)" and "mem8 body sect = 0x41"
  shows "SectEH_EHClause body sect i = c"
proof -
  define a where "a = sect + 4 + 24 * i"
  have "mem8 body sect AND 0x40 \<noteq> 0" unfolding assms(2) by simp
  then show ?thesis
    using assms(1) mem32_le32
    by (simp add: SectEH_EHClause_def clause_bytes_def bytes_at_append Let_def a_def [symmetric] add.assoc)
qed

text \<open>The decoder on the body export makes.\<close>

lemma decode_fat_body:
  assumes buf: "unat codeSize \<le> length (m_pOutputBuffer s)" and small: "unat codeSize + 4 \<le> 2 ^ 32 - 1"
    and flags: "m_flags s = 0 \<or> m_flags s = 2 \<or> m_flags s = 0x10"
    and eh: "length (eh_clauses s) = unat (m_nEH s)" "4 + 24 * unat (m_nEH s) < 2 ^ 24"
    and bd: "body = nth (fat_body mem codeSize s)" and dd: "d = DecoderInit body True"
  shows "dec_CodeSize d = codeSize" and "dec_MaxStack d = take_bit 16 (m_maxStack s)"
    and "dec_LocalVarSigTok d = m_tkLocalVarSig s" and "dec_Flags d AND 0x10 = m_flags s AND 0x10"
    and "dec_Code d = Some 12" and "bytes_at body 12 (take (unat codeSize) (m_pOutputBuffer s))"
    and "dec_EHCount body d = m_nEH s"
    and "map (SectEH_EHClause body (case_option 0 id (dec_EH d))) [0..<unat (m_nEH s)] =
      map (export_clause (heap s)) (eh_clauses s)"
proof -
  let ?fl = "m_flags s OR (if m_nEH s \<noteq> 0 then 8 else 0) OR 3"
  let ?al = "align4 (12 + unat codeSize)"
  note fl = export_flags_cases [OF flags, of "m_nEH s \<noteq> 0"]
  have len: "length (fat_header a b c e) = 12" for a b c e by (simp add: fat_header_def)
  have l4: "length (sect_fat k n) = 4" for k n by (simp add: sect_fat_def)
  have pad: "12 + (unat codeSize + (unat (alignedCodeSize codeSize) - unat codeSize)) = ?al"
    using aligned_size [OF small] by simp
  have at: "bytes_at body 0 (fat_body mem codeSize s)" unfolding bd by (rule bytes_at_nth)
  then have hd: "bytes_at body 0 (fat_header ?fl (m_maxStack s) codeSize (m_tkLocalVarSig s))"
    and cd: "bytes_at body 12 (take (unat codeSize) (m_pOutputBuffer s))"
    using buf by (simp_all add: fat_body_def bytes_at_append len)
  have sc: "bytes_at body ?al (sect_fat 0x41 (4 + 24 * m_nEH s) @
      concat (map (\<lambda>e. clause_bytes (export_clause (heap s) e)) (eh_clauses s)))" if "m_nEH s \<noteq> 0"
  proof -
    have "12 + unat codeSize + (12 + unat (alignedCodeSize codeSize) - (12 + unat codeSize)) = ?al"
      and "12 + unat codeSize + (unat (alignedCodeSize codeSize) - unat codeSize) = ?al"
      and "16 + (unat codeSize + (unat (alignedCodeSize codeSize) - unat codeSize)) = ?al + 4"
      using pad by simp_all
    with at buf that show ?thesis
      by (simp add: fat_body_def bytes_at_append len min_absorb2 l4)
  qed
  have sz: "unat (4 + 24 * m_nEH s) = 4 + 24 * unat (m_nEH s)"
    using eh(2) by (simp add: unat_word_ariths)
  have sect: "mem8 body ?al = 0x41" "GetDataSize body ?al = 4 + 24 * m_nEH s" if "m_nEH s \<noteq> 0"
    using sc [OF that] sect_fat_bytes [of body ?al "4 + 24 * m_nEH s"] eh(2) sz
    by (simp_all add: bytes_at_append)
  have d: "d = \<lparr>dec_Flags = ?fl, dec_MaxStack = take_bit 16 (m_maxStack s), dec_CodeSize = codeSize,
     dec_LocalVarSigTok = m_tkLocalVarSig s, dec_Code = Some 12,
     dec_EH = (if m_nEH s = 0 then None else Some ?al)\<rparr>"
    unfolding dd decode_fat_header [OF hd fl(1)] using fl(3) sect(1) by auto
  show "dec_CodeSize d = codeSize" "dec_MaxStack d = take_bit 16 (m_maxStack s)"
    "dec_LocalVarSigTok d = m_tkLocalVarSig s" "dec_Code d = Some 12" by (simp_all add: d)
  show "dec_Flags d AND 0x10 = m_flags s AND 0x10" using fl(2) by (simp add: d)
  show "bytes_at body 12 (take (unat codeSize) (m_pOutputBuffer s))" by fact
  have "(4 + 24 * m_nEH s) div 24 = m_nEH s"
    using sz by (simp add: word_unat_eq_iff unat_div)
  then show "dec_EHCount body d = m_nEH s"
    using sect by (simp add: dec_EHCount_def d EHCount_def)
  show "map (SectEH_EHClause body (case_option 0 id (dec_EH d))) [0..<unat (m_nEH s)] =
      map (export_clause (heap s)) (eh_clauses s)"
  proof (cases "m_nEH s = 0")
    case True
    then show ?thesis using eh(1) by simp
  next
    case False
    have all: "bytes_at body (?al + 4) (concat (map (\<lambda>e. clause_bytes (export_clause (heap s) e)) (eh_clauses s)))"
      using sc [OF False] by (simp add: bytes_at_append l4)
    have "SectEH_EHClause body ?al i = export_clause (heap s) (eh_clauses s ! i)"
      if "i < length (eh_clauses s)" for i
      using bytes_at_concat_map [OF all _ that, of 24] sect(1) [OF False]
      by (intro clause_bytes_read) simp_all
    then show ?thesis
      using False eh(1) by (intro nth_equalityI) (simp_all add: d)
  qed
qed

end
