(* ===== verification/ILRoundTrip.thy ===== *)
theory ILRoundTrip
  imports ILMethod
begin

text \<open>
  Import and export together: what \<^verbatim>\<open>Import\<close> leaves in the rewriter, that the clauses and
  the code of a body survive \<^verbatim>\<open>Export\<close> after \<^verbatim>\<open>Import\<close>, and the properties of the IL
  rewriter as a whole.
\<close>

section \<open>What the import of the code leaves alone\<close>

definition same_header :: "ILRewriter \<Rightarrow> ILRewriter \<Rightarrow> bool" where
  "same_header s s' \<longleftrightarrow>
     m_tkLocalVarSig s' = m_tkLocalVarSig s \<and> m_flags s' = m_flags s \<and>
     m_fGenerateTinyHeader s' = m_fGenerateTinyHeader s \<and> m_nEH s' = m_nEH s \<and> m_pEH s' = m_pEH s"

lemma same_header_refl [simp]: "same_header s s"
  by (simp add: same_header_def)

lemma same_header_trans: "same_header s s1 \<Longrightarrow> same_header s1 s2 \<Longrightarrow> same_header s s2"
  by (simp add: same_header_def)

lemma same_header_steps [simp]:
  "same_header s (upd p f t) = same_header s t"
  "same_header s (InsertBefore q p t) = same_header s t"
  "same_header s (snd (NewILInstr t)) = same_header s t"
  "same_header s (t \<lparr>m_pOffsetToInstr := table\<rparr>) = same_header s t"
  by (simp_all add: same_header_def upd_def InsertBefore_def AdjustState_def NewILInstr_def Let_def)

lemma NewILInstr_header [dest]: "NewILInstr t = (p, t') \<Longrightarrow> same_header s t \<Longrightarrow> same_header s t'"
  using same_header_steps(3) [of s t] by simp

lemma import_switch_args_header:
  "import_switch_args pIL base n (a, t) = Ok (b, s') \<Longrightarrow> same_header s t \<Longrightarrow> same_header s s'"
proof (induction n arbitrary: a t)
  case (Suc n)
  obtain p t1 where new: "NewILInstr t = (p, t1)" by (cases "NewILInstr t")
  show ?case
    using Suc.prems Suc.IH NewILInstr_header [OF new] by (auto simp: Let_def new split: if_splits)
qed simp

lemma import_operand_header:
  assumes "import_operand pIL flags p fB a t = Ok (b, fB', s')" and "same_header s t"
  shows "same_header s s'"
proof -
  have "same_header s s'" if "import_switch_args pIL base n (a, upd p f t) = Ok (b, s')" for base n a f
    using import_switch_args_header [OF that] assms(2) by simp
  with assms show ?thesis
    by (auto simp: import_operand_def Let_def xbind_Ok_iff split: if_splits)
qed

lemma import_instr_header:
  assumes "import_instr pIL (a, b, t) = Ok (a', b', s')" and "same_header s t"
  shows "same_header s s'"
proof -
  obtain p t1 where new: "NewILInstr t = (p, t1)" by (cases "NewILInstr t")
  show ?thesis
    using assms NewILInstr_header [OF new]
    by (auto simp: import_instr_def Let_def new xbind_Ok_iff split: if_splits elim!: import_operand_header)
qed

lemma import_loop_header:
  "import_loop pIL st = Some r \<Longrightarrow> r = Ok (a, b, s') \<Longrightarrow> same_header s (snd (snd st)) \<Longrightarrow> same_header s s'"
proof (induction rule: import_loop.raw_induct [rotated, consumes 1, case_names 1])
  case (1 loop pIL st r)
  show ?case
  proof (cases "fst st < m_CodeSize (snd (snd st))")
    case True
    with 1 import_instr_header [of pIL "fst st" "fst (snd st)" "snd (snd st)"]
    show ?thesis by (cases "import_instr pIL st") (auto split: if_splits)
  qed (use 1 in auto)
qed

lemma resolve_header:
  "for_instrs rw body p t = Some r \<Longrightarrow> r = Ok s' \<Longrightarrow> rw = (\<lambda>s. s) \<Longrightarrow> body = resolve_target \<Longrightarrow>
    same_header s t \<Longrightarrow> same_header s s'"
proof (induction rule: for_instrs.raw_induct [rotated, consumes 1, case_names 1])
  case (1 loop rw body p t r)
  have "same_header s t1" if "resolve_target t p = Ok t1" for t1
    using that 1 by (auto simp: resolve_target_def xbind_Ok_iff split: if_splits)
  with 1 show ?case by (cases "resolve_target t p") (auto split: if_splits)
qed

lemma ImportIL_header:
  assumes "ImportIL pIL s = Some (Ok s')"
  shows "same_header s s'"
proof -
  have h: "same_header s (import_start s)" by (simp add: import_start_def)
  obtain offset fB s3 where loop: "import_loop pIL (0, False, import_start s) = Some (Ok (offset, fB, s3))"
    and rest: "(if offset \<noteq> m_CodeSize s3 then Some (Fail COR_E_INVALIDPROGRAM)
        else if fB then for_instrs (\<lambda>s. s) resolve_target (first_instr s3) s3
        else Some (Ok s3)) = Some (Ok s')"
    using assms unfolding ImportIL_def import_start_def Let_def
    by (auto simp: obind_exec_def split: option.splits exec.splits)
  have "same_header s s3" using import_loop_header [OF loop refl] h by simp
  then show ?thesis using rest resolve_header [OF _ refl refl refl] by (auto split: if_splits)
qed

section \<open>Clauses\<close>

lemma ring_next_prev:
  assumes "ring s ps" and "t \<in> set (il_head # ps)"
  shows "m_pNext (heap s (m_pPrev (heap s t))) = t"
proof (cases "t = il_head")
  case True
  then show ?thesis using ring_links [of s ps "[]"] assms(1) by simp
next
  case False
  then obtain xs ys where "ps = xs @ t # ys" using assms(2) by (auto dest: split_list)
  then show ?thesis using ring_links [of s xs "t # ys"] assms(1) by simp
qed

lemma GetInstr_hit:
  assumes t: "table_ok s ps" and r: "ring s ps" and len: "code_len (heap s) ps = unat (m_CodeSize s)"
    and get: "GetInstrFromOffset a s = Ok p"
  shows "position (heap s) ps p = unat a" and "p \<in> set (il_head # ps)"
proof -
  have le: "unat a \<le> unat (m_CodeSize s)" and p: "p = m_pOffsetToInstr s ! unat a" "p \<noteq> NULL"
    using get by (auto simp: GetInstrFromOffset_def Let_def word_le_nat_alt split: if_splits)
  have head: "position (heap s) ps il_head = unat (m_CodeSize s)"
    using r len position_notin [of il_head ps "heap s"] by (simp add: ring_def)
  have "position (heap s) ps p = unat a \<and> p \<in> set (il_head # ps)"
  proof (cases "unat a = unat (m_CodeSize s)")
    case True
    then show ?thesis using t head p by (simp add: table_ok_def)
  next
    case False
    then have "unat a < unat (m_CodeSize s)" using le by simp
    with t p show ?thesis unfolding table_ok_def by auto
  qed
  then show "position (heap s) ps p = unat a" "p \<in> set (il_head # ps)" by simp_all
qed

lemma import_clause_export:
  assumes t: "table_ok s ps" and r: "ring s ps" and len: "code_len (heap s) ps = unat (m_CodeSize s)"
    and imp: "import_clause s c = Ok e"
    and links: "\<And>q. m_pNext (h q) = m_pNext (heap s q)"
    and offs: "\<And>q. q \<in> set (il_head # ps) \<Longrightarrow> m_offset (h q) = of_nat (position (heap s) ps q)"
  shows "export_clause h e = c"
proof -
  have hit: "m_offset (h p) = a" "m_pNext (h (m_pPrev (heap s p))) = p" if "GetInstrFromOffset a s = Ok p" for a p
    using GetInstr_hit [OF t r len that] offs ring_next_prev [OF r] links by simp_all
  show ?thesis
  proof (cases "Flags c AND 1 = 0")
    case True
    have "(ucast (ucast w :: u64) :: u32) = w" for w :: u32 by (rule bit_word_eqI) (auto simp: bit_simps)
    with True imp hit show ?thesis
      by (cases c) (auto simp: import_clause_def export_clause_def xbind_Ok_iff Let_def)
  next
    case False
    with imp hit show ?thesis
      by (cases c) (auto simp: import_clause_def export_clause_def xbind_Ok_iff Let_def)
  qed
qed

lemma import_clauses_Ok: "import_clauses s cs = Ok es \<longleftrightarrow> list_all2 (\<lambda>c e. import_clause s c = Ok e) cs es"
  by (induction cs arbitrary: es) (auto simp: xbind_Ok_iff list_all2_Cons1)

lemma GetInstrFromOffset_header [simp]:
  "GetInstrFromOffset a (s \<lparr>m_nEH := n\<rparr>) = GetInstrFromOffset a s"
  "GetInstrFromOffset a (s \<lparr>m_nEH := n, m_pEH := e\<rparr>) = GetInstrFromOffset a s"
  by (simp_all add: GetInstrFromOffset_def)

lemma import_clause_header [simp]:
  "import_clause (s \<lparr>m_nEH := n\<rparr>) c = import_clause s c"
  "import_clause (s \<lparr>m_nEH := n, m_pEH := e\<rparr>) c = import_clause s c"
  by (simp_all add: import_clause_def cong: if_cong)

lemma ImportEH_Ok:
  assumes "ImportEH f n s = Ok s'"
  shows "m_nEH s' = n" and "length (eh_clauses s') = unat n"
    and "list_all2 (\<lambda>c e. import_clause s' c = Ok e) (map f [0..<unat n]) (eh_clauses s')"
    and "\<exists>x. s' = s \<lparr>m_nEH := n, m_pEH := x\<rparr>"
proof -
  have n: "m_pEH s = None" using assms by (auto simp: ImportEH_def split: if_splits)
  have "m_nEH s' = n \<and> length (eh_clauses s') = unat n \<and>
    list_all2 (\<lambda>c e. import_clause s' c = Ok e) (map f [0..<unat n]) (eh_clauses s') \<and>
    (\<exists>x. s' = s \<lparr>m_nEH := n, m_pEH := x\<rparr>)"
  proof (cases "n = 0")
    case True
    then have "s' = s \<lparr>m_nEH := 0, m_pEH := None\<rparr>" using assms n by (auto simp: ImportEH_def)
    with True show ?thesis by (auto simp: eh_clauses_def)
  next
    case False
    then obtain es where es: "list_all2 (\<lambda>c e. import_clause s c = Ok e) (map f [0..<unat n]) es"
      and s': "s' = s \<lparr>m_nEH := n, m_pEH := Some es\<rparr>"
      using assms n by (auto simp: ImportEH_def Let_def xbind_Ok_iff import_clauses_Ok)
    have "length es = unat n" using list_all2_lengthD [OF es] by simp
    then show ?thesis using es by (auto simp: s' eh_clauses_def)
  qed
  then show "m_nEH s' = n" "length (eh_clauses s') = unat n"
    "list_all2 (\<lambda>c e. import_clause s' c = Ok e) (map f [0..<unat n]) (eh_clauses s')"
    "\<exists>x. s' = s \<lparr>m_nEH := n, m_pEH := x\<rparr>" by blast+
qed

section \<open>What import leaves in the rewriter\<close>

text \<open>The code of a decoded body.\<close>

definition code_of :: "(nat \<Rightarrow> u8) \<Rightarrow> decoder \<Rightarrow> bytes" where
  "code_of body d = map (\<lambda>i. body (case_option 0 id (dec_Code d) + i)) [0..<unat (dec_CodeSize d)]"

definition clauses_of :: "(nat \<Rightarrow> u8) \<Rightarrow> decoder \<Rightarrow> clause_fat list" where
  "clauses_of body d =
     map (SectEH_EHClause body (case_option 0 id (dec_EH d))) [0..<unat (dec_EHCount body d)]"

text \<open>\<open>holds s ps body d\<close>: the rewriter has read the whole of the body.\<close>

definition holds :: "ILRewriter \<Rightarrow> ptr list \<Rightarrow> (nat \<Rightarrow> u8) \<Rightarrow> decoder \<Rightarrow> bool" where
  "holds s ps body d \<longleftrightarrow>
     spells s ps (code_of body d) \<and> table_ok s ps \<and>
     m_CodeSize s = dec_CodeSize d \<and> m_nInstrs s = of_nat (length ps) \<and>
     m_maxStack s = dec_MaxStack d + sum_list (map (\<lambda>p. stack_pushes (m_opcode (heap s p))) ps) \<and>
     m_tkLocalVarSig s = dec_LocalVarSigTok d \<and> m_flags s = dec_Flags d AND 0x10 \<and>
     \<not> m_fGenerateTinyHeader s \<and> m_nEH s = dec_EHCount body d \<and> length (eh_clauses s) = unat (m_nEH s) \<and>
     list_all2 (\<lambda>c e. import_clause s c = Ok e) (clauses_of body d) (eh_clauses s)"

lemma Import_holds:
  assumes get: "GetILFunctionBody ci = Inr (body, aligned)" and d: "d = DecoderInit body aligned"
    and big: "unat (dec_CodeSize d) + 8 < 2 ^ 32"
    and imp: "Import ci (new_ILRewriter mem) = Some (Ok s)"
  shows "\<exists>ps. holds s ps body d"
proof -
  define s1 where "s1 = (new_ILRewriter mem) \<lparr>m_tkLocalVarSig := dec_LocalVarSigTok d, m_maxStack := dec_MaxStack d,
    m_flags := dec_Flags d AND 0x10, m_CodeSize := dec_CodeSize d\<rparr>"
  let ?pIL = "\<lambda>i. body (case_option 0 id (dec_Code d) + i)"
  have r1: "ring s1 []"
    using ring_new [of mem] ring_frame [of s1 "new_ILRewriter mem" "[]"] by (simp add: s1_def)
  obtain s2 where il: "ImportIL ?pIL s1 = Some (Ok s2)"
    and eh: "ImportEH (SectEH_EHClause body (case_option 0 id (dec_EH d))) (dec_EHCount body d) s2 = Ok s"
    using imp get by (auto simp: Import_def Let_def obind_exec_def d [symmetric] s1_def [symmetric]
        split: option.splits exec.splits)
  have cs: "m_CodeSize s1 = dec_CodeSize d" by (simp add: s1_def)
  obtain ps where ps: "spells s2 ps (map ?pIL [0..<unat (dec_CodeSize d)])" "table_ok s2 ps" "totals s1 s2 ps"
    using ImportIL_spells [OF r1, of ?pIL] big il cs by auto
  note H = ImportIL_header [OF il, unfolded same_header_def]
  note E = ImportEH_Ok [OF eh]
  obtain x where s: "s = s2 \<lparr>m_nEH := dec_EHCount body d, m_pEH := x\<rparr>" using E(4) by blast
  have "holds s ps body d"
    unfolding holds_def clauses_of_def code_of_def
  proof (intro conjI)
    show "spells s ps (map ?pIL [0..<unat (dec_CodeSize d)])"
      using ps(1) by (simp add: s spells_def ring_def)
    show "table_ok s ps" using ps(2) by (simp add: s table_ok_def)
    show "length (eh_clauses s) = unat (m_nEH s)" using E by simp
    show "list_all2 (\<lambda>c e. import_clause s c = Ok e)
      (map (SectEH_EHClause body (case_option 0 id (dec_EH d))) [0..<unat (dec_EHCount body d)]) (eh_clauses s)"
      by (rule E(3))
  qed (use ps(3) H E(1) in \<open>simp_all add: totals_def s s1_def new_ILRewriter_def\<close>)
  then show ?thesis by blast
qed

section \<open>What export does to a list\<close>

text \<open>
  The list can be exported: its code fits into the buffer of ten bytes an instruction, and the
  sizes with the clauses stay below the width of \<^verbatim>\<open>unsigned\<close>.
\<close>

definition exportable :: "ILRewriter \<Rightarrow> ptr list \<Rightarrow> bool" where
  "exportable s ps \<longleftrightarrow>
     ring s ps \<and> (\<forall>p\<in>set ps. known_opcode (m_opcode (heap s p))) \<and>
     length ps \<le> unat (m_nInstrs s) \<and> 10 * unat (m_nInstrs s) + 2 ^ 25 < 2 ^ 32"

abbreviation max_code :: "ILRewriter \<Rightarrow> u32" where
  "max_code s \<equiv> m_nInstrs s * 10"

abbreviation with_buffer :: "(nat \<Rightarrow> u8) \<Rightarrow> ILRewriter \<Rightarrow> ILRewriter" where
  "with_buffer mem s \<equiv> s \<lparr>m_pOutputBuffer := map mem [0..<unat (max_code s)]\<rparr>"

lemma exportable_ready:
  assumes "exportable s ps"
  shows "ready (max_code s) (with_buffer mem s) ps" and "unat (max_code s) = 10 * unat (m_nInstrs s)"
proof -
  have small: "10 * unat (m_nInstrs s) < 4294967296" using assms by (simp add: exportable_def)
  show u: "unat (max_code s) = 10 * unat (m_nInstrs s)"
    using small by (simp add: unat_word_ariths)
  have "ring (with_buffer mem s) ps" using assms by (simp add: exportable_def ring_def)
  then show "ready (max_code s) (with_buffer mem s) ps"
    using assms u by (simp add: exportable_def ready_def)
qed

text \<open>The size of the code and the state with it, as the header is written.\<close>

definition finish :: "clr \<Rightarrow> (nat \<Rightarrow> u8) \<Rightarrow> u32 \<Rightarrow> ILRewriter \<Rightarrow> (ILRewriter \<times> u32 \<times> bytes) exec" where
  "finish ci mem codeSize s =
     (if m_fGenerateTinyHeader s then
        (if 64 \<le> codeSize then Fail E_FAIL else submit ci (1 + codeSize) (tiny_body codeSize s) s)
      else submit ci (fat_totalSize (m_nEH s) codeSize) (fat_body mem codeSize s) s)"

lemma Export_loop:
  assumes "export_loop (max_code s) (with_buffer mem s) = Some (Ok (codeSize, s'))"
  shows "Export ci mem s = Some (finish ci mem codeSize s')"
  using assms by (simp add: Export_def finish_def Let_def)

lemma Export_exported:
  assumes "exportable s ps"
  shows "\<exists>s'. Export ci mem s = Some (finish ci mem (of_nat (code_len (heap s') ps)) s') \<and>
    exported (max_code s) s' ps \<and> relaxed (heap s) (heap s') \<and>
    s' = s \<lparr>heap := heap s', m_pOutputBuffer := m_pOutputBuffer s'\<rparr>"
proof -
  obtain s' where s': "export_loop (max_code s) (with_buffer mem s) = Some (Ok (of_nat (code_len (heap s') ps), s'))"
    "exported (max_code s) s' ps" "relaxed (heap (with_buffer mem s)) (heap s')"
    "s' = with_buffer mem s \<lparr>heap := heap s', m_pOutputBuffer := m_pOutputBuffer s'\<rparr>"
    using export_loop_ready [OF exportable_ready(1) [OF assms]] by blast
  have "s' = s \<lparr>heap := heap s', m_pOutputBuffer := m_pOutputBuffer s'\<rparr>"
    by (subst s'(4)) simp
  moreover have "relaxed (heap s) (heap s')" using s'(3) by simp
  ultimately show ?thesis using Export_loop [OF s'(1)] s'(2) by blast
qed

lemma submit_cases:
  "submit ci n b s = Ok (s, n, b) \<or> (\<exists>hr. submit ci n b s = Fail hr)"
  by (simp add: submit_def Let_def)

lemma submit_Ok [dest]: "submit ci n b s = Ok (s', n', b') \<Longrightarrow> s' = s \<and> n' = n \<and> b' = b"
  by (auto simp: submit_def Let_def split: if_splits)

lemma exported_size:
  assumes x: "exportable s ps" and e: "exported (max_code s) s' ps"
  shows "unat (of_nat (code_len (heap s') ps) :: u32) = code_len (heap s') ps"
    and "code_len (heap s') ps \<le> length (m_pOutputBuffer s')" and "code_len (heap s') ps + 2 ^ 25 < 2 ^ 32"
proof -
  have "code_len (heap s') ps \<le> 10 * length ps" "length (m_pOutputBuffer s') = unat (max_code s)"
    using e code_len_bound [of ps "heap s'"] by (simp_all add: exported_def ready_def)
  moreover have "10 * length ps \<le> 10 * unat (m_nInstrs s)" "10 * unat (m_nInstrs s) + 2 ^ 25 < 4294967296"
    using x by (simp_all add: exportable_def)
  ultimately have le: "code_len (heap s') ps \<le> length (m_pOutputBuffer s')" "code_len (heap s') ps + 2 ^ 25 < 4294967296"
    using exportable_ready(2) [OF x] by linarith+
  show "code_len (heap s') ps \<le> length (m_pOutputBuffer s')" by (rule le)
  show "code_len (heap s') ps + 2 ^ 25 < 2 ^ 32" using le(2) by simp
  show "unat (of_nat (code_len (heap s') ps) :: u32) = code_len (heap s') ps"
    using le(2) by (simp add: unat_of_nat_small)
qed

text \<open>An imported list needs no longer branches: export writes the code it was read from.\<close>

lemma laid_no_long: "laid h k ps \<Longrightarrow> fits h (offset_target h) k ps \<Longrightarrow> \<forall>p\<in>set ps. \<not> needs_long h p"
  by (induction ps arbitrary: k) (auto simp: Let_def needs_long_def branch_delta_def offset_target_def)

lemma spells_laid:
  assumes sp: "spells s ps code"
  shows "\<not> (\<exists>p\<in>set ps. needs_long (laid_heap s ps) p)"
    and "concat (encode (laid_heap s ps) (offset_target (laid_heap s ps)) 0 0 ps) = code"
    and "\<And>q. q \<in> set (il_head # ps) \<Longrightarrow> m_offset (laid_heap s ps q) = of_nat (position (heap s) ps q)"
proof -
  note S = sp [unfolded spells_def]
  have d: "distinct (il_head # ps)" using S by (simp add: ring_def)
  have l: "laid (laid_heap s ps) 0 ps"
    using S laid_place [OF ring_follows _, of s ps] d by (simp add: laid_heap_def)
  have ag: "agree (heap s) (laid_heap s ps) (set ps)" by (simp add: agree_def)
  have pos: "position (laid_heap s ps) ps q = position (heap s) ps q" for q
    by (rule position_agree [OF ag])
  have pt: "points_into (laid_heap s ps) ps" using S by (simp add: points_into_def)
  have re: "retargets (heap s) (laid_heap s ps) (set ps)" by (simp add: retargets_def)
  have tgt: "offset_target (laid_heap s ps) q = list_target (heap s) ps q"
    if "q \<in> set ps" "has_target (m_opcode (heap s q))" for q
    using offset_list_target [OF l d pt that(1)] that(2) by (simp add: list_target_def pos)
  note E = encode_retarget [OF re _ tgt]
  have "fits (laid_heap s ps) (offset_target (laid_heap s ps)) 0 ps" using E(2) S by simp
  then show "\<not> (\<exists>p\<in>set ps. needs_long (laid_heap s ps) p)" using laid_no_long [OF l] by blast
  show "concat (encode (laid_heap s ps) (offset_target (laid_heap s ps)) 0 0 ps) = code" using E(1) S by simp
  show "m_offset (laid_heap s ps q) = of_nat (position (heap s) ps q)" if "q \<in> set (il_head # ps)" for q
    using laid_offsets [OF l d that] by (simp add: pos)
qed

lemma Export_spelled:
  assumes x: "exportable s ps" and sp: "spells s ps code"
  shows "\<exists>buf rest. buf = code @ rest \<and>
    Export ci mem s = Some (finish ci mem (of_nat (length code))
      (s \<lparr>heap := laid_heap s ps, m_pOutputBuffer := buf\<rparr>))"
proof -
  have l: "laid_heap (with_buffer mem s) ps = laid_heap s ps" by (simp add: laid_heap_def)
  have n: "\<not> (\<exists>p\<in>set ps. needs_long (laid_heap (with_buffer mem s) ps) p)"
    using spells_laid(1) [OF sp] l by simp
  obtain buf rest where loop: "export_loop (max_code s) (with_buffer mem s) =
      Some (Ok (of_nat (code_len (heap s) ps), s \<lparr>heap := laid_heap s ps, m_pOutputBuffer := buf\<rparr>))"
    and buf: "buf = code @ rest"
    using export_loop_fits [OF exportable_ready(1) [OF x] n] spells_laid(2) [OF sp] by (auto simp: l)
  have "code_len (heap s) ps = length code" using sp by (simp add: spells_def)
  then show ?thesis using Export_loop [OF loop] buf by auto
qed

section \<open>Reading the exported body\<close>

lemma code_of_bytes_at:
  "bytes_at body a bs \<Longrightarrow> dec_Code d = Some a \<Longrightarrow> unat (dec_CodeSize d) = length bs \<Longrightarrow> code_of body d = bs"
proof -
  have "map (\<lambda>i. body (a + i)) [0..<n] = map body [a..<a + n]" for n
    by (rule nth_equalityI) simp_all
  then show "bytes_at body a bs \<Longrightarrow> dec_Code d = Some a \<Longrightarrow> unat (dec_CodeSize d) = length bs \<Longrightarrow>
    code_of body d = bs"
    by (simp add: bytes_at_def code_of_def)
qed

text \<open>A body has at most 699050 clauses: their number is read from 24 bits.\<close>

lemma EHCount_small: "4 + 24 * unat (dec_EHCount body d) < 2 ^ 24"
proof -
  have "unat (GetDataSize body a) < 2 ^ 24" for a
  proof -
    have "take_bit 24 (GetDataSize body a) = GetDataSize body a"
      unfolding word_eq32 GetDataSize_def mem8_def by (simp add: all_bits bit_simps)
    then have "unat (GetDataSize body a) = take_bit 24 (unat (GetDataSize body a))"
      by (metis unsigned_take_bit_eq)
    then show ?thesis by (metis take_bit_nat_less_exp)
  qed
  moreover have "unat (mem8 body a) < 256" for a
    using unat_u8_bound [of "body a"] by (simp add: mem8_def unat_ucast_u8)
  moreover have "(x::nat) < 2 ^ 24 \<Longrightarrow> x div 24 \<le> 699050" "(x::nat) < 256 \<Longrightarrow> x div 12 \<le> 699050" for x
    by simp_all
  ultimately have "unat (EHCount body a) \<le> 699050" for a
    by (simp add: EHCount_def unat_div)
  then have "unat (dec_EHCount body d) \<le> 699050" by (simp add: dec_EHCount_def split: option.splits)
  then show ?thesis by simp
qed

text \<open>A rewriter whose body export can write and the decoder read back.\<close>

definition readable :: "ILRewriter \<Rightarrow> bool" where
  "readable s \<longleftrightarrow>
     (m_flags s = 0 \<or> m_flags s = 2 \<or> m_flags s = 0x10) \<and>
     length (eh_clauses s) = unat (m_nEH s) \<and> 4 + 24 * unat (m_nEH s) < 2 ^ 24"

lemma eh_clauses_frame [simp]:
  "eh_clauses (s \<lparr>heap := h, m_pOutputBuffer := b\<rparr>) = eh_clauses s"
  by (cases "m_pEH s") (simp_all add: eh_clauses_def)

lemma decode_fat:
  assumes r: "readable s" and buf: "unat codeSize \<le> length (m_pOutputBuffer s)"
    and small: "unat codeSize + 2 ^ 25 < 2 ^ 32"
    and bd: "body = nth (fat_body mem codeSize s)" and dd: "d = DecoderInit body True"
  shows "code_of body d = take (unat codeSize) (m_pOutputBuffer s)"
    and "clauses_of body d = map (export_clause (heap s)) (eh_clauses s)"
    and "dec_MaxStack d = take_bit 16 (m_maxStack s)" and "dec_LocalVarSigTok d = m_tkLocalVarSig s"
    and "dec_Flags d AND 0x10 = m_flags s AND 0x10"
    and "unat (fat_totalSize (m_nEH s) codeSize) = length (fat_body mem codeSize s)"
proof -
  have small': "unat codeSize + 4 \<le> 2 ^ 32 - 1" using small by simp
  have R: "m_flags s = 0 \<or> m_flags s = 2 \<or> m_flags s = 0x10" "length (eh_clauses s) = unat (m_nEH s)"
    "4 + 24 * unat (m_nEH s) < 2 ^ 24" using r by (simp_all add: readable_def)
  note D = decode_fat_body [OF buf small' R bd dd]
  show "dec_MaxStack d = take_bit 16 (m_maxStack s)" "dec_LocalVarSigTok d = m_tkLocalVarSig s"
    "dec_Flags d AND 0x10 = m_flags s AND 0x10"
    by (fact D)+
  show "code_of body d = take (unat codeSize) (m_pOutputBuffer s)"
    by (rule code_of_bytes_at [OF D(6,5)]) (simp add: D(1) buf)
  show "clauses_of body d = map (export_clause (heap s)) (eh_clauses s)"
    using D(7,8) by (simp add: clauses_of_def)
  have a: "unat codeSize \<le> unat (alignedCodeSize codeSize)" "unat (alignedCodeSize codeSize) \<le> unat codeSize + 3"
    using aligned_size [OF small'] by (simp_all add: align4_def)
  have len: "length (fat_header a b c e) = 12" "length (sect_fat k n) = 4" for a b c e k n
    by (simp_all add: fat_header_def sect_fat_def)
  have cl: "length (concat (map (\<lambda>e. clause_bytes (export_clause (heap s) e)) es)) = 24 * length es" for es
    by (induction es) auto
  have "length (fat_body mem codeSize s) = 12 + unat (alignedCodeSize codeSize) +
      (if m_nEH s \<noteq> 0 then 4 + 24 * unat (m_nEH s) else 0)"
    using a buf r by (simp add: fat_body_def len cl readable_def)
  moreover have "unat (fat_totalSize (m_nEH s) codeSize) = \<dots>"
    using a small r by (simp add: fat_totalSize_def readable_def unat_word_ariths)
  ultimately show "unat (fat_totalSize (m_nEH s) codeSize) = length (fat_body mem codeSize s)" by simp
qed

lemma decode_tiny:
  assumes c: "codeSize < 64" and buf: "unat codeSize \<le> length (m_pOutputBuffer s)"
    and bd: "body = nth (tiny_body codeSize s)" and dd: "d = DecoderInit body aligned"
  shows "d = zero_decoder \<lparr>dec_MaxStack := 8, dec_Code := Some 1, dec_CodeSize := codeSize, dec_Flags := 2\<rparr>"
    and "code_of body d = take (unat codeSize) (m_pOutputBuffer s)" and "clauses_of body d = []"
    and "unat (1 + codeSize) = length (tiny_body codeSize s)"
proof -
  have b0: "mem8 body 0 = 2 OR push_bit 2 (take_bit 6 codeSize)"
    unfolding word_eq32 by (simp add: bd mem8_def tiny_body_def all_bits bit_simps)
  have cs: "take_bit 6 codeSize = codeSize"
    using c by (simp add: word_unat_eq_iff unsigned_take_bit_eq take_bit_nat_eq_self word_less_nat_alt)
  have "drop_bit 2 (2 OR push_bit 2 (take_bit 6 codeSize)) = take_bit 6 codeSize"
    and "(2 OR push_bit 2 (take_bit 6 codeSize)) AND 3 = 2"
    unfolding word_eq32 by (simp_all add: all_bits bit_simps)
  then have "Tiny_IsTiny body" "Tiny_GetCodeSize body = codeSize"
    using b0 cs by (simp_all add: Tiny_IsTiny_def Tiny_GetCodeSize_def)
  then show d: "d = zero_decoder \<lparr>dec_MaxStack := 8, dec_Code := Some 1, dec_CodeSize := codeSize, dec_Flags := 2\<rparr>"
    by (simp add: dd DecoderInit_def)
  have "bytes_at body 1 (take (unat codeSize) (m_pOutputBuffer s))"
    using bytes_at_nth [of "tiny_body codeSize s"] by (simp add: bd tiny_body_def bytes_at_Cons)
  then show "code_of body d = take (unat codeSize) (m_pOutputBuffer s)"
    by (rule code_of_bytes_at) (use buf in \<open>simp_all add: d\<close>)
  show "clauses_of body d = []" by (simp add: clauses_of_def dec_EHCount_def d zero_decoder_def)
  show "unat (1 + codeSize) = length (tiny_body codeSize s)"
    using c buf by (simp add: tiny_body_def unat_word_ariths word_less_nat_alt)
qed

lemma spells_length: 
  assumes "spells s ps code"
  shows "length ps \<le> length code"
proof -
  have "length qs \<le> code_len (heap s) qs" if "set qs \<subseteq> set ps" for qs
    using that
  proof (induction qs)
    case (Cons q qs)
    then have "known_opcode (m_opcode (heap s q))" using assms by (auto simp: spells_def)
    then have "1 \<le> instr_size (m_opcode (heap s q))"
      using instr_size_pos [of "m_opcode (heap s q)"] by linarith
    with Cons show ?case by simp
  qed simp
  then show ?thesis using assms by (fastforce simp: spells_def)
qed

lemma holds_exportable:
  assumes h: "holds s ps body d" and small: "10 * unat (dec_CodeSize d) + 2 ^ 25 < 2 ^ 32"
  shows "exportable s ps" and "readable s" and "length (code_of body d) = unat (dec_CodeSize d)"
proof -
  show l: "length (code_of body d) = unat (dec_CodeSize d)" by (simp add: code_of_def)
  have sp: "spells s ps (code_of body d)" using h by (simp add: holds_def)
  have le: "length ps \<le> unat (dec_CodeSize d)" using spells_length [OF sp] l by simp
  have n: "unat (m_nInstrs s) = length ps"
    using h le small by (simp add: holds_def unat_of_nat_small)
  show "exportable s ps"
    using sp n le small by (simp add: exportable_def spells_def)
  have "x AND 0x10 = 0 \<or> x AND 0x10 = 0x10" for x :: u32
  proof (cases "bit x 4")
    case True
    then have "x AND 0x10 = 0x10" unfolding word_eq32 by (simp add: all_bits bit_simps)
    then show ?thesis ..
  next
    case False
    then have "x AND 0x10 = 0" unfolding word_eq32 by (simp add: all_bits bit_simps)
    then show ?thesis ..
  qed
  then show "readable s"
    using h EHCount_small [of body d] by (auto simp: readable_def holds_def)
qed

section \<open>Properties of import and export\<close>

lemma Import_ends:
  assumes "GetILFunctionBody ci = Inr (body, aligned)"
    and "unat (dec_CodeSize (DecoderInit body aligned)) + 8 < 2 ^ 32"
  shows "\<exists>r. Import ci (new_ILRewriter mem) = Some r \<and> ok_or_invalid r"
proof -
  let ?d = "DecoderInit body aligned"
  let ?s1 = "(new_ILRewriter mem) \<lparr>m_tkLocalVarSig := dec_LocalVarSigTok ?d, m_maxStack := dec_MaxStack ?d,
    m_flags := dec_Flags ?d AND 0x10, m_CodeSize := dec_CodeSize ?d\<rparr>"
  let ?pIL = "\<lambda>i. body (case_option 0 id (dec_Code ?d) + i)"
  have "ring ?s1 []" using ring_new [of mem] ring_frame [of ?s1 "new_ILRewriter mem" "[]"] by simp
  then obtain r1 where il: "ImportIL ?pIL ?s1 = Some r1" "ok_or_invalid r1"
    using ImportIL_spells [of ?s1 ?pIL] assms(2) by auto
  have hit: "ok_or_invalid (GetInstrFromOffset a s)" for a s
    by (simp add: GetInstrFromOffset_def Let_def)
  have clause: "ok_or_invalid (import_clause s c)" for s c
    unfolding import_clause_def Let_def by (intro ok_or_invalid_bind hit) (simp add: hit ok_or_invalid_bind)
  have clauses: "ok_or_invalid (import_clauses s cs)" for s cs
    by (induction cs) (auto intro!: ok_or_invalid_bind clause)
  have eh: "ok_or_invalid (ImportEH f n s2)" if "r1 = Ok s2" for f n s2
  proof -
    have "m_pEH s2 = None"
      using ImportIL_header [of ?pIL ?s1 s2] il that by (simp add: same_header_def new_ILRewriter_def)
    then show ?thesis by (auto simp: ImportEH_def Let_def intro!: ok_or_invalid_bind clauses)
  qed
  show ?thesis using il eh assms(1) by (cases r1) (auto simp: Import_def Let_def)
qed

text \<open>
  C6: Import ends on every method body; its only error is \<^verbatim>\<open>COR_E_INVALIDPROGRAM\<close>, and when
  it succeeds the rewriter holds the whole body: the list of instructions spells the code byte
  for byte with every branch pointing at its instruction, and the clauses, the locals token,
  the flags and the counts are those of the body.
\<close>

theorem Import_reads:
  assumes "GetILFunctionBody ci = Inr (body, aligned)"
    and "unat (dec_CodeSize (DecoderInit body aligned)) + 8 < 2 ^ 32"
  shows "\<exists>r. Import ci (new_ILRewriter mem) = Some r \<and> ok_or_invalid r \<and>
    (\<forall>s. r = Ok s \<longrightarrow> (\<exists>ps. holds s ps body (DecoderInit body aligned)))"
  using Import_ends [OF assms] Import_holds [OF assms(1) refl assms(2)] by blast

text \<open>
  C5: Export after Import is the identity on method bodies: the body handed to the CLR decodes
  to the same code, the same exception clauses, the same locals token and the same
  \<^verbatim>\<open>InitLocals\<close> flag as the body that was read, and its size is the size handed over.
\<close>

theorem Import_Export_identity:
  assumes "GetILFunctionBody ci = Inr (body, aligned)" and "d = DecoderInit body aligned"
    and "10 * unat (dec_CodeSize d) + 2 ^ 25 < 2 ^ 32"
    and "Import ci (new_ILRewriter mem) = Some (Ok s)"
  shows "\<exists>s' size out. Export ci' mem' s = Some (submit ci' size out s') \<and> unat size = length out \<and>
    (let d' = DecoderInit (nth out) True in
      code_of (nth out) d' = code_of body d \<and> clauses_of (nth out) d' = clauses_of body d \<and>
      dec_LocalVarSigTok d' = dec_LocalVarSigTok d \<and> dec_Flags d' AND 0x10 = dec_Flags d AND 0x10)"
proof -
  have big: "unat (dec_CodeSize d) + 8 < 2 ^ 32" using assms(3) by simp
  obtain ps where h: "holds s ps body d" using Import_holds [OF assms(1,2) big assms(4)] by blast
  note H = h [unfolded holds_def]
  note X = holds_exportable [OF h assms(3)]
  have sp: "spells s ps (code_of body d)" using H by blast
  obtain buf rest where buf: "buf = code_of body d @ rest"
    and ex: "Export ci' mem' s = Some (finish ci' mem' (of_nat (length (code_of body d)))
      (s \<lparr>heap := laid_heap s ps, m_pOutputBuffer := buf\<rparr>))"
    using Export_spelled [OF X(1) sp] by blast
  let ?s = "s \<lparr>heap := laid_heap s ps, m_pOutputBuffer := buf\<rparr>"
  let ?out = "fat_body mem' (dec_CodeSize d) ?s"
  have cs: "of_nat (length (code_of body d)) = dec_CodeSize d" by (simp add: X(3))
  have r: "readable ?s" using X(2) by (simp add: readable_def)
  note D = decode_fat [OF r _ _ refl refl, of "dec_CodeSize d" mem']
  have len: "unat (dec_CodeSize d) \<le> length (m_pOutputBuffer ?s)" "unat (dec_CodeSize d) + 2 ^ 25 < 2 ^ 32"
    using X(3) assms(3) by (simp_all add: buf)
  have "export_clause (laid_heap s ps) e = c" if "import_clause s c = Ok e" for c e
    by (rule import_clause_export [OF _ _ _ that])
      (use H sp spells_laid(3) [OF sp] X(3) in \<open>auto simp: spells_def\<close>)
  then have "map (export_clause (laid_heap s ps)) (eh_clauses s) = clauses_of body d"
    using H by (auto simp: list_all2_conv_all_nth intro!: nth_equalityI)
  then have cl: "map (export_clause (heap ?s)) (eh_clauses ?s) = clauses_of body d"
    by simp
  have "Export ci' mem' s = Some (submit ci' (fat_totalSize (m_nEH ?s) (dec_CodeSize d)) ?out ?s)"
    unfolding ex cs using H by (simp add: finish_def)
  moreover have "unat (fat_totalSize (m_nEH ?s) (dec_CodeSize d)) = length ?out" using D(6) len by simp
  moreover have "code_of (nth ?out) (DecoderInit (nth ?out) True) = code_of body d"
    using D(1) len by (simp add: buf X(3) [symmetric])
  moreover have "dec_LocalVarSigTok (DecoderInit (nth ?out) True) = dec_LocalVarSigTok d"
    "dec_Flags (DecoderInit (nth ?out) True) AND 0x10 = dec_Flags d AND 0x10"
    using D(4,5) len H by (simp_all add: and.assoc)
  ultimately show ?thesis
    using D(2) len cl by (intro exI [of _ ?s] exI [of _ ?out] exI) (auto simp: Let_def)
qed


text \<open>
  C11: Whatever list of instructions is exported, the body handed over decodes to the code that
  the list spells, with every branch reaching the instruction it points at. Export changes
  nothing of the instructions but their offsets and short branches into their long forms.
\<close>

theorem Export_spells:
  assumes "exportable s ps" and "readable s" and "points_into (heap s) ps"
    and "Export ci mem s = Some (Ok (s', totalSize, out))"
  shows "unat totalSize = length out \<and> spells s' ps (code_of (nth out) (DecoderInit (nth out) True)) \<and>
    relaxed (heap s) (heap s')"
proof -
  obtain t where t: "Export ci mem s = Some (finish ci mem (of_nat (code_len (heap t) ps)) t)"
    and e: "exported (max_code s) t ps" and rel: "relaxed (heap s) (heap t)"
    and fr: "t = s \<lparr>heap := heap t, m_pOutputBuffer := m_pOutputBuffer t\<rparr>"
    using Export_exported [OF assms(1)] by blast
  let ?n = "of_nat (code_len (heap t) ps) :: u32"
  note Z = exported_size [OF assms(1) e]
  have "\<forall>p\<in>set ps. known_opcode (m_opcode (heap s p))" using assms(1) by (simp add: exportable_def)
  then have sp: "spells t ps (take (code_len (heap t) ps) (m_pOutputBuffer t))"
    using exported_spells [OF e relaxed_points_into [OF rel assms(3)]] by blast
  have r: "readable t" using assms(2) by (subst fr) (simp add: readable_def)
  have n: "unat ?n \<le> length (m_pOutputBuffer t)" "unat ?n + 2 ^ 25 < 2 ^ 32" using Z by simp_all
  show ?thesis
  proof (cases "m_fGenerateTinyHeader t")
    case True
    then have "out = tiny_body ?n t" "totalSize = 1 + ?n" "s' = t" and c: "?n < 64"
      using assms(4) unfolding t by (auto simp: finish_def split: if_splits)
    then show ?thesis using decode_tiny [OF c n(1) refl refl] sp rel Z(1) by simp
  next
    case False
    then have "out = fat_body mem ?n t" "totalSize = fat_totalSize (m_nEH t) ?n" "s' = t"
      using assms(4) unfolding t by (auto simp: finish_def)
    then show ?thesis using decode_fat [OF r n refl refl, of mem] sp rel Z(1) by simp
  qed
qed


text \<open>
  C28: The stack depth in an exported fat header is the one the rewriter counted modulo
  \<open>2 ^ 16\<close>. Import has already added the pushes of every instruction it read to the depth of
  the original header, so export after import of a large body can declare a smaller depth than
  the body had.
\<close>

theorem Import_Export_max_stack:
  assumes "GetILFunctionBody ci = Inr (body, aligned)" and "d = DecoderInit body aligned"
    and "10 * unat (dec_CodeSize d) + 2 ^ 25 < 2 ^ 32"
    and "Import ci (new_ILRewriter mem) = Some (Ok s)"
    and "Export ci' mem' s = Some (Ok (s', totalSize, out))"
  shows "\<exists>ps. spells s ps (code_of body d) \<and>
    dec_MaxStack (DecoderInit (nth out) True) =
      take_bit 16 (dec_MaxStack d + sum_list (map (\<lambda>p. stack_pushes (m_opcode (heap s p))) ps))"
proof -
  have big: "unat (dec_CodeSize d) + 8 < 2 ^ 32" using assms(3) by simp
  obtain ps where h: "holds s ps body d" using Import_holds [OF assms(1,2) big assms(4)] by blast
  note X = holds_exportable [OF h assms(3)]
  obtain t where t: "Export ci' mem' s = Some (finish ci' mem' (of_nat (code_len (heap t) ps)) t)"
    and e: "exported (max_code s) t ps"
    and fr: "t = s \<lparr>heap := heap t, m_pOutputBuffer := m_pOutputBuffer t\<rparr>"
    using Export_exported [OF X(1)] by blast
  note Z = exported_size [OF X(1) e]
  have r: "readable t" "\<not> m_fGenerateTinyHeader t" "m_maxStack t = m_maxStack s"
    using X(2) h by (subst fr, simp add: readable_def holds_def)+
  then have "out = fat_body mem' (of_nat (code_len (heap t) ps)) t"
    using assms(5) unfolding t by (auto simp: finish_def)
  then show ?thesis
    using decode_fat(3) [OF r(1) _ _ refl refl, of "of_nat (code_len (heap t) ps)" mem'] Z r(3) h
    by (auto simp: holds_def)
qed

text \<open>
  A rewriter made for a new method writes the one-byte header: below 64 bytes of code the
  decoder finds the code it spells, a stack of 8 and no clauses, whatever clauses the rewriter
  holds; from 64 bytes on export fails with \<^verbatim>\<open>E_FAIL\<close>.
\<close>

theorem Export_tiny:
  assumes "exportable s ps" and "m_fGenerateTinyHeader s"
  shows "\<exists>s'. relaxed (heap s) (heap s') \<and>
    (if code_len (heap s') ps < 64
     then \<exists>size out. Export ci mem s = Some (submit ci size out s') \<and> unat size = length out \<and>
       length out = 1 + code_len (heap s') ps \<and>
       (let d = DecoderInit (nth out) False in
         code_of (nth out) d = take (code_len (heap s') ps) (m_pOutputBuffer s') \<and>
         clauses_of (nth out) d = [] \<and> dec_MaxStack d = 8 \<and> dec_LocalVarSigTok d = 0)
     else Export ci mem s = Some (Fail E_FAIL))"
proof -
  obtain t where t: "Export ci mem s = Some (finish ci mem (of_nat (code_len (heap t) ps)) t)"
    and e: "exported (max_code s) t ps" and rel: "relaxed (heap s) (heap t)"
    and fr: "t = s \<lparr>heap := heap t, m_pOutputBuffer := m_pOutputBuffer t\<rparr>"
    using Export_exported [OF assms(1)] by blast
  let ?n = "of_nat (code_len (heap t) ps) :: u32"
  note Z = exported_size [OF assms(1) e]
  have tiny: "m_fGenerateTinyHeader t" using assms(2) by (subst fr) simp
  have c: "?n < 64 \<longleftrightarrow> code_len (heap t) ps < 64" using Z(1) by (simp add: word_less_nat_alt)
  show ?thesis
  proof (cases "code_len (heap t) ps < 64")
    case True
    have n: "unat ?n \<le> length (m_pOutputBuffer t)" using Z by simp
    note D = decode_tiny [OF iffD2 [OF c True] n refl refl]
    have "Export ci mem s = Some (submit ci (1 + ?n) (tiny_body ?n t) t)"
      using t tiny c True by (auto simp: finish_def)
    moreover have "length (tiny_body ?n t) = 1 + code_len (heap t) ps" using Z by (simp add: tiny_body_def)
    moreover have "code_of (nth (tiny_body ?n t)) (DecoderInit (nth (tiny_body ?n t)) False) =
        take (code_len (heap t) ps) (m_pOutputBuffer t)"
      using D(2) Z by simp
    ultimately have "Export ci mem s = Some (submit ci (1 + ?n) (tiny_body ?n t) t) \<and>
        unat (1 + ?n) = length (tiny_body ?n t) \<and> length (tiny_body ?n t) = 1 + code_len (heap t) ps \<and>
       (let d = DecoderInit (nth (tiny_body ?n t)) False in
         code_of (nth (tiny_body ?n t)) d = take (code_len (heap t) ps) (m_pOutputBuffer t) \<and>
         clauses_of (nth (tiny_body ?n t)) d = [] \<and> dec_MaxStack d = 8 \<and> dec_LocalVarSigTok d = 0)"
      using D(1,3,4) by (simp add: Let_def zero_decoder_def)
    then show ?thesis using rel True by (intro exI [of _ t]) (simp only: if_True, blast)
  next
    case False
    then show ?thesis using t tiny c rel by (intro exI [of _ t]) (auto simp: finish_def not_less)
  qed
qed

section \<open>A concrete body\<close>

text \<open>
  A tiny header and the two bytes of the branch \<^verbatim>\<open>br.s 0\<close> to the end, and a CLR that accepts every body.
  The loops of the import are run with a bound on the number of rounds.
\<close>

primrec import_rounds ::
  "nat \<Rightarrow> (nat \<Rightarrow> u8) \<Rightarrow> u32 \<times> bool \<times> ILRewriter \<Rightarrow> (u32 \<times> bool \<times> ILRewriter) exec" where
  "import_rounds 0 pIL st = Overrun"
| "import_rounds (Suc n) pIL st =
     (if fst st < m_CodeSize (snd (snd st)) then xbind (import_instr pIL st) (import_rounds n pIL) else Ok st)"

lemma import_rounds_loop: "import_rounds n pIL st = Ok st' \<Longrightarrow> import_loop pIL st = Some (Ok st')"
proof (induction n arbitrary: st)
  case (Suc n)
  then show ?case by (subst import_loop.simps) (auto simp: xbind_Ok_iff split: if_splits)
qed simp

primrec resolve_rounds :: "nat \<Rightarrow> ptr \<Rightarrow> ILRewriter \<Rightarrow> ILRewriter exec" where
  "resolve_rounds 0 p s = Overrun"
| "resolve_rounds (Suc n) p s =
     (if p = il_head then Ok s
      else xbind (resolve_target s p) (\<lambda>s'. resolve_rounds n (m_pNext (heap s' p)) s'))"

lemma resolve_rounds_loop:
  "resolve_rounds n p s = Ok s' \<Longrightarrow> for_instrs (\<lambda>s. s) resolve_target p s = Some (Ok s')"
proof (induction n arbitrary: p s)
  case (Suc n)
  then show ?case by (subst for_instrs.simps) (auto simp: xbind_Ok_iff split: if_splits)
qed simp

definition import_bounded :: "nat \<Rightarrow> (nat \<Rightarrow> u8) \<Rightarrow> ILRewriter \<Rightarrow> ILRewriter exec" where
  "import_bounded n pIL s =
     xbind (import_rounds n pIL (0, False, import_start s)) (\<lambda>(offset, fBranch, s3).
        if offset \<noteq> m_CodeSize s3 then Fail COR_E_INVALIDPROGRAM
        else if fBranch then resolve_rounds n (first_instr s3) s3 else Ok s3)"

lemma import_bounded_ImportIL: "import_bounded n pIL s = Ok s' \<Longrightarrow> ImportIL pIL s = Some (Ok s')"
  by (auto simp: import_bounded_def ImportIL_def import_start_def Let_def xbind_Ok_iff
      dest!: import_rounds_loop resolve_rounds_loop split: if_splits)

definition sample_body :: "nat \<Rightarrow> u8" where
  "sample_body i = (if i = 0 then 0x0A else if i = 1 then 0x2B else 0)"

definition sample_clr :: clr where
  "sample_clr = \<lparr>GetILFunctionBody = Inr (sample_body, False),
     has_function_control = True, GetILFunctionBodyAllocator = S_OK, Alloc_succeeds = (\<lambda>_. True),
     control_SetILFunctionBody = (\<lambda>_ _. S_OK), info_SetILFunctionBody = (\<lambda>_. S_OK)\<rparr>"

lemma sample_decoder: "DecoderInit sample_body False =
    \<lparr>dec_Flags = 2, dec_MaxStack = 8, dec_CodeSize = 2, dec_LocalVarSigTok = 0, dec_Code = Some 1, dec_EH = None\<rparr>"
  by code_simp

lemma sample_import: "\<exists>s. Import sample_clr (new_ILRewriter blank_memory) = Some (Ok s)"
proof -
  let ?s1 = "(new_ILRewriter blank_memory) \<lparr>m_tkLocalVarSig := 0, m_maxStack := 8,
      m_flags := 2 AND 0x10, m_CodeSize := 2\<rparr>"
  have "case import_bounded 2 (\<lambda>i. sample_body (1 + i)) ?s1 of Ok s \<Rightarrow> m_pEH s = None | _ \<Rightarrow> False"
    by code_simp
  then obtain s where "import_bounded 2 (\<lambda>i. sample_body (1 + i)) ?s1 = Ok s" and "m_pEH s = None"
    by (auto split: exec.splits)
  then have "ImportIL (\<lambda>i. sample_body (1 + i)) ?s1 = Some (Ok s)" "m_pEH s = None"
    by (auto dest: import_bounded_ImportIL)
  then show ?thesis
    by (simp add: Import_def sample_clr_def sample_decoder dec_EHCount_def ImportEH_def Let_def)
qed

lemma sample_ready:
  "\<exists>s ps. Import sample_clr (new_ILRewriter blank_memory) = Some (Ok s) \<and>
    holds s ps sample_body (DecoderInit sample_body False) \<and> exportable s ps \<and> readable s \<and>
    points_into (heap s) ps \<and> \<not> m_fGenerateTinyHeader s \<and>
    (\<exists>s' totalSize out. Export sample_clr (\<lambda>_. 0) s = Some (Ok (s', totalSize, out)))"
proof -
  let ?d = "DecoderInit sample_body False"
  have size: "unat (dec_CodeSize ?d) = 2" by (simp add: sample_decoder)
  have clr: "GetILFunctionBody sample_clr = Inr (sample_body, False)" by (simp add: sample_clr_def)
  obtain s where s: "Import sample_clr (new_ILRewriter blank_memory) = Some (Ok s)"
    using sample_import by blast
  obtain ps where h: "holds s ps sample_body ?d"
    using Import_holds [OF clr refl _ s] size by auto
  have x: "exportable s ps" "readable s"
    using holds_exportable [OF h] size by simp_all
  have sp: "spells s ps (code_of sample_body ?d)" using h by (simp add: holds_def)
  have "submit sample_clr n out t = Ok (t, n, out)" for n out t
    by (simp add: submit_def AllocateILMemory_def SetILFunctionBody_def sample_clr_def Let_def)
  then have "\<exists>s' totalSize out. Export sample_clr (\<lambda>_. 0) s = Some (Ok (s', totalSize, out))"
    using Export_spelled [OF x(1) sp, of sample_clr "\<lambda>_. 0"] h by (auto simp: finish_def holds_def)
  then show ?thesis using s h x sp unfolding spells_def holds_def by blast
qed

lemma Import_reads_witness:
  "\<exists>s ps. Import sample_clr (new_ILRewriter blank_memory) = Some (Ok s) \<and>
    holds s ps sample_body (DecoderInit sample_body False)"
  using Import_reads [of sample_clr sample_body False blank_memory] sample_import
  by (auto simp: sample_clr_def sample_decoder)

lemma Import_Export_identity_witness:
  "\<exists>s s' totalSize out. Export sample_clr (\<lambda>_. 0) s = Some (submit sample_clr totalSize out s') \<and>
    code_of (nth out) (DecoderInit (nth out) True) = [0x2B, 0]"
proof -
  obtain s where "Import sample_clr (new_ILRewriter blank_memory) = Some (Ok s)"
    using sample_import by blast
  moreover have "code_of sample_body (DecoderInit sample_body False) = [0x2B, 0]" by code_simp
  ultimately show ?thesis
    using Import_Export_identity [of sample_clr sample_body False "DecoderInit sample_body False" blank_memory s
        sample_clr "\<lambda>_. 0"]
    by (auto simp: sample_clr_def sample_decoder Let_def)
qed


lemma Export_spells_witness:
  "\<exists>s s' ps out. Import sample_clr (new_ILRewriter blank_memory) = Some (Ok s) \<and>
    spells s' ps (code_of (nth out) (DecoderInit (nth out) True)) \<and> relaxed (heap s) (heap s')"
proof -
  obtain s ps s' totalSize out where "Import sample_clr (new_ILRewriter blank_memory) = Some (Ok s)"
    "exportable s ps" "readable s" "points_into (heap s) ps"
    "Export sample_clr (\<lambda>_. 0) s = Some (Ok (s', totalSize, out))"
    using sample_ready by blast
  then show ?thesis using Export_spells by blast
qed


lemma Import_Export_max_stack_witness:
  "\<exists>s ps out. spells s ps [0x2B, 0] \<and> dec_MaxStack (DecoderInit (nth out) True) =
      take_bit 16 (8 + sum_list (map (\<lambda>p. stack_pushes (m_opcode (heap s p))) ps))"
proof -
  have "code_of sample_body (DecoderInit sample_body False) = [0x2B, 0]" by code_simp
  moreover have "dec_MaxStack (DecoderInit sample_body False) = 8" by (simp add: sample_decoder)
  moreover have "10 * unat (dec_CodeSize (DecoderInit sample_body False)) + 2 ^ 25 < 2 ^ 32"
    "GetILFunctionBody sample_clr = Inr (sample_body, False)" by (simp_all add: sample_decoder sample_clr_def)
  ultimately show ?thesis using sample_ready Import_Export_max_stack by metis
qed

lemma Export_tiny_witness:
  "\<exists>s s'. s = InitializeTiny (new_ILRewriter blank_memory) \<and> relaxed (heap s) (heap s') \<and>
    (\<exists>totalSize out. Export sample_clr (\<lambda>_. 0) s = Some (submit sample_clr totalSize out s') \<and> length out = 1)"
proof -
  let ?s = "InitializeTiny (new_ILRewriter blank_memory)"
  have "exportable ?s []"
    using ring_new [of blank_memory] ring_frame [of ?s "new_ILRewriter blank_memory" "[]"]
    by (simp add: exportable_def InitializeTiny_def new_ILRewriter_def)
  then show ?thesis
    using Export_tiny [of ?s "[]" sample_clr "\<lambda>_. 0"] by (auto simp: InitializeTiny_def Let_def)
qed

end
