(* ===== verification/ILRewriterWrapper.thy ===== *)
theory ILRewriterWrapper
  imports ILRoundTrip "HOL-Library.Sublist"
begin

text \<open>
  The instruction builder of \<^verbatim>\<open>il_rewriter_wrapper.cpp\<close>: a position in the list of a rewriter
  and one operation for each instruction the instrumentation inserts before it. Shown here:
  what each operation inserts, that the chosen short forms mean the same, and that any
  sequence of operations on an imported method leaves a list that export can write, with the
  original instructions in order.
\<close>

section \<open>The operations\<close>

record ILRewriterWrapper =
  m_ILRewriter :: ILRewriter
  m_ILInstr :: ptr

definition new_ILRewriterWrapper :: "ILRewriter \<Rightarrow> ILRewriterWrapper" where
  "new_ILRewriterWrapper s = \<lparr>m_ILRewriter = s, m_ILInstr = NULL\<rparr>"

definition GetILRewriter :: "ILRewriterWrapper \<Rightarrow> ILRewriter" where
  "GetILRewriter w = m_ILRewriter w"

definition GetCurrentILInstr :: "ILRewriterWrapper \<Rightarrow> ptr" where
  "GetCurrentILInstr w = m_ILInstr w"

definition SetILPosition :: "ptr \<Rightarrow> ILRewriterWrapper \<Rightarrow> ILRewriterWrapper" where
  "SetILPosition pILInstr w = w \<lparr>m_ILInstr := pILInstr\<rparr>"

text \<open>What the operations share: a new instruction, its members set by \<open>f\<close>, before the position.\<close>

definition insert_new :: "(ILInstr \<Rightarrow> ILInstr) \<Rightarrow> ILRewriterWrapper \<Rightarrow> ptr \<times> ILRewriterWrapper" where
  "insert_new f w =
     (let (pNewInstr, s) = NewILInstr (m_ILRewriter w); s1 = upd pNewInstr f s in
      (pNewInstr, w \<lparr>m_ILRewriter := InsertBefore (m_ILInstr w) pNewInstr s1\<rparr>))"

abbreviation set_opcode :: "u32 \<Rightarrow> ILInstr \<Rightarrow> ILInstr" where
  "set_opcode op \<equiv> m_opcode_update (\<lambda>_. op)"

definition Pop :: "ILRewriterWrapper \<Rightarrow> ILRewriterWrapper" where
  "Pop w = snd (insert_new (set_opcode CEE_POP) w)"

definition LoadNull :: "ILRewriterWrapper \<Rightarrow> ptr \<times> ILRewriterWrapper" where
  "LoadNull w = insert_new (set_opcode CEE_LDNULL) w"

definition LoadInt64 :: "u64 \<Rightarrow> ILRewriterWrapper \<Rightarrow> ILRewriterWrapper" where
  "LoadInt64 v w = snd (insert_new (\<lambda>i. set_Arg64 v (set_opcode CEE_LDC_I8 i)) w)"

text \<open>The instruction of \<open>LoadInt32\<close>; the argument is the 32 bits of the signed value.\<close>

definition int32_instr :: "u32 \<Rightarrow> ILInstr \<Rightarrow> ILInstr" where
  "int32_instr v i =
     (if 0 \<le> sint v \<and> sint v \<le> 8
      then set_opcode ([CEE_LDC_I4_0, CEE_LDC_I4_1, CEE_LDC_I4_2, CEE_LDC_I4_3, CEE_LDC_I4_4,
             CEE_LDC_I4_5, CEE_LDC_I4_6, CEE_LDC_I4_7, CEE_LDC_I4_8] ! unat v) i
      else if - 128 \<le> sint v \<and> sint v \<le> 127
      then set_Arg8 (ucast v) (set_opcode CEE_LDC_I4_S i)
      else set_Arg32 v (set_opcode CEE_LDC_I4 i))"

definition LoadInt32 :: "u32 \<Rightarrow> ILRewriterWrapper \<Rightarrow> ILRewriterWrapper" where
  "LoadInt32 v w = snd (insert_new (int32_instr v) w)"

text \<open>
  The instruction of \<open>LoadArgument\<close>, \<open>StLocal\<close> and \<open>LoadLocal\<close>: the four opcodes for small
  indices, the short opcode and the long one.
\<close>

definition indexed_instr :: "u32 list \<Rightarrow> u32 \<Rightarrow> u32 \<Rightarrow> u32 \<Rightarrow> ILInstr \<Rightarrow> ILInstr" where
  "indexed_instr opcodes short long index i =
     (if index \<le> 3 then set_opcode (opcodes ! unat index) i
      else if index \<le> 255 then set_Arg8 (ucast index) (set_opcode short i)
      else set_Arg16 (ucast index) (set_opcode long i))"

definition LoadArgument :: "u16 \<Rightarrow> ILRewriterWrapper \<Rightarrow> ptr \<times> ILRewriterWrapper" where
  "LoadArgument index w =
     insert_new (indexed_instr [CEE_LDARG_0, CEE_LDARG_1, CEE_LDARG_2, CEE_LDARG_3]
       CEE_LDARG_S CEE_LDARG (ucast index)) w"

definition Cast :: "u32 \<Rightarrow> ILRewriterWrapper \<Rightarrow> ILRewriterWrapper" where
  "Cast type_ref w = snd (insert_new (\<lambda>i. set_Arg32 type_ref (set_opcode CEE_CASTCLASS i)) w)"

definition Box :: "u32 \<Rightarrow> ILRewriterWrapper \<Rightarrow> ILRewriterWrapper" where
  "Box type_ref w = snd (insert_new (\<lambda>i. set_Arg32 type_ref (set_opcode CEE_BOX i)) w)"

definition UnboxAny :: "u32 \<Rightarrow> ILRewriterWrapper \<Rightarrow> ILRewriterWrapper" where
  "UnboxAny type_ref w = snd (insert_new (\<lambda>i. set_Arg32 type_ref (set_opcode CEE_UNBOX_ANY i)) w)"

definition UnboxAnyAfter :: "u32 \<Rightarrow> ILRewriterWrapper \<Rightarrow> ILRewriterWrapper" where
  "UnboxAnyAfter type_ref w =
     (let (pNewInstr, s) = NewILInstr (m_ILRewriter w);
          s1 = upd pNewInstr (\<lambda>i. set_Arg32 type_ref (set_opcode CEE_UNBOX_ANY i)) s in
      w \<lparr>m_ILRewriter := InsertAfter (m_ILInstr w) pNewInstr s1\<rparr>)"

definition CreateArray :: "u32 \<Rightarrow> u32 \<Rightarrow> ILRewriterWrapper \<Rightarrow> ILRewriterWrapper" where
  "CreateArray type_ref length_of w =
     snd (insert_new (\<lambda>i. set_Arg32 type_ref (set_opcode CEE_NEWARR i)) (LoadInt32 length_of w))"

definition CallMember :: "u32 \<Rightarrow> bool \<Rightarrow> ILRewriterWrapper \<Rightarrow> ptr \<times> ILRewriterWrapper" where
  "CallMember member_ref is_virtual w =
     insert_new (\<lambda>i. set_Arg32 member_ref (set_opcode (if is_virtual then CEE_CALLVIRT else CEE_CALL) i)) w"

definition Duplicate :: "ILRewriterWrapper \<Rightarrow> ILRewriterWrapper" where
  "Duplicate w = snd (insert_new (set_opcode CEE_DUP) w)"

definition BeginLoadValueIntoArray :: "u32 \<Rightarrow> ILRewriterWrapper \<Rightarrow> ILRewriterWrapper" where
  "BeginLoadValueIntoArray arrayIndex w = LoadInt32 arrayIndex (Duplicate w)"

definition EndLoadValueIntoArray :: "ILRewriterWrapper \<Rightarrow> ILRewriterWrapper" where
  "EndLoadValueIntoArray w = snd (insert_new (set_opcode CEE_STELEM_REF) w)"

text \<open>The body of the loop of \<open>ReplaceMethodCalls\<close>.\<close>

definition replace_call :: "u32 \<Rightarrow> u32 \<Rightarrow> bool \<times> ILRewriter \<Rightarrow> ptr \<Rightarrow> (bool \<times> ILRewriter) exec" where
  "replace_call old_method_ref new_method_ref st pInstr =
     (let (modified, s) = st; i = heap s pInstr in
      if (m_opcode i = CEE_CALL \<or> m_opcode i = CEE_CALLVIRT) \<and> get_Arg32 i = old_method_ref
      then Ok (True, upd pInstr (\<lambda>i. set_Arg32 new_method_ref (set_opcode CEE_CALL i)) s)
      else Ok (modified, s))"

definition ReplaceMethodCalls ::
  "u32 \<Rightarrow> u32 \<Rightarrow> ILRewriterWrapper \<Rightarrow> (bool \<times> ILRewriterWrapper) exec option" where
  "ReplaceMethodCalls old_method_ref new_method_ref w =
     (let s = m_ILRewriter w in
      obind_exec (for_instrs snd (replace_call old_method_ref new_method_ref) (first_instr s) (False, s))
        (\<lambda>(modified, s1). Some (Ok (modified, w \<lparr>m_ILRewriter := s1\<rparr>))))"

definition LoadToken :: "u32 \<Rightarrow> ILRewriterWrapper \<Rightarrow> ptr \<times> ILRewriterWrapper" where
  "LoadToken token w = insert_new (\<lambda>i. set_Arg32 token (set_opcode CEE_LDTOKEN i)) w"

definition LoadObj :: "u32 \<Rightarrow> ILRewriterWrapper \<Rightarrow> ptr \<times> ILRewriterWrapper" where
  "LoadObj token w = insert_new (\<lambda>i. set_Arg32 token (set_opcode CEE_LDOBJ i)) w"

definition StLocal :: "u32 \<Rightarrow> ILRewriterWrapper \<Rightarrow> ptr \<times> ILRewriterWrapper" where
  "StLocal index w =
     insert_new (indexed_instr [CEE_STLOC_0, CEE_STLOC_1, CEE_STLOC_2, CEE_STLOC_3]
       CEE_STLOC_S CEE_STLOC index) w"

definition LoadLocal :: "u32 \<Rightarrow> ILRewriterWrapper \<Rightarrow> ptr \<times> ILRewriterWrapper" where
  "LoadLocal index w =
     insert_new (indexed_instr [CEE_LDLOC_0, CEE_LDLOC_1, CEE_LDLOC_2, CEE_LDLOC_3]
       CEE_LDLOC_S CEE_LDLOC index) w"

definition LoadLocalAddress :: "u32 \<Rightarrow> ILRewriterWrapper \<Rightarrow> ptr \<times> ILRewriterWrapper" where
  "LoadLocalAddress index w =
     insert_new (\<lambda>i. if index \<le> 255 then set_Arg8 (ucast index) (set_opcode CEE_LDLOCA_S i)
       else set_Arg16 (ucast index) (set_opcode CEE_LDLOCA i)) w"

definition Return :: "ILRewriterWrapper \<Rightarrow> ptr \<times> ILRewriterWrapper" where
  "Return w = insert_new (set_opcode CEE_RET) w"

definition Rethrow :: "ILRewriterWrapper \<Rightarrow> ptr \<times> ILRewriterWrapper" where
  "Rethrow w = insert_new (set_opcode CEE_RETHROW) w"

definition EndFinally :: "ILRewriterWrapper \<Rightarrow> ptr \<times> ILRewriterWrapper" where
  "EndFinally w = insert_new (set_opcode CEE_ENDFINALLY) w"

definition NOP :: "ILRewriterWrapper \<Rightarrow> ptr \<times> ILRewriterWrapper" where
  "NOP w = insert_new (set_opcode CEE_NOP) w"

definition CreateInstr :: "u32 \<Rightarrow> ILRewriterWrapper \<Rightarrow> ptr \<times> ILRewriterWrapper" where
  "CreateInstr opCode w = insert_new (set_opcode opCode) w"

definition InitObj :: "u32 \<Rightarrow> ILRewriterWrapper \<Rightarrow> ptr \<times> ILRewriterWrapper" where
  "InitObj type_ref w = insert_new (\<lambda>i. set_Arg32 type_ref (set_opcode CEE_INITOBJ i)) w"

section \<open>What an insertion keeps\<close>

text \<open>
  The invariant of a rewriter in use: its list can be exported, its branches point into the
  list, its body can be read back.
\<close>

definition rewritable :: "ILRewriter \<Rightarrow> ptr list \<Rightarrow> bool" where
  "rewritable s ps \<longleftrightarrow> exportable s ps \<and> points_into (heap s) ps \<and> readable s"

text \<open>The rewriter has room for \<open>k\<close> more instructions.\<close>

definition room :: "ILRewriter \<Rightarrow> nat \<Rightarrow> bool" where
  "room s k \<longleftrightarrow> 10 * (unat (m_nInstrs s) + k) + 2 ^ 25 < 2 ^ 32"

text \<open>Members an inserted instruction is given: an operand that is not a branch target.\<close>

definition plain :: "(ILInstr \<Rightarrow> ILInstr) \<Rightarrow> bool" where
  "plain f \<longleftrightarrow> (\<forall>i. m_pNext (f i) = m_pNext i \<and> m_pPrev (f i) = m_pPrev i) \<and>
     known_opcode (m_opcode (f zero_instr)) \<and> \<not> has_target (m_opcode (f zero_instr))"

text \<open>A branch to \<open>t\<close>.\<close>

definition branch_to :: "ptr \<Rightarrow> (ILInstr \<Rightarrow> ILInstr) \<Rightarrow> bool" where
  "branch_to t f \<longleftrightarrow> (\<forall>i. m_pNext (f i) = m_pNext i \<and> m_pPrev (f i) = m_pPrev i) \<and>
     known_opcode (m_opcode (f zero_instr)) \<and> m_arg (f zero_instr) = Target t"

definition fits_list :: "ILRewriter \<Rightarrow> ptr list \<Rightarrow> (ILInstr \<Rightarrow> ILInstr) \<Rightarrow> bool" where
  "fits_list s ps f \<longleftrightarrow> plain f \<or>
     (\<exists>t. branch_to t f \<and> (t = il_head \<or> t \<in> set ps \<and> m_opcode (heap s t) \<noteq> CEE_SWITCH_ARG))"

definition linked :: "ILRewriter \<Rightarrow> ptr list \<Rightarrow> ptr list \<Rightarrow> ptr \<Rightarrow> ILInstr \<Rightarrow> ILRewriter \<Rightarrow> bool" where
  "linked s xs ys p i s' \<longleftrightarrow>
     rewritable s' (xs @ p # ys) \<and> m_opcode (heap s' p) = m_opcode i \<and> m_arg (heap s' p) = m_arg i \<and>
     agree (heap s) (heap s') (set (xs @ ys)) \<and> m_nInstrs s' = m_nInstrs s + 1 \<and>
     m_maxStack s' = m_maxStack s + stack_pushes (m_opcode i) \<and> same_header s s'"

lemma linked_new:
  assumes rw: "rewritable s (xs @ ys)" and n: "NewILInstr s = (p, s1)" and f: "fits_list s (xs @ ys) f"
    and k: "room s 1"
    and s': "s' = InsertBefore (right_of ys) p (upd p f s1) \<or> s' = InsertAfter (left_of xs) p (upd p f s1)"
  shows "linked s xs ys p (f zero_instr) s'"
proof -
  have ring: "ring s (xs @ ys)" and kn: "\<forall>q\<in>set (xs @ ys). known_opcode (m_opcode (heap s q))"
    and len: "length (xs @ ys) \<le> unat (m_nInstrs s)" and pt: "points_into (heap s) (xs @ ys)"
    and rd: "readable s"
    using rw by (auto simp: rewritable_def exportable_def)
  have f': "\<And>i. m_pNext (f i) = m_pNext i" "\<And>i. m_pPrev (f i) = m_pPrev i"
    "known_opcode (m_opcode (f zero_instr))"
    using f by (auto simp: fits_list_def plain_def branch_to_def)
  have u: "unlinked (upd p f s1) (xs @ ys) p" and r2: "ring (upd p f s1) (xs @ ys)"
    using NewILInstr_unlinked [OF ring n] ring_upd [of f p s1 "xs @ ys"] f' by (auto simp: unlinked_def)
  have s1: "s1 = s \<lparr>m_nInstrs := m_nInstrs s + 1, heap := (heap s) (p := zero_instr), m_brk := m_brk s + 1\<rparr>"
    using n by (auto simp: NewILInstr_def)
  have ring': "ring s' (xs @ p # ys)"
    and eq: "s' = (upd p f s1)
      \<lparr>heap := link_between (left_of xs) p (right_of ys) (heap (upd p f s1)),
       m_maxStack := m_maxStack s1 + stack_pushes (m_opcode (f zero_instr))\<rparr>"
    using s' ring_InsertBefore [OF r2 u] ring_InsertAfter [OF r2 u] by (auto simp: s1)
  have p: "p \<notin> set (xs @ ys)" "p \<noteq> il_head" using u by (auto simp: unlinked_def)
  have new: "m_opcode (heap s' p) = m_opcode (f zero_instr)" "m_arg (heap s' p) = m_arg (f zero_instr)"
    by (simp_all add: eq s1)
  have old: "m_opcode (heap s' q) = m_opcode (heap s q)" "m_arg (heap s' q) = m_arg (heap s q)"
    if "q \<noteq> p" for q using that by (simp_all add: eq s1)
  have hdr: "m_nInstrs s' = m_nInstrs s + 1" "m_maxStack s' = m_maxStack s + stack_pushes (m_opcode (f zero_instr))"
    "same_header s s'"
    by (simp_all add: eq s1 same_header_def)
  have n1: "unat (m_nInstrs s') = unat (m_nInstrs s) + 1"
    using k by (simp add: hdr room_def unat_add32)
  have "known_opcode (m_opcode (heap s' q))" if "q \<in> set (xs @ p # ys)" for q
    using kn new f' old(1) [of q] that by (cases "q = p") auto
  then have "exportable s' (xs @ p # ys)"
    using ring' len k n1 by (simp add: exportable_def room_def)
  moreover have "points_into (heap s') (xs @ p # ys)"
  proof -
    have tgt: "t = il_head \<or> t \<in> set (xs @ p # ys) \<and> m_opcode (heap s' t) \<noteq> CEE_SWITCH_ARG"
      if "t = il_head \<or> t \<in> set (xs @ ys) \<and> m_opcode (heap s t) \<noteq> CEE_SWITCH_ARG" for t
      using that old(1) [of t] p by (cases "t = p") auto
    have "\<exists>t. m_arg (heap s' p) = Target t \<and>
        (t = il_head \<or> t \<in> set (xs @ p # ys) \<and> m_opcode (heap s' t) \<noteq> CEE_SWITCH_ARG)"
      if "has_target (m_opcode (heap s' p))"
      using f that new tgt by (auto simp: fits_list_def plain_def branch_to_def)
    moreover have "\<exists>t. m_arg (heap s' q) = Target t \<and>
        (t = il_head \<or> t \<in> set (xs @ p # ys) \<and> m_opcode (heap s' t) \<noteq> CEE_SWITCH_ARG)"
      if "q \<in> set (xs @ ys)" "has_target (m_opcode (heap s' q))" for q
      using pt that old [of q] p tgt unfolding points_into_def by metis
    ultimately show ?thesis unfolding points_into_def by auto
  qed
  moreover have "readable s'"
    using rd hdr(3) by (cases "m_pEH s") (simp_all add: readable_def same_header_def eh_clauses_def)
  moreover have "agree (heap s) (heap s') (set (xs @ ys))"
    using old p unfolding agree_def by metis
  ultimately show ?thesis using new hdr by (simp add: linked_def rewritable_def)
qed

lemma at_position:
  assumes "q \<in> set (il_head # ps)"
  obtains xs ys where "ps = xs @ ys" and "right_of ys = q"
proof (cases "q = il_head")
  case True
  then show ?thesis using that [of ps "[]"] by simp
next
  case False
  then obtain xs ys where "ps = xs @ q # ys" using assms by (auto dest: split_list)
  then show ?thesis using that [of xs "q # ys"] by simp
qed

lemma behind_position:
  assumes "q \<in> set (il_head # ps)"
  obtains xs ys where "ps = xs @ ys" and "left_of xs = q"
proof (cases "q = il_head")
  case True
  then show ?thesis using that [of "[]" ps] by simp
next
  case False
  then obtain xs ys where "ps = xs @ q # ys" using assms by (auto dest: split_list)
  then show ?thesis using that [of "xs @ [q]" ys] by simp
qed

lemma insert_new_linked:
  assumes "rewritable (m_ILRewriter w) (xs @ ys)" and "right_of ys = m_ILInstr w"
    and "fits_list (m_ILRewriter w) (xs @ ys) f" and "room (m_ILRewriter w) 1" and "insert_new f w = (p, w')"
  shows "linked (m_ILRewriter w) xs ys p (f zero_instr) (m_ILRewriter w')" and "m_ILInstr w' = m_ILInstr w"
proof -
  obtain q s1 where n: "NewILInstr (m_ILRewriter w) = (q, s1)" by (cases "NewILInstr (m_ILRewriter w)")
  have "p = q" "w' = w \<lparr>m_ILRewriter := InsertBefore (right_of ys) q (upd q f s1)\<rparr>"
    using assms(2,5) by (auto simp: insert_new_def n Let_def)
  then show "linked (m_ILRewriter w) xs ys p (f zero_instr) (m_ILRewriter w')" "m_ILInstr w' = m_ILInstr w"
    using linked_new [OF assms(1) n assms(3,4)] by auto
qed

section \<open>The meaning of the chosen forms\<close>

text \<open>
  What the instruction set says of the loads: the number a constant instruction pushes, and the
  index an argument, a local load or a local store uses.
\<close>

definition pushed_int32 :: "ILInstr \<Rightarrow> u32 option" where
  "pushed_int32 i =
     (let op = m_opcode i; v = arg_bits (m_arg i) in
      if op = 0x15 then Some (- 1)
      else if CEE_LDC_I4_0 \<le> op \<and> op \<le> CEE_LDC_I4_8 then Some (op - CEE_LDC_I4_0)
      else if op = CEE_LDC_I4_S then Some (scast (ucast v :: u8))
      else if op = CEE_LDC_I4 then Some (ucast v)
      else None)"

definition index_used :: "u32 \<Rightarrow> u32 \<Rightarrow> u32 \<Rightarrow> ILInstr \<Rightarrow> u16 option" where
  "index_used first short long i =
     (let op = m_opcode i; v = arg_bits (m_arg i) in
      if first \<le> op \<and> op \<le> first + 3 then Some (ucast (op - first))
      else if op = short then Some (ucast (ucast v :: u8))
      else if op = long then Some (ucast v)
      else None)"

definition argument_used :: "ILInstr \<Rightarrow> u16 option" where
  "argument_used = index_used CEE_LDARG_0 CEE_LDARG_S CEE_LDARG"

definition local_used :: "ILInstr \<Rightarrow> u16 option" where
  "local_used = index_used CEE_LDLOC_0 CEE_LDLOC_S CEE_LDLOC"

definition local_stored :: "ILInstr \<Rightarrow> u16 option" where
  "local_stored = index_used CEE_STLOC_0 CEE_STLOC_S CEE_STLOC"

lemma set_bytes_ucast:
  "(ucast (arg_bits (set_bytes 1 (ucast b) a)) :: u8) = b"
  "(ucast (arg_bits (set_bytes 2 (ucast h) a)) :: u16) = h"
  "(ucast (arg_bits (set_bytes 4 (ucast w) a)) :: u32) = w"
  for b :: u8 and h :: u16 and w :: u32
  by (rule bit_word_eqI; auto simp: set_bytes_def bit_simps)+

lemmas set_bytes_ucast' = set_bytes_ucast [unfolded One_nat_def]

lemma small_index:
  fixes v :: u32
  assumes "v \<le> 3"
  shows "v = 0 \<or> v = 1 \<or> v = 2 \<or> v = 3"
proof -
  have "unat v \<le> 3" using assms by (simp add: word_le_nat_alt)
  then have "unat v = 0 \<or> unat v = 1 \<or> unat v = 2 \<or> unat v = 3" by arith
  then show ?thesis by (auto simp: word_unat_eq_iff)
qed

lemma ucast_byte_index:
  fixes v :: u32
  assumes "v \<le> 255"
  shows "(ucast (ucast v :: u8) :: u16) = ucast v"
proof -
  have "take_bit 8 v = v"
    using assms by (simp add: word_unat_eq_iff unsigned_take_bit_eq take_bit_nat_eq_self word_le_nat_alt)
  then have *: "bit v n \<Longrightarrow> n < 8" for n by (metis bit_take_bit_iff)
  show ?thesis by (rule bit_word_eqI) (use * in \<open>auto simp: bit_simps\<close>)
qed

lemma indexed_meaning:
  assumes ops: "(first, short, long) \<in> {(CEE_LDARG_0, CEE_LDARG_S, CEE_LDARG),
      (CEE_LDLOC_0, CEE_LDLOC_S, CEE_LDLOC), (CEE_STLOC_0, CEE_STLOC_S, CEE_STLOC)}"
  shows "index_used first short long (indexed_instr [first, first + 1, first + 2, first + 3] short long v i)
    = Some (ucast v)"
proof (cases "v \<le> 3")
  case True
  then show ?thesis using small_index [OF True] ops
    by (auto simp: index_used_def indexed_instr_def Let_def)
next
  case False
  then show ?thesis using ops
    by (auto simp: index_used_def indexed_instr_def Let_def set_Arg8_def set_Arg16_def set_bytes_ucast' ucast_byte_index)
qed

lemma scast_byte:
  "- 128 \<le> k \<Longrightarrow> k \<le> 127 \<Longrightarrow> scast (ucast (word_of_int k :: u32) :: u8) = (word_of_int k :: u32)"
  by transfer (simp add: signed_take_bit_take_bit signed_take_bit_int_eq_self)

lemma int32_meaning: "pushed_int32 (int32_instr v i) = Some v"
proof (cases "0 \<le> sint v \<and> sint v \<le> 8")
  case True
  then have "sint v \<in> {0, 1, 2, 3, 4, 5, 6, 7, 8}" by auto
  moreover have "v = of_int (sint v)" by simp
  ultimately have "v \<in> {0, 1, 2, 3, 4, 5, 6, 7, 8}" by (auto simp del: of_int_sint)
  with True show ?thesis by (auto simp: int32_instr_def pushed_int32_def Let_def)
next
  case False
  show ?thesis
  proof (cases "- 128 \<le> sint v \<and> sint v \<le> 127")
    case True
    have "scast (ucast v :: u8) = v" using scast_byte [of "sint v"] True by simp
    then show ?thesis
      unfolding int32_instr_def if_not_P [OF False] if_P [OF True]
      by (simp add: pushed_int32_def Let_def set_Arg8_def set_bytes_ucast')
  next
    case f: False
    show ?thesis
      unfolding int32_instr_def if_not_P [OF False] if_not_P [OF f]
      by (simp add: pushed_int32_def Let_def set_Arg32_def set_bytes_ucast)
  qed
qed

section \<open>The steps of the instrumentation\<close>

lemma plain_intro:
  assumes "\<And>i. m_pNext (f i) = m_pNext i" and "\<And>i. m_pPrev (f i) = m_pPrev i"
    and "\<And>i. m_opcode (f i) = op" and "op < CEE_COUNT" and "\<not> (0x2B \<le> op \<and> op < 0x45) \<and> op \<noteq> 0xDD \<and> op \<noteq> 0xDE"
  shows "plain f"
proof -
  have "unat op < 296" using assms(4) by (simp add: word_less_nat_alt)
  then have "\<not> has_target op"
    using op_flags_eq [of op] assms(4,5)
    by (auto simp: has_target_eq word_less_nat_alt word_le_nat_alt)
  then show ?thesis using assms by (simp add: plain_def known_opcode_def)
qed

lemma plain_indexed:
  assumes "\<forall>op\<in>set (opcodes @ [short, long]). op < CEE_COUNT \<and> \<not> (0x2B \<le> op \<and> op < 0x45) \<and> op \<noteq> 0xDD \<and> op \<noteq> 0xDE"
    and "length opcodes = 4"
  shows "plain (indexed_instr opcodes short long v)"
proof (rule plain_intro)
  let ?op = "if v \<le> 3 then opcodes ! unat v else if v \<le> 255 then short else long"
  show "m_opcode (indexed_instr opcodes short long v i) = ?op" for i by (simp add: indexed_instr_def)
  have "?op \<in> set (opcodes @ [short, long])"
    using assms(2) by (auto simp: word_le_nat_alt intro: nth_mem)
  then show "?op < CEE_COUNT" "\<not> (0x2B \<le> ?op \<and> ?op < 0x45) \<and> ?op \<noteq> 0xDD \<and> ?op \<noteq> 0xDE"
    using assms(1) by blast+
qed (simp_all add: indexed_instr_def)

lemma plain_int32: "plain (int32_instr v)"
proof (rule plain_intro)
  let ?ops = "[CEE_LDC_I4_0, CEE_LDC_I4_1, CEE_LDC_I4_2, CEE_LDC_I4_3, CEE_LDC_I4_4,
             CEE_LDC_I4_5, CEE_LDC_I4_6, CEE_LDC_I4_7, CEE_LDC_I4_8]"
  let ?op = "if 0 \<le> sint v \<and> sint v \<le> 8 then ?ops ! unat v
    else if - 128 \<le> sint v \<and> sint v \<le> 127 then CEE_LDC_I4_S else CEE_LDC_I4"
  show "m_opcode (int32_instr v i) = ?op" for i by (simp add: int32_instr_def)
  have "?op \<in> set (?ops @ [CEE_LDC_I4_S, CEE_LDC_I4])"
  proof (cases "0 \<le> sint v \<and> sint v \<le> 8")
    case True
    then have "sint v \<in> {0, 1, 2, 3, 4, 5, 6, 7, 8}" by auto
    moreover have "v = of_int (sint v)" by simp
    ultimately have "v \<in> {0, 1, 2, 3, 4, 5, 6, 7, 8}" by (auto simp del: of_int_sint)
    then have "unat v < length ?ops" by auto
    with True show ?thesis using nth_mem [of "unat v" ?ops] by auto
  qed auto
  then have "?op \<in> {0x16, 0x17, 0x18, 0x19, 0x1A, 0x1B, 0x1C, 0x1D, 0x1E, 0x1F, 0x20}" by simp
  then show "?op < CEE_COUNT" "\<not> (0x2B \<le> ?op \<and> ?op < 0x45) \<and> ?op \<noteq> 0xDD \<and> ?op \<noteq> 0xDE"
    by (elim insertE emptyE; simp only:; simp)+
qed (simp_all add: int32_instr_def)

lemma plain_opcode:
  assumes "op < CEE_COUNT" and "\<not> (0x2B \<le> op \<and> op < 0x45) \<and> op \<noteq> 0xDD \<and> op \<noteq> 0xDE"
  shows "plain (set_opcode op)" and "plain (\<lambda>i. set_Arg32 w (set_opcode op i))"
    and "plain (\<lambda>i. set_Arg64 v (set_opcode op i))"
  by (rule plain_intro [OF _ _ _ assms]; simp)+

text \<open>The loop of \<open>ReplaceMethodCalls\<close> as one update of the list.\<close>

definition calls :: "u32 \<Rightarrow> ILInstr \<Rightarrow> bool" where
  "calls method_ref i \<longleftrightarrow> (m_opcode i = CEE_CALL \<or> m_opcode i = CEE_CALLVIRT) \<and> get_Arg32 i = method_ref"

definition redirect :: "u32 \<Rightarrow> u32 \<Rightarrow> ptr list \<Rightarrow> heap \<Rightarrow> heap" where
  "redirect old_method_ref new_method_ref ps h = (\<lambda>q. if q \<in> set ps \<and> calls old_method_ref (h q)
     then set_Arg32 new_method_ref (set_opcode CEE_CALL (h q)) else h q)"

lemma replace_call_fold:
  "distinct ps \<Longrightarrow> foldE (replace_call a b) ps (m, s) =
    Ok (m \<or> (\<exists>p\<in>set ps. calls a (heap s p)), s \<lparr>heap := redirect a b ps (heap s)\<rparr>)"
proof (induction ps arbitrary: m s)
  case Nil
  then show ?case by (simp add: redirect_def)
next
  case (Cons p ps)
  show ?case
  proof (cases "calls a (heap s p)")
    case True
    let ?s = "upd p (\<lambda>i. set_Arg32 b (set_opcode CEE_CALL i)) s"
    have "replace_call a b (m, s) p = Ok (True, ?s)"
      using True by (simp add: replace_call_def calls_def)
    moreover have "redirect a b ps (heap ?s) = redirect a b (p # ps) (heap s)"
      using True Cons.prems by (auto simp: redirect_def fun_eq_iff)
    moreover have "?s \<lparr>heap := h\<rparr> = s \<lparr>heap := h\<rparr>" for h by (simp add: upd_def)
    ultimately show ?thesis using Cons True by simp
  next
    case False
    have "replace_call a b (m, s) p = Ok (m, s)"
      using False by (auto simp: replace_call_def calls_def)
    moreover have "redirect a b ps (heap s) = redirect a b (p # ps) (heap s)"
      using False by (auto simp: redirect_def fun_eq_iff)
    ultimately show ?thesis using Cons False by simp
  qed
qed

lemma ReplaceMethodCalls_list:
  assumes "ring (m_ILRewriter w) ps"
  shows "ReplaceMethodCalls a b w =
    Some (Ok (\<exists>p\<in>set ps. calls a (heap (m_ILRewriter w) p),
      w \<lparr>m_ILRewriter := (m_ILRewriter w) \<lparr>heap := redirect a b ps (heap (m_ILRewriter w))\<rparr>\<rparr>))"
proof -
  have "for_instrs snd (replace_call a b) (first_instr (snd (False, m_ILRewriter w))) (False, m_ILRewriter w) =
    Some (foldE (replace_call a b) ps (False, m_ILRewriter w))"
    by (rule for_instrs_ring)
      (use assms in \<open>auto simp: replace_call_def Let_def split: if_splits prod.splits\<close>)
  moreover have "distinct ps" using assms by (simp add: ring_def)
  ultimately show ?thesis by (simp add: ReplaceMethodCalls_def Let_def replace_call_fold)
qed

text \<open>One step of the instrumentation of a method: an operation of the wrapper.\<close>

inductive step :: "ILRewriterWrapper \<Rightarrow> ILRewriterWrapper \<Rightarrow> bool" where
  position: "ring (m_ILRewriter w) ps \<Longrightarrow> p \<in> set (il_head # ps) \<Longrightarrow> step w (SetILPosition p w)"
| pop: "step w (Pop w)"
| null: "step w (snd (LoadNull w))"
| int64: "step w (LoadInt64 v w)"
| int32: "step w (LoadInt32 v w)"
| argument: "step w (snd (LoadArgument index w))"
| cast: "step w (Cast token w)"
| box: "step w (Box token w)"
| unbox: "step w (UnboxAny token w)"
| unbox_after: "step w (UnboxAnyAfter token w)"
| array: "step w (CreateArray token v w)"
| call: "step w (snd (CallMember token is_virtual w))"
| duplicate: "step w (Duplicate w)"
| array_begin: "step w (BeginLoadValueIntoArray v w)"
| array_end: "step w (EndLoadValueIntoArray w)"
| replace_calls: "ReplaceMethodCalls a b w = Some (Ok (m, w')) \<Longrightarrow> step w w'"
| token: "step w (snd (LoadToken token w))"
| obj: "step w (snd (LoadObj token w))"
| local_store: "step w (snd (StLocal v w))"
| local_load: "step w (snd (LoadLocal v w))"
| local_address: "step w (snd (LoadLocalAddress v w))"
| ret: "step w (snd (Return w))"
| rethrow: "step w (snd (Rethrow w))"
| end_finally: "step w (snd (EndFinally w))"
| nop: "step w (snd (NOP w))"
| create: "opCode < CEE_COUNT \<Longrightarrow> \<not> has_target opCode \<Longrightarrow> step w (snd (CreateInstr opCode w))"
| branch: "opCode < CEE_COUNT \<Longrightarrow> ring (m_ILRewriter w) ps \<Longrightarrow>
    t = il_head \<or> t \<in> set ps \<and> m_opcode (heap (m_ILRewriter w) t) \<noteq> CEE_SWITCH_ARG \<Longrightarrow>
    CreateInstr opCode w = (p, w') \<Longrightarrow>
    step w (w' \<lparr>m_ILRewriter := upd p (set_pTarget t) (m_ILRewriter w')\<rparr>)"
| init_obj: "step w (snd (InitObj token w))"

section \<open>The invariant of the instrumentation\<close>

definition usable :: "ILRewriterWrapper \<Rightarrow> ptr list \<Rightarrow> bool" where
  "usable w ps \<longleftrightarrow> rewritable (m_ILRewriter w) ps \<and> m_ILInstr w \<in> set (il_head # ps)"

text \<open>What may become of an instruction: a call may be turned into another call.\<close>

definition kept :: "ILInstr \<Rightarrow> ILInstr \<Rightarrow> bool" where
  "kept i i' \<longleftrightarrow> m_opcode i' = m_opcode i \<and> m_arg i' = m_arg i \<or>
     (m_opcode i = CEE_CALL \<or> m_opcode i = CEE_CALLVIRT) \<and> m_opcode i' = CEE_CALL"

definition extends :: "nat \<Rightarrow> ILRewriterWrapper \<Rightarrow> ptr list \<Rightarrow> ILRewriterWrapper \<Rightarrow> ptr list \<Rightarrow> bool" where
  "extends k w ps w' ps' \<longleftrightarrow>
     usable w' ps' \<and> subseq ps ps' \<and> unat (m_nInstrs (m_ILRewriter w')) \<le> unat (m_nInstrs (m_ILRewriter w)) + k \<and>
     (\<forall>q\<in>set ps. kept (heap (m_ILRewriter w) q) (heap (m_ILRewriter w') q)) \<and>
     same_header (m_ILRewriter w) (m_ILRewriter w')"

lemma extends_trans:
  assumes "extends k w ps w1 ps1" and "extends l w1 ps1 w2 ps2"
  shows "extends (k + l) w ps w2 ps2"
proof -
  have "set ps \<subseteq> set ps1" using assms(1) by (auto simp: extends_def elim: list_emb_set)
  moreover have "kept a b \<Longrightarrow> kept b c \<Longrightarrow> kept a c" for a b c by (auto simp: kept_def)
  ultimately have "kept (heap (m_ILRewriter w) q) (heap (m_ILRewriter w2) q)" if "q \<in> set ps" for q
    using assms that unfolding extends_def by blast
  moreover have "subseq ps ps2" "same_header (m_ILRewriter w) (m_ILRewriter w2)"
    using assms subseq_order.trans same_header_trans unfolding extends_def by blast+
  ultimately show ?thesis using assms by (simp add: extends_def)
qed

lemma extends_mono: "extends k w ps w' ps' \<Longrightarrow> k \<le> l \<Longrightarrow> extends l w ps w' ps'"
  by (auto simp: extends_def)

lemma linked_extends:
  assumes l: "linked (m_ILRewriter w) xs ys p i (m_ILRewriter w')" and w: "usable w (xs @ ys)"
    and pos: "m_ILInstr w' = m_ILInstr w" and k: "room (m_ILRewriter w) 1"
  shows "extends 1 w (xs @ ys) w' (xs @ p # ys)"
proof -
  have "subseq (xs @ ys) (xs @ p # ys)" by (intro list_emb_append_mono) auto
  moreover have "unat (m_nInstrs (m_ILRewriter w')) = unat (m_nInstrs (m_ILRewriter w)) + 1"
    using l k by (simp add: linked_def room_def unat_add32)
  moreover have "kept (heap (m_ILRewriter w) q) (heap (m_ILRewriter w') q)" if "q \<in> set (xs @ ys)" for q
    using l that by (auto simp: linked_def agree_def kept_def)
  ultimately show ?thesis
    using l w pos by (auto simp: extends_def usable_def linked_def)
qed

lemma insert_new_extends:
  assumes w: "usable w ps" and k: "room (m_ILRewriter w) 1" and f: "fits_list (m_ILRewriter w) ps f"
  shows "\<exists>ps'. extends 1 w ps (snd (insert_new f w)) ps'"
proof -
  obtain xs ys where ps: "ps = xs @ ys" and q: "right_of ys = m_ILInstr w"
    using w at_position [of "m_ILInstr w" ps] by (auto simp: usable_def)
  obtain p w' where i: "insert_new f w = (p, w')" by (cases "insert_new f w")
  note L = insert_new_linked [OF _ q f [unfolded ps] k i]
  have "rewritable (m_ILRewriter w) (xs @ ys)" using w ps by (simp add: usable_def)
  then show ?thesis using linked_extends [OF L(1) _ L(2) k] w ps i by auto
qed

lemma plain_extends: "usable w ps \<Longrightarrow> room (m_ILRewriter w) 1 \<Longrightarrow> plain f \<Longrightarrow> \<exists>ps'. extends 1 w ps (snd (insert_new f w)) ps'"
  by (rule insert_new_extends) (simp_all add: fits_list_def)

lemma room_mono: "room s k \<Longrightarrow> l \<le> k \<Longrightarrow> room s l"
  by (simp add: room_def)

lemma room_extends: "extends k w ps w' ps' \<Longrightarrow> room (m_ILRewriter w) (k + l) \<Longrightarrow> room (m_ILRewriter w') l"
  by (auto simp: extends_def room_def)

lemma two_extends:
  assumes "usable w ps" and "room (m_ILRewriter w) 2" and "plain f" and "plain g"
  shows "\<exists>ps'. extends 2 w ps (snd (insert_new g (snd (insert_new f w)))) ps'"
proof -
  obtain ps1 where 1: "extends 1 w ps (snd (insert_new f w)) ps1"
    using plain_extends [OF assms(1) room_mono [OF assms(2)] assms(3)] by auto
  then have "room (m_ILRewriter (snd (insert_new f w))) 1" "usable (snd (insert_new f w)) ps1"
    using room_extends [OF 1, of 1] assms(2) by (simp_all add: extends_def numeral_2_eq_2)
  from plain_extends [OF this(2,1) assms(4)] show ?thesis
    using extends_trans [OF 1, of 1] by (auto simp: numeral_2_eq_2)
qed

lemma usable_ring: "usable w ps \<Longrightarrow> ring (m_ILRewriter w) ps"
  by (simp add: usable_def rewritable_def exportable_def)

lemma ring_unique:
  assumes "ring s ps" and "ring s qs"
  shows "ps = qs"
proof -
  have "follows h q ps \<Longrightarrow> follows h q qs \<Longrightarrow> il_head \<notin> set ps \<Longrightarrow> il_head \<notin> set qs \<Longrightarrow> ps = qs" for h q
  proof (induction h q ps arbitrary: qs rule: follows.induct)
    case (1 h q)
    then show ?case by (cases qs) auto
  next
    case (2 h q p ps)
    then show ?case by (cases qs) auto
  qed
  then show ?thesis using assms ring_follows by (auto simp: ring_def)
qed

lemma extends_same:
  assumes "usable w ps" and "m_ILRewriter w' = m_ILRewriter w" and "m_ILInstr w' \<in> set (il_head # ps)"
  shows "extends 0 w ps w' ps"
  using assms by (simp add: extends_def usable_def kept_def)

lemma unbox_after_extends:
  assumes w: "usable w ps" and k: "room (m_ILRewriter w) 1"
  shows "\<exists>ps'. extends 1 w ps (UnboxAnyAfter token w) ps'"
proof -
  let ?f = "\<lambda>i. set_Arg32 token (set_opcode CEE_UNBOX_ANY i)"
  obtain xs ys where ps: "ps = xs @ ys" and q: "left_of xs = m_ILInstr w"
    using w behind_position [of "m_ILInstr w" ps] by (auto simp: usable_def)
  obtain p s1 where n: "NewILInstr (m_ILRewriter w) = (p, s1)" by (cases "NewILInstr (m_ILRewriter w)")
  have w': "UnboxAnyAfter token w = w \<lparr>m_ILRewriter := InsertAfter (left_of xs) p (upd p ?f s1)\<rparr>"
    by (simp add: UnboxAnyAfter_def n Let_def q del: last.simps)
  have "plain ?f" by (rule plain_opcode) simp_all
  then have "fits_list (m_ILRewriter w) (xs @ ys) ?f" by (simp add: fits_list_def)
  moreover have "rewritable (m_ILRewriter w) (xs @ ys)" using w ps by (simp add: usable_def)
  ultimately have "linked (m_ILRewriter w) xs ys p (?f zero_instr) (m_ILRewriter (UnboxAnyAfter token w))"
    using linked_new [OF _ n _ k disjI2 [OF refl]] by (simp add: w' del: last.simps)
  from linked_extends [OF this] w k ps show ?thesis by (auto simp: w')
qed

lemma upd_arg_insert:
  assumes "p \<noteq> q"
  shows "upd p (set_pTarget t) (InsertBefore q p (upd p f s)) = InsertBefore q p (upd p (\<lambda>i. set_pTarget t (f i)) s)"
  using assms
  by (auto simp: InsertBefore_def upd_def AdjustState_def Let_def fun_eq_iff set_pTarget_def)

lemma branch_extends:
  assumes w: "usable w ps" and k: "room (m_ILRewriter w) 1" and op: "opCode < CEE_COUNT"
    and t: "t = il_head \<or> t \<in> set ps \<and> m_opcode (heap (m_ILRewriter w) t) \<noteq> CEE_SWITCH_ARG"
    and c: "CreateInstr opCode w = (p, w')"
  shows "\<exists>ps'. extends 1 w ps (w' \<lparr>m_ILRewriter := upd p (set_pTarget t) (m_ILRewriter w')\<rparr>) ps'"
proof -
  let ?f = "\<lambda>i. set_pTarget t (set_opcode opCode i)"
  obtain s1 where n: "NewILInstr (m_ILRewriter w) = (p, s1)"
    and w': "w' = w \<lparr>m_ILRewriter := InsertBefore (m_ILInstr w) p (upd p (set_opcode opCode) s1)\<rparr>"
    using c by (auto simp: CreateInstr_def insert_new_def Let_def split: prod.splits)
  have "unlinked s1 ps p" using NewILInstr_unlinked(2) [OF usable_ring [OF w] n] .
  then have "p \<noteq> m_ILInstr w" using w by (auto simp: unlinked_def usable_def)
  then have "w' \<lparr>m_ILRewriter := upd p (set_pTarget t) (m_ILRewriter w')\<rparr> = snd (insert_new ?f w)"
    by (simp add: w' insert_new_def n Let_def upd_arg_insert)
  moreover have "branch_to t ?f"
    using op by (simp add: branch_to_def known_opcode_def) (simp add: set_pTarget_def)
  then have "fits_list (m_ILRewriter w) ps ?f" using t by (auto simp: fits_list_def)
  ultimately show ?thesis using insert_new_extends [OF w k] by simp
qed

lemma replace_extends:
  assumes w: "usable w ps" and r: "ReplaceMethodCalls a b w = Some (Ok (m, w'))"
  shows "extends 0 w ps w' ps"
proof -
  let ?s = "m_ILRewriter w" and ?h = "redirect a b ps (heap (m_ILRewriter w))"
  have w': "w' = w \<lparr>m_ILRewriter := ?s \<lparr>heap := ?h\<rparr>\<rparr>"
    using r ReplaceMethodCalls_list [OF usable_ring [OF w]] by simp
  note W = w [unfolded usable_def rewritable_def exportable_def]
  have links: "m_pNext (?h q) = m_pNext (heap ?s q)" "m_pPrev (?h q) = m_pPrev (heap ?s q)" for q
    by (simp_all add: redirect_def)
  have ring: "ring (?s \<lparr>heap := ?h\<rparr>) ps"
    using W ring_frame [of "?s \<lparr>heap := ?h\<rparr>" ?s ps] links by simp
  have k: "kept (heap ?s q) (?h q)" for q by (auto simp: redirect_def kept_def calls_def)
  have call: "unat (0x28 :: u32) < 296" "unat (0x6F :: u32) < 296" by simp_all
  have nt: "\<not> has_target 0x28" "\<not> has_target 0x6F"
    using op_flags_eq [OF call(1)] op_flags_eq [OF call(2)] call by (simp_all add: has_target_eq)
  have known: "known_opcode (m_opcode (?h q))" if "q \<in> set ps" for q
    using W that by (auto simp: redirect_def known_opcode_def)
  have tgt: "has_target (m_opcode (?h q)) \<Longrightarrow> has_target (m_opcode (heap ?s q)) \<and> m_arg (?h q) = m_arg (heap ?s q)"
    "m_opcode (heap ?s q) \<noteq> CEE_SWITCH_ARG \<Longrightarrow> m_opcode (?h q) \<noteq> CEE_SWITCH_ARG" for q
    using nt by (auto simp: redirect_def)
  have pt: "points_into (heap ?s) ps" using W by blast
  have "points_into ?h ps" unfolding points_into_def
  proof (intro ballI impI)
    fix q assume q: "q \<in> set ps" "has_target (m_opcode (?h q))"
    then obtain t where "m_arg (heap ?s q) = Target t"
      "t = il_head \<or> t \<in> set ps \<and> m_opcode (heap ?s t) \<noteq> CEE_SWITCH_ARG"
      using pt tgt(1) unfolding points_into_def by blast
    then show "\<exists>t. m_arg (?h q) = Target t \<and>
        (t = il_head \<or> t \<in> set ps \<and> m_opcode (?h t) \<noteq> CEE_SWITCH_ARG)"
      using tgt(1) [OF q(2)] tgt(2) [of t] by auto
  qed
  moreover have "readable (?s \<lparr>heap := ?h\<rparr>)"
    using W by (cases "m_pEH ?s") (simp_all add: readable_def eh_clauses_def)
  ultimately have "usable w' ps"
    using W ring known by (simp add: usable_def rewritable_def exportable_def w')
  then show ?thesis using k by (simp add: extends_def w' same_header_def)
qed

lemma extends_two: "\<exists>ps'. extends 1 w ps w' ps' \<Longrightarrow> \<exists>ps'. extends 2 w ps w' ps'"
  using extends_mono [of 1 w ps w' _ 2] by auto

lemma plain_step:
  assumes "usable w ps" and "room (m_ILRewriter w) 2" and "plain f"
  shows "\<exists>ps'. extends 2 w ps (snd (insert_new f w)) ps'"
  using plain_extends [OF assms(1) room_mono [OF assms(2)] assms(3)] by (intro extends_two) simp

lemmas plain_insertions = plain_opcode plain_indexed plain_int32

lemma step_extends:
  assumes "step w w'" and "usable w ps" and "room (m_ILRewriter w) 2"
  shows "\<exists>ps'. extends 2 w ps w' ps'"
  using assms
proof (induction rule: step.induct)
  case (position w ps0 p)
  then have "ps0 = ps" using ring_unique usable_ring by blast
  then have "extends 0 w ps (SetILPosition p w) ps"
    using position by (intro extends_same) (simp_all add: SetILPosition_def)
  then show ?case using extends_mono by blast
next
  case (unbox_after w token)
  have "room (m_ILRewriter w) 1" using room_mono [OF unbox_after(2), of 1] by simp
  from extends_two [OF unbox_after_extends [OF unbox_after(1) this]] show ?case .
next
  case (array w token v)
  then show ?case
    using two_extends [OF array(1,2) plain_int32 plain_opcode(2)]
    by (simp add: CreateArray_def LoadInt32_def)
next
  case (array_begin w v)
  then show ?case
    using two_extends [OF array_begin(1,2) plain_opcode(1) plain_int32]
    by (simp add: BeginLoadValueIntoArray_def Duplicate_def LoadInt32_def)
next
  case (replace_calls a b w m w')
  then show ?case using replace_extends extends_mono by blast
next
  case (branch opCode w ps0 t p w')
  then have "ps0 = ps" using ring_unique usable_ring by blast
  have t: "t = il_head \<or> t \<in> set ps \<and> m_opcode (heap (m_ILRewriter w) t) \<noteq> CEE_SWITCH_ARG"
    using branch(3) \<open>ps0 = ps\<close> by blast
  have "room (m_ILRewriter w) 1" using room_mono [OF branch(6), of 1] by simp
  from extends_two [OF branch_extends [OF branch(5) this branch(1) t branch(4)]] show ?case .
next
  case (call w token is_virtual)
  have "plain (\<lambda>i. set_Arg32 token (set_opcode (if is_virtual then CEE_CALLVIRT else CEE_CALL) i))"
    by (rule plain_opcode) simp_all
  from plain_step [OF call this] show ?case by (simp add: CallMember_def)
next
  case (local_address w v)
  have "plain (\<lambda>i. if v \<le> 255 then set_Arg8 (ucast v) (set_opcode CEE_LDLOCA_S i)
       else set_Arg16 (ucast v) (set_opcode CEE_LDLOCA i))"
    by (rule plain_intro [of _ "if v \<le> 255 then CEE_LDLOCA_S else CEE_LDLOCA"]; simp)
  from plain_step [OF local_address this] show ?case by (simp add: LoadLocalAddress_def)
next
  case (create opCode w)
  have "plain (set_opcode opCode)" using create by (simp add: plain_def known_opcode_def)
  from plain_step [OF create(3,4) this] show ?case by (simp add: CreateInstr_def)
qed (unfold Pop_def LoadNull_def LoadInt64_def LoadInt32_def LoadArgument_def Cast_def Box_def UnboxAny_def
  Duplicate_def EndLoadValueIntoArray_def LoadToken_def LoadObj_def StLocal_def LoadLocal_def Return_def
  Rethrow_def EndFinally_def NOP_def InitObj_def, (rule plain_step, assumption, assumption, rule plain_insertions; simp)+)

section \<open>Properties of the instrumentation\<close>

lemma steps_extends:
  assumes "(step ^^ n) w w'" and "usable w ps" and "room (m_ILRewriter w) (2 * n)"
  shows "\<exists>ps'. extends (2 * n) w ps w' ps'"
  using assms
proof (induction n arbitrary: w')
  case 0
  then show ?case using extends_same [of w ps w] by (auto simp: usable_def)
next
  case (Suc n)
  then obtain w1 where w1: "(step ^^ n) w w1" and s: "step w1 w'" by auto
  obtain ps1 where e: "extends (2 * n) w ps w1 ps1"
    using Suc.IH [OF w1 Suc.prems(2) room_mono [OF Suc.prems(3)]] by auto
  have "room (m_ILRewriter w1) 2" using room_extends [OF e, of 2] Suc.prems(3) by simp
  moreover have "usable w1 ps1" using e by (simp add: extends_def)
  ultimately obtain ps2 where "extends 2 w1 ps1 w' ps2" using step_extends [OF s] by blast
  from extends_trans [OF e this] show ?case by auto
qed

text \<open>
  C12: Any sequence of at most \<open>n\<close> wrapper operations, with positions and branch targets taken
  from the list, keeps the list exportable: its links form a ring, its branches point into it,
  the original instructions stay in order, and each keeps its opcode and operand unless it is a
  call that was replaced.
\<close>

theorem instrumentation_invariant:
  assumes "(step ^^ n) w w'" and "usable w ps" and "room (m_ILRewriter w) (2 * n)"
  shows "\<exists>ps'. usable w' ps' \<and> subseq ps ps' \<and>
    (\<forall>q\<in>set ps. kept (heap (m_ILRewriter w) q) (heap (m_ILRewriter w') q)) \<and>
    same_header (m_ILRewriter w) (m_ILRewriter w')"
  using steps_extends [OF assms] unfolding extends_def by blast

text \<open>
  C4: The whole pipeline: a method body is imported, instrumented by any sequence of wrapper
  operations and exported. The body handed to the CLR decodes to code that the instrumented
  list spells with every branch at its instruction; the original instructions are in it in
  their order, with their operands, their opcodes at most replaced by the long form of the same
  branch or by \<^verbatim>\<open>call\<close>; and the locals token and flags are the original ones.
\<close>

theorem instrumented_method:
  assumes "GetILFunctionBody ci = Inr (body, aligned)" and "d = DecoderInit body aligned"
    and "Import ci (new_ILRewriter mem) = Some (Ok s)"
    and "(step ^^ n) (SetILPosition il_head (new_ILRewriterWrapper s)) w"
    and "10 * (unat (dec_CodeSize d) + 2 * n) + 2 ^ 25 < 2 ^ 32"
    and "Export ci' mem' (GetILRewriter w) = Some (Ok (s', totalSize, out))"
  shows "\<exists>ps ps'. holds s ps body d \<and> subseq ps ps' \<and>
    spells s' ps' (code_of (nth out) (DecoderInit (nth out) True)) \<and>
    (\<forall>q\<in>set ps. \<exists>i. kept (heap s q) i \<and> m_arg (heap s' q) = m_arg i \<and>
       same_or_long (m_opcode i) (m_opcode (heap s' q))) \<and>
    dec_LocalVarSigTok (DecoderInit (nth out) True) = dec_LocalVarSigTok d \<and>
    dec_Flags (DecoderInit (nth out) True) AND 0x10 = dec_Flags d AND 0x10"
proof -
  have big: "unat (dec_CodeSize d) + 8 < 2 ^ 32" and small: "10 * unat (dec_CodeSize d) + 2 ^ 25 < 2 ^ 32"
    using assms(5) by simp_all
  obtain ps where h: "holds s ps body d" using Import_holds [OF assms(1,2) big assms(3)] by blast
  note X = holds_exportable [OF h small]
  let ?w0 = "SetILPosition il_head (new_ILRewriterWrapper s)"
  have u: "usable ?w0 ps"
    using h X by (simp add: usable_def rewritable_def SetILPosition_def new_ILRewriterWrapper_def holds_def spells_def)
  have sp: "spells s ps (code_of body d)" using h by (simp add: holds_def)
  have "unat (m_nInstrs s) \<le> unat (dec_CodeSize d)"
    using h spells_length [OF sp] X(3) small by (simp add: holds_def unat_of_nat_small)
  then have "room (m_ILRewriter ?w0) (2 * n)"
    using assms(5) by (simp add: room_def SetILPosition_def new_ILRewriterWrapper_def)
  then obtain ps' where e: "extends (2 * n) ?w0 ps w ps'" using steps_extends [OF assms(4) u] by blast
  let ?t = "m_ILRewriter w"
  have R: "exportable ?t ps'" "points_into (heap ?t) ps'" "readable ?t" "subseq ps ps'"
    "same_header s ?t" "\<And>q. q \<in> set ps \<Longrightarrow> kept (heap s q) (heap ?t q)"
    using e by (auto simp: extends_def usable_def rewritable_def SetILPosition_def new_ILRewriterWrapper_def)
  obtain t' where t': "Export ci' mem' ?t = Some (finish ci' mem' (of_nat (code_len (heap t') ps')) t')"
    and x: "exported (max_code ?t) t' ps'" and rel: "relaxed (heap ?t) (heap t')"
    and fr: "t' = ?t \<lparr>heap := heap t', m_pOutputBuffer := m_pOutputBuffer t'\<rparr>"
    using Export_exported [OF R(1)] by blast
  let ?n = "of_nat (code_len (heap t') ps') :: u32"
  note Z = exported_size [OF R(1) x]
  have hdr: "readable t'" "\<not> m_fGenerateTinyHeader t'" "m_tkLocalVarSig t' = dec_LocalVarSigTok d"
    "m_flags t' = dec_Flags d AND 0x10"
    using R(3,5) h by (subst fr, simp add: readable_def same_header_def holds_def)+
  have out: "out = fat_body mem' ?n t'" "s' = t'"
    using assms(6) hdr(2) unfolding GetILRewriter_def t' by (auto simp: finish_def)
  have n: "unat ?n \<le> length (m_pOutputBuffer t')" "unat ?n + 2 ^ 25 < 2 ^ 32" using Z by simp_all
  note D = decode_fat [OF hdr(1) n refl refl, of mem']
  have "\<forall>p\<in>set ps'. known_opcode (m_opcode (heap ?t p))" using R(1) by (simp add: exportable_def)
  then have "spells t' ps' (take (code_len (heap t') ps') (m_pOutputBuffer t'))"
    using exported_spells [OF x relaxed_points_into [OF rel R(2)]] by blast
  then have "spells s' ps' (code_of (nth out) (DecoderInit (nth out) True))"
    using D(1) Z(1) by (simp add: out)
  moreover have "dec_LocalVarSigTok (DecoderInit (nth out) True) = dec_LocalVarSigTok d"
    "dec_Flags (DecoderInit (nth out) True) AND 0x10 = dec_Flags d AND 0x10"
    using D(4,5) hdr by (simp_all add: out and.assoc)
  moreover have "\<exists>i. kept (heap s q) i \<and> m_arg (heap s' q) = m_arg i \<and>
       same_or_long (m_opcode i) (m_opcode (heap s' q))" if "q \<in> set ps" for q
    using R(6) [OF that] rel unfolding out relaxed_def by blast
  ultimately show ?thesis using h R(4) by blast
qed


text \<open>
  C34: Replacing method calls ends, redirects exactly the calls of the old method to a direct
  call of the new one, leaves every other instruction and the layout of the code as they were,
  and reports whether there was one.
\<close>

theorem ReplaceMethodCalls_exact:
  assumes "usable w ps"
  shows "\<exists>w'. ReplaceMethodCalls a b w = Some (Ok (\<exists>p\<in>set ps. calls a (heap (m_ILRewriter w) p), w')) \<and>
    usable w' ps \<and> m_ILInstr w' = m_ILInstr w \<and>
    (\<forall>p. heap (m_ILRewriter w') p =
       (if p \<in> set ps \<and> calls a (heap (m_ILRewriter w) p)
        then set_Arg32 b (set_opcode CEE_CALL (heap (m_ILRewriter w) p)) else heap (m_ILRewriter w) p)) \<and>
    code_len (heap (m_ILRewriter w')) ps = code_len (heap (m_ILRewriter w)) ps"
proof -
  note R = ReplaceMethodCalls_list [OF usable_ring [OF assms], of a b]
  let ?h = "redirect a b ps (heap (m_ILRewriter w))"
  let ?w = "w \<lparr>m_ILRewriter := (m_ILRewriter w) \<lparr>heap := ?h\<rparr>\<rparr>"
  have "usable ?w ps" using replace_extends [OF assms R] by (simp add: extends_def)
  moreover have call: "unat (0x28 :: u32) < 296" "unat (0x6F :: u32) < 296" by simp_all
  have "op_flags 0x28 = op_flags 0x6F" by code_simp
  then have "instr_size 0x28 = instr_size 0x6F" by (simp add: instr_size_def)
  then have "instr_size (m_opcode (?h q)) = instr_size (m_opcode (heap (m_ILRewriter w) q))" for q
    by (auto simp: redirect_def calls_def)
  then have "code_len ?h ps = code_len (heap (m_ILRewriter w)) ps" by (simp add: code_len_def)
  ultimately show ?thesis
    using R by (intro exI [of _ ?w]) (simp add: redirect_def)
qed

section \<open>A concrete instrumentation\<close>

lemma sample_usable:
  "\<exists>s ps. Import sample_clr (new_ILRewriter blank_memory) = Some (Ok s) \<and>
    holds s ps sample_body (DecoderInit sample_body False) \<and>
    usable (SetILPosition il_head (new_ILRewriterWrapper s)) ps \<and> room s 100"
proof -
  obtain s ps where s: "Import sample_clr (new_ILRewriter blank_memory) = Some (Ok s)"
    and h: "holds s ps sample_body (DecoderInit sample_body False)"
    and x: "exportable s ps" "readable s" "points_into (heap s) ps"
    using sample_ready by blast
  have "spells s ps (code_of sample_body (DecoderInit sample_body False))" using h by (simp add: holds_def)
  from spells_length [OF this] have "length ps \<le> 2" by (simp add: code_of_def sample_decoder)
  then have "unat (m_nInstrs s) \<le> 2" using h by (simp add: holds_def unat_of_nat_small)
  then have "room s 100" by (simp add: room_def)
  moreover have "usable (SetILPosition il_head (new_ILRewriterWrapper s)) ps"
    using x by (simp add: usable_def rewritable_def SetILPosition_def new_ILRewriterWrapper_def)
  ultimately show ?thesis using s h by blast
qed

lemma instrumentation_invariant_witness:
  "\<exists>w ps ps'. usable w ps \<and> usable (LoadInt32 7 (Pop w)) ps' \<and> subseq ps ps'"
proof -
  obtain s ps where u: "usable (SetILPosition il_head (new_ILRewriterWrapper s)) ps" and r: "room s 100"
    using sample_usable by blast
  let ?w = "SetILPosition il_head (new_ILRewriterWrapper s)"
  have "(step ^^ 2) ?w (LoadInt32 7 (Pop ?w))"
    using step.pop step.int32 by (auto simp: numeral_2_eq_2)
  moreover have "room (m_ILRewriter ?w) (2 * 2)"
    using r by (simp add: room_def SetILPosition_def new_ILRewriterWrapper_def)
  ultimately show ?thesis using instrumentation_invariant [OF _ u] u by blast
qed

lemma instrumented_method_witness:
  "\<exists>s' ps' out. spells s' ps' (code_of (nth out) (DecoderInit (nth out) True)) \<and>
    dec_LocalVarSigTok (DecoderInit (nth out) True) = 0"
proof -
  obtain s ps where s: "Import sample_clr (new_ILRewriter blank_memory) = Some (Ok s)"
    and u: "usable (SetILPosition il_head (new_ILRewriterWrapper s)) ps" and r: "room s 100"
    and h: "holds s ps sample_body (DecoderInit sample_body False)"
    using sample_usable by blast
  let ?w = "SetILPosition il_head (new_ILRewriterWrapper s)"
  have st: "(step ^^ 1) ?w (Pop ?w)" by (simp only: relpowp_1) (rule step.pop)
  have room: "room (m_ILRewriter ?w) (2 * 1)"
    using r by (simp add: room_def SetILPosition_def new_ILRewriterWrapper_def)
  obtain ps' where e: "extends (2 * 1) ?w ps (Pop ?w) ps'" using steps_extends [OF st u room] by blast
  then have x: "exportable (m_ILRewriter (Pop ?w)) ps'" "\<not> m_fGenerateTinyHeader (m_ILRewriter (Pop ?w))"
    using h by (simp_all add: extends_def usable_def rewritable_def same_header_def holds_def
        SetILPosition_def new_ILRewriterWrapper_def)
  have "submit sample_clr n out t = Ok (t, n, out)" for n out t
    by (simp add: submit_def AllocateILMemory_def SetILFunctionBody_def sample_clr_def Let_def)
  moreover obtain t where "Export sample_clr (\<lambda>_. 0) (m_ILRewriter (Pop ?w)) =
      Some (finish sample_clr (\<lambda>_. 0) (of_nat (code_len (heap t) ps')) t)"
    and fr: "t = (m_ILRewriter (Pop ?w)) \<lparr>heap := heap t, m_pOutputBuffer := m_pOutputBuffer t\<rparr>"
    using Export_exported [OF x(1)] by blast
  moreover have "\<not> m_fGenerateTinyHeader t" using x(2) by (subst fr) simp
  ultimately obtain s' n out where "Export sample_clr (\<lambda>_. 0) (GetILRewriter (Pop ?w)) = Some (Ok (s', n, out))"
    by (auto simp: finish_def GetILRewriter_def)
  moreover have "GetILFunctionBody sample_clr = Inr (sample_body, False)" by (simp add: sample_clr_def)
  moreover have "10 * (unat (dec_CodeSize (DecoderInit sample_body False)) + 2 * 1) + 2 ^ 25 < 2 ^ 32"
    "dec_LocalVarSigTok (DecoderInit sample_body False) = 0" by (simp_all add: sample_decoder)
  ultimately show ?thesis using instrumented_method [OF _ refl s st] by metis
qed


lemma ReplaceMethodCalls_exact_witness:
  "\<exists>w w' m ps. ReplaceMethodCalls 1 2 w = Some (Ok (m, w')) \<and> usable w' ps"
  using sample_usable ReplaceMethodCalls_exact [of _ _ 1 2] by blast

end
