(* ===== verification/ModuleMetadata.thy ===== *)
theory ModuleMetadata
  imports ClrInfo
begin

text \<open>
  The per-module state of \<^verbatim>\<open>module_metadata.h\<close>: the references the profiler has emitted into a
  module, by the keys of the integrations, the keys it failed for, and the integrations of the
  module. Each table is a pointer that stays null until the first insertion.
\<close>

record AssemblyProperty =
  ppbPublicKey :: "bytes option"
  pulHashAlgId :: u32
  pMetaData :: ASSEMBLYMETADATA
  szName :: wstring
  assemblyFlags :: u32

type_synonym GUID = "u32 \<times> u16 \<times> u16 \<times> bytes"

record ModuleMetadata =
  wrapper_refs :: "(wstring \<rightharpoonup> mdToken) option"
  wrapper_parent_type :: "(wstring \<rightharpoonup> mdToken) option"
  failed_wrapper_keys :: "wstring set option"
  mm_integrations :: "IntegrationMethod list option"
  metadata_import :: MetaDataImport
  assembly_import :: AssemblyImport
  mm_assemblyName :: wstring
  mm_app_domain_id :: u64
  module_version_id :: GUID
  corAssemblyProperty :: "AssemblyProperty option"

definition new_ModuleMetadata ::
  "MetaDataImport \<Rightarrow> AssemblyImport \<Rightarrow> wstring \<Rightarrow> u64 \<Rightarrow> AssemblyProperty option \<Rightarrow> ModuleMetadata" where
  "new_ModuleMetadata import_m import_a a_name domain corProperty =
     \<lparr>wrapper_refs = None, wrapper_parent_type = None, failed_wrapper_keys = None, mm_integrations = None,
      metadata_import = import_m, assembly_import = import_a, mm_assemblyName = a_name,
      mm_app_domain_id = domain, module_version_id = (0, 0, 0, replicate 8 0), corAssemblyProperty = corProperty\<rparr>"

definition new_ModuleMetadata_integrations ::
  "MetaDataImport \<Rightarrow> AssemblyImport \<Rightarrow> wstring \<Rightarrow> u64 \<Rightarrow> GUID \<Rightarrow> IntegrationMethod list \<Rightarrow>
   AssemblyProperty option \<Rightarrow> ModuleMetadata" where
  "new_ModuleMetadata_integrations import_m import_a a_name domain guid ms corProperty =
     (new_ModuleMetadata import_m import_a a_name domain corProperty)
       \<lparr>module_version_id := guid, mm_integrations := Some ms\<rparr>"

section \<open>The tables of references\<close>

text \<open>A lookup in a table that may not exist yet; \<open>None\<close> is the answer \<^verbatim>\<open>false\<close>.\<close>

definition TryGetWrapperMemberRef :: "ModuleMetadata \<Rightarrow> wstring \<Rightarrow> mdToken option" where
  "TryGetWrapperMemberRef self keyIn = (case wrapper_refs self of None \<Rightarrow> None | Some refs \<Rightarrow> refs keyIn)"

definition TryGetWrapperParentTypeRef :: "ModuleMetadata \<Rightarrow> wstring \<Rightarrow> mdToken option" where
  "TryGetWrapperParentTypeRef self keyIn =
     (case wrapper_parent_type self of None \<Rightarrow> None | Some refs \<Rightarrow> refs keyIn)"

definition IsFailedWrapperMemberKey :: "ModuleMetadata \<Rightarrow> wstring \<Rightarrow> bool" where
  "IsFailedWrapperMemberKey self key = (case failed_wrapper_keys self of None \<Rightarrow> False | Some keys \<Rightarrow> key \<in> keys)"

definition SetWrapperMemberRef :: "ModuleMetadata \<Rightarrow> wstring \<Rightarrow> mdToken \<Rightarrow> ModuleMetadata" where
  "SetWrapperMemberRef self keyIn valueIn =
     (let refs = (case wrapper_refs self of None \<Rightarrow> Map.empty | Some refs \<Rightarrow> refs)
      in self \<lparr>wrapper_refs := Some (refs(keyIn \<mapsto> valueIn))\<rparr>)"

definition SetWrapperParentTypeRef :: "ModuleMetadata \<Rightarrow> wstring \<Rightarrow> mdToken \<Rightarrow> ModuleMetadata" where
  "SetWrapperParentTypeRef self keyIn valueIn =
     (let refs = (case wrapper_parent_type self of None \<Rightarrow> Map.empty | Some refs \<Rightarrow> refs)
      in self \<lparr>wrapper_parent_type := Some (refs(keyIn \<mapsto> valueIn))\<rparr>)"

definition SetFailedWrapperMemberKey :: "ModuleMetadata \<Rightarrow> wstring \<Rightarrow> ModuleMetadata" where
  "SetFailedWrapperMemberKey self key =
     (let keys = (case failed_wrapper_keys self of None \<Rightarrow> {} | Some keys \<Rightarrow> keys)
      in self \<lparr>failed_wrapper_keys := Some (insert key keys)\<rparr>)"

definition GetMethodReplacementsForCaller :: "ModuleMetadata \<Rightarrow> FunctionInfo \<Rightarrow> MethodReplacement list" where
  "GetMethodReplacementsForCaller self caller =
     (case mm_integrations self of None \<Rightarrow> []
      | Some ms \<Rightarrow> foldl (\<lambda>enabled i.
          if (type_name_of (caller_method (replacement i)) = [] \<or>
              type_name_of (caller_method (replacement i)) = info_name (fi_type caller)) \<and>
             (method_name (caller_method (replacement i)) = [] \<or>
              method_name (caller_method (replacement i)) = fi_name caller)
          then enabled @ [replacement i] else enabled) [] ms)"

text \<open>Each table is a map to its client, whatever the others hold.\<close>

interpretation member_refs: memo_map TryGetWrapperMemberRef SetWrapperMemberRef
  by unfold_locales (simp add: TryGetWrapperMemberRef_def SetWrapperMemberRef_def split: option.split)

interpretation parent_refs: memo_map TryGetWrapperParentTypeRef SetWrapperParentTypeRef
  by unfold_locales (simp add: TryGetWrapperParentTypeRef_def SetWrapperParentTypeRef_def split: option.split)

lemma failed_keys_frame:
  "IsFailedWrapperMemberKey (SetFailedWrapperMemberKey m k) k' \<longleftrightarrow> k' = k \<or> IsFailedWrapperMemberKey m k'"
  "TryGetWrapperMemberRef (SetFailedWrapperMemberKey m k) = TryGetWrapperMemberRef m"
  "TryGetWrapperParentTypeRef (SetFailedWrapperMemberKey m k) = TryGetWrapperParentTypeRef m"
  "IsFailedWrapperMemberKey (SetWrapperMemberRef m k v) = IsFailedWrapperMemberKey m"
  "IsFailedWrapperMemberKey (SetWrapperParentTypeRef m k v) = IsFailedWrapperMemberKey m"
  "TryGetWrapperParentTypeRef (SetWrapperMemberRef m k v) = TryGetWrapperParentTypeRef m"
  "TryGetWrapperMemberRef (SetWrapperParentTypeRef m k v) = TryGetWrapperMemberRef m"
  by (auto simp: fun_eq_iff IsFailedWrapperMemberKey_def SetFailedWrapperMemberKey_def TryGetWrapperMemberRef_def
      TryGetWrapperParentTypeRef_def SetWrapperMemberRef_def SetWrapperParentTypeRef_def Let_def
      split: option.splits)

section \<open>The replacements of a caller\<close>

text \<open>
  A module hands out the replacements of exactly those of its integrations whose caller is
  unrestricted or is the method at hand, by type and by method name, in the order of the
  integrations.
\<close>

theorem GetMethodReplacementsForCaller_exact:
  "GetMethodReplacementsForCaller (new_ModuleMetadata_integrations im ia nm domain g ms p) caller =
     map replacement (filter (\<lambda>i. let c = caller_method (replacement i) in
       (type_name_of c = [] \<or> type_name_of c = info_name (fi_type caller)) \<and>
       (method_name c = [] \<or> method_name c = fi_name caller)) ms)"
proof -
  have fold: "foldl (\<lambda>acc i. if Q i then acc @ [replacement i] else acc) acc ms =
      acc @ map replacement (filter Q ms)" for Q acc
    by (induction ms arbitrary: acc) auto
  show ?thesis
    by (simp add: GetMethodReplacementsForCaller_def new_ModuleMetadata_integrations_def fold Let_def)
qed

end
