(* ===== verification/RejitHandler.thy ===== *)
theory RejitHandler
  imports ModuleMetadata TypeNames "HOL-Library.AList"
begin

text \<open>
  The rejit handler (\<^verbatim>\<open>rejit_handler.cpp\<close>): the modules and methods whose bodies the profiler
  will replace, the queue of requests and the thread that serves it. Each public operation runs
  under the handler's locks and is one function on the state; an iteration of the thread's loop
  is another. An \<^verbatim>\<open>unordered_map\<close> is an association list, in some order of iteration;
  addresses are words with 0 as the null pointer. Three components of the state are outputs:
  the calls of \<^verbatim>\<open>RequestReJIT\<close> in their order, the promises that were given a value, and the
  calls of the rewriter.
\<close>

section \<open>The state\<close>

record RejitHandlerModuleMethod =
  m_methodDef :: mdToken
  m_pFunctionControl :: u64
  m_functionInfo :: "FunctionInfo option"
  m_methodReplacement :: "MethodReplacement option"
  m_method_ngenModules :: "u64 \<rightharpoonup> bool"

definition new_RejitHandlerModuleMethod :: "mdToken \<Rightarrow> RejitHandlerModuleMethod" where
  "new_RejitHandlerModuleMethod methodDef = \<lparr>m_methodDef = methodDef, m_pFunctionControl = 0,
     m_functionInfo = None, m_methodReplacement = None, m_method_ngenModules = Map.empty\<rparr>"

record RejitHandlerModule =
  m_moduleId :: u64
  m_metadata :: "ModuleMetadata option"
  m_methods :: "(mdToken \<times> RejitHandlerModuleMethod) list"

definition new_RejitHandlerModule :: "u64 \<Rightarrow> RejitHandlerModule" where
  "new_RejitHandlerModule mid = \<lparr>m_moduleId = mid, m_metadata = None, m_methods = []\<rparr>"

text \<open>
  The three ways a \<^verbatim>\<open>RejitItem\<close> is made: type -1 ends the thread, type 1 requests the rejit of
  methods, type 2 the analysis of modules, with the promise of its result.
\<close>

datatype RejitItem =
    EndRejitThread
  | RejitRequest "u64 list" "mdToken list"
  | ProcessRequest "u64 list" "IntegrationMethod list" "nat option"

record RejitHandler =
  m_shutdown :: bool
  m_modules :: "(u64 \<times> RejitHandlerModule) list"
  m_pCorAssemblyProperty :: "AssemblyProperty option"
  m_profilerInfo6 :: bool
  m_rejit_queue :: "RejitItem list"
  m_ngenModules :: "u64 list"
  thread_running :: bool
  rejit_requests :: "(u64 list \<times> mdToken list) list"
  promises :: "nat \<rightharpoonup> u32"
  rewritten :: "(RejitHandlerModule \<times> RejitHandlerModuleMethod) list"

text \<open>The constructors differ in the interface they get: whether it has the inliner queries.\<close>

definition new_RejitHandler :: "bool \<Rightarrow> RejitHandler" where
  "new_RejitHandler has_info6 = \<lparr>m_shutdown = False, m_modules = [], m_pCorAssemblyProperty = None,
     m_profilerInfo6 = has_info6, m_rejit_queue = [], m_ngenModules = [], thread_running = True,
     rejit_requests = [], promises = Map.empty, rewritten = []\<rparr>"

text \<open>
  What the handler asks the runtime: the metadata of a module, and the methods of a module that
  inline a given method, with the flag that says the answer is incomplete.
\<close>

record Runtime = CorProfilerInfo +
  GetModuleMetaData :: "u64 \<Rightarrow> hresult \<times> MetaDataImport \<times> AssemblyImport"
  EnumNgenModuleMethodsInliningThisMethod ::
    "u64 \<Rightarrow> u64 \<Rightarrow> mdToken \<Rightarrow> hresult \<times> bool \<times> (u64 \<times> mdToken) list"

section \<open>Queue\<close>

definition push :: "RejitItem \<Rightarrow> RejitHandler \<Rightarrow> RejitHandler" where
  "push item self = self \<lparr>m_rejit_queue := m_rejit_queue self @ [item]\<rparr>"

definition EnqueueForRejit :: "u64 list \<Rightarrow> mdToken list \<Rightarrow> RejitHandler \<Rightarrow> RejitHandler" where
  "EnqueueForRejit modulesVector modulesMethodDef self =
     (if m_shutdown self then self else push (RejitRequest modulesVector modulesMethodDef) self)"

definition EnqueueProcessModule ::
  "u64 list \<Rightarrow> IntegrationMethod list \<Rightarrow> nat option \<Rightarrow> RejitHandler \<Rightarrow> RejitHandler" where
  "EnqueueProcessModule modulesVector integrations promise self =
     (if m_shutdown self then
        (case promise of None \<Rightarrow> self | Some p \<Rightarrow> self \<lparr>promises := (promises self)(p \<mapsto> 0)\<rparr>)
      else push (ProcessRequest modulesVector integrations promise) self)"

section \<open>Inliners\<close>

text \<open>
  A loop over the values of a table that updates each in place and threads the handler: the
  handler changes by the queue only, so the table being iterated stays as it is.
\<close>

primrec for_values ::
  "('v \<Rightarrow> RejitHandler \<Rightarrow> 'v \<times> RejitHandler) \<Rightarrow> ('k \<times> 'v) list \<Rightarrow> RejitHandler \<Rightarrow> ('k \<times> 'v) list \<times> RejitHandler" where
  "for_values f [] h = ([], h)"
| "for_values f (e # es) h =
     (let (v, h) = f (snd e) h; (es, h) = for_values f es h in ((fst e, v) # es, h))"

definition method_RequestRejitForInlinersInModule ::
  "Runtime \<Rightarrow> u64 \<Rightarrow> u64 \<Rightarrow> RejitHandlerModuleMethod \<Rightarrow> RejitHandler \<Rightarrow> RejitHandlerModuleMethod \<times> RejitHandler" where
  "method_RequestRejitForInlinersInModule rt currentModuleId mid self handler =
     (if m_method_ngenModules self mid \<noteq> None then (self, handler)
      else if \<not> m_profilerInfo6 handler then (self, handler)
      else let (hr, incompleteData, inliners) =
             EnumNgenModuleMethodsInliningThisMethod rt mid currentModuleId (m_methodDef self)
        in if FAILED hr then (self, handler)
           else
             (if \<not> incompleteData
              then self \<lparr>m_method_ngenModules := (m_method_ngenModules self)(mid \<mapsto> True)\<rparr> else self,
              if length inliners > 0
              then EnqueueForRejit (map fst inliners) (map snd inliners) handler else handler))"

definition module_RequestRejitForInlinersInModule ::
  "Runtime \<Rightarrow> u64 \<Rightarrow> RejitHandlerModule \<Rightarrow> RejitHandler \<Rightarrow> RejitHandlerModule \<times> RejitHandler" where
  "module_RequestRejitForInlinersInModule rt mid self handler =
     (let (methods, handler) =
        for_values (method_RequestRejitForInlinersInModule rt (m_moduleId self) mid) (m_methods self) handler
      in (self \<lparr>m_methods := methods\<rparr>, handler))"

definition RequestRejitForInlinersInModule :: "Runtime \<Rightarrow> u64 \<Rightarrow> RejitHandler \<Rightarrow> RejitHandler" where
  "RequestRejitForInlinersInModule rt mid self =
     (if m_shutdown self then self
      else if m_profilerInfo6 self then
        let (modules, handler) = for_values (module_RequestRejitForInlinersInModule rt mid) (m_modules self) self
        in handler \<lparr>m_modules := modules\<rparr>
      else self)"

definition RequestRejitForNGenInliners :: "Runtime \<Rightarrow> RejitHandler \<Rightarrow> RejitHandler" where
  "RequestRejitForNGenInliners rt self =
     (if m_shutdown self then self
      else if m_profilerInfo6 self then fold (RequestRejitForInlinersInModule rt) (m_ngenModules self) self
      else self)"

definition RequestRejit :: "Runtime \<Rightarrow> u64 list \<Rightarrow> mdToken list \<Rightarrow> RejitHandler \<Rightarrow> RejitHandler" where
  "RequestRejit rt modulesVector modulesMethodDef self =
     (if m_shutdown self then self
      else if modulesVector \<noteq> [] then
        RequestRejitForNGenInliners rt
          (self \<lparr>rejit_requests := rejit_requests self @ [(modulesVector, modulesMethodDef)]\<rparr>)
      else self)"

section \<open>Modules and methods\<close>

text \<open>
  The pointer \<^verbatim>\<open>GetOrAddModule\<close> returns is the entry of the table; what is done through it is
  stored back with \<open>put_module\<close>.
\<close>

definition find_module :: "RejitHandler \<Rightarrow> u64 \<Rightarrow> RejitHandlerModule option" where
  "find_module self mid = map_of (m_modules self) mid"

definition put_module :: "RejitHandler \<Rightarrow> u64 \<Rightarrow> RejitHandlerModule \<Rightarrow> RejitHandler" where
  "put_module self mid m = self \<lparr>m_modules := AList.update mid m (m_modules self)\<rparr>"

definition GetOrAddModule :: "u64 \<Rightarrow> RejitHandler \<Rightarrow> RejitHandlerModule option \<times> RejitHandler" where
  "GetOrAddModule mid self =
     (if m_shutdown self then (None, self)
      else (case find_module self mid of
          Some m \<Rightarrow> (Some m, self)
        | None \<Rightarrow> let m = new_RejitHandlerModule mid in (Some m, put_module self mid m)))"

definition find_method :: "RejitHandlerModule \<Rightarrow> mdToken \<Rightarrow> RejitHandlerModuleMethod option" where
  "find_method self methodDef = map_of (m_methods self) methodDef"

definition put_method :: "RejitHandlerModule \<Rightarrow> mdToken \<Rightarrow> RejitHandlerModuleMethod \<Rightarrow> RejitHandlerModule" where
  "put_method self methodDef m = self \<lparr>m_methods := AList.update methodDef m (m_methods self)\<rparr>"

definition GetOrAddMethod :: "mdToken \<Rightarrow> RejitHandlerModule \<Rightarrow> RejitHandlerModuleMethod \<times> RejitHandlerModule" where
  "GetOrAddMethod methodDef self =
     (case find_method self methodDef of
        Some m \<Rightarrow> (m, self)
      | None \<Rightarrow> let m = new_RejitHandlerModuleMethod methodDef in (m, put_method self methodDef m))"

definition ContainsMethod :: "RejitHandlerModule \<Rightarrow> mdToken \<Rightarrow> bool" where
  "ContainsMethod self methodDef \<longleftrightarrow> find_method self methodDef \<noteq> None"

definition HasModuleAndMethod :: "u64 \<Rightarrow> mdToken \<Rightarrow> RejitHandler \<Rightarrow> bool" where
  "HasModuleAndMethod mid methodDef self =
     (if m_shutdown self then False
      else (case find_module self mid of Some m \<Rightarrow> ContainsMethod m methodDef | None \<Rightarrow> False))"

definition RemoveModule :: "u64 \<Rightarrow> RejitHandler \<Rightarrow> RejitHandler" where
  "RemoveModule mid self =
     (if m_shutdown self then self else self \<lparr>m_modules := AList.delete mid (m_modules self)\<rparr>)"

definition AddNGenModule :: "Runtime \<Rightarrow> u64 \<Rightarrow> RejitHandler \<Rightarrow> RejitHandler" where
  "AddNGenModule rt mid self =
     (if m_shutdown self then self
      else RequestRejitForInlinersInModule rt mid (self \<lparr>m_ngenModules := m_ngenModules self @ [mid]\<rparr>))"

definition SetCorAssemblyProfiler :: "AssemblyProperty \<Rightarrow> RejitHandler \<Rightarrow> RejitHandler" where
  "SetCorAssemblyProfiler p self = self \<lparr>m_pCorAssemblyProperty := Some p\<rparr>"


section \<open>Analysis of modules\<close>

definition calltarget_modification_action :: wstring where
  "calltarget_modification_action = WStr ''CallTargetModification''"

text \<open>
  The name \<^verbatim>\<open>GetTypeInfo\<close> finds for a token, read to a depth; and the name of an argument, read
  from its slice of the signature.
\<close>

definition token_name :: "nat \<Rightarrow> MetaDataImport \<Rightarrow> mdToken \<Rightarrow> wstring" where
  "token_name depth md tk = (case GetTypeInfo depth md tk of Done i \<Rightarrow> info_name i | _ \<Rightarrow> [])"

definition GetTypeTokName :: "(mdToken \<Rightarrow> wstring) \<Rightarrow> mem \<Rightarrow> FunctionMethodArgument \<Rightarrow> wstring outcome" where
  "GetTypeTokName tn pbBase self =
     obind (GetSigTypeTokName tn (GetSignature pbBase self)) (\<lambda>(tokenName, pbCur). Done tokenName)"

text \<open>The loop over the arguments; it ends at the first mismatch. The underscore matches any type.\<close>

fun arguments_match ::
  "(FunctionMethodArgument \<Rightarrow> wstring outcome) \<Rightarrow> FunctionMethodArgument list \<Rightarrow> wstring list \<Rightarrow> bool outcome" where
  "arguments_match arg_name methodArguments [] = Done True"
| "arguments_match arg_name [] (t # ts) = Overread"
| "arguments_match arg_name (a # as) (t # ts) =
     obind (arg_name a) (\<lambda>argumentTypeName.
       if argumentTypeName \<noteq> t \<and> t \<noteq> WStr ''_'' then Done False else arguments_match arg_name as ts)"

text \<open>
  The checks on one method: \<open>None\<close> where the loop goes on to the next, else the function
  information with its parsed signature.
\<close>

definition check_method ::
  "nat \<Rightarrow> MetaDataImport \<Rightarrow> IntegrationMethod \<Rightarrow> mdToken \<Rightarrow> FunctionInfo option outcome" where
  "check_method depth md integration methodDef =
     obind (GetFunctionInfo depth md methodDef) (\<lambda>caller.
       if \<not> FunctionInfo_IsValid caller then Done None
       else let (hr, parsed) = TryParse (fst (fi_blob caller)) (snd (fi_blob caller)) (fi_method_signature caller);
                functionInfo = caller \<lparr>fi_method_signature := parsed\<rparr>;
                types = signature_types (target_method (replacement integration))
         in if FAILED hr then Done None
            else if Suc (unat (numberOfArguments parsed)) \<noteq> length types then Done None
            else obind (arguments_match (GetTypeTokName (token_name depth md) (fst (fi_blob caller)))
                          (params_vec parsed) (tl types)) (\<lambda>same.
              if \<not> same then Done None else Done (Some functionInfo)))"

text \<open>
  What is stored for a method that passed; the two vectors of the request grow together and
  are one list of pairs. The answer is \<open>None\<close> where the source leaves the loop.
\<close>

type_synonym targets = "(u64 \<times> mdToken) list"

definition store_method ::
  "MetaDataImport \<Rightarrow> AssemblyImport \<Rightarrow> ModuleInfo \<Rightarrow> IntegrationMethod \<Rightarrow> mdToken \<Rightarrow> FunctionInfo \<Rightarrow>
   RejitHandler \<Rightarrow> RejitHandler option" where
  "store_method md ai moduleInfo integration methodDef functionInfo self =
     (case GetOrAddModule (module_id moduleInfo) self of
        (None, self) \<Rightarrow> None
      | (Some moduleHandler, self) \<Rightarrow>
          let moduleHandler = (if m_metadata moduleHandler = None
                then moduleHandler \<lparr>m_metadata := Some (new_ModuleMetadata md ai
                       (assembly_name (module_assembly moduleInfo)) (app_domain_id (module_assembly moduleInfo))
                       (m_pCorAssemblyProperty self))\<rparr>
                else moduleHandler);
              (methodHandler, moduleHandler) = GetOrAddMethod methodDef moduleHandler;
              methodHandler = (if m_functionInfo methodHandler = None
                then methodHandler \<lparr>m_functionInfo := Some functionInfo\<rparr> else methodHandler);
              methodHandler = (if m_methodReplacement methodHandler = None
                then methodHandler \<lparr>m_methodReplacement := Some (replacement integration)\<rparr> else methodHandler)
          in Some (put_module self (module_id moduleInfo) (put_method moduleHandler methodDef methodHandler)))"

text \<open>The loop over the methods of the target's name.\<close>

primrec process_methods ::
  "nat \<Rightarrow> MetaDataImport \<Rightarrow> AssemblyImport \<Rightarrow> ModuleInfo \<Rightarrow> IntegrationMethod \<Rightarrow> mdToken list \<Rightarrow>
   RejitHandler \<times> targets \<Rightarrow> (RejitHandler \<times> targets) outcome" where
  "process_methods depth md ai moduleInfo integration [] s = Done s"
| "process_methods depth md ai moduleInfo integration (methodDef # ds) s =
     obind (check_method depth md integration methodDef) (\<lambda>r.
       (case r of
          None \<Rightarrow> process_methods depth md ai moduleInfo integration ds s
        | Some functionInfo \<Rightarrow>
            (case store_method md ai moduleInfo integration methodDef functionInfo (fst s) of
               None \<Rightarrow> Done s
             | Some self \<Rightarrow> process_methods depth md ai moduleInfo integration ds
                 (self, snd s @ [(module_id moduleInfo, methodDef)]))))"

text \<open>
  The loop over the integrations; the metadata of the module is loaded at the first one that
  needs it, and a failure to load it leaves the loop.
\<close>

definition process_loaded ::
  "nat \<Rightarrow> ModuleInfo \<Rightarrow> IntegrationMethod \<Rightarrow> MetaDataImport \<Rightarrow> AssemblyImport \<Rightarrow> AssemblyMetadata \<Rightarrow>
   RejitHandler \<times> targets \<Rightarrow> (RejitHandler \<times> targets) outcome" where
  "process_loaded depth moduleInfo integration md ai assemblyMetadata s =
     (let target = target_method (replacement integration) in
      if version_greater (min_version target) (metadata_version assemblyMetadata) then Done s
      else if version_less (max_version target) (metadata_version assemblyMetadata) then Done s
      else (case FindTypeDefByName md (type_name_of target) of
          None \<Rightarrow> Done s
        | Some typeDef \<Rightarrow> process_methods depth md ai moduleInfo integration
            (enumerated (EnumMethodsWithName md typeDef (method_name target))) s))"

primrec process_integrations ::
  "Runtime \<Rightarrow> nat \<Rightarrow> ModuleInfo \<Rightarrow> IntegrationMethod list \<Rightarrow>
   (MetaDataImport \<times> AssemblyImport \<times> AssemblyMetadata) option \<Rightarrow>
   RejitHandler \<times> targets \<Rightarrow> (RejitHandler \<times> targets) outcome" where
  "process_integrations rt depth moduleInfo [] loaded s = Done s"
| "process_integrations rt depth moduleInfo (integration # is) loaded s =
     (if action (wrapper_method (replacement integration)) \<noteq> calltarget_modification_action then
        process_integrations rt depth moduleInfo is loaded s
      else if name (assembly (target_method (replacement integration))) \<noteq> assembly_name (module_assembly moduleInfo) then
        process_integrations rt depth moduleInfo is loaded s
      else (case (case loaded of
            Some l \<Rightarrow> Some l
          | None \<Rightarrow> let (hr, md, ai) = GetModuleMetaData rt (module_id moduleInfo) in
              if FAILED hr then None else Some (md, ai, GetAssemblyImportMetadata ai)) of
          None \<Rightarrow> Done s
        | Some (md, ai, assemblyMetadata) \<Rightarrow>
            obind (process_loaded depth moduleInfo integration md ai assemblyMetadata s)
              (process_integrations rt depth moduleInfo is (Some (md, ai, assemblyMetadata)))))"

primrec process_modules ::
  "Runtime \<Rightarrow> nat \<Rightarrow> IntegrationMethod list \<Rightarrow> u64 list \<Rightarrow> RejitHandler \<times> targets \<Rightarrow>
   (RejitHandler \<times> targets) outcome" where
  "process_modules rt depth integrations [] s = Done s"
| "process_modules rt depth integrations (m # ms) s =
     obind (process_integrations rt depth (GetModuleInfo rt m) integrations None s)
       (process_modules rt depth integrations ms)"

definition ProcessModuleForRejit ::
  "Runtime \<Rightarrow> nat \<Rightarrow> u64 list \<Rightarrow> IntegrationMethod list \<Rightarrow> bool \<Rightarrow> RejitHandler \<Rightarrow> (u32 \<times> RejitHandler) outcome" where
  "ProcessModuleForRejit rt depth modules integrations enqueueInSameThread self =
     (if m_shutdown self then Done (0, self)
      else obind (process_modules rt depth integrations modules (self, [])) (\<lambda>(self, vt).
        let rejitCount = of_nat (length vt) in
        Done (rejitCount,
          if rejitCount > 0 then
            (if enqueueInSameThread then RequestRejit rt (map fst vt) (map snd vt) self
             else EnqueueForRejit (map fst vt) (map snd vt) self)
          else self)))"

section \<open>The thread\<close>

text \<open>One iteration behind \<^verbatim>\<open>pop\<close>; the flag says whether the loop goes on.\<close>

definition process_item :: "Runtime \<Rightarrow> nat \<Rightarrow> RejitItem \<Rightarrow> RejitHandler \<Rightarrow> (bool \<times> RejitHandler) outcome" where
  "process_item rt depth item handler =
     (case item of
        EndRejitThread \<Rightarrow> Done (False, handler)
      | RejitRequest modulesId methodDefs \<Rightarrow>
          Done (True, if length modulesId > 0 \<and> length methodDefs > 0
                      then RequestRejit rt modulesId methodDefs handler else handler)
      | ProcessRequest modulesId methodsToAdd promise \<Rightarrow>
          if length modulesId > 0 \<and> length methodsToAdd > 0 then
            obind (ProcessModuleForRejit rt depth modulesId methodsToAdd True handler) (\<lambda>(rejitCount, handler).
              Done (True, (case promise of None \<Rightarrow> handler
                 | Some p \<Rightarrow> handler \<lparr>promises := (promises handler)(p \<mapsto> rejitCount)\<rparr>)))
          else Done (True, handler))"

text \<open>\<open>None\<close> is a thread that waits on an empty queue.\<close>

definition thread_round :: "Runtime \<Rightarrow> nat \<Rightarrow> RejitHandler \<Rightarrow> (bool \<times> RejitHandler) outcome option" where
  "thread_round rt depth handler =
     (case m_rejit_queue handler of [] \<Rightarrow> None
      | item # queue \<Rightarrow> Some (process_item rt depth item (handler \<lparr>m_rejit_queue := queue\<rparr>)))"

partial_function (option) EnqueueThreadLoop :: "Runtime \<Rightarrow> nat \<Rightarrow> RejitHandler \<Rightarrow> RejitHandler outcome option" where
  "EnqueueThreadLoop rt depth handler =
     (case thread_round rt depth handler of
        None \<Rightarrow> None
      | Some r \<Rightarrow> (case r of
            Done (goes_on, handler) \<Rightarrow>
              if goes_on then EnqueueThreadLoop rt depth handler
              else Some (Done (handler \<lparr>thread_running := False\<rparr>))
          | Reject \<Rightarrow> Some Reject
          | Overread \<Rightarrow> Some Overread
          | NoFuel \<Rightarrow> Some NoFuel))"

text \<open>\<^verbatim>\<open>Shutdown\<close> ends the thread, waits for it, and clears the handler.\<close>

definition clear_handler :: "RejitHandler \<Rightarrow> RejitHandler" where
  "clear_handler self = self \<lparr>m_shutdown := True, m_modules := [], m_profilerInfo6 := False\<rparr>"

definition Shutdown :: "Runtime \<Rightarrow> nat \<Rightarrow> RejitHandler \<Rightarrow> RejitHandler outcome option" where
  "Shutdown rt depth self =
     (let self = push EndRejitThread self in
      if thread_running self then
        map_option (\<lambda>r. obind r (\<lambda>self. Done (clear_handler self))) (EnqueueThreadLoop rt depth self)
      else Some (Done (clear_handler self)))"

section \<open>The callbacks of the runtime\<close>

abbreviation (input) mdMethodDefNil :: mdToken where "mdMethodDefNil \<equiv> 0x06000000"

definition NotifyReJITParameters ::
  "(RejitHandlerModule \<Rightarrow> RejitHandlerModuleMethod \<Rightarrow> hresult) \<Rightarrow> u64 \<Rightarrow> mdToken \<Rightarrow> u64 \<Rightarrow> RejitHandler \<Rightarrow>
   hresult \<times> RejitHandler" where
  "NotifyReJITParameters rewriteCallback mid methodId pFunctionControl self =
     (if m_shutdown self then (S_FALSE, self)
      else (case GetOrAddModule mid self of
          (None, self) \<Rightarrow> (S_FALSE, self)
        | (Some moduleHandler, self) \<Rightarrow>
            let (methodHandler, moduleHandler) = GetOrAddMethod methodId moduleHandler;
                methodHandler = methodHandler \<lparr>m_pFunctionControl := pFunctionControl\<rparr>;
                moduleHandler = put_method moduleHandler methodId methodHandler;
                self = put_module self mid moduleHandler
            in if m_methodDef methodHandler = mdMethodDefNil then (S_FALSE, self)
               else if m_pFunctionControl methodHandler = 0 then (S_FALSE, self)
               else if m_functionInfo methodHandler = None then (S_FALSE, self)
               else if m_methodReplacement methodHandler = None then (S_FALSE, self)
               else if m_moduleId moduleHandler = 0 then (S_FALSE, self)
               else if m_metadata moduleHandler = None then (S_FALSE, self)
               else (rewriteCallback moduleHandler methodHandler,
                     self \<lparr>rewritten := rewritten self @ [(moduleHandler, methodHandler)]\<rparr>)))"

definition NotifyReJITCompilationStarted :: "u64 \<Rightarrow> u64 \<Rightarrow> RejitHandler \<Rightarrow> hresult \<times> RejitHandler" where
  "NotifyReJITCompilationStarted functionId rejitId self = (S_OK, self)"


section \<open>Steps\<close>

text \<open>
  The steps of the handler: the public operations in any order, with any answers of the
  runtime, the rounds of the thread, and the two halves of \<^verbatim>\<open>Shutdown\<close>, which waits for
  the thread between them.
\<close>

inductive rejit_step :: "RejitHandler \<Rightarrow> RejitHandler \<Rightarrow> bool" where
  enqueue: "length ms = length ds \<Longrightarrow> rejit_step h (EnqueueForRejit ms ds h)"
| enqueue_process: "rejit_step h (EnqueueProcessModule ms ints p h)"
| get_module: "rejit_step h (snd (GetOrAddModule m h))"
| remove: "rejit_step h (RemoveModule m h)"
| add_ngen: "rejit_step h (AddNGenModule rt m h)"
| request_ngen: "rejit_step h (RequestRejitForNGenInliners rt h)"
| set_corlib: "rejit_step h (SetCorAssemblyProfiler prop h)"
| process: "ProcessModuleForRejit rt depth ms ints same_thread h = Done (n, h') \<Longrightarrow> rejit_step h h'"
| notify: "rejit_step h (snd (NotifyReJITParameters cb m d control h))"
| thread: "thread_running h \<Longrightarrow> thread_round rt depth h = Some (Done (goes_on, h')) \<Longrightarrow>
    rejit_step h (if goes_on then h' else h' \<lparr>thread_running := False\<rparr>)"
| shutdown_begin: "rejit_step h (push EndRejitThread h)"
| shutdown_end: "\<not> thread_running h \<Longrightarrow> rejit_step h (clear_handler h)"

inductive_cases rejit_step_cases: "rejit_step h h'"

abbreviation rejit_steps :: "RejitHandler \<Rightarrow> RejitHandler \<Rightarrow> bool" where
  "rejit_steps \<equiv> rejit_step\<^sup>*\<^sup>*"

section \<open>What the search for inliners changes\<close>

text \<open>It adds requests to the queue and marks of processed modules to the methods, no more.\<close>

definition request_of_pairs :: "RejitItem \<Rightarrow> bool" where
  "request_of_pairs item \<longleftrightarrow> (\<exists>ms ds. item = RejitRequest ms ds \<and> length ms = length ds \<and> ms \<noteq> [])"

definition same_keys :: "('v \<Rightarrow> 'v \<Rightarrow> bool) \<Rightarrow> ('k \<times> 'v) list \<Rightarrow> ('k \<times> 'v) list \<Rightarrow> bool" where
  "same_keys R xs ys \<longleftrightarrow> list_all2 (\<lambda>e e'. fst e = fst e' \<and> R (snd e) (snd e')) xs ys"

definition marks :: "RejitHandlerModuleMethod \<Rightarrow> RejitHandlerModuleMethod \<Rightarrow> bool" where
  "marks me me' \<longleftrightarrow> (\<exists>g. me' = me \<lparr>m_method_ngenModules := g\<rparr>)"

definition marked :: "RejitHandlerModule \<Rightarrow> RejitHandlerModule \<Rightarrow> bool" where
  "marked m m' \<longleftrightarrow> (\<exists>es. m' = m \<lparr>m_methods := es\<rparr> \<and> same_keys marks (m_methods m) es)"

definition queued :: "RejitHandler \<Rightarrow> RejitHandler \<Rightarrow> bool" where
  "queued h h' \<longleftrightarrow> (\<exists>q. h' = h \<lparr>m_rejit_queue := m_rejit_queue h @ q\<rparr> \<and> (\<forall>i\<in>set q. request_of_pairs i))"

definition searched :: "RejitHandler \<Rightarrow> RejitHandler \<Rightarrow> bool" where
  "searched h h' \<longleftrightarrow> (\<exists>mods. queued (h \<lparr>m_modules := mods\<rparr>) h' \<and> same_keys marked (m_modules h) mods)"

lemma same_keys_refl: "(\<And>v. R v v) \<Longrightarrow> same_keys R xs xs"
  by (simp add: same_keys_def list_all2_refl)

lemma same_keys_trans:
  "(\<And>u v w. R u v \<Longrightarrow> R v w \<Longrightarrow> R u w) \<Longrightarrow> same_keys R xs ys \<Longrightarrow> same_keys R ys zs \<Longrightarrow> same_keys R xs zs"
  unfolding same_keys_def by (rule list_all2_trans) auto

lemma same_keys_map: "same_keys R xs ys \<Longrightarrow> map fst ys = map fst xs"
  unfolding same_keys_def by (induction rule: list_all2_induct) auto

lemma same_keys_lookup:
  "same_keys R xs ys \<Longrightarrow> rel_option R (map_of xs k) (map_of ys k)"
  unfolding same_keys_def by (induction rule: list_all2_induct) auto

lemma same_keys_member:
  "same_keys R xs ys \<Longrightarrow> e' \<in> set ys \<Longrightarrow> \<exists>e\<in>set xs. fst e = fst e' \<and> R (snd e) (snd e')"
  unfolding same_keys_def by (induction rule: list_all2_induct) auto

lemma marks_refl: "marks me me"
  unfolding marks_def by (rule exI [of _ "m_method_ngenModules me"]) simp

lemma marks_trans: "marks a b \<Longrightarrow> marks b c \<Longrightarrow> marks a c"
  unfolding marks_def by force

lemma marked_refl: "marked m m"
  unfolding marked_def using same_keys_refl [of marks, OF marks_refl]
  by (intro exI [of _ "m_methods m"]) simp

lemma marked_trans: "marked a b \<Longrightarrow> marked b c \<Longrightarrow> marked a c"
  unfolding marked_def using same_keys_trans [of marks, OF marks_trans] by force

lemma queued_refl: "queued h h"
  unfolding queued_def by (rule exI [of _ "[]"]) simp

lemma queued_trans:
  assumes "queued a b" and "queued b c"
  shows "queued a c"
proof -
  from assms obtain q r where "b = a \<lparr>m_rejit_queue := m_rejit_queue a @ q\<rparr>" "\<forall>i\<in>set q. request_of_pairs i"
    and "c = b \<lparr>m_rejit_queue := m_rejit_queue b @ r\<rparr>" "\<forall>i\<in>set r. request_of_pairs i"
    by (auto simp: queued_def)
  then show ?thesis unfolding queued_def by (intro exI [of _ "q @ r"]) auto
qed

lemma for_values_frame:
  assumes f: "\<And>v h. R v (fst (f v h)) \<and> queued h (snd (f v h))"
  shows "same_keys R es (fst (for_values f es h)) \<and> queued h (snd (for_values f es h))"
proof (induction es arbitrary: h)
  case (Cons e es)
  obtain v h1 where v: "f (snd e) h = (v, h1)" by (cases "f (snd e) h")
  obtain es' h2 where es: "for_values f es h1 = (es', h2)" by (cases "for_values f es h1")
  from f [of "snd e" h] Cons.IH [of h1] show ?case
    by (auto simp: v es same_keys_def intro: queued_trans)
qed (simp add: same_keys_def queued_refl)


lemma method_search:
  "marks me (fst (method_RequestRejitForInlinersInModule rt c mid me h)) \<and>
   queued h (snd (method_RequestRejitForInlinersInModule rt c mid me h))"
proof -
  have "queued h (EnqueueForRejit (map fst ps) (map snd ps) h)" if "ps \<noteq> []" for ps
    using that by (cases "m_shutdown h")
      (auto simp: EnqueueForRejit_def push_def queued_refl queued_def request_of_pairs_def)
  then show ?thesis
    by (auto simp: method_RequestRejitForInlinersInModule_def Let_def queued_refl marks_refl
        split: prod.split) (auto simp: marks_def)
qed

lemma module_search:
  "marked m (fst (module_RequestRejitForInlinersInModule rt mid m h)) \<and>
   queued h (snd (module_RequestRejitForInlinersInModule rt mid m h))"
  using for_values_frame [of marks "method_RequestRejitForInlinersInModule rt (m_moduleId m) mid" "m_methods m" h,
      OF method_search]
  by (auto simp: module_RequestRejitForInlinersInModule_def marked_def split: prod.split)

lemma searched_refl: "searched h h"
  unfolding searched_def by (intro exI [of _ "m_modules h"]) (simp add: queued_refl same_keys_refl marked_refl)

lemma searched_queued: "searched h h' \<longleftrightarrow>
  (\<exists>mods q. h' = h \<lparr>m_modules := mods, m_rejit_queue := m_rejit_queue h @ q\<rparr> \<and>
     same_keys marked (m_modules h) mods \<and> (\<forall>i\<in>set q. request_of_pairs i))"
  by (auto simp: searched_def queued_def)

lemma searched_trans:
  assumes "searched a b" and "searched b c"
  shows "searched a c"
proof -
  from assms obtain m q m' r where
    "b = a \<lparr>m_modules := m, m_rejit_queue := m_rejit_queue a @ q\<rparr>" "same_keys marked (m_modules a) m"
    "\<forall>i\<in>set q. request_of_pairs i"
    "c = b \<lparr>m_modules := m', m_rejit_queue := m_rejit_queue b @ r\<rparr>" "same_keys marked (m_modules b) m'"
    "\<forall>i\<in>set r. request_of_pairs i"
    by (auto simp: searched_queued)
  then show ?thesis unfolding searched_queued
    by (intro exI [of _ m'] exI [of _ "q @ r"])
      (auto intro: same_keys_trans [of marked "m_modules a" m, OF marked_trans])
qed

lemma RequestRejitForInlinersInModule_searched: "searched h (RequestRejitForInlinersInModule rt mid h)"
proof -
  have "searched h (h' \<lparr>m_modules := mods\<rparr>)"
    if "for_values (module_RequestRejitForInlinersInModule rt mid) (m_modules h) h = (mods, h')" for mods h'
  proof -
    have "same_keys marked (m_modules h) mods \<and> queued h h'"
      using for_values_frame [of marked "module_RequestRejitForInlinersInModule rt mid" "m_modules h" h,
          OF module_search] that by simp
    then obtain q where "h' = h \<lparr>m_rejit_queue := m_rejit_queue h @ q\<rparr>" "\<forall>i\<in>set q. request_of_pairs i"
      and "same_keys marked (m_modules h) mods" by (auto simp: queued_def)
    then show ?thesis unfolding searched_queued
      by (intro exI [of _ mods] exI [of _ q]) (cases h, simp)
  qed
  then show ?thesis
    by (auto simp: RequestRejitForInlinersInModule_def searched_refl split: prod.split)
qed

lemma RequestRejitForNGenInliners_searched: "searched h (RequestRejitForNGenInliners rt h)"
proof -
  have "searched h (fold (RequestRejitForInlinersInModule rt) ms h)" for ms
    by (induction ms arbitrary: h)
      (auto intro: searched_refl searched_trans RequestRejitForInlinersInModule_searched)
  then show ?thesis by (simp add: RequestRejitForNGenInliners_def searched_refl)
qed

lemma RequestRejit_searched:
  "searched (if m_shutdown h \<or> ms = [] then h else h \<lparr>rejit_requests := rejit_requests h @ [(ms, ds)]\<rparr>)
     (RequestRejit rt ms ds h)"
  by (simp add: RequestRejit_def searched_refl RequestRejitForNGenInliners_searched)

lemma AddNGenModule_searched:
  "searched (if m_shutdown h then h else h \<lparr>m_ngenModules := m_ngenModules h @ [m]\<rparr>) (AddNGenModule rt m h)"
  by (simp add: AddNGenModule_def searched_refl RequestRejitForInlinersInModule_searched)

section \<open>Well-formed handlers\<close>

text \<open>
  A method entry is stored under its own token and has both its function information and its
  replacement or neither; then the information is the one of that method, and the replacement
  asks for the call target. A module entry is stored under its own identifier, and has its
  metadata as soon as a method of it is prepared.
\<close>

definition prepared :: "RejitHandlerModuleMethod \<Rightarrow> bool" where
  "prepared me \<longleftrightarrow> (\<exists>fi r. m_functionInfo me = Some fi \<and> m_methodReplacement me = Some r \<and>
     fi_id fi = m_methodDef me \<and> fi_id fi \<noteq> 0 \<and>
     action (wrapper_method r) = calltarget_modification_action \<and>
     Suc (unat (numberOfArguments (fi_method_signature fi))) = length (signature_types (target_method r)))"

definition method_ok :: "mdToken \<times> RejitHandlerModuleMethod \<Rightarrow> bool" where
  "method_ok e \<longleftrightarrow> m_methodDef (snd e) = fst e \<and>
     (prepared (snd e) \<or> m_functionInfo (snd e) = None \<and> m_methodReplacement (snd e) = None)"

definition module_ok :: "u64 \<times> RejitHandlerModule \<Rightarrow> bool" where
  "module_ok e \<longleftrightarrow> m_moduleId (snd e) = fst e \<and> distinct (map fst (m_methods (snd e))) \<and>
     (\<forall>d\<in>set (m_methods (snd e)). method_ok d \<and> (prepared (snd d) \<longrightarrow> m_metadata (snd e) \<noteq> None))"

definition item_ok :: "RejitItem \<Rightarrow> bool" where
  "item_ok item \<longleftrightarrow> (case item of RejitRequest ms ds \<Rightarrow> length ms = length ds | _ \<Rightarrow> True)"

text \<open>What the rewriter is called with.\<close>

definition rewrite_ok :: "RejitHandlerModule \<times> RejitHandlerModuleMethod \<Rightarrow> bool" where
  "rewrite_ok c \<longleftrightarrow> prepared (snd c) \<and> m_metadata (fst c) \<noteq> None \<and> m_moduleId (fst c) \<noteq> 0 \<and>
     m_pFunctionControl (snd c) \<noteq> 0 \<and> m_methodDef (snd c) \<noteq> mdMethodDefNil"

definition rejit_ok :: "RejitHandler \<Rightarrow> bool" where
  "rejit_ok h \<longleftrightarrow> distinct (map fst (m_modules h)) \<and> (\<forall>e\<in>set (m_modules h). module_ok e) \<and>
     (\<forall>i\<in>set (m_rejit_queue h). item_ok i) \<and>
     (\<forall>(ms, ds)\<in>set (rejit_requests h). length ms = length ds \<and> ms \<noteq> []) \<and>
     (\<forall>c\<in>set (rewritten h). rewrite_ok c) \<and>
     (m_shutdown h \<longrightarrow> m_modules h = [] \<and> \<not> thread_running h)"


lemma marks_ok: "marks me me' \<Longrightarrow> prepared me' = prepared me \<and> method_ok (d, me') = method_ok (d, me)"
  by (auto simp: marks_def method_ok_def prepared_def)

lemma marked_ok:
  assumes "marked m m'" and "module_ok (k, m)"
  shows "module_ok (k, m')"
proof -
  from assms(1) obtain es where m': "m' = m \<lparr>m_methods := es\<rparr>" and es: "same_keys marks (m_methods m) es"
    by (auto simp: marked_def)
  have "method_ok d \<and> (prepared (snd d) \<longrightarrow> m_metadata m \<noteq> None)" if d: "d \<in> set es" for d
  proof -
    from same_keys_member [OF es d] obtain e where "e \<in> set (m_methods m)" "fst e = fst d" "marks (snd e) (snd d)"
      by auto
    with assms(2) marks_ok [of "snd e" "snd d" "fst d"] show ?thesis
      by (cases e; cases d) (auto simp: module_ok_def)
  qed
  then show ?thesis using assms(2) same_keys_map [OF es] by (simp add: m' module_ok_def)
qed

lemma request_item_ok: "request_of_pairs i \<Longrightarrow> item_ok i"
  by (auto simp: request_of_pairs_def item_ok_def)

lemma searched_ok:
  assumes "searched h h'" and "rejit_ok h"
  shows "rejit_ok h'"
proof -
  from assms(1) obtain mods q where h': "h' = h \<lparr>m_modules := mods, m_rejit_queue := m_rejit_queue h @ q\<rparr>"
    and mods: "same_keys marked (m_modules h) mods" and q: "\<forall>i\<in>set q. request_of_pairs i"
    by (auto simp: searched_queued)
  have "module_ok e" if "e \<in> set mods" for e
  proof -
    from same_keys_member [OF mods that] obtain e' where e': "e' \<in> set (m_modules h)" "fst e' = fst e"
      and "marked (snd e') (snd e)" by auto
    moreover have "module_ok e'" using e'(1) assms(2) by (simp add: rejit_ok_def)
    ultimately show ?thesis using marked_ok [of "snd e'" "snd e" "fst e"]
      by (metis prod.collapse)
  qed
  moreover have "m_modules h = [] \<Longrightarrow> mods = []" using same_keys_map [OF mods] by simp
  ultimately show ?thesis using assms(2) same_keys_map [OF mods] q request_item_ok
    by (auto simp: rejit_ok_def h')
qed

lemma set_update: "set (AList.update k v xs) \<subseteq> insert (k, v) (set xs)"
  by (induction xs) auto

lemma ok_put_module:
  "rejit_ok h \<Longrightarrow> \<not> m_shutdown h \<Longrightarrow> module_ok (k, m) \<Longrightarrow> rejit_ok (put_module h k m)"
  using set_update [of k m "m_modules h"]
  by (auto simp: rejit_ok_def put_module_def AList.distinct_update)

lemma ok_put_method:
  "module_ok (k, m) \<Longrightarrow> method_ok (d, me) \<Longrightarrow> (prepared me \<Longrightarrow> m_metadata m \<noteq> None) \<Longrightarrow>
   module_ok (k, put_method m d me)"
  using set_update [of d me "m_methods m"]
  by (auto simp: module_ok_def put_method_def AList.distinct_update)

lemma new_method_ok: "method_ok (d, new_RejitHandlerModuleMethod d) \<and> \<not> prepared (new_RejitHandlerModuleMethod d)"
  by (simp add: method_ok_def prepared_def new_RejitHandlerModuleMethod_def)

lemma new_module_ok: "module_ok (k, new_RejitHandlerModule k)"
  by (simp add: module_ok_def new_RejitHandlerModule_def)

lemma find_module_ok: "rejit_ok h \<Longrightarrow> find_module h k = Some m \<Longrightarrow> module_ok (k, m)"
  by (auto simp: rejit_ok_def find_module_def dest!: map_of_SomeD)

lemma GetOrAddModule_ok:
  assumes "rejit_ok h" and "GetOrAddModule k h = (r, h')"
  shows "rejit_ok h' \<and> m_shutdown h' = m_shutdown h \<and> (m_shutdown h \<longleftrightarrow> r = None) \<and>
    (\<forall>m. r = Some m \<longrightarrow> module_ok (k, m) \<and> find_module h' k = Some m)"
proof -
  consider (down) "m_shutdown h" | (found) m where "\<not> m_shutdown h" "find_module h k = Some m"
    | (new) "\<not> m_shutdown h" "find_module h k = None" by fastforce
  then show ?thesis
  proof cases
    case new
    then show ?thesis using assms(2) ok_put_module [OF assms(1) _ new_module_ok] new_module_ok
      by (auto simp: GetOrAddModule_def put_module_def find_module_def AList.update_conv Let_def)
  next
    case (found m)
    then have "r = Some m \<and> h' = h" using assms(2) by (simp add: GetOrAddModule_def)
    then show ?thesis using found assms(1) find_module_ok [OF assms(1), of k m] by simp
  qed (use assms in \<open>simp add: GetOrAddModule_def\<close>)
qed

lemma GetOrAddMethod_ok:
  assumes "module_ok (k, m)" and "GetOrAddMethod d m = (me, m')"
  shows "module_ok (k, m') \<and> method_ok (d, me) \<and> m_metadata m' = m_metadata m \<and> find_method m' d = Some me \<and>
    (prepared me \<longrightarrow> m_metadata m \<noteq> None)"
  using assms new_method_ok [of d] ok_put_method [OF assms(1), of d "new_RejitHandlerModuleMethod d"]
  by (auto simp: GetOrAddMethod_def find_method_def put_method_def module_ok_def AList.update_conv Let_def
      split: option.splits dest!: map_of_SomeD)


lemma GetFunctionInfo_id: "GetFunctionInfo n md tk = Done fi \<Longrightarrow> fi_id fi = tk \<or> fi_id fi = 0"
  by (cases n)
    (auto simp: GetFunctionInfo_simps GetFunctionInfo_body_def no_FunctionInfo_def outcome_simps
      split: prod.splits if_splits)

text \<open>What a method has passed that is to be rewritten for an integration.\<close>

definition passed :: "nat \<Rightarrow> MetaDataImport \<Rightarrow> IntegrationMethod \<Rightarrow> mdToken \<Rightarrow> FunctionInfo \<Rightarrow> bool" where
  "passed depth md i d fi \<longleftrightarrow> fi_id fi = d \<and> d \<noteq> 0 \<and>
     Suc (unat (numberOfArguments (fi_method_signature fi))) = length (signature_types (target_method (replacement i)))"

lemma check_method_passed: "check_method depth md i d = Done (Some fi) \<Longrightarrow> passed depth md i d fi"
  by (auto simp: check_method_def passed_def FunctionInfo_IsValid_def Let_def outcome_simps
      split: prod.splits if_splits dest: GetFunctionInfo_id)

lemma store_method_ok:
  assumes "rejit_ok h" and "store_method md ai mi i d fi h = Some h'" and "passed depth md i d fi"
    and "action (wrapper_method (replacement i)) = calltarget_modification_action"
  shows "rejit_ok h' \<and> m_shutdown h' = m_shutdown h"
proof -
  obtain m h1 where m: "GetOrAddModule (module_id mi) h = (Some m, h1)"
    using assms(2) by (auto simp: store_method_def split: prod.splits option.splits)
  from GetOrAddModule_ok [OF assms(1) m] have h1: "rejit_ok h1" "\<not> m_shutdown h1" "m_shutdown h1 = m_shutdown h"
    and mok: "module_ok (module_id mi, m)" by auto
  define m1 where "m1 = (if m_metadata m = None then m \<lparr>m_metadata := Some (new_ModuleMetadata md ai
    (assembly_name (module_assembly mi)) (app_domain_id (module_assembly mi)) (m_pCorAssemblyProperty h1))\<rparr> else m)"
  have m1: "module_ok (module_id mi, m1)" "m_metadata m1 \<noteq> None"
    using mok by (auto simp: m1_def module_ok_def)
  obtain me m2 where me: "GetOrAddMethod d m1 = (me, m2)" by (cases "GetOrAddMethod d m1")
  from GetOrAddMethod_ok [OF m1(1) me] m1(2)
  have m2: "module_ok (module_id mi, m2)" "method_ok (d, me)" "m_metadata m2 \<noteq> None" by auto
  define me1 where "me1 = (if m_functionInfo me = None then me \<lparr>m_functionInfo := Some fi\<rparr> else me)"
  define me2 where "me2 = (if m_methodReplacement me1 = None
    then me1 \<lparr>m_methodReplacement := Some (replacement i)\<rparr> else me1)"
  have "method_ok (d, me2)"
    using m2(2) assms(3,4) by (auto simp: me2_def me1_def method_ok_def prepared_def passed_def)
  moreover have h': "put_module h1 (module_id mi) (put_method m2 d me2) = h'"
    using assms(2) unfolding store_method_def m me2_def me1_def
    by (simp add: me [unfolded m1_def] Let_def split del: if_split)
  ultimately show ?thesis unfolding h' [symmetric]
    using ok_put_module [OF h1(1,2) ok_put_method [OF m2(1), of d me2]] m2(3) h1
    by (simp add: put_module_def)
qed

text \<open>
  One turn of the loop over the integrations: skipped, left, or run with the metadata, which is
  what the runtime answers for the module.
\<close>

definition load_metadata ::
  "Runtime \<Rightarrow> ModuleInfo \<Rightarrow> (MetaDataImport \<times> AssemblyImport \<times> AssemblyMetadata) option" where
  "load_metadata rt mi = (let (hr, md, ai) = GetModuleMetaData rt (module_id mi) in
     if FAILED hr then None else Some (md, ai, GetAssemblyImportMetadata ai))"

definition concerns :: "ModuleInfo \<Rightarrow> IntegrationMethod \<Rightarrow> bool" where
  "concerns mi i \<longleftrightarrow> action (wrapper_method (replacement i)) = calltarget_modification_action \<and>
     name (assembly (target_method (replacement i))) = assembly_name (module_assembly mi)"

lemma process_integrations_Cons:
  assumes "loaded \<in> {None, load_metadata rt mi}"
  shows "process_integrations rt depth mi (i # is) loaded s =
    (if \<not> concerns mi i then process_integrations rt depth mi is loaded s
     else case load_metadata rt mi of None \<Rightarrow> Done s
       | Some (md, ai, am) \<Rightarrow> obind (process_loaded depth mi i md ai am s)
           (process_integrations rt depth mi is (load_metadata rt mi)))"
  using assms
  by (auto simp: concerns_def load_metadata_def Let_def split: prod.splits option.splits if_splits)

declare process_integrations.simps(2) [simp del]

text \<open>
  Whatever relation between handlers storing a method establishes, the loops establish, if it
  is reflexive and transitive. \<open>P\<close> is what is known of the module, its metadata and the
  integration a method is stored for.
\<close>

locale kept_by_storing =
  fixes R :: "RejitHandler \<times> targets \<Rightarrow> RejitHandler \<times> targets \<Rightarrow> bool"
    and P :: "ModuleInfo \<Rightarrow> MetaDataImport \<Rightarrow> IntegrationMethod \<Rightarrow> bool" and depth :: nat
  assumes R_refl: "R s s"
    and R_trans: "R s s1 \<Longrightarrow> R s1 s2 \<Longrightarrow> R s s2"
    and R_store: "store_method md ai mi i d fi h = Some h1 \<Longrightarrow> check_method depth md i d = Done (Some fi) \<Longrightarrow>
      concerns mi i \<Longrightarrow> P mi md i \<Longrightarrow> R (h, ts) (h1, ts @ [(module_id mi, d)])"
begin

lemma methods:
  "process_methods depth md ai mi i ds s = Done s' \<Longrightarrow> concerns mi i \<Longrightarrow> P mi md i \<Longrightarrow>
   R s s'"
proof (induction ds arbitrary: s)
  case (Cons d ds)
  from Cons.prems(1) obtain r where r: "check_method depth md i d = Done r" by (auto simp: outcome_simps)
  show ?case
  proof (cases r)
    case None
    with Cons r show ?thesis by simp
  next
    case (Some fi)
    show ?thesis
    proof (cases "store_method md ai mi i d fi (fst s)")
      case None
      with Cons.prems r Some show ?thesis by (simp add: R_refl)
    next
      case (Some h)
      from R_store [OF this _ Cons.prems(2,3)] r \<open>r = Some fi\<close> have "R s (h, snd s @ [(module_id mi, d)])" by (metis prod.collapse)
      moreover from Cons.prems Cons.IH [of "(h, snd s @ [(module_id mi, d)])"] r \<open>r = Some fi\<close> Some
      have "R (h, snd s @ [(module_id mi, d)]) s'" by simp
      ultimately show ?thesis by (rule R_trans)
    qed
  qed
qed (simp add: R_refl)

lemma loaded:
  "process_loaded depth mi i md ai am s = Done t \<Longrightarrow> concerns mi i \<Longrightarrow> P mi md i \<Longrightarrow> R s t"
  by (auto simp: process_loaded_def Let_def R_refl split: if_splits option.splits dest: methods)

lemma integrations:
  "process_integrations rt depth mi is loaded s = Done s' \<Longrightarrow> loaded \<in> {None, load_metadata rt mi} \<Longrightarrow>
   (\<And>i md ai am. i \<in> set is \<Longrightarrow> load_metadata rt mi = Some (md, ai, am) \<Longrightarrow> P mi md i) \<Longrightarrow>
   R s s'"
proof (induction "is" arbitrary: loaded s)
  case (Cons i "is")
  note step = Cons.prems(1) [unfolded process_integrations_Cons [OF Cons.prems(2)]]
  show ?case
  proof (cases "concerns mi i")
    case False
    with step Cons.IH [OF _ Cons.prems(2)] Cons.prems(3) show ?thesis by simp
  next
    case True
    show ?thesis
    proof (cases "load_metadata rt mi")
      case None
      with step True show ?thesis by (simp add: R_refl)
    next
      case (Some l)
      obtain md ai am where l: "l = (md, ai, am)" by (cases l)
      with step True Some obtain t where t: "process_loaded depth mi i md ai am s = Done t"
        and s': "process_integrations rt depth mi is (load_metadata rt mi) t = Done s'"
        by (auto simp: outcome_simps)
      have "R s t" using loaded [OF t True] Cons.prems(3) Some l by simp
      moreover have "R t s'" by (rule Cons.IH [OF s']) (use Cons.prems(3) in simp_all)
      ultimately show ?thesis by (rule R_trans)
    qed
  qed
qed (simp add: R_refl)

lemma modules:
  "process_modules rt depth ints ms s = Done s' \<Longrightarrow>
   (\<And>m i md ai am. m \<in> set ms \<Longrightarrow> i \<in> set ints \<Longrightarrow>
      load_metadata rt (GetModuleInfo rt m) = Some (md, ai, am) \<Longrightarrow> P (GetModuleInfo rt m) md i) \<Longrightarrow>
   R s s'"
proof (induction ms arbitrary: s)
  case (Cons m ms)
  from Cons.prems(1) obtain t where t: "process_integrations rt depth (GetModuleInfo rt m) ints None s = Done t"
    and s': "process_modules rt depth ints ms t = Done s'" by (auto simp: outcome_simps)
  have "R s t" by (rule integrations [OF t]) (use Cons.prems(2) in simp_all)
  moreover have "R t s'" by (rule Cons.IH [OF s']) (use Cons.prems(2) in simp_all)
  ultimately show ?case by (rule R_trans)
qed (simp add: R_refl)

end

definition ok_kept :: "RejitHandler \<times> targets \<Rightarrow> RejitHandler \<times> targets \<Rightarrow> bool" where
  "ok_kept s s' \<longleftrightarrow> (rejit_ok (fst s) \<longrightarrow> rejit_ok (fst s') \<and> m_shutdown (fst s') = m_shutdown (fst s))"

interpretation ok: kept_by_storing ok_kept "\<lambda>_ _ _. True" depth for depth
proof unfold_locales
  fix md ai mi i d fi h h' ts
  assume "store_method md ai mi i d fi h = Some h'" and "check_method depth md i d = Done (Some fi)"
    and "concerns mi i"
  then show "ok_kept (h, ts) (h', ts @ [(module_id mi, d)])"
    using store_method_ok [of h md ai mi i d fi h' depth] check_method_passed
    by (auto simp: ok_kept_def concerns_def)
qed (auto simp: ok_kept_def)

lemma push_ok: "rejit_ok h \<Longrightarrow> item_ok item \<Longrightarrow> rejit_ok (push item h)"
  by (auto simp: rejit_ok_def push_def)

lemma EnqueueForRejit_ok: "rejit_ok h \<Longrightarrow> length ms = length ds \<Longrightarrow> rejit_ok (EnqueueForRejit ms ds h)"
  by (simp add: EnqueueForRejit_def push_ok item_ok_def)

lemma RequestRejit_ok:
  assumes "rejit_ok h" and "length ms = length ds"
  shows "rejit_ok (RequestRejit rt ms ds h)"
  by (rule searched_ok [OF RequestRejit_searched]) (use assms in \<open>auto simp: rejit_ok_def\<close>)

lemma AddNGenModule_ok: "rejit_ok h \<Longrightarrow> rejit_ok (AddNGenModule rt m h)"
  by (rule searched_ok [OF AddNGenModule_searched]) (auto simp: rejit_ok_def)

lemma ProcessModuleForRejit_ok:
  assumes "ProcessModuleForRejit rt depth ms ints same h = Done (n, h')" and "rejit_ok h"
  shows "rejit_ok h'"
proof (cases "m_shutdown h")
  case True
  with assms show ?thesis by (simp add: ProcessModuleForRejit_def)
next
  case False
  with assms(1) obtain h1 vt where p: "process_modules rt depth ints ms (h, []) = Done (h1, vt)"
    and h': "h' = h1 \<or> h' = RequestRejit rt (map fst vt) (map snd vt) h1 \<or>
      h' = EnqueueForRejit (map fst vt) (map snd vt) h1"
    by (auto simp: ProcessModuleForRejit_def outcome_simps Let_def split: if_splits)
  from ok.modules [OF p] assms(2) have "rejit_ok h1" by (simp add: ok_kept_def)
  with h' show ?thesis using RequestRejit_ok EnqueueForRejit_ok by (metis length_map)
qed

lemma process_item_ok:
  assumes "process_item rt depth item h = Done (goes_on, h')" and "rejit_ok h" and "item_ok item"
  shows "rejit_ok h'"
proof (cases item)
  case EndRejitThread
  with assms show ?thesis by (simp add: process_item_def)
next
  case (RejitRequest ms ds)
  with assms show ?thesis by (auto simp: process_item_def item_ok_def RequestRejit_ok)
next
  case (ProcessRequest ms ints p)
  have *: "rejit_ok (h1 \<lparr>promises := f\<rparr>)" if "rejit_ok h1" for h1 f using that by (simp add: rejit_ok_def)
  show ?thesis using assms(1,2) ProcessRequest
    by (auto simp: process_item_def outcome_simps intro: * dest: ProcessModuleForRejit_ok
        split: if_splits option.splits)
qed

lemma thread_round_item:
  assumes "thread_round rt depth h = Some r" and "rejit_ok h"
  obtains item q where "m_rejit_queue h = item # q" and "item_ok item"
    and "r = process_item rt depth item (h \<lparr>m_rejit_queue := q\<rparr>)" and "rejit_ok (h \<lparr>m_rejit_queue := q\<rparr>)"
proof (cases "m_rejit_queue h")
  case (Cons item q)
  with assms show ?thesis by (intro that [of item q]) (auto simp: thread_round_def rejit_ok_def)
qed (use assms in \<open>simp add: thread_round_def\<close>)

lemma thread_round_ok:
  assumes "thread_round rt depth h = Some (Done (goes_on, h'))" and "rejit_ok h"
  shows "rejit_ok h'"
proof -
  from assms obtain item q where "item_ok item" "rejit_ok (h \<lparr>m_rejit_queue := q\<rparr>)"
    "process_item rt depth item (h \<lparr>m_rejit_queue := q\<rparr>) = Done (goes_on, h')"
    by (metis thread_round_item)
  with process_item_ok show ?thesis by blast
qed

lemma in_delete: "e \<in> set (AList.delete k xs) \<Longrightarrow> e \<in> set xs"
  by (auto simp: AList.delete_eq)

lemma RemoveModule_ok: "rejit_ok h \<Longrightarrow> rejit_ok (RemoveModule m h)"
  by (auto simp: rejit_ok_def RemoveModule_def AList.distinct_delete dest: in_delete)

lemma NotifyReJITParameters_cases:
  assumes "\<not> m_shutdown h"
  obtains m1 h1 me m2 where "GetOrAddModule mid h = (Some m1, h1)" and "GetOrAddMethod d m1 = (me, m2)"
    and "NotifyReJITParameters cb mid d control h =
      (let me = me \<lparr>m_pFunctionControl := control\<rparr>; m3 = put_method m2 d me; h2 = put_module h1 mid m3
       in if m_methodDef me = mdMethodDefNil \<or> control = 0 \<or> m_functionInfo me = None \<or>
             m_methodReplacement me = None \<or> m_moduleId m3 = 0 \<or> m_metadata m3 = None then (S_FALSE, h2)
          else (cb m3 me, h2 \<lparr>rewritten := rewritten h2 @ [(m3, me)]\<rparr>))"
proof -
  obtain m1 h1 where m: "GetOrAddModule mid h = (Some m1, h1)"
    using assms by (cases "find_module h mid") (auto simp: GetOrAddModule_def Let_def)
  obtain me m2 where me: "GetOrAddMethod d m1 = (me, m2)" by (cases "GetOrAddMethod d m1")
  show ?thesis
    by (rule that [OF m me]) (auto simp: NotifyReJITParameters_def assms m me Let_def)
qed

lemma NotifyReJITParameters_ok:
  assumes "rejit_ok h"
  shows "rejit_ok (snd (NotifyReJITParameters cb mid d control h))"
proof (cases "m_shutdown h")
  case True
  with assms show ?thesis by (simp add: NotifyReJITParameters_def)
next
  case False
  then obtain m1 h1 me m2 where m: "GetOrAddModule mid h = (Some m1, h1)" and me: "GetOrAddMethod d m1 = (me, m2)"
    and n: "NotifyReJITParameters cb mid d control h =
      (let me = me \<lparr>m_pFunctionControl := control\<rparr>; m3 = put_method m2 d me; h2 = put_module h1 mid m3
       in if m_methodDef me = mdMethodDefNil \<or> control = 0 \<or> m_functionInfo me = None \<or>
             m_methodReplacement me = None \<or> m_moduleId m3 = 0 \<or> m_metadata m3 = None then (S_FALSE, h2)
          else (cb m3 me, h2 \<lparr>rewritten := rewritten h2 @ [(m3, me)]\<rparr>))"
    by (rule NotifyReJITParameters_cases)
  define me1 where "me1 = me \<lparr>m_pFunctionControl := control\<rparr>"
  define m3 where "m3 = put_method m2 d me1"
  define h2 where "h2 = put_module h1 mid m3"
  from GetOrAddModule_ok [OF assms m] have h1: "rejit_ok h1" "\<not> m_shutdown h1" "module_ok (mid, m1)"
    using False by auto
  from GetOrAddMethod_ok [OF h1(3) me]
  have m2: "module_ok (mid, m2)" "method_ok (d, me)" "prepared me \<longrightarrow> m_metadata m2 \<noteq> None" by auto
  have me1: "method_ok (d, me1)" "prepared me1 = prepared me"
    using m2(2) by (auto simp: me1_def method_ok_def prepared_def)
  have h2: "rejit_ok h2" unfolding h2_def m3_def
    using m2 me1 by (intro ok_put_module h1 ok_put_method) auto
  moreover have "rejit_ok (h2 \<lparr>rewritten := rewritten h2 @ [(m3, me1)]\<rparr>)"
    if "m_methodDef me1 \<noteq> mdMethodDefNil" "control \<noteq> 0" "m_functionInfo me1 \<noteq> None" "m_moduleId m3 \<noteq> 0"
      "m_metadata m3 \<noteq> None"
  proof -
    have "prepared me1" using me1(1) that(3) by (auto simp: method_ok_def)
    then have "rewrite_ok (m3, me1)" using that by (simp add: rewrite_ok_def) (simp add: me1_def)
    with h2 show ?thesis by (simp add: rejit_ok_def)
  qed
  ultimately show ?thesis unfolding n Let_def
    by (simp add: h2_def [unfolded m3_def me1_def, symmetric] flip: me1_def m3_def h2_def)
qed


lemma rejit_step_ok: "rejit_step h h' \<Longrightarrow> rejit_ok h \<Longrightarrow> rejit_ok h'"
proof (induction rule: rejit_step.induct)
  case (get_module h m)
  then show ?case by (cases "GetOrAddModule m h") (simp add: GetOrAddModule_ok)
next
  case (thread h rt depth goes_on h')
  from thread_round_ok [OF thread(2,3)] have "rejit_ok h'" .
  then show ?case by (auto simp: rejit_ok_def)
next
  case (shutdown_end h)
  then show ?case by (auto simp: rejit_ok_def clear_handler_def)
next
  case (set_corlib h p)
  then show ?case by (auto simp: rejit_ok_def SetCorAssemblyProfiler_def)
next
  case (enqueue_process h ms ints p)
  then have "rejit_ok (h \<lparr>promises := f\<rparr>)" for f by (simp add: rejit_ok_def)
  with enqueue_process show ?case
    by (auto simp: EnqueueProcessModule_def push_ok item_ok_def split: option.split)
next
  case (shutdown_begin h)
  then show ?case by (simp add: push_ok item_ok_def)
qed (auto intro: EnqueueForRejit_ok RemoveModule_ok AddNGenModule_ok ProcessModuleForRejit_ok
    NotifyReJITParameters_ok searched_ok [OF RequestRejitForNGenInliners_searched])

lemma new_RejitHandler_ok: "rejit_ok (new_RejitHandler b)"
  by (simp add: rejit_ok_def new_RejitHandler_def)

end
