(* ===== verification/RejitAnalysis.thy ===== *)
theory RejitAnalysis
  imports RejitHandler
begin

text \<open>
  The analysis of modules by the rejit handler: what it requests, as a specification over the
  metadata alone; the entries of the tables it leaves; and that the methods it selects are
  the ones the rewriter is called for.
\<close>

section \<open>Which methods a module asks for\<close>

text \<open>
  The methods of a module an integration selects, as a specification over the metadata alone:
  no state, no order of loading.
\<close>

definition selected :: "Runtime \<Rightarrow> nat \<Rightarrow> ModuleInfo \<Rightarrow> IntegrationMethod \<Rightarrow> targets" where
  "selected rt depth mi i =
     (if \<not> concerns mi i then []
      else (case load_metadata rt mi of None \<Rightarrow> []
        | Some (md, ai, am) \<Rightarrow> let t = target_method (replacement i) in
            if \<not> in_range (metadata_version am) t then []
            else (case FindTypeDefByName md (type_name_of t) of None \<Rightarrow> []
              | Some td \<Rightarrow> map (Pair (module_id mi)) (filter (\<lambda>d. \<exists>fi. check_method depth md i d = Done (Some fi))
                  (enumerated (EnumMethodsWithName md td (method_name t)))))))"

definition selected_all :: "Runtime \<Rightarrow> nat \<Rightarrow> IntegrationMethod list \<Rightarrow> u64 list \<Rightarrow> targets" where
  "selected_all rt depth ints ms =
     concat (map (\<lambda>m. concat (map (selected rt depth (GetModuleInfo rt m)) ints)) ms)"

lemma GetOrAddModule_up: "\<not> m_shutdown h \<Longrightarrow> \<exists>m h'. GetOrAddModule k h = (Some m, h') \<and> \<not> m_shutdown h'"
  by (cases "find_module h k") (auto simp: GetOrAddModule_def Let_def put_module_def)

lemma store_method_up:
  "\<not> m_shutdown h \<Longrightarrow> \<exists>h'. store_method md ai mi i d fi h = Some h' \<and> \<not> m_shutdown h'"
  using GetOrAddModule_up [of h "module_id mi"]
  by (auto simp: store_method_def Let_def put_module_def split: prod.split)

lemma process_methods_targets:
  "process_methods depth md ai mi i ds s = Done s' \<Longrightarrow> \<not> m_shutdown (fst s) \<Longrightarrow>
   \<not> m_shutdown (fst s') \<and>
   snd s' = snd s @ map (Pair (module_id mi)) (filter (\<lambda>d. \<exists>fi. check_method depth md i d = Done (Some fi)) ds)"
proof (induction ds arbitrary: s)
  case (Cons d ds)
  from Cons.prems(1) obtain r where r: "check_method depth md i d = Done r" by (auto simp: outcome_simps)
  show ?case
  proof (cases r)
    case None
    with Cons r show ?thesis by simp
  next
    case (Some fi)
    obtain h where "store_method md ai mi i d fi (fst s) = Some h" "\<not> m_shutdown h"
      using store_method_up [OF Cons.prems(2)] by blast
    with Cons.prems(1) Cons.IH [of "(h, snd s @ [(module_id mi, d)])"] r Some show ?thesis by simp
  qed
qed simp

lemma process_loaded_targets:
  assumes "process_loaded depth mi i md ai am s = Done t" and "\<not> m_shutdown (fst s)"
    and "concerns mi i" and "load_metadata rt mi = Some (md, ai, am)"
  shows "\<not> m_shutdown (fst t) \<and> snd t = snd s @ selected rt depth mi i"
  using assms process_methods_targets [of depth md ai mi i _ s t]
  by (auto simp: process_loaded_def selected_def Let_def version_greater_def version_less_triple in_range_def
      split: if_splits option.splits)

lemma process_integrations_targets:
  "process_integrations rt depth mi is loaded s = Done s' \<Longrightarrow> loaded \<in> {None, load_metadata rt mi} \<Longrightarrow>
   \<not> m_shutdown (fst s) \<Longrightarrow>
   \<not> m_shutdown (fst s') \<and> snd s' = snd s @ concat (map (selected rt depth mi) is)"
proof (induction "is" arbitrary: loaded s)
  case (Cons i "is")
  note step = Cons.prems(1) [unfolded process_integrations_Cons [OF Cons.prems(2)]]
  show ?case
  proof (cases "concerns mi i")
    case False
    with step Cons.IH [OF _ Cons.prems(2,3)] show ?thesis by (simp add: selected_def)
  next
    case True
    show ?thesis
    proof (cases "load_metadata rt mi")
      case None
      have "selected rt depth mi j = []" for j using None by (simp add: selected_def)
      with None True step Cons.prems(3) show ?thesis by simp
    next
      case (Some l)
      obtain md ai am where l: "l = (md, ai, am)" by (cases l)
      with step True Some obtain t where t: "process_loaded depth mi i md ai am s = Done t"
        and s': "process_integrations rt depth mi is (load_metadata rt mi) t = Done s'"
        by (auto simp: outcome_simps)
      from process_loaded_targets [OF t Cons.prems(3) True] Some l Cons.IH [OF s'] show ?thesis by simp
    qed
  qed
qed simp

lemma process_modules_targets:
  "process_modules rt depth ints ms s = Done s' \<Longrightarrow> \<not> m_shutdown (fst s) \<Longrightarrow>
   \<not> m_shutdown (fst s') \<and> snd s' = snd s @ selected_all rt depth ints ms"
proof (induction ms arbitrary: s)
  case (Cons m ms)
  from Cons.prems(1) obtain t where t: "process_integrations rt depth (GetModuleInfo rt m) ints None s = Done t"
    and s': "process_modules rt depth ints ms t = Done s'" by (auto simp: outcome_simps)
  from process_integrations_targets [OF t _ Cons.prems(2)] Cons.IH [OF s'] show ?case
    by (simp add: selected_all_def)
qed (simp add: selected_all_def)


text \<open>The analysis changes the table of modules only.\<close>

definition modules_only :: "RejitHandler \<Rightarrow> RejitHandler \<Rightarrow> bool" where
  "modules_only h h' \<longleftrightarrow> (\<exists>mods. h' = h \<lparr>m_modules := mods\<rparr>)"

lemma modules_only_refl [simp]: "modules_only h h"
  unfolding modules_only_def by (rule exI [of _ "m_modules h"]) simp

lemma modules_only_trans: "modules_only a b \<Longrightarrow> modules_only b c \<Longrightarrow> modules_only a c"
  by (auto simp: modules_only_def)

lemma modules_only_put [simp]: "modules_only h (put_module h k m)"
  by (auto simp: modules_only_def put_module_def)

lemma GetOrAddModule_only: "GetOrAddModule k h = (r, h') \<Longrightarrow> modules_only h h'"
  by (auto simp: GetOrAddModule_def Let_def split: if_splits option.splits)

lemma store_method_only:
  assumes "store_method md ai mi i d fi h = Some h'"
  shows "modules_only h h'"
proof -
  from assms obtain m h1 where m: "GetOrAddModule (module_id mi) h = (Some m, h1)"
    by (auto simp: store_method_def split: prod.splits option.splits)
  with assms obtain m' where "h' = put_module h1 (module_id mi) m'"
    by (auto simp: store_method_def Let_def split: prod.splits)
  then show ?thesis using modules_only_trans [OF GetOrAddModule_only [OF m] modules_only_put] by simp
qed

interpretation only: kept_by_storing "\<lambda>s s'. modules_only (fst s) (fst s')" "\<lambda>_ _ _. True" depth for depth
  by unfold_locales (auto intro: modules_only_trans store_method_only)

lemma ProcessModuleForRejit_Done:
  assumes "ProcessModuleForRejit rt depth ms ints same h = Done (n, h')" and "\<not> m_shutdown h"
  obtains h1 where "process_modules rt depth ints ms (h, []) = Done (h1, selected_all rt depth ints ms)"
    and "modules_only h h1" and "n = of_nat (length (selected_all rt depth ints ms))"
    and "h' = (if n = 0 then h1 else if same
        then RequestRejit rt (map fst (selected_all rt depth ints ms)) (map snd (selected_all rt depth ints ms)) h1
        else EnqueueForRejit (map fst (selected_all rt depth ints ms)) (map snd (selected_all rt depth ints ms)) h1)"
proof -
  from assms obtain h1 vt where p: "process_modules rt depth ints ms (h, []) = Done (h1, vt)"
    and n: "n = of_nat (length vt)"
    and h': "h' = (if 0 < n then if same then RequestRejit rt (map fst vt) (map snd vt) h1
      else EnqueueForRejit (map fst vt) (map snd vt) h1 else h1)"
    by (auto simp: ProcessModuleForRejit_def outcome_simps Let_def)
  have "vt = selected_all rt depth ints ms" using process_modules_targets [OF p] assms(2) by simp
  moreover have "modules_only h h1" using only.modules [OF p] by simp
  ultimately show ?thesis using p n h' by (intro that [of h1]) (auto simp: word_neq_0_conv)
qed

lemma searched_requests: "searched h h' \<Longrightarrow> rejit_requests h' = rejit_requests h"
  by (auto simp: searched_queued)

text \<open>
  C15: The analysis of modules requests exactly the selected methods, module by module and
  integration by integration, in their order, in one request: sent to the runtime at once on
  the handler's own thread, queued otherwise; and nothing where none is selected. Loading the
  metadata once for a module, at the first integration that concerns it, makes no difference.
\<close>

theorem ProcessModuleForRejit_exact:
  assumes "ProcessModuleForRejit rt depth ms ints same h = Done (n, h')" and "\<not> m_shutdown h"
    and "length (selected_all rt depth ints ms) < 2 ^ 32"
  shows "let ts = selected_all rt depth ints ms; request = (map fst ts, map snd ts) in
    unat n = length ts \<and>
    (if ts = [] then rejit_requests h' = rejit_requests h \<and> m_rejit_queue h' = m_rejit_queue h
     else if same then rejit_requests h' = rejit_requests h @ [request]
     else rejit_requests h' = rejit_requests h \<and>
       m_rejit_queue h' = m_rejit_queue h @ [RejitRequest (fst request) (snd request)])"
proof -
  obtain h1 where o: "modules_only h h1" and n: "n = of_nat (length (selected_all rt depth ints ms))"
    and h': "h' = (if n = 0 then h1 else if same
      then RequestRejit rt (map fst (selected_all rt depth ints ms)) (map snd (selected_all rt depth ints ms)) h1
      else EnqueueForRejit (map fst (selected_all rt depth ints ms)) (map snd (selected_all rt depth ints ms)) h1)"
    using ProcessModuleForRejit_Done [OF assms(1,2)] by metis
  let ?ts = "selected_all rt depth ints ms"
  have l: "unat n = length ?ts" using assms(3) by (simp add: n unat_of_nat32)
  then have z: "n = 0 \<longleftrightarrow> ?ts = []" by (metis length_0_conv unat_eq_zero)
  from o have h1: "rejit_requests h1 = rejit_requests h" "m_rejit_queue h1 = m_rejit_queue h" "\<not> m_shutdown h1"
    using assms(2) by (auto simp: modules_only_def)
  show ?thesis
  proof (cases "?ts = []")
    case False
    have "rejit_requests (RequestRejit rt (map fst ?ts) (map snd ?ts) h1) = rejit_requests h @ [(map fst ?ts, map snd ?ts)]"
      using searched_requests [OF RequestRejit_searched [of h1 "map fst ?ts" "map snd ?ts" rt]] False h1 by simp
    then show ?thesis using False l z h1 by (simp add: h' Let_def EnqueueForRejit_def push_def)
  qed (use l z h1 h' in \<open>simp add: Let_def\<close>)
qed


section \<open>From the analysis to the rewriter\<close>

text \<open>The tables of modules and of methods are maps to their clients.\<close>

interpretation module_table: memo_map find_module put_module
  by unfold_locales (simp add: find_module_def put_module_def AList.update_conv)

interpretation method_table: memo_map find_method put_method
  by unfold_locales (simp add: find_method_def put_method_def AList.update_conv)

lemmas table_simps = module_table.lookup_insert method_table.lookup_insert

definition entry :: "RejitHandler \<Rightarrow> u64 \<Rightarrow> mdToken \<Rightarrow> RejitHandlerModuleMethod option" where
  "entry h mid d = (case find_module h mid of None \<Rightarrow> None | Some m \<Rightarrow> find_method m d)"

text \<open>The method is ready to be rewritten with the given information and replacement.\<close>

definition ready :: "RejitHandler \<Rightarrow> u64 \<Rightarrow> mdToken \<Rightarrow> FunctionInfo \<Rightarrow> MethodReplacement \<Rightarrow> bool" where
  "ready h mid d fi r \<longleftrightarrow>
     (\<exists>me. entry h mid d = Some me \<and> m_functionInfo me = Some fi \<and> m_methodReplacement me = Some r)"

lemma GetOrAddModule_entry:
  "GetOrAddModule k h = (Some m, h') \<Longrightarrow>
   find_module h' k = Some m \<and> (\<forall>mid d. entry h' mid d = entry h mid d) \<and> (\<forall>d. find_method m d = entry h k d)"
  by (auto simp: GetOrAddModule_def entry_def table_simps new_RejitHandlerModule_def find_method_def Let_def
      split: if_splits option.splits)

lemma GetOrAddMethod_entry:
  "GetOrAddMethod d m = (me, m') \<Longrightarrow>
   me = (case find_method m d of None \<Rightarrow> new_RejitHandlerModuleMethod d | Some me \<Rightarrow> me) \<and>
   (\<forall>d'. d' \<noteq> d \<longrightarrow> find_method m' d' = find_method m d')"
  by (auto simp: GetOrAddMethod_def table_simps Let_def split: option.splits)

text \<open>The entry a method gets: what is there stays, what is missing is filled in.\<close>

definition filled :: "mdToken \<Rightarrow> FunctionInfo \<Rightarrow> MethodReplacement \<Rightarrow> RejitHandlerModuleMethod option \<Rightarrow>
    RejitHandlerModuleMethod" where
  "filled d fi r me =
     (let me = (case me of None \<Rightarrow> new_RejitHandlerModuleMethod d | Some me \<Rightarrow> me);
          me = (if m_functionInfo me = None then me \<lparr>m_functionInfo := Some fi\<rparr> else me)
      in if m_methodReplacement me = None then me \<lparr>m_methodReplacement := Some r\<rparr> else me)"

lemma store_method_entry:
  assumes "store_method md ai mi i d fi h = Some h'"
  shows "entry h' k d' = (if k = module_id mi \<and> d' = d then Some (filled d fi (replacement i) (entry h k d))
    else entry h k d')"
proof -
  obtain m h1 where m: "GetOrAddModule (module_id mi) h = (Some m, h1)"
    using assms by (auto simp: store_method_def split: prod.splits option.splits)
  define m1 where "m1 = (if m_metadata m = None then m \<lparr>m_metadata := Some (new_ModuleMetadata md ai
    (assembly_name (module_assembly mi)) (app_domain_id (module_assembly mi)) (m_pCorAssemblyProperty h1))\<rparr> else m)"
  obtain me m2 where me: "GetOrAddMethod d m1 = (me, m2)" by (cases "GetOrAddMethod d m1")
  from GetOrAddModule_entry [OF m] have m': "find_module h1 (module_id mi) = Some m"
    "\<And>k d. entry h1 k d = entry h k d" "\<And>d. find_method m d = entry h (module_id mi) d" by auto
  have m1: "find_method m1 = find_method m" by (auto simp: m1_def find_method_def)
  note e = GetOrAddMethod_entry [OF me, unfolded m1 m'(3)]
  have "h' = put_module h1 (module_id mi) (put_method m2 d (filled d fi (replacement i) (entry h (module_id mi) d)))"
    using assms unfolding store_method_def m filled_def
    by (simp add: me [unfolded m1_def] e [THEN conjunct1, symmetric] Let_def split del: if_split)
  then show ?thesis using e m'
    by (auto simp: entry_def table_simps)
qed

lemma entry_ok: "rejit_ok h \<Longrightarrow> entry h k d = Some me \<Longrightarrow> method_ok (d, me)"
  by (auto simp: entry_def find_method_def module_ok_def split: option.splits
      dest!: find_module_ok map_of_SomeD)

lemma filled_ready: "rejit_ok h \<Longrightarrow> \<exists>fi' r'. m_functionInfo (filled d fi r (entry h k d)) = Some fi' \<and>
    m_methodReplacement (filled d fi r (entry h k d)) = Some r' \<and>
    (ready h k d fi' r' \<or> fi' = fi \<and> r' = r)"
  using entry_ok [of h k d]
  by (cases "entry h k d")
    (auto simp: filled_def new_RejitHandlerModuleMethod_def ready_def method_ok_def prepared_def)

text \<open>
  Where the analysis of modules takes an entry from: it was there before, or the function
  information is the checked one and the replacement that of an integration.
\<close>

definition analysed ::
  "Runtime \<Rightarrow> IntegrationMethod list \<Rightarrow> u64 list \<Rightarrow> ModuleInfo \<Rightarrow> MetaDataImport \<Rightarrow> IntegrationMethod \<Rightarrow> bool" where
  "analysed rt ints ms mi md i \<longleftrightarrow>
     (\<exists>m\<in>set ms. mi = GetModuleInfo rt m) \<and> i \<in> set ints \<and> (\<exists>ai am. load_metadata rt mi = Some (md, ai, am))"

definition fresh_from ::
  "Runtime \<Rightarrow> nat \<Rightarrow> IntegrationMethod list \<Rightarrow> u64 list \<Rightarrow> u64 \<Rightarrow> mdToken \<Rightarrow> FunctionInfo \<Rightarrow> MethodReplacement \<Rightarrow> bool" where
  "fresh_from rt depth ints ms k d fi r \<longleftrightarrow>
     (\<exists>mi md i. analysed rt ints ms mi md i \<and> concerns mi i \<and> module_id mi = k \<and> replacement i = r \<and>
        check_method depth md i d = Done (Some fi))"

definition came_from ::
  "Runtime \<Rightarrow> nat \<Rightarrow> IntegrationMethod list \<Rightarrow> u64 list \<Rightarrow> RejitHandler \<times> targets \<Rightarrow> RejitHandler \<times> targets \<Rightarrow> bool" where
  "came_from rt depth ints ms s s' \<longleftrightarrow> (rejit_ok (fst s) \<longrightarrow> rejit_ok (fst s') \<and>
     (\<forall>k d fi r. ready (fst s) k d fi r \<longrightarrow> ready (fst s') k d fi r) \<and>
     (\<forall>k d fi r. ready (fst s') k d fi r \<longrightarrow> ready (fst s) k d fi r \<or> fresh_from rt depth ints ms k d fi r) \<and>
     (\<forall>k d. (k, d) \<in> set (snd s') \<longrightarrow> (k, d) \<in> set (snd s) \<or> (\<exists>fi r. ready (fst s') k d fi r)))"

lemma came_from_trans: "came_from rt depth ints ms s s1 \<Longrightarrow> came_from rt depth ints ms s1 s2 \<Longrightarrow> came_from rt depth ints ms s s2"
  unfolding came_from_def by (intro impI conjI allI) metis+

lemma ready_filled: "ready h k d fi r \<Longrightarrow> m_functionInfo (filled d fi' r' (entry h k d)) = Some fi \<and>
    m_methodReplacement (filled d fi' r' (entry h k d)) = Some r"
  by (auto simp: ready_def filled_def)

interpretation origin: kept_by_storing "came_from rt depth ints ms" "analysed rt ints ms" depth
  for rt depth ints ms
proof unfold_locales
  fix md ai mi i d fi h h' ts
  assume s: "store_method md ai mi i d fi h = Some h'" and c: "check_method depth md i d = Done (Some fi)"
    and i: "concerns mi i" and a: "analysed rt ints ms mi md i"
  note e = store_method_entry [OF s]
  have "rejit_ok h'" if "rejit_ok h"
    using store_method_ok [OF that s check_method_passed [OF c]] i by (simp add: concerns_def)
  moreover have "ready h' k d' fi' r'" if "ready h k d' fi' r'" for k d' fi' r'
    using that ready_filled [of h k d' fi' r' fi "replacement i"] by (auto simp: ready_def e)
  moreover have "ready h k d' fi' r' \<or> fresh_from rt depth ints ms k d' fi' r'"
    if "rejit_ok h" and r: "ready h' k d' fi' r'" for k d' fi' r'
  proof (cases "k = module_id mi \<and> d' = d")
    case True
    with r filled_ready [OF that(1), of d fi "replacement i" k] show ?thesis
      using a i c by (auto simp: ready_def e fresh_from_def)
  next
    case False
    with r show ?thesis by (auto simp: ready_def e)
  qed
  moreover have "\<exists>fi r. ready h' (module_id mi) d fi r" if "rejit_ok h"
    using filled_ready [OF that, of d fi "replacement i" "module_id mi"] by (auto simp: ready_def e)
  ultimately show "came_from rt depth ints ms (h, ts) (h', ts @ [(module_id mi, d)])"
    unfolding came_from_def by auto
next
  fix s show "came_from rt depth ints ms s s" by (simp add: came_from_def)
qed (rule came_from_trans)


lemma searched_ready:
  assumes "searched h h'"
  shows "ready h' k d fi r \<longleftrightarrow> ready h k d fi r"
proof -
  from assms have "rel_option marked (find_module h k) (find_module h' k)"
    by (auto simp: searched_queued find_module_def dest: same_keys_lookup)
  then have "rel_option marks (entry h k d) (entry h' k d)"
    by (cases rule: option.rel_cases)
      (auto simp: entry_def marked_def find_method_def dest: same_keys_lookup)
  then show ?thesis
    by (cases rule: option.rel_cases) (auto simp: ready_def marks_def)
qed

lemma same_modules_ready: "m_modules h' = m_modules h \<Longrightarrow> ready h' k d fi r = ready h k d fi r"
  by (simp add: ready_def entry_def find_module_def)

lemma NotifyReJITParameters_entry:
  assumes "\<not> m_shutdown h"
  shows "entry (snd (NotifyReJITParameters cb mid d control h)) k d' =
    (if k = mid \<and> d' = d then Some ((case entry h k d of None \<Rightarrow> new_RejitHandlerModuleMethod d | Some me \<Rightarrow> me)
       \<lparr>m_pFunctionControl := control\<rparr>) else entry h k d')"
proof -
  obtain m1 h1 me m2 where m: "GetOrAddModule mid h = (Some m1, h1)" and me: "GetOrAddMethod d m1 = (me, m2)"
    and n: "NotifyReJITParameters cb mid d control h =
      (let me = me \<lparr>m_pFunctionControl := control\<rparr>; m3 = put_method m2 d me; h2 = put_module h1 mid m3
       in if m_methodDef me = mdMethodDefNil \<or> control = 0 \<or> m_functionInfo me = None \<or>
             m_methodReplacement me = None \<or> m_moduleId m3 = 0 \<or> m_metadata m3 = None then (S_FALSE, h2)
          else (cb m3 me, h2 \<lparr>rewritten := rewritten h2 @ [(m3, me)]\<rparr>))"
    using assms by (rule NotifyReJITParameters_cases)
  have rw: "entry (h2 \<lparr>rewritten := x\<rparr>) = entry h2" for h2 x by (auto simp: entry_def find_module_def fun_eq_iff)
  have "entry (snd (NotifyReJITParameters cb mid d control h)) k d' =
      entry (put_module h1 mid (put_method m2 d (me \<lparr>m_pFunctionControl := control\<rparr>))) k d'"
    by (simp add: n Let_def rw)
  then show ?thesis using GetOrAddModule_entry [OF m] GetOrAddMethod_entry [OF me]
    by (auto simp: entry_def table_simps)
qed

lemma NotifyReJITParameters_ready:
  "ready h k d' fi r \<Longrightarrow> ready (snd (NotifyReJITParameters cb mid d control h)) k d' fi r"
proof (cases "m_shutdown h")
  case True
  then show "ready h k d' fi r \<Longrightarrow> ?thesis" by (simp add: NotifyReJITParameters_def)
next
  case False
  then show "ready h k d' fi r \<Longrightarrow> ?thesis" by (auto simp: ready_def NotifyReJITParameters_entry)
qed

lemma NotifyReJITParameters_calls:
  assumes ok: "rejit_ok h" and up: "\<not> m_shutdown h" and r: "ready h mid d fi r"
    and nz: "mid \<noteq> 0" "d \<noteq> mdMethodDefNil" "control \<noteq> 0"
  shows "\<exists>mh me h'. NotifyReJITParameters cb mid d control h = (cb mh me, h') \<and>
    rewritten h' = rewritten h @ [(mh, me)] \<and> m_moduleId mh = mid \<and> m_metadata mh \<noteq> None \<and> m_methodDef me = d \<and>
    m_functionInfo me = Some fi \<and> m_methodReplacement me = Some r \<and> m_pFunctionControl me = control"
proof -
  obtain m1 h1 me m2 where m: "GetOrAddModule mid h = (Some m1, h1)" and me: "GetOrAddMethod d m1 = (me, m2)"
    and n: "NotifyReJITParameters cb mid d control h =
      (let me = me \<lparr>m_pFunctionControl := control\<rparr>; m3 = put_method m2 d me; h2 = put_module h1 mid m3
       in if m_methodDef me = mdMethodDefNil \<or> control = 0 \<or> m_functionInfo me = None \<or>
             m_methodReplacement me = None \<or> m_moduleId m3 = 0 \<or> m_metadata m3 = None then (S_FALSE, h2)
          else (cb m3 me, h2 \<lparr>rewritten := rewritten h2 @ [(m3, me)]\<rparr>))"
    using up by (rule NotifyReJITParameters_cases)
  from r obtain me' where me': "entry h mid d = Some me'" "m_functionInfo me' = Some fi" "m_methodReplacement me' = Some r"
    by (auto simp: ready_def)
  then have e: "me = me'" using GetOrAddModule_entry [OF m] GetOrAddMethod_entry [OF me] by simp
  from GetOrAddModule_ok [OF ok m] have m1: "module_ok (mid, m1)" by simp
  from GetOrAddMethod_ok [OF m1 me] have m2: "module_ok (mid, m2)" "method_ok (d, me)" "m_metadata m2 = m_metadata m1"
    and md: "prepared me \<longrightarrow> m_metadata m2 \<noteq> None" by auto
  have "m_metadata m2 \<noteq> None" using md m2(2) me' e by (auto simp: method_ok_def)
  moreover have "m_moduleId m2 = mid" "m_methodDef me = d" using m2(1,2) by (auto simp: module_ok_def method_ok_def)
  moreover have "rewritten h1 = rewritten h" using GetOrAddModule_only [OF m] by (auto simp: modules_only_def)
  ultimately show ?thesis using nz me' e unfolding n
    by (auto simp: Let_def put_method_def put_module_def)
qed


section \<open>Instances\<close>

definition sample_integration :: IntegrationMethod where
  "sample_integration = \<lparr>integration_name = WStr ''Sample'',
     replacement = \<lparr>caller_method = no_MethodReference,
       target_method = sample_reference \<lparr>assembly := AssemblyReference (WStr ''Some.Assembly'') (Version 0 0 0 0) [] zero_key,
         type_name_of := WStr ''Outer'', max_version := Version 65535 65535 0 0,
         signature_types := [WStr ''System.Void'', WStr ''System.Int32'']\<rparr>,
       wrapper_method = no_MethodReference \<lparr>action := calltarget_modification_action\<rparr>\<rparr>\<rparr>"

definition sample_assembly_import :: AssemblyImport where
  "sample_assembly_import = \<lparr>GetAssemblyFromScope = (S_OK, 0x20000001),
     GetAssemblyProps = (\<lambda>tk. (S_OK, WStr ''Some.Assembly'', 14, \<lparr>usMajorVersion = 2, usMinorVersion = 1,
       usBuildNumber = 0, usRevisionNumber = 0\<rparr>)),
     GetAssemblyRefProps = (\<lambda>tk. (E_FAIL, [], 0, \<lparr>usMajorVersion = 0, usMinorVersion = 0,
       usBuildNumber = 0, usRevisionNumber = 0\<rparr>)),
     EnumAssemblyRefs = []\<rparr>"

text \<open>One application module, 7, and the answers of the inliner query.\<close>

definition sample_runtime :: "(u64 \<Rightarrow> u64 \<Rightarrow> mdToken \<Rightarrow> hresult \<times> bool \<times> targets) \<Rightarrow> Runtime" where
  "sample_runtime inliners = \<lparr>prof_GetAssemblyInfo = (\<lambda>a. (S_OK, WStr ''Some.Assembly'', 14, 1, 7)),
     prof_GetAppDomainInfo = (\<lambda>d. (S_OK, WStr ''App'', 4)),
     prof_GetModuleInfo2 = (\<lambda>m. if m = 7 then (S_OK, WStr ''Some.dll'', 9, 3, 2) else (E_FAIL, [], 0, 0, 0)),
     GetModuleMetaData = (\<lambda>m. (S_OK, sample_metadata, sample_assembly_import)),
     EnumNgenModuleMethodsInliningThisMethod = inliners\<rparr>"

definition no_inliners :: "u64 \<Rightarrow> u64 \<Rightarrow> mdToken \<Rightarrow> hresult \<times> bool \<times> targets" where
  "no_inliners m c d = (S_OK, False, [])"

lemma sample_check: "\<exists>fi. check_method 4 sample_metadata sample_integration 0x06000001 = Done (Some fi)"
proof -
  have "case check_method 4 sample_metadata sample_integration 0x06000001 of Done (Some fi) \<Rightarrow> True | _ \<Rightarrow> False"
    by code_simp
  then show ?thesis by (auto split: outcome.splits option.splits)
qed

lemma sample_target: "selected_all (sample_runtime f) 4 [sample_integration] [7] = [(7, 0x06000001)]"
proof -
  have mi: "GetModuleInfo (sample_runtime f) 7 = \<lparr>module_id = 7, module_path = WStr ''Some.dll'', module_assembly =
      \<lparr>assembly_id = 3, assembly_name = WStr ''Some.Assembly'', manifest_module_id = 7, app_domain_id = 1,
       app_domain_name = WStr ''App''\<rparr>, module_flags = 2\<rparr>"
    unfolding GetModuleInfo_def GetAssemblyInfo_def by (simp add: sample_runtime_def FAILED_def)
  have "in_range (Version 2 1 0 0) (target_method (replacement sample_integration))"
    by (simp add: in_range_def sample_integration_def sample_reference_def version_less_def
        flip: not_less version_less_triple)
  moreover have "metadata_version (GetAssemblyImportMetadata sample_assembly_import) = Version 2 1 0 0" by code_simp
  moreover have "FindTypeDefByName sample_metadata (WStr ''Outer'') = Some 0x02000002" by code_simp
  moreover have "enumerated (EnumMethodsWithName sample_metadata 0x02000002 (WStr ''Run'')) = [0x06000001]" by code_simp
  moreover have "load_metadata (sample_runtime f) (GetModuleInfo (sample_runtime f) 7) =
      Some (sample_metadata, sample_assembly_import, GetAssemblyImportMetadata sample_assembly_import)"
    unfolding load_metadata_def by (simp add: sample_runtime_def)
  moreover have "type_name_of (target_method (replacement sample_integration)) = WStr ''Outer''"
    "method_name (target_method (replacement sample_integration)) = WStr ''Run''" by code_simp+
  moreover have "concerns (GetModuleInfo (sample_runtime f) 7) sample_integration"
    unfolding mi by code_simp
  moreover have "module_id (GetModuleInfo (sample_runtime f) 7) = 7" by (simp add: mi)
  ultimately show ?thesis using sample_check by (simp add: selected_all_def selected_def Let_def)
qed

definition sample_handler :: RejitHandler where "sample_handler = new_RejitHandler True"

lemma sample_process:
  "\<exists>h. ProcessModuleForRejit (sample_runtime no_inliners) 4 [7] [sample_integration] True sample_handler = Done (1, h)"
proof -
  have "case ProcessModuleForRejit (sample_runtime no_inliners) 4 [7] [sample_integration] True sample_handler of
      Done r \<Rightarrow> fst r = 1 | _ \<Rightarrow> False"
    by code_simp
  then show ?thesis by (cases "ProcessModuleForRejit (sample_runtime no_inliners) 4 [7] [sample_integration] True sample_handler")
    (auto simp: split_paired_all)
qed

lemma sample_handler_up: "\<not> m_shutdown sample_handler" "rejit_ok sample_handler"
  by (simp_all add: sample_handler_def new_RejitHandler_ok) (simp add: new_RejitHandler_def)



theorem ProcessModuleForRejit_exact_witness:
  "\<exists>h. ProcessModuleForRejit (sample_runtime no_inliners) 4 [7] [sample_integration] True sample_handler = Done (1, h) \<and>
     rejit_requests h = [([7], [0x06000001])]"
proof -
  obtain h where h: "ProcessModuleForRejit (sample_runtime no_inliners) 4 [7] [sample_integration] True sample_handler = Done (1, h)"
    using sample_process by blast
  have "rejit_requests sample_handler = []" by code_simp
  with ProcessModuleForRejit_exact [OF h sample_handler_up(1)] h show ?thesis by (simp add: sample_target)
qed


end
