(* ===== verification/RejitThread.thy ===== *)
theory RejitThread
  imports RejitAnalysis
begin

text \<open>
  The thread of the rejit handler over time: the order it serves its queue in, when it comes to
  rest and when it does not, what becomes of the promises, and how the shutdown ends it.
\<close>

section \<open>A round\<close>

text \<open>A round that goes on: the head of the queue is served, and requests are queued behind the rest.\<close>

definition serves :: "Runtime \<Rightarrow> nat \<Rightarrow> RejitHandler \<Rightarrow> RejitHandler \<Rightarrow> bool" where
  "serves rt depth h h' \<longleftrightarrow> thread_round rt depth h = Some (Done (True, h'))"

lemma RequestRejit_queue:
  "\<exists>q. m_rejit_queue (RequestRejit rt ms ds h) = m_rejit_queue h @ q \<and> (\<forall>i\<in>set q. request_of_pairs i)"
  using RequestRejit_searched [of h ms ds rt] by (auto simp: searched_queued split: if_splits)

lemma RequestRejit_frame:
  "m_shutdown (RequestRejit rt ms ds h) = m_shutdown h \<and> promises (RequestRejit rt ms ds h) = promises h \<and>
   m_profilerInfo6 (RequestRejit rt ms ds h) = m_profilerInfo6 h \<and>
   m_ngenModules (RequestRejit rt ms ds h) = m_ngenModules h \<and>
   thread_running (RequestRejit rt ms ds h) = thread_running h"
  using RequestRejit_searched [of h ms ds rt] by (auto simp: searched_queued split: if_splits)

lemma ProcessModuleForRejit_same_thread:
  assumes "ProcessModuleForRejit rt depth ms ints True h = Done (n, h')"
  obtains h1 a b where "modules_only h h1" and "h' = h1 \<or> h' = RequestRejit rt a b h1"
proof (cases "m_shutdown h")
  case True
  with assms show ?thesis by (intro that [of h]) (simp_all add: ProcessModuleForRejit_def)
next
  case False
  from ProcessModuleForRejit_Done [OF assms False] show ?thesis by (metis that)
qed

text \<open>What a round does to the queue and to the promises, by the item it serves.\<close>

definition answers :: "RejitItem \<Rightarrow> nat \<Rightarrow> bool" where
  "answers item p \<longleftrightarrow> (case item of
     ProcessRequest ms ints (Some p') \<Rightarrow> p' = p \<and> ms \<noteq> [] \<and> ints \<noteq> [] | _ \<Rightarrow> False)"

text \<open>The promises that get a value are those of a set; the others stay as they are.\<close>

definition fulfils :: "(nat \<Rightarrow> bool) \<Rightarrow> RejitHandler \<Rightarrow> RejitHandler \<Rightarrow> bool" where
  "fulfils A h h' \<longleftrightarrow> (\<forall>p. if A p then promises h' p \<noteq> None else promises h' p = promises h p)"

lemma fulfils_same: "promises h' = promises h \<Longrightarrow> fulfils (\<lambda>p. False) h h'"
  by (simp add: fulfils_def)

lemma fulfils_trans: "fulfils A h h1 \<Longrightarrow> fulfils B h1 h2 \<Longrightarrow> fulfils (\<lambda>p. A p \<or> B p) h h2"
  by (auto simp: fulfils_def split: if_splits)

lemma fulfilsD: "fulfils A h h' \<Longrightarrow> promises h p = None \<Longrightarrow> promises h' p \<noteq> None \<longleftrightarrow> A p"
  by (auto simp: fulfils_def split: if_splits)

lemma answers_iff:
  "answers item p \<longleftrightarrow> (\<exists>ms ints. item = ProcessRequest ms ints (Some p) \<and> ms \<noteq> [] \<and> ints \<noteq> [])"
  by (auto simp: answers_def split: RejitItem.split option.split)

lemma request_answers: "request_of_pairs i \<Longrightarrow> \<not> answers i p" "request_of_pairs i \<Longrightarrow> i \<noteq> EndRejitThread"
  by (auto simp: request_of_pairs_def answers_def)

lemma process_item_effect:
  assumes "process_item rt depth item h = Done (g, h')"
  shows "(g \<longleftrightarrow> item \<noteq> EndRejitThread) \<and>
    (\<exists>q. m_rejit_queue h' = m_rejit_queue h @ q \<and> (\<forall>i\<in>set q. request_of_pairs i)) \<and>
    fulfils (answers item) h h' \<and> thread_running h' = thread_running h"
proof (cases item)
  case EndRejitThread
  with assms show ?thesis by (simp add: process_item_def answers_def fulfils_def)
next
  case (RejitRequest ms ds)
  with assms RequestRejit_queue [of rt ms ds h] RequestRejit_frame [of rt ms ds h] show ?thesis
    by (auto simp: process_item_def answers_def fulfils_def split: if_splits)
next
  case (ProcessRequest ms ints pr)
  show ?thesis
  proof (cases "ms = [] \<or> ints = []")
    case True
    then have "\<not> answers item p" for p using ProcessRequest by (auto simp: answers_def split: option.splits)
    with True ProcessRequest assms show ?thesis by (auto simp: process_item_def fulfils_def)
  next
    case False
    with assms ProcessRequest obtain n h2 where p: "ProcessModuleForRejit rt depth ms ints True h = Done (n, h2)"
      and g: g and h': "h' = (case pr of None \<Rightarrow> h2 | Some p \<Rightarrow> h2 \<lparr>promises := (promises h2)(p \<mapsto> n)\<rparr>)"
      by (auto simp: process_item_def outcome_simps)
    obtain h1 a b where "modules_only h h1" "h2 = h1 \<or> h2 = RequestRejit rt a b h1"
      using ProcessModuleForRejit_same_thread [OF p] by metis
    then have "(\<exists>q. m_rejit_queue h2 = m_rejit_queue h @ q \<and> (\<forall>i\<in>set q. request_of_pairs i)) \<and>
        promises h2 = promises h \<and> thread_running h2 = thread_running h"
      using RequestRejit_queue [of rt a b h1] RequestRejit_frame [of rt a b h1]
      by (auto simp: modules_only_def)
    then show ?thesis using g h' False ProcessRequest
      by (auto simp: answers_def fulfils_def split: option.splits)
  qed
qed

lemma thread_round_effect:
  assumes "thread_round rt depth h = Some (Done (g, h'))"
  obtains item rest q where "m_rejit_queue h = item # rest" and "m_rejit_queue h' = rest @ q"
    and "\<And>i. i \<in> set q \<Longrightarrow> request_of_pairs i" and "g \<longleftrightarrow> item \<noteq> EndRejitThread"
    and "fulfils (answers item) h h'"
    and "thread_running h' = thread_running h"
proof (cases "m_rejit_queue h")
  case (Cons item rest)
  with assms have "process_item rt depth item (h \<lparr>m_rejit_queue := rest\<rparr>) = Done (g, h')"
    by (simp add: thread_round_def)
  note e = process_item_effect [OF this]
  have "fulfils (answers item) h h'" using e by (simp add: fulfils_def)
  with e Cons show ?thesis by (auto intro!: that)
qed (use assms in \<open>simp add: thread_round_def\<close>)

section \<open>The end of the thread\<close>

lemma loop_round:
  "thread_round rt depth h = Some (Done (g, h')) \<Longrightarrow> EnqueueThreadLoop rt depth h =
    (if g then EnqueueThreadLoop rt depth h' else Some (Done (h' \<lparr>thread_running := False\<rparr>)))"
  by (subst EnqueueThreadLoop.simps) simp

text \<open>A queue that holds an end item is served up to it, whatever is queued in the meantime.\<close>

lemma EnqueueThreadLoop_until_end:
  "m_rejit_queue h = before @ EndRejitThread # after \<Longrightarrow> EndRejitThread \<notin> set before \<Longrightarrow>
   \<exists>r. EnqueueThreadLoop rt depth h = Some r \<and>
     (\<forall>h'. r = Done h' \<longrightarrow> \<not> thread_running h' \<and>
       fulfils (\<lambda>p. \<exists>i\<in>set before. answers i p) h h')"
proof (induction before arbitrary: h after)
  case Nil
  then have "thread_round rt depth h = Some (Done (False, h \<lparr>m_rejit_queue := after\<rparr>))"
    by (simp add: thread_round_def process_item_def)
  then show ?case by (subst EnqueueThreadLoop.simps) (simp add: fulfils_def)
next
  case (Cons item before)
  obtain r where r: "thread_round rt depth h = Some r" using Cons.prems(1) by (simp add: thread_round_def)
  show ?case
  proof (cases r)
    case (Done gh)
    obtain g h1 where gh: "gh = (g, h1)" by (cases gh)
    from r Done gh have "thread_round rt depth h = Some (Done (g, h1))" by simp
    from thread_round_effect [OF this] Cons.prems obtain q where
      q: "m_rejit_queue h1 = before @ EndRejitThread # (after @ q)" and g: g and f: "fulfils (answers item) h h1"
      by auto
    from Cons.IH [OF q] Cons.prems(2) obtain r1 where
      r1: "EnqueueThreadLoop rt depth h1 = Some r1" and e: "\<And>h'. r1 = Done h' \<Longrightarrow> \<not> thread_running h' \<and>
       fulfils (\<lambda>p. \<exists>i\<in>set before. answers i p) h1 h'"
      by auto
    have "EnqueueThreadLoop rt depth h = Some r1"
      by (subst EnqueueThreadLoop.simps) (simp add: r Done gh g r1)
    then show ?thesis using e fulfils_trans [OF f] by auto
  qed (subst EnqueueThreadLoop.simps, simp add: r)+
qed


text \<open>
  C18: The requests queued before the shutdown are served before it ends: a promise that had no
  value gets one if it belongs to a request for at least one module and at least one
  integration. A request with an empty list is passed over with its promise, on which its
  maker then waits without end.
\<close>

theorem Shutdown_promises:
  assumes "Shutdown rt depth h = Some (Done h')" and "thread_running h"
    and "EndRejitThread \<notin> set (m_rejit_queue h)" and "promises h p = None"
  shows "promises h' p \<noteq> None \<longleftrightarrow>
    (\<exists>ms ints. ProcessRequest ms ints (Some p) \<in> set (m_rejit_queue h) \<and> ms \<noteq> [] \<and> ints \<noteq> [])"
proof -
  have q: "m_rejit_queue (push EndRejitThread h) = m_rejit_queue h @ EndRejitThread # []"
    and tr: "thread_running (push EndRejitThread h)"
    and pr: "promises (push EndRejitThread h) = promises h" using assms(2) by (simp_all add: push_def)
  from assms(1) tr obtain h1 where "EnqueueThreadLoop rt depth (push EndRejitThread h) = Some (Done h1)"
    and h': "h' = clear_handler h1" by (auto simp: Shutdown_def Let_def outcome_simps)
  with EnqueueThreadLoop_until_end [OF q assms(3), of rt depth]
  have "fulfils (\<lambda>p. \<exists>i\<in>set (m_rejit_queue h). answers i p) (push EndRejitThread h) h1" by simp
  then have "promises h' p \<noteq> None \<longleftrightarrow> (\<exists>i\<in>set (m_rejit_queue h). answers i p)"
    using assms(4) fulfilsD [of _ "push EndRejitThread h" h1 p] by (simp add: h' clear_handler_def pr)
  also have "\<dots> \<longleftrightarrow> (\<exists>ms ints. ProcessRequest ms ints (Some p) \<in> set (m_rejit_queue h) \<and> ms \<noteq> [] \<and> ints \<noteq> [])"
    unfolding answers_iff by blast
  finally show ?thesis .
qed

section \<open>After the shutdown\<close>

text \<open>
  C22: After the shutdown the handler stays shut down: whatever is called on it, no rejit is
  requested any more, no method is rewritten and no module is entered.
\<close>

theorem shut_down_for_good:
  assumes "rejit_steps h h'" and "m_shutdown h" and "\<not> thread_running h" and "m_modules h = []"
  shows "m_shutdown h' \<and> \<not> thread_running h' \<and> m_modules h' = [] \<and>
    rejit_requests h' = rejit_requests h \<and> rewritten h' = rewritten h"
  using assms
proof (induction rule: rtranclp_induct)
  case (step h1 h2)
  then have h1: "m_shutdown h1" "\<not> thread_running h1" "m_modules h1 = []"
    "rejit_requests h1 = rejit_requests h" "rewritten h1 = rewritten h" by auto
  from step.hyps(2) h1 show ?case
    by (cases rule: rejit_step.cases)
      (auto simp: EnqueueForRejit_def EnqueueProcessModule_def GetOrAddModule_def RemoveModule_def AddNGenModule_def
        RequestRejitForNGenInliners_def SetCorAssemblyProfiler_def ProcessModuleForRejit_def
        NotifyReJITParameters_def push_def clear_handler_def split: option.split)
qed simp

section \<open>When the thread comes to rest\<close>

text \<open>
  The runtime answers each inliner query completely, or with an error. Then a pair of a method
  and an NGEN module makes at most one request: \<open>unmarked\<close> counts the pairs still to be made.
\<close>

definition complete_data :: "Runtime \<Rightarrow> bool" where
  "complete_data rt \<longleftrightarrow> (\<forall>m c d. let (hr, incomplete, inliners) = EnumNgenModuleMethodsInliningThisMethod rt m c d
     in FAILED hr \<or> \<not> incomplete)"

lemma complete_dataD:
  "complete_data rt \<Longrightarrow> EnumNgenModuleMethodsInliningThisMethod rt m c d = (hr, incomplete, inliners) \<Longrightarrow>
   FAILED hr \<or> \<not> incomplete"
  unfolding complete_data_def by (metis (no_types, lifting) case_prod_conv)

definition method_unmarked :: "u64 set \<Rightarrow> RejitHandlerModuleMethod \<Rightarrow> nat" where
  "method_unmarked S me = card {m\<in>S. m_method_ngenModules me m = None}"

definition total :: "('v \<Rightarrow> nat) \<Rightarrow> ('k \<times> 'v) list \<Rightarrow> nat" where
  "total f es = sum_list (map (f \<circ> snd) es)"

definition module_unmarked :: "u64 set \<Rightarrow> RejitHandlerModule \<Rightarrow> nat" where
  "module_unmarked S m = total (method_unmarked S) (m_methods m)"

definition unmarked :: "RejitHandler \<Rightarrow> nat" where
  "unmarked h = total (module_unmarked (set (m_ngenModules h))) (m_modules h)"

abbreviation waiting :: "RejitHandler \<Rightarrow> nat" where "waiting h \<equiv> length (m_rejit_queue h)"

text \<open>A loop over values keeps a bound that each turn keeps.\<close>

lemma for_values_total:
  assumes "\<And>v h. U (fst (f v h)) + waiting (snd (f v h)) \<le> U v + waiting h"
  shows "total U (fst (for_values f es h)) + waiting (snd (for_values f es h)) \<le> total U es + waiting h"
proof (induction es arbitrary: h)
  case (Cons e es)
  obtain v h1 where v: "f (snd e) h = (v, h1)" by (cases "f (snd e) h")
  obtain es' h2 where es: "for_values f es h1 = (es', h2)" by (cases "for_values f es h1")
  from assms [of "snd e" h] Cons.IH [of h1] show ?case by (simp add: v es total_def)
qed (simp add: total_def)

lemma method_search_total:
  assumes "complete_data rt" and "finite S" and "mid \<in> S"
  shows "method_unmarked S (fst (method_RequestRejitForInlinersInModule rt c mid me h)) +
      waiting (snd (method_RequestRejitForInlinersInModule rt c mid me h)) \<le> method_unmarked S me + waiting h"
proof (cases "m_method_ngenModules me mid = None")
  case True
  let ?N = "\<lambda>me. {m\<in>S. m_method_ngenModules me m = None}"
  let ?me = "me \<lparr>m_method_ngenModules := (m_method_ngenModules me)(mid \<mapsto> True)\<rparr>"
  have "?N ?me = ?N me - {mid}" by auto
  moreover have "Suc (card (?N me - {mid})) = card (?N me)"
    by (rule card_Suc_Diff1) (use True assms in auto)
  ultimately have "Suc (method_unmarked S ?me) = method_unmarked S me" by (simp add: method_unmarked_def)
  moreover from prod_cases3 obtain hr incomplete inliners where
    e: "EnumNgenModuleMethodsInliningThisMethod rt mid c (m_methodDef me) = (hr, incomplete, inliners)"
    by blast
  moreover have "FAILED hr \<or> \<not> incomplete" by (rule complete_dataD [OF assms(1) e])
  ultimately show ?thesis
    by (auto simp: method_RequestRejitForInlinersInModule_def EnqueueForRejit_def push_def)
qed (simp add: method_RequestRejitForInlinersInModule_def)

lemma module_search_total:
  assumes "complete_data rt" and "finite S" and "mid \<in> S"
  shows "module_unmarked S (fst (module_RequestRejitForInlinersInModule rt mid m h)) +
      waiting (snd (module_RequestRejitForInlinersInModule rt mid m h)) \<le> module_unmarked S m + waiting h"
  using for_values_total [of "method_unmarked S" "method_RequestRejitForInlinersInModule rt (m_moduleId m) mid"
      "m_methods m" h, OF method_search_total [OF assms]]
  by (auto simp: module_RequestRejitForInlinersInModule_def module_unmarked_def split: prod.split)

lemma search_total:
  assumes "complete_data rt" and "mid \<in> set (m_ngenModules h)"
  shows "unmarked (RequestRejitForInlinersInModule rt mid h) + waiting (RequestRejitForInlinersInModule rt mid h) \<le>
      unmarked h + waiting h"
proof (cases "m_shutdown h \<or> \<not> m_profilerInfo6 h")
  case False
  obtain mods h1 where f: "for_values (module_RequestRejitForInlinersInModule rt mid) (m_modules h) h = (mods, h1)"
    by (cases "for_values (module_RequestRejitForInlinersInModule rt mid) (m_modules h) h")
  with for_values_frame [of marked "module_RequestRejitForInlinersInModule rt mid" "m_modules h" h, OF module_search]
  have "m_ngenModules h1 = m_ngenModules h" by (auto simp: queued_def)
  with False f for_values_total [of "module_unmarked (set (m_ngenModules h))"
      "module_RequestRejitForInlinersInModule rt mid" "m_modules h" h,
      OF module_search_total [OF assms(1) _ assms(2)]]
  show ?thesis by (simp add: RequestRejitForInlinersInModule_def unmarked_def)
qed (auto simp: RequestRejitForInlinersInModule_def)

lemma RequestRejit_total:
  assumes "complete_data rt"
  shows "unmarked (RequestRejit rt ms ds h) + waiting (RequestRejit rt ms ds h) \<le> unmarked h + waiting h"
proof -
  have ngen: "m_ngenModules (RequestRejitForInlinersInModule rt mid h) = m_ngenModules h" for mid h
    using RequestRejitForInlinersInModule_searched [of h rt mid] by (auto simp: searched_queued)
  have "set ns \<subseteq> set (m_ngenModules h) \<Longrightarrow> unmarked (fold (RequestRejitForInlinersInModule rt) ns h) +
      waiting (fold (RequestRejitForInlinersInModule rt) ns h) \<le> unmarked h + waiting h" for ns h
  proof (induction ns arbitrary: h)
    case (Cons n ns)
    from Cons.IH [of "RequestRejitForInlinersInModule rt n h"] Cons.prems search_total [OF assms, of n h]
    show ?case by (simp add: ngen)
  qed simp
  from this [of "m_ngenModules (h \<lparr>rejit_requests := rejit_requests h @ [(ms, ds)]\<rparr>)"
      "h \<lparr>rejit_requests := rejit_requests h @ [(ms, ds)]\<rparr>"]
  show ?thesis by (auto simp: RequestRejit_def RequestRejitForNGenInliners_def unmarked_def)
qed

definition analyses :: "RejitHandler \<Rightarrow> nat" where
  "analyses h = length (filter (\<lambda>i. case i of ProcessRequest _ _ _ \<Rightarrow> True | _ \<Rightarrow> False) (m_rejit_queue h))"

lemma request_no_analysis: "\<forall>i\<in>set q. request_of_pairs i \<Longrightarrow>
    filter (\<lambda>i. case i of ProcessRequest _ _ _ \<Rightarrow> True | _ \<Rightarrow> False) q = []"
  by (auto simp: request_of_pairs_def filter_empty_conv)

lemma serves_measures:
  assumes "complete_data rt" and "serves rt depth h h'"
  shows "analyses h' < analyses h \<or> analyses h' = analyses h \<and> unmarked h' + waiting h' < unmarked h + waiting h"
proof -
  from assms(2) have r: "thread_round rt depth h = Some (Done (True, h'))" by (simp add: serves_def)
  obtain item rest q where i: "m_rejit_queue h = item # rest" and q: "m_rejit_queue h' = rest @ q"
    and rq: "\<forall>i\<in>set q. request_of_pairs i" and e: "item \<noteq> EndRejitThread"
    using thread_round_effect [OF r] by metis
  show ?thesis
  proof (cases item)
    case (RejitRequest ms ds)
    have "unmarked h' + waiting h' \<le> unmarked (h \<lparr>m_rejit_queue := rest\<rparr>) + length rest"
      using r i RejitRequest RequestRejit_total [OF assms(1), of ms ds "h \<lparr>m_rejit_queue := rest\<rparr>"]
      by (auto simp: thread_round_def process_item_def split: if_splits)
    then have "unmarked h' + waiting h' < unmarked h + waiting h" by (simp add: unmarked_def i)
    moreover have "analyses h' = analyses h"
      using RejitRequest request_no_analysis [OF rq] by (simp add: analyses_def i q)
    ultimately show ?thesis by simp
  next
    case (ProcessRequest ms ints p)
    then show ?thesis using request_no_analysis [OF rq] by (simp add: analyses_def i q)
  qed (use e in simp)
qed

text \<open>
  C19: If the runtime's inliner data is complete, the thread comes to rest: it cannot serve
  requests for ever, since each inliner query is made once for a method and an NGEN module.
\<close>

theorem thread_comes_to_rest:
  assumes "complete_data rt"
  shows "wf {(h', h). serves rt depth h h'}"
proof (rule wf_subset [OF wf_measures])
  show "{(h', h). serves rt depth h h'} \<subseteq> measures [analyses, \<lambda>h. unmarked h + waiting h]"
    using serves_measures [OF assms] by auto
qed

section \<open>When it does not\<close>

definition up :: "RejitHandler \<Rightarrow> bool" where
  "up h \<longleftrightarrow> \<not> m_shutdown h \<and> m_profilerInfo6 h"

text \<open>A query that keeps answering incompletely, with an inliner, is never marked as made.\<close>

definition open_method :: "Runtime \<Rightarrow> u64 \<Rightarrow> u64 \<Rightarrow> RejitHandlerModuleMethod \<Rightarrow> bool" where
  "open_method rt n c me \<longleftrightarrow> m_method_ngenModules me n = None \<and>
     (\<exists>hr inliners. EnumNgenModuleMethodsInliningThisMethod rt n c (m_methodDef me) = (hr, True, inliners) \<and>
        \<not> FAILED hr \<and> inliners \<noteq> [])"

definition open_module :: "Runtime \<Rightarrow> u64 \<Rightarrow> RejitHandlerModule \<Rightarrow> bool" where
  "open_module rt n m \<longleftrightarrow> (\<exists>e\<in>set (m_methods m). open_method rt n (m_moduleId m) (snd e))"

definition stuck :: "Runtime \<Rightarrow> u64 \<Rightarrow> RejitHandler \<Rightarrow> bool" where
  "stuck rt n h \<longleftrightarrow> up h \<and> n \<in> set (m_ngenModules h) \<and> (\<exists>e\<in>set (m_modules h). open_module rt n (snd e))"

lemma queued_up: "queued h h' \<Longrightarrow> up h' = up h \<and> waiting h \<le> waiting h'"
  by (auto simp: queued_def up_def)

lemma for_values_keeps:
  assumes "\<And>v h. Q v \<Longrightarrow> Q (fst (f v h))" and "\<exists>e\<in>set es. Q (snd e)"
  shows "\<exists>e\<in>set (fst (for_values f es h)). Q (snd e)"
  using assms(2)
proof (induction es arbitrary: h)
  case (Cons e es)
  obtain v h1 where v: "f (snd e) h = (v, h1)" by (cases "f (snd e) h")
  obtain es' h2 where es: "for_values f es h1 = (es', h2)" by (cases "for_values f es h1")
  from assms(1) [of "snd e" h] Cons.IH [of h1] Cons.prems show ?case by (auto simp: v es)
qed simp

lemma for_values_grows:
  assumes f: "\<And>v h. queued h (snd (f v h))" and g: "\<And>v h. Q v \<Longrightarrow> up h \<Longrightarrow> waiting h < waiting (snd (f v h))"
    and "\<exists>e\<in>set es. Q (snd e)" and "up h"
  shows "waiting h < waiting (snd (for_values f es h))"
  using assms(3,4)
proof (induction es arbitrary: h)
  case (Cons e es)
  obtain v h1 where v: "f (snd e) h = (v, h1)" by (cases "f (snd e) h")
  obtain es' h2 where es: "for_values f es h1 = (es', h2)" by (cases "for_values f es h1")
  have "queued h1 h2" using for_values_frame [of "\<lambda>_ _. True" f es h1] f es by simp
  moreover have "queued h h1" using f [of h "snd e"] v by simp
  ultimately have u: "up h1" "waiting h \<le> waiting h1" "waiting h1 \<le> waiting h2"
    using Cons.prems(2) queued_up by auto
  show ?case
  proof (cases "Q (snd e)")
    case True
    with g [of "snd e" h] Cons.prems(2) u(3) show ?thesis by (simp add: v es)
  next
    case False
    with Cons.prems(1) have "waiting h1 < waiting (snd (for_values f es h1))" by (intro Cons.IH u(1)) auto
    with u(2) show ?thesis by (simp add: v es)
  qed
qed simp

lemma method_search_open:
  assumes "open_method rt n c me"
  shows "open_method rt n c (fst (method_RequestRejitForInlinersInModule rt c mid me h))"
    and "up h \<Longrightarrow> waiting h < waiting (snd (method_RequestRejitForInlinersInModule rt c n me h))"
  using assms
  by (auto simp: open_method_def method_RequestRejitForInlinersInModule_def up_def EnqueueForRejit_def push_def
      split: prod.split)

lemma module_search_open:
  assumes "open_module rt n m"
  shows "open_module rt n (fst (module_RequestRejitForInlinersInModule rt mid m h))"
    and "up h \<Longrightarrow> waiting h < waiting (snd (module_RequestRejitForInlinersInModule rt n m h))"
proof -
  show "open_module rt n (fst (module_RequestRejitForInlinersInModule rt mid m h))"
    using for_values_keeps [of "open_method rt n (m_moduleId m)"
        "method_RequestRejitForInlinersInModule rt (m_moduleId m) mid" "m_methods m" h, OF method_search_open(1)] assms
    by (auto simp: open_module_def module_RequestRejitForInlinersInModule_def split: prod.split)
  show "waiting h < waiting (snd (module_RequestRejitForInlinersInModule rt n m h))" if "up h"
    using for_values_grows [of "method_RequestRejitForInlinersInModule rt (m_moduleId m) n"
        "open_method rt n (m_moduleId m)" "m_methods m" h, OF method_search [THEN conjunct2] method_search_open(2)] assms that
    by (auto simp: open_module_def module_RequestRejitForInlinersInModule_def split: prod.split)
qed

lemma search_stuck:
  assumes "stuck rt n h"
  shows "stuck rt n (RequestRejitForInlinersInModule rt mid h)"
    and "waiting h \<le> waiting (RequestRejitForInlinersInModule rt mid h)"
    and "mid = n \<Longrightarrow> waiting h < waiting (RequestRejitForInlinersInModule rt mid h)"
proof -
  obtain mods h1 where f: "for_values (module_RequestRejitForInlinersInModule rt mid) (m_modules h) h = (mods, h1)"
    by (cases "for_values (module_RequestRejitForInlinersInModule rt mid) (m_modules h) h")
  have h': "RequestRejitForInlinersInModule rt mid h = h1 \<lparr>m_modules := mods\<rparr>"
    using assms f by (simp add: RequestRejitForInlinersInModule_def stuck_def up_def)
  have q: "queued h h1"
    using for_values_frame [of marked "module_RequestRejitForInlinersInModule rt mid" "m_modules h" h,
        OF module_search] f by simp
  have "\<exists>e\<in>set mods. open_module rt n (snd e)"
    using for_values_keeps [of "open_module rt n" "module_RequestRejitForInlinersInModule rt mid" "m_modules h" h,
        OF module_search_open(1)] assms f by (simp add: stuck_def)
  then show "stuck rt n (RequestRejitForInlinersInModule rt mid h)"
    using assms q by (auto simp: h' stuck_def up_def queued_def)
  show "waiting h \<le> waiting (RequestRejitForInlinersInModule rt mid h)" using queued_up [OF q] by (simp add: h')
  show "waiting h < waiting (RequestRejitForInlinersInModule rt mid h)" if "mid = n"
    using for_values_grows [of "module_RequestRejitForInlinersInModule rt n" "open_module rt n" "m_modules h" h,
        OF module_search [THEN conjunct2] module_search_open(2)] assms f that h' by (simp add: stuck_def)
qed

lemma searches_stuck:
  assumes "stuck rt n h"
  shows "stuck rt n (fold (RequestRejitForInlinersInModule rt) ns h) \<and>
    waiting h + (if n \<in> set ns then 1 else 0) \<le> waiting (fold (RequestRejitForInlinersInModule rt) ns h)"
  using assms
proof (induction ns arbitrary: h)
  case (Cons m ns)
  from Cons.IH [OF search_stuck(1) [OF Cons.prems, of m]] search_stuck(2,3) [OF Cons.prems, of m]
  show ?case by (auto split: if_splits)
qed simp

definition plain_request :: "RejitItem \<Rightarrow> bool" where
  "plain_request i \<longleftrightarrow> (\<exists>ms ds. i = RejitRequest ms ds \<and> ms \<noteq> [] \<and> ds \<noteq> [])"

lemma request_plain: "request_of_pairs i \<Longrightarrow> plain_request i"
  by (auto simp: request_of_pairs_def plain_request_def)

text \<open>The state the thread cannot leave: the open query, and plain requests in the queue.\<close>

definition livelock :: "Runtime \<Rightarrow> u64 \<Rightarrow> RejitHandler \<Rightarrow> bool" where
  "livelock rt n h \<longleftrightarrow> stuck rt n h \<and> m_rejit_queue h \<noteq> [] \<and> (\<forall>i\<in>set (m_rejit_queue h). plain_request i)"

lemma livelock_step:
  assumes "livelock rt n h"
  shows "\<exists>h'. serves rt depth h h' \<and> livelock rt n h' \<and> waiting h \<le> waiting h' \<and>
    length (rejit_requests h') = Suc (length (rejit_requests h))"
proof -
  from assms obtain ms ds rest where q: "m_rejit_queue h = RejitRequest ms ds # rest" and ne: "ms \<noteq> []" "ds \<noteq> []"
    and plain: "\<forall>i\<in>set rest. plain_request i"
    by (cases "m_rejit_queue h") (auto simp: livelock_def plain_request_def)
  define h0 where "h0 = h \<lparr>m_rejit_queue := rest\<rparr>"
  define h1 where "h1 = h0 \<lparr>rejit_requests := rejit_requests h0 @ [(ms, ds)]\<rparr>"
  have s1: "stuck rt n h1" and u: "up h0" "up h1"
    using assms by (auto simp: h1_def h0_def livelock_def stuck_def up_def)
  have r: "RequestRejit rt ms ds h0 = fold (RequestRejitForInlinersInModule rt) (m_ngenModules h1) h1"
    using u ne by (simp add: RequestRejit_def RequestRejitForNGenInliners_def up_def h1_def)
  have "n \<in> set (m_ngenModules h1)" using s1 by (simp add: stuck_def)
  with searches_stuck [OF s1, of "m_ngenModules h1"]
  have st: "stuck rt n (RequestRejit rt ms ds h0)" "Suc (waiting h1) \<le> waiting (RequestRejit rt ms ds h0)"
    by (auto simp: r)
  have "serves rt depth h (RequestRejit rt ms ds h0)"
    using ne by (simp add: serves_def thread_round_def q process_item_def h0_def)
  moreover obtain q' where "m_rejit_queue (RequestRejit rt ms ds h0) = rest @ q'" "\<forall>i\<in>set q'. plain_request i"
    using RequestRejit_queue [of rt ms ds h0] request_plain by (auto simp: h0_def)
  moreover have "length (rejit_requests (RequestRejit rt ms ds h0)) = Suc (length (rejit_requests h))"
    using searched_requests [OF RequestRejit_searched [of h0 ms ds rt]] u(1) ne
    by (simp add: up_def) (simp add: h0_def)
  moreover have "waiting h1 = length rest" by (simp add: h1_def h0_def)
  ultimately show ?thesis using st plain q
    by (intro exI [of _ "RequestRejit rt ms ds h0"]) (auto simp: livelock_def)
qed

text \<open>
  C20: If one query keeps answering that its data is incomplete, and names an inliner, the thread
  never comes to rest: every request it serves queues another, so that it asks the runtime for
  the rejit of the inliners again and again, and the queue does not get shorter.
\<close>

theorem incomplete_inliners_livelock:
  assumes "livelock rt n h"
  shows "\<exists>run. run 0 = h \<and> (\<forall>k. serves rt depth (run k) (run (Suc k)) \<and> waiting h \<le> waiting (run k) \<and>
    length (rejit_requests (run k)) = length (rejit_requests h) + k)"
proof -
  let ?P = "\<lambda>k h'. livelock rt n h' \<and> waiting h \<le> waiting h' \<and> length (rejit_requests h') = length (rejit_requests h) + k \<and>
      (k = 0 \<longrightarrow> h' = h)"
  have "\<exists>run. \<forall>k. ?P k (run k) \<and> serves rt depth (run k) (run (Suc k))"
  proof (rule dependent_nat_choice)
    show "\<exists>h'. ?P 0 h'" using assms by auto
    show "\<exists>h2. ?P (Suc k) h2 \<and> serves rt depth h1 h2" if "?P k h1" for h1 k
      using livelock_step [of rt n h1 depth] that by fastforce
  qed
  then show ?thesis by metis
qed

section \<open>Methods that are ready stay ready\<close>

lemma RequestRejit_ready: "ready (RequestRejit rt a b h) k d fi r = ready h k d fi r"
  using searched_ready [OF RequestRejit_searched [of h a b rt], of k d fi r]
    same_modules_ready [of "h \<lparr>rejit_requests := rejit_requests h @ [(a, b)]\<rparr>" h k d fi r]
  by (simp split: if_splits)

lemma EnqueueForRejit_ready: "ready (EnqueueForRejit a b h) k d fi r = ready h k d fi r"
  by (rule same_modules_ready) (simp add: EnqueueForRejit_def push_def)

lemma ProcessModuleForRejit_ready:
  assumes "ProcessModuleForRejit rt depth ms ints same h = Done (n, h')" and "rejit_ok h" and "ready h k d fi r"
  shows "ready h' k d fi r"
proof (cases "m_shutdown h")
  case True
  with assms show ?thesis by (simp add: ProcessModuleForRejit_def)
next
  case False
  obtain h1 where p: "process_modules rt depth ints ms (h, []) = Done (h1, selected_all rt depth ints ms)"
    and h': "h' = (if n = 0 then h1 else if same
      then RequestRejit rt (map fst (selected_all rt depth ints ms)) (map snd (selected_all rt depth ints ms)) h1
      else EnqueueForRejit (map fst (selected_all rt depth ints ms)) (map snd (selected_all rt depth ints ms)) h1)"
    using ProcessModuleForRejit_Done [OF assms(1) False] by metis
  have "came_from rt depth ints ms (h, []) (h1, selected_all rt depth ints ms)"
    by (rule origin.modules [OF p]) (auto simp: analysed_def)
  with assms(2,3) have "ready h1 k d fi r" by (simp add: came_from_def)
  then show ?thesis by (simp add: h' RequestRejit_ready EnqueueForRejit_ready)
qed

lemma thread_round_ready:
  assumes "thread_round rt depth h = Some (Done (g, h'))" and "rejit_ok h" and "ready h k d fi r"
  shows "ready h' k d fi r"
proof -
  obtain item q where q: "process_item rt depth item (h \<lparr>m_rejit_queue := q\<rparr>) = Done (g, h')"
    and ok: "rejit_ok (h \<lparr>m_rejit_queue := q\<rparr>)"
    using thread_round_item [OF assms(1,2)] by metis
  have "ready (h \<lparr>m_rejit_queue := q\<rparr>) k d fi r"
    using assms(3) same_modules_ready [of "h \<lparr>m_rejit_queue := q\<rparr>" h] by simp
  moreover have "ready (h2 \<lparr>promises := f\<rparr>) k d fi r = ready h2 k d fi r" for h2 f
    by (rule same_modules_ready) simp
  moreover have "ready h2 k d fi r"
    if "ProcessModuleForRejit rt depth ms ints True (h \<lparr>m_rejit_queue := q\<rparr>) = Done (n, h2)" for ms ints n h2
    using ProcessModuleForRejit_ready [OF that ok] calculation(1) by simp
  ultimately show ?thesis using q
    by (auto simp: process_item_def RequestRejit_ready outcome_simps split: RejitItem.splits if_splits option.splits)
qed

lemma GetOrAddModule_ready: "ready (snd (GetOrAddModule m h)) k d fi r = ready h k d fi r"
proof (cases "m_shutdown h")
  case False
  then obtain m' h' where "GetOrAddModule m h = (Some m', h')" using GetOrAddModule_up by blast
  with GetOrAddModule_entry [OF this] show ?thesis by (simp add: ready_def)
qed (simp add: GetOrAddModule_def)

text \<open>
  C21: Once a method is ready to be rewritten with a function information and a replacement, it
  stays so, with the same two, through every step of the handler but the removal of its
  module and the shutdown: the first integration that selects a method is the one it gets.
\<close>

theorem ready_stable:
  assumes "rejit_step h h'" and "rejit_ok h" and "ready h k d fi r"
  shows "ready h' k d fi r \<or> h' = RemoveModule k h \<or> h' = clear_handler h"
  using assms
proof cases
  case (get_module m)
  then show ?thesis using assms(3) GetOrAddModule_ready [of m h] by simp
next
  case (remove m)
  then show ?thesis using assms(3)
    by (cases "m = k")
      (auto simp: RemoveModule_def ready_def entry_def find_module_def AList.delete_conv)
next
  case (add_ngen rt m)
  then show ?thesis using assms(3) searched_ready [OF AddNGenModule_searched [of h m rt], of k d fi r]
      same_modules_ready [of "h \<lparr>m_ngenModules := m_ngenModules h @ [m]\<rparr>" h k d fi r]
    by (simp split: if_splits)
next
  case (request_ngen rt)
  then show ?thesis using assms(3) searched_ready [OF RequestRejitForNGenInliners_searched [of h rt]] by simp
next
  case (process rt depth ms ints same n)
  with assms(2,3) show ?thesis by (auto dest: ProcessModuleForRejit_ready)
next
  case (thread rt depth g h2)
  with thread_round_ready [OF thread(3) assms(2,3)] show ?thesis
    using same_modules_ready [of "h2 \<lparr>thread_running := False\<rparr>" h2] by auto
next
  case (notify cb m d control)
  with assms(3) show ?thesis by (simp add: NotifyReJITParameters_ready)
qed (use same_modules_ready [of h' h] in
    \<open>auto simp: EnqueueForRejit_def EnqueueProcessModule_def push_def SetCorAssemblyProfiler_def split: option.splits if_splits\<close>)

text \<open>
  Every method the analysis requests is known to the handler from then on, which is what the
  inlining callback asks to keep its old body from being inlined.
\<close>

theorem requested_methods_known:
  assumes "rejit_ok h" and "\<not> m_shutdown h"
    and "ProcessModuleForRejit rt depth ms ints same h = Done (n, h')"
    and "(k, d) \<in> set (selected_all rt depth ints ms)"
  shows "HasModuleAndMethod k d h'"
proof -
  obtain h1 where p: "process_modules rt depth ints ms (h, []) = Done (h1, selected_all rt depth ints ms)"
    and o: "modules_only h h1" and h': "h' = (if n = 0 then h1 else if same
      then RequestRejit rt (map fst (selected_all rt depth ints ms)) (map snd (selected_all rt depth ints ms)) h1
      else EnqueueForRejit (map fst (selected_all rt depth ints ms)) (map snd (selected_all rt depth ints ms)) h1)"
    using ProcessModuleForRejit_Done [OF assms(3,2)] by metis
  have "came_from rt depth ints ms (h, []) (h1, selected_all rt depth ints ms)"
    by (rule origin.modules [OF p]) (auto simp: analysed_def)
  with assms(1,4) have "\<exists>fi r. ready h1 k d fi r" unfolding came_from_def by fastforce
  then obtain fi r where "ready h1 k d fi r" by blast
  then have "ready h' k d fi r" by (simp add: h' RequestRejit_ready EnqueueForRejit_ready)
  moreover have "\<not> m_shutdown h'"
    using assms(2) o RequestRejit_frame by (auto simp: h' modules_only_def EnqueueForRejit_def push_def)
  ultimately show ?thesis
    by (auto simp: HasModuleAndMethod_def ready_def entry_def ContainsMethod_def split: option.splits)
qed

section \<open>Instances\<close>

text \<open>
  A handler with the method \<^verbatim>\<open>Run\<close> of module 7 entered and NGEN module 9, and a runtime whose only
  answer is an inliner in module 9 with incomplete data.
\<close>

definition one_method :: RejitHandler where
  "one_method = sample_handler \<lparr>m_ngenModules := [9],
     m_modules := [(7, (new_RejitHandlerModule 7) \<lparr>m_methods := [(0x06000001, new_RejitHandlerModuleMethod 0x06000001)]\<rparr>)]\<rparr>"

definition some_inliner :: "u64 \<Rightarrow> u64 \<Rightarrow> mdToken \<Rightarrow> hresult \<times> bool \<times> targets" where
  "some_inliner m c d = (S_OK, True, [(9, 0x06000002)])"


text \<open>Two promises: one of a request for a module, one of a request without integrations.\<close>

definition two_promises :: RejitHandler where
  "two_promises = EnqueueProcessModule [7] [] (Some 2) (EnqueueProcessModule [7] [sample_integration] (Some 1) sample_handler)"

lemma two_promises_queue: "m_rejit_queue two_promises =
    [ProcessRequest [7] [sample_integration] (Some 1), ProcessRequest [7] [] (Some 2)]"
  "thread_running two_promises" "promises two_promises = Map.empty"
  by (simp_all add: two_promises_def EnqueueProcessModule_def push_def sample_handler_def new_RejitHandler_def)

lemma two_promises_end: "\<exists>h'. Shutdown (sample_runtime no_inliners) 4 two_promises = Some (Done h')"
proof -
  let ?rt = "sample_runtime no_inliners"
  let ?h = "push EndRejitThread two_promises"
  have "case thread_round ?rt 4 ?h of Some (Done gh) \<Rightarrow> fst gh | _ \<Rightarrow> False" by code_simp
  then obtain h1 where r1: "thread_round ?rt 4 ?h = Some (Done (True, h1))"
    by (auto split: option.splits outcome.splits)
  obtain q where q: "m_rejit_queue h1 = ProcessRequest [7] [] (Some 2) # EndRejitThread # q"
    using thread_round_effect [OF r1] by (force simp: push_def two_promises_queue)
  have "thread_round ?rt 4 h1 = Some (Done (True, h1 \<lparr>m_rejit_queue := EndRejitThread # q\<rparr>))"
    by (simp add: thread_round_def q process_item_def)
  moreover have "thread_round ?rt 4 (h1 \<lparr>m_rejit_queue := EndRejitThread # q\<rparr>) =
      Some (Done (False, h1 \<lparr>m_rejit_queue := q\<rparr>))"
    by (simp add: thread_round_def process_item_def)
  ultimately have "\<exists>h2. EnqueueThreadLoop ?rt 4 ?h = Some (Done h2)" using r1 by (auto dest!: loop_round)
  moreover have "thread_running ?h" by (simp add: push_def two_promises_queue)
  ultimately show ?thesis by (auto simp: Shutdown_def Let_def outcome_simps)
qed

theorem Shutdown_promises_witness:
  "\<exists>h'. Shutdown (sample_runtime no_inliners) 4 two_promises = Some (Done h') \<and>
     promises h' 1 \<noteq> None \<and> promises h' 2 = None"
proof -
  obtain h' where h': "Shutdown (sample_runtime no_inliners) 4 two_promises = Some (Done h')"
    using two_promises_end by blast
  from Shutdown_promises [OF h', of 1] Shutdown_promises [OF h', of 2] h' show ?thesis
    by (simp add: two_promises_queue)
qed

theorem shut_down_for_good_witness:
  "rejit_requests (AddNGenModule (sample_runtime some_inliner) 9 (clear_handler (sample_handler \<lparr>thread_running := False\<rparr>))) = []"
proof -
  let ?h = "clear_handler (sample_handler \<lparr>thread_running := False\<rparr>)"
  have "rejit_steps ?h (AddNGenModule (sample_runtime some_inliner) 9 ?h)" by (blast intro: rejit_step.add_ngen)
  from shut_down_for_good [OF this] show ?thesis
    by (simp add: clear_handler_def sample_handler_def new_RejitHandler_def)
qed

lemma no_inliners_complete: "complete_data (sample_runtime no_inliners)"
  by (simp add: complete_data_def sample_runtime_def no_inliners_def)

theorem thread_comes_to_rest_witness: "wf {(h', h). serves (sample_runtime no_inliners) 4 h h'}"
  by (rule thread_comes_to_rest [OF no_inliners_complete])

lemma one_method_livelock: "livelock (sample_runtime some_inliner) 9 (EnqueueForRejit [7] [0x06000001] one_method)"
  by (simp add: livelock_def stuck_def up_def open_module_def open_method_def plain_request_def one_method_def
      sample_handler_def new_RejitHandler_def EnqueueForRejit_def push_def sample_runtime_def some_inliner_def
      new_RejitHandlerModule_def new_RejitHandlerModuleMethod_def)

theorem incomplete_inliners_livelock_witness:
  "\<exists>run. run 0 = EnqueueForRejit [7] [0x06000001] one_method \<and>
     (\<forall>k. serves (sample_runtime some_inliner) 4 (run k) (run (Suc k)) \<and> length (rejit_requests (run k)) = k)"
proof -
  have "rejit_requests (EnqueueForRejit [7] [0x06000001] one_method) = []" by code_simp
  with incomplete_inliners_livelock [OF one_method_livelock, of 4] show ?thesis by auto
qed

lemma sample_method_ready:
  "\<exists>h fi r. ProcessModuleForRejit (sample_runtime no_inliners) 4 [7] [sample_integration] True sample_handler = Done (1, h) \<and>
     rejit_ok h \<and> ready h 7 0x06000001 fi r"
proof -
  let ?p = "ProcessModuleForRejit (sample_runtime no_inliners) 4 [7] [sample_integration] True sample_handler"
  obtain h where h: "?p = Done (1, h)" using sample_process by blast
  have "case ?p of Done (n, h) \<Rightarrow> (case entry h 7 0x06000001 of None \<Rightarrow> False
      | Some me \<Rightarrow> (case m_functionInfo me of None \<Rightarrow> False | Some fi \<Rightarrow>
          (case m_methodReplacement me of None \<Rightarrow> False | Some r \<Rightarrow> True))) | _ \<Rightarrow> False"
    by code_simp
  then obtain fi r where "ready h 7 0x06000001 fi r" by (auto simp: h ready_def split: option.splits)
  with h ProcessModuleForRejit_ok [OF h sample_handler_up(2)] show ?thesis by blast
qed

theorem ready_stable_witness:
  "\<exists>h fi r. ready h 7 0x06000001 fi r \<and> ready (push EndRejitThread h) 7 0x06000001 fi r"
proof -
  obtain h fi r where ok: "rejit_ok h" and r: "ready h 7 0x06000001 fi r" using sample_method_ready by blast
  have "m_rejit_queue (push EndRejitThread h) \<noteq> m_rejit_queue h" by (simp add: push_def)
  then have "push EndRejitThread h \<noteq> RemoveModule 7 h" "push EndRejitThread h \<noteq> clear_handler h"
    by (auto simp: RemoveModule_def clear_handler_def)
  with ready_stable [OF rejit_step.shutdown_begin ok r] r show ?thesis by blast
qed

theorem requested_methods_known_witness:
  "\<exists>h. ProcessModuleForRejit (sample_runtime no_inliners) 4 [7] [sample_integration] True sample_handler = Done (1, h) \<and>
     HasModuleAndMethod 7 0x06000001 h"
proof -
  obtain h where h: "ProcessModuleForRejit (sample_runtime no_inliners) 4 [7] [sample_integration] True sample_handler = Done (1, h)"
    using sample_process by blast
  with requested_methods_known [OF sample_handler_up(2,1) h, of 7 "0x06000001"] show ?thesis
    by (auto simp: sample_target)
qed

end
