(* ===== verification/RejitLocks.thy ===== *)
theory RejitLocks
  imports CorHdr
begin

text \<open>
  The locks of the rejit handler. Each public operation is the list of what it does with them,
  in the order of its code: the scoped guards are \<open>scoped\<close> and \<open>reader\<close>, an operation called by
  another stands in it. A pointer to a module handler that is used after its lock was left
  is an action of its own. Threads interleave these actions; a mutex waits for every holder, a
  shared lock for an exclusive one.
\<close>

section \<open>Locks and actions\<close>

datatype lock = m_shutdown_lock | m_modules_lock | m_ngenModules_lock | m_methods_lock u64
  | m_ngenModulesLock u64 mdToken | queue_mutex

datatype lock_action = Shared lock | Exclusive lock | Release lock | Use u64 | Erase u64

text \<open>\<^verbatim>\<open>std::lock_guard\<close> and \<^verbatim>\<open>ReadLock\<close>: released where their scope ends.\<close>

definition scoped :: "lock \<Rightarrow> lock_action list \<Rightarrow> lock_action list" where
  "scoped l body = Exclusive l # body @ [Release l]"

definition reader :: "lock_action list \<Rightarrow> lock_action list" where
  "reader body = Shared m_shutdown_lock # body @ [Release m_shutdown_lock]"

section \<open>The operations\<close>

text \<open>
  Where an operation runs over modules and methods, those are its arguments, each method with
  whether the runtime names inliners of it.
\<close>

definition locks_push :: "lock_action list" where
  "locks_push = scoped queue_mutex []"

definition locks_EnqueueForRejit :: "lock_action list" where
  "locks_EnqueueForRejit = reader locks_push"

definition locks_EnqueueProcessModule :: "lock_action list" where
  "locks_EnqueueProcessModule = reader locks_push"

definition locks_method_inliners :: "u64 \<Rightarrow> mdToken \<times> bool \<Rightarrow> lock_action list" where
  "locks_method_inliners k m =
     scoped (m_ngenModulesLock k (fst m)) (if snd m then locks_EnqueueForRejit else [])"

definition locks_module_inliners :: "u64 \<times> (mdToken \<times> bool) list \<Rightarrow> lock_action list" where
  "locks_module_inliners m =
     Use (fst m) # scoped (m_methods_lock (fst m)) (concat (map (locks_method_inliners (fst m)) (snd m)))"

type_synonym module_list = "(u64 \<times> (mdToken \<times> bool) list) list"

definition locks_RequestRejitForInlinersInModule :: "module_list \<Rightarrow> lock_action list" where
  "locks_RequestRejitForInlinersInModule ms = reader (scoped m_modules_lock (concat (map locks_module_inliners ms)))"

definition locks_RequestRejitForNGenInliners :: "module_list list \<Rightarrow> lock_action list" where
  "locks_RequestRejitForNGenInliners ngens =
     reader (scoped m_ngenModules_lock (concat (map locks_RequestRejitForInlinersInModule ngens)))"

definition locks_RequestRejit :: "module_list list \<Rightarrow> lock_action list" where
  "locks_RequestRejit ngens = reader (locks_RequestRejitForNGenInliners ngens)"

definition locks_AddNGenModule :: "module_list \<Rightarrow> lock_action list" where
  "locks_AddNGenModule ms = reader (scoped m_ngenModules_lock (locks_RequestRejitForInlinersInModule ms))"

definition locks_GetOrAddModule :: "lock_action list" where
  "locks_GetOrAddModule = reader (scoped m_modules_lock [])"

definition locks_GetOrAddMethod :: "u64 \<Rightarrow> lock_action list" where
  "locks_GetOrAddMethod k = Use k # scoped (m_methods_lock k) []"

definition locks_HasModuleAndMethod :: "u64 \<Rightarrow> lock_action list" where
  "locks_HasModuleAndMethod k = reader (scoped m_modules_lock (Use k # scoped (m_methods_lock k) []))"

definition locks_RemoveModule :: "u64 \<Rightarrow> lock_action list" where
  "locks_RemoveModule k = reader (scoped m_modules_lock [Erase k])"

definition locks_NotifyReJITParameters :: "u64 \<Rightarrow> lock_action list" where
  "locks_NotifyReJITParameters k = reader (locks_GetOrAddModule @ locks_GetOrAddMethod k @ [Use k])"

text \<open>The analysis stores its methods one by one and then requests them, on its thread or by the queue.\<close>

definition locks_store :: "u64 \<Rightarrow> lock_action list" where
  "locks_store k = locks_GetOrAddModule @ Use k # locks_GetOrAddMethod k"

definition locks_ProcessModuleForRejit :: "u64 list \<Rightarrow> module_list list option \<Rightarrow> lock_action list" where
  "locks_ProcessModuleForRejit stores same_thread =
     reader (concat (map locks_store stores) @
       (case same_thread of Some ngens \<Rightarrow> locks_RequestRejit ngens | None \<Rightarrow> locks_EnqueueForRejit))"

text \<open>The shutdown behind the end of the thread it waits for.\<close>

definition locks_Shutdown :: "lock_action list" where
  "locks_Shutdown = locks_push @
     scoped m_modules_lock (scoped m_ngenModules_lock (scoped m_shutdown_lock []))"

text \<open>The operations but the shutdown; \<open>shut_down\<close> is any of them after it.\<close>

inductive operation :: "lock_action list \<Rightarrow> bool" where
  enqueue: "operation locks_EnqueueForRejit"
| enqueue_process: "operation locks_EnqueueProcessModule"
| request_ngen: "operation (locks_RequestRejitForNGenInliners ngens)"
| request: "operation (locks_RequestRejit ngens)"
| add_ngen: "operation (locks_AddNGenModule ms)"
| get_module: "operation locks_GetOrAddModule"
| has_method: "operation (locks_HasModuleAndMethod k)"
| remove: "operation (locks_RemoveModule k)"
| notify: "operation (locks_NotifyReJITParameters k)"
| process: "operation (locks_ProcessModuleForRejit stores same_thread)"
| pop: "operation locks_push"
| shut_down: "operation (reader [])"

section \<open>Threads\<close>

record LockThread =
  todo :: "lock_action list"
  shared :: "lock list"
  exclusive :: "lock list"

definition perform :: "lock_action \<Rightarrow> LockThread \<Rightarrow> LockThread" where
  "perform a t = (case a of
     Shared l \<Rightarrow> t \<lparr>shared := l # shared t\<rparr>
   | Exclusive l \<Rightarrow> t \<lparr>exclusive := l # exclusive t\<rparr>
   | Release l \<Rightarrow> if l \<in> set (exclusive t) then t \<lparr>exclusive := remove1 l (exclusive t)\<rparr>
       else t \<lparr>shared := remove1 l (shared t)\<rparr>
   | _ \<Rightarrow> t) \<lparr>todo := tl (todo t)\<rparr>"

definition allowed :: "LockThread list \<Rightarrow> lock_action \<Rightarrow> bool" where
  "allowed ts a = (case a of
     Shared l \<Rightarrow> list_all (\<lambda>t. l \<notin> set (exclusive t)) ts
   | Exclusive l \<Rightarrow> list_all (\<lambda>t. l \<notin> set (exclusive t) \<and> l \<notin> set (shared t)) ts
   | _ \<Rightarrow> True)"

definition erase :: "lock_action \<Rightarrow> u64 set \<Rightarrow> u64 set" where
  "erase a E = (case a of Erase k \<Rightarrow> insert k E | _ \<Rightarrow> E)"

inductive lock_step :: "LockThread list \<times> u64 set \<Rightarrow> LockThread list \<times> u64 set \<Rightarrow> bool" where
  act: "i < length ts \<Longrightarrow> todo (ts ! i) = a # as \<Longrightarrow> allowed ts a \<Longrightarrow>
    lock_step (ts, E) (ts[i := perform a (ts ! i)], erase a E)"

inductive_cases lock_step_cases: "lock_step (ts, E) s"

abbreviation lock_steps where "lock_steps \<equiv> lock_step\<^sup>*\<^sup>*"

definition start :: "lock_action list list \<Rightarrow> LockThread list \<times> u64 set" where
  "start ps = (map (\<lambda>p. \<lparr>todo = p, shared = [], exclusive = []\<rparr>) ps, {})"

section \<open>Ordered locking\<close>

text \<open>
  Every operation but the shutdown takes its mutexes upwards in one order, and the shutdown lock
  shared only.
\<close>

fun lock_rank :: "lock \<Rightarrow> nat" where
  "lock_rank m_shutdown_lock = 0"
| "lock_rank m_ngenModules_lock = 1"
| "lock_rank m_modules_lock = 2"
| "lock_rank (m_methods_lock k) = 3"
| "lock_rank (m_ngenModulesLock k d) = 4"
| "lock_rank queue_mutex = 5"

lemma lock_rank_le: "lock_rank l \<le> 5"
  by (cases l) simp_all

fun ordered :: "lock list \<Rightarrow> lock list \<Rightarrow> lock_action list \<Rightarrow> bool" where
  "ordered S X [] \<longleftrightarrow> S = [] \<and> X = []"
| "ordered S X (Shared l # as) \<longleftrightarrow> l = m_shutdown_lock \<and> ordered (l # S) X as"
| "ordered S X (Exclusive l # as) \<longleftrightarrow>
     l \<noteq> m_shutdown_lock \<and> (\<forall>x\<in>set X. lock_rank x < lock_rank l) \<and> ordered S (l # X) as"
| "ordered S X (Release l # as) \<longleftrightarrow>
     (if l \<in> set X then ordered S (remove1 l X) as else l \<in> set S \<and> ordered (remove1 l S) X as)"
| "ordered S X (Use k # as) \<longleftrightarrow> ordered S X as"
| "ordered S X (Erase k # as) \<longleftrightarrow> ordered S X as"

text \<open>A block leaves the locks as it found them and takes none below its rank.\<close>

named_theorems block_rules

definition block :: "nat \<Rightarrow> lock_action list \<Rightarrow> bool" where
  "block r p \<longleftrightarrow> (\<forall>S X as. (\<forall>x\<in>set X. lock_rank x < r) \<longrightarrow> m_shutdown_lock \<notin> set X \<longrightarrow> ordered S X as \<longrightarrow>
     ordered S X (p @ as))"

lemma block_Nil [block_rules]: "block r []"
  by (simp add: block_def)

lemma block_append [block_rules]: "block r p \<Longrightarrow> block r q \<Longrightarrow> block r (p @ q)"
  by (simp add: block_def)

lemma block_concat [block_rules]: "(\<And>x. x \<in> set xs \<Longrightarrow> block r (f x)) \<Longrightarrow> block r (concat (map f xs))"
  by (induction xs) (simp_all add: block_rules)

lemma block_Use [block_rules]: "block r p \<Longrightarrow> block r (Use k # p)"
  by (simp add: block_def)

lemma block_Erase [block_rules]: "block r p \<Longrightarrow> block r (Erase k # p)"
  by (simp add: block_def)

lemma block_scoped [block_rules]:
  assumes "block (Suc (lock_rank l)) p" and "r \<le> lock_rank l" and "l \<noteq> m_shutdown_lock"
  shows "block r (scoped l p)"
  unfolding block_def
proof (intro allI impI)
  fix S X as
  assume x: "\<forall>x\<in>set X. lock_rank x < r" and sd: "m_shutdown_lock \<notin> set X" and o: "ordered S X as"
  then have "ordered S (l # X) (Release l # as)" by simp
  moreover have "\<forall>x\<in>set (l # X). lock_rank x < Suc (lock_rank l)" using x assms(2) by auto
  moreover have "m_shutdown_lock \<notin> set (l # X)" using sd assms(3) by simp
  ultimately have "ordered S (l # X) (p @ Release l # as)" using assms(1) unfolding block_def by blast
  then show "ordered S X (scoped l p @ as)" using assms(2,3) x by (auto simp: scoped_def)
qed

lemma block_reader [block_rules]: "block r p \<Longrightarrow> block r (reader p)"
  unfolding block_def reader_def by auto

lemma block_if [block_rules]: "block r p \<Longrightarrow> block r q \<Longrightarrow> block r (if b then p else q)"
  by simp

lemmas locks_defs = locks_push_def locks_EnqueueForRejit_def locks_EnqueueProcessModule_def
  locks_method_inliners_def locks_module_inliners_def locks_RequestRejitForInlinersInModule_def
  locks_RequestRejitForNGenInliners_def locks_RequestRejit_def locks_AddNGenModule_def
  locks_GetOrAddModule_def locks_GetOrAddMethod_def locks_HasModuleAndMethod_def locks_RemoveModule_def
  locks_NotifyReJITParameters_def locks_store_def locks_ProcessModuleForRejit_def

lemma operation_block: "operation p \<Longrightarrow> block 0 p"
  by (induction rule: operation.induct) (auto simp: locks_defs intro!: block_rules split: option.split)

lemma operations_ordered: "list_all operation ps \<Longrightarrow> ordered [] [] (concat ps)"
proof (induction ps)
  case (Cons p ps)
  then have "block 0 p" "ordered [] [] (concat ps)" using operation_block by auto
  then show ?case by (simp add: block_def)
qed simp

section \<open>No deadlock without the shutdown\<close>

definition thread_ok :: "LockThread \<Rightarrow> bool" where
  "thread_ok t \<longleftrightarrow> ordered (shared t) (exclusive t) (todo t) \<and> set (shared t) \<subseteq> {m_shutdown_lock} \<and>
     m_shutdown_lock \<notin> set (exclusive t)"

lemma perform_ok:
  assumes "thread_ok t" and "todo t = a # as"
  shows "thread_ok (perform a t)"
proof -
  have o: "ordered (shared t) (exclusive t) (a # as)" and sh: "set (shared t) \<subseteq> {m_shutdown_lock}"
    and ex: "m_shutdown_lock \<notin> set (exclusive t)"
    using assms by (simp_all add: thread_ok_def)
  have r: "set (remove1 l xs) \<subseteq> set xs" for l :: lock and xs by (rule set_remove1_subset)
  show ?thesis
  proof (cases a)
    case (Release l)
    show ?thesis
    proof (cases "l \<in> set (exclusive t)")
      case True
      with o Release sh ex r [of l "exclusive t"] show ?thesis
        by (simp add: thread_ok_def perform_def assms(2))
    next
      case False
      with o Release have "ordered (remove1 l (shared t)) (exclusive t) as" by simp
      with False Release sh ex r [of l "shared t"] show ?thesis
        by (simp add: thread_ok_def perform_def assms(2) subset_trans)
    qed
  qed (use o sh ex in \<open>auto simp: thread_ok_def perform_def assms(2)\<close>)
qed

lemma lock_step_ok:
  assumes "lock_step (ts, E) (ts', E')" and "\<forall>t\<in>set ts. thread_ok t"
  shows "\<forall>t\<in>set ts'. thread_ok t"
  using assms(1)
proof (cases rule: lock_step.cases)
  case (act i a as)
  have "set ts' \<subseteq> insert (perform a (ts ! i)) (set ts)" unfolding act by (rule set_update_subset_insert)
  moreover have "thread_ok (perform a (ts ! i))" by (rule perform_ok) (use act assms(2) in auto)
  ultimately show ?thesis using assms(2) by blast
qed

lemma lock_steps_ok:
  assumes "lock_steps s s'" and "\<forall>t\<in>set (fst s). thread_ok t"
  shows "\<forall>t\<in>set (fst s'). thread_ok t"
  using assms(1)
proof (induction rule: rtranclp_induct)
  case (step s1 s2)
  show ?case by (rule lock_step_ok [of "fst s1" "snd s1" "fst s2" "snd s2"]) (use step in simp_all)
qed (rule assms(2))

text \<open>The lock a thread waits for.\<close>

lemma blocked_waits:
  assumes ok: "\<forall>t\<in>set ts. thread_ok t" and stop: "\<And>s. \<not> lock_step (ts, E) s"
    and t: "t \<in> set ts" and busy: "todo t \<noteq> []"
  shows "\<exists>l as t'. todo t = Exclusive l # as \<and> t' \<in> set ts \<and> l \<in> set (exclusive t')"
proof -
  obtain a as where a: "todo t = a # as" using busy by (cases "todo t") auto
  obtain i where i: "i < length ts" "ts ! i = t" using t by (auto simp: in_set_conv_nth)
  have no: "\<not> allowed ts a" using stop [of "(ts[i := perform a (ts ! i)], erase a E)"] i a lock_step.act [of i ts a as E]
    by auto
  have sd: "m_shutdown_lock \<notin> set (exclusive u)" if "u \<in> set ts" for u using ok that by (simp add: thread_ok_def)
  have sh: "set (shared u) \<subseteq> {m_shutdown_lock}" if "u \<in> set ts" for u using ok that by (simp add: thread_ok_def)
  have "thread_ok t" using ok t by simp
  then have o: "ordered (shared t) (exclusive t) (a # as)" by (simp add: thread_ok_def a)
  show ?thesis
  proof (cases a)
    case (Shared l)
    with o sd no show ?thesis by (auto simp: allowed_def list_all_iff)
  next
    case (Exclusive l)
    then have "l \<noteq> m_shutdown_lock" using o by simp
    with no Exclusive sh obtain u where "u \<in> set ts" "l \<in> set (exclusive u)"
      by (fastforce simp: allowed_def list_all_iff)
    with a Exclusive show ?thesis by auto
  qed (use no in \<open>simp_all add: allowed_def\<close>)
qed


section \<open>The shutdown against the order\<close>

text \<open>A schedule: the threads that act, one action each.\<close>

primrec act_at :: "nat list \<Rightarrow> LockThread list \<times> u64 set \<Rightarrow> (LockThread list \<times> u64 set) option" where
  "act_at [] s = Some s"
| "act_at (i # is) s =
     (if i < length (fst s) then
        (case todo (fst s ! i) of [] \<Rightarrow> None
         | a # as \<Rightarrow> if allowed (fst s) a then act_at is ((fst s)[i := perform a (fst s ! i)], erase a (snd s)) else None)
      else None)"

lemma act_at_steps: "act_at is s = Some s' \<Longrightarrow> lock_steps s s'"
proof (induction "is" arbitrary: s)
  case (Cons i "is")
  then obtain a as where "i < length (fst s)" "todo (fst s ! i) = a # as" "allowed (fst s) a"
    and s': "act_at is ((fst s)[i := perform a (fst s ! i)], erase a (snd s)) = Some s'"
    by (auto split: if_splits list.splits)
  then have "lock_step s ((fst s)[i := perform a (fst s ! i)], erase a (snd s))"
    using lock_step.act [of i "fst s" a as "snd s"] by simp
  with Cons.IH [OF s'] show ?case by (meson converse_rtranclp_into_rtranclp)
qed simp

lemma no_lock_step:
  "list_all (\<lambda>t. case todo t of [] \<Rightarrow> True | a # as \<Rightarrow> \<not> allowed ts a) ts \<Longrightarrow> \<not> lock_step (ts, E) s"
  by (auto elim!: lock_step_cases simp: list_all_length)

text \<open>
  C25: The shutdown takes the mutex of the modules before the shutdown lock, the others after it: a
  call of \<^verbatim>\<open>HasModuleAndMethod\<close>, which the JIT makes for each inlining candidate, and the shutdown
  can come to wait for each other, and then neither returns.
\<close>

theorem shutdown_deadlock:
  "\<exists>ts E. lock_steps (start [locks_HasModuleAndMethod k, locks_Shutdown]) (ts, E) \<and>
     (\<forall>s. \<not> lock_step (ts, E) s) \<and> list_all (\<lambda>t. todo t \<noteq> []) ts"
proof -
  obtain ts E where s: "act_at [1, 1, 0, 1, 1] (start [locks_HasModuleAndMethod k, locks_Shutdown]) = Some (ts, E)"
    and busy: "list_all (\<lambda>t. case todo t of [] \<Rightarrow> False | a # as \<Rightarrow> \<not> allowed ts a) ts"
    by (simp add: start_def locks_HasModuleAndMethod_def locks_Shutdown_def locks_push_def reader_def scoped_def
        perform_def allowed_def erase_def)
  have "list_all (\<lambda>t. case todo t of [] \<Rightarrow> True | a # as \<Rightarrow> \<not> allowed ts a) ts"
    using busy by (auto simp: list_all_iff split: list.splits)
  moreover have "list_all (\<lambda>t. todo t \<noteq> []) ts" using busy by (auto simp: list_all_iff split: list.splits)
  ultimately show ?thesis using act_at_steps [OF s] no_lock_step by blast
qed

text \<open>
  C26: The pointer to a module handler outlives the lock it was found under: while the parameters
  of a rejit are looked up, the unloading of the module can delete the handler that is used
  next.
\<close>

theorem removed_module_used:
  "\<exists>ts E. lock_steps (start [locks_NotifyReJITParameters k, locks_RemoveModule k]) (ts, E) \<and>
     (\<exists>t\<in>set ts. \<exists>as. todo t = Use k # as) \<and> k \<in> E"
proof -
  obtain ts E where "act_at [0, 0, 0, 0, 0, 1, 1, 1] (start [locks_NotifyReJITParameters k, locks_RemoveModule k]) = Some (ts, E)"
    and "todo (hd ts) = Use k # tl (todo (hd ts))" "ts \<noteq> []" "k \<in> E"
    by (simp add: start_def locks_NotifyReJITParameters_def locks_RemoveModule_def locks_GetOrAddModule_def
        locks_GetOrAddMethod_def reader_def scoped_def perform_def allowed_def erase_def)
  then show ?thesis using act_at_steps by (metis list.set_sel(1))
qed

section \<open>Instances\<close>

definition sample_runs :: "lock_action list list list" where
  "sample_runs = [[locks_AddNGenModule [(7, [(0x06000001, True)])], locks_RemoveModule 7],
     [locks_NotifyReJITParameters 7, locks_ProcessModuleForRejit [7] (Some [[(7, [(0x06000001, True)])]])]]"

text \<open>One thread after the other.\<close>

lemma sample_schedule:
  "\<exists>ts E. act_at (replicate (length (concat (sample_runs ! 0))) 0 @ replicate (length (concat (sample_runs ! 1))) 1)
     (start (map concat sample_runs)) = Some (ts, E) \<and> list_all (\<lambda>t. todo t = []) ts"
proof -
  have "case act_at (replicate (length (concat (sample_runs ! 0))) 0 @ replicate (length (concat (sample_runs ! 1))) 1)
     (start (map concat sample_runs)) of None \<Rightarrow> False | Some (ts, E) \<Rightarrow>
       list_all (\<lambda>t. todo t = []) ts"
    by code_simp
  then show ?thesis by (auto split: option.splits)
qed


end
