(* ===== verification/CallTargetTokens.thy ===== *)
theory CallTargetTokens
  imports ModuleMetadata TypeNames ILRewriterWrapper
begin

text \<open>
  The tokens of the call target (\<^verbatim>\<open>calltarget_tokens.cpp\<close>): the references to the tracer's
  managed types that a rewritten method needs, each defined in the module's metadata when it
  is first used, the method specifications of the calls, and the new signature of the locals.
  The emitters of the metadata are a parameter: they answer a request in view of all requests
  before it. What was requested is kept in order in \<open>emitted\<close>.
\<close>

section \<open>State and metadata\<close>

text \<open>A request to \<^verbatim>\<open>IMetaDataEmit2\<close> or \<^verbatim>\<open>IMetaDataAssemblyEmit\<close>.\<close>

datatype emit_call =
    DefineAssemblyRef_property AssemblyProperty
  | DefineAssemblyRef bytes wstring ASSEMBLYMETADATA wstring
  | DefineAssemblyRef_flags bytes wstring ASSEMBLYMETADATA u32
  | DefineTypeRefByName mdToken wstring
  | DefineMemberRef mdToken wstring bytes
  | DefineMethodSpec mdToken bytes
  | GetTokenFromTypeSpec bytes
  | GetTokenFromSig bytes

record CallTargetTokens =
  corLibAssemblyRef :: mdToken
  objectTypeRef :: mdToken
  exTypeRef :: mdToken
  typeRef :: mdToken
  runtimeTypeHandleRef :: mdToken
  getTypeFromHandleToken :: mdToken
  runtimeMethodHandleRef :: mdToken
  profilerAssemblyRef :: mdToken
  callTargetTypeRef :: mdToken
  callTargetStateTypeRef :: mdToken
  callTargetReturnVoidTypeRef :: mdToken
  callTargetReturnTypeRef :: mdToken
  beginArrayMemberRef :: mdToken
  beginMethodFastPathRefs :: "mdToken list"
  endVoidMemberRef :: mdToken
  logExceptionRef :: mdToken
  callTargetStateTypeGetDefault :: mdToken
  callTargetReturnVoidTypeGetDefault :: mdToken
  getDefaultMemberRef :: mdToken
  emitted :: "emit_call list"

text \<open>
  The answers: to a request, with the token it stores, if it stores one, and to the two
  queries; the property of the core library, through its pointer, and the reference to the
  managed tracer, from the cache of assembly references.
\<close>

record TokenEnv =
  answer :: "emit_call list \<Rightarrow> emit_call \<Rightarrow> hresult \<times> mdToken option"
  sig_from_token :: "mdToken \<Rightarrow> hresult \<times> bytes"
  spec_from_token :: "emit_call list \<Rightarrow> mdToken \<Rightarrow> hresult \<times> bytes"
  cor_property :: "AssemblyProperty option"
  tracer_reference :: AssemblyReference

abbreviation (input) mdAssemblyRefNil :: mdToken where "mdAssemblyRefNil \<equiv> 0x23000000"
abbreviation (input) mdTypeRefNil :: mdToken where "mdTypeRefNil \<equiv> 0x01000000"
abbreviation (input) mdTypeSpecNil :: mdToken where "mdTypeSpecNil \<equiv> 0x1b000000"
abbreviation (input) mdMemberRefNil :: mdToken where "mdMemberRefNil \<equiv> 0x0a000000"
abbreviation (input) mdMethodSpecNil :: mdToken where "mdMethodSpecNil \<equiv> 0x2b000000"

definition FASTPATH_COUNT :: nat where "FASTPATH_COUNT = 9"

definition new_CallTargetTokens :: CallTargetTokens where
  "new_CallTargetTokens = \<lparr>corLibAssemblyRef = mdAssemblyRefNil, objectTypeRef = mdTypeRefNil,
     exTypeRef = mdTypeRefNil, typeRef = mdTypeRefNil, runtimeTypeHandleRef = mdTypeRefNil,
     getTypeFromHandleToken = mdTokenNil, runtimeMethodHandleRef = mdTypeRefNil,
     profilerAssemblyRef = mdAssemblyRefNil, callTargetTypeRef = mdTypeRefNil,
     callTargetStateTypeRef = mdTypeRefNil, callTargetReturnVoidTypeRef = mdTypeRefNil,
     callTargetReturnTypeRef = mdTypeRefNil, beginArrayMemberRef = mdMemberRefNil,
     beginMethodFastPathRefs = replicate FASTPATH_COUNT mdMemberRefNil, endVoidMemberRef = mdMemberRefNil,
     logExceptionRef = mdMemberRefNil, callTargetStateTypeGetDefault = mdMemberRefNil,
     callTargetReturnVoidTypeGetDefault = mdMemberRefNil, getDefaultMemberRef = mdMemberRefNil, emitted = []\<rparr>"

section \<open>Computations\<close>

type_synonym 'a tk = "CallTargetTokens \<Rightarrow> ('a \<times> CallTargetTokens) exec"

definition tk_return :: "'a \<Rightarrow> 'a tk" where
  "tk_return x s = Ok (x, s)"

definition tk_bind :: "'a tk \<Rightarrow> ('a \<Rightarrow> 'b tk) \<Rightarrow> 'b tk" where
  "tk_bind m f s = xbind (m s) (\<lambda>(x, s). f x s)"

definition tk_get :: "(CallTargetTokens \<Rightarrow> 'a) \<Rightarrow> 'a tk" where
  "tk_get f s = Ok (f s, s)"

definition tk_lift :: "'a exec \<Rightarrow> 'a tk" where
  "tk_lift m s = xbind m (\<lambda>x. Ok (x, s))"

text \<open>The statement \<^verbatim>\<open>if (FAILED(hr)) return r\<close>, and a chain of such calls.\<close>

definition unless_failed :: "hresult tk \<Rightarrow> 'a \<Rightarrow> 'a tk \<Rightarrow> 'a tk" where
  "unless_failed m r k = tk_bind m (\<lambda>hr. if FAILED hr then tk_return r else k)"

primrec in_turn :: "hresult tk list \<Rightarrow> hresult tk" where
  "in_turn [] = tk_return S_OK"
| "in_turn (m # ms) = tk_bind m (\<lambda>hr. if FAILED hr then tk_return hr else in_turn ms)"

text \<open>
  A signature built in an array of \<open>signatureBufferSize\<close> bytes and passed on with a length of
  its own: writing more than the array holds, or passing bytes that were not written, is
  undefined.
\<close>

definition signatureBufferSize :: nat where "signatureBufferSize = 500"

definition buffered :: "bytes \<Rightarrow> nat \<Rightarrow> bytes exec" where
  "buffered written signatureLength =
     (if length written \<le> signatureBufferSize \<and> signatureLength \<le> length written
      then Ok (take signatureLength written) else Overrun)"

abbreviation token_bytes :: "mdToken \<Rightarrow> bytes" where
  "token_bytes token \<equiv> snd (CorSigCompressToken token)"

text \<open>A request, with what is done with the token it stores.\<close>

definition emit :: "TokenEnv \<Rightarrow> (mdToken \<Rightarrow> CallTargetTokens \<Rightarrow> CallTargetTokens) \<Rightarrow> emit_call \<Rightarrow> hresult tk" where
  "emit env put call s =
     (let (hr, token) = answer env (emitted s) call; s = s \<lparr>emitted := emitted s @ [call]\<rparr>
      in Ok (hr, case token of None \<Rightarrow> s | Some t \<Rightarrow> put t s))"

text \<open>A request for a token held in a local variable.\<close>

definition define_local :: "TokenEnv \<Rightarrow> mdToken \<Rightarrow> emit_call \<Rightarrow> (hresult \<times> mdToken) tk" where
  "define_local env initial call s =
     (let (hr, token) = answer env (emitted s) call
      in Ok ((hr, case token of None \<Rightarrow> initial | Some t \<Rightarrow> t), s \<lparr>emitted := emitted s @ [call]\<rparr>))"

text \<open>\<^verbatim>\<open>if (token == nil)\<close> define it; the request is computed from the state.\<close>

definition ensure ::
  "TokenEnv \<Rightarrow> mdToken \<Rightarrow> (CallTargetTokens \<Rightarrow> mdToken) \<Rightarrow> (mdToken \<Rightarrow> CallTargetTokens \<Rightarrow> CallTargetTokens) \<Rightarrow>
   (CallTargetTokens \<Rightarrow> emit_call exec) \<Rightarrow> hresult tk" where
  "ensure env nil token put request s =
     (if token s = nil then xbind (request s) (\<lambda>call. emit env put call s) else Ok (S_OK, s))"

abbreviation ensure_type ::
  "TokenEnv \<Rightarrow> (CallTargetTokens \<Rightarrow> mdToken) \<Rightarrow> (mdToken \<Rightarrow> CallTargetTokens \<Rightarrow> CallTargetTokens) \<Rightarrow>
   (CallTargetTokens \<Rightarrow> mdToken) \<Rightarrow> string \<Rightarrow> hresult tk" where
  "ensure_type env token put scope type_name \<equiv>
     ensure env mdTypeRefNil token put (\<lambda>s. Ok (DefineTypeRefByName (scope s) (WStr type_name)))"

abbreviation ensure_member ::
  "TokenEnv \<Rightarrow> mdToken \<Rightarrow> (CallTargetTokens \<Rightarrow> mdToken) \<Rightarrow> (mdToken \<Rightarrow> CallTargetTokens \<Rightarrow> CallTargetTokens) \<Rightarrow>
   (CallTargetTokens \<Rightarrow> mdToken) \<Rightarrow> string \<Rightarrow> (CallTargetTokens \<Rightarrow> bytes) \<Rightarrow> (CallTargetTokens \<Rightarrow> nat) \<Rightarrow> hresult tk" where
  "ensure_member env nil token put parent member_name signature signatureLength \<equiv>
     ensure env nil token put (\<lambda>s. xbind (buffered (signature s) (signatureLength s))
       (\<lambda>sig. Ok (DefineMemberRef (parent s) (WStr member_name) sig)))"

section \<open>The core library and the base types\<close>

text \<open>The property of the core library is copied first, whether or not it is used.\<close>

definition define_corlib :: "TokenEnv \<Rightarrow> hresult tk" where
  "define_corlib env s = (case cor_property env of
     None \<Rightarrow> Overrun
   | Some p \<Rightarrow> ensure env mdAssemblyRefNil corLibAssemblyRef (\<lambda>t s. s \<lparr>corLibAssemblyRef := t\<rparr>)
       (\<lambda>s. Ok (DefineAssemblyRef_property p)) s)"

definition GetTypeFromHandle_signature :: "CallTargetTokens \<Rightarrow> bytes" where
  "GetTypeFromHandle_signature s = IMAGE_CEE_CS_CALLCONV_DEFAULT # 0x01 #
     elt ELEMENT_TYPE_CLASS # token_bytes (typeRef s) @
     elt ELEMENT_TYPE_VALUETYPE # token_bytes (runtimeTypeHandleRef s)"

definition EnsureCorLibTokens :: "TokenEnv \<Rightarrow> hresult tk" where
  "EnsureCorLibTokens env = tk_bind (define_corlib env) (\<lambda>hr.
     tk_bind (tk_get corLibAssemblyRef) (\<lambda>ref. if ref = mdAssemblyRefNil then tk_return hr else
     in_turn
       [ensure_type env objectTypeRef (\<lambda>t s. s \<lparr>objectTypeRef := t\<rparr>) corLibAssemblyRef ''System.Object'',
        ensure_type env exTypeRef (\<lambda>t s. s \<lparr>exTypeRef := t\<rparr>) corLibAssemblyRef ''System.Exception'',
        ensure_type env typeRef (\<lambda>t s. s \<lparr>typeRef := t\<rparr>) corLibAssemblyRef ''System.Type'',
        ensure_type env runtimeTypeHandleRef (\<lambda>t s. s \<lparr>runtimeTypeHandleRef := t\<rparr>)
          corLibAssemblyRef ''System.RuntimeTypeHandle'',
        ensure_member env mdTokenNil getTypeFromHandleToken (\<lambda>t s. s \<lparr>getTypeFromHandleToken := t\<rparr>)
          typeRef ''GetTypeFromHandle'' GetTypeFromHandle_signature (\<lambda>s. length (GetTypeFromHandle_signature s)),
        ensure_type env runtimeMethodHandleRef (\<lambda>t s. s \<lparr>runtimeMethodHandleRef := t\<rparr>)
          corLibAssemblyRef ''System.RuntimeMethodHandle'']))"

text \<open>The request for a reference to an assembly.\<close>

definition assembly_request :: "AssemblyReference \<Rightarrow> emit_call" where
  "assembly_request r =
     (let v = version r in
      DefineAssemblyRef (if key_eq (public_key r) zero_key then [] else key_data (public_key r)) (name r)
        \<lparr>usMajorVersion = major v, usMinorVersion = minor v, usBuildNumber = build v, usRevisionNumber = revision v\<rparr>
        (if locale_of r = WStr ''neutral'' then [] else locale_of r))"

definition define_tracer :: "TokenEnv \<Rightarrow> CallTargetTokens \<Rightarrow> emit_call exec" where
  "define_tracer env s = Ok (assembly_request (tracer_reference env))"

text \<open>A signature without parameters that returns a value type.\<close>

definition returns_value :: "mdToken \<Rightarrow> bytes" where
  "returns_value type_ref = IMAGE_CEE_CS_CALLCONV_DEFAULT # 0x00 # elt ELEMENT_TYPE_VALUETYPE # token_bytes type_ref"

definition EnsureBaseCalltargetTokens :: "TokenEnv \<Rightarrow> hresult tk" where
  "EnsureBaseCalltargetTokens env = in_turn
     [EnsureCorLibTokens env,
      ensure env mdAssemblyRefNil profilerAssemblyRef (\<lambda>t s. s \<lparr>profilerAssemblyRef := t\<rparr>) (define_tracer env),
      ensure_type env callTargetTypeRef (\<lambda>t s. s \<lparr>callTargetTypeRef := t\<rparr>) profilerAssemblyRef
        ''Datadog.Trace.ClrProfiler.CallTarget.CallTargetInvoker'',
      ensure_type env callTargetStateTypeRef (\<lambda>t s. s \<lparr>callTargetStateTypeRef := t\<rparr>) profilerAssemblyRef
        ''Datadog.Trace.ClrProfiler.CallTarget.CallTargetState'',
      ensure_member env mdMemberRefNil callTargetStateTypeGetDefault (\<lambda>t s. s \<lparr>callTargetStateTypeGetDefault := t\<rparr>)
        callTargetStateTypeRef ''GetDefault'' (\<lambda>s. returns_value (callTargetStateTypeRef s))
        (\<lambda>s. 3 + length (token_bytes (callTargetStateTypeRef s)))]"

section \<open>Types and defaults\<close>

definition GetTargetStateTypeRef :: "TokenEnv \<Rightarrow> mdToken tk" where
  "GetTargetStateTypeRef env =
     unless_failed (EnsureBaseCalltargetTokens env) mdTypeRefNil (tk_get callTargetStateTypeRef)"

definition GetCallTargetStateDefaultMemberRef :: "TokenEnv \<Rightarrow> mdToken tk" where
  "GetCallTargetStateDefaultMemberRef env =
     unless_failed (EnsureBaseCalltargetTokens env) mdMemberRefNil (tk_get callTargetStateTypeGetDefault)"

definition GetTargetVoidReturnTypeRef :: "TokenEnv \<Rightarrow> mdToken tk" where
  "GetTargetVoidReturnTypeRef env =
     unless_failed (EnsureBaseCalltargetTokens env) mdTypeRefNil
     (unless_failed (ensure_type env callTargetReturnVoidTypeRef (\<lambda>t s. s \<lparr>callTargetReturnVoidTypeRef := t\<rparr>)
         profilerAssemblyRef ''Datadog.Trace.ClrProfiler.CallTarget.CallTargetReturn'') mdTypeRefNil
      (tk_get callTargetReturnVoidTypeRef))"

text \<open>The type \<^verbatim>\<open>CallTargetReturn<T>\<close> of a return type, as a type specification.\<close>

definition return_type_spec :: "mdToken \<Rightarrow> bytes \<Rightarrow> bytes" where
  "return_type_spec type_ref returnSignature =
     elt ELEMENT_TYPE_GENERICINST # elt ELEMENT_TYPE_VALUETYPE # token_bytes type_ref @ 0x01 # returnSignature"

definition GetTargetReturnValueTypeRef :: "TokenEnv \<Rightarrow> bytes \<Rightarrow> mdToken tk" where
  "GetTargetReturnValueTypeRef env returnSignature =
     unless_failed (EnsureBaseCalltargetTokens env) mdTypeSpecNil
     (unless_failed (ensure_type env callTargetReturnTypeRef (\<lambda>t s. s \<lparr>callTargetReturnTypeRef := t\<rparr>)
         profilerAssemblyRef ''Datadog.Trace.ClrProfiler.CallTarget.CallTargetReturn`1'') mdTypeSpecNil
      (tk_bind (tk_get callTargetReturnTypeRef) (\<lambda>type_ref.
       tk_bind (tk_lift (buffered (return_type_spec type_ref returnSignature)
           (3 + length (token_bytes type_ref) + length returnSignature))) (\<lambda>sig.
       tk_bind (define_local env mdTypeSpecNil (GetTokenFromTypeSpec sig)) (\<lambda>(hr, token).
         tk_return (if FAILED hr then mdTypeSpecNil else token))))))"

definition GetCallTargetReturnVoidDefaultMemberRef :: "TokenEnv \<Rightarrow> mdToken tk" where
  "GetCallTargetReturnVoidDefaultMemberRef env =
     unless_failed (EnsureBaseCalltargetTokens env) mdMemberRefNil
     (unless_failed (ensure_member env mdMemberRefNil callTargetReturnVoidTypeGetDefault
         (\<lambda>t s. s \<lparr>callTargetReturnVoidTypeGetDefault := t\<rparr>) callTargetReturnVoidTypeRef ''GetDefault''
         (\<lambda>s. returns_value (callTargetReturnVoidTypeRef s))
         (\<lambda>s. 3 + length (token_bytes (callTargetReturnVoidTypeRef s)))) mdMemberRefNil
      (tk_get callTargetReturnVoidTypeGetDefault))"

definition GetCallTargetReturnValueDefaultMemberRef :: "TokenEnv \<Rightarrow> mdToken \<Rightarrow> mdToken tk" where
  "GetCallTargetReturnValueDefaultMemberRef env callTargetReturnTypeSpec =
     unless_failed (EnsureBaseCalltargetTokens env) mdMemberRefNil
     (tk_bind (tk_get callTargetReturnTypeRef) (\<lambda>type_ref.
      if type_ref = mdTypeRefNil then tk_return mdMemberRefNil else
      tk_bind (tk_lift (buffered
        (IMAGE_CEE_CS_CALLCONV_DEFAULT # 0x00 # return_type_spec type_ref [elt ELEMENT_TYPE_VAR, 0x00])
        (7 + length (token_bytes type_ref)))) (\<lambda>sig.
      tk_bind (define_local env mdMemberRefNil (DefineMemberRef callTargetReturnTypeSpec (WStr ''GetDefault'') sig))
        (\<lambda>(hr, token). tk_return (if FAILED hr then mdMemberRefNil else token)))))"

text \<open>Where the member cannot be defined, the status itself is returned as the token.\<close>

definition GetCallTargetDefaultValueMethodSpec :: "TokenEnv \<Rightarrow> bytes \<Rightarrow> mdToken tk" where
  "GetCallTargetDefaultValueMethodSpec env methodArgumentSignature =
     unless_failed (EnsureBaseCalltargetTokens env) mdMethodSpecNil
     (tk_bind (ensure_member env mdMemberRefNil getDefaultMemberRef (\<lambda>t s. s \<lparr>getDefaultMemberRef := t\<rparr>)
         callTargetTypeRef ''GetDefaultValue''
         (\<lambda>s. [IMAGE_CEE_CS_CALLCONV_GENERIC, 0x01, 0x00, elt ELEMENT_TYPE_MVAR, 0x00]) (\<lambda>s. 5)) (\<lambda>hr.
      if FAILED hr then tk_return hr else
      tk_bind (tk_get getDefaultMemberRef) (\<lambda>member.
      tk_bind (tk_lift (buffered (IMAGE_CEE_CS_CALLCONV_GENERICINST # 0x01 # methodArgumentSignature)
          (2 + length methodArgumentSignature))) (\<lambda>sig.
      tk_bind (define_local env mdMethodSpecNil (DefineMethodSpec member sig)) (\<lambda>(hr, token).
        tk_return (if FAILED hr then mdMethodSpecNil else token))))))"

text \<open>The loop over the enclosing types.\<close>

function enclosing_type :: "mdToken \<Rightarrow> bool \<Rightarrow> TypeInfo \<Rightarrow> mdToken \<times> bool" where
  "enclosing_type object_ref isValueType cType =
     (if isGeneric cType then (object_ref, False)
      else (case parent_type cType of
          None \<Rightarrow> (type_id cType, isValueType)
        | Some parent \<Rightarrow> enclosing_type object_ref isValueType parent))"
  by pat_completeness auto

lemma size_parent [termination_simp]: "parent_type t = Some p \<Longrightarrow> size p < size t"
  by (cases t) auto

termination enclosing_type
  by (relation "measure (\<lambda>(_, _, t). size t)") (auto simp: size_parent)

declare enclosing_type.simps [simp del]

definition GetCurrentTypeRef :: "mdToken \<Rightarrow> TypeInfo \<Rightarrow> bool \<Rightarrow> mdToken \<times> bool" where
  "GetCurrentTypeRef object_ref currentType isValueType =
     (if info_spec currentType \<noteq> mdTypeSpecNil then (info_spec currentType, isValueType)
      else enclosing_type object_ref isValueType currentType)"

section \<open>The calls\<close>

text \<open>
  The specification of a method of the invoker: its generic arguments are the integration, the
  type of the instance, and the given types.
\<close>

definition target_arguments :: "u8 \<Rightarrow> mdToken \<Rightarrow> mdToken \<times> bool \<Rightarrow> bytes list \<Rightarrow> bytes" where
  "target_arguments count integrationTypeRef current types =
     IMAGE_CEE_CS_CALLCONV_GENERICINST # count #
     elt ELEMENT_TYPE_CLASS # token_bytes integrationTypeRef @
     (if snd current then elt ELEMENT_TYPE_VALUETYPE else elt ELEMENT_TYPE_CLASS) # token_bytes (fst current) @
     concat types"

definition define_target_spec ::
  "TokenEnv \<Rightarrow> (CallTargetTokens \<Rightarrow> mdToken) \<Rightarrow> u8 \<Rightarrow> mdToken \<Rightarrow> TypeInfo \<Rightarrow> bytes list \<Rightarrow> (hresult \<times> mdToken) tk" where
  "define_target_spec env method_ref count integrationTypeRef currentType types =
     tk_bind (tk_get method_ref) (\<lambda>ref.
     tk_bind (tk_get (\<lambda>s. GetCurrentTypeRef (objectTypeRef s) currentType (valueType currentType))) (\<lambda>current.
     tk_bind (tk_lift (buffered (target_arguments count integrationTypeRef current types)
         (4 + length (token_bytes integrationTypeRef) + length (token_bytes (fst current)) + sum_list (map length types))))
       (\<lambda>sig. define_local env mdMethodSpecNil (DefineMethodSpec ref sig))))"

text \<open>
  Each writer ends in \<^verbatim>\<open>*instruction = rewriterWrapper->CallMember(spec, false)\<close>; \<open>call_spec\<close> is
  that end, behind the tokens. On failure nothing is inserted and the pointer is not written.
\<close>

type_synonym 'a writer = "ILRewriterWrapper \<Rightarrow> CallTargetTokens \<Rightarrow> ('a \<times> ILRewriterWrapper \<times> CallTargetTokens) exec"

definition call_spec :: "(hresult \<times> mdToken) tk \<Rightarrow> (hresult \<times> ptr option) writer" where
  "call_spec spec w s = xbind (spec s) (\<lambda>((hr, token), s).
     if FAILED hr then Ok ((hr, None), w, s)
     else let (instruction, w) = CallMember token False w in Ok ((S_OK, Some instruction), w, s))"

definition after_tokens :: "hresult tk \<Rightarrow> (hresult \<times> mdToken) tk \<Rightarrow> (hresult \<times> mdToken) tk" where
  "after_tokens m k = tk_bind m (\<lambda>hr. if FAILED hr then tk_return (hr, mdTokenNil) else k)"

definition begin_array_signature :: "CallTargetTokens \<Rightarrow> bytes" where
  "begin_array_signature s = IMAGE_CEE_CS_CALLCONV_GENERIC # 0x02 # 0x02 #
     elt ELEMENT_TYPE_VALUETYPE # token_bytes (callTargetStateTypeRef s) @
     [elt ELEMENT_TYPE_MVAR, 0x01, elt ELEMENT_TYPE_SZARRAY, elt ELEMENT_TYPE_OBJECT]"

definition WriteBeginMethodWithArgumentsArray :: "TokenEnv \<Rightarrow> mdToken \<Rightarrow> TypeInfo \<Rightarrow> (hresult \<times> ptr option) writer" where
  "WriteBeginMethodWithArgumentsArray env integrationTypeRef currentType = call_spec
     (after_tokens (in_turn [EnsureBaseCalltargetTokens env,
        ensure_member env mdMemberRefNil beginArrayMemberRef (\<lambda>t s. s \<lparr>beginArrayMemberRef := t\<rparr>)
          callTargetTypeRef ''BeginMethod'' begin_array_signature
          (\<lambda>s. 8 + length (token_bytes (callTargetStateTypeRef s)))])
      (define_target_spec env beginArrayMemberRef 0x02 integrationTypeRef currentType []))"

definition begin_fast_signature :: "nat \<Rightarrow> CallTargetTokens \<Rightarrow> bytes" where
  "begin_fast_signature numArguments s =
     IMAGE_CEE_CS_CALLCONV_GENERIC # of_nat (2 + numArguments) # of_nat (1 + numArguments) #
     elt ELEMENT_TYPE_VALUETYPE # token_bytes (callTargetStateTypeRef s) @
     [elt ELEMENT_TYPE_MVAR, 0x01] @
     concat (map (\<lambda>i. [elt ELEMENT_TYPE_MVAR, of_nat (1 + (i + 1))]) [0..<numArguments])"

definition WriteBeginMethod :: "TokenEnv \<Rightarrow> mdToken \<Rightarrow> TypeInfo \<Rightarrow> bytes list \<Rightarrow> (hresult \<times> ptr option) writer" where
  "WriteBeginMethod env integrationTypeRef currentType methodArguments =
     (let numArguments = length methodArguments in
      if numArguments \<ge> FASTPATH_COUNT then \<lambda>w s.
        xbind (EnsureBaseCalltargetTokens env s) (\<lambda>(hr, s).
          if FAILED hr then Ok ((hr, None), w, s)
          else WriteBeginMethodWithArgumentsArray env integrationTypeRef currentType w s)
      else call_spec (after_tokens (in_turn [EnsureBaseCalltargetTokens env,
          ensure_member env mdMemberRefNil (\<lambda>s. beginMethodFastPathRefs s ! numArguments)
            (\<lambda>t s. s \<lparr>beginMethodFastPathRefs := (beginMethodFastPathRefs s) [numArguments := t]\<rparr>)
            callTargetTypeRef ''BeginMethod'' (begin_fast_signature numArguments)
            (\<lambda>s. 6 + numArguments * 2 + length (token_bytes (callTargetStateTypeRef s)))])
        (define_target_spec env (\<lambda>s. beginMethodFastPathRefs s ! numArguments) (of_nat (2 + numArguments))
          integrationTypeRef currentType methodArguments)))"

definition end_void_signature :: "CallTargetTokens \<Rightarrow> bytes" where
  "end_void_signature s = IMAGE_CEE_CS_CALLCONV_GENERIC # 0x02 # 0x03 #
     elt ELEMENT_TYPE_VALUETYPE # token_bytes (callTargetReturnVoidTypeRef s) @
     elt ELEMENT_TYPE_MVAR # 0x01 #
     elt ELEMENT_TYPE_CLASS # token_bytes (exTypeRef s) @
     elt ELEMENT_TYPE_VALUETYPE # token_bytes (callTargetStateTypeRef s)"

definition WriteEndVoidReturnMemberRef :: "TokenEnv \<Rightarrow> mdToken \<Rightarrow> TypeInfo \<Rightarrow> (hresult \<times> ptr option) writer" where
  "WriteEndVoidReturnMemberRef env integrationTypeRef currentType = call_spec
     (after_tokens (in_turn [EnsureBaseCalltargetTokens env,
        ensure_member env mdMemberRefNil endVoidMemberRef (\<lambda>t s. s \<lparr>endVoidMemberRef := t\<rparr>)
          callTargetTypeRef ''EndMethod'' end_void_signature
          (\<lambda>s. 8 + length (token_bytes (callTargetReturnVoidTypeRef s)) + length (token_bytes (exTypeRef s)) +
             length (token_bytes (callTargetStateTypeRef s)))])
      (define_target_spec env endVoidMemberRef 0x02 integrationTypeRef currentType []))"

definition end_signature :: "CallTargetTokens \<Rightarrow> bytes" where
  "end_signature s = IMAGE_CEE_CS_CALLCONV_GENERIC # 0x03 # 0x04 #
     return_type_spec (callTargetReturnTypeRef s) [elt ELEMENT_TYPE_MVAR, 0x02] @
     elt ELEMENT_TYPE_MVAR # 0x01 #
     elt ELEMENT_TYPE_MVAR # 0x02 #
     elt ELEMENT_TYPE_CLASS # token_bytes (exTypeRef s) @
     elt ELEMENT_TYPE_VALUETYPE # token_bytes (callTargetStateTypeRef s)"

text \<open>The member for a return value is a local variable, defined anew for each method.\<close>

definition WriteEndReturnMemberRef :: "TokenEnv \<Rightarrow> mdToken \<Rightarrow> TypeInfo \<Rightarrow> bytes \<Rightarrow> (hresult \<times> ptr option) writer" where
  "WriteEndReturnMemberRef env integrationTypeRef currentType returnSignature = call_spec
     (after_tokens (EnsureBaseCalltargetTokens env)
      (tk_bind (GetTargetReturnValueTypeRef env returnSignature) (\<lambda>_.
       tk_bind (tk_get id) (\<lambda>s.
       tk_bind (tk_lift (buffered (end_signature s)
         (14 + length (token_bytes (callTargetReturnTypeRef s)) + length (token_bytes (exTypeRef s)) +
          length (token_bytes (callTargetStateTypeRef s))))) (\<lambda>sig.
       tk_bind (define_local env mdMemberRefNil (DefineMemberRef (callTargetTypeRef s) (WStr ''EndMethod'') sig))
        (\<lambda>(hr, endMethodMemberRef). if FAILED hr then tk_return (hr, mdTokenNil)
         else define_target_spec env (\<lambda>_. endMethodMemberRef) 0x03 integrationTypeRef currentType [returnSignature]))))))"

definition log_signature :: "CallTargetTokens \<Rightarrow> bytes" where
  "log_signature s = IMAGE_CEE_CS_CALLCONV_GENERIC # 0x02 # 0x01 #
     elt ELEMENT_TYPE_VOID # elt ELEMENT_TYPE_CLASS # token_bytes (exTypeRef s)"

definition WriteLogException :: "TokenEnv \<Rightarrow> mdToken \<Rightarrow> TypeInfo \<Rightarrow> (hresult \<times> ptr option) writer" where
  "WriteLogException env integrationTypeRef currentType = call_spec
     (after_tokens (in_turn [EnsureBaseCalltargetTokens env,
        ensure_member env mdMemberRefNil logExceptionRef (\<lambda>t s. s \<lparr>logExceptionRef := t\<rparr>)
          callTargetTypeRef ''LogException'' log_signature (\<lambda>s. 5 + length (token_bytes (exTypeRef s)))])
      (define_target_spec env logExceptionRef 0x02 integrationTypeRef currentType []))"

text \<open>On failure this writer returns the nil token as its status.\<close>

definition WriteCallTargetReturnGetReturnValue :: "TokenEnv \<Rightarrow> mdToken \<Rightarrow> (hresult \<times> ptr option) writer" where
  "WriteCallTargetReturnGetReturnValue env callTargetReturnTypeSpec w s =
     xbind (call_spec (after_tokens (EnsureBaseCalltargetTokens env)
       (tk_bind (tk_lift (buffered
           [IMAGE_CEE_CS_CALLCONV_DEFAULT OR IMAGE_CEE_CS_CALLCONV_HASTHIS, 0x00, elt ELEMENT_TYPE_VAR, 0x00] 4)) (\<lambda>sig.
        define_local env mdMemberRefNil
          (DefineMemberRef callTargetReturnTypeSpec (WStr ''GetReturnValue'') sig)))) w s)
     (\<lambda>((hr, i), w, s). Ok ((if FAILED hr then mdMemberRefNil else hr, i), w, s))"

section \<open>The local variables\<close>

text \<open>What is passed out of \<^verbatim>\<open>ModifyLocalSig\<close>, as the caller initialises it: \<^verbatim>\<open>ULONG_MAX\<close> and nil.\<close>

record LocalVars =
  callTargetStateIndex :: u32
  exceptionIndex :: u32
  callTargetReturnIndex :: u32
  returnValueIndex :: u32
  callTargetStateToken :: mdToken
  exceptionToken :: mdToken
  callTargetReturnToken :: mdToken

definition no_LocalVars :: LocalVars where
  "no_LocalVars = \<lparr>callTargetStateIndex = - 1, exceptionIndex = - 1, callTargetReturnIndex = - 1,
     returnValueIndex = - 1, callTargetStateToken = mdTokenNil, exceptionToken = mdTokenNil,
     callTargetReturnToken = mdTokenNil\<rparr>"

text \<open>
  The test for a signature that was modified before: it ends in the value type of the call target
  state. The subtraction is unsigned, so a signature shorter than the token is read outside.
\<close>

definition already_modified :: "bytes \<Rightarrow> bytes \<Rightarrow> bool exec" where
  "already_modified originalSignature stateToken =
     (let n = length originalSignature; len = length stateToken in
      if n = len then Ok False
      else if n < len then Overrun
      else Ok (originalSignature ! (n - len - 1) = elt ELEMENT_TYPE_VALUETYPE \<and> drop (n - len) originalSignature = stateToken))"

text \<open>
  The new signature with its length and the number of locals: the header, the count, the old
  locals, and the new ones. A count that cannot be read or written gives a negative length.
\<close>

definition new_local_sig :: "bytes \<Rightarrow> u32 \<Rightarrow> bytes list \<Rightarrow> (bytes \<times> nat \<times> u32) exec" where
  "new_local_sig originalSignature added types =
     (if originalSignature = [] then
        let (newLocalsLen, newLocalsBuffer) = CorSigCompressData added in
        Ok (IMAGE_CEE_CS_CALLCONV_LOCAL_SIG # newLocalsBuffer @ concat types,
            2 + sum_list (map length types), added)
      else (case CorSigUncompressData (tl originalSignature) of
          Done (oldLocalsLen, oldLocalsBuffer) \<Rightarrow>
            let newLocalsCount = added + oldLocalsBuffer;
                (newLocalsLen, newLocalsBuffer) = CorSigCompressData newLocalsCount
            in if oldLocalsLen = - 1 \<or> newLocalsLen = - 1 then Overrun
               else Ok (IMAGE_CEE_CS_CALLCONV_LOCAL_SIG # newLocalsBuffer @
                   drop (1 + unat oldLocalsLen) originalSignature @ concat types,
                 length originalSignature + sum_list (map length types) + unat newLocalsLen - unat oldLocalsLen,
                 newLocalsCount)
        | _ \<Rightarrow> Overrun))"

definition as_exec :: "'a outcome \<Rightarrow> 'a exec" where
  "as_exec m = (case m of Done x \<Rightarrow> Ok x | _ \<Rightarrow> Overrun)"

text \<open>
  The type of the call target return: a type specification, whose signature is read back, for a
  method that returns a value, the plain type for one that does not.
\<close>

definition call_target_return :: "TokenEnv \<Rightarrow> bytes \<Rightarrow> (hresult \<times> mdToken \<times> bytes) tk" where
  "call_target_return env returnSignature =
     tk_bind (tk_lift (as_exec (GetTypeFlags returnSignature))) (\<lambda>(retTypeFlags, retTypeElementType).
     if retTypeFlags \<noteq> TypeFlagVoid then
       tk_bind (GetTargetReturnValueTypeRef env returnSignature) (\<lambda>token.
       tk_bind (tk_get emitted) (\<lambda>done_calls.
         let (hr, sig) = spec_from_token env done_calls token in
         tk_return (if FAILED hr then E_FAIL else S_OK, token, sig)))
     else tk_bind (GetTargetVoidReturnTypeRef env) (\<lambda>token.
       tk_return (S_OK, token, elt ELEMENT_TYPE_VALUETYPE # token_bytes token)))"

definition is_void :: "bytes \<Rightarrow> bool" where
  "is_void returnSignature \<longleftrightarrow>
     (case GetTypeFlags returnSignature of Done (retTypeFlags, k) \<Rightarrow> retTypeFlags = TypeFlagVoid | _ \<Rightarrow> False)"

text \<open>The signature of the locals before: nothing if the method has none.\<close>

definition original_signature :: "TokenEnv \<Rightarrow> ILRewriter \<Rightarrow> hresult \<times> bytes" where
  "original_signature env reWriter =
     (if GetTkLocalVarSig reWriter \<noteq> mdTokenNil then sig_from_token env (GetTkLocalVarSig reWriter) else (S_OK, []))"

definition ModifyLocalSig ::
  "TokenEnv \<Rightarrow> bytes \<Rightarrow> ILRewriter \<Rightarrow> CallTargetTokens \<Rightarrow> ((hresult \<times> LocalVars) \<times> ILRewriter \<times> CallTargetTokens) exec" where
  "ModifyLocalSig env returnSignature reWriter s =
     xbind (EnsureBaseCalltargetTokens env s) (\<lambda>(hr, s).
     if FAILED hr then Ok ((hr, no_LocalVars), reWriter, s) else
     let (hr, originalSignature) = original_signature env reWriter in
     if FAILED hr then Ok ((hr, no_LocalVars), reWriter, s) else
     xbind (if GetTkLocalVarSig reWriter \<noteq> mdTokenNil
       then already_modified originalSignature (token_bytes (callTargetStateTypeRef s)) else Ok False) (\<lambda>modified.
     if modified then Ok ((E_FAIL, no_LocalVars), reWriter, s) else
     xbind (call_target_return env returnSignature s) (\<lambda>((hr, callTargetReturn, callTargetReturnSignature), s).
     if FAILED hr then Ok ((E_FAIL, no_LocalVars), reWriter, s) else
     let types = (if is_void returnSignature then [] else [returnSignature]) @
           [elt ELEMENT_TYPE_CLASS # token_bytes (exTypeRef s), callTargetReturnSignature,
            elt ELEMENT_TYPE_VALUETYPE # token_bytes (callTargetStateTypeRef s)] in
     xbind (new_local_sig originalSignature (of_nat (length types)) types) (\<lambda>(written, newSignatureSize, newLocalsCount).
     xbind (buffered written newSignatureSize) (\<lambda>sig.
     let (hr, token) = answer env (emitted s) (GetTokenFromSig sig);
         s = s \<lparr>emitted := emitted s @ [GetTokenFromSig sig]\<rparr> in
     if FAILED hr then Ok ((hr, no_LocalVars), reWriter, s) else
     (case token of None \<Rightarrow> Overrun | Some newLocalVarSig \<Rightarrow>
       Ok ((hr, \<lparr>callTargetStateIndex = newLocalsCount - 1, exceptionIndex = newLocalsCount - 3,
             callTargetReturnIndex = newLocalsCount - 2,
             returnValueIndex = (if is_void returnSignature then - 1 else newLocalsCount - 4),
             callTargetStateToken = callTargetStateTypeRef s, exceptionToken = exTypeRef s,
             callTargetReturnToken = callTargetReturn\<rparr>),
         SetTkLocalVarSig newLocalVarSig reWriter, s)))))))"

section \<open>Writing instructions and requesting tokens\<close>

text \<open>
  The steps of a computation on both states: a result, a computation of tokens, an insertion
  whose pointer is used, and insertions whose pointers are not.
\<close>

definition w_return :: "'a \<Rightarrow> 'a writer" where
  "w_return x w s = Ok (x, w, s)"

definition w_bind :: "'a writer \<Rightarrow> ('a \<Rightarrow> 'b writer) \<Rightarrow> 'b writer" where
  "w_bind m f w s = xbind (m w s) (\<lambda>(x, w, s). f x w s)"

definition w_tk :: "'a tk \<Rightarrow> 'a writer" where
  "w_tk m w s = xbind (m s) (\<lambda>(x, s). Ok (x, w, s))"

definition w_op :: "(ILRewriterWrapper \<Rightarrow> 'a \<times> ILRewriterWrapper) \<Rightarrow> 'a writer" where
  "w_op f w s = (let (x, w) = f w in Ok (x, w, s))"

definition w_do :: "(ILRewriterWrapper \<Rightarrow> ILRewriterWrapper) \<Rightarrow> unit writer" where
  "w_do f w s = Ok ((), f w, s)"

definition in_order :: "(ILRewriterWrapper \<Rightarrow> ptr \<times> ILRewriterWrapper) list \<Rightarrow> ILRewriterWrapper \<Rightarrow> ILRewriterWrapper" where
  "in_order fs w = fold (\<lambda>f w. snd (f w)) fs w"

definition w_ModifyLocalSig :: "TokenEnv \<Rightarrow> bytes \<Rightarrow> (hresult \<times> LocalVars) writer" where
  "w_ModifyLocalSig env returnSignature w s =
     xbind (ModifyLocalSig env returnSignature (GetILRewriter w) s) (\<lambda>(x, reWriter, s).
       Ok (x, w \<lparr>m_ILRewriter := reWriter\<rparr>, s))"

text \<open>
  The initialisation of the new locals, with the pointer to its first instruction; the pointer is
  not written if the signature could not be modified.
\<close>

definition initialize_locals :: "TokenEnv \<Rightarrow> bytes \<Rightarrow> LocalVars \<Rightarrow> ptr writer" where
  "initialize_locals env returnSignature locals =
     (if returnValueIndex locals \<noteq> - 1 then
       w_bind (w_tk (GetCallTargetDefaultValueMethodSpec env returnSignature)) (\<lambda>spec.
       w_bind (w_op (CallMember spec False)) (\<lambda>firstInstruction.
       w_bind (w_do (in_order [StLocal (returnValueIndex locals)])) (\<lambda>_.
       w_bind (w_tk (GetCallTargetReturnValueDefaultMemberRef env (callTargetReturnToken locals))) (\<lambda>member_ref.
       w_bind (w_do (in_order [CallMember member_ref False, StLocal (callTargetReturnIndex locals), LoadNull,
           StLocal (exceptionIndex locals)])) (\<lambda>_.
       w_return firstInstruction)))))
     else
       w_bind (w_tk (GetCallTargetReturnVoidDefaultMemberRef env)) (\<lambda>member_ref.
       w_bind (w_op (CallMember member_ref False)) (\<lambda>firstInstruction.
       w_bind (w_do (in_order [StLocal (callTargetReturnIndex locals), LoadNull, StLocal (exceptionIndex locals)])) (\<lambda>_.
       w_return firstInstruction))))"

definition ModifyLocalSigAndInitialize ::
  "TokenEnv \<Rightarrow> bytes \<Rightarrow> (hresult \<times> LocalVars \<times> ptr option) writer" where
  "ModifyLocalSigAndInitialize env returnSignature =
     w_bind (w_ModifyLocalSig env returnSignature) (\<lambda>(hr, locals).
     if FAILED hr then w_return (hr, locals, None)
     else w_bind (initialize_locals env returnSignature locals) (\<lambda>firstInstruction.
       w_return (S_OK, locals, Some firstInstruction)))"

section \<open>A sample of the metadata\<close>

text \<open>Every request is answered with a token of its kind.\<close>

definition sample_answer :: "emit_call list \<Rightarrow> emit_call \<Rightarrow> hresult \<times> mdToken option" where
  "sample_answer reqs call = (S_OK, Some (case call of
     DefineAssemblyRef_property p \<Rightarrow> 0x23000001 | DefineAssemblyRef k n m l \<Rightarrow> 0x23000002
   | DefineAssemblyRef_flags k n m f \<Rightarrow> 0x23000003
   | DefineTypeRefByName scope n \<Rightarrow> 0x01000001 + of_nat (length reqs)
   | DefineMemberRef parent n sig \<Rightarrow> 0x0a000001 + of_nat (length reqs)
   | DefineMethodSpec parent sig \<Rightarrow> 0x2b000001 + of_nat (length reqs)
   | GetTokenFromTypeSpec sig \<Rightarrow> 0x1b000001 | GetTokenFromSig sig \<Rightarrow> 0x11000001))"

definition sample_token_env :: "bytes \<Rightarrow> TokenEnv" where
  "sample_token_env sig = \<lparr>answer = sample_answer, sig_from_token = (\<lambda>token. (S_OK, sig)),
     spec_from_token = (\<lambda>reqs token. (S_OK, [0x15, 0x11, 0x05, 0x01, 0x08])),
     cor_property = Some \<lparr>ppbPublicKey = None, pulHashAlgId = 0, pMetaData = \<lparr>usMajorVersion = 4, usMinorVersion = 0,
       usBuildNumber = 0, usRevisionNumber = 0\<rparr>, szName = [], assemblyFlags = 0\<rparr>,
     tracer_reference = AssemblyReference (WStr ''Datadog.Trace'') (Version 1 0 0 0) [] zero_key\<rparr>"

end
