(* ===== verification/CallTargetSigs.thy ===== *)
theory CallTargetSigs
  imports CallTargetTokens SigAgreement
begin

text \<open>
  What the call target requests of the metadata: every signature it passes on is well formed,
  the new signature of the locals keeps the old ones, and where the code falls short.
\<close>

section \<open>Well-formed requests\<close>

text \<open>
  A method signature: calling convention, number of generic parameters if it is generic, number
  of parameters, return type, parameters. The generic arguments of a method: their number and
  as many types.
\<close>

definition member_signature :: "bytes \<Rightarrow> bool" where
  "member_signature sig \<longleftrightarrow> (\<exists>conv gen c n r ps. sig = conv # gen @ c @ r @ concat ps \<and>
     (if conv AND IMAGE_CEE_CS_CALLCONV_GENERIC \<noteq> 0 then a_number gen else gen = []) \<and>
     number_bytes c n \<and> length ps = unat n \<and> type_sig r \<and> list_all type_sig ps)"

definition method_arguments :: "bytes \<Rightarrow> bool" where
  "method_arguments sig \<longleftrightarrow> (\<exists>c n ts. sig = IMAGE_CEE_CS_CALLCONV_GENERICINST # c @ concat ts \<and>
     number_bytes c n \<and> length ts = unat n \<and> list_all type_sig ts)"

text \<open>A signature of locals: a local is a type, behind modifiers, pinned or by reference.\<close>

inductive local_type :: "bytes \<Rightarrow> bool" where
  local_plain: "type_sig t \<Longrightarrow> local_type t"
| local_typedref: "local_type [elt ELEMENT_TYPE_TYPEDBYREF]"
| local_constrained: "e \<in> {ELEMENT_TYPE_PINNED, ELEMENT_TYPE_BYREF} \<Longrightarrow> local_type t \<Longrightarrow> local_type (elt e # t)"
| local_modified: "is_cmod b \<Longrightarrow> number_bytes n k \<Longrightarrow> local_type t \<Longrightarrow> local_type (b # n @ t)"

definition locals_signature :: "bytes list \<Rightarrow> bytes \<Rightarrow> bool" where
  "locals_signature ts sig \<longleftrightarrow> (\<exists>c n. sig = IMAGE_CEE_CS_CALLCONV_LOCAL_SIG # c @ concat ts \<and>
     number_bytes c n \<and> length ts = unat n)"

definition good_request :: "emit_call \<Rightarrow> bool" where
  "good_request call = (case call of
     DefineMemberRef parent m sig \<Rightarrow> member_signature sig
   | DefineMethodSpec parent sig \<Rightarrow> method_arguments sig
   | GetTokenFromTypeSpec sig \<Rightarrow> type_sig sig
   | GetTokenFromSig sig \<Rightarrow> (\<exists>ts. list_all local_type ts \<and> locals_signature ts sig)
   | _ \<Rightarrow> True)"

lemma token_bytes_number: "a_number (token_bytes token)"
  using CompressData_number(1) [OF token_number_le, of token] by (auto simp: CompressToken_number)

lemma small_number: "b AND 0x80 = 0 \<Longrightarrow> number_bytes [b] (ucast b)"
  by (rule number_bytes.one)

lemma class_sig: "type_sig (elt ELEMENT_TYPE_CLASS # token_bytes t)"
  by (rule type_sig.type_named) (simp_all add: token_bytes_number)

lemma valuetype_sig: "type_sig (elt ELEMENT_TYPE_VALUETYPE # token_bytes t)"
  by (rule type_sig.type_named) (simp_all add: token_bytes_number)

lemma one_number: "number_bytes [0x00] 0" "number_bytes [0x01] 1" "number_bytes [0x02] 2" "number_bytes [0x03] 3" "number_bytes [0x04] 4"
  using number_bytes.one [of "0x00"] number_bytes.one [of "0x01"] number_bytes.one [of "0x02"] number_bytes.one [of "0x03"]
    number_bytes.one [of "0x04"] by simp_all

lemma variable_sig: "b AND 0x80 = 0 \<Longrightarrow> type_sig [elt ELEMENT_TYPE_MVAR, b]" "b AND 0x80 = 0 \<Longrightarrow> type_sig [elt ELEMENT_TYPE_VAR, b]"
  by (rule type_sig.type_variable; use small_number in \<open>auto simp: a_number_def\<close>)+

lemma return_spec_sig: "type_sig t \<Longrightarrow> type_sig (return_type_spec r t)"
  unfolding return_type_spec_def
  using type_sig.type_generic [of ELEMENT_TYPE_VALUETYPE "token_bytes r" "[0x01]" 1 t] one_number(2)
    seq.seq_Cons [of type_sig t 0 "[]"]
  by (simp add: token_bytes_number seq.seq_Nil)

lemma object_array_sig: "type_sig [elt ELEMENT_TYPE_SZARRAY, elt ELEMENT_TYPE_OBJECT]"
  using type_sig.type_modified [of ELEMENT_TYPE_SZARRAY "[]" "[elt ELEMENT_TYPE_OBJECT]"]
    type_sig.type_primitive [of ELEMENT_TYPE_OBJECT] by (simp add: mods.intros)

lemma void_sig: "type_sig [elt ELEMENT_TYPE_VOID]"
  using type_sig.type_primitive [of ELEMENT_TYPE_VOID] by simp

lemmas target_sigs = class_sig valuetype_sig variable_sig return_spec_sig object_array_sig void_sig

text \<open>The member signatures.\<close>

lemma member_signatureI:
  assumes "sig = conv # gen @ c @ r @ concat ps"
    and "if conv AND IMAGE_CEE_CS_CALLCONV_GENERIC \<noteq> 0 then a_number gen else gen = []"
    and "number_bytes c n" and "length ps = unat n" and "type_sig r" and "list_all type_sig ps"
  shows "member_signature sig"
  unfolding member_signature_def using assms by blast

lemma GetTypeFromHandle_member: "member_signature (GetTypeFromHandle_signature s)"
  by (rule member_signatureI [where conv = "0" and
      gen = "[]" and
      c = "[0x01]" and
      r = "elt ELEMENT_TYPE_CLASS # token_bytes (typeRef s)" and
      ps = "[elt ELEMENT_TYPE_VALUETYPE # token_bytes (runtimeTypeHandleRef s)]" and
      n = "1"])
    (simp_all add: GetTypeFromHandle_signature_def one_number target_sigs)

lemma returns_value_member: "member_signature (returns_value t)"
  by (rule member_signatureI [where conv = "0" and
      gen = "[]" and
      c = "[0x00]" and
      r = "elt ELEMENT_TYPE_VALUETYPE # token_bytes t" and
      ps = "[]" and
      n = "0"])
    (simp_all add: returns_value_def one_number target_sigs)

lemma get_default_member: "member_signature (0x00 # 0x00 # return_type_spec t [elt ELEMENT_TYPE_VAR, 0x00])"
  by (rule member_signatureI [where conv = "0" and
      gen = "[]" and
      c = "[0x00]" and
      r = "return_type_spec t [elt ELEMENT_TYPE_VAR, 0x00]" and
      ps = "[]" and
      n = "0"])
    (simp_all add: one_number target_sigs)

lemma default_value_member: "member_signature [0x10, 0x01, 0x00, elt ELEMENT_TYPE_MVAR, 0x00]"
  by (rule member_signatureI [where conv = "0x10" and
      gen = "[0x01]" and
      c = "[0x00]" and
      r = "[elt ELEMENT_TYPE_MVAR, 0x00]" and
      ps = "[]" and
      n = "0"])
    (auto simp: one_number target_sigs intro: a_numberI one_number)

lemma begin_array_member: "member_signature (begin_array_signature s)"
  by (rule member_signatureI [where conv = "0x10" and
      gen = "[0x02]" and
      c = "[0x02]" and
      r = "elt ELEMENT_TYPE_VALUETYPE # token_bytes (callTargetStateTypeRef s)" and
      ps = "[[elt ELEMENT_TYPE_MVAR, 0x01], [elt ELEMENT_TYPE_SZARRAY, elt ELEMENT_TYPE_OBJECT]]" and
      n = "2"])
    (auto simp: begin_array_signature_def one_number target_sigs intro: a_numberI one_number)

lemma end_void_member: "member_signature (end_void_signature s)"
  by (rule member_signatureI [where conv = "0x10" and
      gen = "[0x02]" and
      c = "[0x03]" and
      r = "elt ELEMENT_TYPE_VALUETYPE # token_bytes (callTargetReturnVoidTypeRef s)" and
      ps = "[[elt ELEMENT_TYPE_MVAR, 0x01], elt ELEMENT_TYPE_CLASS # token_bytes (exTypeRef s),
          elt ELEMENT_TYPE_VALUETYPE # token_bytes (callTargetStateTypeRef s)]" and
      n = "3"])
    (auto simp: end_void_signature_def one_number target_sigs intro: a_numberI one_number)

lemma end_member: "member_signature (end_signature s)"
  by (rule member_signatureI [where conv = "0x10" and
      gen = "[0x03]" and
      c = "[0x04]" and
      r = "return_type_spec (callTargetReturnTypeRef s) [elt ELEMENT_TYPE_MVAR, 0x02]" and
      ps = "[[elt ELEMENT_TYPE_MVAR, 0x01], [elt ELEMENT_TYPE_MVAR, 0x02], elt ELEMENT_TYPE_CLASS # token_bytes (exTypeRef s),
          elt ELEMENT_TYPE_VALUETYPE # token_bytes (callTargetStateTypeRef s)]" and
      n = "4"])
    (auto simp: end_signature_def one_number target_sigs intro: a_numberI one_number)

lemma log_member: "member_signature (log_signature s)"
  by (rule member_signatureI [where conv = "0x10" and
      gen = "[0x02]" and
      c = "[0x01]" and
      r = "[elt ELEMENT_TYPE_VOID]" and
      ps = "[elt ELEMENT_TYPE_CLASS # token_bytes (exTypeRef s)]" and
      n = "1"])
    (auto simp: log_signature_def one_number target_sigs intro: a_numberI one_number)

lemma get_return_member: "member_signature [0x00 OR 0x20, 0x00, elt ELEMENT_TYPE_VAR, 0x00]"
  by (rule member_signatureI [where conv = "0x20" and
      gen = "[]" and
      c = "[0x00]" and
      r = "[elt ELEMENT_TYPE_VAR, 0x00]" and
      ps = "[]" and
      n = "0"])
    (simp_all add: one_number target_sigs)

lemma byte_of_nat:
  assumes "k < 12"
  shows "number_bytes [of_nat k] (of_nat k)" and "(of_nat k :: u8) AND 0x80 = 0"
proof -
  have k: "k \<in> {0, 1, 2, 3, 4, 5, 6, 7, 8, 9, 10, 11}"
    using assms unfolding insert_iff empty_iff by presburger
  then show *: "(of_nat k :: u8) AND 0x80 = 0" by auto
  have "(ucast (of_nat k :: u8) :: u32) = of_nat k" using k by auto
  with number_bytes.one [OF *] show "number_bytes [of_nat k] (of_nat k)" by simp
qed

lemma begin_fast_member:
  assumes "n < FASTPATH_COUNT"
  shows "member_signature (begin_fast_signature n s)"
proof (rule member_signatureI [where conv = "0x10" and
      gen = "[of_nat (2 + n)]" and
      c = "[of_nat (1 + n)]" and
      r = "elt ELEMENT_TYPE_VALUETYPE # token_bytes (callTargetStateTypeRef s)" and
      ps = "[elt ELEMENT_TYPE_MVAR, 0x01] # map (\<lambda>i. [elt ELEMENT_TYPE_MVAR, of_nat (1 + (i + 1))]) [0..<n]" and
      n = "of_nat (1 + n)"])
  have n: "n < 9" using assms by (simp add: FASTPATH_COUNT_def)
  show "if 0x10 AND IMAGE_CEE_CS_CALLCONV_GENERIC \<noteq> (0 :: u8) then a_number [of_nat (2 + n)] else [of_nat (2 + n)] = []"
    using n byte_of_nat(1) [of "2 + n"] by (auto simp: a_number_def)
  show "number_bytes [of_nat (1 + n)] (of_nat (1 + n))" using n by (intro byte_of_nat) simp
  have "unat (of_nat (1 + n) :: u32) = 1 + n" using n unfolding unat_of_nat32 by simp
  then show "length ([elt ELEMENT_TYPE_MVAR, 0x01] # map (\<lambda>i. [elt ELEMENT_TYPE_MVAR, of_nat (1 + (i + 1)) :: u8]) [0..<n]) =
      unat (of_nat (1 + n) :: u32)" by simp
  show "list_all type_sig ([elt ELEMENT_TYPE_MVAR, 0x01] # map (\<lambda>i. [elt ELEMENT_TYPE_MVAR, of_nat (1 + (i + 1))]) [0..<n])"
    using n byte_of_nat(2) [of "1 + (i + 1)" for i] by (auto simp: list_all_iff intro!: target_sigs)
qed (simp_all add: begin_fast_signature_def target_sigs)

lemma target_method_arguments:
  assumes "number_bytes [count] n" and "unat n = 2 + length types" and "list_all type_sig types"
  shows "method_arguments (target_arguments count integ current types)"
  unfolding method_arguments_def
  by (rule exI [of _ "[count]"], rule exI [of _ n], rule exI [of _ "(elt ELEMENT_TYPE_CLASS # token_bytes integ) #
      ((if snd current then elt ELEMENT_TYPE_VALUETYPE else elt ELEMENT_TYPE_CLASS) # token_bytes (fst current)) # types"])
    (use assms in \<open>auto simp: target_arguments_def target_sigs\<close>)

section \<open>What is requested\<close>

text \<open>A computation keeps the requests well formed.\<close>

definition keeps :: "'a tk \<Rightarrow> bool" where
  "keeps m \<longleftrightarrow> (\<forall>s x s'. m s = Ok (x, s') \<longrightarrow> list_all good_request (emitted s) \<longrightarrow> list_all good_request (emitted s'))"

named_theorems keeping \<open>computations that keep the requests well formed\<close>

lemma keepsI:
  "(\<And>s x s'. m s = Ok (x, s') \<Longrightarrow> list_all good_request (emitted s) \<Longrightarrow> list_all good_request (emitted s')) \<Longrightarrow> keeps m"
  by (simp add: keeps_def)

lemma keepsD: "keeps m \<Longrightarrow> m s = Ok (x, s') \<Longrightarrow> list_all good_request (emitted s) \<Longrightarrow> list_all good_request (emitted s')"
  by (simp add: keeps_def)

lemma keeps_tk_return [keeping]: "keeps (tk_return x)"
  by (auto simp: keeps_def tk_return_def)

lemma keeps_get [keeping]: "keeps (tk_get f)"
  by (auto simp: keeps_def tk_get_def)

lemma keeps_lift: "keeps (tk_lift m)"
  by (auto simp: keeps_def tk_lift_def xbind_Ok_iff)

lemma tk_bind_Ok:
  assumes "tk_bind m f s = Ok r"
  obtains x s' where "m s = Ok (x, s')" and "f x s' = Ok r"
  using assms by (cases "m s") (auto simp: tk_bind_def)

lemma keeps_tk_bind [keeping]: "keeps m \<Longrightarrow> (\<And>x. keeps (f x)) \<Longrightarrow> keeps (tk_bind m f)"
  by (rule keepsI, elim tk_bind_Ok) (blast dest: keepsD)

text \<open>What follows a signature in a buffer sees the bytes that were meant.\<close>

lemma buffered_Ok:
  "buffered w n = Ok sig \<longleftrightarrow> length w \<le> signatureBufferSize \<and> n \<le> length w \<and> sig = take n w"
  by (auto simp: buffered_def)

lemma keeps_buffered [keeping]:
  assumes "\<And>sig. sig = take n w \<Longrightarrow> keeps (f sig)"
  shows "keeps (tk_bind (tk_lift (buffered w n)) f)"
proof (rule keepsI)
  fix s x s' assume r: "tk_bind (tk_lift (buffered w n)) f s = Ok (x, s')" and g: "list_all good_request (emitted s)"
  from r obtain sig where "buffered w n = Ok sig" "f sig s = Ok (x, s')"
    by (cases "buffered w n") (auto simp: tk_bind_def tk_lift_def)
  then show "list_all good_request (emitted s')" using assms g by (auto simp: buffered_Ok dest: keepsD)
qed

lemma keeps_unless_failed [keeping]: "keeps m \<Longrightarrow> keeps k \<Longrightarrow> keeps (unless_failed m r k)"
  unfolding unless_failed_def by (rule keeps_tk_bind) (auto simp: keeps_tk_return)

lemma keeps_in_turn [keeping]: "list_all keeps ms \<Longrightarrow> keeps (in_turn ms)"
  by (induction ms) (auto intro!: keeping)

lemma keeps_tk_if [keeping]: "(b \<Longrightarrow> keeps m) \<Longrightarrow> (\<not> b \<Longrightarrow> keeps k) \<Longrightarrow> keeps (if b then m else k)"
  by simp

lemma keeps_pair [keeping]: "(\<And>a b. keeps (f a b)) \<Longrightarrow> keeps (case p of (a, b) \<Rightarrow> f a b)"
  by (cases p) simp

lemma keeps_emit [keeping]:
  "good_request call \<Longrightarrow> (\<And>t s. emitted (put t s) = emitted s) \<Longrightarrow> keeps (emit env put call)"
  by (auto simp: keeps_def emit_def Let_def split: prod.splits option.splits)

lemma keeps_define_local [keeping]: "good_request call \<Longrightarrow> keeps (define_local env i call)"
  by (auto simp: keeps_def define_local_def split: prod.splits)

lemma keeps_ensure:
  assumes "\<And>s call. request s = Ok call \<Longrightarrow> good_request call" and "\<And>t s. emitted (put t s) = emitted s"
  shows "keeps (ensure env nil token put request)"
proof (rule keepsI)
  fix s x s' assume r: "ensure env nil token put request s = Ok (x, s')" and g: "list_all good_request (emitted s)"
  show "list_all good_request (emitted s')"
  proof (cases "token s = nil")
    case True
    with r obtain call where "request s = Ok call" "emit env put call s = Ok (x, s')"
      by (cases "request s") (auto simp: ensure_def)
    then show ?thesis using keepsD [OF keeps_emit] assms g by metis
  qed (use r g in \<open>simp add: ensure_def\<close>)
qed

lemma keeps_ensure_type [keeping]:
  "(\<And>t s. emitted (put t s) = emitted s) \<Longrightarrow>
     keeps (ensure env nil token put (\<lambda>s. Ok (DefineTypeRefByName (scope s) w)))"
  by (rule keeps_ensure) (auto simp: good_request_def)

lemma keeps_ensure_member [keeping]:
  assumes "\<And>s. member_signature (take (len s) (sig s))" and "\<And>t s. emitted (put t s) = emitted s"
  shows "keeps (ensure env nil token put (\<lambda>s. xbind (buffered (sig s) (len s))
    (\<lambda>sig. Ok (DefineMemberRef (parent s) w sig))))"
proof (rule keeps_ensure)
  fix s call assume r: "xbind (buffered (sig s) (len s)) (\<lambda>sig. Ok (DefineMemberRef (parent s) w sig)) = Ok call"
  then obtain b where "buffered (sig s) (len s) = Ok b" and "call = DefineMemberRef (parent s) w b"
    by (cases "buffered (sig s) (len s)") auto
  then show "good_request call" using assms(1) [of s] by (simp add: buffered_Ok good_request_def)
qed (rule assms(2))

lemma keeps_after_tokens [keeping]: "keeps m \<Longrightarrow> keeps k \<Longrightarrow> keeps (after_tokens m k)"
  unfolding after_tokens_def by (rule keeps_tk_bind) (auto simp: keeps_tk_return)

subsection \<open>The operations\<close>

lemma signature_lengths [simp]:
  "length (returns_value t) = 3 + length (token_bytes t)"
  "length (return_type_spec r sig) = 3 + length (token_bytes r) + length sig"
  "length (begin_array_signature s) = 8 + length (token_bytes (callTargetStateTypeRef s))"
  "length (end_void_signature s) = 8 + length (token_bytes (callTargetReturnVoidTypeRef s)) +
     length (token_bytes (exTypeRef s)) + length (token_bytes (callTargetStateTypeRef s))"
  "length (end_signature s) = 14 + length (token_bytes (callTargetReturnTypeRef s)) +
     length (token_bytes (exTypeRef s)) + length (token_bytes (callTargetStateTypeRef s))"
  "length (log_signature s) = 5 + length (token_bytes (exTypeRef s))"
  "length (target_arguments c i current types) =
     4 + length (token_bytes i) + length (token_bytes (fst current)) + sum_list (map length types)"
  by (simp_all add: returns_value_def return_type_spec_def begin_array_signature_def end_void_signature_def
      end_signature_def log_signature_def target_arguments_def length_concat)

lemma begin_fast_length [simp]:
  "length (begin_fast_signature n s) = 6 + n * 2 + length (token_bytes (callTargetStateTypeRef s))"
  by (simp add: begin_fast_signature_def length_concat comp_def sum_list_triv)

lemmas member_signatures = GetTypeFromHandle_member returns_value_member get_default_member default_value_member
  begin_array_member end_void_member end_member log_member get_return_member

lemma keeps_define_corlib [keeping]: "keeps (define_corlib env)"
proof (cases "cor_property env")
  case None
  then show ?thesis by (simp add: keeps_def define_corlib_def)
next
  case (Some p)
  have "keeps (ensure env mdAssemblyRefNil corLibAssemblyRef (\<lambda>t s. s \<lparr>corLibAssemblyRef := t\<rparr>)
     (\<lambda>s. Ok (DefineAssemblyRef_property p)))"
    by (rule keeps_ensure) (auto simp: good_request_def)
  then show ?thesis by (simp add: keeps_def define_corlib_def Some)
qed

lemma keeps_define_tracer [keeping]:
  "keeps (ensure env nil profilerAssemblyRef (\<lambda>t s. s \<lparr>profilerAssemblyRef := t\<rparr>) (define_tracer env))"
  by (rule keeps_ensure) (auto simp: define_tracer_def assembly_request_def Let_def good_request_def)

lemma keeps_EnsureCorLibTokens [keeping]: "keeps (EnsureCorLibTokens env)"
  unfolding EnsureCorLibTokens_def by (rule keeping conjI | simp add: member_signatures)+

lemma keeps_EnsureBaseCalltargetTokens [keeping]: "keeps (EnsureBaseCalltargetTokens env)"
  unfolding EnsureBaseCalltargetTokens_def by (rule keeping conjI | simp add: member_signatures)+

lemma keeps_GetTargetVoidReturnTypeRef [keeping]: "keeps (GetTargetVoidReturnTypeRef env)"
  unfolding GetTargetVoidReturnTypeRef_def by (rule keeping | simp)+

lemma keeps_GetTargetReturnValueTypeRef [keeping]:
  "type_sig returnSignature \<Longrightarrow> keeps (GetTargetReturnValueTypeRef env returnSignature)"
  unfolding GetTargetReturnValueTypeRef_def
  by (rule keeps_buffered keeping | simp add: good_request_def return_spec_sig)+

lemma keeps_GetCallTargetReturnVoidDefaultMemberRef [keeping]: "keeps (GetCallTargetReturnVoidDefaultMemberRef env)"
  unfolding GetCallTargetReturnVoidDefaultMemberRef_def by (rule keeping | simp add: member_signatures)+

lemma keeps_GetCallTargetReturnValueDefaultMemberRef [keeping]: "keeps (GetCallTargetReturnValueDefaultMemberRef env spec)"
  unfolding GetCallTargetReturnValueDefaultMemberRef_def
  by (rule keeps_buffered keeping | simp add: good_request_def member_signatures)+

lemma default_value_arguments:
  "type_sig t \<Longrightarrow> method_arguments (IMAGE_CEE_CS_CALLCONV_GENERICINST # 0x01 # t)"
  unfolding method_arguments_def
  by (rule exI [of _ "[0x01]"], rule exI [of _ 1], rule exI [of _ "[t]"]) (simp add: one_number)

lemma keeps_GetCallTargetDefaultValueMethodSpec [keeping]:
  "type_sig t \<Longrightarrow> keeps (GetCallTargetDefaultValueMethodSpec env t)"
  unfolding GetCallTargetDefaultValueMethodSpec_def
  by (rule keeps_buffered keeping | simp add: good_request_def member_signatures default_value_arguments)+

lemma keeps_define_target_spec [keeping]:
  assumes "number_bytes [count] n" and "unat n = 2 + length types" and "list_all type_sig types"
  shows "keeps (define_target_spec env method_ref count integ currentType types)"
  unfolding define_target_spec_def
  by (rule keeps_buffered keeping | simp add: good_request_def target_method_arguments [OF assms])+

subsection \<open>The writers\<close>

definition keeps_w :: "'a writer \<Rightarrow> bool" where
  "keeps_w m \<longleftrightarrow> (\<forall>w. \<forall>s x w' s'. m w s = Ok (x, w', s') \<longrightarrow>
     list_all good_request (emitted s) \<longrightarrow> list_all good_request (emitted s'))"

lemma keeps_wI:
  "(\<And>w s x w' s'. m w s = Ok (x, w', s') \<Longrightarrow> list_all good_request (emitted s) \<Longrightarrow> list_all good_request (emitted s')) \<Longrightarrow>
   keeps_w m"
  by (simp add: keeps_w_def)

lemma keeps_wD:
  "keeps_w m \<Longrightarrow> m w s = Ok (x, w', s') \<Longrightarrow> list_all good_request (emitted s) \<Longrightarrow> list_all good_request (emitted s')"
  by (simp add: keeps_w_def)

lemma keeps_w_return [keeping]: "keeps_w (w_return x)"
  by (simp add: keeps_w_def w_return_def)

lemma keeps_w_op [keeping]: "keeps_w (w_op f)"
  by (simp add: keeps_w_def w_op_def Let_def split: prod.split)

lemma keeps_w_do [keeping]: "keeps_w (w_do f)"
  by (simp add: keeps_w_def w_do_def)

lemma keeps_w_tk [keeping]: "keeps m \<Longrightarrow> keeps_w (w_tk m)"
  by (fastforce simp: keeps_w_def w_tk_def xbind_Ok_iff dest: keepsD)

lemma w_bind_Ok: "w_bind m f w s = Ok r \<longleftrightarrow> (\<exists>x w1 s1. m w s = Ok (x, w1, s1) \<and> f x w1 s1 = Ok r)"
  by (cases "m w s") (auto simp: w_bind_def)

lemma keeps_w_bind [keeping]:
  assumes "keeps_w m" and "\<And>x. keeps_w (f x)"
  shows "keeps_w (w_bind m f)"
proof (rule keeps_wI)
  fix w s x w' s' assume "w_bind m f w s = Ok (x, w', s')" and g: "list_all good_request (emitted s)"
  then obtain y w1 s1 where "m w s = Ok (y, w1, s1)" "f y w1 s1 = Ok (x, w', s')" unfolding w_bind_Ok by blast
  then show "list_all good_request (emitted s')" using keeps_wD assms g by metis
qed

lemma keeps_w_if [keeping]: "(b \<Longrightarrow> keeps_w m) \<Longrightarrow> (\<not> b \<Longrightarrow> keeps_w k) \<Longrightarrow> keeps_w (if b then m else k)"
  by simp

lemma keeps_w_pair [keeping]: "(\<And>a b. keeps_w (f a b)) \<Longrightarrow> keeps_w (case p of (a, b) \<Rightarrow> f a b)"
  by (cases p) simp

lemma keeps_call_spec [keeping]:
  assumes "keeps spec"
  shows "keeps_w (call_spec spec)"
proof (rule keeps_wI)
  fix w s x w' s' assume r: "call_spec spec w s = Ok (x, w', s')" and g: "list_all good_request (emitted s)"
  from r obtain hr token where "spec s = Ok ((hr, token), s')"
    by (auto simp: call_spec_def xbind_Ok_iff split: if_splits prod.splits)
  with assms g show "list_all good_request (emitted s')" by (blast dest: keepsD)
qed

lemma keeps_WriteBeginMethodWithArgumentsArray [keeping]:
  "keeps_w (WriteBeginMethodWithArgumentsArray env integ currentType)"
  unfolding WriteBeginMethodWithArgumentsArray_def
  by (rule keeping keeps_define_target_spec [OF one_number(3)] conjI | simp add: member_signatures)+

lemma keeps_WriteBeginMethod [keeping]:
  assumes "list_all type_sig methodArguments"
  shows "keeps_w (WriteBeginMethod env integ currentType methodArguments)"
proof (cases "length methodArguments \<ge> FASTPATH_COUNT")
  case True
  show ?thesis
  proof (rule keeps_wI)
    fix w s x w' s' assume "WriteBeginMethod env integ currentType methodArguments w s = Ok (x, w', s')"
      and g: "list_all good_request (emitted s)"
    then obtain hr s1 where "EnsureBaseCalltargetTokens env s = Ok (hr, s1)"
      and "if FAILED hr then s' = s1 else WriteBeginMethodWithArgumentsArray env integ currentType w s1 = Ok (x, w', s')"
      using True by (auto simp: WriteBeginMethod_def xbind_Ok_iff split: if_splits)
    then show "list_all good_request (emitted s')"
      using g keepsD [OF keeps_EnsureBaseCalltargetTokens] keeps_wD [OF keeps_WriteBeginMethodWithArgumentsArray]
      by (metis (full_types))
  qed
next
  case False
  then have n: "length methodArguments < 9" by (simp add: FASTPATH_COUNT_def)
  then have spec: "keeps (define_target_spec env method_ref (of_nat (2 + length methodArguments)) integ currentType methodArguments)"
    for method_ref
    using assms byte_of_nat(1) [of "2 + length methodArguments"] unat_of_nat32 [of "2 + length methodArguments"]
    by (intro keeps_define_target_spec [where n = "of_nat (2 + length methodArguments)"]) auto
  then show ?thesis
    unfolding WriteBeginMethod_def Let_def if_not_P [OF False] using False
    by (intro keeps_call_spec keeps_after_tokens keeps_in_turn spec) (auto simp: begin_fast_member intro!: keeping)
qed

lemma keeps_WriteEndVoidReturnMemberRef [keeping]: "keeps_w (WriteEndVoidReturnMemberRef env integ currentType)"
  unfolding WriteEndVoidReturnMemberRef_def
  by (rule keeping keeps_define_target_spec [OF one_number(3)] conjI | simp add: member_signatures)+

lemma keeps_WriteEndReturnMemberRef [keeping]:
  "type_sig returnSignature \<Longrightarrow> keeps_w (WriteEndReturnMemberRef env integ currentType returnSignature)"
  unfolding WriteEndReturnMemberRef_def
  by (rule keeps_buffered keeping keeps_define_target_spec [OF one_number(4)] | simp add: good_request_def member_signatures)+

lemma keeps_WriteLogException [keeping]: "keeps_w (WriteLogException env integ currentType)"
  unfolding WriteLogException_def
  by (rule keeping keeps_define_target_spec [OF one_number(3)] conjI | simp add: member_signatures)+

lemma keeps_WriteCallTargetReturnGetReturnValue [keeping]: "keeps_w (WriteCallTargetReturnGetReturnValue env spec)"
proof -
  have *: "keeps_w (call_spec (after_tokens (EnsureBaseCalltargetTokens env)
       (tk_bind (tk_lift (buffered
           [IMAGE_CEE_CS_CALLCONV_DEFAULT OR IMAGE_CEE_CS_CALLCONV_HASTHIS, 0x00, elt ELEMENT_TYPE_VAR, 0x00] 4)) (\<lambda>sig.
        define_local env mdMemberRefNil (DefineMemberRef spec (WStr ''GetReturnValue'') sig)))))"
    by (rule keeps_buffered keeping | simp add: good_request_def get_return_member [simplified])+
  show ?thesis
  proof (rule keeps_wI)
    fix w s x w' s' assume "WriteCallTargetReturnGetReturnValue env spec w s = Ok (x, w', s')" and "list_all good_request (emitted s)"
    then show "list_all good_request (emitted s')"
      unfolding WriteCallTargetReturnGetReturnValue_def xbind_Ok_iff using keeps_wD [OF *] by fastforce
  qed
qed

section \<open>The local variables\<close>

text \<open>The count of a signature of locals is cut off and written anew; the old locals stay.\<close>

lemma CompressData_written: "CorSigCompressData k = (l, c) \<Longrightarrow> l \<noteq> - 1 \<Longrightarrow> number_bytes c k \<and> l = of_nat (length c)"
proof (cases "k \<le> 0x1FFFFFFF")
  case True
  assume "CorSigCompressData k = (l, c)"
  then show ?thesis using CompressData_number [OF True] by simp
next
  case False
  have "\<not> k \<le> 0x7F" "\<not> k \<le> 0x3FFF" using False by (auto dest: order_trans [of k _ "0x1FFFFFFF"])
  moreover assume "CorSigCompressData k = (l, c)" "l \<noteq> - 1"
  ultimately show ?thesis using False by (simp add: CorSigCompressData_def)
qed

lemma number_length_unat: "number_bytes c k \<Longrightarrow> unat (of_nat (length c) :: u32) = length c"
  by (rule unat_small_length)

lemma new_local_sig_first:
  assumes "added \<le> 0x7F"
  shows "new_local_sig [] added types =
    Ok (IMAGE_CEE_CS_CALLCONV_LOCAL_SIG # [ucast added] @ concat types, 2 + sum_list (map length types), added)"
    and "unat added = length types \<Longrightarrow>
      locals_signature types (IMAGE_CEE_CS_CALLCONV_LOCAL_SIG # [ucast added] @ concat types)"
proof -
  show "new_local_sig [] added types =
    Ok (IMAGE_CEE_CS_CALLCONV_LOCAL_SIG # [ucast added] @ concat types, 2 + sum_list (map length types), added)"
    using assms by (simp add: new_local_sig_def CorSigCompressData_def)
  have "added \<le> 0x1FFFFFFF" by (rule order_trans [OF assms]) simp
  from CompressData_number(1) [OF this] have "number_bytes [ucast added] added"
    using assms by (simp add: CorSigCompressData_def)
  then show "unat added = length types \<Longrightarrow>
      locals_signature types (IMAGE_CEE_CS_CALLCONV_LOCAL_SIG # [ucast added] @ concat types)"
    unfolding locals_signature_def by fastforce
qed

lemma new_local_sig_Ok:
  assumes old: "originalSignature = 0x07 # c @ rest" and c: "number_bytes c n"
    and new: "new_local_sig originalSignature added types = Ok (written, newSize, count)"
  shows "\<exists>c'. written = 0x07 # c' @ rest @ concat types \<and> number_bytes c' (added + n)"
    and "newSize = length written" and "count = added + n"
proof -
  have u: "CorSigUncompressData (tl originalSignature) = Done (of_nat (length c), n)"
    using old UncompressData_number [OF c] by simp
  obtain l c' where l: "CorSigCompressData (added + n) = (l, c')" by fastforce
  with new old u have lm: "l \<noteq> - 1" and w: "written = 0x07 # c' @ rest @ concat types"
    and size: "newSize = length originalSignature + sum_list (map length types) + unat l - length c"
    and "count = added + n"
    using unat_small_length [OF c] by (auto simp: new_local_sig_def Let_def split: if_splits)
  from CompressData_written [OF l lm] have c': "number_bytes c' (added + n)" and "unat l = length c'"
    using unat_small_length by auto
  then show "newSize = length written" using size w old by (simp add: length_concat)
  show "\<exists>c'. written = 0x07 # c' @ rest @ concat types \<and> number_bytes c' (added + n)" using w c' by blast
  show "count = added + n" by fact
qed

text \<open>The number of bytes of a count bounds it, so the sum does not wrap around.\<close>

lemma number_bytes_small: "number_bytes c n \<Longrightarrow> n \<le> 0x1FFFFFFF"
  by (rule number_bytes_le)

lemma locals_extended:
  assumes "locals_signature ts originalSignature"
    and "new_local_sig originalSignature (of_nat (length types)) types = Ok (written, newSize, count)"
    and few: "length types \<le> 4"
  shows "locals_signature (ts @ types) written" and "newSize = length written"
    and "unat count = length ts + length types"
proof -
  obtain c n where old: "originalSignature = 0x07 # c @ concat ts" and c: "number_bytes c n" and l: "length ts = unat n"
    using assms(1) by (auto simp: locals_signature_def)
  have sum: "unat (of_nat (length types) + n) = length ts + length types"
    using few number_bytes_small [OF c] l by (simp add: unat_word_ariths unat_of_nat32 word_le_nat_alt)
  with new_local_sig_Ok [OF old c assms(2)] show "locals_signature (ts @ types) written" "newSize = length written"
    "unat count = length ts + length types"
    by (fastforce simp: locals_signature_def)+
qed

text \<open>What the method's locals were: none, or the ones its signature lists.\<close>

definition old_locals :: "TokenEnv \<Rightarrow> ILRewriter \<Rightarrow> bytes list \<Rightarrow> bool" where
  "old_locals env reWriter ts \<longleftrightarrow>
     (if GetTkLocalVarSig reWriter = mdTokenNil then ts = []
      else \<exists>sig. original_signature env reWriter = (S_OK, sig) \<and> locals_signature ts sig)"

text \<open>The types of the new locals, the return value first if there is one.\<close>

definition new_locals :: "bytes \<Rightarrow> bytes \<Rightarrow> CallTargetTokens \<Rightarrow> bytes list" where
  "new_locals returnSignature callTargetReturnSignature s =
     (if is_void returnSignature then [] else [returnSignature]) @
     [elt ELEMENT_TYPE_CLASS # token_bytes (exTypeRef s), callTargetReturnSignature,
      elt ELEMENT_TYPE_VALUETYPE # token_bytes (callTargetStateTypeRef s)]"

definition new_indices :: "bytes \<Rightarrow> u32 \<Rightarrow> LocalVars \<Rightarrow> bool" where
  "new_indices returnSignature n locals \<longleftrightarrow>
     callTargetStateIndex locals = n - 1 \<and> callTargetReturnIndex locals = n - 2 \<and> exceptionIndex locals = n - 3 \<and>
     returnValueIndex locals = (if is_void returnSignature then - 1 else n - 4)"

lemma locals_extended_old:
  assumes "original_signature env reWriter = (hr, orig)" and "old_locals env reWriter ts"
    and "new_local_sig orig (of_nat (length types)) types = Ok (written, newSize, count)"
    and few: "length types \<le> 4"
  shows "locals_signature (ts @ types) written" and "newSize = length written" and "unat count = length ts + length types"
proof -
  have "locals_signature (ts @ types) written \<and> newSize = length written \<and> unat count = length ts + length types"
  proof (cases "GetTkLocalVarSig reWriter = mdTokenNil")
    case True
    then have old: "orig = []" "ts = []" using assms(1,2) by (auto simp: original_signature_def old_locals_def)
    have n: "unat (of_nat (length types) :: u32) = length types" using few by (simp add: unat_of_nat32)
    then have "(of_nat (length types) :: u32) \<le> 0x7F" using few by (simp add: word_le_nat_alt)
    from new_local_sig_first [OF this] assms(3) old n show ?thesis by (auto simp: length_concat)
  next
    case False
    then have "locals_signature ts orig" using assms(1,2) by (auto simp: old_locals_def)
    from locals_extended [OF this assms(3) few] show ?thesis by simp
  qed
  then show "locals_signature (ts @ types) written" "newSize = length written" "unat count = length ts + length types"
    by simp_all
qed

lemma call_target_return_cases:
  assumes "call_target_return env returnSignature s = Ok ((hr, token, sig), s')" and "\<not> FAILED hr"
  obtains (void) "is_void returnSignature" "GetTargetVoidReturnTypeRef env s = Ok (token, s')" "hr = S_OK"
      "sig = elt ELEMENT_TYPE_VALUETYPE # token_bytes token"
    | (typed) hr2 where "\<not> is_void returnSignature" "GetTargetReturnValueTypeRef env returnSignature s = Ok (token, s')"
      "spec_from_token env (emitted s') token = (hr2, sig)" "\<not> FAILED hr2" "hr = S_OK"
proof -
  obtain flags k where f: "GetTypeFlags returnSignature = Done (flags, k)"
    using assms(1) by (cases "GetTypeFlags returnSignature") (auto simp: call_target_return_def tk_bind_def tk_lift_def as_exec_def)
  show ?thesis
  proof (cases "flags = TypeFlagVoid")
    case True
    with assms f have "GetTargetVoidReturnTypeRef env s = Ok (token, s')" "hr = S_OK"
      "sig = elt ELEMENT_TYPE_VALUETYPE # token_bytes token"
      by (auto simp: call_target_return_def tk_bind_def tk_lift_def as_exec_def tk_return_def xbind_Ok_iff)
    then show ?thesis using void f True by (simp add: is_void_def)
  next
    case False
    with assms(1) f obtain t2 s2 where t2: "GetTargetReturnValueTypeRef env returnSignature s = Ok (t2, s2)"
      and rest: "(let (h, g) = spec_from_token env (emitted s2) t2 in
        tk_return (if FAILED h then E_FAIL else S_OK, t2, g)) s2 = Ok ((hr, token, sig), s')"
      by (auto simp: call_target_return_def tk_bind_def tk_lift_def as_exec_def tk_get_def xbind_Ok_iff)
    obtain h g where "spec_from_token env (emitted s2) t2 = (h, g)" by fastforce
    with rest t2 assms(2) False f show ?thesis
      by (intro typed [of h]) (auto simp: tk_return_def is_void_def split: if_splits)
  qed
qed

text \<open>The run of the modification, taken apart.\<close>

lemma ModifyLocalSig_run:
  assumes run: "ModifyLocalSig env returnSignature reWriter s = Ok ((hr, locals), reWriter', s')" and "\<not> FAILED hr"
  obtains s1 s2 hr0 orig retToken retSig written newSize count newLocalVarSig hr2
  where "EnsureBaseCalltargetTokens env s = Ok (hr0, s1)"
    and "original_signature env reWriter = (hr2, orig)"
    and "call_target_return env returnSignature s1 = Ok ((S_OK, retToken, retSig), s2)"
    and "new_local_sig orig (of_nat (length (new_locals returnSignature retSig s2))) (new_locals returnSignature retSig s2)
      = Ok (written, newSize, count)"
    and "buffered written newSize = Ok (take newSize written)"
    and "s' = s2 \<lparr>emitted := emitted s2 @ [GetTokenFromSig (take newSize written)]\<rparr>"
    and "answer env (emitted s2) (GetTokenFromSig (take newSize written)) = (hr, Some newLocalVarSig)"
    and "reWriter' = SetTkLocalVarSig newLocalVarSig reWriter"
    and "new_indices returnSignature count locals"
    and "callTargetReturnToken locals = retToken"
    and "GetTkLocalVarSig reWriter \<noteq> mdTokenNil \<Longrightarrow>
      already_modified orig (token_bytes (callTargetStateTypeRef s1)) = Ok False"
proof -
  let ?old = "original_signature env reWriter"
  from run obtain hr0 s1 where base: "EnsureBaseCalltargetTokens env s = Ok (hr0, s1)"
    by (auto simp: ModifyLocalSig_def xbind_Ok_iff)
  have hr0: "\<not> FAILED hr0" using run assms(2) base by (auto simp: ModifyLocalSig_def split: if_splits)
  obtain hr2 orig where old: "?old = (hr2, orig)" by fastforce
  have hr2: "\<not> FAILED hr2" using run assms(2) base hr0 old by (auto simp: ModifyLocalSig_def Let_def split: if_splits)
  note run = run [unfolded ModifyLocalSig_def base xbind.simps prod.case if_not_P [OF hr0] old Let_def if_not_P [OF hr2]]
  from run obtain modified where m: "(if GetTkLocalVarSig reWriter \<noteq> mdTokenNil
       then already_modified orig (token_bytes (callTargetStateTypeRef s1)) else Ok False) = Ok modified"
    unfolding xbind_Ok_iff by blast
  have "\<not> modified" using run assms(2) unfolding m by (auto split: if_splits)
  note run = run [unfolded m xbind.simps if_not_P [OF this]]
  from run obtain hr3 retToken retSig s2 where ret: "call_target_return env returnSignature s1 = Ok ((hr3, retToken, retSig), s2)"
    unfolding xbind_Ok_iff by auto
  have hr3: "\<not> FAILED hr3" using run assms(2) unfolding ret by (auto split: if_splits)
  note run = run [unfolded ret xbind.simps prod.case if_not_P [OF hr3] new_locals_def [symmetric]]
  from run obtain written newSize count where
    new: "new_local_sig orig (of_nat (length (new_locals returnSignature retSig s2))) (new_locals returnSignature retSig s2)
      = Ok (written, newSize, count)"
    unfolding xbind_Ok_iff by auto
  note run = run [unfolded new xbind.simps prod.case]
  from run obtain sig where b: "buffered written newSize = Ok sig" unfolding xbind_Ok_iff by auto
  then have sig: "sig = take newSize written" by (simp add: buffered_Ok)
  note run = run [unfolded b [unfolded sig] xbind.simps]
  obtain hr4 token where a: "answer env (emitted s2) (GetTokenFromSig (take newSize written)) = (hr4, token)" by fastforce
  from run assms(2) obtain newLocalVarSig where "token = Some newLocalVarSig" "hr4 = hr"
    and "s' = s2 \<lparr>emitted := emitted s2 @ [GetTokenFromSig (take newSize written)]\<rparr>"
    and "reWriter' = SetTkLocalVarSig newLocalVarSig reWriter"
    and "new_indices returnSignature count locals" and "callTargetReturnToken locals = retToken"
    by (auto simp: a new_indices_def split: if_splits option.splits)
  moreover have "hr3 = S_OK" using call_target_return_cases [OF ret hr3] by blast
  moreover have "GetTkLocalVarSig reWriter \<noteq> mdTokenNil \<Longrightarrow>
      already_modified orig (token_bytes (callTargetStateTypeRef s1)) = Ok False"
    using m \<open>\<not> modified\<close> by (auto split: if_splits)
  ultimately show ?thesis
    by (intro that [OF base old _ new b [unfolded sig]]) (use ret a in auto)
qed

lemma new_locals_length: "length (new_locals r c s) = (if is_void r then 3 else 4)"
  by (simp add: new_locals_def)

lemma unat_minus_small: "(k :: u32) \<le> n \<Longrightarrow> unat (n - k) = unat n - unat k"
  by (rule unat_sub) 

lemma new_indices_nth:
  assumes i: "new_indices r n locals" and n: "unat n = length ts + length (new_locals r c s)"
  shows "(ts @ new_locals r c s) ! unat (callTargetStateIndex locals) = elt ELEMENT_TYPE_VALUETYPE # token_bytes (callTargetStateTypeRef s)"
    and "(ts @ new_locals r c s) ! unat (callTargetReturnIndex locals) = c"
    and "(ts @ new_locals r c s) ! unat (exceptionIndex locals) = elt ELEMENT_TYPE_CLASS # token_bytes (exTypeRef s)"
    and "\<not> is_void r \<Longrightarrow> (ts @ new_locals r c s) ! unat (returnValueIndex locals) = r"
proof -
  have "1 \<le> n" "2 \<le> n" "3 \<le> n" "\<not> is_void r \<Longrightarrow> 4 \<le> n"
    using n by (auto simp: word_le_nat_alt new_locals_length)
  then have u: "unat (n - 1) = unat n - 1" "unat (n - 2) = unat n - 2" "unat (n - 3) = unat n - 3"
    "\<not> is_void r \<Longrightarrow> unat (n - 4) = unat n - 4"
    by (simp_all add: unat_minus_small)
  show "(ts @ new_locals r c s) ! unat (callTargetStateIndex locals) = elt ELEMENT_TYPE_VALUETYPE # token_bytes (callTargetStateTypeRef s)"
    "(ts @ new_locals r c s) ! unat (callTargetReturnIndex locals) = c"
    "(ts @ new_locals r c s) ! unat (exceptionIndex locals) = elt ELEMENT_TYPE_CLASS # token_bytes (exTypeRef s)"
    "\<not> is_void r \<Longrightarrow> (ts @ new_locals r c s) ! unat (returnValueIndex locals) = r"
    using i n u by (auto simp: new_indices_def new_locals_def nth_append)
qed


text \<open>The signature of a type specification is the one the token was made from, a type.\<close>

definition reads_types :: "TokenEnv \<Rightarrow> bool" where
  "reads_types env \<longleftrightarrow> (\<forall>calls token hr sig. spec_from_token env calls token = (hr, sig) \<longrightarrow> \<not> FAILED hr \<longrightarrow> type_sig sig)"

lemma keeps_call_target_return:
  assumes "type_sig returnSignature"
  shows "keeps (call_target_return env returnSignature)"
  unfolding call_target_return_def
proof (rule keeps_tk_bind [OF keeps_lift], rule keeps_pair, rule keeps_tk_if)
  show "keeps (tk_bind (GetTargetReturnValueTypeRef env returnSignature) (\<lambda>token.
       tk_bind (tk_get emitted) (\<lambda>done_calls.
         let (hr, sig) = spec_from_token env done_calls token in
         tk_return (if FAILED hr then E_FAIL else S_OK, token, sig))))"
    using assms by (intro keeps_tk_bind keeping) (auto simp: Let_def intro!: keeping)
qed (rule keeping)+

lemma call_target_return_type:
  assumes "call_target_return env returnSignature s = Ok ((hr, token, sig), s')" and "\<not> FAILED hr" and "reads_types env"
  shows "type_sig sig"
  using assms(1,2) by (rule call_target_return_cases) (use assms(3) in \<open>auto simp: reads_types_def valuetype_sig\<close>)

lemma ModifyLocalSig_requests:
  assumes run: "ModifyLocalSig env returnSignature reWriter s = Ok ((hr, locals), reWriter', s')"
    and good: "list_all good_request (emitted s)" and ret: "type_sig returnSignature" and reads: "reads_types env"
    and old: "old_locals env reWriter ts" and ts: "list_all local_type ts"
  shows "list_all good_request (emitted s')"
proof -
  from run obtain hr0 s1 where base: "EnsureBaseCalltargetTokens env s = Ok (hr0, s1)"
    by (auto simp: ModifyLocalSig_def xbind_Ok_iff)
  have g1: "list_all good_request (emitted s1)" using keepsD [OF keeps_EnsureBaseCalltargetTokens base good] .
  obtain hr2 orig where o: "original_signature env reWriter = (hr2, orig)" by fastforce
  note run1 = run [unfolded ModifyLocalSig_def base xbind.simps prod.case o Let_def]
  show ?thesis
  proof (cases "FAILED hr0 \<or> FAILED hr2")
    case True
    then show ?thesis using run1 g1 by (auto split: if_splits)
  next
    case f1: False
    with run1 obtain modified where m: "(if GetTkLocalVarSig reWriter \<noteq> mdTokenNil
       then already_modified orig (token_bytes (callTargetStateTypeRef s1)) else Ok False) = Ok modified"
      by (auto simp: xbind_Ok_iff)
    show ?thesis
    proof (cases modified)
      case True
      then show ?thesis using run1 f1 g1 unfolding m by (auto split: if_splits)
    next
      case False
      with run1 [unfolded m] f1 obtain hr3 retToken retSig s2
        where c: "call_target_return env returnSignature s1 = Ok ((hr3, retToken, retSig), s2)"
        by (auto simp: xbind_Ok_iff)
      have g2: "list_all good_request (emitted s2)" using keepsD [OF keeps_call_target_return [OF ret] c g1] .
      show ?thesis
      proof (cases "FAILED hr3")
        case True
        then show ?thesis using run1 [unfolded m] f1 False g2 by (auto simp: c)
      next
        case f3: False
        let ?new = "new_locals returnSignature retSig s2"
        from run1 [unfolded m] f1 False f3 obtain written newSize count
          where new: "new_local_sig orig (of_nat (length ?new)) ?new = Ok (written, newSize, count)"
          by (auto simp: c xbind_Ok_iff new_locals_def split: if_splits)
        note run2 = run1 [unfolded m xbind.simps c prod.case new_locals_def [symmetric] new]
        obtain b where b: "buffered written newSize = Ok b" using run2 f1 False f3 by (auto simp: xbind_Ok_iff)
        have s': "emitted s' = emitted s2 @ [GetTokenFromSig b]"
          using run2 f1 False f3 by (auto simp: b split: prod.splits if_splits option.splits)
        have len: "length ?new \<le> 4" by (simp add: new_locals_length)
        note ext = locals_extended_old [OF o old new len]
        have "list_all local_type ?new"
          using call_target_return_type [OF c f3 reads] ret
          by (auto simp: new_locals_def class_sig valuetype_sig intro: local_type.intros)
        then have "good_request (GetTokenFromSig b)"
          using b ext(1,2) ts by (auto simp: good_request_def buffered_Ok intro!: exI [of _ "ts @ ?new"])
        then show ?thesis using s' g2 by simp
      qed
    qed
  qed
qed

lemma locals_signature_last:
  assumes "locals_signature (ts @ new_locals r c s) sig"
  shows "length sig > length (token_bytes (callTargetStateTypeRef s))"
    and "sig ! (length sig - length (token_bytes (callTargetStateTypeRef s)) - 1) = elt ELEMENT_TYPE_VALUETYPE"
    and "drop (length sig - length (token_bytes (callTargetStateTypeRef s))) sig = token_bytes (callTargetStateTypeRef s)"
proof -
  obtain front where "sig = front @ elt ELEMENT_TYPE_VALUETYPE # token_bytes (callTargetStateTypeRef s)"
    using assms by (auto simp: locals_signature_def new_locals_def)
  then show "length sig > length (token_bytes (callTargetStateTypeRef s))"
    "sig ! (length sig - length (token_bytes (callTargetStateTypeRef s)) - 1) = elt ELEMENT_TYPE_VALUETYPE"
    "drop (length sig - length (token_bytes (callTargetStateTypeRef s))) sig = token_bytes (callTargetStateTypeRef s)"
    by (simp_all add: nth_append)
qed


text \<open>
  C31: The buffer for the new signature has a fixed size that nothing checks: for a method
  whose own signature of locals is as long, the new one is written past its end.
\<close>

theorem long_locals_overrun:
  assumes "EnsureBaseCalltargetTokens env s = Ok (hr, s1)" and "\<not> FAILED hr"
    and "GetTkLocalVarSig reWriter \<noteq> mdTokenNil" and "sig_from_token env (GetTkLocalVarSig reWriter) = (S_OK, orig)"
    and "already_modified orig (token_bytes (callTargetStateTypeRef s1)) = Ok False"
    and "call_target_return env returnSignature s1 = Ok ((S_OK, token, sig), s2)"
    and "locals_signature ts orig" and "length orig \<ge> signatureBufferSize"
  shows "ModifyLocalSig env returnSignature reWriter s = Overrun"
proof -
  have old: "original_signature env reWriter = (S_OK, orig)" using assms(3,4) by (simp add: original_signature_def)
  let ?new = "new_locals returnSignature sig s2"
  have eq: "ModifyLocalSig env returnSignature reWriter s =
    xbind (new_local_sig orig (of_nat (length ?new)) ?new) (\<lambda>(written, newSignatureSize, newLocalsCount).
      xbind (buffered written newSignatureSize) (\<lambda>b.
      let (hr, token') = answer env (emitted s2) (GetTokenFromSig b);
         s = s2 \<lparr>emitted := emitted s2 @ [GetTokenFromSig b]\<rparr> in
      if FAILED hr then Ok ((hr, no_LocalVars), reWriter, s) else
      (case token' of None \<Rightarrow> Overrun | Some newLocalVarSig \<Rightarrow>
       Ok ((hr, \<lparr>callTargetStateIndex = newLocalsCount - 1, exceptionIndex = newLocalsCount - 3,
             callTargetReturnIndex = newLocalsCount - 2,
             returnValueIndex = (if is_void returnSignature then - 1 else newLocalsCount - 4),
             callTargetStateToken = callTargetStateTypeRef s, exceptionToken = exTypeRef s,
             callTargetReturnToken = token\<rparr>),
         SetTkLocalVarSig newLocalVarSig reWriter, s))))"
    using assms(1-6) by (simp add: ModifyLocalSig_def old Let_def new_locals_def)
  show ?thesis
  proof (cases "new_local_sig orig (of_nat (length ?new)) ?new")
    case (Ok r)
    obtain written newSize count where r: "r = (written, newSize, count)" by (cases r)
    note new = Ok [unfolded r]
    have len: "length ?new \<le> 4" by (simp add: new_locals_length)
    obtain c n where c: "orig = 0x07 # c @ concat ts" "number_bytes c n" "length ts = unat n"
      using assms(7) by (auto simp: locals_signature_def)
    from new_local_sig_Ok [OF c(1,2) new] obtain c' where w: "written = 0x07 # c' @ concat ts @ concat ?new"
      "number_bytes c' (of_nat (length ?new) + n)" by blast
    have "length c \<le> 4" "c' \<noteq> []" using number_bytes_length [OF c(2)] number_bytes_length [OF w(2)] by auto
    moreover have "length (token_bytes t) \<ge> 1" for t
      using token_bytes_number [of t] by (cases "token_bytes t") (auto simp: a_number_def)
    from this [of "exTypeRef s2"] this [of "callTargetStateTypeRef s2"] have "length (concat ?new) \<ge> 4"
      by (simp add: new_locals_def)
    ultimately have "length written > signatureBufferSize"
      using assms(8) w(1) c(1) by (cases c') auto
    then have "buffered written newSize = Overrun" by (simp add: buffered_def)
    then show ?thesis using eq new by simp
  next
    case (Fail hr')
    then show ?thesis by (auto simp: new_local_sig_def Let_def split: if_splits prod.splits outcome.splits)
  next
    case Overrun
    then show ?thesis using eq by simp
  qed
qed

section \<open>The type of the instance\<close>

text \<open>The outermost of the enclosing types, and whether all of them are without type parameters.\<close>

function outermost :: "TypeInfo \<Rightarrow> TypeInfo" where
  "outermost t = (case parent_type t of None \<Rightarrow> t | Some p \<Rightarrow> outermost p)"
  by pat_completeness auto

termination outermost
  by (relation "measure size") (auto simp: size_parent)

function no_generic :: "TypeInfo \<Rightarrow> bool" where
  "no_generic t \<longleftrightarrow> \<not> isGeneric t \<and> (case parent_type t of None \<Rightarrow> True | Some p \<Rightarrow> no_generic p)"
  by pat_completeness auto

termination no_generic
  by (relation "measure size") (auto simp: size_parent)

declare outermost.simps [simp del] no_generic.simps [simp del]

text \<open>
  The type a method is called on: its own type specification if it has one; \<^verbatim>\<open>object\<close> if it or a
  type around it is generic; and otherwise the outermost type around it, so for a nested type not
  the type of the instance.
\<close>

theorem current_type_outermost:
  "GetCurrentTypeRef object_ref t isValueType =
    (if info_spec t \<noteq> mdTypeSpecNil then (info_spec t, isValueType)
     else if no_generic t then (type_id (outermost t), isValueType)
     else (object_ref, False))"
proof -
  have "enclosing_type object_ref isValueType t =
    (if no_generic t then (type_id (outermost t), isValueType) else (object_ref, False))"
  proof (induction object_ref isValueType t rule: enclosing_type.induct)
    case (1 object_ref isValueType t)
    then show ?case
      by (subst enclosing_type.simps, subst no_generic.simps, subst outermost.simps) (auto split: option.splits)
  qed
  then show ?thesis by (simp add: GetCurrentTypeRef_def)
qed

lemma keeps_initialize_locals: "type_sig returnSignature \<Longrightarrow> keeps_w (initialize_locals env returnSignature locals)"
  unfolding initialize_locals_def by (auto intro!: keeping)

lemma keeps_ModifyLocalSigAndInitialize:
  assumes run: "ModifyLocalSigAndInitialize env returnSignature w s = Ok (x, w', s')"
    and good: "list_all good_request (emitted s)" and ret: "type_sig returnSignature" and reads: "reads_types env"
    and old: "old_locals env (GetILRewriter w) ts" "list_all local_type ts"
  shows "list_all good_request (emitted s')"
proof -
  from run obtain hr locals w1 s1 where m: "w_ModifyLocalSig env returnSignature w s = Ok ((hr, locals), w1, s1)"
    and rest: "(if FAILED hr then w_return (hr, locals, None)
     else w_bind (initialize_locals env returnSignature locals) (\<lambda>firstInstruction.
       w_return (S_OK, locals, Some firstInstruction))) w1 s1 = Ok (x, w', s')"
    unfolding ModifyLocalSigAndInitialize_def w_bind_Ok by auto
  have "list_all good_request (emitted s1)"
    using m ModifyLocalSig_requests [OF _ good ret reads old] by (auto simp: w_ModifyLocalSig_def xbind_Ok_iff)
  moreover have "s' = s1 \<or> (\<exists>f. initialize_locals env returnSignature locals w1 s1 = Ok (f, w', s'))"
    using rest by (auto simp: w_return_def w_bind_Ok split: if_splits)
  ultimately show ?thesis using keeps_wD [OF keeps_initialize_locals [OF ret]] by blast
qed

section \<open>Concrete modifications\<close>

definition sample_locals :: ILRewriter where
  "sample_locals = SetTkLocalVarSig 0x11000002 (new_ILRewriter blank_memory)"

lemma sample_base:
  "\<exists>s1. EnsureBaseCalltargetTokens (sample_token_env sig) new_CallTargetTokens = Ok (S_OK, s1) \<and>
    callTargetStateTypeRef s1 = 0x0100000a \<and>
    (\<exists>token t s2. call_target_return (sample_token_env sig) [0x01] s1 = Ok ((S_OK, token, t), s2))"
proof -
  have "case EnsureBaseCalltargetTokens (sample_token_env sig) new_CallTargetTokens of
    Ok (hr, s1) \<Rightarrow> hr = S_OK \<and> callTargetStateTypeRef s1 = 0x0100000a \<and>
      (case call_target_return (sample_token_env sig) [0x01] s1 of Ok ((hr', token, t), s2) \<Rightarrow> hr' = S_OK | _ \<Rightarrow> False)
    | _ \<Rightarrow> False" by code_simp
  then obtain hr s1 where b: "EnsureBaseCalltargetTokens (sample_token_env sig) new_CallTargetTokens = Ok (hr, s1)"
    and ok: "hr = S_OK" "callTargetStateTypeRef s1 = 0x0100000a"
    and c: "case call_target_return (sample_token_env sig) [0x01] s1 of Ok ((hr', token, t), s2) \<Rightarrow> hr' = S_OK | _ \<Rightarrow> False"
    by (cases "EnsureBaseCalltargetTokens (sample_token_env sig) new_CallTargetTokens") auto
  from c have "\<exists>token t s2. call_target_return (sample_token_env sig) [0x01] s1 = Ok ((S_OK, token, t), s2)"
    by (cases "call_target_return (sample_token_env sig) [0x01] s1") auto
  then show ?thesis using b ok by simp
qed



lemma long_locals_overrun_witness:
  "\<exists>env. ModifyLocalSig env [0x01] sample_locals new_CallTargetTokens = Overrun"
proof -
  define orig :: bytes where "orig = [7, 0x82, 0x58] @ concat (replicate 600 [0x08])"
  have l: "length orig = 603" by (simp add: orig_def length_concat)
  have "concat (replicate n [x]) = replicate n x" for n and x :: u8 by (induction n) auto
  then have nth: "orig ! 601 = 0x08" by (simp add: orig_def nth_append)
  obtain s1 token t s2 where b: "EnsureBaseCalltargetTokens (sample_token_env orig) new_CallTargetTokens = Ok (S_OK, s1)"
    and st: "callTargetStateTypeRef s1 = 0x0100000a"
    and c: "call_target_return (sample_token_env orig) [0x01] s1 = Ok ((S_OK, token, t), s2)" using sample_base [of orig] by blast
  have tb: "token_bytes 0x0100000a = [0x29]" by code_simp
  have m: "already_modified orig (token_bytes (callTargetStateTypeRef s1)) = Ok False"
    using nth by (simp add: st tb already_modified_def l elt_def)
  have "number_bytes [0x82, 0x58] 600" using number_bytes.two [of "0x82" "0x58"] by simp
  then have ls: "locals_signature (replicate 600 [0x08]) orig"
    unfolding locals_signature_def by (intro exI [of _ "[0x82, 0x58]"] exI [of _ 600]) (simp add: orig_def)
  show ?thesis using long_locals_overrun [OF b _ _ _ m c ls, of sample_locals]
    by (auto simp: sample_locals_def SetTkLocalVarSig_def GetTkLocalVarSig_def sample_token_env_def l signatureBufferSize_def)
qed

end
