(* ===== verification/MetadataBuilder.thy ===== *)
theory MetadataBuilder
  imports CallTargetTokens
begin

text \<open>
  The references to the wrapper methods and types of the integrations
  (\<^verbatim>\<open>metadata_builder.cpp\<close>, and \<^verbatim>\<open>GetWrapperMethodRef\<close> of \<^verbatim>\<open>cor_profiler.cpp\<close>): they are looked up
  in the module's caches, searched in its metadata, defined if they are not there, and cached.
  The requests go to the same metadata as those of the call target, so they are kept in the same
  list, the state of this theory beside the module's caches.
\<close>

section \<open>Metadata\<close>

text \<open>
  The lookups, which see what was requested before. A call stores a token or leaves the variable
  as it was; the status \<open>0x80131130\<close> says that there is no such record.
\<close>

record Lookups =
  GetModuleFromScope :: "hresult \<times> mdToken"
  assembly_import_now :: "emit_call list \<Rightarrow> AssemblyImport"
  FindTypeRef :: "emit_call list \<Rightarrow> mdToken \<Rightarrow> wstring \<Rightarrow> hresult \<times> mdToken option"
  FindMemberRef :: "emit_call list \<Rightarrow> mdToken \<Rightarrow> wstring \<Rightarrow> bytes \<Rightarrow> hresult \<times> mdToken option"

abbreviation (input) CLDB_E_RECORD_NOTFOUND :: hresult where "CLDB_E_RECORD_NOTFOUND \<equiv> 0x80131130"

type_synonym builder_state = "ModuleMetadata \<times> emit_call list"

definition stored :: "mdToken option \<Rightarrow> mdToken \<Rightarrow> mdToken" where
  "stored out held = (case out of None \<Rightarrow> held | Some t \<Rightarrow> t)"

definition request :: "TokenEnv \<Rightarrow> emit_call \<Rightarrow> mdToken \<Rightarrow> emit_call list \<Rightarrow> (hresult \<times> mdToken) \<times> emit_call list" where
  "request env call held reqs =
     (let (hr, out) = answer env reqs call in ((hr, stored out held), reqs @ [call]))"

section \<open>The builder\<close>

text \<open>The status of the request is logged and then dropped.\<close>

definition EmitAssemblyRef :: "TokenEnv \<Rightarrow> AssemblyReference \<Rightarrow> emit_call list \<Rightarrow> hresult \<times> emit_call list" where
  "EmitAssemblyRef env assembly_ref reqs =
     (let ((hr, assembly_ref_out), reqs) = request env (assembly_request assembly_ref) 0 reqs in (S_OK, reqs))"

definition FindWrapperTypeRef ::
  "TokenEnv \<Rightarrow> Lookups \<Rightarrow> mdToken \<Rightarrow> MethodReplacement \<Rightarrow> builder_state \<Rightarrow> (hresult \<times> mdToken) \<times> builder_state" where
  "FindWrapperTypeRef env l module_token method_replacement st =
     (let (metadata, reqs) = st; wrapper = wrapper_method method_replacement; cache_key = get_type_cache_key wrapper in
      case TryGetWrapperParentTypeRef metadata cache_key of
        Some type_ref \<Rightarrow> ((S_OK, type_ref), metadata, reqs)
      | None \<Rightarrow>
          let finish = (\<lambda>(hr, type_ref) reqs. if FAILED hr then ((hr, mdTypeRefNil), metadata, reqs)
                else ((S_OK, type_ref), SetWrapperParentTypeRef metadata cache_key type_ref, reqs)) in
          if mm_assemblyName metadata = name (assembly wrapper)
          then let (r, reqs) = request env (DefineTypeRefByName module_token (type_name_of wrapper)) mdTypeRefNil reqs
               in finish r reqs
          else let assembly_ref = FindAssemblyRef (assembly_import_now l reqs) (name (assembly wrapper)) in
            if assembly_ref = mdAssemblyRefNil then ((E_FAIL, mdTypeRefNil), metadata, reqs)
            else let (hr, out) = FindTypeRef l reqs assembly_ref (type_name_of wrapper) in
              if hr = CLDB_E_RECORD_NOTFOUND
              then let (r, reqs) = request env (DefineTypeRefByName assembly_ref (type_name_of wrapper))
                         (stored out mdTypeRefNil) reqs
                   in finish r reqs
              else finish (hr, stored out mdTypeRefNil) reqs)"

definition StoreWrapperMethodRef ::
  "TokenEnv \<Rightarrow> Lookups \<Rightarrow> mdToken \<Rightarrow> MethodReplacement \<Rightarrow> builder_state \<Rightarrow> hresult \<times> builder_state" where
  "StoreWrapperMethodRef env l module_token method_replacement st =
     (let wrapper = wrapper_method method_replacement; cache_key = get_method_cache_key wrapper in
      case TryGetWrapperMemberRef (fst st) cache_key of
        Some member_ref \<Rightarrow> (S_OK, st)
      | None \<Rightarrow>
          let ((hr, type_ref), metadata, reqs) = FindWrapperTypeRef env l module_token method_replacement st in
          if FAILED hr then (hr, SetFailedWrapperMemberKey metadata cache_key, reqs)
          else let signature_data = data (method_signature wrapper) in
            if length signature_data > 0 then
              let (hr, out) = FindMemberRef l reqs type_ref (method_name wrapper) signature_data;
                  ((hr, member_ref), reqs) =
                    (if hr = CLDB_E_RECORD_NOTFOUND
                     then request env (DefineMemberRef type_ref (method_name wrapper) signature_data)
                       (stored out mdMemberRefNil) reqs
                     else ((hr, stored out mdMemberRefNil), reqs)) in
              if FAILED hr then (hr, SetFailedWrapperMemberKey metadata cache_key, reqs)
              else (S_OK, SetWrapperMemberRef metadata cache_key member_ref, reqs)
            else (S_OK, SetWrapperMemberRef metadata cache_key mdMemberRefNil, reqs))"

section \<open>The profiler's use of it\<close>

text \<open>
  The two tokens are out-parameters; the caller initialises them with nil. The module is looked
  up through the profiling interface.
\<close>

definition GetWrapperMethodRef ::
  "'p CorProfilerInfo_scheme \<Rightarrow> TokenEnv \<Rightarrow> Lookups \<Rightarrow> u64 \<Rightarrow> MethodReplacement \<Rightarrow> builder_state \<Rightarrow>
   (bool \<times> mdToken \<times> mdToken) \<times> builder_state" where
  "GetWrapperMethodRef info env l mod_id method_replacement st =
     (let wrapper = wrapper_method method_replacement;
          wrapper_method_key = get_method_cache_key wrapper; wrapper_type_key = get_type_cache_key wrapper;
          found = (\<lambda>member_ref st.
            ((True, member_ref, stored (TryGetWrapperParentTypeRef (fst st) wrapper_type_key) mdTypeRefNil), st)) in
      case TryGetWrapperMemberRef (fst st) wrapper_method_key of
        Some member_ref \<Rightarrow> found member_ref st
      | None \<Rightarrow>
          if \<not> ModuleInfo_IsValid (GetModuleInfo info mod_id) then ((False, mdMemberRefNil, mdTypeRefNil), st)
          else let (hr, module_token) = GetModuleFromScope l in
            if FAILED hr then ((False, mdMemberRefNil, mdTypeRefNil), st)
            else let (hr, reqs) = EmitAssemblyRef env (assembly wrapper) (snd st) in
              if FAILED hr then ((False, mdMemberRefNil, mdTypeRefNil), fst st, reqs)
              else let (hr, st) = StoreWrapperMethodRef env l module_token method_replacement (fst st, reqs) in
                if FAILED hr then ((False, mdMemberRefNil, mdTypeRefNil), st)
                else found (stored (TryGetWrapperMemberRef (fst st) wrapper_method_key) mdMemberRefNil) st)"

text \<open>The application domains the managed profiler was loaded into.\<close>

record LoadedProfilers =
  managed_profiler_loaded_domain_neutral :: bool
  managed_profiler_loaded_app_domains :: "u64 set"

definition ProfilerAssemblyIsLoadedIntoAppDomain :: "LoadedProfilers \<Rightarrow> u64 \<Rightarrow> bool" where
  "ProfilerAssemblyIsLoadedIntoAppDomain self app_domain \<longleftrightarrow>
     managed_profiler_loaded_domain_neutral self \<or> app_domain \<in> managed_profiler_loaded_app_domains self"

section \<open>What the caches hold\<close>

text \<open>The module's caches remember what is put into them.\<close>

lemma cached_simps [simp]:
  "TryGetWrapperMemberRef (SetWrapperMemberRef mm k v) k' = (if k' = k then Some v else TryGetWrapperMemberRef mm k')"
  "TryGetWrapperMemberRef (SetWrapperParentTypeRef mm k v) k' = TryGetWrapperMemberRef mm k'"
  "TryGetWrapperMemberRef (SetFailedWrapperMemberKey mm k) k' = TryGetWrapperMemberRef mm k'"
  "TryGetWrapperParentTypeRef (SetWrapperParentTypeRef mm k v) k' =
     (if k' = k then Some v else TryGetWrapperParentTypeRef mm k')"
  "TryGetWrapperParentTypeRef (SetWrapperMemberRef mm k v) k' = TryGetWrapperParentTypeRef mm k'"
  "TryGetWrapperParentTypeRef (SetFailedWrapperMemberKey mm k) k' = TryGetWrapperParentTypeRef mm k'"
  "IsFailedWrapperMemberKey (SetFailedWrapperMemberKey mm k) k"
  by (auto simp: TryGetWrapperMemberRef_def SetWrapperMemberRef_def SetWrapperParentTypeRef_def Let_def
      SetFailedWrapperMemberKey_def TryGetWrapperParentTypeRef_def IsFailedWrapperMemberKey_def split: option.splits)

text \<open>
  What a run of the builder may change: references are added to the caches, never replaced, and
  requests are appended.
\<close>

definition only_adds :: "builder_state \<Rightarrow> builder_state \<Rightarrow> bool" where
  "only_adds st st' \<longleftrightarrow>
     (\<forall>k v. TryGetWrapperMemberRef (fst st) k = Some v \<longrightarrow> TryGetWrapperMemberRef (fst st') k = Some v) \<and>
     (\<forall>k v. TryGetWrapperParentTypeRef (fst st) k = Some v \<longrightarrow> TryGetWrapperParentTypeRef (fst st') k = Some v) \<and>
     mm_integrations (fst st') = mm_integrations (fst st) \<and> (\<exists>new. snd st' = snd st @ new)"

lemma only_adds_refl: "only_adds st st"
  by (simp add: only_adds_def)

lemma only_adds_trans: "only_adds a b \<Longrightarrow> only_adds b c \<Longrightarrow> only_adds a c"
  unfolding only_adds_def by (metis append_assoc)

lemma request_cases:
  obtains hr t where "request env call held reqs = ((hr, t), reqs @ [call])"
  by (cases "answer env reqs call") (simp add: request_def)

lemma caches_same [simp]:
  "mm_integrations (SetWrapperParentTypeRef mm k v) = mm_integrations mm"
  "mm_integrations (SetWrapperMemberRef mm k v) = mm_integrations mm"
  "mm_integrations (SetFailedWrapperMemberKey mm k) = mm_integrations mm"
  by (simp_all add: SetWrapperParentTypeRef_def SetWrapperMemberRef_def SetFailedWrapperMemberKey_def Let_def)

lemma FindWrapperTypeRef_result:
  assumes "FindWrapperTypeRef env l m r st = ((hr, t), st')"
  shows "only_adds st st'" and "\<not> FAILED hr \<Longrightarrow> TryGetWrapperParentTypeRef (fst st') (get_type_cache_key (wrapper_method r)) = Some t"
  using assms
  by (auto simp: FindWrapperTypeRef_def Let_def request_def only_adds_def split: prod.splits option.splits if_splits)

lemma StoreWrapperMethodRef_result:
  assumes s: "StoreWrapperMethodRef env l m r st = (hr, st')"
  shows "only_adds st st'"
    and "\<not> FAILED hr \<Longrightarrow> TryGetWrapperMemberRef (fst st') (get_method_cache_key (wrapper_method r)) \<noteq> None"
    and "FAILED hr \<Longrightarrow> IsFailedWrapperMemberKey (fst st') (get_method_cache_key (wrapper_method r))"
proof -
  let ?k = "get_method_cache_key (wrapper_method r)"
  obtain hr2 t mm reqs where f: "FindWrapperTypeRef env l m r st = ((hr2, t), mm, reqs)" by (metis prod.exhaust)
  note F = FindWrapperTypeRef_result(1) [OF f]
  have "only_adds st st' \<and> (\<not> FAILED hr \<longrightarrow> TryGetWrapperMemberRef (fst st') ?k \<noteq> None) \<and>
      (FAILED hr \<longrightarrow> IsFailedWrapperMemberKey (fst st') ?k)"
  proof (cases "TryGetWrapperMemberRef (fst st) ?k")
    case (Some v)
    with s show ?thesis by (simp add: StoreWrapperMethodRef_def Let_def only_adds_refl)
  next
    case None
    have n: "TryGetWrapperMemberRef mm ?k = None"
      using f None by (auto simp: FindWrapperTypeRef_def Let_def request_def split: prod.splits option.splits if_splits)
    have set_one: "only_adds st (SetWrapperMemberRef mm ?k v, reqs @ new)"
      and failed: "only_adds st (SetFailedWrapperMemberKey mm ?k, reqs @ new)" for v new
      using F n by (auto simp: only_adds_def)
    note adds = set_one failed set_one [where new = "[]", simplified] failed [where new = "[]", simplified]
    show ?thesis using s None adds
      by (auto simp: StoreWrapperMethodRef_def Let_def f request_def split: prod.splits if_splits)
  qed
  then show "only_adds st st'" "\<not> FAILED hr \<Longrightarrow> TryGetWrapperMemberRef (fst st') ?k \<noteq> None"
    "FAILED hr \<Longrightarrow> IsFailedWrapperMemberKey (fst st') ?k" by blast+
qed

lemma GetWrapperMethodRef_result:
  assumes "GetWrapperMethodRef info env l mod_id r st = ((ok, m, t), st')"
  shows "only_adds st st'"
    and "ok \<Longrightarrow> TryGetWrapperMemberRef (fst st') (get_method_cache_key (wrapper_method r)) = Some m"
    and "ok \<Longrightarrow> t = stored (TryGetWrapperParentTypeRef (fst st') (get_type_cache_key (wrapper_method r))) mdTypeRefNil"
proof -
  let ?k = "get_method_cache_key (wrapper_method r)"
  have "only_adds st st' \<and> (ok \<longrightarrow> TryGetWrapperMemberRef (fst st') ?k = Some m \<and>
    t = stored (TryGetWrapperParentTypeRef (fst st') (get_type_cache_key (wrapper_method r))) mdTypeRefNil)"
  proof (cases "TryGetWrapperMemberRef (fst st) ?k")
    case (Some v)
    then show ?thesis using assms by (auto simp: GetWrapperMethodRef_def Let_def only_adds_refl)
  next
    case None
    obtain hr module_token where g: "GetModuleFromScope l = (hr, module_token)" by fastforce
    obtain call where e: "EmitAssemblyRef env (assembly (wrapper_method r)) (snd st) = (S_OK, snd st @ [call])"
      by (auto simp: EmitAssemblyRef_def request_def Let_def split: prod.splits)
    have first: "only_adds st (fst st, snd st @ [call])" by (simp add: only_adds_def)
    obtain hr3 st3 where s: "StoreWrapperMethodRef env l module_token r (fst st, snd st @ [call]) = (hr3, st3)"
      by (metis surj_pair)
    have a: "only_adds st st3" using only_adds_trans [OF first StoreWrapperMethodRef_result(1) [OF s]] .
    have "\<not> FAILED hr3 \<Longrightarrow> \<exists>v. TryGetWrapperMemberRef (fst st3) ?k = Some v"
      using StoreWrapperMethodRef_result(2) [OF s] by simp
    then show ?thesis using assms a None
      by (auto simp: GetWrapperMethodRef_def Let_def g e s only_adds_refl stored_def split: if_splits)
  qed
  then show "only_adds st st'" "ok \<Longrightarrow> TryGetWrapperMemberRef (fst st') ?k = Some m"
    "ok \<Longrightarrow> t = stored (TryGetWrapperParentTypeRef (fst st') (get_type_cache_key (wrapper_method r))) mdTypeRefNil"
    by blast+
qed


section \<open>A concrete resolution\<close>

text \<open>A module in which nothing is found, of the assembly of the wrapper.\<close>

definition sample_lookups :: Lookups where
  "sample_lookups =
     (let none = \<lparr>usMajorVersion = 0, usMinorVersion = 0, usBuildNumber = 0, usRevisionNumber = 0\<rparr> in
      \<lparr>GetModuleFromScope = (S_OK, 1),
       assembly_import_now = (\<lambda>reqs. \<lparr>GetAssemblyFromScope = (E_FAIL, 0), GetAssemblyProps = (\<lambda>_. (E_FAIL, [], 0, none)),
         GetAssemblyRefProps = (\<lambda>_. (E_FAIL, [], 0, none)), EnumAssemblyRefs = []\<rparr>),
       FindTypeRef = (\<lambda>_ _ _. (CLDB_E_RECORD_NOTFOUND, None)), FindMemberRef = (\<lambda>_ _ _ _. (CLDB_E_RECORD_NOTFOUND, None))\<rparr>)"

definition sample_profiler :: CorProfilerInfo where
  "sample_profiler = \<lparr>prof_GetAssemblyInfo = (\<lambda>aid. (S_OK, [], 1, 1, 1)), prof_GetAppDomainInfo = (\<lambda>_. (S_OK, [], 1)),
     prof_GetModuleInfo2 = (\<lambda>mid. (S_OK, [], 1, 1, 0))\<rparr>"

definition sample_module :: ModuleMetadata where
  "sample_module = new_ModuleMetadata sample_metadata (assembly_import_now sample_lookups []) (name (assembly sample_reference)) 1 None"

definition sample_replacement :: MethodReplacement where
  "sample_replacement = \<lparr>caller_method = no_MethodReference, target_method = no_MethodReference, wrapper_method = sample_reference\<rparr>"

lemma sample_wrapper:
  "\<exists>st'. GetWrapperMethodRef sample_profiler (sample_token_env []) sample_lookups 1 sample_replacement (sample_module, []) =
     ((True, 0x0a000000, 0x01000002), st')"
proof -
  have "TryGetWrapperMemberRef sample_module k = None" "TryGetWrapperParentTypeRef sample_module k = None"
    "mm_assemblyName sample_module = name (assembly sample_reference)" for k
    by (simp_all add: sample_module_def new_ModuleMetadata_def TryGetWrapperMemberRef_def TryGetWrapperParentTypeRef_def)
  then show ?thesis
    by (simp add: GetWrapperMethodRef_def StoreWrapperMethodRef_def FindWrapperTypeRef_def EmitAssemblyRef_def request_def
        sample_token_env_def sample_answer_def sample_lookups_def sample_replacement_def stored_def Let_def
        GetModuleInfo_def sample_profiler_def ModuleInfo_IsValid_def sample_reference_def no_MethodReference_def assembly_request_def)
qed


end
