(* ===== verification/CallTarget.thy ===== *)
theory CallTarget
  imports CallTargetSigs MetadataBuilder
begin

text \<open>
  The rewriting of a method for the call target (\<^verbatim>\<open>CallTarget_RewriterCallback\<close> of
  \<^verbatim>\<open>cor_profiler.cpp\<close>): the body is wrapped so that the integration is called before and after it.
  The parts of the callback are definitions of their own, in the order of the code; a part that
  can give up with \<^verbatim>\<open>return S_FALSE\<close> returns an option.
\<close>

section \<open>The arguments\<close>

text \<open>Giving up, undefined behaviour, and a step that can give up.\<close>

definition w_exec :: "'a exec \<Rightarrow> 'a writer" where
  "w_exec m w s = xbind m (\<lambda>x. Ok (x, w, s))"

definition w_try :: "'a option writer \<Rightarrow> ('a \<Rightarrow> 'b option writer) \<Rightarrow> 'b option writer" where
  "w_try m f = w_bind m (\<lambda>x. case x of None \<Rightarrow> w_return None | Some y \<Rightarrow> f y)"

abbreviation (input) then_do :: "(ILRewriterWrapper \<Rightarrow> ILRewriterWrapper) \<Rightarrow> 'a writer \<Rightarrow> 'a writer" where
  "then_do f m \<equiv> w_bind (w_do f) (\<lambda>_. m)"

text \<open>The instance: null for a static method, the value itself for a value type.\<close>

definition load_instance :: "bool \<Rightarrow> TypeInfo \<Rightarrow> ptr option writer" where
  "load_instance isStatic t =
     (if isStatic then
        if valueType t then w_return None
        else w_bind (w_op LoadNull) (\<lambda>p. w_return (Some p))
      else w_bind (w_op (LoadArgument 0)) (\<lambda>p.
        if valueType t then
          if info_spec t \<noteq> mdTypeSpecNil then then_do (in_order [LoadObj (info_spec t)]) (w_return (Some p))
          else if \<not> isGeneric t then then_do (in_order [LoadObj (type_id t)]) (w_return (Some p))
          else w_return None
        else w_return (Some p)))"

text \<open>
  An argument of the method: its index in the signature, and its signature, if the vector of
  arguments has it. The flags of an argument that is there are read; by reference ends it all.
\<close>

definition with_flags :: "bytes option \<Rightarrow> (bytes \<Rightarrow> u32 \<Rightarrow> unit option writer) \<Rightarrow> unit option writer" where
  "with_flags arg k = (case arg of None \<Rightarrow> w_exec Overrun
     | Some sig \<Rightarrow> w_bind (w_exec (as_exec (GetTypeFlags sig))) (\<lambda>(argTypeFlags, elementType).
         if argTypeFlags AND TypeFlagByRef \<noteq> 0 then w_return None else k sig argTypeFlags))"

primrec load_directly :: "bool \<Rightarrow> (nat \<times> bytes option) list \<Rightarrow> unit option writer" where
  "load_directly isStatic [] = w_return (Some ())"
| "load_directly isStatic (arg # args) =
     then_do (in_order [LoadArgument (of_nat (fst arg) + (if isStatic then 0 else 1))])
       (with_flags (snd arg) (\<lambda>sig argTypeFlags. load_directly isStatic args))"

text \<open>The request that \<open>GetTypeTok\<close> makes, and its token.\<close>

definition type_tok_request :: "mdToken \<Rightarrow> bytes \<Rightarrow> emit_call option" where
  "type_tok_request corLibRef sig =
     (let pbCur = without_byref sig in
      if pbCur = [] then None else case to_elt (hd pbCur) of None \<Rightarrow> None
      | Some k \<Rightarrow> (case prim_name k of Some n \<Rightarrow> Some (DefineTypeRefByName corLibRef n)
          | None \<Rightarrow> if k \<in> {ELEMENT_TYPE_GENERICINST, ELEMENT_TYPE_SZARRAY, ELEMENT_TYPE_MVAR, ELEMENT_TYPE_VAR}
              then Some (GetTokenFromTypeSpec pbCur) else None))"

definition request_type_tok :: "TokenEnv \<Rightarrow> bytes \<Rightarrow> mdToken tk" where
  "request_type_tok env sig s =
     xbind (as_exec (GetTypeTok
         (\<lambda>scope n. stored (snd (answer env (emitted s) (DefineTypeRefByName scope n))) mdTokenNil)
         (\<lambda>spec. stored (snd (answer env (emitted s) (GetTokenFromTypeSpec spec))) mdTokenNil)
         (corLibAssemblyRef s) sig))
       (\<lambda>tok. Ok (tok, case type_tok_request (corLibAssemblyRef s) sig of None \<Rightarrow> s
          | Some call \<Rightarrow> s \<lparr>emitted := emitted s @ [call]\<rparr>))"

text \<open>The boxing of a value that is stored into the array of objects.\<close>

definition box_argument :: "TokenEnv \<Rightarrow> bytes \<Rightarrow> u32 \<Rightarrow> unit option writer" where
  "box_argument env sig argTypeFlags =
     (if argTypeFlags AND TypeFlagBoxedType \<noteq> 0
      then w_bind (w_tk (request_type_tok env sig)) (\<lambda>tok.
        if tok = mdTokenNil then w_return None else then_do (Box tok) (w_return (Some ())))
      else w_return (Some ()))"

primrec load_into_array :: "TokenEnv \<Rightarrow> bool \<Rightarrow> (nat \<times> bytes option) list \<Rightarrow> unit option writer" where
  "load_into_array env isStatic [] = w_return (Some ())"
| "load_into_array env isStatic (arg # args) =
     then_do (BeginLoadValueIntoArray (of_nat (fst arg)))
     (then_do (in_order [LoadArgument (of_nat (fst arg) + (if isStatic then 0 else 1))])
       (with_flags (snd arg) (\<lambda>sig argTypeFlags.
         w_try (box_argument env sig argTypeFlags) (\<lambda>_.
         then_do EndLoadValueIntoArray (load_into_array env isStatic args)))))"

definition load_arguments :: "TokenEnv \<Rightarrow> bool \<Rightarrow> nat \<Rightarrow> bytes list \<Rightarrow> unit option writer" where
  "load_arguments env isStatic numArgs methodArguments =
     (let args = map (\<lambda>i. (i, if i < length methodArguments then Some (methodArguments ! i) else None)) [0..<numArgs] in
      if numArgs < FASTPATH_COUNT then load_directly isStatic args
      else w_bind (w_tk (tk_get objectTypeRef)) (\<lambda>object_ref.
        then_do (CreateArray object_ref (of_nat numArgs)) (load_into_array env isStatic args)))"

section \<open>Clauses\<close>

definition catch_clause :: "ptr \<Rightarrow> ptr \<Rightarrow> ptr \<Rightarrow> mdToken \<Rightarrow> EHClause" where
  "catch_clause try_begin handler_begin handler_end token =
     \<lparr>m_Flags = 0, m_pTryBegin = try_begin, m_pTryEnd = handler_begin, m_pHandlerBegin = handler_begin,
      m_pHandlerEnd = handler_end, m_ClassToken_pFilter = Bits (ucast token)\<rparr>"

definition finally_clause :: "ptr \<Rightarrow> ptr \<Rightarrow> ptr \<Rightarrow> EHClause" where
  "finally_clause try_begin handler_begin handler_end =
     \<lparr>m_Flags = 2, m_pTryBegin = try_begin, m_pTryEnd = handler_begin, m_pHandlerBegin = handler_begin,
      m_pHandlerEnd = handler_end, m_ClassToken_pFilter = Bits 0\<rparr>"

definition set_target :: "ptr \<Rightarrow> ptr \<Rightarrow> ILRewriterWrapper \<Rightarrow> ILRewriterWrapper" where
  "set_target p t w = w \<lparr>m_ILRewriter := upd p (set_pTarget t) (m_ILRewriter w)\<rparr>"

text \<open>The pointer an instruction was written to, or the null pointer it was set to before.\<close>

definition or_null :: "ptr option \<Rightarrow> ptr" where
  "or_null p = (case p of None \<Rightarrow> NULL | Some q \<Rightarrow> q)"

section \<open>What the callback knows of the method\<close>

record Rewriting =
  rw_env :: TokenEnv
  rw_type :: TypeInfo
  rw_integration :: mdToken
  rw_isVoid :: bool
  rw_isStatic :: bool
  rw_numArgs :: nat
  rw_arguments :: "bytes list"
  rw_return :: bytes

section \<open>Begin\<close>

text \<open>
  The locals, the arguments, the call of \<^verbatim>\<open>BeginMethod\<close> and its handler. The status of the
  modification of the locals is dropped; where it failed, the pointer to the first instruction is
  indeterminate and its use undefined.
\<close>

record BeginPart =
  bp_first :: ptr
  bp_locals :: LocalVars
  bp_clause :: EHClause

text \<open>The call and its handler: the jump behind the call, the first instruction of the handler and its last.\<close>

definition begin_call :: "Rewriting \<Rightarrow> LocalVars \<Rightarrow> (ptr \<times> ptr option \<times> ptr) option writer" where
  "begin_call r locals =
     w_try (load_instance (rw_isStatic r) (rw_type r)) (\<lambda>_.
     w_try (load_arguments (rw_env r) (rw_isStatic r) (rw_numArgs r) (rw_arguments r)) (\<lambda>_.
     w_bind (WriteBeginMethod (rw_env r) (rw_integration r) (rw_type r) (rw_arguments r)) (\<lambda>begin_method.
     if FAILED (fst begin_method) then w_return None else
     then_do (in_order [StLocal (callTargetStateIndex locals)])
     (w_bind (w_op (CreateInstr CEE_LEAVE_S)) (\<lambda>stateLeave.
      w_bind (WriteLogException (rw_env r) (rw_integration r) (rw_type r)) (\<lambda>log_exception.
      w_bind (w_op (CreateInstr CEE_LEAVE_S)) (\<lambda>catchLeave.
      w_return (Some (stateLeave, snd log_exception, catchLeave)))))))))"

definition begin_part :: "Rewriting \<Rightarrow> BeginPart option writer" where
  "begin_part r =
     w_bind (ModifyLocalSigAndInitialize (rw_env r) (rw_return r)) (\<lambda>(hr, locals, firstInstruction).
     w_try (begin_call r locals) (\<lambda>(stateLeave, catchFirst, catchLeave).
     w_bind (w_exec (case firstInstruction of None \<Rightarrow> Overrun | Some p \<Rightarrow> Ok p)) (\<lambda>first.
     w_bind (w_tk (tk_get exTypeRef)) (\<lambda>token.
     w_bind (w_op (\<lambda>w. (GetCurrentILInstr w, w))) (\<lambda>beginOriginal.
     then_do (set_target stateLeave beginOriginal) (then_do (set_target catchLeave beginOriginal)
       (w_return (Some \<lparr>bp_first = first, bp_locals = locals,
          bp_clause = catch_clause first (or_null catchFirst) catchLeave token\<rparr>))))))))"

section \<open>End\<close>

definition append_return :: "ILRewriterWrapper \<Rightarrow> ptr \<times> ILRewriterWrapper" where
  "append_return w =
     (let (methodReturnInstr, rewriter) = NewILInstr (m_ILRewriter w);
          rewriter = upd methodReturnInstr (set_opcode CEE_RET) rewriter;
          rewriter = InsertAfter (m_pPrev (heap rewriter (GetILList rewriter))) methodReturnInstr rewriter
      in (methodReturnInstr, SetILPosition methodReturnInstr (w \<lparr>m_ILRewriter := rewriter\<rparr>)))"

record EndPart =
  ep_return :: ptr
  ep_catch :: ptr
  ep_rethrow :: ptr
  ep_endFinally :: ptr
  ep_clause :: EHClause

text \<open>The call of \<^verbatim>\<open>EndMethod\<close>; its status, like that of the return value's getter, is dropped.\<close>

definition call_end_method :: "Rewriting \<Rightarrow> LocalVars \<Rightarrow> unit writer" where
  "call_end_method r locals =
     then_do (in_order ((if rw_isVoid r then [] else [LoadLocal (returnValueIndex locals)]) @
         [LoadLocal (exceptionIndex locals), LoadLocal (callTargetStateIndex locals)]))
     (w_bind (if rw_isVoid r then WriteEndVoidReturnMemberRef (rw_env r) (rw_integration r) (rw_type r)
         else WriteEndReturnMemberRef (rw_env r) (rw_integration r) (rw_type r) (rw_return r)) (\<lambda>_.
      then_do (in_order [StLocal (callTargetReturnIndex locals)])
      (if rw_isVoid r then w_return ()
       else then_do (in_order [LoadLocalAddress (callTargetReturnIndex locals)])
         (w_bind (WriteCallTargetReturnGetReturnValue (rw_env r) (callTargetReturnToken locals)) (\<lambda>_.
          then_do (in_order [StLocal (returnValueIndex locals)]) (w_return ()))))))"

text \<open>
  The try block of the finally handler and its own handler: the first instruction, the jump behind
  the handler, the first instruction of the handler and its last, and the end of the finally handler.
\<close>

definition end_call :: "Rewriting \<Rightarrow> LocalVars \<Rightarrow> (ptr \<times> ptr \<times> ptr option \<times> ptr \<times> ptr) option writer" where
  "end_call r locals =
     w_try (load_instance (rw_isStatic r) (rw_type r)) (\<lambda>tryStart.
     w_bind (call_end_method r locals) (\<lambda>_.
     w_bind (w_op (CreateInstr CEE_LEAVE_S)) (\<lambda>tryLeave.
     w_bind (WriteLogException (rw_env r) (rw_integration r) (rw_type r)) (\<lambda>log_exception.
     w_bind (w_op (CreateInstr CEE_LEAVE_S)) (\<lambda>catchLeave.
     w_bind (w_op EndFinally) (\<lambda>endFinallyInstr.
     w_return (Some (tryStart, tryLeave, snd log_exception, catchLeave, endFinallyInstr))))))))"

definition end_part :: "Rewriting \<Rightarrow> LocalVars \<Rightarrow> EndPart option writer" where
  "end_part r locals =
     w_bind (w_op append_return) (\<lambda>methodReturnInstr.
     w_bind (w_op (StLocal (exceptionIndex locals))) (\<lambda>startExceptionCatch.
     then_do (SetILPosition methodReturnInstr)
     (w_bind (w_op Rethrow) (\<lambda>rethrowInstr.
     w_try (end_call r locals) (\<lambda>(tryStart, tryLeave, catchFirst, catchLeave, endFinallyInstr).
     w_bind (w_tk (tk_get exTypeRef)) (\<lambda>token.
     then_do (set_target tryLeave endFinallyInstr) (then_do (set_target catchLeave endFinallyInstr)
     (then_do (in_order (if rw_isVoid r then [] else [LoadLocal (returnValueIndex locals)]))
       (w_return (Some \<lparr>ep_return = methodReturnInstr, ep_catch = startExceptionCatch, ep_rethrow = rethrowInstr,
         ep_endFinally = endFinallyInstr,
         ep_clause = catch_clause tryStart (or_null catchFirst) catchLeave token\<rparr>))))))))))"

section \<open>Returns\<close>

text \<open>The body of the loop that turns the returns of the method into jumps behind the finally handler.\<close>

definition leave_instead ::
  "bool \<Rightarrow> u32 \<Rightarrow> EndPart \<Rightarrow> ILRewriterWrapper \<Rightarrow> ptr \<Rightarrow> ILRewriterWrapper exec" where
  "leave_instead isVoid returnValue e w pInstr =
     (if m_opcode (heap (m_ILRewriter w) pInstr) = CEE_RET \<and> pInstr \<noteq> ep_return e then
        let w = (if isVoid then w else snd (StLocal returnValue (SetILPosition pInstr w)));
            target = m_pNext (heap (m_ILRewriter w) (ep_endFinally e)) in
        Ok (w \<lparr>m_ILRewriter := upd pInstr (\<lambda>i. set_pTarget target (set_opcode CEE_LEAVE_S i)) (m_ILRewriter w)\<rparr>)
      else Ok w)"

definition replace_returns :: "bool \<Rightarrow> u32 \<Rightarrow> EndPart \<Rightarrow> ILRewriterWrapper \<Rightarrow> ILRewriterWrapper exec option" where
  "replace_returns isVoid returnValue e w =
     for_instrs m_ILRewriter (leave_instead isVoid returnValue e) (first_instr (m_ILRewriter w)) w"

text \<open>The clauses of the method first, then the new ones, inner before outer.\<close>

definition add_clauses :: "BeginPart \<Rightarrow> EndPart \<Rightarrow> mdToken \<Rightarrow> ILRewriter \<Rightarrow> ILRewriter exec" where
  "add_clauses b e token rewriter =
     (let behind = m_pNext (heap rewriter (ep_rethrow e));
          ehCount = GetEHCount rewriter;
          ehPointer = (case GetEHPointer rewriter of None \<Rightarrow> [] | Some es \<Rightarrow> es);
          new = [bp_clause b, ep_clause e, catch_clause (bp_first b) (ep_catch e) (ep_rethrow e) token,
            finally_clause (bp_first b) behind (ep_endFinally e)] in
      if length ehPointer < unat ehCount then Overrun
      else Ok (SetEHClause (Some (take (unat ehCount) ehPointer @ new)) (ehCount + 4) rewriter))"

section \<open>The callback\<close>

text \<open>
  All of the rewriting between import and export. \<^verbatim>\<open>Export\<close> follows the pointers of the clauses,
  so a null pointer in one of the new ones is undefined behaviour there.
\<close>

definition rewrite_body ::
  "Rewriting \<Rightarrow> ILRewriterWrapper \<Rightarrow> CallTargetTokens \<Rightarrow>
   (bool \<times> ILRewriterWrapper \<times> CallTargetTokens) exec option" where
  "rewrite_body r w s =
     obind_exec (Some (begin_part r w s)) (\<lambda>(b, w, s).
     case b of None \<Rightarrow> Some (Ok (False, w, s)) | Some b \<Rightarrow>
     obind_exec (Some (end_part r (bp_locals b) w s)) (\<lambda>(e, w, s).
     case e of None \<Rightarrow> Some (Ok (False, w, s)) | Some e \<Rightarrow>
     obind_exec (replace_returns (rw_isVoid r) (returnValueIndex (bp_locals b)) e w) (\<lambda>w.
     Some (xbind (add_clauses b e (exTypeRef s) (m_ILRewriter w)) (\<lambda>rewriter.
       if m_pHandlerBegin (bp_clause b) = NULL \<or> m_pHandlerBegin (ep_clause e) = NULL then Overrun
       else Ok (True, w \<lparr>m_ILRewriter := rewriter\<rparr>, s))))))"

definition rewriting_of :: "TokenEnv \<Rightarrow> mdToken \<Rightarrow> FunctionInfo \<Rightarrow> Rewriting exec" where
  "rewriting_of env integration caller =
     (let (mem, len) = fi_blob caller; sig = fi_method_signature caller;
          convention = (if len = 0 then 0 else mem 0) in
      xbind (as_exec (GetTypeFlags (GetSignature mem (ret sig)))) (\<lambda>(retTypeFlags, retFuncElementType).
      Ok \<lparr>rw_env = env, rw_type = fi_type caller, rw_integration = integration,
        rw_isVoid = (retTypeFlags AND TypeFlagVoid \<noteq> 0),
        rw_isStatic = (convention AND IMAGE_CEE_CS_CALLCONV_HASTHIS = 0),
        rw_numArgs = unat (numberOfArguments sig), rw_arguments = map (GetSignature mem) (params_vec sig),
        rw_return = GetSignature mem (ret sig)\<rparr>))"

text \<open>
  The callback, with the body it hands to the runtime; \<open>mem\<close> is what the rewriter's memory held
  before it was constructed, \<open>mem'\<close> what the memory for the new body held.
\<close>

definition CallTarget_RewriterCallback ::
  "'p CorProfilerInfo_scheme \<Rightarrow> LoadedProfilers \<Rightarrow> TokenEnv \<Rightarrow> Lookups \<Rightarrow> clr \<Rightarrow> ILRewriter \<Rightarrow> (nat \<Rightarrow> u8) \<Rightarrow>
   u64 \<Rightarrow> FunctionInfo \<Rightarrow> MethodReplacement \<Rightarrow> ModuleMetadata \<times> CallTargetTokens \<Rightarrow>
   ((hresult \<times> bytes option) \<times> ModuleMetadata \<times> CallTargetTokens) exec option" where
  "CallTarget_RewriterCallback info loaded env l ci mem mem' mod_id caller method_replacement st =
     (let (mm, s) = st;
          ((ok, wrapper_method_ref, wrapper_type_ref), mm, reqs) =
            GetWrapperMethodRef info env l mod_id method_replacement (mm, emitted s);
          s = s \<lparr>emitted := reqs\<rparr> in
      obind_exec (Some (rewriting_of env wrapper_type_ref caller)) (\<lambda>r.
      if \<not> ProfilerAssemblyIsLoadedIntoAppDomain loaded (mm_app_domain_id mm) then Some (Ok ((S_FALSE, None), mm, s))
      else case Import ci (new_ILRewriter mem) of
        None \<Rightarrow> None
      | Some Overrun \<Rightarrow> Some Overrun
      | Some (Fail hr) \<Rightarrow> Some (Ok ((S_FALSE, None), mm, s))
      | Some (Ok rewriter) \<Rightarrow>
          obind_exec (rewrite_body r (SetILPosition (first_instr rewriter) (new_ILRewriterWrapper rewriter)) s)
            (\<lambda>(rewritten, w, s).
             if \<not> rewritten then Some (Ok ((S_FALSE, None), mm, s))
             else case Export ci mem' (GetILRewriter w) of
               None \<Rightarrow> None
             | Some Overrun \<Rightarrow> Some Overrun
             | Some (Fail hr) \<Rightarrow> Some (Ok ((S_FALSE, None), mm, s))
             | Some (Ok (rewriter, totalSize, pBody)) \<Rightarrow> Some (Ok ((S_OK, Some pBody), mm, s)))))"

end
