(* ===== verification/CallTargetWrites.thy ===== *)
theory CallTargetWrites
  imports CallTarget
begin

text \<open>
  The code \<^verbatim>\<open>CallTarget_RewriterCallback\<close> writes before and behind the body of a method, and where
  it writes it: every writer of the callback only inserts at the position of the rewriter wrapper.
\<close>

section \<open>Insertion as concatenation\<close>

text \<open>
  The code of an instruction is its opcode and its operand. \<open>at w xs ys\<close>: the list is \<open>xs @ ys\<close> and
  the position is behind \<open>xs\<close>. \<open>grows w xs ys w' new cs\<close>: instructions \<open>new\<close> with the codes \<open>cs\<close> were
  inserted there, and nothing else was changed.
\<close>

type_synonym code = "u32 \<times> ILArg"

definition code :: "heap \<Rightarrow> ptr \<Rightarrow> code" where
  "code h p = (m_opcode (h p), m_arg (h p))"

definition op_code :: "(ILInstr \<Rightarrow> ILInstr) \<Rightarrow> code" where
  "op_code f = (m_opcode (f zero_instr), m_arg (f zero_instr))"

abbreviation rw_heap :: "ILRewriterWrapper \<Rightarrow> heap" where
  "rw_heap w \<equiv> heap (m_ILRewriter w)"

definition at :: "ILRewriterWrapper \<Rightarrow> ptr list \<Rightarrow> ptr list \<Rightarrow> bool" where
  "at w xs ys \<longleftrightarrow> ring (m_ILRewriter w) (xs @ ys) \<and> m_ILInstr w = right_of ys"

definition grows :: "ILRewriterWrapper \<Rightarrow> ptr list \<Rightarrow> ptr list \<Rightarrow> ILRewriterWrapper \<Rightarrow> ptr list \<Rightarrow> code list \<Rightarrow> bool" where
  "grows w xs ys w' new cs \<longleftrightarrow>
     at w' (xs @ new) ys \<and> map (code (rw_heap w')) new = cs \<and>
     (\<forall>q\<in>set (xs @ ys). code (rw_heap w') q = code (rw_heap w) q) \<and>
     m_nInstrs (m_ILRewriter w') = m_nInstrs (m_ILRewriter w) + of_nat (length new) \<and>
     same_header (m_ILRewriter w) (m_ILRewriter w')"

text \<open>Members that are set without touching the links.\<close>

definition unlinking :: "(ILInstr \<Rightarrow> ILInstr) \<Rightarrow> bool" where
  "unlinking f \<longleftrightarrow> (\<forall>i. m_pNext (f i) = m_pNext i \<and> m_pPrev (f i) = m_pPrev i)"

lemma grows_refl: "at w xs ys \<Longrightarrow> grows w xs ys w [] []"
  by (simp add: grows_def)

lemma grows_trans:
  assumes "grows w xs ys w1 new1 cs1" and "grows w1 (xs @ new1) ys w2 new2 cs2"
  shows "grows w xs ys w2 (new1 @ new2) (cs1 @ cs2)"
  using assms by (auto simp: grows_def intro: same_header_trans)

lemma insert_new_grows:
  assumes a: "at w xs ys" and f: "unlinking f" and i: "insert_new f w = (p, w')"
  shows "grows w xs ys w' [p] [op_code f]"
proof -
  obtain s1 where n: "NewILInstr (m_ILRewriter w) = (p, s1)"
    and w': "w' = w \<lparr>m_ILRewriter := InsertBefore (right_of ys) p (upd p f s1)\<rparr>"
    using i a by (auto simp: insert_new_def at_def split: prod.splits)
  have ring: "ring (m_ILRewriter w) (xs @ ys)" using a by (simp add: at_def)
  have s1: "s1 = (m_ILRewriter w) \<lparr>m_nInstrs := m_nInstrs (m_ILRewriter w) + 1, heap := (rw_heap w) (p := zero_instr),
      m_brk := m_brk (m_ILRewriter w) + 1\<rparr>"
    using n by (auto simp: NewILInstr_def)
  have u: "unlinked (upd p f s1) (xs @ ys) p" and r2: "ring (upd p f s1) (xs @ ys)"
    using NewILInstr_unlinked [OF ring n] ring_upd [of f p s1 "xs @ ys"] f by (auto simp: unlinked_def unlinking_def)
  note R = ring_InsertBefore [OF r2 u]
  have eq: "m_ILRewriter w' = (upd p f s1)
      \<lparr>heap := link_between (left_of xs) p (right_of ys) (heap (upd p f s1)),
       m_maxStack := m_maxStack (upd p f s1) + stack_pushes (m_opcode (heap (upd p f s1) p))\<rparr>"
    and pos: "m_ILInstr w' = m_ILInstr w"
    using R(2) by (simp_all add: w')
  have "code (rw_heap w') p = op_code f" and "q \<noteq> p \<Longrightarrow> code (rw_heap w') q = code (rw_heap w) q" for q
    unfolding eq by (simp_all add: code_def op_code_def s1)
  moreover have "m_nInstrs (m_ILRewriter w') = m_nInstrs (m_ILRewriter w) + 1" "same_header (m_ILRewriter w) (m_ILRewriter w')"
    unfolding eq by (simp_all add: s1 same_header_def)
  moreover have "ring (m_ILRewriter w') (xs @ p # ys)" using R(1) by (simp add: w')
  moreover have "p \<notin> set (xs @ ys)" using u by (auto simp: unlinked_def)
  ultimately show ?thesis using a pos unfolding grows_def at_def by (auto; metis)
qed

text \<open>The end of a growth: the inserted instructions are new, and the rest keeps its place.\<close>

lemma growsD:
  assumes "grows w xs ys w' new cs"
  shows "at w' (xs @ new) ys" and "ring (m_ILRewriter w') (xs @ new @ ys)" and "map (code (rw_heap w')) new = cs"
    and "length cs = length new" and "q \<in> set (xs @ ys) \<Longrightarrow> code (rw_heap w') q = code (rw_heap w) q"
    and "m_nInstrs (m_ILRewriter w') = m_nInstrs (m_ILRewriter w) + of_nat (length new)"
    and "same_header (m_ILRewriter w) (m_ILRewriter w')"
  using assms by (auto simp: grows_def at_def)

text \<open>The target of a jump that was inserted.\<close>

lemma grows_set_target:
  assumes g: "grows w xs ys w' (a @ p # b) (ca @ (opcode, x) # cb)" and l: "length a = length ca"
  shows "grows w xs ys (set_target p t w') (a @ p # b) (ca @ (opcode, Target t) # cb)"
proof -
  have ring: "ring (m_ILRewriter w') (xs @ (a @ p # b) @ ys)" using growsD(2) [OF g] .
  then have d: "distinct (xs @ (a @ p # b) @ ys)" by (simp add: ring_def)
  have cs: "map (code (rw_heap w')) a = ca" "code (rw_heap w') p = (opcode, x)" "map (code (rw_heap w')) b = cb"
    using growsD(3) [OF g] l by auto
  have new: "code (rw_heap (set_target p t w')) q = (if q = p then (opcode, Target t) else code (rw_heap w') q)" for q
    using cs(2) by (simp add: set_target_def upd_def code_def set_pTarget_def)
  have "map (code (rw_heap (set_target p t w'))) (a @ p # b) = ca @ (opcode, Target t) # cb"
    using d cs by (auto simp: new)
  moreover have "ring (m_ILRewriter (set_target p t w')) (xs @ (a @ p # b) @ ys)"
    using ring_upd [of "set_pTarget t" p "m_ILRewriter w'"] ring by (simp add: set_target_def set_pTarget_def)
  moreover have "code (rw_heap (set_target p t w')) q = code (rw_heap w) q" if "q \<in> set (xs @ ys)" for q
    using growsD(5) [OF g that] d that by (auto simp: new)
  ultimately show ?thesis using g
    by (simp add: grows_def at_def set_target_def same_header_def upd_def)
qed

section \<open>Writers\<close>

text \<open>
  \<open>writes m Q\<close>: from any list \<open>m\<close> only inserts at the position; the result, the inserted
  instructions and their codes are related by \<open>Q\<close>.
\<close>

definition writes :: "'a writer \<Rightarrow> ('a \<Rightarrow> ptr list \<Rightarrow> code list \<Rightarrow> bool) \<Rightarrow> bool" where
  "writes m Q \<longleftrightarrow> (\<forall>w s x w' s' xs ys. m w s = Ok (x, w', s') \<longrightarrow> at w xs ys \<longrightarrow>
     (\<exists>new cs. grows w xs ys w' new cs \<and> Q x new cs))"

lemma writesI:
  "(\<And>w s x w' s' xs ys. m w s = Ok (x, w', s') \<Longrightarrow> at w xs ys \<Longrightarrow> \<exists>new cs. grows w xs ys w' new cs \<and> Q x new cs) \<Longrightarrow> writes m Q"
  by (simp add: writes_def)

lemma writesD:
  assumes "writes m Q" and "m w s = Ok (x, w', s')" and "at w xs ys"
  obtains new cs where "grows w xs ys w' new cs" and "Q x new cs"
  using assms unfolding writes_def by blast

lemma writes_mono: "writes m P \<Longrightarrow> (\<And>x new cs. P x new cs \<Longrightarrow> Q x new cs) \<Longrightarrow> writes m Q"
  unfolding writes_def by blast

lemma writes_return: "Q x [] [] \<Longrightarrow> writes (w_return x) Q"
  by (rule writesI) (auto simp: w_return_def intro: grows_refl)

lemma writes_tk: "(\<And>x. Q x [] []) \<Longrightarrow> writes (w_tk m) Q"
  by (rule writesI) (auto simp: w_tk_def xbind_Ok_iff intro: grows_refl)

lemma writes_exec: "(\<And>x. m = Ok x \<Longrightarrow> Q x [] []) \<Longrightarrow> writes (w_exec m) Q"
  by (rule writesI) (auto simp: w_exec_def xbind_Ok_iff intro: grows_refl)

lemma writes_bind:
  assumes "writes m P"
    and "\<And>x a ca. P x a ca \<Longrightarrow> length a = length ca \<Longrightarrow> writes (f x) (\<lambda>y b cb. Q y (a @ b) (ca @ cb))"
  shows "writes (w_bind m f) Q"
proof (rule writesI)
  fix w s y w' s' xs ys assume "w_bind m f w s = Ok (y, w', s')" and a: "at w xs ys"
  then obtain x w1 s1 where 1: "m w s = Ok (x, w1, s1)" and 2: "f x w1 s1 = Ok (y, w', s')" unfolding w_bind_Ok by blast
  obtain a ca where g: "grows w xs ys w1 a ca" "P x a ca" using writesD [OF assms(1) 1 a] .
  from writesD [OF assms(2) [OF g(2) growsD(4) [OF g(1), symmetric]] 2 growsD(1) [OF g(1)]] obtain b cb
    where "grows w1 (xs @ a) ys w' b cb" "Q y (a @ b) (ca @ cb)" .
  then show "\<exists>new cs. grows w xs ys w' new cs \<and> Q y new cs" using grows_trans [OF g(1)] by blast
qed

lemma writes_insert:
  assumes "unlinking f" and "\<And>p. Q p [p] [op_code f]"
  shows "writes (w_op (insert_new f)) Q"
proof (rule writesI)
  fix w s p w' s' xs ys assume "w_op (insert_new f) w s = Ok (p, w', s')" and a: "at w xs ys"
  then have "insert_new f w = (p, w')" by (auto simp: w_op_def Let_def split: prod.splits)
  from insert_new_grows [OF a assms(1) this] show "\<exists>new cs. grows w xs ys w' new cs \<and> Q p new cs"
    using assms(2) by blast
qed

section \<open>The code that is written\<close>

definition simple_code :: "u32 \<Rightarrow> code" where
  "simple_code opcode = op_code (set_opcode opcode)"

definition token_code :: "u32 \<Rightarrow> mdToken \<Rightarrow> code" where
  "token_code opcode token = op_code (\<lambda>i. set_Arg32 token (set_opcode opcode i))"

definition int_code :: "u32 \<Rightarrow> code" where
  "int_code v = op_code (int32_instr v)"

definition ld_arg :: "u16 \<Rightarrow> code" where
  "ld_arg index = op_code (indexed_instr [CEE_LDARG_0, CEE_LDARG_1, CEE_LDARG_2, CEE_LDARG_3] CEE_LDARG_S CEE_LDARG (ucast index))"

definition ld_loc :: "u32 \<Rightarrow> code" where
  "ld_loc index = op_code (indexed_instr [CEE_LDLOC_0, CEE_LDLOC_1, CEE_LDLOC_2, CEE_LDLOC_3] CEE_LDLOC_S CEE_LDLOC index)"

definition st_loc :: "u32 \<Rightarrow> code" where
  "st_loc index = op_code (indexed_instr [CEE_STLOC_0, CEE_STLOC_1, CEE_STLOC_2, CEE_STLOC_3] CEE_STLOC_S CEE_STLOC index)"

definition ld_loc_addr :: "u32 \<Rightarrow> code" where
  "ld_loc_addr index = op_code (\<lambda>i. if index \<le> 255 then set_Arg8 (ucast index) (set_opcode CEE_LDLOCA_S i)
     else set_Arg16 (ucast index) (set_opcode CEE_LDLOCA i))"

text \<open>The wrapper's operations as insertions.\<close>

lemma wrapper_ops:
  "LoadNull = insert_new (set_opcode CEE_LDNULL)"
  "LoadArgument index = insert_new (indexed_instr [CEE_LDARG_0, CEE_LDARG_1, CEE_LDARG_2, CEE_LDARG_3]
     CEE_LDARG_S CEE_LDARG (ucast index))"
  "LoadLocal local_index = insert_new (indexed_instr [CEE_LDLOC_0, CEE_LDLOC_1, CEE_LDLOC_2, CEE_LDLOC_3]
     CEE_LDLOC_S CEE_LDLOC local_index)"
  "StLocal local_index = insert_new (indexed_instr [CEE_STLOC_0, CEE_STLOC_1, CEE_STLOC_2, CEE_STLOC_3]
     CEE_STLOC_S CEE_STLOC local_index)"
  "LoadLocalAddress local_index = insert_new (\<lambda>i. if local_index \<le> 255 then set_Arg8 (ucast local_index) (set_opcode CEE_LDLOCA_S i)
     else set_Arg16 (ucast local_index) (set_opcode CEE_LDLOCA i))"
  "CallMember token False = insert_new (\<lambda>i. set_Arg32 token (set_opcode CEE_CALL i))"
  "LoadObj token = insert_new (\<lambda>i. set_Arg32 token (set_opcode CEE_LDOBJ i))"
  "Rethrow = insert_new (set_opcode CEE_RETHROW)"
  "EndFinally = insert_new (set_opcode CEE_ENDFINALLY)"
  "CreateInstr opcode = insert_new (set_opcode opcode)"
  by (auto simp: fun_eq_iff LoadNull_def LoadArgument_def LoadLocal_def StLocal_def LoadLocalAddress_def CallMember_def
      LoadObj_def Rethrow_def EndFinally_def CreateInstr_def)

lemma unlinking_ops [simp]:
  "unlinking (set_opcode opcode)" "unlinking (\<lambda>i. set_Arg32 token (set_opcode opcode i))"
  "unlinking (indexed_instr opcodes short long index)" "unlinking (int32_instr v)"
  "unlinking (\<lambda>i. if local_index \<le> 255 then set_Arg8 (ucast local_index) (set_opcode CEE_LDLOCA_S i)
     else set_Arg16 (ucast local_index) (set_opcode CEE_LDLOCA i))"
  by (auto simp: unlinking_def indexed_instr_def int32_instr_def set_Arg8_def set_Arg16_def set_Arg32_def)

lemma writes_op:
  "(\<And>p. Q p [p] [simple_code CEE_LDNULL]) \<Longrightarrow> writes (w_op LoadNull) Q"
  "(\<And>p. Q p [p] [ld_arg index]) \<Longrightarrow> writes (w_op (LoadArgument index)) Q"
  "(\<And>p. Q p [p] [ld_loc local_index]) \<Longrightarrow> writes (w_op (LoadLocal local_index)) Q"
  "(\<And>p. Q p [p] [st_loc local_index]) \<Longrightarrow> writes (w_op (StLocal local_index)) Q"
  "(\<And>p. Q p [p] [token_code CEE_CALL token]) \<Longrightarrow> writes (w_op (CallMember token False)) Q"
  "(\<And>p. Q p [p] [simple_code CEE_RETHROW]) \<Longrightarrow> writes (w_op Rethrow) Q"
  "(\<And>p. Q p [p] [simple_code CEE_ENDFINALLY]) \<Longrightarrow> writes (w_op EndFinally) Q"
  "(\<And>p. Q p [p] [simple_code opcode]) \<Longrightarrow> writes (w_op (CreateInstr opcode)) Q"
  unfolding wrapper_ops simple_code_def token_code_def ld_arg_def ld_loc_def st_loc_def
  by (rule writes_insert; simp)+

text \<open>Insertions one after the other.\<close>

lemma in_order_grows:
  assumes "at w xs ys" and "list_all unlinking fs"
  shows "\<exists>new. grows w xs ys (in_order (map insert_new fs) w) new (map op_code fs)"
  using assms
proof (induction fs arbitrary: w xs)
  case Nil
  then show ?case using grows_refl by (auto simp: in_order_def)
next
  case (Cons f fs)
  obtain p w1 where i: "insert_new f w = (p, w1)" by fastforce
  with Cons.prems have g: "grows w xs ys w1 [p] [op_code f]" by (auto intro: insert_new_grows)
  from Cons.IH [OF growsD(1) [OF g]] Cons.prems(2) obtain new
    where "grows w1 (xs @ [p]) ys (in_order (map insert_new fs) w1) new (map op_code fs)" by auto
  from grows_trans [OF g this] show ?case using i by (auto simp: in_order_def)
qed

lemma writes_in_order:
  assumes "list_all unlinking fs" and "\<And>new. length new = length fs \<Longrightarrow> Q () new (map op_code fs)"
  shows "writes (w_do (in_order (map insert_new fs))) Q"
proof (rule writesI)
  fix w s x w' s' xs ys assume "w_do (in_order (map insert_new fs)) w s = Ok (x, w', s')" and a: "at w xs ys"
  then have "w' = in_order (map insert_new fs) w" by (auto simp: w_do_def)
  moreover obtain new where "grows w xs ys (in_order (map insert_new fs) w) new (map op_code fs)"
    using in_order_grows [OF a assms(1)] by blast
  ultimately show "\<exists>new cs. grows w xs ys w' new cs \<and> Q x new cs" using assms(2) growsD(4) by fastforce
qed

lemma writes_list: "(\<And>new. Q () new []) \<Longrightarrow> writes (w_do (in_order [])) Q"
  using writes_in_order [of "[]" Q] by simp

text \<open>The operations that are insertions without a pointer.\<close>

lemma snd_in_order:
  "Box token = in_order (map insert_new [\<lambda>i. set_Arg32 token (set_opcode CEE_BOX i)])"
  "BeginLoadValueIntoArray v = in_order (map insert_new [set_opcode CEE_DUP, int32_instr v])"
  "EndLoadValueIntoArray = in_order (map insert_new [set_opcode CEE_STELEM_REF])"
  "CreateArray token v = in_order (map insert_new [int32_instr v, \<lambda>i. set_Arg32 token (set_opcode CEE_NEWARR i)])"
  by (auto simp: fun_eq_iff in_order_def Box_def BeginLoadValueIntoArray_def LoadInt32_def Duplicate_def
      EndLoadValueIntoArray_def CreateArray_def)

definition inserts :: "(ILRewriterWrapper \<Rightarrow> ptr \<times> ILRewriterWrapper) \<Rightarrow> code \<Rightarrow> bool" where
  "inserts f c \<longleftrightarrow> (\<exists>g. f = insert_new g \<and> unlinking g \<and> c = op_code g)"

lemma inserts_ops [simp, intro!]:
  "inserts LoadNull (simple_code CEE_LDNULL)" "inserts (LoadArgument index) (ld_arg index)"
  "inserts (LoadLocal local_index) (ld_loc local_index)" "inserts (StLocal local_index) (st_loc local_index)"
  "inserts (LoadLocalAddress local_index) (ld_loc_addr local_index)"
  "inserts (CallMember token False) (token_code CEE_CALL token)" "inserts (LoadObj token) (token_code CEE_LDOBJ token)"
  unfolding inserts_def wrapper_ops simple_code_def token_code_def ld_arg_def ld_loc_def st_loc_def ld_loc_addr_def
  by (blast intro: unlinking_ops)+

lemma list_inserts:
  assumes "list_all2 inserts fs cs"
  obtains gs where "fs = map insert_new gs" and "list_all unlinking gs" and "cs = map op_code gs"
proof -
  have "\<exists>gs. fs = map insert_new gs \<and> list_all unlinking gs \<and> cs = map op_code gs"
    using assms
  proof (induction fs cs rule: list_all2_induct)
    case (Cons f fs c cs)
    then obtain g gs where "f = insert_new g" "unlinking g" "c = op_code g"
      "fs = map insert_new gs" "list_all unlinking gs" "cs = map op_code gs"
      by (auto simp: inserts_def)
    then show ?case by (intro exI [of _ "g # gs"]) simp
  qed simp
  then show ?thesis using that by blast
qed

text \<open>A change of the wrapper that consists of insertions.\<close>

definition inserts_all :: "(ILRewriterWrapper \<Rightarrow> ILRewriterWrapper) \<Rightarrow> code list \<Rightarrow> bool" where
  "inserts_all F cs \<longleftrightarrow> (\<exists>gs. F = in_order (map insert_new gs) \<and> list_all unlinking gs \<and> cs = map op_code gs)"

lemma inserts_all_ops [intro]:
  "list_all2 inserts fs cs \<Longrightarrow> inserts_all (in_order fs) cs"
  "inserts_all (Box token) [token_code CEE_BOX token]"
  "inserts_all (BeginLoadValueIntoArray v) [simple_code CEE_DUP, int_code v]"
  "inserts_all EndLoadValueIntoArray [simple_code CEE_STELEM_REF]"
  "inserts_all (CreateArray token v) [int_code v, token_code CEE_NEWARR token]"
proof -
  show "list_all2 inserts fs cs \<Longrightarrow> inserts_all (in_order fs) cs"
    by (erule list_inserts) (auto simp: inserts_all_def)
qed (unfold inserts_all_def snd_in_order token_code_def simple_code_def int_code_def,
    (rule exI, rule conjI, rule refl, simp)+)

lemma inserts_all_one [intro!]: "inserts f c \<Longrightarrow> inserts_all (in_order [f]) [c]"
  by (rule inserts_all_ops) simp

lemma writes_then:
  assumes "inserts_all F cs" and "\<And>a. length a = length cs \<Longrightarrow> writes m (\<lambda>y b cb. Q y (a @ b) (cs @ cb))"
  shows "writes (w_bind (w_do F) (\<lambda>_. m)) Q"
proof -
  obtain gs where gs: "F = in_order (map insert_new gs)" "list_all unlinking gs" "cs = map op_code gs"
    using assms(1) by (auto simp: inserts_all_def)
  have "writes (w_do F) (\<lambda>_ a ca. length a = length cs \<and> ca = cs)"
    unfolding gs(1) by (rule writes_in_order [OF gs(2)]) (simp add: gs)
  then show ?thesis by (rule writes_bind) (use assms(2) in auto)
qed

lemma writes_op_bind:
  assumes "inserts f c" and "\<And>p. writes (k p) (\<lambda>y b cb. Q y (p # b) (c # cb))"
  shows "writes (w_bind (w_op f) k) Q"
proof -
  obtain g where g: "f = insert_new g" "unlinking g" "c = op_code g" using assms(1) by (auto simp: inserts_def)
  have "writes (w_op f) (\<lambda>p a ca. a = [p] \<and> ca = [c])" unfolding g(1) by (rule writes_insert) (simp_all add: g)
  then show ?thesis by (rule writes_bind) (use assms(2) in auto)
qed

lemma writes_tk_bind: "(\<And>x. writes (k x) Q) \<Longrightarrow> writes (w_bind (w_tk m) k) Q"
  by (rule writes_bind [OF writes_tk [where Q = "\<lambda>x a ca. a = [] \<and> ca = []"]]) auto

lemma writes_exec_bind: "(\<And>x. m = Ok x \<Longrightarrow> writes (k x) Q) \<Longrightarrow> writes (w_bind (w_exec m) k) Q"
  by (rule writes_bind [OF writes_exec [where Q = "\<lambda>x a ca. a = [] \<and> ca = [] \<and> m = Ok x"]]) auto

lemma writes_try:
  assumes "writes m (\<lambda>x a ca. case x of None \<Rightarrow> Q None a ca | Some y \<Rightarrow> P y a ca)"
    and "\<And>x a ca. P x a ca \<Longrightarrow> length a = length ca \<Longrightarrow> writes (f x) (\<lambda>y b cb. Q y (a @ b) (ca @ cb))"
  shows "writes (w_try m f) Q"
  unfolding w_try_def
proof (rule writes_bind [OF assms(1)])
  fix x a ca assume "case x of None \<Rightarrow> Q None a ca | Some y \<Rightarrow> P y a ca" and "length a = length ca"
  then show "writes (case x of None \<Rightarrow> w_return None | Some y \<Rightarrow> f y) (\<lambda>y b cb. Q y (a @ b) (ca @ cb))"
    using assms(2) by (cases x) (auto intro: writes_return)
qed

subsection \<open>The instance and the arguments\<close>

definition instance_code :: "bool \<Rightarrow> TypeInfo \<Rightarrow> code list" where
  "instance_code isStatic t =
     (if isStatic then [simple_code CEE_LDNULL]
      else ld_arg 0 # (if valueType t
        then [token_code CEE_LDOBJ (if info_spec t \<noteq> mdTypeSpecNil then info_spec t else type_id t)] else []))"

lemma writes_load_instance:
  "writes (load_instance isStatic t) (\<lambda>x new cs. case x of None \<Rightarrow> True
     | Some p \<Rightarrow> cs = instance_code isStatic t \<and> (\<exists>rest. new = p # rest))"
  unfolding load_instance_def
  by (auto simp: instance_code_def intro!: writes_op_bind writes_then writes_return)

definition arg_code :: "bool \<Rightarrow> nat \<Rightarrow> code" where
  "arg_code isStatic i = ld_arg (of_nat i + (if isStatic then 0 else 1))"

primrec box_code :: "mdToken option \<Rightarrow> code list" where
  "box_code None = []"
| "box_code (Some token) = [token_code CEE_BOX token]"

definition array_arg_code :: "bool \<Rightarrow> nat \<Rightarrow> mdToken option \<Rightarrow> code list" where
  "array_arg_code isStatic i boxed =
     [simple_code CEE_DUP, int_code (of_nat i), arg_code isStatic i] @
     box_code boxed @ [simple_code CEE_STELEM_REF]"

lemma writes_with_flags:
  assumes "\<And>sig flags. writes (k sig flags) Q" and "Q None [] []"
  shows "writes (with_flags arg k) Q"
  unfolding with_flags_def
  by (cases arg) (auto intro!: writes_exec writes_exec_bind writes_return assms split: prod.split)

lemma writes_load_directly:
  "writes (load_directly isStatic args) (\<lambda>x new cs. x = Some () \<longrightarrow> cs = map (arg_code isStatic \<circ> fst) args)"
proof (induction args)
  case Nil
  then show ?case by (auto intro: writes_return)
next
  case (Cons arg args)
  have "writes (with_flags (snd arg) (\<lambda>sig flags. load_directly isStatic args))
     (\<lambda>x new cs. x = Some () \<longrightarrow> cs = map (arg_code isStatic \<circ> fst) args)"
    by (rule writes_with_flags) (simp_all add: Cons)
  from writes_mono [OF this] show ?case unfolding load_directly.simps
    by (intro writes_then [where cs = "[arg_code isStatic (fst arg)]"] inserts_all_ops) (simp_all add: arg_code_def comp_def)
qed

lemma writes_box_argument:
  "writes (box_argument env sig flags) (\<lambda>x a ca. case x of None \<Rightarrow> True | Some _ \<Rightarrow> \<exists>boxed. ca = box_code boxed)"
proof -
  have "writes (then_do (Box tok) (w_return (Some ()))) (\<lambda>x a ca. case x of None \<Rightarrow> True | Some _ \<Rightarrow> \<exists>boxed. ca = box_code boxed)"
    for tok
    by (rule writes_then [OF inserts_all_ops(2)]) (auto intro!: writes_return exI [of _ "Some tok"])
  then show ?thesis unfolding box_argument_def
    by (auto intro!: writes_tk_bind writes_return exI [of _ None])
qed

lemma writes_load_into_array:
  "writes (load_into_array env isStatic args) (\<lambda>x new cs. x = Some () \<longrightarrow>
     (\<exists>boxes. length boxes = length args \<and>
       cs = concat (map2 (\<lambda>arg. array_arg_code isStatic (fst arg)) args boxes)))"
proof (induction args)
  case Nil
  then show ?case by (auto intro: writes_return)
next
  case (Cons arg args)
  let ?rest = "then_do EndLoadValueIntoArray (load_into_array env isStatic args)"
  have rest: "writes ?rest (\<lambda>x new cs. x = Some () \<longrightarrow> (\<exists>boxes. length boxes = length args \<and>
       cs = simple_code CEE_STELEM_REF # concat (map2 (\<lambda>arg. array_arg_code isStatic (fst arg)) args boxes)))"
    by (rule writes_then [OF inserts_all_ops(4)]) (rule writes_mono [OF Cons], auto)
  have "writes (w_try (box_argument env sig flags) (\<lambda>_. ?rest)) (\<lambda>x new cs. x = Some () \<longrightarrow>
      (\<exists>boxed boxes. length boxes = length args \<and> cs = box_code boxed @ simple_code CEE_STELEM_REF #
         concat (map2 (\<lambda>arg. array_arg_code isStatic (fst arg)) args boxes)))" for sig flags
  proof (rule writes_try [where P = "\<lambda>_ a ca. \<exists>boxed. ca = box_code boxed"])
    show "writes (box_argument env sig flags) (\<lambda>x a ca. case x of
        None \<Rightarrow> None = Some () \<longrightarrow> (\<exists>boxed boxes. length boxes = length args \<and> ca = box_code boxed @
          simple_code CEE_STELEM_REF # concat (map2 (\<lambda>arg. array_arg_code isStatic (fst arg)) args boxes))
      | Some y \<Rightarrow> \<exists>boxed. ca = box_code boxed)"
      by (rule writes_mono [OF writes_box_argument]) (auto split: option.splits)
  qed (rule writes_mono [OF rest], auto)
  then have "writes (with_flags (snd arg) (\<lambda>sig flags. w_try (box_argument env sig flags) (\<lambda>_. ?rest))) (\<lambda>x new cs. x = Some () \<longrightarrow>
      (\<exists>boxed boxes. length boxes = length args \<and> cs = box_code boxed @ simple_code CEE_STELEM_REF #
         concat (map2 (\<lambda>arg. array_arg_code isStatic (fst arg)) args boxes)))"
    by (intro writes_with_flags) simp_all
  note flags = writes_mono [OF this]
  have shape: "[simple_code CEE_DUP, int_code (of_nat (fst arg))] @ [arg_code isStatic (fst arg)] @ (box_code boxed @
      simple_code CEE_STELEM_REF # concat (map2 (\<lambda>arg. array_arg_code isStatic (fst arg)) args boxes)) =
    concat (map2 (\<lambda>arg. array_arg_code isStatic (fst arg)) (arg # args) (boxed # boxes))" for boxed boxes
    by (simp add: array_arg_code_def)
  show ?case
    unfolding load_into_array.simps
  proof (intro writes_then [OF inserts_all_ops(3)] writes_then [where cs = "[arg_code isStatic (fst arg)]"])
    show "inserts_all (in_order [LoadArgument (of_nat (fst arg) + (if isStatic then 0 else 1))]) [arg_code isStatic (fst arg)]"
      by (rule inserts_all_ops) (simp add: arg_code_def)
  qed (rule flags, metis (no_types, lifting) shape length_Cons)
qed

definition args_code :: "bool \<Rightarrow> nat \<Rightarrow> code list \<Rightarrow> bool" where
  "args_code isStatic n cs \<longleftrightarrow>
     (if n < FASTPATH_COUNT then cs = map (arg_code isStatic) [0..<n]
      else \<exists>token boxes. length boxes = n \<and>
        cs = [int_code (of_nat n), token_code CEE_NEWARR token] @ concat (map2 (array_arg_code isStatic) [0..<n] boxes))"

lemma writes_load_arguments:
  "writes (load_arguments env isStatic n args) (\<lambda>x new cs. x = Some () \<longrightarrow> args_code isStatic n cs)"
proof (cases "n < FASTPATH_COUNT")
  case True
  then show ?thesis unfolding load_arguments_def Let_def
    by (simp, intro writes_mono [OF writes_load_directly]) (simp add: args_code_def comp_def)
next
  case False
  let ?args = "map (\<lambda>i. (i, if i < length args then Some (args ! i) else None)) [0..<n]"
  have z: "map2 (\<lambda>arg. array_arg_code isStatic (fst arg)) ?args boxes = map2 (array_arg_code isStatic) [0..<n] boxes"
    for boxes :: "mdToken option list"
    by (simp add: zip_map1 comp_def split_def)
  have array: "args_code isStatic n ([int_code (of_nat n), token_code CEE_NEWARR token] @
      concat (map2 (\<lambda>arg. array_arg_code isStatic (fst arg)) ?args boxes))" if "length boxes = n" for token boxes
    unfolding z using False that by (auto simp: args_code_def intro!: exI [of _ token] exI [of _ boxes])
  have "writes (then_do (CreateArray token (of_nat n)) (load_into_array env isStatic ?args))
     (\<lambda>x new cs. x = Some () \<longrightarrow> args_code isStatic n cs)" for token
    by (rule writes_then [OF inserts_all_ops(5)], rule writes_mono [OF writes_load_into_array]) (use array in auto)
  then show ?thesis unfolding load_arguments_def Let_def if_not_P [OF False] by (intro writes_tk_bind)
qed

subsection \<open>The calls\<close>

text \<open>A writer of a call either fails and writes nothing, or writes one call.\<close>

definition wrote_call :: "ptr option \<Rightarrow> ptr list \<Rightarrow> code list \<Rightarrow> bool" where
  "wrote_call i new cs \<longleftrightarrow> (case i of None \<Rightarrow> new = [] \<and> cs = []
     | Some p \<Rightarrow> \<exists>token. new = [p] \<and> cs = [token_code CEE_CALL token])"

definition called :: "hresult \<times> ptr option \<Rightarrow> ptr list \<Rightarrow> code list \<Rightarrow> bool" where
  "called x new cs \<longleftrightarrow> wrote_call (snd x) new cs \<and> (FAILED (fst x) \<longleftrightarrow> snd x = None)"

lemma called_failed: "FAILED hr \<Longrightarrow> called (hr, None) [] []"
  by (simp add: called_def wrote_call_def)

lemma called_ok: "called (S_OK, Some p) [p] [token_code CEE_CALL token]"
  by (auto simp: called_def wrote_call_def)

lemma writes_call_spec:
  "writes (call_spec spec) called"
proof (rule writesI)
  fix w s x w' s' xs ys assume r: "call_spec spec w s = Ok (x, w', s')" and a: "at w xs ys"
  from r obtain hr token s1 where s: "spec s = Ok ((hr, token), s1)" by (auto simp: call_spec_def xbind_Ok_iff)
  show "\<exists>new cs. grows w xs ys w' new cs \<and> called x new cs"
  proof (cases "FAILED hr")
    case True
    then have "x = (hr, None)" "w' = w" using r s by (auto simp: call_spec_def)
    then show ?thesis using grows_refl [OF a] called_failed [OF True] by blast
  next
    case False
    obtain p w1 where c: "CallMember token False w = (p, w1)" by fastforce
    then have g: "grows w xs ys w1 [p] [token_code CEE_CALL token]"
      using insert_new_grows [OF a] unfolding wrapper_ops token_code_def by simp
    have "x = (S_OK, Some p)" "w' = w1" using r s c False by (auto simp: call_spec_def)
    then show ?thesis using g called_ok by blast
  qed
qed

lemma writes_calls:
  "writes (WriteBeginMethodWithArgumentsArray env integ t) called"
  "writes (WriteEndVoidReturnMemberRef env integ t) called"
  "writes (WriteEndReturnMemberRef env integ t sig) called"
  "writes (WriteLogException env integ t) called"
  unfolding WriteBeginMethodWithArgumentsArray_def WriteEndVoidReturnMemberRef_def WriteEndReturnMemberRef_def
    WriteLogException_def by (rule writes_call_spec)+

lemma writes_WriteBeginMethod:
  "writes (WriteBeginMethod env integ t args) called"
proof (cases "length args \<ge> FASTPATH_COUNT")
  case True
  show ?thesis
  proof (rule writesI)
    fix w s x w' s' xs ys assume r: "WriteBeginMethod env integ t args w s = Ok (x, w', s')" and a: "at w xs ys"
    from r True obtain hr s1 where e: "EnsureBaseCalltargetTokens env s = Ok (hr, s1)"
      by (auto simp: WriteBeginMethod_def xbind_Ok_iff)
    show "\<exists>new cs. grows w xs ys w' new cs \<and> called x new cs"
    proof (cases "FAILED hr")
      case f: True
      with r True have "x = (hr, None)" "w' = w" unfolding WriteBeginMethod_def Let_def by (simp_all add: e)
      then show ?thesis using grows_refl [OF a] called_failed [OF f] by blast
    next
      case False
      with r True have "WriteBeginMethodWithArgumentsArray env integ t w s1 = Ok (x, w', s')"
        unfolding WriteBeginMethod_def Let_def by (simp add: e)
      from writesD [OF writes_calls(1) this a] show ?thesis by blast
    qed
  qed
next
  case False
  then show ?thesis unfolding WriteBeginMethod_def Let_def if_not_P [OF False] by (intro writes_call_spec)
qed

lemma writes_WriteCallTargetReturnGetReturnValue:
  "writes (WriteCallTargetReturnGetReturnValue env spec) (\<lambda>x new cs. wrote_call (snd x) new cs)"
proof (rule writesI)
  fix w s x w' s' xs ys assume "WriteCallTargetReturnGetReturnValue env spec w s = Ok (x, w', s')" and a: "at w xs ys"
  then obtain m hr i where m: "call_spec m w s = Ok ((hr, i), w', s')" and x: "snd x = i"
    unfolding WriteCallTargetReturnGetReturnValue_def xbind_Ok_iff by fastforce
  from writesD [OF writes_call_spec m a] obtain new cs where "grows w xs ys w' new cs"
    "called (hr, i) new cs" .
  then show "\<exists>new cs. grows w xs ys w' new cs \<and> wrote_call (snd x) new cs"
    using x by (auto simp: called_def)
qed

text \<open>The initialisation of the locals.\<close>

definition locals_code :: "LocalVars \<Rightarrow> code list \<Rightarrow> bool" where
  "locals_code locals cs \<longleftrightarrow> (\<exists>spec member_ref.
     cs = (if returnValueIndex locals \<noteq> - 1 then [token_code CEE_CALL spec, st_loc (returnValueIndex locals)] else []) @
       [token_code CEE_CALL member_ref, st_loc (callTargetReturnIndex locals), simple_code CEE_LDNULL,
        st_loc (exceptionIndex locals)])"

lemma writes_initialize_locals:
  "writes (initialize_locals env sig locals) (\<lambda>p new cs. locals_code locals cs \<and> (\<exists>rest. new = p # rest))"
proof -
  let ?rest = "[st_loc (callTargetReturnIndex locals), simple_code CEE_LDNULL, st_loc (exceptionIndex locals)]"
  have void: "inserts_all (in_order [StLocal (callTargetReturnIndex locals), LoadNull, StLocal (exceptionIndex locals)]) ?rest"
    and typed: "inserts_all (in_order [CallMember member_ref False, StLocal (callTargetReturnIndex locals), LoadNull,
      StLocal (exceptionIndex locals)]) (token_code CEE_CALL member_ref # ?rest)" for member_ref
    by (intro inserts_all_ops; simp)+
  show ?thesis
  proof (cases "returnValueIndex locals = - 1")
    case True
    then show ?thesis unfolding initialize_locals_def
      by (simp, intro writes_tk_bind writes_op_bind [OF inserts_ops(6)] writes_then [OF void] writes_return)
        (auto simp: locals_code_def)
  next
    case False
    then show ?thesis unfolding initialize_locals_def
      by (simp, intro writes_tk_bind writes_op_bind [OF inserts_ops(6)] writes_then [OF inserts_all_one [OF inserts_ops(4)]]
          writes_then [OF typed] writes_return)
        (auto simp: locals_code_def)
  qed
qed

subsection \<open>The parts of the callback\<close>

text \<open>The two jumps of a part stand behind its call, and at the end of the handler that logs.\<close>

definition two_leaves :: "code list \<Rightarrow> ptr \<times> ptr option \<times> ptr \<Rightarrow> ptr list \<Rightarrow> code list \<Rightarrow> bool" where
  "two_leaves body p new cs \<longleftrightarrow> (\<exists>a b cb. length a = length body \<and>
     new = a @ fst p # b @ [snd (snd p)] \<and> wrote_call (fst (snd p)) b cb \<and>
     cs = body @ simple_code CEE_LEAVE_S # cb @ [simple_code CEE_LEAVE_S])"

definition begin_code :: "Rewriting \<Rightarrow> LocalVars \<Rightarrow> code list \<Rightarrow> bool" where
  "begin_code r locals cs \<longleftrightarrow> (\<exists>args token. args_code (rw_isStatic r) (rw_numArgs r) args \<and>
     cs = instance_code (rw_isStatic r) (rw_type r) @ args @
       [token_code CEE_CALL token, st_loc (callTargetStateIndex locals)])"

lemma writes_instance_try:
  assumes "\<And>p rest. length (p # rest) = length (instance_code isStatic t) \<Longrightarrow>
     writes (f p) (\<lambda>y b cb. Q y ((p # rest) @ b) (instance_code isStatic t @ cb))"
    and "\<And>a ca. Q None a ca"
  shows "writes (w_try (load_instance isStatic t) f) Q"
proof (rule writes_try)
  show "writes (load_instance isStatic t) (\<lambda>x a ca. case x of None \<Rightarrow> Q None a ca | Some y \<Rightarrow>
      ca = instance_code isStatic t \<and> (\<exists>rest. a = y # rest))"
    by (rule writes_mono [OF writes_load_instance]) (auto simp: assms(2) split: option.splits)
qed (use assms in auto)

lemma writes_log_exception:
  assumes "\<And>x b cb. wrote_call (snd x) b cb \<Longrightarrow> length b = length cb \<Longrightarrow>
     writes (k x) (\<lambda>y b' cb'. Q y (b @ b') (cb @ cb'))"
  shows "writes (w_bind (WriteLogException env integ t) k) Q"
  by (rule writes_bind [OF writes_calls(4)]) (use assms in \<open>auto simp: called_def\<close>)

lemma writes_arguments_try:
  assumes "\<And>a ca. args_code isStatic n ca \<Longrightarrow> length a = length ca \<Longrightarrow> writes (f ()) (\<lambda>y b cb. Q y (a @ b) (ca @ cb))"
    and "\<And>a ca. Q None a ca"
  shows "writes (w_try (load_arguments env isStatic n args) f) Q"
proof (rule writes_try)
  show "writes (load_arguments env isStatic n args) (\<lambda>x a ca. case x of None \<Rightarrow> Q None a ca | Some y \<Rightarrow> args_code isStatic n ca)"
    by (rule writes_mono [OF writes_load_arguments]) (auto simp: assms(2) split: option.splits)
qed (use assms in auto)

lemma writes_begin_method:
  assumes "\<And>x b cb. wrote_call (snd x) b cb \<Longrightarrow> length b = length cb \<Longrightarrow> (FAILED (fst x) \<longleftrightarrow> snd x = None) \<Longrightarrow>
     writes (k x) (\<lambda>y b' cb'. Q y (b @ b') (cb @ cb'))"
  shows "writes (w_bind (WriteBeginMethod env integ t args) k) Q"
  by (rule writes_bind [OF writes_WriteBeginMethod]) (use assms in \<open>auto simp: called_def\<close>)

lemma writes_if: "(b \<Longrightarrow> writes m Q) \<Longrightarrow> (\<not> b \<Longrightarrow> writes k Q) \<Longrightarrow> writes (if b then m else k) Q"
  by simp

lemma inserts_create: "inserts (CreateInstr opcode) (simple_code opcode)" "inserts Rethrow (simple_code CEE_RETHROW)"
  "inserts EndFinally (simple_code CEE_ENDFINALLY)"
  unfolding inserts_def wrapper_ops simple_code_def by (blast intro: unlinking_ops)+

lemma begin_code_intro:
  assumes "args_code (rw_isStatic r) (rw_numArgs r) ca" and "wrote_call i b cb" and "i \<noteq> None"
  shows "begin_code r locals (instance_code (rw_isStatic r) (rw_type r) @ ca @ cb @ [st_loc (callTargetStateIndex locals)])"
  using assms by (auto simp: begin_code_def wrote_call_def)

lemma two_leaves_intro:
  assumes "length a = length body" and "wrote_call cf b cb"
  shows "two_leaves body (sl, cf, cl) (a @ sl # b @ [cl]) (body @ simple_code CEE_LEAVE_S # cb @ [simple_code CEE_LEAVE_S])"
  using assms by (auto simp: two_leaves_def)

lemma begin_shape:
  assumes "length f = length (instance_code (rw_isStatic r) (rw_type r))" and "args_code (rw_isStatic r) (rw_numArgs r) ca"
    and "length a = length ca" and "wrote_call i b cb" and "length b = length cb" and "i \<noteq> None"
    and "length st = length [st_loc (callTargetStateIndex locals)]" and "wrote_call cf h ch"
  shows "\<exists>body. begin_code r locals body \<and> two_leaves body (sl, cf, cl) (f @ a @ b @ st @ sl # h @ [cl])
    (instance_code (rw_isStatic r) (rw_type r) @ ca @ cb @ [st_loc (callTargetStateIndex locals)] @
      simple_code CEE_LEAVE_S # ch @ [simple_code CEE_LEAVE_S])"
proof (intro exI conjI)
  show "begin_code r locals (instance_code (rw_isStatic r) (rw_type r) @ ca @ cb @ [st_loc (callTargetStateIndex locals)])"
    using begin_code_intro [OF assms(2,4,6)] .
  show "two_leaves (instance_code (rw_isStatic r) (rw_type r) @ ca @ cb @ [st_loc (callTargetStateIndex locals)]) (sl, cf, cl)
    (f @ a @ b @ st @ sl # h @ [cl])
    (instance_code (rw_isStatic r) (rw_type r) @ ca @ cb @ [st_loc (callTargetStateIndex locals)] @
      simple_code CEE_LEAVE_S # ch @ [simple_code CEE_LEAVE_S])"
    using two_leaves_intro [of "f @ a @ b @ st" "instance_code (rw_isStatic r) (rw_type r) @ ca @ cb @ [st_loc (callTargetStateIndex locals)]",
      OF _ assms(8)] assms by simp
qed

lemma writes_begin_call:
  "writes (begin_call r locals) (\<lambda>x new cs. case x of None \<Rightarrow> True
     | Some p \<Rightarrow> \<exists>body. begin_code r locals body \<and> two_leaves body p new cs)"
  unfolding begin_call_def
  by (rule writes_instance_try, rule writes_arguments_try, rule writes_begin_method, rule writes_if, rule writes_return, simp,
    rule writes_then [OF inserts_all_one [OF inserts_ops(4)]], rule writes_op_bind [OF inserts_create(1)],
    rule writes_log_exception, rule writes_op_bind [OF inserts_create(1)], rule writes_return)
    (simp_all only: option.case, rule begin_shape, assumption+, simp, assumption+)

text \<open>The code of the end: the call of \<^verbatim>\<open>EndMethod\<close> and what is done with its result.\<close>

definition may_call :: "code list \<Rightarrow> bool" where
  "may_call cs \<longleftrightarrow> cs = [] \<or> (\<exists>token. cs = [token_code CEE_CALL token])"

definition end_method_code :: "Rewriting \<Rightarrow> LocalVars \<Rightarrow> code list \<Rightarrow> bool" where
  "end_method_code r locals cs \<longleftrightarrow> (\<exists>call getter. may_call call \<and> may_call getter \<and>
     cs = ((if rw_isVoid r then [] else [ld_loc (returnValueIndex locals)]) @
         [ld_loc (exceptionIndex locals), ld_loc (callTargetStateIndex locals)]) @ call @
       [st_loc (callTargetReturnIndex locals)] @
       (if rw_isVoid r then [] else
         [ld_loc_addr (callTargetReturnIndex locals)] @ getter @ [st_loc (returnValueIndex locals)]))"

definition end_code :: "Rewriting \<Rightarrow> LocalVars \<Rightarrow> code list \<Rightarrow> bool" where
  "end_code r locals cs \<longleftrightarrow>
     (\<exists>tail. end_method_code r locals tail \<and> cs = instance_code (rw_isStatic r) (rw_type r) @ tail)"

lemma wrote_may_call: "wrote_call i b cb \<Longrightarrow> may_call cb"
  by (cases i) (auto simp: wrote_call_def may_call_def)

lemma end_method_void:
  assumes "rw_isVoid r" and "wrote_call i b cb"
  shows "end_method_code r locals (((if rw_isVoid r then [] else [ld_loc (returnValueIndex locals)]) @
      [ld_loc (exceptionIndex locals), ld_loc (callTargetStateIndex locals)]) @ cb @ [st_loc (callTargetReturnIndex locals)] @ [])"
  unfolding end_method_code_def using assms wrote_may_call
  by (intro exI [of _ cb] exI [of _ "[]"]) (auto simp: may_call_def)

lemma end_method_typed:
  assumes "\<not> rw_isVoid r" and "wrote_call i b cb" and "wrote_call j d cd"
  shows "end_method_code r locals (((if rw_isVoid r then [] else [ld_loc (returnValueIndex locals)]) @
      [ld_loc (exceptionIndex locals), ld_loc (callTargetStateIndex locals)]) @ cb @ [st_loc (callTargetReturnIndex locals)] @
      [ld_loc_addr (callTargetReturnIndex locals)] @ cd @ [st_loc (returnValueIndex locals)] @ [])"
  unfolding end_method_code_def using assms wrote_may_call
  by (intro exI [of _ cb] exI [of _ cd]) auto

lemma writes_end_method: "writes (call_end_method r locals) (\<lambda>x new cs. end_method_code r locals cs)"
proof -
  let ?first = "(if rw_isVoid r then [] else [ld_loc (returnValueIndex locals)]) @
       [ld_loc (exceptionIndex locals), ld_loc (callTargetStateIndex locals)]"
  have first: "inserts_all (in_order ((if rw_isVoid r then [] else [LoadLocal (returnValueIndex locals)]) @
      [LoadLocal (exceptionIndex locals), LoadLocal (callTargetStateIndex locals)])) ?first"
    by (rule inserts_all_ops) simp
  have call: "writes (if rw_isVoid r then WriteEndVoidReturnMemberRef (rw_env r) (rw_integration r) (rw_type r)
       else WriteEndReturnMemberRef (rw_env r) (rw_integration r) (rw_type r) (rw_return r))
     (\<lambda>x b cb. wrote_call (snd x) b cb)"
    by (rule writes_if; rule writes_mono [OF writes_calls(2)] writes_mono [OF writes_calls(3)]; simp add: called_def)
  show ?thesis unfolding call_end_method_def
    by (rule writes_then [OF first], rule writes_bind [OF call], rule writes_then [OF inserts_all_one [OF inserts_ops(4)]],
      rule writes_if, rule writes_return, rule end_method_void, assumption, assumption,
      rule writes_then [OF inserts_all_one [OF inserts_ops(5)]], rule writes_bind [OF writes_WriteCallTargetReturnGetReturnValue],
      rule writes_then [OF inserts_all_one [OF inserts_ops(4)]], rule writes_return, rule end_method_typed, assumption+)
qed

lemma end_shape:
  assumes "length (p # rest) = length (instance_code (rw_isStatic r) (rw_type r))" and "end_method_code r locals ca"
    and "length a = length ca" and "wrote_call cf b cb"
  shows "\<exists>body aa caa resta. end_code r locals body \<and> two_leaves body (lv, cf, cl) aa caa \<and>
    (p # rest) @ a @ lv # b @ [cl, ef] = aa @ [ef] \<and> aa = p # resta \<and>
    instance_code (rw_isStatic r) (rw_type r) @ ca @ simple_code CEE_LEAVE_S # cb @ [simple_code CEE_LEAVE_S, simple_code CEE_ENDFINALLY] =
      caa @ [simple_code CEE_ENDFINALLY]"
proof (intro exI conjI)
  show "end_code r locals (instance_code (rw_isStatic r) (rw_type r) @ ca)" using assms(2) by (auto simp: end_code_def)
  show "two_leaves (instance_code (rw_isStatic r) (rw_type r) @ ca) (lv, cf, cl) ((p # rest @ a) @ lv # b @ [cl])
    ((instance_code (rw_isStatic r) (rw_type r) @ ca) @ simple_code CEE_LEAVE_S # cb @ [simple_code CEE_LEAVE_S])"
    using assms by (intro two_leaves_intro) simp_all
qed simp_all

lemma writes_end_call:
  "writes (end_call r locals) (\<lambda>x new cs. case x of None \<Rightarrow> True
     | Some (tryStart, tryLeave, cf, catchLeave, endFinally) \<Rightarrow> \<exists>body a ca rest. end_code r locals body \<and>
         two_leaves body (tryLeave, cf, catchLeave) a ca \<and> new = a @ [endFinally] \<and> a = tryStart # rest \<and>
         cs = ca @ [simple_code CEE_ENDFINALLY])"
  unfolding end_call_def
  by (rule writes_instance_try, rule writes_bind [OF writes_end_method], rule writes_op_bind [OF inserts_create(1)],
      rule writes_log_exception, rule writes_op_bind [OF inserts_create(1)],
      rule writes_op_bind [OF inserts_create(3)], rule writes_return)
    (simp_all only: option.case prod.case, rule end_shape, assumption+)

subsection \<open>Before the method\<close>

text \<open>The two jumps of a part once their targets are set.\<close>

definition handled_code :: "code list \<Rightarrow> ptr \<Rightarrow> code list \<Rightarrow> code list" where
  "handled_code body target log = body @ (CEE_LEAVE_S, Target target) # log @ [(CEE_LEAVE_S, Target target)]"

lemma simple_leave: "simple_code CEE_LEAVE_S = (CEE_LEAVE_S, Bits 0)"
  by (simp add: simple_code_def op_code_def zero_instr_def)

lemma set_two_targets:
  assumes g: "grows w xs ys w' new cs" and new: "new = f @ a @ rest" and cs: "cs = cf @ ca @ crest"
    and l: "length f = length cf" and t: "two_leaves body (sl, h, cl) a ca"
  shows "\<exists>b log. a = take (length body) a @ sl # b @ [cl] \<and> wrote_call h b log \<and>
    grows w xs ys (set_target cl t (set_target sl t w')) new (cf @ handled_code body t log @ crest)"
proof -
  obtain a0 b log where a0: "length a0 = length body" and a: "a = a0 @ sl # b @ [cl]" and h: "wrote_call h b log"
    and ca: "ca = body @ simple_code CEE_LEAVE_S # log @ [simple_code CEE_LEAVE_S]"
    using t by (auto simp: two_leaves_def)
  have lb: "length b = length log" using h by (cases h) (auto simp: wrote_call_def)
  have g1: "grows w xs ys w' ((f @ a0) @ sl # (b @ cl # rest))
      ((cf @ body) @ (CEE_LEAVE_S, Bits 0) # (log @ (CEE_LEAVE_S, Bits 0) # crest))"
    using g by (simp add: new cs a ca simple_leave)
  have "grows w xs ys (set_target sl t w') ((f @ a0) @ sl # (b @ cl # rest))
      ((cf @ body) @ (CEE_LEAVE_S, Target t) # (log @ (CEE_LEAVE_S, Bits 0) # crest))"
    by (rule grows_set_target [OF g1]) (simp add: l a0)
  then have g2: "grows w xs ys (set_target sl t w') ((f @ a0 @ sl # b) @ cl # rest)
      ((cf @ body @ (CEE_LEAVE_S, Target t) # log) @ (CEE_LEAVE_S, Bits 0) # crest)" by simp
  have "grows w xs ys (set_target cl t (set_target sl t w')) ((f @ a0 @ sl # b) @ cl # rest)
      ((cf @ body @ (CEE_LEAVE_S, Target t) # log) @ (CEE_LEAVE_S, Target t) # crest)"
    by (rule grows_set_target [OF g2]) (simp add: l a0 lb)
  then have "grows w xs ys (set_target cl t (set_target sl t w')) new (cf @ handled_code body t log @ crest)"
    by (simp add: new a handled_code_def)
  moreover have "take (length body) a = a0" using a0 a by simp
  ultimately show ?thesis using a h by auto
qed

text \<open>The change of the locals leaves the list alone.\<close>

definition relocal :: "ILRewriterWrapper \<Rightarrow> ILRewriterWrapper \<Rightarrow> bool" where
  "relocal w w' \<longleftrightarrow> (\<exists>token. w' = w \<lparr>m_ILRewriter := SetTkLocalVarSig token (m_ILRewriter w)\<rparr>)"

text \<open>The first part: where its instructions stand, and the clause of its handler.\<close>

definition begins :: "Rewriting \<Rightarrow> ptr \<Rightarrow> BeginPart \<Rightarrow> ptr list \<Rightarrow> code list \<Rightarrow> bool" where
  "begins r original b new cs \<longleftrightarrow> (\<exists>init call sl h cl catch log token icode body.
     new = init @ call @ sl # h @ [cl] \<and> cs = icode @ handled_code body original log \<and>
     locals_code (bp_locals b) icode \<and> begin_code r (bp_locals b) body \<and>
     length init = length icode \<and> length call = length body \<and> init \<noteq> [] \<and> bp_first b = hd init \<and> wrote_call catch h log \<and>
     bp_clause b = catch_clause (bp_first b) (or_null catch) cl token)"

lemma w_try_Ok:
  "w_try m f w s = Ok (Some y, r) \<longleftrightarrow> (\<exists>x w1 s1. m w s = Ok (Some x, w1, s1) \<and> f x w1 s1 = Ok (Some y, r))"
  by (cases "m w s") (auto simp: w_try_def w_bind_def w_return_def split: option.splits)

lemma begin_part_run:
  assumes run: "begin_part r w s = Ok (Some b, w', s')" and a: "at w xs ys"
  obtains w0 new cs where "relocal w w0" and "grows w0 xs ys w' new cs" and "begins r (right_of ys) b new cs"
proof -
  from run obtain hr locals first w1 s1 where m: "ModifyLocalSigAndInitialize (rw_env r) (rw_return r) w s = Ok ((hr, locals, first), w1, s1)"
    and rest: "w_try (begin_call r locals) (\<lambda>(stateLeave, catchFirst, catchLeave).
     w_bind (w_exec (case first of None \<Rightarrow> Overrun | Some p \<Rightarrow> Ok p)) (\<lambda>first.
     w_bind (w_tk (tk_get exTypeRef)) (\<lambda>token.
     w_bind (w_op (\<lambda>w. (GetCurrentILInstr w, w))) (\<lambda>beginOriginal.
     then_do (set_target stateLeave beginOriginal) (then_do (set_target catchLeave beginOriginal)
       (w_return (Some \<lparr>bp_first = first, bp_locals = locals,
          bp_clause = catch_clause first (or_null catchFirst) catchLeave token\<rparr>))))))) w1 s1 = Ok (Some b, w', s')"
    unfolding begin_part_def w_bind_Ok by auto
  from rest obtain sl cf cl w2 s2 where c: "begin_call r locals w1 s1 = Ok (Some (sl, cf, cl), w2, s2)"
    and f: "first = Some (bp_first b)" and locals: "bp_locals b = locals"
    and w': "w' = set_target cl (m_ILInstr w2) (set_target sl (m_ILInstr w2) w2)"
    and clause: "bp_clause b = catch_clause (bp_first b) (or_null cf) cl (exTypeRef s2)"
    unfolding w_try_Ok
    by (auto simp: w_bind_Ok w_exec_def w_tk_def tk_get_def w_op_def w_do_def w_return_def xbind_Ok_iff GetCurrentILInstr_def
        split: option.splits)
  from m f obtain hr1 w0 s0 where ml: "w_ModifyLocalSig (rw_env r) (rw_return r) w s = Ok ((hr1, locals), w0, s0)"
    and i: "initialize_locals (rw_env r) (rw_return r) locals w0 s0 = Ok (bp_first b, w1, s1)" and ok: "\<not> FAILED hr1"
    by (auto simp: ModifyLocalSigAndInitialize_def w_bind_Ok w_return_def split: if_splits)
  from ml obtain reWriter where "ModifyLocalSig (rw_env r) (rw_return r) (m_ILRewriter w) s = Ok ((hr1, locals), reWriter, s0)"
    and w0: "w0 = w \<lparr>m_ILRewriter := reWriter\<rparr>"
    by (auto simp: w_ModifyLocalSig_def xbind_Ok_iff GetILRewriter_def)
  from ModifyLocalSig_run [OF this(1) ok] obtain token where "reWriter = SetTkLocalVarSig token (m_ILRewriter w)" by metis
  then have rl: "relocal w w0" using w0 by (auto simp: relocal_def)
  have a0: "at w0 xs ys" using rl a by (auto simp: relocal_def at_def ring_def SetTkLocalVarSig_def)
  obtain init icode rest where g1: "grows w0 xs ys w1 init icode" and ic: "locals_code locals icode" and ir: "init = bp_first b # rest"
    using writesD [OF writes_initialize_locals i a0] by blast
  obtain new2 cs2 where g2: "grows w1 (xs @ init) ys w2 new2 cs2"
    and "\<exists>body. begin_code r locals body \<and> two_leaves body (sl, cf, cl) new2 cs2"
    using writesD [OF writes_begin_call c growsD(1) [OF g1]] by auto
  then obtain body where bc: "begin_code r locals body" and tl: "two_leaves body (sl, cf, cl) new2 cs2" by blast
  have pos: "m_ILInstr w2 = right_of ys" using growsD(1) [OF g2] by (simp add: at_def)
  have li: "length init = length icode" using growsD(4) [OF g1] by simp
  from set_two_targets [OF grows_trans [OF g1 g2], of init new2 "[]" icode cs2 "[]", OF _ _ li tl, of "right_of ys"]
  obtain bb log where n2: "new2 = take (length body) new2 @ sl # bb @ [cl]" and wc: "wrote_call cf bb log"
    and g: "grows w0 xs ys w' (init @ new2) (icode @ handled_code body (right_of ys) log)"
    by (auto simp: w' pos)
  have "length new2 = length cs2" using growsD(4) [OF g2] by simp
  then have "length (take (length body) new2) = length body" using tl by (auto simp: two_leaves_def)
  then have "begins r (right_of ys) b (init @ new2) (icode @ handled_code body (right_of ys) log)"
    unfolding begins_def
    by (intro exI [of _ init] exI [of _ "take (length body) new2"] exI [of _ sl] exI [of _ bb] exI [of _ cl] exI [of _ cf]
        exI [of _ log] exI [of _ "exTypeRef s2"] exI [of _ icode] exI [of _ body])
      (use n2 wc ic bc li ir locals clause in simp)
  then show ?thesis using that [OF rl g] by blast
qed

subsection \<open>Behind the method\<close>

lemma append_return_run:
  assumes ring: "ring (m_ILRewriter w) ps" and run: "append_return w = (p, w')"
  shows "at w' ps [p]" and "code (rw_heap w') p = simple_code CEE_RET"
    and "q \<in> set ps \<Longrightarrow> code (rw_heap w') q = code (rw_heap w) q"
    and "m_nInstrs (m_ILRewriter w') = m_nInstrs (m_ILRewriter w) + 1" and "same_header (m_ILRewriter w) (m_ILRewriter w')"
proof -
  obtain s1 where n: "NewILInstr (m_ILRewriter w) = (p, s1)"
    and w': "w' = SetILPosition p (w \<lparr>m_ILRewriter := InsertAfter (m_pPrev (heap (upd p (set_opcode CEE_RET) s1) il_head)) p
      (upd p (set_opcode CEE_RET) s1)\<rparr>)"
    using run by (auto simp: append_return_def GetILList_def Let_def split: prod.splits)
  let ?s = "upd p (set_opcode CEE_RET) s1"
  have s1: "s1 = (m_ILRewriter w) \<lparr>m_nInstrs := m_nInstrs (m_ILRewriter w) + 1, heap := (rw_heap w) (p := zero_instr),
      m_brk := m_brk (m_ILRewriter w) + 1\<rparr>"
    using n by (auto simp: NewILInstr_def)
  have u: "unlinked ?s (ps @ []) p" and r2: "ring ?s (ps @ [])"
    using NewILInstr_unlinked [OF ring n] ring_upd [of "set_opcode CEE_RET" p s1 ps] by (auto simp: unlinked_def)
  have "m_pPrev (heap ?s il_head) = left_of ps" using ring_links(2) [OF r2] by simp
  then have rw: "m_ILRewriter w' = InsertAfter (left_of ps) p ?s" and pos: "m_ILInstr w' = p"
    by (simp_all add: w' SetILPosition_def)
  note R = ring_InsertAfter [OF r2 u]
  have eq: "m_ILRewriter w' = ?s \<lparr>heap := link_between (left_of ps) p (right_of []) (heap ?s),
       m_maxStack := m_maxStack ?s + stack_pushes (m_opcode (heap ?s p))\<rparr>"
    unfolding rw by (rule R(2))
  show "at w' ps [p]" using R(1) pos by (simp add: at_def rw)
  show "code (rw_heap w') p = simple_code CEE_RET" unfolding eq by (simp add: code_def simple_code_def op_code_def s1)
  show "m_nInstrs (m_ILRewriter w') = m_nInstrs (m_ILRewriter w) + 1" "same_header (m_ILRewriter w) (m_ILRewriter w')"
    unfolding eq by (simp_all add: s1 same_header_def)
  show "q \<in> set ps \<Longrightarrow> code (rw_heap w') q = code (rw_heap w) q"
    using u unfolding eq by (auto simp: code_def s1 unlinked_def)
qed

definition return_code :: "Rewriting \<Rightarrow> LocalVars \<Rightarrow> code list" where
  "return_code r locals = (if rw_isVoid r then [] else [ld_loc (returnValueIndex locals)])"

definition ends :: "Rewriting \<Rightarrow> LocalVars \<Rightarrow> EndPart \<Rightarrow> ptr list \<Rightarrow> code list \<Rightarrow> bool" where
  "ends r locals e new cs \<longleftrightarrow> (\<exists>call tl h cl catch log token body load.
     new = ep_catch e # ep_rethrow e # (call @ tl # h @ [cl]) @ ep_endFinally e # load \<and>
     cs = st_loc (exceptionIndex locals) # simple_code CEE_RETHROW # handled_code body (ep_endFinally e) log @
       simple_code CEE_ENDFINALLY # return_code r locals \<and>
     end_code r locals body \<and> length call = length body \<and> call \<noteq> [] \<and> wrote_call catch h log \<and>
     ep_clause e = catch_clause (hd call) (or_null catch) cl token)"

end
