(* ===== verification/CallTargetShape.thy ===== *)
theory CallTargetShape
  imports CallTargetWrites
begin

text \<open>
  What \<^verbatim>\<open>CallTarget_RewriterCallback\<close> makes of a method body: the list of instructions and the
  clauses after the returns are replaced, and that they can be exported, with its branches and clauses
  inside it.
\<close>

lemma end_part_run:
  assumes run: "end_part r locals w s = Ok (Some e, w', s')" and ring: "ring (m_ILRewriter w) ps"
  obtains w1 new cs where "append_return w = (ep_return e, w1)" and "grows w1 ps [ep_return e] w' new cs" and "ends r locals e new cs"
proof -
  obtain ret w1 where ap: "append_return w = (ret, w1)" by fastforce
  note A = append_return_run [OF ring ap]
  obtain sec w2 where st: "StLocal (exceptionIndex locals) w1 = (sec, w2)" by fastforce
  obtain rt w3 where re: "Rethrow (SetILPosition ret w2) = (rt, w3)" by fastforce
  have g1: "grows w1 ps [ret] w2 [sec] [st_loc (exceptionIndex locals)]"
    using insert_new_grows [OF A(1)] st unfolding wrapper_ops st_loc_def by simp
  have "m_ILInstr w2 = ret" using growsD(1) [OF g1] by (simp add: at_def)
  then have same: "SetILPosition ret w2 = w2" by (simp add: SetILPosition_def)
  have g2: "grows w2 (ps @ [sec]) [ret] w3 [rt] [simple_code CEE_RETHROW]"
    using insert_new_grows [OF growsD(1) [OF g1]] re unfolding same wrapper_ops simple_code_def by simp
  note g12 = grows_trans [OF g1 g2]
  let ?load = "if rw_isVoid r then [] else [LoadLocal (returnValueIndex locals)]"
  have eq: "end_part r locals w s = w_try (end_call r locals) (\<lambda>(tryStart, tryLeave, catchFirst, catchLeave, endFinallyInstr).
     w_bind (w_tk (tk_get exTypeRef)) (\<lambda>token.
     then_do (set_target tryLeave endFinallyInstr) (then_do (set_target catchLeave endFinallyInstr)
     (then_do (in_order ?load)
       (w_return (Some \<lparr>ep_return = ret, ep_catch = sec, ep_rethrow = rt, ep_endFinally = endFinallyInstr,
         ep_clause = catch_clause tryStart (or_null catchFirst) catchLeave token\<rparr>)))))) w3 s"
    unfolding end_part_def by (simp add: w_bind_def w_op_def w_do_def ap st re)
  from run [unfolded eq w_try_Ok] obtain ts lv cf cl ef w4 where c: "end_call r locals w3 s = Ok (Some (ts, lv, cf, cl, ef), w4, s')"
    and e: "e = \<lparr>ep_return = ret, ep_catch = sec, ep_rethrow = rt, ep_endFinally = ef,
         ep_clause = catch_clause ts (or_null cf) cl (exTypeRef s')\<rparr>"
    and w': "w' = in_order ?load (set_target cl ef (set_target lv ef w4))"
    by (auto simp: w_bind_Ok w_tk_def tk_get_def w_do_def w_return_def xbind_Ok_iff split: option.splits)
  obtain new3 cs3 where n3: "grows w3 (ps @ [sec, rt]) [ret] w4 new3 cs3"
    and "\<exists>body a ca rest. end_code r locals body \<and> two_leaves body (lv, cf, cl) a ca \<and> new3 = a @ [ef] \<and> a = ts # rest \<and>
         cs3 = ca @ [simple_code CEE_ENDFINALLY]"
    by (rule writesD [OF writes_end_call c growsD(1) [OF g2]]) simp
  then obtain body a ca resta
    where g3: "grows w3 (ps @ [sec, rt]) [ret] w4 (a @ [ef]) (ca @ [simple_code CEE_ENDFINALLY])"
    and body: "end_code r locals body" and tl: "two_leaves body (lv, cf, cl) a ca" and a: "a = ts # resta"
    by auto
  have g: "grows w1 ps [ret] w4 (([sec] @ [rt]) @ a @ [ef])
      (([st_loc (exceptionIndex locals)] @ [simple_code CEE_RETHROW]) @ ca @ [simple_code CEE_ENDFINALLY])"
    by (rule grows_trans [OF g12]) (use g3 in simp)
  from set_two_targets [OF g refl refl _ tl, of ef] obtain b log
    where split: "a = take (length body) a @ lv # b @ [cl]" and wc: "wrote_call cf b log"
    and g4: "grows w1 ps [ret] (set_target cl ef (set_target lv ef w4)) (([sec] @ [rt]) @ a @ [ef])
      (([st_loc (exceptionIndex locals)] @ [simple_code CEE_RETHROW]) @ handled_code body ef log @ [simple_code CEE_ENDFINALLY])"
    by auto
  have "list_all2 inserts ?load (return_code r locals)" by (simp add: return_code_def)
  then obtain gs where gs: "?load = map insert_new gs" "list_all unlinking gs" "return_code r locals = map op_code gs"
    by (rule list_inserts)
  from in_order_grows [OF growsD(1) [OF g4] gs(2)] obtain load
    where g5: "grows (set_target cl ef (set_target lv ef w4)) (ps @ ([sec] @ [rt]) @ a @ [ef]) [ret] w' load (return_code r locals)"
    unfolding w' gs(1) gs(3) by blast
  have "length a = length ca" using growsD(4) [OF g] by simp
  then have lt: "length (take (length body) a) = length body" using tl by (auto simp: two_leaves_def)
  have hd: "take (length body) a \<noteq> [] \<and> hd (take (length body) a) = ts"
    using body a by (auto simp: end_code_def instance_code_def split: if_splits)
  have "ends r locals e (sec # rt # a @ [ef] @ load)
     (st_loc (exceptionIndex locals) # simple_code CEE_RETHROW # handled_code body ef log @ simple_code CEE_ENDFINALLY # return_code r locals)"
    unfolding ends_def
    by (intro exI [of _ "take (length body) a"] exI [of _ lv] exI [of _ b] exI [of _ cl] exI [of _ cf] exI [of _ log]
        exI [of _ "exTypeRef s'"] exI [of _ body] exI [of _ load]) (use split wc body lt hd in \<open>simp add: e\<close>)
  moreover have "grows w1 ps [ret] w' (sec # rt # a @ [ef] @ load)
     (st_loc (exceptionIndex locals) # simple_code CEE_RETHROW # handled_code body ef log @ simple_code CEE_ENDFINALLY # return_code r locals)"
    using grows_trans [OF g4 g5] by simp
  ultimately show ?thesis using that ap by (simp add: e)
qed

section \<open>The returns of the method\<close>

lemma insert_new_next:
  assumes a: "at w xs ys" and f: "unlinking f" and i: "insert_new f w = (p, w')"
    and q: "q \<in> set (xs @ ys)" "q \<noteq> left_of xs"
  shows "m_pNext (rw_heap w' q) = m_pNext (rw_heap w q)"
proof -
  obtain s1 where n: "NewILInstr (m_ILRewriter w) = (p, s1)"
    and w': "w' = w \<lparr>m_ILRewriter := InsertBefore (right_of ys) p (upd p f s1)\<rparr>"
    using i a by (auto simp: insert_new_def at_def split: prod.splits)
  have ring: "ring (m_ILRewriter w) (xs @ ys)" using a by (simp add: at_def)
  have s1: "s1 = (m_ILRewriter w) \<lparr>m_nInstrs := m_nInstrs (m_ILRewriter w) + 1, heap := (rw_heap w) (p := zero_instr),
      m_brk := m_brk (m_ILRewriter w) + 1\<rparr>"
    using n by (auto simp: NewILInstr_def)
  have u: "unlinked (upd p f s1) (xs @ ys) p" and r2: "ring (upd p f s1) (xs @ ys)"
    using NewILInstr_unlinked [OF ring n] ring_upd [of f p s1 "xs @ ys"] f by (auto simp: unlinked_def unlinking_def)
  have "q \<noteq> p" using u q by (auto simp: unlinked_def)
  have eq: "m_ILRewriter w' = (upd p f s1)
      \<lparr>heap := link_between (left_of xs) p (right_of ys) (heap (upd p f s1)),
       m_maxStack := m_maxStack (upd p f s1) + stack_pushes (m_opcode (heap (upd p f s1) p))\<rparr>"
    using ring_InsertBefore(2) [OF r2 u] by (simp add: w' del: last.simps)
  show ?thesis using q \<open>q \<noteq> p\<close> unfolding eq by (simp add: s1 del: last.simps)
qed

text \<open>
  What becomes of an instruction: a return becomes a jump, behind a store of the return value;
  everything else stays. \<open>stores\<close> gives the instructions that were put in front of one.
\<close>

definition leave_code :: "bool \<Rightarrow> u32 \<Rightarrow> ptr \<Rightarrow> ptr \<Rightarrow> heap \<Rightarrow> ptr \<Rightarrow> code list" where
  "leave_code isVoid returnValue mret target h p =
     (if m_opcode (h p) = CEE_RET \<and> p \<noteq> mret
      then (if isVoid then [] else [st_loc returnValue]) @ [(CEE_LEAVE_S, Target target)] else [code h p])"

definition with_stores :: "(ptr \<Rightarrow> ptr list) \<Rightarrow> ptr list \<Rightarrow> ptr list" where
  "with_stores stores ps = concat (map (\<lambda>p. stores p @ [p]) ps)"

lemma with_stores_simps [simp]:
  "with_stores stores [] = []" "with_stores stores (p # ps) = stores p @ p # with_stores stores ps"
  "with_stores stores (ps @ qs) = with_stores stores ps @ with_stores stores qs"
  by (simp_all add: with_stores_def)

definition replaced :: "bool \<Rightarrow> u32 \<Rightarrow> ptr \<Rightarrow> ptr \<Rightarrow> ILRewriterWrapper \<Rightarrow> ptr list \<Rightarrow> ptr list \<Rightarrow>
    (ptr \<Rightarrow> ptr list) \<Rightarrow> ILRewriterWrapper \<Rightarrow> bool" where
  "replaced isVoid returnValue mret target w xs ys stores w' \<longleftrightarrow>
     ring (m_ILRewriter w') (xs @ with_stores stores ys) \<and>
     (\<forall>q\<in>set xs. code (rw_heap w') q = code (rw_heap w) q) \<and>
     (\<forall>q\<in>set ys. map (code (rw_heap w')) (stores q @ [q]) = leave_code isVoid returnValue mret target (rw_heap w) q) \<and>
     m_nInstrs (m_ILRewriter w') = m_nInstrs (m_ILRewriter w) + of_nat (length (with_stores stores ys) - length ys) \<and>
     same_header (m_ILRewriter w) (m_ILRewriter w')"

lemma store_before:
  assumes ring: "ring (m_ILRewriter w) (xs @ y # ys)" and ef: "ef \<in> set (xs @ y # ys)"
    and nx: "m_pNext (rw_heap w ef) \<noteq> y"
    and w0: "w0 = (if isVoid then w else snd (StLocal idx (SetILPosition y w)))"
  obtains new where "ring (m_ILRewriter w0) (xs @ new @ y # ys)"
    and "m_pNext (rw_heap w0 ef) = m_pNext (rw_heap w ef)"
    and "\<forall>q\<in>set (xs @ y # ys). code (rw_heap w0) q = code (rw_heap w) q"
    and "map (code (rw_heap w0)) new = (if isVoid then [] else [st_loc idx])"
    and "m_nInstrs (m_ILRewriter w0) = m_nInstrs (m_ILRewriter w) + of_nat (length new)"
    and "same_header (m_ILRewriter w) (m_ILRewriter w0)"
proof (cases isVoid)
  case True
  then show ?thesis using that [of "[]"] ring w0 by simp
next
  case False
  let ?w = "SetILPosition y w"
  have a: "at ?w xs (y # ys)" using ring by (simp add: at_def SetILPosition_def)
  obtain p where i: "StLocal idx ?w = (p, w0)" using False w0 by (cases "StLocal idx ?w") simp
  then have g: "grows ?w xs (y # ys) w0 [p] [st_loc idx]"
    unfolding wrapper_ops st_loc_def by (rule insert_new_grows [OF a, rotated]) simp
  have "m_pNext (rw_heap w (left_of xs)) = y" using ring_links(1) [OF ring] by simp
  then have "ef \<noteq> left_of xs" using nx by metis
  then have "m_pNext (rw_heap w0 ef) = m_pNext (rw_heap ?w ef)"
    using insert_new_next [OF a _ i [unfolded wrapper_ops] ef] by simp
  then show ?thesis
    using that [of "[p]"] growsD [OF g] False by (simp add: SetILPosition_def)
qed

lemma leave_code_jump:
  assumes "code (heap (upd y (\<lambda>i. set_pTarget target (set_opcode CEE_LEAVE_S i)) s)) q = c"
  shows "c = (if q = y then (CEE_LEAVE_S, Target target) else code (heap s) q)"
  using assms by (auto simp: code_def upd_def set_pTarget_def)

lemma replaced_step:
  assumes ring: "ring (m_ILRewriter w) (xs @ y # ys)" and ef: "ep_endFinally e \<in> set (xs @ y # ys)"
    and nx: "m_pNext (rw_heap w (ep_endFinally e)) = target"
    and t: "target = ep_return e \<or> m_opcode (rw_heap w target) \<noteq> CEE_RET"
  obtains w1 new where "leave_instead isVoid idx e w y = Ok w1"
    and "ring (m_ILRewriter w1) (xs @ new @ y # ys)" and "m_pNext (rw_heap w1 (ep_endFinally e)) = target"
    and "\<forall>q\<in>set xs \<union> set ys. code (rw_heap w1) q = code (rw_heap w) q"
    and "map (code (rw_heap w1)) (new @ [y]) = leave_code isVoid idx (ep_return e) target (rw_heap w) y"
    and "m_nInstrs (m_ILRewriter w1) = m_nInstrs (m_ILRewriter w) + of_nat (length new)"
    and "same_header (m_ILRewriter w) (m_ILRewriter w1)"
proof (cases "m_opcode (rw_heap w y) = CEE_RET \<and> y \<noteq> ep_return e")
  case False
  then show ?thesis using that [of w "[]"] ring nx by (auto simp: leave_instead_def leave_code_def)
next
  case True
  define w0 where "w0 = (if isVoid then w else snd (StLocal idx (SetILPosition y w)))"
  let ?jump = "\<lambda>i. set_pTarget target (set_opcode CEE_LEAVE_S i)"
  have "m_pNext (rw_heap w (ep_endFinally e)) \<noteq> y" using True t nx by auto
  from store_before [OF ring ef this w0_def] obtain new
    where n: "ring (m_ILRewriter w0) (xs @ new @ y # ys)" "m_pNext (rw_heap w0 (ep_endFinally e)) = target"
      "\<forall>q\<in>set (xs @ y # ys). code (rw_heap w0) q = code (rw_heap w) q"
      "map (code (rw_heap w0)) new = (if isVoid then [] else [st_loc idx])"
      "m_nInstrs (m_ILRewriter w0) = m_nInstrs (m_ILRewriter w) + of_nat (length new)"
      "same_header (m_ILRewriter w) (m_ILRewriter w0)"
    unfolding nx by blast
  define w1 where "w1 = w0 \<lparr>m_ILRewriter := upd y ?jump (m_ILRewriter w0)\<rparr>"
  have run: "leave_instead isVoid idx e w y = Ok w1"
    using True n(2) by (simp add: leave_instead_def w1_def w0_def Let_def)
  have r1: "ring (m_ILRewriter w1) (xs @ new @ y # ys)" unfolding w1_def
    using ring_upd [of ?jump y "m_ILRewriter w0"] n(1) by (simp add: set_pTarget_def)
  have d: "y \<notin> set xs" "y \<notin> set ys" "y \<notin> set new" using r1 by (auto simp: ring_def)
  have c: "code (rw_heap w1) q = (if q = y then (CEE_LEAVE_S, Target target) else code (rw_heap w0) q)" for q
    unfolding w1_def by (simp add: leave_code_jump [OF refl])
  have nc: "map (code (rw_heap w1)) new = map (code (rw_heap w0)) new" using c d by auto
  show ?thesis
  proof (rule that [OF run r1])
    show "m_pNext (rw_heap w1 (ep_endFinally e)) = target"
      using n(2) by (auto simp: w1_def upd_def set_pTarget_def)
    show "\<forall>q\<in>set xs \<union> set ys. code (rw_heap w1) q = code (rw_heap w) q" using n(3) c d by auto
    show "map (code (rw_heap w1)) (new @ [y]) = leave_code isVoid idx (ep_return e) target (rw_heap w) y"
      using True nc n(4) c by (simp add: leave_code_def)
    show "m_nInstrs (m_ILRewriter w1) = m_nInstrs (m_ILRewriter w) + of_nat (length new)"
      using n(5) by (simp add: w1_def upd_def)
    show "same_header (m_ILRewriter w) (m_ILRewriter w1)"
      using n(6) by (simp add: w1_def upd_def same_header_def)
  qed
qed

lemma replace_loop:
  assumes "ring (m_ILRewriter w) (xs @ ys)" and "ep_endFinally e \<in> set (xs @ ys)"
    and "m_pNext (rw_heap w (ep_endFinally e)) = target" and "target \<in> set (xs @ ys)"
    and "target = ep_return e \<or> m_opcode (rw_heap w target) \<noteq> CEE_RET"
  shows "\<exists>w' stores. for_instrs m_ILRewriter (leave_instead isVoid idx e) (right_of ys) w = Some (Ok w') \<and>
    replaced isVoid idx (ep_return e) target w xs ys stores w'"
  using assms
proof (induction ys arbitrary: w xs)
  case Nil
  then show ?case by (intro exI [of _ w]) (simp add: for_instrs.simps replaced_def)
next
  case (Cons y ys)
  obtain w1 new where run: "leave_instead isVoid idx e w y = Ok w1"
    and r1: "ring (m_ILRewriter w1) (xs @ new @ y # ys)" and n1: "m_pNext (rw_heap w1 (ep_endFinally e)) = target"
    and c1: "\<forall>q\<in>set xs \<union> set ys. code (rw_heap w1) q = code (rw_heap w) q"
    and y1: "map (code (rw_heap w1)) (new @ [y]) = leave_code isVoid idx (ep_return e) target (rw_heap w) y"
    and i1: "m_nInstrs (m_ILRewriter w1) = m_nInstrs (m_ILRewriter w) + of_nat (length new)"
    and h1: "same_header (m_ILRewriter w) (m_ILRewriter w1)"
    using replaced_step [OF Cons.prems(1-3,5)] .
  have t1: "target = ep_return e \<or> m_opcode (rw_heap w1 target) \<noteq> CEE_RET"
  proof (cases "target = y")
    case True
    then show ?thesis using y1 Cons.prems(5) by (auto simp: leave_code_def code_def split: if_splits)
  next
    case False
    then have "code (rw_heap w1) target = code (rw_heap w) target" using c1 Cons.prems(4) by auto
    then show ?thesis using Cons.prems(5) by (simp add: code_def)
  qed
  have "ring (m_ILRewriter w1) ((xs @ new @ [y]) @ ys)" using r1 by simp
  from Cons.IH [OF this _ n1 _ t1] Cons.prems(2,4) obtain w' stores
    where loop: "for_instrs m_ILRewriter (leave_instead isVoid idx e) (right_of ys) w1 = Some (Ok w')"
      and rep: "replaced isVoid idx (ep_return e) target w1 (xs @ new @ [y]) ys stores w'" by auto
  have next_y: "m_pNext (rw_heap w1 y) = right_of ys"
    using ring_links(1) [of "m_ILRewriter w1" "xs @ new @ [y]" ys] r1 by simp
  have d: "y \<notin> set ys" "y \<noteq> il_head" using r1 by (auto simp: ring_def)
  let ?stores = "stores(y := new)"
  have "with_stores ?stores ys = with_stores stores ys" using d by (auto simp: with_stores_def intro!: arg_cong [where f = concat])
  then have ws: "with_stores ?stores (y # ys) = new @ y # with_stores stores ys" by simp
  have len: "length ys \<le> length (with_stores stores ys)" for stores by (induction ys) auto
  have r: "ring (m_ILRewriter w') (xs @ new @ y # with_stores stores ys)"
    and cx: "\<And>q. q \<in> set xs \<union> set new \<union> {y} \<Longrightarrow> code (rw_heap w') q = code (rw_heap w1) q"
    and cy: "\<And>q. q \<in> set ys \<Longrightarrow> map (code (rw_heap w')) (stores q @ [q]) =
      leave_code isVoid idx (ep_return e) target (rw_heap w1) q"
    and i2: "m_nInstrs (m_ILRewriter w') = m_nInstrs (m_ILRewriter w1) + of_nat (length (with_stores stores ys) - length ys)"
    and h2: "same_header (m_ILRewriter w1) (m_ILRewriter w')"
    using rep by (auto simp: replaced_def)
  have "replaced isVoid idx (ep_return e) target w xs (y # ys) ?stores w'"
    unfolding replaced_def ws
  proof (intro conjI ballI)
    show "ring (m_ILRewriter w') (xs @ new @ y # with_stores stores ys)" by fact
    show "code (rw_heap w') q = code (rw_heap w) q" if "q \<in> set xs" for q using that cx c1 by simp
    show "map (code (rw_heap w')) (?stores q @ [q]) = leave_code isVoid idx (ep_return e) target (rw_heap w) q"
      if q: "q \<in> set (y # ys)" for q
    proof (cases "q = y")
      case True
      have "map (code (rw_heap w')) (new @ [y]) = map (code (rw_heap w1)) (new @ [y])" using cx by simp
      then show ?thesis unfolding y1 True fun_upd_same .
    next
      case False
      then have "leave_code isVoid idx (ep_return e) target (rw_heap w1) q = leave_code isVoid idx (ep_return e) target (rw_heap w) q"
        using c1 q by (auto simp: leave_code_def code_def)
      then show ?thesis using False q cy by simp
    qed
    show "m_nInstrs (m_ILRewriter w') = m_nInstrs (m_ILRewriter w) +
        of_nat (length (new @ y # with_stores stores ys) - length (y # ys))"
      using len [of stores] by (simp add: i2 i1 of_nat_diff)
    show "same_header (m_ILRewriter w) (m_ILRewriter w')" using same_header_trans [OF h1 h2] .
  qed
  moreover have "for_instrs m_ILRewriter (leave_instead isVoid idx e) (right_of (y # ys)) w = Some (Ok w')"
    using run loop next_y d by (simp add: for_instrs.simps [of _ _ y])
  ultimately show ?case by blast
qed

section \<open>The whole body\<close>

text \<open>A body code after the rewriting, and codes that are neither returns nor jumps.\<close>

definition body_code :: "bool \<Rightarrow> u32 \<Rightarrow> ptr \<Rightarrow> code \<Rightarrow> code list" where
  "body_code isVoid returnValue target c =
     (if fst c = CEE_RET then (if isVoid then [] else [st_loc returnValue]) @ [(CEE_LEAVE_S, Target target)] else [c])"

definition quiet :: "code \<Rightarrow> bool" where
  "quiet c \<longleftrightarrow> known_opcode (fst c) \<and> \<not> has_target (fst c) \<and> fst c \<noteq> CEE_RET"

lemma has_target_SWITCH_ARG: "has_target CEE_SWITCH_ARG"
  by (simp add: has_target_def)

lemma quiet_op:
  "plain f \<Longrightarrow> m_opcode (f zero_instr) \<noteq> CEE_RET \<Longrightarrow> quiet (op_code f)"
  by (simp add: quiet_def op_code_def plain_def)

lemma quiet_indexed:
  assumes "plain (indexed_instr opcodes short long v)" and "length opcodes = 4" and "CEE_RET \<notin> set (opcodes @ [short, long])"
  shows "quiet (op_code (indexed_instr opcodes short long v))"
proof (rule quiet_op [OF assms(1)])
  have "m_opcode (indexed_instr opcodes short long v zero_instr) \<in> set (opcodes @ [short, long])"
    using assms(2) by (auto simp: indexed_instr_def word_le_nat_alt intro: nth_mem)
  then show "m_opcode (indexed_instr opcodes short long v zero_instr) \<noteq> CEE_RET" using assms(3) by metis
qed

lemma quiet_int32: "quiet (int_code v)"
  unfolding int_code_def
proof (rule quiet_op [OF plain_int32])
  have "unat v < 9" if "0 \<le> sint v" "sint v \<le> 8"
  proof -
    have "v = of_int (sint v)" by simp
    moreover have "sint v \<in> {0, 1, 2, 3, 4, 5, 6, 7, 8}" using that by auto
    ultimately have "v \<in> {0, 1, 2, 3, 4, 5, 6, 7, 8}" by (auto simp del: of_int_sint)
    then show ?thesis by auto
  qed
  then have "m_opcode (int32_instr v zero_instr) \<in> set ([CEE_LDC_I4_0, CEE_LDC_I4_1, CEE_LDC_I4_2, CEE_LDC_I4_3, CEE_LDC_I4_4,
             CEE_LDC_I4_5, CEE_LDC_I4_6, CEE_LDC_I4_7, CEE_LDC_I4_8] @ [CEE_LDC_I4_S, CEE_LDC_I4])"
    using nth_mem [of "unat v" "[CEE_LDC_I4_0, CEE_LDC_I4_1, CEE_LDC_I4_2, CEE_LDC_I4_3, CEE_LDC_I4_4,
             CEE_LDC_I4_5, CEE_LDC_I4_6, CEE_LDC_I4_7, CEE_LDC_I4_8]"]
    by (auto simp: int32_instr_def simp del: nth_Cons_numeral nth_Cons')
  then show "m_opcode (int32_instr v zero_instr) \<noteq> CEE_RET" by (elim subst [of _ _ "\<lambda>x. x \<noteq> CEE_RET", rotated] | auto)
qed

lemma quiet_addr: "quiet (ld_loc_addr k)"
  unfolding ld_loc_addr_def
proof (cases "k \<le> 255")
  case True
  have "quiet (op_code (\<lambda>i. set_Arg8 (ucast k) (set_opcode CEE_LDLOCA_S i)))"
    by (rule quiet_op, rule plain_intro [where op = CEE_LDLOCA_S]) simp_all
  then show "quiet (op_code (\<lambda>i. if k \<le> 255 then set_Arg8 (ucast k) (set_opcode CEE_LDLOCA_S i)
     else set_Arg16 (ucast k) (set_opcode CEE_LDLOCA i)))" using True by simp
next
  case False
  have "quiet (op_code (\<lambda>i. set_Arg16 (ucast k) (set_opcode CEE_LDLOCA i)))"
    by (rule quiet_op, rule plain_intro [where op = CEE_LDLOCA]) simp_all
  then show "quiet (op_code (\<lambda>i. if k \<le> 255 then set_Arg8 (ucast k) (set_opcode CEE_LDLOCA_S i)
     else set_Arg16 (ucast k) (set_opcode CEE_LDLOCA i)))" using False by simp
qed

lemma quiet_simple:
  assumes "op < CEE_COUNT" and "\<not> (0x2B \<le> op \<and> op < 0x45) \<and> op \<noteq> 0xDD \<and> op \<noteq> 0xDE" and "op \<noteq> CEE_RET"
  shows "quiet (simple_code op)" and "quiet (token_code op token)"
  unfolding simple_code_def token_code_def
  by (rule quiet_op [OF plain_opcode(1) [OF assms(1,2)]], simp add: assms,
      rule quiet_op [OF plain_opcode(2) [OF assms(1,2)]], simp add: assms)

lemma quiet_codes [simp]:
  "quiet (int_code v)" "quiet (ld_arg i)" "quiet (ld_loc k)" "quiet (st_loc k)" "quiet (ld_loc_addr k)"
  "quiet (simple_code CEE_LDNULL)" "quiet (simple_code CEE_DUP)" "quiet (simple_code CEE_STELEM_REF)"
  "quiet (simple_code CEE_RETHROW)" "quiet (simple_code CEE_ENDFINALLY)" 
  "quiet (token_code CEE_CALL token)" "quiet (token_code CEE_LDOBJ token)" "quiet (token_code CEE_BOX token)"
  "quiet (token_code CEE_NEWARR token)"
  by (simp_all only: quiet_int32 quiet_addr ld_arg_def ld_loc_def st_loc_def)
    (rule quiet_indexed [OF plain_indexed] quiet_simple; simp)+

lemma quiet_instance: "list_all quiet (instance_code isStatic t)"
  by (simp add: instance_code_def)

lemma quiet_args: "args_code isStatic n cs \<Longrightarrow> list_all quiet cs"
proof (cases "n < FASTPATH_COUNT")
  case False
  have box: "list_all quiet (box_code b)" for b by (cases b) simp_all
  assume "args_code isStatic n cs"
  then obtain token and boxes :: "mdToken option list" where "cs = [int_code (of_nat n), token_code CEE_NEWARR token] @ concat (map2 (array_arg_code isStatic) [0..<n] boxes)"
    using False by (auto simp: args_code_def)
  then show ?thesis using box by (auto simp: list_all_iff array_arg_code_def arg_code_def)
qed (auto simp: args_code_def list_all_iff arg_code_def)

lemma quiet_parts:
  "locals_code locals cs \<Longrightarrow> list_all quiet cs" "begin_code r locals cs \<Longrightarrow> list_all quiet cs"
  "end_code r locals cs \<Longrightarrow> list_all quiet cs" "list_all quiet (return_code r locals)"
  "wrote_call i new cs \<Longrightarrow> list_all quiet cs"
proof -
  have may: "may_call cs \<Longrightarrow> list_all quiet cs" for cs by (auto simp: may_call_def)
  then show "wrote_call i new cs \<Longrightarrow> list_all quiet cs" using wrote_may_call by blast
  show "locals_code locals cs \<Longrightarrow> list_all quiet cs" by (auto simp: locals_code_def)
  show "begin_code r locals cs \<Longrightarrow> list_all quiet cs" using quiet_instance quiet_args by (auto simp: begin_code_def)
  show "end_code r locals cs \<Longrightarrow> list_all quiet cs" using quiet_instance may by (auto simp: end_code_def end_method_code_def)
  show "list_all quiet (return_code r locals)" by (simp add: return_code_def)
qed

text \<open>
  The list after the rewriting: the initialisation of the locals, the call before the method with
  its handler, the instructions of the method, the outer handler, the call behind it with its
  handler, and the one return. A call with its handler: the instructions up to the call, the jump
  over the handler, the call that logs, and the jump out of the handler.
\<close>

record Handled =
  hc_call :: "ptr list"
  hc_leave :: ptr
  hc_log :: ptr
  hc_over :: ptr
  hc_code :: "code list"
  hc_log_token :: mdToken
  hc_type :: mdToken

definition handled_list :: "Handled \<Rightarrow> ptr list" where
  "handled_list c = hc_call c @ [hc_leave c, hc_log c, hc_over c]"

definition handled_codes :: "Handled \<Rightarrow> ptr \<Rightarrow> code list" where
  "handled_codes c t = handled_code (hc_code c) t [token_code CEE_CALL (hc_log_token c)]"

record Wrapped =
  wr_locals :: LocalVars
  wr_init :: "ptr list"
  wr_init_code :: "code list"
  wr_before :: Handled
  wr_stores :: "ptr \<Rightarrow> ptr list"
  wr_catch :: ptr
  wr_rethrow :: ptr
  wr_type :: mdToken
  wr_behind :: Handled
  wr_finally :: ptr
  wr_load :: "ptr list"
  wr_return :: ptr

definition wrapped_front :: "Wrapped \<Rightarrow> ptr list" where
  "wrapped_front x = wr_init x @ handled_list (wr_before x)"

definition wrapped_back :: "Wrapped \<Rightarrow> ptr list" where
  "wrapped_back x = [wr_catch x, wr_rethrow x] @ handled_list (wr_behind x) @ [wr_finally x] @ wr_load x @ [wr_return x]"

definition wrapped_list :: "ptr list \<Rightarrow> Wrapped \<Rightarrow> ptr list" where
  "wrapped_list ps x = wrapped_front x @ with_stores (wr_stores x) ps @ wrapped_back x"

text \<open>Where the returns of the method jump to: behind the finally handler.\<close>

definition wrapped_exit :: "Wrapped \<Rightarrow> ptr" where
  "wrapped_exit x = hd (wr_load x @ [wr_return x])"

definition wrapped_clauses :: "Wrapped \<Rightarrow> EHClause list" where
  "wrapped_clauses x =
     (let first = hd (wr_init x); c = wr_before x; d = wr_behind x in
      [catch_clause first (hc_log c) (hc_over c) (hc_type c),
       catch_clause (hd (hc_call d)) (hc_log d) (hc_over d) (hc_type d),
       catch_clause first (wr_catch x) (wr_rethrow x) (wr_type x),
       finally_clause first (hd (hc_call d)) (wr_finally x)])"

definition wraps :: "Rewriting \<Rightarrow> ILRewriter \<Rightarrow> ptr list \<Rightarrow> ILRewriter \<Rightarrow> Wrapped \<Rightarrow> bool" where
  "wraps r s ps s' x \<longleftrightarrow>
     ring s' (wrapped_list ps x) \<and>
     map (code (heap s')) (wrapped_front x) = wr_init_code x @ handled_codes (wr_before x) (right_of ps) \<and>
     (\<forall>p\<in>set ps. map (code (heap s')) (wr_stores x p @ [p]) =
        body_code (rw_isVoid r) (returnValueIndex (wr_locals x)) (wrapped_exit x) (code (heap s) p)) \<and>
     map (code (heap s')) (wrapped_back x) =
       [st_loc (exceptionIndex (wr_locals x)), simple_code CEE_RETHROW] @
       handled_codes (wr_behind x) (wr_finally x) @ [simple_code CEE_ENDFINALLY] @
       return_code r (wr_locals x) @ [simple_code CEE_RET] \<and>
     locals_code (wr_locals x) (wr_init_code x) \<and> begin_code r (wr_locals x) (hc_code (wr_before x)) \<and>
     end_code r (wr_locals x) (hc_code (wr_behind x)) \<and>
     length (wr_init x) = length (wr_init_code x) \<and>
     length (hc_call (wr_before x)) = length (hc_code (wr_before x)) \<and>
     length (hc_call (wr_behind x)) = length (hc_code (wr_behind x)) \<and>
     eh_clauses s' = eh_clauses s @ wrapped_clauses x \<and> m_nEH s' = m_nEH s + 4 \<and> m_flags s' = m_flags s \<and>
     \<not> m_fGenerateTinyHeader s' \<and> m_nInstrs s' = m_nInstrs s + of_nat (length (wrapped_list ps x) - length ps)"

text \<open>A stretch without returns is left as it is.\<close>

definition stays :: "code \<Rightarrow> bool" where
  "stays c \<longleftrightarrow> fst c \<noteq> CEE_RET"

lemma quiet_stays: "list_all quiet cs \<Longrightarrow> list_all stays cs"
  by (auto simp: list_all_iff quiet_def stays_def)

lemma replaced_quiet:
  assumes rep: "replaced isVoid idx mret target w [] (as @ bs @ cs) stores w'" and q: "list_all stays (map (code (rw_heap w)) bs)"
  shows "with_stores stores bs = bs" and "map (code (rw_heap w')) bs = map (code (rw_heap w)) bs"
proof -
  have one: "map (code (rw_heap w')) (stores p @ [p]) = [code (rw_heap w) p]" if "p \<in> set bs" for p
  proof -
    have "m_opcode (rw_heap w p) \<noteq> CEE_RET" using q that by (auto simp: list_all_iff stays_def code_def)
    then show ?thesis using rep that by (auto simp: replaced_def leave_code_def)
  qed
  have "stores p = [] \<and> code (rw_heap w') p = code (rw_heap w) p" if "p \<in> set bs" for p using one [OF that] by auto
  then show "map (code (rw_heap w')) bs = map (code (rw_heap w)) bs" "with_stores stores bs = bs"
    by (auto simp: with_stores_def intro: concat_map_singleton [THEN trans])
      (induction bs; auto)
qed

lemma rewrite_body_run:
  assumes "rewrite_body r w s = Some (Ok (True, w', s'))"
  obtains b w1 s1 e w2 w3 rewriter where "begin_part r w s = Ok (Some b, w1, s1)"
    and "end_part r (bp_locals b) w1 s1 = Ok (Some e, w2, s')"
    and "replace_returns (rw_isVoid r) (returnValueIndex (bp_locals b)) e w2 = Some (Ok w3)"
    and "add_clauses b e (exTypeRef s') (m_ILRewriter w3) = Ok rewriter"
    and "m_pHandlerBegin (bp_clause b) \<noteq> NULL" and "m_pHandlerBegin (ep_clause e) \<noteq> NULL"
    and "w' = w3 \<lparr>m_ILRewriter := rewriter\<rparr>"
proof -
  have ob: "obind_exec m f = Some (Ok y) \<longleftrightarrow> (\<exists>x. m = Some (Ok x) \<and> f x = Some (Ok y))" for m f y
    by (auto simp: obind_exec_def split: option.splits exec.splits)
  from assms show ?thesis
    using that unfolding rewrite_body_def by (auto simp: ob xbind_Ok_iff split: option.splits if_splits)
qed

text \<open>The list once the returns are replaced.\<close>

lemma replaced_list:
  assumes ring: "ring (m_ILRewriter w2) (pre @ ps @ post @ [mret])" and e: "ep_return e = mret"
    and pre: "map (code (rw_heap w2)) pre = pc" "list_all stays pc"
    and post: "map (code (rw_heap w2)) post = ec" "list_all stays ec"
    and ret: "code (rw_heap w2) mret = simple_code CEE_RET"
    and cut: "post = front @ ep_endFinally e # load"
  obtains w3 stores where "replace_returns isVoid idx e w2 = Some (Ok w3)"
    and "ring (m_ILRewriter w3) (pre @ with_stores stores ps @ post @ [mret])"
    and "map (code (rw_heap w3)) pre = pc" and "map (code (rw_heap w3)) post = ec"
    and "code (rw_heap w3) mret = simple_code CEE_RET"
    and "\<forall>p\<in>set ps. map (code (rw_heap w3)) (stores p @ [p]) = body_code isVoid idx (hd (load @ [mret])) (code (rw_heap w2) p)"
    and "m_nInstrs (m_ILRewriter w3) = m_nInstrs (m_ILRewriter w2) + of_nat (length (with_stores stores ps) - length ps)"
    and "same_header (m_ILRewriter w2) (m_ILRewriter w3)"
proof -
  let ?all = "pre @ ps @ post @ [mret]" and ?t = "hd (load @ [mret])"
  have "first_instr (m_ILRewriter w2) = right_of ?all"
    using ring_links(1) [of "m_ILRewriter w2" "[]" ?all] ring by (simp add: first_instr_def)
  then have start: "replace_returns isVoid idx e w2 = for_instrs m_ILRewriter (leave_instead isVoid idx e) (right_of ?all) w2"
    by (simp add: replace_returns_def)
  have "m_pNext (rw_heap w2 (left_of (pre @ ps @ front @ [ep_endFinally e]))) = right_of (load @ [mret])"
    by (rule ring_links(1)) (use ring cut in simp)
  then have nx: "m_pNext (rw_heap w2 (ep_endFinally e)) = ?t" by (cases load) simp_all
  have "?t = mret \<or> ?t \<in> set post" using cut by (cases load) auto
  moreover have "m_opcode (rw_heap w2 p) \<noteq> CEE_RET" if "p \<in> set post" for p
    using post that by (auto simp: list_all_iff stays_def code_def)
  ultimately have t: "?t = ep_return e \<or> m_opcode (rw_heap w2 ?t) \<noteq> CEE_RET" "?t \<in> set ([] @ ?all)" using e by auto
  have "ring (m_ILRewriter w2) ([] @ ?all)" "ep_endFinally e \<in> set ([] @ ?all)" using ring cut by auto
  from replace_loop [OF this nx t(2,1), of isVoid idx] obtain w3 stores
    where run: "replace_returns isVoid idx e w2 = Some (Ok w3)"
      and rep: "replaced isVoid idx (ep_return e) ?t w2 [] ?all stores w3" unfolding start by blast
  have qp: "list_all stays (map (code (rw_heap w2)) pre)" "list_all stays (map (code (rw_heap w2)) post)" using pre post by simp_all
  note P = replaced_quiet [of isVoid idx "ep_return e" ?t w2 "[]" pre "ps @ post @ [mret]", simplified, OF rep]
  note Q = replaced_quiet [of isVoid idx "ep_return e" ?t w2 "pre @ ps" post "[mret]", simplified, OF rep]
  have "map (code (rw_heap w3)) (stores mret @ [mret]) = [code (rw_heap w2) mret]"
    using rep e by (auto simp: replaced_def leave_code_def)
  then have r: "stores mret = []" "code (rw_heap w3) mret = simple_code CEE_RET" using ret by auto
  have d: "mret \<notin> set ps" using ring by (auto simp: ring_def)
  have ws: "with_stores stores ?all = pre @ with_stores stores ps @ post @ [mret]" using P Q r qp by (simp add: list.pred_map comp_def)
  show ?thesis
  proof (rule that [OF run])
    show "ring (m_ILRewriter w3) (pre @ with_stores stores ps @ post @ [mret])"
      using rep unfolding replaced_def ws by simp
    show "\<forall>p\<in>set ps. map (code (rw_heap w3)) (stores p @ [p]) = body_code isVoid idx ?t (code (rw_heap w2) p)"
    proof
      fix p assume p: "p \<in> set ps"
      then have "map (code (rw_heap w3)) (stores p @ [p]) = leave_code isVoid idx mret ?t (rw_heap w2) p"
        using rep e by (simp add: replaced_def)
      moreover have "p \<noteq> mret" using p d by metis
      ultimately show "map (code (rw_heap w3)) (stores p @ [p]) = body_code isVoid idx ?t (code (rw_heap w2) p)"
        by (simp add: leave_code_def body_code_def code_def)
    qed
    show "m_nInstrs (m_ILRewriter w3) = m_nInstrs (m_ILRewriter w2) + of_nat (length (with_stores stores ps) - length ps)"
      using rep unfolding replaced_def ws by simp
    show "same_header (m_ILRewriter w2) (m_ILRewriter w3)" using rep by (simp add: replaced_def)
    show "map (code (rw_heap w3)) pre = pc" using P qp by (simp add: list.pred_map comp_def flip: pre(1))
    show "map (code (rw_heap w3)) post = ec" using Q qp by (simp add: list.pred_map comp_def flip: post(1))
  qed (rule r)
qed

lemma relocal_facts:
  assumes "relocal w w0"
  shows "rw_heap w0 = rw_heap w" and "m_nInstrs (m_ILRewriter w0) = m_nInstrs (m_ILRewriter w)"
    and "m_nEH (m_ILRewriter w0) = m_nEH (m_ILRewriter w)" and "m_pEH (m_ILRewriter w0) = m_pEH (m_ILRewriter w)"
    and "m_flags (m_ILRewriter w0) = m_flags (m_ILRewriter w)"
    and "\<not> m_fGenerateTinyHeader (m_ILRewriter w0)"
  using assms by (auto simp: relocal_def SetTkLocalVarSig_def)

lemma add_clauses_run:
  assumes run: "add_clauses b e token rewriter = Ok rewriter'" and len: "length (eh_clauses rewriter) = unat (m_nEH rewriter)"
    and few: "unat (m_nEH rewriter) + 4 < 2 ^ 32"
    and nx: "m_pNext (heap rewriter (ep_rethrow e)) = behind"
  shows "eh_clauses rewriter' = eh_clauses rewriter @
      [bp_clause b, ep_clause e, catch_clause (bp_first b) (ep_catch e) (ep_rethrow e) token,
       finally_clause (bp_first b) behind (ep_endFinally e)]"
    and "m_nEH rewriter' = m_nEH rewriter + 4" and "heap rewriter' = heap rewriter" and "m_brk rewriter' = m_brk rewriter"
    and "m_nInstrs rewriter' = m_nInstrs rewriter" and "m_flags rewriter' = m_flags rewriter"
    and "m_fGenerateTinyHeader rewriter' = m_fGenerateTinyHeader rewriter"
    and "m_tkLocalVarSig rewriter' = m_tkLocalVarSig rewriter"
proof -
  let ?new = "[bp_clause b, ep_clause e, catch_clause (bp_first b) (ep_catch e) (ep_rethrow e) token,
       finally_clause (bp_first b) behind (ep_endFinally e)]"
  let ?ehs = "case m_pEH rewriter of None \<Rightarrow> [] | Some es \<Rightarrow> es"
  have r: "rewriter' = SetEHClause (Some (take (unat (m_nEH rewriter)) ?ehs @ ?new)) (m_nEH rewriter + 4) rewriter"
    using run nx by (simp add: add_clauses_def GetEHCount_def GetEHPointer_def Let_def split: if_splits)
  show "m_nEH rewriter' = m_nEH rewriter + 4" "heap rewriter' = heap rewriter" "m_brk rewriter' = m_brk rewriter"
    "m_nInstrs rewriter' = m_nInstrs rewriter" "m_flags rewriter' = m_flags rewriter"
    "m_fGenerateTinyHeader rewriter' = m_fGenerateTinyHeader rewriter" "m_tkLocalVarSig rewriter' = m_tkLocalVarSig rewriter"
    unfolding r by (simp_all add: SetEHClause_def Let_def)
  have old: "take (unat (m_nEH rewriter)) ?ehs = eh_clauses rewriter" by (simp add: eh_clauses_def split: option.splits)
  have "unat (m_nEH rewriter + 4) = unat (m_nEH rewriter) + 4"
    using few by (simp add: unat_word_ariths)
  then show "eh_clauses rewriter' = eh_clauses rewriter @ ?new"
    using len unfolding r old by (auto simp: SetEHClause_def Let_def eh_clauses_def)
qed

text \<open>The list once both parts are written.\<close>

lemma parts_run:
  assumes bp: "begin_part r w s = Ok (Some b, w1, s1)" and ep: "end_part r (bp_locals b) w1 s1 = Ok (Some e, w2, s')"
    and a: "at w [] ps"
  obtains pre pc post ec where "begins r (right_of ps) b pre pc" and "ends r (bp_locals b) e post ec"
    and "ring (m_ILRewriter w2) (pre @ ps @ post @ [ep_return e])"
    and "map (code (rw_heap w2)) pre = pc" and "list_all stays pc" and "map (code (rw_heap w2)) post = ec" and "list_all stays ec"
    and "code (rw_heap w2) (ep_return e) = simple_code CEE_RET"
    and "\<forall>q\<in>set ps. code (rw_heap w2) q = code (rw_heap w) q"
    and "m_nInstrs (m_ILRewriter w2) = m_nInstrs (m_ILRewriter w) + of_nat (length pre + length post + 1)"
    and "m_nEH (m_ILRewriter w2) = m_nEH (m_ILRewriter w)" and "eh_clauses (m_ILRewriter w2) = eh_clauses (m_ILRewriter w)"
    and "m_flags (m_ILRewriter w2) = m_flags (m_ILRewriter w)" and "\<not> m_fGenerateTinyHeader (m_ILRewriter w2)"
proof -
  obtain w0 pre pc where rl: "relocal w w0" and g1: "grows w0 [] ps w1 pre pc" and B: "begins r (right_of ps) b pre pc"
    using begin_part_run [OF bp a] .
  note R = relocal_facts [OF rl]
  note G1 = growsD [OF g1, simplified]
  have ring1: "ring (m_ILRewriter w1) (pre @ ps)" using G1(2) by simp
  let ?ret = "ep_return e"
  obtain w1' post ec where ap: "append_return w1 = (?ret, w1')" and g2: "grows w1' (pre @ ps) [?ret] w2 post ec"
    and E: "ends r (bp_locals b) e post ec"
    using end_part_run [OF ep ring1] .
  note A = append_return_run [OF ring1 ap]
  note G2 = growsD [OF g2]
  have codes: "code (rw_heap w2) q = code (rw_heap w1) q" if "q \<in> set (pre @ ps)" for q
    using G2(5) [of q] A(3) [OF that] that by simp
  have handled: "list_all stays (handled_code body t log)" if "list_all quiet body" "list_all quiet log" for body t log
    using quiet_stays [OF that(1)] quiet_stays [OF that(2)] by (simp add: handled_code_def stays_def)
  have one: "stays (st_loc k)" "stays (simple_code CEE_RETHROW)" "stays (simple_code CEE_ENDFINALLY)" for k
    using quiet_stays [of "[st_loc k, simple_code CEE_RETHROW, simple_code CEE_ENDFINALLY]"] by simp_all
  have hdr: "same_header (m_ILRewriter w0) (m_ILRewriter w2)"
    using same_header_trans [OF same_header_trans [OF G1(7) A(5)] G2(7)] .
  show ?thesis
  proof (rule that [OF B E])
    show "map (code (rw_heap w2)) pre = pc" using codes G1(3) by (auto intro: trans [OF map_cong])
    show "list_all stays pc"
      using B quiet_stays [OF quiet_parts(1)] handled quiet_parts(2,5) unfolding begins_def by fastforce
    show "list_all stays ec"
      using E quiet_stays [OF quiet_parts(4)] handled quiet_parts(3,5) one unfolding ends_def by fastforce
    show "\<forall>q\<in>set ps. code (rw_heap w2) q = code (rw_heap w) q" using codes G1(5) R(1) by simp
    show "code (rw_heap w2) ?ret = simple_code CEE_RET" using G2(5) [of ?ret] A(2) by simp
    show "m_nInstrs (m_ILRewriter w2) = m_nInstrs (m_ILRewriter w) + of_nat (length pre + length post + 1)"
      by (simp add: G2(6) A(4) G1(6) R(2))
  qed (use G2(2,3) hdr R in \<open>simp_all add: same_header_def eh_clauses_def split: option.split\<close>)
qed

lemma rewrite_body_wraps:
  assumes run: "rewrite_body r w s = Some (Ok (True, w', s'))" and a: "at w [] ps"
    and eh: "length (eh_clauses (m_ILRewriter w)) = unat (m_nEH (m_ILRewriter w))" "unat (m_nEH (m_ILRewriter w)) + 4 < 2 ^ 32"
  shows "\<exists>x. wraps r (m_ILRewriter w) ps (m_ILRewriter w') x"
proof -
  obtain b w1 s1 e w2 w3 rewriter where bp: "begin_part r w s = Ok (Some b, w1, s1)"
    and ep: "end_part r (bp_locals b) w1 s1 = Ok (Some e, w2, s')"
    and rr: "replace_returns (rw_isVoid r) (returnValueIndex (bp_locals b)) e w2 = Some (Ok w3)"
    and ac: "add_clauses b e (exTypeRef s') (m_ILRewriter w3) = Ok rewriter"
    and nn: "m_pHandlerBegin (bp_clause b) \<noteq> NULL" "m_pHandlerBegin (ep_clause e) \<noteq> NULL"
    and w': "w' = w3 \<lparr>m_ILRewriter := rewriter\<rparr>"
    using rewrite_body_run [OF run] by metis
  let ?ret = "ep_return e"
  obtain pre pc post ec where B: "begins r (right_of ps) b pre pc" and E: "ends r (bp_locals b) e post ec"
    and ring2: "ring (m_ILRewriter w2) (pre @ ps @ post @ [?ret])"
    and opc: "map (code (rw_heap w2)) pre = pc" and spc: "list_all stays pc"
    and oec: "map (code (rw_heap w2)) post = ec" and sec: "list_all stays ec" and oret: "code (rw_heap w2) ?ret = simple_code CEE_RET"
    and ops: "\<forall>q\<in>set ps. code (rw_heap w2) q = code (rw_heap w) q"
    and n2: "m_nInstrs (m_ILRewriter w2) = m_nInstrs (m_ILRewriter w) + of_nat (length pre + length post + 1)"
    and eq2: "m_nEH (m_ILRewriter w2) = m_nEH (m_ILRewriter w)" "eh_clauses (m_ILRewriter w2) = eh_clauses (m_ILRewriter w)"
      "m_flags (m_ILRewriter w2) = m_flags (m_ILRewriter w)" "\<not> m_fGenerateTinyHeader (m_ILRewriter w2)"
    by (rule parts_run [OF bp ep a])
  obtain init call1 leave1 h1 over1 catch1 log1c type1 icode body1
    where pre: "pre = init @ call1 @ leave1 # h1 @ [over1]" and pc: "pc = icode @ handled_code body1 (right_of ps) log1c"
      and ic: "locals_code (bp_locals b) icode" "begin_code r (bp_locals b) body1" "length init = length icode"
        "length call1 = length body1" "bp_first b = hd init"
      and h1: "wrote_call catch1 h1 log1c" and c1: "bp_clause b = catch_clause (bp_first b) (or_null catch1) over1 type1"
    using B unfolding begins_def by auto
  obtain call2 leave2 h2 over2 catch2 log2c type2 body2 load
    where post: "post = ep_catch e # ep_rethrow e # (call2 @ leave2 # h2 @ [over2]) @ ep_endFinally e # load"
      and ec: "ec = st_loc (exceptionIndex (bp_locals b)) # simple_code CEE_RETHROW # handled_code body2 (ep_endFinally e) log2c @
         simple_code CEE_ENDFINALLY # return_code r (bp_locals b)"
      and e2: "end_code r (bp_locals b) body2" "length call2 = length body2" "call2 \<noteq> []"
      and h2: "wrote_call catch2 h2 log2c" and c2: "ep_clause e = catch_clause (hd call2) (or_null catch2) over2 type2"
    using E unfolding ends_def by auto
  obtain log1 token1 where l1: "catch1 = Some log1" "h1 = [log1]" "log1c = [token_code CEE_CALL token1]"
    using nn(1) c1 h1 by (cases catch1) (auto simp: catch_clause_def or_null_def wrote_call_def)
  obtain log2 token2 where l2: "catch2 = Some log2" "h2 = [log2]" "log2c = [token_code CEE_CALL token2]"
    using nn(2) c2 h2 by (cases catch2) (auto simp: catch_clause_def or_null_def wrote_call_def)
  have cut: "post = (ep_catch e # ep_rethrow e # call2 @ leave2 # h2 @ [over2]) @ ep_endFinally e # load" by (simp add: post)
  obtain w3' stores where rr': "replace_returns (rw_isVoid r) (returnValueIndex (bp_locals b)) e w2 = Some (Ok w3')"
    and ring3: "ring (m_ILRewriter w3') (pre @ with_stores stores ps @ post @ [?ret])"
    and m3: "map (code (rw_heap w3')) pre = pc" "map (code (rw_heap w3')) post = ec" "code (rw_heap w3') ?ret = simple_code CEE_RET"
    and body: "\<forall>p\<in>set ps. map (code (rw_heap w3')) (stores p @ [p]) =
      body_code (rw_isVoid r) (returnValueIndex (bp_locals b)) (hd (load @ [?ret])) (code (rw_heap w2) p)"
    and n3: "m_nInstrs (m_ILRewriter w3') = m_nInstrs (m_ILRewriter w2) + of_nat (length (with_stores stores ps) - length ps)"
    and hdr3: "same_header (m_ILRewriter w2) (m_ILRewriter w3')"
    using replaced_list [OF ring2 refl opc spc oec sec oret cut] .
  have "w3' = w3" using rr rr' by simp
  note ring3 = ring3 [unfolded this] and m3 = m3 [unfolded this] and body = body [unfolded this] and n3 = n3 [unfolded this]
    and hdr3 = hdr3 [unfolded this]
  have eq: "m_nEH (m_ILRewriter w3) = m_nEH (m_ILRewriter w)" "eh_clauses (m_ILRewriter w3) = eh_clauses (m_ILRewriter w)"
    "m_flags (m_ILRewriter w3) = m_flags (m_ILRewriter w)" "\<not> m_fGenerateTinyHeader (m_ILRewriter w3)"
    using hdr3 eq2 by (simp_all add: same_header_def eh_clauses_def split: option.splits)
  have "m_pNext (rw_heap w3 (left_of (pre @ with_stores stores ps @ [ep_catch e, ep_rethrow e]))) =
      right_of (call2 @ leave2 # h2 @ over2 # ep_endFinally e # load @ [?ret])"
    by (rule ring_links(1)) (use ring3 post in simp)
  then have behind: "m_pNext (rw_heap w3 (ep_rethrow e)) = hd call2" using e2(3) by simp
  note C = add_clauses_run [OF ac _ _ behind, unfolded eq, OF eh]
  define x where "x = \<lparr>wr_locals = bp_locals b, wr_init = init, wr_init_code = icode,
     wr_before = \<lparr>hc_call = call1, hc_leave = leave1, hc_log = log1, hc_over = over1, hc_code = body1, hc_log_token = token1,
       hc_type = type1\<rparr>,
     wr_stores = stores, wr_catch = ep_catch e, wr_rethrow = ep_rethrow e, wr_type = exTypeRef s',
     wr_behind = \<lparr>hc_call = call2, hc_leave = leave2, hc_log = log2, hc_over = over2, hc_code = body2, hc_log_token = token2,
       hc_type = type2\<rparr>,
     wr_finally = ep_endFinally e, wr_load = load, wr_return = ?ret\<rparr>"
  have front: "wrapped_front x = pre" and rear: "wrapped_back x = post @ [?ret]"
    and qs: "wrapped_list ps x = pre @ with_stores stores ps @ post @ [?ret]"
    by (simp_all add: x_def wrapped_list_def wrapped_front_def wrapped_back_def handled_list_def pre post l1 l2)
  have h: "heap rewriter = rw_heap w3" by (rule C(3))
  have wl: "length ps \<le> length (with_stores stores ps)" by (induction ps) auto
  have "wraps r (m_ILRewriter w) ps rewriter x"
    unfolding wraps_def front rear
  proof (intro conjI)
    show "ring rewriter (wrapped_list ps x)" using ring3 C(3,4) unfolding qs by (simp add: ring_def)
    show "map (code (heap rewriter)) pre = wr_init_code x @ handled_codes (wr_before x) (right_of ps)"
      using m3(1) by (simp add: h pc l1 x_def handled_codes_def)
    show "\<forall>p\<in>set ps. map (code (heap rewriter)) (wr_stores x p @ [p]) =
        body_code (rw_isVoid r) (returnValueIndex (wr_locals x)) (wrapped_exit x) (code (rw_heap w) p)"
      using body ops unfolding h by (simp add: x_def wrapped_exit_def)
    show "map (code (heap rewriter)) (post @ [?ret]) =
       [st_loc (exceptionIndex (wr_locals x)), simple_code CEE_RETHROW] @
       handled_codes (wr_behind x) (wr_finally x) @ [simple_code CEE_ENDFINALLY] @
       return_code r (wr_locals x) @ [simple_code CEE_RET]"
      using m3(2,3) by (simp add: h ec l2 x_def handled_codes_def)
    show "eh_clauses rewriter = eh_clauses (m_ILRewriter w) @ wrapped_clauses x"
      using C(1) c1 c2 ic(5) by (simp add: l1 l2 or_null_def x_def wrapped_clauses_def Let_def)
    show "m_nInstrs rewriter = m_nInstrs (m_ILRewriter w) + of_nat (length (wrapped_list ps x) - length ps)"
      using wl by (simp add: C(5) n3 n2 qs of_nat_diff) 
  qed (use C ic e2 eq in \<open>simp_all add: x_def\<close>)
  then show ?thesis unfolding w' by auto
qed

section \<open>The rewritten list can be exported\<close>

text \<open>How many instructions the rewriting adds at most, besides the stores in front of the returns.\<close>

definition overhead :: "Rewriting \<Rightarrow> nat" where
  "overhead r = 40 + 5 * rw_numArgs r"

lemma length_args: "args_code isStatic n cs \<Longrightarrow> length cs \<le> 2 + 5 * n"
proof (cases "n < FASTPATH_COUNT")
  case False
  assume "args_code isStatic n cs"
  then obtain token and boxes :: "mdToken option list" where l: "length boxes = n"
    and cs: "cs = [int_code (of_nat n), token_code CEE_NEWARR token] @ concat (map2 (array_arg_code isStatic) [0..<n] boxes)"
    using False by (auto simp: args_code_def)
  have box: "length (box_code b) \<le> 1" for b by (cases b) simp_all
  have "length (concat (map2 (array_arg_code isStatic) is boxes)) \<le> 5 * length is"
    if "length boxes = length is" for boxes :: "mdToken option list" and "is"
    using that
  proof (induction boxes "is" rule: list_induct2)
    case (Cons b boxes i "is")
    then show ?case using box [of b] by (simp add: array_arg_code_def)
  qed simp
  from this [of boxes "[0..<n]"] show ?thesis using l by (simp add: cs)
qed (auto simp: args_code_def)

lemma length_may_call: "may_call cs \<Longrightarrow> length cs \<le> 1"
  by (auto simp: may_call_def)

lemma length_parts:
  "locals_code locals cs \<Longrightarrow> length cs \<le> 6" "begin_code r locals cs \<Longrightarrow> length cs \<le> 6 + 5 * rw_numArgs r"
  "end_code r locals cs \<Longrightarrow> length cs \<le> 10"
proof -
  have inst: "length (instance_code isStatic t) \<le> 2" for isStatic t by (simp add: instance_code_def)
  show "locals_code locals cs \<Longrightarrow> length cs \<le> 6" by (auto simp: locals_code_def)
  show "begin_code r locals cs \<Longrightarrow> length cs \<le> 6 + 5 * rw_numArgs r"
    using inst [of "rw_isStatic r" "rw_type r"] length_args by (fastforce simp: begin_code_def)
  show "end_code r locals cs \<Longrightarrow> length cs \<le> 10"
    using inst [of "rw_isStatic r" "rw_type r"] by (auto simp: end_code_def end_method_code_def dest!: length_may_call)
qed

lemma length_with_stores:
  assumes "\<And>p. p \<in> set ps \<Longrightarrow> length (stores p) \<le> 1"
  shows "length ps \<le> length (with_stores stores ps)" and "length (with_stores stores ps) \<le> 2 * length ps"
proof -
  show "length ps \<le> length (with_stores stores ps)" by (induction ps) auto
  show "length (with_stores stores ps) \<le> 2 * length ps" using assms by (induction ps) fastforce+
qed

text \<open>What is said of the code of an instruction of the method, and of the stores in front of it.\<close>

lemma body_code_cases:
  assumes "map (code h') (new @ [p]) = body_code isVoid idx target c"
  shows "code h' p = c \<and> fst c \<noteq> CEE_RET \<or> code h' p = (CEE_LEAVE_S, Target target) \<and> fst c = CEE_RET"
    and "list_all quiet (map (code h') new)" and "length new \<le> 1"
  using assms by (auto simp: body_code_def Cons_eq_append_conv append_eq_Cons_conv split: if_splits)

lemma wraps_length:
  assumes "wraps r s ps s' x"
  shows "length ps \<le> length (wrapped_list ps x)" and "length (wrapped_list ps x) \<le> 2 * length ps + overhead r"
proof -
  note W = assms [unfolded wraps_def]
  have "length (wr_stores x p) \<le> 1" if "p \<in> set ps" for p
    using W that by (meson body_code_cases(3))
  then have S: "length ps \<le> length (with_stores (wr_stores x) ps)" "length (with_stores (wr_stores x) ps) \<le> 2 * length ps"
    using length_with_stores [of ps "wr_stores x"] by blast+
  show "length ps \<le> length (wrapped_list ps x)" using S(1) by (simp add: wrapped_list_def)
  from W have rear: "map (code (heap s')) (wrapped_back x) = [st_loc (exceptionIndex (wr_locals x)), simple_code CEE_RETHROW] @
       handled_codes (wr_behind x) (wr_finally x) @ [simple_code CEE_ENDFINALLY] @
       return_code r (wr_locals x) @ [simple_code CEE_RET]" and e: "end_code r (wr_locals x) (hc_code (wr_behind x))"
    by blast+
  have "length (wrapped_back x) = 7 + length (hc_code (wr_behind x)) + length (return_code r (wr_locals x))"
    using arg_cong [OF rear, of length] by (simp add: handled_codes_def handled_code_def)
  then have "length (wrapped_back x) \<le> 18" using length_parts(3) [OF e] by (simp add: return_code_def)
  moreover have "length (wrapped_front x) \<le> 15 + 5 * rw_numArgs r"
    using W length_parts(1) [of "wr_locals x" "wr_init_code x"] length_parts(2) [of r "wr_locals x" "hc_code (wr_before x)"]
    by (simp add: wrapped_front_def handled_list_def)
  ultimately show "length (wrapped_list ps x) \<le> 2 * length ps + overhead r"
    using S(2) by (simp add: wrapped_list_def overhead_def)
qed

text \<open>An instruction that can be exported in a list: known, and pointing into it if it is a jump.\<close>

definition sound_code :: "heap \<Rightarrow> ptr list \<Rightarrow> code \<Rightarrow> bool" where
  "sound_code h ps c \<longleftrightarrow> known_opcode (fst c) \<and>
     (has_target (fst c) \<longrightarrow> (\<exists>t. snd c = Target t \<and> (t = il_head \<or> t \<in> set ps \<and> m_opcode (h t) \<noteq> CEE_SWITCH_ARG)))"

lemma quiet_sound: "list_all quiet cs \<Longrightarrow> list_all (sound_code h ps) cs"
  by (auto simp: list_all_iff quiet_def sound_code_def)

lemma sound_points: "(\<forall>p\<in>set ps. known_opcode (m_opcode (h p))) \<and> points_into h ps \<longleftrightarrow> list_all (sound_code h ps) (map (code h) ps)"
  by (auto simp: points_into_def sound_code_def code_def list_all_iff)

lemma known_LEAVE_S: "known_opcode CEE_LEAVE_S"
  by (simp add: known_opcode_def)

lemma known_RET: "known_opcode CEE_RET" "\<not> has_target CEE_RET"
proof -
  have "plain (set_opcode CEE_RET)" by (rule plain_opcode) simp_all
  then show "known_opcode CEE_RET" "\<not> has_target CEE_RET" by (simp_all add: plain_def)
qed

lemma not_switch_arg: "quiet c \<Longrightarrow> fst c \<noteq> CEE_SWITCH_ARG"
  using has_target_SWITCH_ARG by (auto simp: quiet_def)

lemma sound_handled:
  assumes "list_all quiet (hc_code c)" and "t = il_head \<or> t \<in> set ps \<and> m_opcode (h t) \<noteq> CEE_SWITCH_ARG"
  shows "list_all (sound_code h ps) (handled_codes c t)"
  using quiet_sound [OF assms(1)] quiet_sound [of "[token_code CEE_CALL (hc_log_token c)]"] assms(2) known_LEAVE_S
  by (simp add: handled_codes_def handled_code_def sound_code_def)

lemma wraps_rewritable:
  assumes W: "wraps r s ps s' x" and rw: "rewritable s ps"
    and first: "ps \<noteq> [] \<Longrightarrow> m_opcode (heap s (hd ps)) \<noteq> CEE_SWITCH_ARG"
    and room: "10 * (unat (m_nInstrs s) + length ps + overhead r) + 2 ^ 25 < 2 ^ 32"
    and few: "4 + 24 * (unat (m_nEH s) + 4) < 2 ^ 24"
  shows "rewritable s' (wrapped_list ps x)"
proof -
  let ?h = "heap s'" and ?qs = "wrapped_list ps x"
  have ring: "ring s' ?qs" and front: "map (code ?h) (wrapped_front x) = wr_init_code x @ handled_codes (wr_before x) (right_of ps)"
    and mid: "\<And>p. p \<in> set ps \<Longrightarrow> map (code ?h) (wr_stores x p @ [p]) =
        body_code (rw_isVoid r) (returnValueIndex (wr_locals x)) (wrapped_exit x) (code (heap s) p)"
    and rear: "map (code ?h) (wrapped_back x) = [st_loc (exceptionIndex (wr_locals x)), simple_code CEE_RETHROW] @
       handled_codes (wr_behind x) (wr_finally x) @ [simple_code CEE_ENDFINALLY] @
       return_code r (wr_locals x) @ [simple_code CEE_RET]"
    and parts: "locals_code (wr_locals x) (wr_init_code x)" "begin_code r (wr_locals x) (hc_code (wr_before x))"
      "end_code r (wr_locals x) (hc_code (wr_behind x))"
    and n: "m_nInstrs s' = m_nInstrs s + of_nat (length ?qs - length ps)"
    using W by (simp_all add: wraps_def)
  note L = wraps_length [OF W]
  have old: "ring s ps" "length ps \<le> unat (m_nInstrs s)" "readable s"
    "list_all (sound_code (heap s) ps) (map (code (heap s)) ps)"
    using rw sound_points [of ps "heap s"] by (auto simp: rewritable_def exportable_def)
  have d: "distinct ?qs" "il_head \<notin> set ?qs" using ring by (auto simp: ring_def)
  have inq: "p \<in> set ?qs" if "p \<in> set ps" for p
    using that unfolding wrapped_list_def with_stores_def by auto
  have same: "m_opcode (?h p) \<noteq> CEE_SWITCH_ARG" if "p \<in> set ps" "m_opcode (heap s p) \<noteq> CEE_SWITCH_ARG" for p
    using body_code_cases(1) [OF mid [OF that(1)]] that(2) by (auto simp: code_def)
  have "right_of ps = il_head \<or> right_of ps \<in> set ?qs \<and> m_opcode (?h (right_of ps)) \<noteq> CEE_SWITCH_ARG"
    using first same inq by (cases ps) auto
  then have F: "list_all (sound_code ?h ?qs) (map (code ?h) (wrapped_front x))"
    unfolding front using quiet_sound [OF quiet_parts(1) [OF parts(1)]] sound_handled quiet_parts(2) [OF parts(2)] by simp
  have ops: "map (m_opcode \<circ> ?h) (wrapped_back x) = map fst ([st_loc (exceptionIndex (wr_locals x)), simple_code CEE_RETHROW] @
       handled_codes (wr_behind x) (wr_finally x) @ [simple_code CEE_ENDFINALLY] @ return_code r (wr_locals x) @ [simple_code CEE_RET])"
    using arg_cong [OF rear, of "map fst"] by (simp add: code_def comp_def)
  have nsa: "\<forall>p\<in>set (wrapped_back x). m_opcode (?h p) \<noteq> CEE_SWITCH_ARG"
  proof -
    have q: "list_all (\<lambda>c. fst c \<noteq> CEE_SWITCH_ARG) cs" if "list_all quiet cs" for cs
      using that not_switch_arg by (auto simp: list_all_iff)
    have ret: "fst (simple_code CEE_RET) \<noteq> CEE_SWITCH_ARG" by (simp add: simple_code_def op_code_def)
    have "list_all (\<lambda>c. fst c \<noteq> CEE_SWITCH_ARG) ([st_loc (exceptionIndex (wr_locals x)), simple_code CEE_RETHROW] @
       handled_codes (wr_behind x) (wr_finally x) @ [simple_code CEE_ENDFINALLY] @ return_code r (wr_locals x) @ [simple_code CEE_RET])"
      using q [OF quiet_parts(3) [OF parts(3)]] q [OF quiet_parts(4)] q [of "[st_loc k, simple_code CEE_RETHROW, simple_code CEE_ENDFINALLY, token_code CEE_CALL token]" for k token] ret
      by (simp add: handled_codes_def handled_code_def)
    then have "list_all (\<lambda>c. fst c \<noteq> CEE_SWITCH_ARG) (map (code ?h) (wrapped_back x))" unfolding rear .
    then show ?thesis by (auto simp: list_all_iff code_def)
  qed
  have ex: "wrapped_exit x \<in> set (wrapped_back x)" "wr_finally x \<in> set (wrapped_back x)"
    by (cases "wr_load x"; simp add: wrapped_exit_def wrapped_back_def)+
  then have tgt: "t \<in> set ?qs \<and> m_opcode (?h t) \<noteq> CEE_SWITCH_ARG" if "t = wrapped_exit x \<or> t = wr_finally x" for t
    using nsa that by (auto simp: wrapped_list_def)
  have ret: "sound_code ?h ?qs (simple_code CEE_RET)" using known_RET by (simp add: sound_code_def simple_code_def op_code_def)
  have B: "list_all (sound_code ?h ?qs) (map (code ?h) (wrapped_back x))"
    unfolding rear using quiet_sound [OF quiet_parts(4)] sound_handled quiet_parts(3) [OF parts(3)] tgt ret
      quiet_sound [of "[st_loc k, simple_code CEE_RETHROW, simple_code CEE_ENDFINALLY]" for k] by simp
  have one: "list_all (sound_code ?h ?qs) (map (code ?h) (wr_stores x p @ [p]))" if p: "p \<in> set ps" for p
  proof -
    have "sound_code ?h ?qs (code ?h p)"
      using body_code_cases(1) [OF mid [OF p]]
    proof
      assume a: "code ?h p = code (heap s) p \<and> fst (code (heap s) p) \<noteq> CEE_RET"
      have "sound_code (heap s) ps (code (heap s) p)" using old(4) p by (auto simp: list_all_iff)
      then show ?thesis using a same inq unfolding sound_code_def by metis
    next
      assume "code ?h p = (CEE_LEAVE_S, Target (wrapped_exit x)) \<and> fst (code (heap s) p) = CEE_RET"
      then show ?thesis using tgt known_LEAVE_S by (simp add: sound_code_def)
    qed
    then show ?thesis using quiet_sound [OF body_code_cases(2) [OF mid [OF p]]] by simp
  qed
  have "list_all (sound_code ?h ?qs) (map (code ?h) (with_stores (wr_stores x) ps))"
    using one by (auto simp: with_stores_def list_all_iff)
  then have "list_all (sound_code ?h ?qs) (map (code ?h) ?qs)" using F B by (simp add: wrapped_list_def)
  note P = this [folded sound_points]
  have k: "unat (m_nInstrs s') = unat (m_nInstrs s) + (length ?qs - length ps)"
  proof -
    have "unat (of_nat (length ?qs - length ps) :: u32) = length ?qs - length ps"
      using L room by (intro unat_of_nat_small) simp
    then show ?thesis unfolding n using L room by (simp add: unat_word_ariths(1))
  qed
  have "length ?qs \<le> unat (m_nInstrs s')" "unat (m_nInstrs s') \<le> unat (m_nInstrs s) + length ps + overhead r"
    using k L old(2) by linarith+
  moreover have "10 * unat (m_nInstrs s') + 2 ^ 25 < (2 ^ 32 :: nat)" using calculation(2) room by simp
  ultimately have "exportable s' ?qs" using ring P by (simp add: exportable_def)
  moreover have "readable s'"
    using W old(3) few by (auto simp: readable_def wraps_def wrapped_clauses_def Let_def unat_word_ariths)
  ultimately show ?thesis using P by (simp add: rewritable_def)
qed

text \<open>The rewriting of a body that was imported, from its first instruction.\<close>

abbreviation from_start :: "ILRewriter \<Rightarrow> ILRewriterWrapper" where
  "from_start s \<equiv> SetILPosition (first_instr s) (new_ILRewriterWrapper s)"

lemma from_start_at:
  assumes "ring s ps"
  shows "at (from_start s) [] ps"
  using assms ring_links(1) [of s "[]" ps] by (simp add: at_def SetILPosition_def new_ILRewriterWrapper_def first_instr_def)

lemma from_start_rewriter [simp]: "m_ILRewriter (from_start s) = s"
  by (simp add: SetILPosition_def new_ILRewriterWrapper_def)

lemma rewriting_numArgs: "rewriting_of env type_ref caller = Ok r \<Longrightarrow> rw_numArgs r = unat (numberOfArguments (fi_method_signature caller))"
  by (auto simp: rewriting_of_def xbind_Ok_iff Let_def split: prod.splits)

lemma rewritten_rewritable:
  assumes h: "holds s ps body d" and rb: "rewrite_body r (from_start s) tk = Some (Ok (True, w', s1))"
    and size: "10 * (2 * unat (dec_CodeSize d) + overhead r) + 2 ^ 25 < 2 ^ 32"
    and few: "4 + 24 * (unat (dec_EHCount body d) + 4) < 2 ^ 24"
  obtains x where "wraps r s ps (m_ILRewriter w') x" and "rewritable (m_ILRewriter w') (wrapped_list ps x)"
proof -
  have small: "10 * unat (dec_CodeSize d) + 2 ^ 25 < 2 ^ 32" using size by simp
  note X = holds_exportable [OF h small]
  have sp: "spells s ps (code_of body d)" using h by (simp add: holds_def)
  then have ring: "ring s ps" and pts: "points_into (heap s) ps" by (simp_all add: spells_def)
  have len: "length ps \<le> unat (dec_CodeSize d)" using spells_length [OF sp] X(3) by simp
  have n: "unat (m_nInstrs s) = length ps" using h len small by (simp add: holds_def unat_of_nat_small)
  have eh: "length (eh_clauses s) = unat (m_nEH s)" "m_nEH s = dec_EHCount body d" using h by (simp_all add: holds_def)
  obtain x where W: "wraps r s ps (m_ILRewriter w') x"
    using rewrite_body_wraps [OF rb from_start_at [OF ring]] eh few by auto
  show ?thesis
  proof (rule that [OF W], rule wraps_rewritable [OF W])
    show "rewritable s ps" using X pts by (simp add: rewritable_def)
    show "ps \<noteq> [] \<Longrightarrow> m_opcode (heap s (hd ps)) \<noteq> CEE_SWITCH_ARG" using h by (simp add: holds_def table_ok_def)
    show "10 * (unat (m_nInstrs s) + length ps + overhead r) + 2 ^ 25 < 2 ^ 32" using size len n by simp
    show "4 + 24 * (unat (m_nEH s) + 4) < 2 ^ 24" using few eh by simp
  qed
qed

end
