(* ===== verification/CallTargetRuns.thy ===== *)
theory CallTargetRuns
  imports CallTargetShape
begin

text \<open>
  When \<^verbatim>\<open>CallTarget_RewriterCallback\<close> succeeds: if the metadata answers every request and the
  method is one the code supports, each part of the callback ends with a result, no buffer is
  overrun, and the method is rewritten.
\<close>

section \<open>Requests that succeed\<close>

text \<open>Every request succeeds and stores a token; the property of the core library is there.\<close>

definition answers :: "TokenEnv \<Rightarrow> bool" where
  "answers env \<longleftrightarrow> cor_property env \<noteq> None \<and>
     (\<forall>reqs call. \<exists>hr t. answer env reqs call = (hr, Some t) \<and> \<not> FAILED hr)"

definition succeeds :: "'a tk \<Rightarrow> ('a \<Rightarrow> bool) \<Rightarrow> bool" where
  "succeeds m Q \<longleftrightarrow> (\<forall>s. \<exists>x s'. m s = Ok (x, s') \<and> Q x)"

abbreviation done_well :: "hresult tk \<Rightarrow> bool" where
  "done_well m \<equiv> succeeds m (\<lambda>hr. \<not> FAILED hr)"

abbreviation ends_well :: "'a tk \<Rightarrow> bool" where
  "ends_well m \<equiv> succeeds m (\<lambda>_. True)"

lemma succeedsD: "succeeds m Q \<Longrightarrow> \<exists>x s'. m s = Ok (x, s') \<and> Q x"
  by (simp add: succeeds_def)

lemma succeeds_mono: "succeeds m P \<Longrightarrow> (\<And>x. P x \<Longrightarrow> Q x) \<Longrightarrow> succeeds m Q"
  unfolding succeeds_def by blast

lemma succeeds_return: "Q x \<Longrightarrow> succeeds (tk_return x) Q"
  by (simp add: succeeds_def tk_return_def)

lemma succeeds_bind: "succeeds m P \<Longrightarrow> (\<And>x. P x \<Longrightarrow> succeeds (f x) Q) \<Longrightarrow> succeeds (tk_bind m f) Q"
  unfolding succeeds_def tk_bind_def by (force simp: xbind_Ok_iff)

lemma succeeds_get: "(\<And>s. Q (f s)) \<Longrightarrow> succeeds (tk_get f) Q"
  by (simp add: succeeds_def tk_get_def)

lemma succeeds_get_bind: "(\<And>s. succeeds (k (f s)) Q) \<Longrightarrow> succeeds (tk_bind (tk_get f) k) Q"
  by (rule succeeds_bind [OF succeeds_get [where Q = "\<lambda>x. \<exists>s. x = f s"]]) auto

lemma succeeds_lift: "m = Ok x \<Longrightarrow> Q x \<Longrightarrow> succeeds (tk_lift m) Q"
  by (simp add: succeeds_def tk_lift_def)

lemma succeeds_buffered_bind:
  assumes "length b \<le> signatureBufferSize" and "n \<le> length b" and "\<And>sig. succeeds (k sig) Q"
  shows "succeeds (tk_bind (tk_lift (buffered b n)) k) Q"
  by (rule succeeds_bind [OF succeeds_lift [where x = "take n b" and Q = "\<lambda>_. True"]])
    (use assms in \<open>simp_all add: buffered_Ok\<close>)

lemma succeeds_unless_failed: "done_well m \<Longrightarrow> succeeds k Q \<Longrightarrow> succeeds (unless_failed m r k) Q"
  unfolding unless_failed_def by (rule succeeds_bind [of m "\<lambda>hr. \<not> FAILED hr"]) auto

lemma done_in_turn: "list_all done_well ms \<Longrightarrow> done_well (in_turn ms)"
proof (induction ms)
  case (Cons m ms)
  then show ?case unfolding in_turn.simps by (intro succeeds_bind [of m "\<lambda>hr. \<not> FAILED hr"]) auto
qed (simp add: succeeds_return)

lemma done_list: "list_all done_well []" "done_well m \<Longrightarrow> list_all done_well ms \<Longrightarrow> list_all done_well (m # ms)"
  by simp_all

lemma succeeds_if: "(b \<Longrightarrow> succeeds m Q) \<Longrightarrow> (\<not> b \<Longrightarrow> succeeds k Q) \<Longrightarrow> succeeds (if b then m else k) Q"
  by simp

lemma done_emit: "answers env \<Longrightarrow> done_well (emit env put call)"
  unfolding succeeds_def emit_def answers_def by (auto simp: Let_def split: prod.splits) (metis prod.inject)

lemma succeeds_define_local:
  "answers env \<Longrightarrow> (\<And>hr t. \<not> FAILED hr \<Longrightarrow> Q (hr, t)) \<Longrightarrow> succeeds (define_local env initial call) Q"
  unfolding succeeds_def define_local_def answers_def by (auto simp: Let_def split: prod.splits) (metis prod.inject)

lemma done_ensure:
  assumes "answers env" and "\<And>s. \<exists>call. req s = Ok call"
  shows "done_well (ensure env nil token put req)"
  unfolding succeeds_def
proof
  fix s
  obtain call where "req s = Ok call" using assms(2) by blast
  then show "\<exists>x s'. ensure env nil token put req s = Ok (x, s') \<and> \<not> FAILED x"
    using done_emit [OF assms(1), of put call] by (auto simp: ensure_def succeeds_def)
qed

lemma done_ensure_type: "answers env \<Longrightarrow> done_well (ensure_type env token put scope n)"
  by (rule done_ensure) simp_all

lemma done_ensure_member:
  assumes "answers env" and "\<And>s. length (signature s) \<le> signatureBufferSize" and "\<And>s. signatureLength s \<le> length (signature s)"
  shows "done_well (ensure_member env nil token put parent n signature signatureLength)"
  by (rule done_ensure [OF assms(1)]) (use assms(2,3) in \<open>simp add: buffered_def\<close>)

lemma token_bytes_length: "length (token_bytes token) \<le> 4"
  using token_bytes_number [of token] by (auto simp: a_number_def dest!: number_bytes_length)

subsection \<open>The tokens\<close>

lemma GetTypeFromHandle_length: "length (GetTypeFromHandle_signature s) \<le> 12"
  using token_bytes_length [of "typeRef s"] token_bytes_length [of "runtimeTypeHandleRef s"]
  by (simp add: GetTypeFromHandle_signature_def)

lemma done_EnsureCorLibTokens:
  assumes a: "answers env"
  shows "done_well (EnsureCorLibTokens env)"
proof -
  obtain p where "cor_property env = Some p" using a by (auto simp: answers_def)
  then have c: "define_corlib env = ensure env mdAssemblyRefNil corLibAssemblyRef (\<lambda>t s. s \<lparr>corLibAssemblyRef := t\<rparr>)
      (\<lambda>s. Ok (DefineAssemblyRef_property p))" by (simp add: define_corlib_def fun_eq_iff)
  have "length (GetTypeFromHandle_signature s) \<le> signatureBufferSize" for s
    using GetTypeFromHandle_length [of s] by (simp add: signatureBufferSize_def)
  then show ?thesis
    unfolding EnsureCorLibTokens_def c
    by (intro succeeds_bind [OF done_ensure [OF a]] succeeds_get_bind succeeds_if done_in_turn succeeds_return done_list
        done_ensure_type done_ensure_member a) simp_all
qed

lemma done_EnsureBase:
  assumes a: "answers env"
  shows "done_well (EnsureBaseCalltargetTokens env)"
proof -
  have "length (returns_value t) \<le> signatureBufferSize" for t
    using token_bytes_length [of t] by (simp add: signatureBufferSize_def)
  then show ?thesis unfolding EnsureBaseCalltargetTokens_def
    by (intro done_in_turn done_list done_EnsureCorLibTokens done_ensure_type done_ensure_member done_ensure a)
      (simp_all add: define_tracer_def)
qed

lemma ends_GetTargetVoidReturnTypeRef: "answers env \<Longrightarrow> ends_well (GetTargetVoidReturnTypeRef env)"
  unfolding GetTargetVoidReturnTypeRef_def
  by (intro succeeds_unless_failed done_EnsureBase done_ensure_type succeeds_get) simp_all

lemma ends_GetTargetReturnValueTypeRef:
  assumes a: "answers env" and l: "length returnSignature \<le> 400"
  shows "ends_well (GetTargetReturnValueTypeRef env returnSignature)"
proof -
  have "length (return_type_spec t returnSignature) \<le> signatureBufferSize" for t
    using token_bytes_length [of t] l by (simp add: signatureBufferSize_def)
  then show ?thesis unfolding GetTargetReturnValueTypeRef_def
    by (intro succeeds_unless_failed done_EnsureBase done_ensure_type succeeds_get_bind succeeds_buffered_bind
        succeeds_bind [OF succeeds_define_local [OF a, where Q = "\<lambda>_. True"]] a)
      (auto intro: succeeds_return)
qed

lemma ends_GetCallTargetReturnVoidDefaultMemberRef:
  assumes a: "answers env"
  shows "ends_well (GetCallTargetReturnVoidDefaultMemberRef env)"
proof -
  have "length (returns_value t) \<le> signatureBufferSize" for t
    using token_bytes_length [of t] by (simp add: signatureBufferSize_def)
  then show ?thesis unfolding GetCallTargetReturnVoidDefaultMemberRef_def
    by (intro succeeds_unless_failed done_EnsureBase done_ensure_member a succeeds_get) simp_all
qed

lemma ends_GetCallTargetReturnValueDefaultMemberRef:
  assumes a: "answers env"
  shows "ends_well (GetCallTargetReturnValueDefaultMemberRef env spec)"
proof -
  have "length (0x00 # 0x00 # return_type_spec t [elt ELEMENT_TYPE_VAR, 0x00]) \<le> signatureBufferSize" for t
    using token_bytes_length [of t] by (simp add: signatureBufferSize_def)
  then show ?thesis unfolding GetCallTargetReturnValueDefaultMemberRef_def
    by (intro succeeds_unless_failed done_EnsureBase succeeds_get_bind succeeds_if succeeds_return succeeds_buffered_bind
        succeeds_bind [OF succeeds_define_local [OF a, where Q = "\<lambda>_. True"]] a)
      (auto intro: succeeds_return)
qed

lemma ends_GetCallTargetDefaultValueMethodSpec:
  assumes a: "answers env" and l: "length sig \<le> 400"
  shows "ends_well (GetCallTargetDefaultValueMethodSpec env sig)"
  unfolding GetCallTargetDefaultValueMethodSpec_def
  by (intro succeeds_unless_failed done_EnsureBase succeeds_get_bind succeeds_if succeeds_return succeeds_buffered_bind
        succeeds_bind [OF done_ensure_member [OF a]] succeeds_bind [OF succeeds_define_local [OF a, where Q = "\<lambda>_. True"]] a)
    (use l in \<open>auto intro: succeeds_return simp: signatureBufferSize_def\<close>)

section \<open>Writers that succeed\<close>

text \<open>
  \<open>runs m Q\<close>: from any place in a list, \<open>m\<close> ends with a result in \<open>Q\<close>, and the wrapper stands
  at the same place of the list.
\<close>

definition runs :: "'a writer \<Rightarrow> ('a \<Rightarrow> bool) \<Rightarrow> bool" where
  "runs m Q \<longleftrightarrow> (\<forall>w s xs ys. at w xs ys \<longrightarrow> (\<exists>x w' s' zs. m w s = Ok (x, w', s') \<and> at w' zs ys \<and> Q x))"

lemma runsI:
  "(\<And>w s xs ys. at w xs ys \<Longrightarrow> \<exists>x w' s' zs. m w s = Ok (x, w', s') \<and> at w' zs ys \<and> Q x) \<Longrightarrow> runs m Q"
  by (simp add: runs_def)

lemma runsD:
  assumes "runs m Q" and "at w xs ys"
  obtains x w' s' zs where "m w s = Ok (x, w', s')" and "at w' zs ys" and "Q x"
  using assms unfolding runs_def by blast

lemma runs_return: "Q x \<Longrightarrow> runs (w_return x) Q"
  by (auto simp: runs_def w_return_def)

lemma runs_bind:
  assumes "runs m P" and "\<And>x. P x \<Longrightarrow> runs (f x) Q"
  shows "runs (w_bind m f) Q"
proof (rule runsI)
  fix w s xs ys assume a: "at w xs ys"
  obtain x w1 s1 zs where m: "m w s = Ok (x, w1, s1)" and z: "at w1 zs ys" and p: "P x" by (rule runsD [OF assms(1) a])
  obtain y w2 s2 us where "f x w1 s1 = Ok (y, w2, s2)" "at w2 us ys" "Q y" by (rule runsD [OF assms(2) [OF p] z])
  then show "\<exists>x w' s' zs. w_bind m f w s = Ok (x, w', s') \<and> at w' zs ys \<and> Q x" using m by (auto simp: w_bind_Ok)
qed

lemma runs_try:
  assumes "runs m (\<lambda>x. \<exists>y. x = Some y \<and> P y)" and "\<And>y. P y \<Longrightarrow> runs (f y) Q"
  shows "runs (w_try m f) Q"
  unfolding w_try_def by (rule runs_bind [OF assms(1)]) (use assms(2) in auto)

lemma runs_tk: "succeeds m Q \<Longrightarrow> runs (w_tk m) Q"
  unfolding runs_def w_tk_def succeeds_def by (force simp: xbind_Ok_iff)

lemma runs_tk_bind: "succeeds m P \<Longrightarrow> (\<And>x. P x \<Longrightarrow> runs (f x) Q) \<Longrightarrow> runs (w_bind (w_tk m) f) Q"
  by (rule runs_bind [OF runs_tk])

lemma runs_exec_bind: "m = Ok x \<Longrightarrow> runs (f x) Q \<Longrightarrow> runs (w_bind (w_exec m) f) Q"
  by (rule runs_bind [where P = "\<lambda>y. y = x"]) (auto simp: runs_def w_exec_def)

lemma runs_if: "(b \<Longrightarrow> runs m Q) \<Longrightarrow> (\<not> b \<Longrightarrow> runs k Q) \<Longrightarrow> runs (if b then m else k) Q"
  by simp

text \<open>An insertion, with a pointer that is not null.\<close>

lemma inserts_at:
  assumes "inserts f c" and "at w xs ys" and "f w = (p, w')"
  shows "at w' (xs @ [p]) ys" and "p \<noteq> NULL"
proof -
  obtain g where "f = insert_new g" "unlinking g" using assms(1) by (auto simp: inserts_def)
  then have "grows w xs ys w' [p] [op_code g]" using insert_new_grows assms(2,3) by blast
  from growsD(1,2) [OF this] show "at w' (xs @ [p]) ys" "p \<noteq> NULL" by (simp_all add: ring_def)
qed

lemma runs_op_bind:
  assumes "inserts f c" and "\<And>p. p \<noteq> NULL \<Longrightarrow> runs (k p) Q"
  shows "runs (w_bind (w_op f) k) Q"
proof (rule runs_bind [where P = "\<lambda>p. p \<noteq> NULL"])
  show "runs (w_op f) (\<lambda>p. p \<noteq> NULL)"
  proof (rule runsI)
    fix w s xs ys assume a: "at w xs ys"
    obtain p w' where f: "f w = (p, w')" by fastforce
    from inserts_at [OF assms(1) a f] show "\<exists>x w' s' zs. w_op f w s = Ok (x, w', s') \<and> at w' zs ys \<and> x \<noteq> NULL"
      using f by (auto simp: w_op_def)
  qed
qed (rule assms(2))

lemma runs_then:
  assumes "inserts_all F cs" and "runs m Q"
  shows "runs (w_bind (w_do F) (\<lambda>_. m)) Q"
proof (rule runs_bind [where P = "\<lambda>_. True"])
  obtain gs where gs: "F = in_order (map insert_new gs)" "list_all unlinking gs"
    using assms(1) by (auto simp: inserts_all_def)
  show "runs (w_do F) (\<lambda>_. True)"
  proof (rule runsI)
    fix w s xs ys assume a: "at w xs ys"
    from in_order_grows [OF a gs(2)] obtain new where "grows w xs ys (F w) new (map op_code gs)" unfolding gs(1) by blast
    then show "\<exists>x w' s' zs. w_do F w s = Ok (x, w', s') \<and> at w' zs ys \<and> True"
      using growsD(1) [of w xs ys "F w" new] by (auto simp: w_do_def)
  qed
qed (rule assms(2))

lemma runs_set_target:
  assumes "runs m Q"
  shows "runs (then_do (set_target p t) m) Q"
proof (rule runs_bind [where P = "\<lambda>_. True"])
  show "runs (w_do (set_target p t)) (\<lambda>_. True)"
  proof (rule runsI)
    fix w s xs ys assume a: "at w xs ys"
    then have "at (set_target p t w) xs ys"
      using ring_upd [of "set_pTarget t" p "m_ILRewriter w"] by (simp add: at_def set_target_def set_pTarget_def)
    then show "\<exists>x w' s' zs. w_do (set_target p t) w s = Ok (x, w', s') \<and> at w' zs ys \<and> True" by (auto simp: w_do_def)
  qed
qed (rule assms)

subsection \<open>The calls\<close>

definition wrote :: "hresult \<times> ptr option \<Rightarrow> bool" where
  "wrote x \<longleftrightarrow> \<not> FAILED (fst x) \<and> (\<exists>p. snd x = Some p \<and> p \<noteq> NULL)"

abbreviation defined :: "hresult \<times> mdToken \<Rightarrow> bool" where
  "defined x \<equiv> \<not> FAILED (fst x)"

lemma runs_call_spec:
  assumes "succeeds spec defined"
  shows "runs (call_spec spec) wrote"
proof (rule runsI)
  fix w s xs ys assume a: "at w xs ys"
  obtain hr token s1 where s: "spec s = Ok ((hr, token), s1)" "\<not> FAILED hr"
    using assms unfolding succeeds_def by (metis fst_conv surj_pair)
  obtain p w' where c: "CallMember token False w = (p, w')" by fastforce
  from inserts_at [OF inserts_ops(6) a c] have "at w' (xs @ [p]) ys" "p \<noteq> NULL" by blast+
  then show "\<exists>x w' s' zs. call_spec spec w s = Ok (x, w', s') \<and> at w' zs ys \<and> wrote x"
    using s c by (auto simp: call_spec_def wrote_def)
qed

lemma succeeds_after_tokens: "done_well m \<Longrightarrow> succeeds k defined \<Longrightarrow> succeeds (after_tokens m k) defined"
  unfolding after_tokens_def by (rule succeeds_bind [of m "\<lambda>hr. \<not> FAILED hr"]) auto

lemma succeeds_define_target_spec:
  assumes a: "answers env" and l: "sum_list (map length types) \<le> 400"
  shows "succeeds (define_target_spec env method_ref count integ t types) defined"
proof -
  have "length (target_arguments count integ current types) \<le> signatureBufferSize" for current
    using token_bytes_length [of integ] token_bytes_length [of "fst current"] l by (simp add: signatureBufferSize_def)
  then show ?thesis unfolding define_target_spec_def
    by (intro succeeds_get_bind succeeds_buffered_bind succeeds_define_local a) simp_all
qed

lemma small_signatures:
  "length (begin_array_signature s) \<le> signatureBufferSize" "length (end_void_signature s) \<le> signatureBufferSize"
  "length (end_signature s) \<le> signatureBufferSize" "length (log_signature s) \<le> signatureBufferSize"
  "n < FASTPATH_COUNT \<Longrightarrow> length (begin_fast_signature n s) \<le> signatureBufferSize"
  using token_bytes_length [of "callTargetStateTypeRef s"] token_bytes_length [of "exTypeRef s"]
    token_bytes_length [of "callTargetReturnTypeRef s"] token_bytes_length [of "callTargetReturnVoidTypeRef s"]
  by (simp_all add: signatureBufferSize_def FASTPATH_COUNT_def)

lemma runs_calls:
  assumes a: "answers env"
  shows "runs (WriteBeginMethodWithArgumentsArray env integ t) wrote" and "runs (WriteEndVoidReturnMemberRef env integ t) wrote"
    and "runs (WriteLogException env integ t) wrote"
  unfolding WriteBeginMethodWithArgumentsArray_def WriteEndVoidReturnMemberRef_def WriteLogException_def
  by (intro runs_call_spec succeeds_after_tokens done_in_turn done_list done_EnsureBase done_ensure_member
      succeeds_define_target_spec a; simp add: small_signatures [simplified])+

lemma runs_WriteBeginMethod:
  assumes a: "answers env" and l: "sum_list (map length args) \<le> 400"
  shows "runs (WriteBeginMethod env integ t args) wrote"
proof (cases "length args \<ge> FASTPATH_COUNT")
  case True
  then have eq: "WriteBeginMethod env integ t args = w_bind (w_tk (EnsureBaseCalltargetTokens env)) (\<lambda>hr.
      if FAILED hr then w_return (hr, None) else WriteBeginMethodWithArgumentsArray env integ t)"
    by (intro ext, rename_tac w s, case_tac "EnsureBaseCalltargetTokens env s")
      (auto simp: WriteBeginMethod_def w_bind_def w_tk_def w_return_def)
  show ?thesis unfolding eq by (rule runs_tk_bind [OF done_EnsureBase [OF a]]) (simp add: runs_calls [OF a])
next
  case False
  then have n: "length args < FASTPATH_COUNT" by simp
  show ?thesis unfolding WriteBeginMethod_def Let_def if_not_P [OF False]
    by (intro runs_call_spec succeeds_after_tokens done_in_turn done_list done_EnsureBase done_ensure_member
        succeeds_define_target_spec a l) (simp_all add: small_signatures(5) [OF n, simplified])
qed

lemma runs_WriteEndReturnMemberRef:
  assumes a: "answers env" and l: "length sig \<le> 400"
  shows "runs (WriteEndReturnMemberRef env integ t sig) wrote"
  unfolding WriteEndReturnMemberRef_def
  by (intro runs_call_spec succeeds_after_tokens done_EnsureBase succeeds_bind [OF ends_GetTargetReturnValueTypeRef]
      succeeds_get_bind succeeds_buffered_bind succeeds_bind [OF succeeds_define_local [OF a, where Q = defined]] a l)
    (use l in \<open>auto simp: small_signatures(3) [simplified] intro!: succeeds_define_target_spec a\<close>)

lemma runs_WriteCallTargetReturnGetReturnValue:
  assumes a: "answers env"
  shows "runs (WriteCallTargetReturnGetReturnValue env spec) (\<lambda>_. True)"
proof -
  define m where "m = after_tokens (EnsureBaseCalltargetTokens env)
       (tk_bind (tk_lift (buffered
           [IMAGE_CEE_CS_CALLCONV_DEFAULT OR IMAGE_CEE_CS_CALLCONV_HASTHIS, 0x00, elt ELEMENT_TYPE_VAR, 0x00] 4)) (\<lambda>sig.
        define_local env mdMemberRefNil (DefineMemberRef spec (WStr ''GetReturnValue'') sig)))"
  have "succeeds m defined" unfolding m_def
    by (intro succeeds_after_tokens done_EnsureBase succeeds_buffered_bind succeeds_define_local a)
      (simp_all add: signatureBufferSize_def)
  note run = runs_call_spec [OF this]
  have eq: "WriteCallTargetReturnGetReturnValue env spec = w_bind (call_spec m) (\<lambda>(hr, i).
      w_return (if FAILED hr then mdMemberRefNil else hr, i))"
    by (auto simp: WriteCallTargetReturnGetReturnValue_def m_def w_bind_def w_return_def fun_eq_iff split_def split: exec.splits)
  show ?thesis unfolding eq by (rule runs_bind [OF run]) (auto intro: runs_return)
qed

subsection \<open>What the code supports\<close>

text \<open>
  The instance: a type that is not a value type, or an instance method of one whose type has a
  specification or no parameters.
\<close>

definition loadable :: "bool \<Rightarrow> TypeInfo \<Rightarrow> bool" where
  "loadable isStatic t \<longleftrightarrow>
     (if isStatic then \<not> valueType t else valueType t \<longrightarrow> info_spec t \<noteq> mdTypeSpecNil \<or> \<not> isGeneric t)"

text \<open>
  An argument: its flags can be read, and it is not by reference; where the arguments are passed
  in an array, the type of a value that is boxed has a token.
\<close>

definition passable :: "TokenEnv \<Rightarrow> bool \<Rightarrow> bytes \<Rightarrow> bool" where
  "passable env in_array sig \<longleftrightarrow> (case GetTypeFlags sig of
     Done (f, k) \<Rightarrow> f AND TypeFlagByRef = 0 \<and>
       (in_array \<and> f AND TypeFlagBoxedType \<noteq> 0 \<longrightarrow> succeeds (request_type_tok env sig) (\<lambda>tok. tok \<noteq> mdTokenNil))
   | _ \<Rightarrow> False)"

text \<open>The return type: short, and the runtime gives a short signature for its \<^verbatim>\<open>CallTargetReturn\<close>.\<close>

definition returnable :: "TokenEnv \<Rightarrow> bytes \<Rightarrow> bool" where
  "returnable env sig \<longleftrightarrow> length sig \<le> 100 \<and> (\<exists>x. GetTypeFlags sig = Done x) \<and>
     (\<not> is_void sig \<longrightarrow> (\<forall>reqs token hr c. spec_from_token env reqs token = (hr, c) \<longrightarrow> \<not> FAILED hr \<and> length c \<le> 120))"

text \<open>
  The locals: none, or a list in a short signature that does not end like a modified one and is
  not shorter than a token.
\<close>

definition extendable :: "TokenEnv \<Rightarrow> mdToken \<Rightarrow> bool" where
  "extendable env localVarSig \<longleftrightarrow> (localVarSig \<noteq> mdTokenNil \<longrightarrow>
     (\<exists>hr sig ts. sig_from_token env localVarSig = (hr, sig) \<and> \<not> FAILED hr \<and> locals_signature ts sig \<and>
        length sig \<le> 200 \<and> length ts \<le> 200 \<and> (\<forall>token. already_modified sig (token_bytes token) = Ok False)))"

lemma runs_load_instance:
  assumes "loadable isStatic t"
  shows "runs (load_instance isStatic t) (\<lambda>x. \<exists>p. x = Some p \<and> p \<noteq> NULL)"
proof (cases isStatic)
  case True
  then have v: "\<not> valueType t" using assms by (simp add: loadable_def)
  show ?thesis unfolding load_instance_def if_P [OF True] if_not_P [OF v]
    by (intro runs_op_bind [OF inserts_ops(1)] runs_return) simp
next
  case False
  have "valueType t \<Longrightarrow> info_spec t \<noteq> mdTypeSpecNil \<or> \<not> isGeneric t" using assms False by (simp add: loadable_def)
  then show ?thesis unfolding load_instance_def if_not_P [OF False]
    by (intro runs_op_bind [OF inserts_ops(2)] runs_if runs_then [OF inserts_all_one [OF inserts_ops(7)]] runs_return) auto
qed

lemma runs_with_flags:
  assumes "passable env in_array sig"
    and "\<And>f. f AND TypeFlagBoxedType \<noteq> 0 \<Longrightarrow> in_array \<Longrightarrow> succeeds (request_type_tok env sig) (\<lambda>tok. tok \<noteq> mdTokenNil) \<Longrightarrow>
      runs (k sig f) Q"
    and "\<And>f. f AND TypeFlagBoxedType = 0 \<or> \<not> in_array \<Longrightarrow> runs (k sig f) Q"
  shows "runs (with_flags (Some sig) k) Q"
proof -
  obtain f e where f: "GetTypeFlags sig = Done (f, e)" using assms(1) by (auto simp: passable_def split: outcome.splits)
  have "f AND TypeFlagByRef = 0" "runs (k sig f) Q" using assms f by (auto simp: passable_def)
  then show ?thesis unfolding with_flags_def
    by (simp, intro runs_exec_bind [where x = "(f, e)"]) (simp_all add: f as_exec_def)
qed

lemma runs_load_directly:
  assumes "list_all (\<lambda>arg. \<exists>sig. snd arg = Some sig \<and> passable env False sig) args"
  shows "runs (load_directly isStatic args) (\<lambda>x. \<exists>y. x = Some y \<and> True)"
  using assms
proof (induction args)
  case (Cons arg args)
  then obtain sig where s: "snd arg = Some sig" "passable env False sig" by auto
  have "runs (with_flags (Some sig) (\<lambda>sig f. load_directly isStatic args)) (\<lambda>x. \<exists>y. x = Some y \<and> True)"
    by (rule runs_with_flags [OF s(2)]) (use Cons in auto)
  then show ?case unfolding load_directly.simps s(1) by (rule runs_then [OF inserts_all_one [OF inserts_ops(2)]])
qed (simp add: runs_return)

lemma runs_box_argument:
  "f AND TypeFlagBoxedType \<noteq> 0 \<Longrightarrow> succeeds (request_type_tok env sig) (\<lambda>tok. tok \<noteq> mdTokenNil) \<Longrightarrow>
     runs (box_argument env sig f) (\<lambda>x. \<exists>y. x = Some y \<and> True)"
  "f AND TypeFlagBoxedType = 0 \<Longrightarrow> runs (box_argument env sig f) (\<lambda>x. \<exists>y. x = Some y \<and> True)"
  unfolding box_argument_def
  by (simp, erule runs_tk_bind, simp, rule runs_then [OF inserts_all_ops(2)]) (simp_all add: runs_return)

lemma runs_load_into_array:
  assumes "list_all (\<lambda>arg. \<exists>sig. snd arg = Some sig \<and> passable env True sig) args"
  shows "runs (load_into_array env isStatic args) (\<lambda>x. \<exists>y. x = Some y \<and> True)"
  using assms
proof (induction args)
  case (Cons arg args)
  then obtain sig where s: "snd arg = Some sig" "passable env True sig" by auto
  have rest: "runs (then_do EndLoadValueIntoArray (load_into_array env isStatic args)) (\<lambda>x. \<exists>y. x = Some y \<and> True)"
    by (rule runs_then [OF inserts_all_ops(4)]) (use Cons in auto)
  have "runs (with_flags (Some sig) (\<lambda>sig f. w_try (box_argument env sig f)
      (\<lambda>_. then_do EndLoadValueIntoArray (load_into_array env isStatic args)))) (\<lambda>x. \<exists>y. x = Some y \<and> True)"
    by (rule runs_with_flags [OF s(2)], rule runs_try [OF runs_box_argument(1) rest], assumption+,
        rule runs_try [OF runs_box_argument(2) rest]) blast
  then show ?case unfolding load_into_array.simps s(1)
    by (intro runs_then [OF inserts_all_ops(3)] runs_then [OF inserts_all_one [OF inserts_ops(2)]])
qed (simp add: runs_return)

lemma runs_load_arguments:
  assumes "list_all (passable env (numArgs \<ge> FASTPATH_COUNT)) args" and "length args = numArgs"
  shows "runs (load_arguments env isStatic numArgs args) (\<lambda>x. \<exists>y. x = Some y \<and> True)"
proof -
  let ?args = "map (\<lambda>i. (i, if i < length args then Some (args ! i) else None)) [0..<numArgs]"
  have all: "list_all (\<lambda>arg. \<exists>sig. snd arg = Some sig \<and> passable env (numArgs \<ge> FASTPATH_COUNT) sig) ?args"
    using assms by (auto simp: list_all_iff)
  show ?thesis
  proof (cases "numArgs < FASTPATH_COUNT")
    case True
    then show ?thesis using runs_load_directly [of env ?args] all unfolding load_arguments_def Let_def by auto
  next
    case False
    then have "runs (load_into_array env isStatic ?args) (\<lambda>x. \<exists>y. x = Some y \<and> True)"
      using runs_load_into_array [of env ?args] all by auto
    then show ?thesis unfolding load_arguments_def Let_def if_not_P [OF False]
      by (intro runs_tk_bind [OF succeeds_get [where Q = "\<lambda>_. True"]] runs_then [OF inserts_all_ops(5)]) simp_all
  qed
qed

lemma runs_initialize_locals:
  assumes a: "answers env" and l: "length sig \<le> 400"
  shows "runs (initialize_locals env sig locals) (\<lambda>_. True)"
proof -
  let ?rest = "[st_loc (callTargetReturnIndex locals), simple_code CEE_LDNULL, st_loc (exceptionIndex locals)]"
  have void: "inserts_all (in_order [StLocal (callTargetReturnIndex locals), LoadNull, StLocal (exceptionIndex locals)]) ?rest"
    and typed: "inserts_all (in_order [CallMember member_ref False, StLocal (callTargetReturnIndex locals), LoadNull,
      StLocal (exceptionIndex locals)]) (token_code CEE_CALL member_ref # ?rest)" for member_ref
    by (intro inserts_all_ops; simp)+
  show ?thesis unfolding initialize_locals_def
    by (intro runs_if runs_tk_bind [OF ends_GetCallTargetDefaultValueMethodSpec] runs_tk_bind [OF ends_GetCallTargetReturnValueDefaultMemberRef]
        runs_tk_bind [OF ends_GetCallTargetReturnVoidDefaultMemberRef] runs_op_bind [OF inserts_ops(6)]
        runs_then [OF void] runs_then [OF typed] runs_then [OF inserts_all_one [OF inserts_ops(4)]] runs_return a l TrueI)
qed

section \<open>The locals\<close>

lemma new_local_sig_succeeds:
  assumes old: "originalSignature = [] \<or> (locals_signature ts originalSignature \<and> length ts \<le> 200)" and few: "length types \<le> 4"
  obtains written newSize count where "new_local_sig originalSignature (of_nat (length types)) types = Ok (written, newSize, count)"
    and "length written \<le> 6 + length originalSignature + length (concat types)" and "newSize \<le> length written"
proof (cases "originalSignature = []")
  case True
  have n: "unat (of_nat (length types) :: u32) = length types" using few by (simp add: unat_of_nat32)
  then have "(of_nat (length types) :: u32) \<le> 0x7F" using few by (simp add: word_le_nat_alt)
  from new_local_sig_first(1) [OF this, of types] show ?thesis using that True by (simp add: length_concat)
next
  case False
  then obtain c n where o: "originalSignature = 0x07 # c @ concat ts" and c: "number_bytes c n" and l: "length ts = unat n" "length ts \<le> 200"
    using old by (auto simp: locals_signature_def)
  have u: "CorSigUncompressData (tl originalSignature) = Done (of_nat (length c), n)"
    using o UncompressData_number [OF c] by simp
  have sum: "unat (of_nat (length types) + n) = length types + unat n"
    using few l by (simp add: unat_word_ariths unat_of_nat32)
  then have "of_nat (length types) + n \<le> 0x1FFFFFFF" using few l by (simp add: word_le_nat_alt)
  from CompressData_number [OF this] obtain k c' where k: "CorSigCompressData (of_nat (length types) + n) = (k, c')"
    and c': "number_bytes c' (of_nat (length types) + n)" and "k = of_nat (length c')" by (metis prod.collapse)
  then have kl: "unat k = length c'" "length c' \<le> 4" "unat (of_nat (length c) :: u32) = length c" "length c \<le> 4"
    using unat_small_length [OF c'] unat_small_length [OF c] number_bytes_length [OF c'] number_bytes_length [OF c] by auto
  have "(4 :: u32) < - 1" by simp
  then have "unat (- 1 :: u32) > 4" by (simp add: word_less_nat_alt)
  then have m: "k \<noteq> - 1" "(of_nat (length c) :: u32) \<noteq> - 1" using kl by auto
  have "new_local_sig originalSignature (of_nat (length types)) types = Ok (0x07 # c' @ concat ts @ concat types,
      length originalSignature + sum_list (map length types) + unat k - unat (of_nat (length c) :: u32), of_nat (length types) + n)"
    using False u k m kl by (simp add: new_local_sig_def o)
  then show ?thesis by (rule that) (use kl in \<open>simp_all add: o length_concat\<close>)
qed

lemma ends_call_target_return:
  assumes a: "answers env" and r: "returnable env sig"
  shows "succeeds (call_target_return env sig) (\<lambda>(hr, token, c). \<not> FAILED hr \<and> length c \<le> 120)"
proof -
  obtain f k where f: "GetTypeFlags sig = Done (f, k)" and l: "length sig \<le> 400" using r by (auto simp: returnable_def)
  have v: "is_void sig \<longleftrightarrow> f = TypeFlagVoid" by (simp add: is_void_def f)
  have spec: "\<not> FAILED hr \<and> length c \<le> 120" if "spec_from_token env reqs token = (hr, c)" "f \<noteq> TypeFlagVoid" for reqs token hr c
    using r that v unfolding returnable_def by blast
  show ?thesis unfolding call_target_return_def
    by (rule succeeds_bind [OF succeeds_lift [where x = "(f, k)" and Q = "\<lambda>x. x = (f, k)"]])
      (auto simp: f as_exec_def split: prod.splits dest!: spec
        intro!: succeeds_bind [OF ends_GetTargetReturnValueTypeRef [OF a l]] succeeds_bind [OF ends_GetTargetVoidReturnTypeRef [OF a]]
          succeeds_get_bind succeeds_return order_trans [OF token_bytes_length])
qed

lemma ModifyLocalSig_succeeds:
  assumes a: "answers env" and r: "returnable env returnSignature" and x: "extendable env (GetTkLocalVarSig reWriter)"
  obtains hr locals token s' where "ModifyLocalSig env returnSignature reWriter s = Ok ((hr, locals), SetTkLocalVarSig token reWriter, s')"
    and "\<not> FAILED hr"
proof -
  obtain hr1 s1 where base: "EnsureBaseCalltargetTokens env s = Ok (hr1, s1)" and hr1: "\<not> FAILED hr1"
    using succeedsD [OF done_EnsureBase [OF a]] by blast
  obtain hr2 orig where o: "original_signature env reWriter = (hr2, orig)" by fastforce
  have old: "\<not> FAILED hr2" "length orig \<le> 200"
    "(if GetTkLocalVarSig reWriter \<noteq> mdTokenNil then already_modified orig (token_bytes (callTargetStateTypeRef s1)) else Ok False) = Ok False"
    "\<exists>ts. orig = [] \<or> locals_signature ts orig \<and> length ts \<le> 200"
    using x o by (auto simp: extendable_def original_signature_def split: if_splits)
  obtain hr3 token c s2 where ret: "call_target_return env returnSignature s1 = Ok ((hr3, token, c), s2)"
    and hr3: "\<not> FAILED hr3" and c: "length c \<le> 120"
    using succeedsD [OF ends_call_target_return [OF a r]] by fast
  let ?types = "new_locals returnSignature c s2"
  obtain ts where "orig = [] \<or> locals_signature ts orig \<and> length ts \<le> 200" using old(4) by blast
  moreover have "length ?types \<le> 4" by (simp add: new_locals_length)
  ultimately obtain written newSize count where n: "new_local_sig orig (of_nat (length ?types)) ?types = Ok (written, newSize, count)"
    and w: "length written \<le> 6 + length orig + length (concat ?types)" "newSize \<le> length written" by (rule new_local_sig_succeeds)
  have "length (concat ?types) \<le> 230"
    using r c token_bytes_length [of "exTypeRef s2"] token_bytes_length [of "callTargetStateTypeRef s2"]
    by (simp add: new_locals_def returnable_def)
  then have b: "buffered written newSize = Ok (take newSize written)"
    using w old(2) by (simp add: buffered_def signatureBufferSize_def)
  obtain hr v where v: "answer env (emitted s2) (GetTokenFromSig (take newSize written)) = (hr, Some v)" "\<not> FAILED hr"
    using a unfolding answers_def by blast
  have "\<exists>locals s'. ModifyLocalSig env returnSignature reWriter s = Ok ((hr, locals), SetTkLocalVarSig v reWriter, s')"
    unfolding ModifyLocalSig_def base xbind.simps prod.case if_not_P [OF hr1] o Let_def if_not_P [OF old(1)] old(3) if_False
      ret if_not_P [OF hr3] new_locals_def [symmetric] n b v(1) if_not_P [OF v(2)] option.case by blast
  then show ?thesis using that v(2) by blast
qed

section \<open>The parts of the callback\<close>

text \<open>A method the code supports, in view of the metadata.\<close>

definition supported :: "Rewriting \<Rightarrow> bool" where
  "supported r \<longleftrightarrow>
     loadable (rw_isStatic r) (rw_type r) \<and> length (rw_arguments r) = rw_numArgs r \<and>
     list_all (passable (rw_env r) (rw_numArgs r \<ge> FASTPATH_COUNT)) (rw_arguments r) \<and>
     sum_list (map length (rw_arguments r)) \<le> 400 \<and> returnable (rw_env r) (rw_return r)"

lemma runs_begin_call:
  assumes a: "answers (rw_env r)" and s: "supported r"
  shows "runs (begin_call r locals) (\<lambda>x. \<exists>sl cf cl. x = Some (sl, Some cf, cl) \<and> cf \<noteq> NULL)"
proof -
  note S = s [unfolded supported_def]
  have inst: "runs (load_instance (rw_isStatic r) (rw_type r)) (\<lambda>x. \<exists>p. x = Some p \<and> p \<noteq> NULL)"
    using S by (intro runs_load_instance) simp
  have args: "runs (load_arguments (rw_env r) (rw_isStatic r) (rw_numArgs r) (rw_arguments r)) (\<lambda>x. \<exists>y. x = Some y \<and> True)"
    using S by (intro runs_load_arguments) simp_all
  have bm: "runs (WriteBeginMethod (rw_env r) (rw_integration r) (rw_type r) (rw_arguments r)) wrote"
    using S by (intro runs_WriteBeginMethod a) simp
  show ?thesis unfolding begin_call_def
    by (intro runs_try [OF inst] runs_try [OF args] runs_bind [OF bm] runs_if runs_then [OF inserts_all_one [OF inserts_ops(4)]]
        runs_op_bind [OF inserts_create(1)] runs_bind [OF runs_calls(3) [OF a]] runs_return)
      (auto simp: wrote_def)
qed

lemma begin_part_succeeds:
  assumes a: "answers (rw_env r)" and s: "supported r" and x: "extendable (rw_env r) (GetTkLocalVarSig (m_ILRewriter w))" and at: "at w xs ys"
  obtains b w' s' zs where "begin_part r w s0 = Ok (Some b, w', s')" and "at w' zs ys" and "m_pHandlerBegin (bp_clause b) \<noteq> NULL"
proof -
  note S = s [unfolded supported_def]
  obtain hr locals token s1 where m: "ModifyLocalSig (rw_env r) (rw_return r) (m_ILRewriter w) s0 =
      Ok ((hr, locals), SetTkLocalVarSig token (m_ILRewriter w), s1)" and hr: "\<not> FAILED hr"
    using ModifyLocalSig_succeeds [OF a _ x] S by metis
  let ?w = "w \<lparr>m_ILRewriter := SetTkLocalVarSig token (m_ILRewriter w)\<rparr>"
  have at1: "at ?w xs ys" using at by (simp add: at_def ring_def SetTkLocalVarSig_def)
  have l: "length (rw_return r) \<le> 400" using S by (simp add: returnable_def)
  obtain first w2 s2 zs where i: "initialize_locals (rw_env r) (rw_return r) locals ?w s1 = Ok (first, w2, s2)" and at2: "at w2 zs ys"
    by (rule runsD [OF runs_initialize_locals [OF a l] at1])
  have 1: "ModifyLocalSigAndInitialize (rw_env r) (rw_return r) w s0 = Ok ((S_OK, locals, Some first), w2, s2)"
    by (simp add: ModifyLocalSigAndInitialize_def w_bind_def w_ModifyLocalSig_def GetILRewriter_def m hr i w_return_def)
  define rest where "rest = w_try (begin_call r locals) (\<lambda>(stateLeave, catchFirst, catchLeave).
     w_bind (w_exec (case Some first of None \<Rightarrow> Overrun | Some p \<Rightarrow> Ok p)) (\<lambda>first.
     w_bind (w_tk (tk_get exTypeRef)) (\<lambda>token.
     w_bind (w_op (\<lambda>w. (GetCurrentILInstr w, w))) (\<lambda>beginOriginal.
     then_do (set_target stateLeave beginOriginal) (then_do (set_target catchLeave beginOriginal)
       (w_return (Some \<lparr>bp_first = first, bp_locals = locals,
          bp_clause = catch_clause first (or_null catchFirst) catchLeave token\<rparr>)))))))"
  have here: "runs (w_op (\<lambda>w. (GetCurrentILInstr w, w))) (\<lambda>_. True)" by (auto simp: runs_def w_op_def)
  have "runs rest (\<lambda>x. \<exists>b. x = Some b \<and> m_pHandlerBegin (bp_clause b) \<noteq> NULL)"
    unfolding rest_def
  proof (rule runs_try)
    show "runs (begin_call r locals) (\<lambda>x. \<exists>y. x = Some y \<and> (\<exists>sl cf cl. y = (sl, Some cf, cl) \<and> cf \<noteq> NULL))"
      using runs_begin_call [OF a s, of locals] by (simp add: runs_def) blast
  qed (auto simp: or_null_def catch_clause_def intro!: runs_exec_bind runs_tk_bind [OF succeeds_get [where Q = "\<lambda>_. True"]]
      runs_bind [OF here] runs_set_target runs_return)
  then obtain x w3 s3 us where "rest w2 s2 = Ok (x, w3, s3)" "at w3 us ys" "\<exists>b. x = Some b \<and> m_pHandlerBegin (bp_clause b) \<noteq> NULL"
    by (rule runsD [OF _ at2])
  moreover have "begin_part r w s0 = rest w2 s2" by (simp add: begin_part_def w_bind_def 1 rest_def)
  ultimately show ?thesis using that by auto
qed

lemma runs_call_end_method:
  assumes a: "answers (rw_env r)" and l: "length (rw_return r) \<le> 400"
  shows "runs (call_end_method r locals) (\<lambda>_. True)"
proof -
  have loads: "inserts_all (in_order ((if rw_isVoid r then [] else [LoadLocal (returnValueIndex locals)]) @
         [LoadLocal (exceptionIndex locals), LoadLocal (callTargetStateIndex locals)]))
     ((if rw_isVoid r then [] else [ld_loc (returnValueIndex locals)]) @
         [ld_loc (exceptionIndex locals), ld_loc (callTargetStateIndex locals)])"
    by (rule inserts_all_ops) simp
  have "runs (if rw_isVoid r then WriteEndVoidReturnMemberRef (rw_env r) (rw_integration r) (rw_type r)
         else WriteEndReturnMemberRef (rw_env r) (rw_integration r) (rw_type r) (rw_return r)) wrote"
    by (intro runs_if runs_calls a runs_WriteEndReturnMemberRef l)
  then show ?thesis unfolding call_end_method_def
    by (intro runs_then [OF loads] runs_bind [where P = wrote] runs_then [OF inserts_all_one [OF inserts_ops(4)]]
        runs_then [OF inserts_all_one [OF inserts_ops(5)]] runs_if runs_bind [OF runs_WriteCallTargetReturnGetReturnValue [OF a]]
        runs_return) simp_all
qed

lemma runs_end_call:
  assumes a: "answers (rw_env r)" and s: "supported r"
  shows "runs (end_call r locals) (\<lambda>x. \<exists>y. x = Some y \<and> (\<exists>ts lv cf cl ef. y = (ts, lv, Some cf, cl, ef) \<and> cf \<noteq> NULL))"
proof -
  note S = s [unfolded supported_def]
  have inst: "runs (load_instance (rw_isStatic r) (rw_type r)) (\<lambda>x. \<exists>p. x = Some p \<and> p \<noteq> NULL)"
    using S by (intro runs_load_instance) simp
  have l: "length (rw_return r) \<le> 400" using S by (simp add: returnable_def)
  have "inserts EndFinally (simple_code CEE_ENDFINALLY)"
    unfolding inserts_def wrapper_ops simple_code_def by (blast intro: unlinking_ops)
  then show ?thesis unfolding end_call_def
    by (intro runs_try [OF inst] runs_bind [OF runs_call_end_method [OF a l]]
        runs_op_bind [OF inserts_create(1)] runs_bind [OF runs_calls(3) [OF a]] runs_op_bind [where f = EndFinally] runs_return)
      (auto simp: wrote_def)
qed

lemma end_part_succeeds:
  assumes a: "answers (rw_env r)" and s: "supported r" and ring: "ring (m_ILRewriter w) ps"
  obtains e w' s' where "end_part r locals w s0 = Ok (Some e, w', s')" and "m_pHandlerBegin (ep_clause e) \<noteq> NULL"
proof -
  obtain ret w1 where ap: "append_return w = (ret, w1)" by fastforce
  note A = append_return_run(1) [OF ring ap]
  obtain sec w2 where st: "StLocal (exceptionIndex locals) w1 = (sec, w2)" by fastforce
  note B = inserts_at(1) [OF inserts_ops(4) A st]
  then have same: "SetILPosition ret w2 = w2" by (simp add: at_def SetILPosition_def)
  obtain rt w3 where re: "Rethrow w2 = (rt, w3)" by fastforce
  note C = inserts_at(1) [OF inserts_create(2) B re]
  let ?load = "if rw_isVoid r then [] else [LoadLocal (returnValueIndex locals)]"
  define rest where "rest = w_try (end_call r locals) (\<lambda>(tryStart, tryLeave, catchFirst, catchLeave, endFinallyInstr).
     w_bind (w_tk (tk_get exTypeRef)) (\<lambda>token.
     then_do (set_target tryLeave endFinallyInstr) (then_do (set_target catchLeave endFinallyInstr)
     (then_do (in_order ?load)
       (w_return (Some \<lparr>ep_return = ret, ep_catch = sec, ep_rethrow = rt, ep_endFinally = endFinallyInstr,
         ep_clause = catch_clause tryStart (or_null catchFirst) catchLeave token\<rparr>))))))"
  have load: "inserts_all (in_order ?load) (return_code r locals)" by (rule inserts_all_ops) (simp add: return_code_def)
  have "runs rest (\<lambda>x. \<exists>e. x = Some e \<and> m_pHandlerBegin (ep_clause e) \<noteq> NULL)"
    unfolding rest_def
    by (rule runs_try [OF runs_end_call [OF a s]])
      (auto simp: or_null_def catch_clause_def split del: if_split intro!: runs_tk_bind [OF succeeds_get [where Q = "\<lambda>_. True"]]
        runs_set_target runs_then [OF load] runs_return)
  then obtain x w4 s4 us where "rest w3 s0 = Ok (x, w4, s4)" "\<exists>e. x = Some e \<and> m_pHandlerBegin (ep_clause e) \<noteq> NULL"
    by (rule runsD [OF _ C])
  moreover have "end_part r locals w s0 = rest w3 s0"
    unfolding end_part_def rest_def by (simp add: w_bind_def w_op_def w_do_def ap st re same)
  ultimately show ?thesis using that by auto
qed

section \<open>The whole rewriting\<close>

text \<open>The loop over the list ends.\<close>

lemma replace_returns_ends:
  assumes bp: "begin_part r w s = Ok (Some b, w1, s1)" and ep: "end_part r (bp_locals b) w1 s1 = Ok (Some e, w2, s')"
    and a: "at w [] ps"
  obtains w3 where "replace_returns (rw_isVoid r) (returnValueIndex (bp_locals b)) e w2 = Some (Ok w3)"
    and "m_nEH (m_ILRewriter w3) = m_nEH (m_ILRewriter w)" and "eh_clauses (m_ILRewriter w3) = eh_clauses (m_ILRewriter w)"
proof -
  obtain pre pc post ec where E: "ends r (bp_locals b) e post ec"
    and ring: "ring (m_ILRewriter w2) (pre @ ps @ post @ [ep_return e])"
    and codes: "map (code (rw_heap w2)) pre = pc" "list_all stays pc" "map (code (rw_heap w2)) post = ec" "list_all stays ec"
      "code (rw_heap w2) (ep_return e) = simple_code CEE_RET"
    and eh: "m_nEH (m_ILRewriter w2) = m_nEH (m_ILRewriter w)" "eh_clauses (m_ILRewriter w2) = eh_clauses (m_ILRewriter w)"
    by (rule parts_run [OF bp ep a])
  obtain call tl h cl load where "post = (ep_catch e # ep_rethrow e # call @ tl # h @ [cl]) @ ep_endFinally e # load"
    using E unfolding ends_def by auto
  from replaced_list [OF ring refl codes this] obtain w3
    where "replace_returns (rw_isVoid r) (returnValueIndex (bp_locals b)) e w2 = Some (Ok w3)"
      "same_header (m_ILRewriter w2) (m_ILRewriter w3)" by metis
  then show ?thesis using that eh by (simp add: same_header_def eh_clauses_def split: option.splits)
qed

lemma rewrite_body_ends:
  assumes a: "at w [] ps"
  shows "rewrite_body r w s \<noteq> None"
proof (cases "begin_part r w s")
  case (Ok x)
  then obtain b w1 s1 where bp: "begin_part r w s = Ok (b, w1, s1)" by (cases x) auto
  show ?thesis
  proof (cases b)
    case (Some c)
    show ?thesis
    proof (cases "end_part r (bp_locals c) w1 s1")
      case (Ok y)
      then obtain e w2 s2 where ep: "end_part r (bp_locals c) w1 s1 = Ok (e, w2, s2)" by (cases y) auto
      show ?thesis
      proof (cases e)
        case (Some f)
        obtain w3 where "replace_returns (rw_isVoid r) (returnValueIndex (bp_locals c)) f w2 = Some (Ok w3)"
          by (rule replace_returns_ends [OF bp [unfolded \<open>b = Some c\<close>] ep [unfolded Some] a])
        then show ?thesis by (simp add: rewrite_body_def obind_exec_def bp ep \<open>b = Some c\<close> Some)
      qed (simp add: rewrite_body_def obind_exec_def bp ep Some)
    qed (simp_all add: rewrite_body_def obind_exec_def bp Some)
  qed (simp add: rewrite_body_def obind_exec_def bp)
qed (simp_all add: rewrite_body_def obind_exec_def)

lemma rewrite_body_succeeds:
  assumes a: "answers (rw_env r)" and s: "supported r" and x: "extendable (rw_env r) (GetTkLocalVarSig (m_ILRewriter w))"
    and at: "at w [] ps" and eh: "length (eh_clauses (m_ILRewriter w)) = unat (m_nEH (m_ILRewriter w))"
  shows "\<exists>w' s'. rewrite_body r w s0 = Some (Ok (True, w', s'))"
proof -
  obtain b w1 s1 zs where bp: "begin_part r w s0 = Ok (Some b, w1, s1)" and at1: "at w1 zs ps"
    and nb: "m_pHandlerBegin (bp_clause b) \<noteq> NULL" by (rule begin_part_succeeds [OF a s x at])
  have ring: "ring (m_ILRewriter w1) (zs @ ps)" using at1 by (simp add: at_def)
  obtain e w2 s2 where ep: "end_part r (bp_locals b) w1 s1 = Ok (Some e, w2, s2)" and ne: "m_pHandlerBegin (ep_clause e) \<noteq> NULL"
    by (rule end_part_succeeds [OF a s ring])
  obtain w3 where rr: "replace_returns (rw_isVoid r) (returnValueIndex (bp_locals b)) e w2 = Some (Ok w3)"
    and eq: "m_nEH (m_ILRewriter w3) = m_nEH (m_ILRewriter w)" "eh_clauses (m_ILRewriter w3) = eh_clauses (m_ILRewriter w)"
    by (rule replace_returns_ends [OF bp ep at])
  let ?es = "case m_pEH (m_ILRewriter w3) of None \<Rightarrow> [] | Some es \<Rightarrow> es"
  have "length (eh_clauses (m_ILRewriter w3)) = unat (m_nEH (m_ILRewriter w3))" using eh eq by simp
  then have "\<not> length ?es < unat (m_nEH (m_ILRewriter w3))" by (auto simp: eh_clauses_def split: option.splits)
  then have "\<exists>rewriter. add_clauses b e (exTypeRef s2) (m_ILRewriter w3) = Ok rewriter"
    by (auto simp: add_clauses_def Let_def GetEHCount_def GetEHPointer_def)
  then show ?thesis using nb ne by (auto simp: rewrite_body_def obind_exec_def bp ep rr)
qed

section \<open>The callback\<close>



lemma callback_succeeds:
  assumes "GetWrapperMethodRef info env l mod_id method_replacement (mm, emitted s0) = ((ok, wrapper, type_ref), mm', reqs)"
    and "rewriting_of env type_ref caller = Ok r" and "answers env" and "supported r"
    and "ProfilerAssemblyIsLoadedIntoAppDomain loaded (mm_app_domain_id mm')"
    and "GetILFunctionBody ci = Inr (body, aligned)" and "d = DecoderInit body aligned"
    and "10 * (2 * unat (dec_CodeSize d) + 40 + 5 * unat (numberOfArguments (fi_method_signature caller))) + 2 ^ 25 < 2 ^ 32"
    and "4 + 24 * (unat (dec_EHCount body d) + 4) < 2 ^ 24"
    and "Import ci (new_ILRewriter mem) = Some (Ok rewriter)" and "extendable env (dec_LocalVarSigTok d)"
    and "\<forall>n out t. \<exists>x. submit ci n out t = Ok x"
  shows "\<exists>out st'. CallTarget_RewriterCallback info loaded env l ci mem mem' mod_id caller method_replacement (mm, s0) =
    Some (Ok ((S_OK, Some out), st'))"
proof -
  obtain ps where h: "holds rewriter ps body d" using Import_holds [OF assms(6,7) _ assms(10)] assms(8) by auto
  have ring: "ring rewriter ps" using h by (simp add: holds_def spells_def)
  have env: "rw_env r = env" using assms(2) by (auto simp: rewriting_of_def xbind_Ok_iff Let_def split: prod.splits)
  have tok: "GetTkLocalVarSig rewriter = dec_LocalVarSigTok d" and eh: "length (eh_clauses rewriter) = unat (m_nEH rewriter)"
    using h by (simp_all add: holds_def GetTkLocalVarSig_def)
  obtain w s1 where rb: "rewrite_body r (from_start rewriter) (s0 \<lparr>emitted := reqs\<rparr>) = Some (Ok (True, w, s1))"
    using rewrite_body_succeeds [of r, unfolded env, OF assms(3,4) _ from_start_at [OF ring]] assms(11) tok eh by fastforce
  have room: "10 * (2 * unat (dec_CodeSize d) + overhead r) + 2 ^ 25 < 2 ^ 32"
    using assms(8) by (simp add: overhead_def rewriting_numArgs [OF assms(2)])
  obtain x where W: "wraps r rewriter ps (m_ILRewriter w) x" and rw: "rewritable (m_ILRewriter w) (wrapped_list ps x)"
    by (rule rewritten_rewritable [OF h rb room assms(9)])
  have "exportable (m_ILRewriter w) (wrapped_list ps x)" using rw by (simp add: rewritable_def)
  from Export_exported [OF this] obtain u n where u: "Export ci mem' (GetILRewriter w) = Some (finish ci mem' n u)"
    and "u = (m_ILRewriter w) \<lparr>heap := heap u, m_pOutputBuffer := m_pOutputBuffer u\<rparr>"
    unfolding GetILRewriter_def by blast
  then have "\<not> m_fGenerateTinyHeader u" using W by (metis wraps_def ILRewriter.simps ILRewriter.surjective ILRewriter.update_convs)
  then obtain t size out where "Export ci mem' (GetILRewriter w) = Some (Ok (t, size, out))"
    using assms(12) u by (auto simp: finish_def) (metis prod.exhaust)
  then show ?thesis
    unfolding CallTarget_RewriterCallback_def by (simp add: assms(1,2,5,10) rb Let_def obind_exec_def)
qed

text \<open>
  C2: The callback succeeds on the methods it supports: if the metadata answers every request, the
  managed tracer is loaded, the body can be read, the types of the arguments and the return value
  can be passed, the locals have a signature that leaves room in the buffer, and the runtime accepts
  the new body, then it returns \<^verbatim>\<open>S_OK\<close> with a body. No buffer is overrun and no pointer is null.
\<close>

theorem call_target_succeeds:
  assumes "GetWrapperMethodRef info env l mod_id method_replacement (mm, emitted s0) = ((ok, wrapper, type_ref), mm', reqs)"
    and "rewriting_of env type_ref caller = Ok r" and "answers env" and "supported r"
    and "ProfilerAssemblyIsLoadedIntoAppDomain loaded (mm_app_domain_id mm')"
    and "GetILFunctionBody ci = Inr (body, aligned)" and "d = DecoderInit body aligned"
    and "10 * (2 * unat (dec_CodeSize d) + 40 + 5 * unat (numberOfArguments (fi_method_signature caller))) + 2 ^ 25 < 2 ^ 32"
    and "4 + 24 * (unat (dec_EHCount body d) + 4) < 2 ^ 24"
    and "Import ci (new_ILRewriter mem) = Some (Ok rewriter)" and "extendable env (dec_LocalVarSigTok d)"
    and "\<forall>n out t. \<exists>x. submit ci n out t = Ok x"
  shows "\<exists>out st'. CallTarget_RewriterCallback info loaded env l ci mem mem' mod_id caller method_replacement (mm, s0) =
    Some (Ok ((S_OK, Some out), st'))"
  by (rule callback_succeeds [OF assms])

section \<open>A concrete callback\<close>

text \<open>An instance method with one \<^verbatim>\<open>int\<close> parameter that returns nothing.\<close>

definition sample_blob :: blob where
  "sample_blob = (nth [0x20, 0x01, 0x01, 0x08], 4)"

definition sample_caller :: FunctionInfo where
  "sample_caller = no_FunctionInfo \<lparr>fi_blob := sample_blob,
     fi_method_signature := snd (TryParse (fst sample_blob) 4 new_signature)\<rparr>"

definition sample_loaded :: LoadedProfilers where
  "sample_loaded = \<lparr>managed_profiler_loaded_domain_neutral = True, managed_profiler_loaded_app_domains = {}\<rparr>"

definition sample_rewriting :: "mdToken \<Rightarrow> Rewriting" where
  "sample_rewriting type_ref = \<lparr>rw_env = sample_token_env [], rw_type = no_TypeInfo, rw_integration = type_ref, rw_isVoid = True,
     rw_isStatic = False, rw_numArgs = 1, rw_arguments = [[0x08]], rw_return = [0x01]\<rparr>"

lemma sample_caller_rewriting: "rewriting_of (sample_token_env []) type_ref sample_caller = Ok (sample_rewriting type_ref)"
proof -
  have "snd (TryParse (fst sample_blob) 4 new_signature) =
      \<lparr>numberOfTypeArguments = 0, numberOfArguments = 1, ret = \<lparr>arg_offset = 2, arg_length = 1\<rparr>,
       params_vec = [\<lparr>arg_offset = 3, arg_length = 1\<rparr>]\<rparr>" by code_simp
  moreover have "GetTypeFlags [0x01] = Done (TypeFlagVoid, 0x01)" by code_simp
  ultimately show ?thesis
    by (simp add: rewriting_of_def sample_caller_def sample_blob_def no_FunctionInfo_def sample_rewriting_def as_exec_def
        GetSignature_def mem_slice_def upt_rec Let_def)
qed

lemma sample_answers: "answers (sample_token_env sig)"
  by (simp add: answers_def sample_token_env_def sample_answer_def)

lemma sample_supported: "supported (sample_rewriting type_ref)"
proof -
  have "GetTypeFlags [0x01] = Done (TypeFlagVoid, 0x01)" "GetTypeFlags [0x08] = Done (TypeFlagBoxedType, 0x08)"
    by code_simp+
  then show ?thesis
    by (simp add: supported_def sample_rewriting_def loadable_def no_TypeInfo_def passable_def returnable_def is_void_def
        FASTPATH_COUNT_def)
qed

lemma sample_facts:
  "GetILFunctionBody sample_clr = Inr (sample_body, False)" "\<forall>n out t. \<exists>x. submit sample_clr n out t = Ok x"
  "ProfilerAssemblyIsLoadedIntoAppDomain sample_loaded domain" "extendable env (dec_LocalVarSigTok (DecoderInit sample_body False))"
  "10 * (2 * unat (dec_CodeSize (DecoderInit sample_body False)) + 40 +
     5 * unat (numberOfArguments (fi_method_signature sample_caller))) + 2 ^ 25 < 2 ^ 32"
  "4 + 24 * (unat (dec_EHCount sample_body (DecoderInit sample_body False)) + 4) < 2 ^ 24"
proof -
  have "numberOfArguments (fi_method_signature sample_caller) = 1" by code_simp
  then show "10 * (2 * unat (dec_CodeSize (DecoderInit sample_body False)) + 40 +
     5 * unat (numberOfArguments (fi_method_signature sample_caller))) + 2 ^ 25 < 2 ^ 32" by (simp add: sample_decoder)
qed (simp_all add: sample_clr_def submit_def AllocateILMemory_def SetILFunctionBody_def Let_def sample_loaded_def
    ProfilerAssemblyIsLoadedIntoAppDomain_def sample_decoder extendable_def dec_EHCount_def)

lemma sample_callback:
  "\<exists>out st'. CallTarget_RewriterCallback sample_profiler sample_loaded (sample_token_env []) sample_lookups sample_clr blank_memory
     (\<lambda>_. 0) 1 sample_caller sample_replacement (sample_module, new_CallTargetTokens) = Some (Ok ((S_OK, Some out), st'))"
proof -
  obtain st' where "GetWrapperMethodRef sample_profiler (sample_token_env []) sample_lookups 1 sample_replacement
      (sample_module, emitted new_CallTargetTokens) = ((True, 0x0a000000, 0x01000002), st')"
    using sample_wrapper by (auto simp: new_CallTargetTokens_def)
  moreover obtain mm reqs where "st' = (mm, reqs)" by fastforce
  moreover obtain s where "Import sample_clr (new_ILRewriter blank_memory) = Some (Ok s)" using sample_import by blast
  ultimately show ?thesis
    using callback_succeeds [OF _ sample_caller_rewriting sample_answers sample_supported sample_facts(3,1) refl sample_facts(5,6)
        _ sample_facts(4,2)] by metis
qed



lemma call_target_succeeds_witness:
  "\<exists>r. CallTarget_RewriterCallback sample_profiler sample_loaded (sample_token_env []) sample_lookups sample_clr blank_memory
     (\<lambda>_. 0) 1 sample_caller sample_replacement (sample_module, new_CallTargetTokens) = Some (Ok r)"
proof -
  obtain st' where "GetWrapperMethodRef sample_profiler (sample_token_env []) sample_lookups 1 sample_replacement
      (sample_module, emitted new_CallTargetTokens) = ((True, 0x0a000000, 0x01000002), st')"
    using sample_wrapper by (auto simp: new_CallTargetTokens_def)
  moreover obtain mm reqs where "st' = (mm, reqs)" by fastforce
  moreover obtain s where "Import sample_clr (new_ILRewriter blank_memory) = Some (Ok s)" using sample_import by blast
  ultimately show ?thesis
    using call_target_succeeds [OF _ sample_caller_rewriting sample_answers sample_supported sample_facts(3,1) refl sample_facts(5,6)
        _ sample_facts(4,2)] by metis
qed

end
