(* ===== verification/ReturnTypes.thy ===== *)
theory ReturnTypes
  imports MetadataBuilder SigAgreement SigTypes
begin

text \<open>
  The token of a return type that has to be unboxed (\<^verbatim>\<open>ReturnTypeIsValueTypeOrGeneric\<close> of
  \<^verbatim>\<open>clr_helpers.cpp\<close>): a wrapper returns an object, and where the method it replaces returns a
  value type or a type parameter, the caller expects the value. The answer is whether there is
  such a token, the token, which is left as it was otherwise, and the requests that were made.
  \<open>Overread\<close> is a read behind a signature.
\<close>

section \<open>The routines\<close>

type_synonym token_answer = "((bool \<times> mdToken) \<times> emit_call list) outcome"

definition mscorlib_key :: bytes where
  "mscorlib_key = [0xB7, 0x7A, 0x5C, 0x56, 0x19, 0x34, 0xE0, 0x89]"

definition GetCorLibAssemblyRef :: "TokenEnv \<Rightarrow> AssemblyProperty \<Rightarrow> emit_call list \<Rightarrow> (hresult \<times> mdToken) \<times> emit_call list" where
  "GetCorLibAssemblyRef env cor reqs =
     request env (case ppbPublicKey cor of
         Some key \<Rightarrow> DefineAssemblyRef_flags key (szName cor) (pMetaData cor) (assemblyFlags cor)
       | None \<Rightarrow> DefineAssemblyRef_flags mscorlib_key (WStr ''mscorlib'')
           \<lparr>usMajorVersion = 4, usMinorVersion = 0, usBuildNumber = 0, usRevisionNumber = 0\<rparr> (assemblyFlags cor)) 0 reqs"

definition managed_type_name :: "CorElementType \<Rightarrow> wstring option" where
  "managed_type_name e = (case e of
       ELEMENT_TYPE_VOID \<Rightarrow> Some (WStr ''System.Void'')
     | ELEMENT_TYPE_BOOLEAN \<Rightarrow> Some (WStr ''System.Boolean'')
     | ELEMENT_TYPE_CHAR \<Rightarrow> Some (WStr ''System.Char'')
     | ELEMENT_TYPE_I1 \<Rightarrow> Some (WStr ''System.SByte'')
     | ELEMENT_TYPE_U1 \<Rightarrow> Some (WStr ''System.Byte'')
     | ELEMENT_TYPE_I2 \<Rightarrow> Some (WStr ''System.Int16'')
     | ELEMENT_TYPE_U2 \<Rightarrow> Some (WStr ''System.UInt16'')
     | ELEMENT_TYPE_I4 \<Rightarrow> Some (WStr ''System.Int32'')
     | ELEMENT_TYPE_U4 \<Rightarrow> Some (WStr ''System.UInt32'')
     | ELEMENT_TYPE_I8 \<Rightarrow> Some (WStr ''System.Int64'')
     | ELEMENT_TYPE_U8 \<Rightarrow> Some (WStr ''System.UInt64'')
     | ELEMENT_TYPE_R4 \<Rightarrow> Some (WStr ''System.Single'')
     | ELEMENT_TYPE_R8 \<Rightarrow> Some (WStr ''System.Double'')
     | ELEMENT_TYPE_TYPEDBYREF \<Rightarrow> Some (WStr ''System.TypedReference'')
     | ELEMENT_TYPE_I \<Rightarrow> Some (WStr ''System.IntPtr'')
     | ELEMENT_TYPE_U \<Rightarrow> Some (WStr ''System.UIntPtr'')
     | _ \<Rightarrow> None)"

text \<open>The end of the routine: a reference to the core library and one to a type of it.\<close>

definition core_type :: "TokenEnv \<Rightarrow> AssemblyProperty \<Rightarrow> wstring \<Rightarrow> mdToken \<Rightarrow> emit_call list \<Rightarrow> (bool \<times> mdToken) \<times> emit_call list" where
  "core_type env cor s held reqs =
     (let ((hr, mscorlib_ref), reqs) = GetCorLibAssemblyRef env cor reqs in
      if FAILED hr then ((False, held), reqs)
      else let ((hr, ret_type_token), reqs) = request env (DefineTypeRefByName mscorlib_ref s) held reqs
        in ((\<not> FAILED hr, ret_type_token), reqs))"

definition ReturnTypeTokenforValueTypeElementType ::
  "TokenEnv \<Rightarrow> AssemblyProperty \<Rightarrow> bytes \<Rightarrow> mdToken \<Rightarrow> emit_call list \<Rightarrow> token_answer" where
  "ReturnTypeTokenforValueTypeElementType env cor p_sig held reqs =
     obind (peek p_sig) (\<lambda>b.
     case to_elt b of None \<Rightarrow> Done ((False, held), reqs) | Some e \<Rightarrow>
     if e = ELEMENT_TYPE_VALUETYPE
     then obind (CorSigUncompressToken (tl p_sig)) (\<lambda>(result, ret_type_token). Done ((result \<noteq> -1, ret_type_token), reqs))
     else case managed_type_name e of None \<Rightarrow> Done ((False, held), reqs) | Some s \<Rightarrow> Done (core_type env cor s held reqs))"

text \<open>A type specification from the signature itself.\<close>

definition spec_type :: "TokenEnv \<Rightarrow> bytes \<Rightarrow> mdToken \<Rightarrow> emit_call list \<Rightarrow> (bool \<times> mdToken) \<times> emit_call list" where
  "spec_type env sig held reqs =
     (let ((hr, ret_type_token), reqs) = request env (GetTokenFromTypeSpec sig) held reqs in ((\<not> FAILED hr, ret_type_token), reqs))"

text \<open>\<^verbatim>\<open>ParseType\<close> as a condition: what is behind the type, if there is one.\<close>

definition parsed :: "bytes outcome \<Rightarrow> bytes option outcome" where
  "parsed m = (case m of Done r \<Rightarrow> Done (Some r) | Reject \<Rightarrow> Done None | Overread \<Rightarrow> Overread | NoFuel \<Rightarrow> NoFuel)"

text \<open>A generic instance, at the byte \<^verbatim>\<open>GENERICINST\<close>: only that of a value type is a value.\<close>

definition generic_instance :: "TokenEnv \<Rightarrow> bytes \<Rightarrow> mdToken \<Rightarrow> emit_call list \<Rightarrow> token_answer" where
  "generic_instance env p_start_byte held reqs =
     obind (peek (tl p_start_byte)) (\<lambda>b.
     if b \<noteq> elt ELEMENT_TYPE_VALUETYPE then Done ((False, held), reqs)
     else obind (parsed (ParseType p_start_byte)) (\<lambda>p_end_byte.
       case p_end_byte of None \<Rightarrow> Done ((False, held), reqs)
       | Some r \<Rightarrow> Done (spec_type env (take (length p_start_byte - length r) p_start_byte) held reqs)))"

text \<open>The loop over the generic arguments, the number of those left and the number to skip.\<close>

primrec generic_argument ::
  "TokenEnv \<Rightarrow> AssemblyProperty \<Rightarrow> nat \<Rightarrow> nat \<Rightarrow> bytes \<Rightarrow> mdToken \<Rightarrow> emit_call list \<Rightarrow> token_answer" where
  "generic_argument env cor 0 i p_current_byte held reqs = Done ((False, held), reqs)"
| "generic_argument env cor (Suc n) i p_current_byte held reqs =
     (case i of
        Suc i \<Rightarrow> obind (parsed (ParseType p_current_byte)) (\<lambda>r.
          case r of None \<Rightarrow> Done ((False, held), reqs) | Some r \<Rightarrow> generic_argument env cor n i r held reqs)
      | 0 \<Rightarrow> obind (peek p_current_byte) (\<lambda>b.
          if b = elt ELEMENT_TYPE_MVAR \<or> b = elt ELEMENT_TYPE_VAR
          then obind (peek (tl p_current_byte)) (\<lambda>_. Done (spec_type env (take 2 p_current_byte) held reqs))
          else if b = elt ELEMENT_TYPE_GENERICINST then generic_instance env p_current_byte held reqs
          else ReturnTypeTokenforValueTypeElementType env cor p_current_byte held reqs))"

text \<open>
  The signature that lists the generic arguments and the index of their number in it; nothing
  where the routine gives up.
\<close>

definition generic_arguments_of :: "MetaDataImport \<Rightarrow> mdToken \<Rightarrow> bool \<Rightarrow> (bytes \<times> nat) option outcome" where
  "generic_arguments_of md targetFunctionToken generic_method =
     (let type_spec = (\<lambda>(hr, parent_token, _).
        if FAILED hr then Done None
        else let (hr, spec) = GetTypeSpecFromToken md parent_token; spec_signature = GetSignatureByteRepresentation spec in
          if FAILED hr then Done None
          else obind (CorSigUncompressToken (drop 2 spec_signature)) (\<lambda>(token_length, _).
            Done (Some (spec_signature, 2 + unat token_length)))) in
      if TypeFromToken targetFunctionToken = token_tag mdtMemberRef then
        (if generic_method then Done None else type_spec (GetMemberRefProps md targetFunctionToken))
      else if TypeFromToken targetFunctionToken = token_tag mdtMethodDef then
        (if generic_method then Done None else type_spec (GetMemberProps md targetFunctionToken))
      else if TypeFromToken targetFunctionToken = token_tag mdtMethodSpec then
        (let (hr, parent_token, spec) = GetMethodSpecProps md targetFunctionToken in
         if FAILED hr then Done None else Done (Some (GetSignatureByteRepresentation spec, 1)))
      else Done None)"

definition ReturnTypeIsValueTypeOrGeneric ::
  "TokenEnv \<Rightarrow> MetaDataImport \<Rightarrow> AssemblyProperty \<Rightarrow> mdToken \<Rightarrow> MethodSignature \<Rightarrow> mdToken \<Rightarrow> emit_call list \<Rightarrow> token_answer" where
  "ReturnTypeIsValueTypeOrGeneric env md cor targetFunctionToken targetFunctionSignature held reqs =
     (let sig = data targetFunctionSignature;
          method_def_sig_index = (if NumberOfTypeArguments targetFunctionSignature = 0 then 2 else 3 :: nat) in
      obind (at_index sig method_def_sig_index) (\<lambda>ret_type_byte.
      let p = drop method_def_sig_index sig in
      if ret_type_byte = elt ELEMENT_TYPE_VOID then Done ((False, held), reqs)
      else if ret_type_byte = elt ELEMENT_TYPE_GENERICINST then generic_instance env p held reqs
      else if ret_type_byte = elt ELEMENT_TYPE_VAR \<or> ret_type_byte = elt ELEMENT_TYPE_MVAR then
        obind (CorSigUncompressData (tl p)) (\<lambda>(result, generic_type_index).
        if result = -1 then Done ((False, held), reqs)
        else obind (generic_arguments_of md targetFunctionToken (NumberOfTypeArguments targetFunctionSignature > 0))
          (\<lambda>spec. case spec of None \<Rightarrow> Done ((False, held), reqs) | Some (spec_signature, parent_token_index) \<Rightarrow>
            obind (CorSigUncompressData (drop parent_token_index spec_signature)) (\<lambda>(len, num_generic_arguments).
              generic_argument env cor (unat num_generic_arguments) (unat generic_type_index)
                (drop (parent_token_index + unat len) spec_signature) held reqs)))
      else ReturnTypeTokenforValueTypeElementType env cor p held reqs))"

section \<open>The token of a type\<close>

text \<open>
  What the answer is made of: a token of the signature, a type of the core library, or a type
  specification. References are not values and have none.
\<close>

datatype token_source = Given mdToken | Core wstring | Spec bytes

fun value_token :: "sigtype \<Rightarrow> token_source option" where
  "value_token (Prim e) = (if e = ELEMENT_TYPE_VOID then None else map_option Core (managed_type_name e))"
| "value_token (Named k tk) = (if k = ELEMENT_TYPE_VALUETYPE then Some (Given tk) else None)"
| "value_token (SzArray t) = None"
| "value_token (GenericInst k tk ts) =
     (if k = ELEMENT_TYPE_VALUETYPE then Some (Spec (TypeNames.encode (GenericInst k tk ts))) else None)"
| "value_token (Var n) = Some (Spec (TypeNames.encode (Var n)))"
| "value_token (MVar n) = Some (Spec (TypeNames.encode (MVar n)))"

fun obtained :: "TokenEnv \<Rightarrow> AssemblyProperty \<Rightarrow> mdToken \<Rightarrow> emit_call list \<Rightarrow> token_source option \<Rightarrow> (bool \<times> mdToken) \<times> emit_call list" where
  "obtained env cor held reqs None = ((False, held), reqs)"
| "obtained env cor held reqs (Some (Given tk)) = ((True, tk), reqs)"
| "obtained env cor held reqs (Some (Core s)) = core_type env cor s held reqs"
| "obtained env cor held reqs (Some (Spec sig)) = spec_type env sig held reqs"

text \<open>The types the recogniser accepts.\<close>

fun parseable :: "sigtype \<Rightarrow> bool" where
  "parseable (Prim e) \<longleftrightarrow> primitive e"
| "parseable (Named k tk) \<longleftrightarrow> k \<in> {ELEMENT_TYPE_CLASS, ELEMENT_TYPE_VALUETYPE} \<and> TypeFromToken tk \<in> set g_tkCorEncodeToken"
| "parseable (SzArray t) \<longleftrightarrow> parseable t"
| "parseable (GenericInst k tk ts) \<longleftrightarrow> k \<in> {ELEMENT_TYPE_CLASS, ELEMENT_TYPE_VALUETYPE} \<and>
     TypeFromToken tk \<in> set g_tkCorEncodeToken \<and> length ts \<le> 0x1FFFFFFF \<and> (\<forall>t\<in>set ts. parseable t)"
| "parseable (Var n) \<longleftrightarrow> n \<le> 0x7F"
| "parseable (MVar n) \<longleftrightarrow> n \<le> 0x7F"

lemma seq_parseable: "(\<And>t. t \<in> set ts \<Longrightarrow> type_sig (TypeNames.encode t)) \<Longrightarrow> seq type_sig (length ts) (concat (map TypeNames.encode ts))"
  by (induction ts) (auto intro: seq.intros)

lemma type_sig_encode: "parseable t \<Longrightarrow> type_sig (TypeNames.encode t)"
proof (induction t)
  case (SzArray t)
  then show ?case using type_modified [of ELEMENT_TYPE_SZARRAY "[]"] by (auto intro: mods.intros)
next
  case (GenericInst k tk ts)
  then have "seq type_sig (unat (of_nat (length ts) :: u32)) (concat (map TypeNames.encode ts))"
    using seq_parseable by (simp add: length_of_nat)
  with GenericInst show ?case
    using type_sig.type_generic [OF _ a_number_token CompressData_number(1) [OF of_nat_le]] by auto
next
  case (Var n)
  then have "n \<le> 0x1FFFFFFF" by (simp add: word_le_nat_alt)
  then show ?case using a_numberI [OF CompressData_number(1)] by (auto intro: type_sig.intros)
next
  case (MVar n)
  then have "n \<le> 0x1FFFFFFF" by (simp add: word_le_nat_alt)
  then show ?case using a_numberI [OF CompressData_number(1)] by (auto intro: type_sig.intros)
qed (auto intro: type_sig.intros)

lemma parsed_type: "parseable t \<Longrightarrow> parsed (ParseType (TypeNames.encode t @ r)) = Done (Some r)"
  by (simp add: parsed_def ParseType_complete [OF type_sig_encode])

text \<open>The type that stands at the cursor, read as its tree says.\<close>

definition readable_value :: "sigtype \<Rightarrow> bool" where
  "readable_value t \<longleftrightarrow> parseable t \<or> (\<exists>e. t = Prim e \<and> e \<notin> {ELEMENT_TYPE_GENERICINST, ELEMENT_TYPE_VAR, ELEMENT_TYPE_MVAR, ELEMENT_TYPE_VALUETYPE})"

lemma compressed_small: "n \<le> 0x7F \<Longrightarrow> snd (CorSigCompressData n) = [ucast n]"
  by (simp add: CorSigCompressData_def)

lemma small_fits: "n \<le> 0x7F \<Longrightarrow> n \<le> (0x1FFFFFFF :: u32)"
  by (simp add: word_le_nat_alt)

lemma compressed_number:
  "n \<le> 0x1FFFFFFF \<Longrightarrow> CorSigUncompressData (snd (CorSigCompressData n) @ r) = Done (of_nat (length (snd (CorSigCompressData n))), n)"
  "n \<le> 0x1FFFFFFF \<Longrightarrow> unat (of_nat (length (snd (CorSigCompressData n))) :: u32) = length (snd (CorSigCompressData n))"
  "n \<le> 0x1FFFFFFF \<Longrightarrow> of_nat (length (snd (CorSigCompressData n))) \<noteq> (-1 :: u32)"
  using CompressData_number(1) [of n] UncompressData_number by (auto dest: unat_small_length small_length_not_minus_one)

lemma generic_instance_parsed:
  assumes "parsed (ParseType (e @ r)) = Done (Some r)" and "peek (tl (e @ r)) = Done (elt k)"
  shows "generic_instance env (e @ r) held reqs =
    Done (if k = ELEMENT_TYPE_VALUETYPE then spec_type env e held reqs else ((False, held), reqs))"
  using assms unfolding generic_instance_def by simp

lemma generic_instance_type:
  assumes "parseable (GenericInst k tk ts)"
  shows "generic_instance env (TypeNames.encode (GenericInst k tk ts) @ r) held reqs =
    Done (obtained env cor held reqs (value_token (GenericInst k tk ts)))"
  using generic_instance_parsed [OF parsed_type [OF assms], of r k] by simp

lemma value_type_token:
  assumes "parseable t \<or> (\<exists>e. t = Prim e \<and> e \<noteq> ELEMENT_TYPE_VALUETYPE)"
    and "t \<noteq> Prim ELEMENT_TYPE_VOID" and "\<forall>k tk ts n. t \<noteq> GenericInst k tk ts \<and> t \<noteq> Var n \<and> t \<noteq> MVar n"
  shows "ReturnTypeTokenforValueTypeElementType env cor (TypeNames.encode t @ r) held reqs = Done (obtained env cor held reqs (value_token t))"
proof (cases t)
  case (Named k tk)
  then have tk: "TypeFromToken tk \<in> set g_tkCorEncodeToken" and k: "k \<in> {ELEMENT_TYPE_CLASS, ELEMENT_TYPE_VALUETYPE}"
    using assms(1) by auto
  have "of_nat (length (snd (CorSigCompressToken tk))) \<noteq> (-1 :: u32)"
    using compressed_number(3) [OF token_number_le] by (simp add: CompressToken_number)
  then show ?thesis using k uncompress_token(1) [OF tk, of r]
    by (auto simp: Named ReturnTypeTokenforValueTypeElementType_def managed_type_name_def)
next
  case (Prim e)
  then have "e \<noteq> ELEMENT_TYPE_VALUETYPE" using assms(1) by auto
  then show ?thesis using assms(2)
    by (cases "managed_type_name e") (simp_all add: Prim ReturnTypeTokenforValueTypeElementType_def)
qed (use assms in \<open>auto simp: ReturnTypeTokenforValueTypeElementType_def managed_type_name_def\<close>)

lemma generic_argument_exact:
  assumes "i < length ts" and "\<forall>t\<in>set (take i ts). parseable t" and "readable_value (ts ! i)" and "ts ! i \<noteq> Prim ELEMENT_TYPE_VOID"
  shows "generic_argument env cor (length ts) i (concat (map TypeNames.encode ts) @ r) held reqs =
    Done (obtained env cor held reqs (value_token (ts ! i)))"
  using assms
proof (induction ts arbitrary: i)
  case (Cons t ts)
  show ?case
  proof (cases i)
    case 0
    note t = Cons.prems(3,4) [unfolded 0, simplified]
    show ?thesis
    proof (cases t)
      case (GenericInst k tk us)
      then have p: "parseable (GenericInst k tk us)" using t by (simp add: readable_value_def)
      show ?thesis using generic_instance_type [OF p] by (simp add: 0 GenericInst)
    next
      case (Var n)
      then have "n \<le> 0x7F" using t by (simp add: readable_value_def)
      then show ?thesis by (simp add: 0 Var compressed_small)
    next
      case (MVar n)
      then have "n \<le> 0x7F" using t by (simp add: readable_value_def)
      then show ?thesis by (simp add: 0 MVar compressed_small)
    next
      case (Prim e)
      then have "e \<notin> {ELEMENT_TYPE_GENERICINST, ELEMENT_TYPE_VAR, ELEMENT_TYPE_MVAR, ELEMENT_TYPE_VALUETYPE}"
        using t by (auto simp: readable_value_def)
      then show ?thesis using value_type_token [of t env cor] t by (simp add: 0 Prim)
    next
      case (Named k tk)
      then show ?thesis using value_type_token [of t env cor] t by (auto simp: 0 readable_value_def)
    next
      case (SzArray u)
      then show ?thesis using value_type_token [of t env cor] t by (simp add: 0 readable_value_def)
    qed
  next
    case (Suc j)
    then show ?thesis using Cons.IH [of j] Cons.prems parsed_type by simp
  qed
qed simp

section \<open>The token of the return type\<close>

text \<open>
  The metadata lists the types \<open>ts\<close> for the type parameters of a call: in the signature of the
  method specification, or in that of the type specification the method belongs to.
\<close>

definition lists_types :: "sigtype list \<Rightarrow> bytes" where
  "lists_types ts = snd (CorSigCompressData (of_nat (length ts))) @ concat (map TypeNames.encode ts)"

definition spec_lists :: "MetaDataImport \<Rightarrow> mdToken \<Rightarrow> sigtype list \<Rightarrow> bool" where
  "spec_lists md parent_token ts \<longleftrightarrow> (let (hr, spec) = GetTypeSpecFromToken md parent_token in \<not> FAILED hr \<and>
     (\<exists>kind tk. TypeFromToken tk \<in> set g_tkCorEncodeToken \<and> GetSignatureByteRepresentation spec =
        elt ELEMENT_TYPE_GENERICINST # elt kind # snd (CorSigCompressToken tk) @ lists_types ts))"

definition type_arguments :: "MetaDataImport \<Rightarrow> mdToken \<Rightarrow> bool \<Rightarrow> sigtype list \<Rightarrow> bool" where
  "type_arguments md token generic_method ts \<longleftrightarrow> length ts \<le> 0x1FFFFFFF \<and>
     (if TypeFromToken token = token_tag mdtMethodSpec then
        (let (hr, parent, spec) = GetMethodSpecProps md token in
         \<not> FAILED hr \<and> GetSignatureByteRepresentation spec = 0x0a # lists_types ts)
      else if TypeFromToken token = token_tag mdtMemberRef then \<not> generic_method \<and>
        (let (hr, parent, _) = GetMemberRefProps md token in \<not> FAILED hr \<and> spec_lists md parent ts)
      else TypeFromToken token = token_tag mdtMethodDef \<and> \<not> generic_method \<and>
        (let (hr, parent, _) = GetMemberProps md token in \<not> FAILED hr \<and> spec_lists md parent ts))"

definition bound_type :: "sigtype list \<Rightarrow> sigtype \<Rightarrow> sigtype" where
  "bound_type ts t = (case t of Var n \<Rightarrow> ts ! unat n | MVar n \<Rightarrow> ts ! unat n | _ \<Rightarrow> t)"

lemma spec_lists_token:
  assumes "spec_lists md parent ts"
  obtains hr spec tk where "GetTypeSpecFromToken md parent = (hr, spec)" and "\<not> FAILED hr"
    and "CorSigUncompressToken (drop 2 (GetSignatureByteRepresentation spec)) =
      Done (of_nat (length (snd (CorSigCompressToken tk))), tk)"
    and "drop (2 + unat (of_nat (length (snd (CorSigCompressToken tk))) :: u32)) (GetSignatureByteRepresentation spec) = lists_types ts"
proof -
  obtain hr spec where g: "GetTypeSpecFromToken md parent = (hr, spec)" by (cases "GetTypeSpecFromToken md parent")
  obtain kind tk where tk: "TypeFromToken tk \<in> set g_tkCorEncodeToken" and hr: "\<not> FAILED hr"
    and s: "GetSignatureByteRepresentation spec = elt ELEMENT_TYPE_GENERICINST # elt kind # snd (CorSigCompressToken tk) @ lists_types ts"
    using assms g by (auto simp: spec_lists_def)
  show ?thesis
    by (rule that [OF g hr, of tk]) (simp_all add: s uncompress_token(1) [OF tk] uncompress_token(2) [OF tk])
qed

lemma generic_arguments_listed:
  assumes "type_arguments md token generic_method ts"
  obtains sig i where "generic_arguments_of md token generic_method = Done (Some (sig, i))" and "drop i sig = lists_types ts"
proof -
  consider (spec) "TypeFromToken token = token_tag mdtMethodSpec" | (ref) "TypeFromToken token = token_tag mdtMemberRef" "\<not> generic_method"
    | (member) "TypeFromToken token = token_tag mdtMethodDef" "\<not> generic_method"
    using assms by (auto simp: type_arguments_def split: if_splits)
  then show ?thesis
  proof cases
    case spec
    obtain hr parent s where "GetMethodSpecProps md token = (hr, parent, s)" by (cases "GetMethodSpecProps md token") auto
    then show ?thesis using assms spec that [of "GetSignatureByteRepresentation s" 1]
      by (simp add: type_arguments_def generic_arguments_of_def)
  next
    case ref
    obtain hr parent x where g: "GetMemberRefProps md token = (hr, parent, x)" by (cases "GetMemberRefProps md token") auto
    then have "\<not> FAILED hr" "spec_lists md parent ts" using assms ref by (simp_all add: type_arguments_def)
    then show ?thesis using ref that
      by (elim spec_lists_token) (simp add: generic_arguments_of_def Let_def g)
  next
    case member
    obtain hr parent x where g: "GetMemberProps md token = (hr, parent, x)" by (cases "GetMemberProps md token") auto
    then have "\<not> FAILED hr" "spec_lists md parent ts" using assms member by (simp_all add: type_arguments_def)
    then show ?thesis using member that
      by (elim spec_lists_token) (simp add: generic_arguments_of_def Let_def g)
  qed
qed

lemma bound_token:
  assumes "n \<le> 0x7F" and ts: "type_arguments md token generic_method ts" and "unat n < length ts"
    and "\<forall>u\<in>set (take (unat n) ts). parseable u" and "readable_value (ts ! unat n)" and "ts ! unat n \<noteq> Prim ELEMENT_TYPE_VOID"
  shows "obind (CorSigUncompressData (snd (CorSigCompressData n) @ rest)) (\<lambda>(result, generic_type_index).
        if result = -1 then Done ((False, held), reqs)
        else obind (generic_arguments_of md token generic_method)
          (\<lambda>spec. case spec of None \<Rightarrow> Done ((False, held), reqs) | Some (spec_signature, parent_token_index) \<Rightarrow>
            obind (CorSigUncompressData (drop parent_token_index spec_signature)) (\<lambda>(len, num_generic_arguments).
              generic_argument env cor (unat num_generic_arguments) (unat generic_type_index)
                (drop (parent_token_index + unat len) spec_signature) held reqs))) =
      Done (obtained env cor held reqs (value_token (ts ! unat n)))"
proof -
  obtain sig i where g: "generic_arguments_of md token generic_method = Done (Some (sig, i))" and d: "drop i sig = lists_types ts"
    using generic_arguments_listed [OF ts] .
  have len: "length ts \<le> 0x1FFFFFFF" using ts by (simp add: type_arguments_def)
  then have l: "of_nat (length ts) \<le> (0x1FFFFFFF :: u32)" "unat (of_nat (length ts) :: u32) = length ts"
    by (simp_all add: of_nat_le length_of_nat)
  have "drop (i + length (snd (CorSigCompressData (of_nat (length ts))))) sig = concat (map TypeNames.encode ts)"
    using d by (metis append_eq_conv_conj drop_drop add.commute lists_types_def)
  moreover note generic_argument_exact [OF assms(3-6), of env cor "[]" held reqs]
  ultimately show ?thesis
    using compressed_number [OF small_fits [OF assms(1)]] compressed_number [OF l(1)]
    by (simp add: g d lists_types_def l)
qed


section \<open>A concrete call\<close>

text \<open>A call of a generic method that returns its type parameter, bound to an integer.\<close>

definition sample_calls :: MetaDataImport where
  "sample_calls = sample_metadata \<lparr>GetMethodSpecProps := (\<lambda>tk. (S_OK, 0x06000001, blob_of [0x0a, 0x01, 0x08]))\<rparr>"

definition sample_cor :: AssemblyProperty where
  "sample_cor = \<lparr>ppbPublicKey = None, pulHashAlgId = 0, pMetaData = \<lparr>usMajorVersion = 4, usMinorVersion = 0,
     usBuildNumber = 0, usRevisionNumber = 0\<rparr>, szName = [], assemblyFlags = 0\<rparr>"


end
