(* ===== verification/CallSites.thy ===== *)
theory CallSites
  imports ReturnTypes CallTargetWrites
begin

text \<open>
  The rewriting of call sites (\<^verbatim>\<open>ProcessReplacementCalls\<close> and \<^verbatim>\<open>ProcessInsertionCalls\<close> of
  \<^verbatim>\<open>cor_profiler.cpp\<close>), which instruments the callers of a method instead of the method: every call
  that matches the target of an integration is replaced by one of the wrapper.
\<close>

section \<open>The decision\<close>

text \<open>
  What the profiler and the runtime hold while a method is rewritten. \<open>behind_signature\<close> is the
  memory behind the bytes of the target's signature, \<open>held_token\<close> that of an uninitialised token,
  and \<open>mvid_address\<close> the address of the module version identifier.
\<close>

record Replacing =
  rp_info :: CorProfilerInfo
  rp_loaded :: LoadedProfilers
  rp_env :: TokenEnv
  rp_lookups :: Lookups
  rp_module :: u64
  rp_fuel :: nat
  rp_cor :: AssemblyProperty
  is_desktop :: bool
  corlib_module_loaded :: bool
  corlib_app_domain_id :: u64
  instrument_domain_neutral_assemblies :: bool
  behind_signature :: bytes
  held_token :: mdToken
  mvid_address :: u64

definition added_parameters_count :: nat where "added_parameters_count = 3"

text \<open>The counts are bytes, and so is their difference.\<close>

definition expected_number_args :: "MethodReplacement \<Rightarrow> FunctionInfo \<Rightarrow> u8" where
  "expected_number_args method_replacement target =
     NumberOfArguments (method_signature (wrapper_method method_replacement)) - of_nat added_parameters_count -
     (if IsInstanceMethod (fi_signature target) then 1 else 0)"

text \<open>The names, then the size and the counts of the signatures.\<close>

definition call_matches :: "MethodReplacement \<Rightarrow> FunctionInfo \<Rightarrow> bool" where
  "call_matches method_replacement target \<longleftrightarrow>
     FunctionInfo_IsValid target \<and>
     type_name_of (target_method method_replacement) = info_name (fi_type target) \<and>
     method_name (target_method method_replacement) = fi_name target \<and>
     \<not> length (data (method_signature (wrapper_method method_replacement))) < added_parameters_count + 3 \<and>
     expected_number_args method_replacement target = NumberOfArguments (fi_signature target)"

text \<open>The types by name; an underscore matches every type.\<close>

definition types_match :: "wstring list \<Rightarrow> wstring list \<Rightarrow> bool" where
  "types_match expected_sig actual_sig \<longleftrightarrow>
     list_all2 (\<lambda>e a. e = WStr ''_'' \<or> e = a) expected_sig actual_sig"

definition define_method_spec :: "TokenEnv \<Rightarrow> mdToken \<Rightarrow> MethodSignature \<Rightarrow> emit_call list \<Rightarrow> mdToken \<times> emit_call list" where
  "define_method_spec env token signature reqs =
     (let ((hr, spec), reqs) = request env (DefineMethodSpec token (data signature)) mdMethodSpecNil reqs in (spec, reqs))"

definition caller_assembly_is_domain_neutral :: "Replacing \<Rightarrow> ModuleMetadata \<Rightarrow> bool" where
  "caller_assembly_is_domain_neutral r mm \<longleftrightarrow>
     is_desktop r \<and> corlib_module_loaded r \<and> mm_app_domain_id mm = corlib_app_domain_id r"

text \<open>
  The tests of a call up to the first change of the code, but for the last, which looks at the
  instruction before it: the target, the token of the wrapper and that of the target's
  definition, or nothing where the call is left alone.
\<close>

definition target_site ::
  "Replacing \<Rightarrow> MethodReplacement \<Rightarrow> mdToken \<Rightarrow> builder_state \<Rightarrow> ((FunctionInfo \<times> mdToken \<times> mdToken) option \<times> builder_state) exec" where
  "target_site r method_replacement token st =
     xbind (as_exec (GetFunctionInfo (rp_fuel r) (metadata_import (fst st)) token)) (\<lambda>target.
     if \<not> call_matches method_replacement target then Ok (None, st)
     else let ((generated, wrapper_method_ref, _), mm, reqs) =
         GetWrapperMethodRef (rp_info r) (rp_env r) (rp_lookups r) (rp_module r) method_replacement st in
       if \<not> generated then Ok (None, mm, reqs)
       else if is_generic target \<and>
           NumberOfTypeArguments (fi_signature target) \<noteq> NumberOfTypeArguments (method_signature (wrapper_method method_replacement))
       then Ok (None, mm, reqs)
       else
         let (wrapper_method_ref, reqs) = (if is_generic target
               then define_method_spec (rp_env r) wrapper_method_ref (function_spec_signature target) reqs else (wrapper_method_ref, reqs));
             method_def_md_token = (if is_generic target then method_def_id target else fi_id target) in
         case TryParseSignatureTypes (rp_fuel r) (metadata_import mm) (held_token r) target of
           Overread \<Rightarrow> Overrun
         | NoFuel \<Rightarrow> Overrun
         | Reject \<Rightarrow> Ok (None, mm, reqs)
         | Done actual_sig \<Rightarrow>
             if types_match (signature_types (target_method method_replacement)) actual_sig \<and>
               ProfilerAssemblyIsLoadedIntoAppDomain (rp_loaded r) (mm_app_domain_id mm) \<and>
               \<not> (caller_assembly_is_domain_neutral r mm \<and> \<not> instrument_domain_neutral_assemblies r)
             then Ok (Some (target, wrapper_method_ref, method_def_md_token), mm, reqs)
             else Ok (None, mm, reqs))"

section \<open>The new code\<close>

text \<open>The loop over the types before the last argument; nothing where one cannot be read.\<close>

primrec skip_types :: "nat \<Rightarrow> bytes \<Rightarrow> bytes option outcome" where
  "skip_types 0 pSigCurrent = Done (Some pSigCurrent)"
| "skip_types (Suc n) pSigCurrent = obind (parsed (ParseType pSigCurrent)) (\<lambda>p.
     case p of None \<Rightarrow> Done None | Some p \<Rightarrow> skip_types n p)"

text \<open>
  The types the last argument is boxed to, in the order of the box instructions. The token of a
  value type is read with the overload that moves the pointer, so the second test looks behind
  it.
\<close>

definition box_value_type :: "Replacing \<Rightarrow> MetaDataImport \<Rightarrow> bytes \<Rightarrow> (mdToken list \<times> bytes) outcome" where
  "box_value_type r md pSigCurrent =
     obind (peek pSigCurrent) (\<lambda>b.
     if b \<noteq> elt ELEMENT_TYPE_VALUETYPE then Done ([], pSigCurrent)
     else obind (CorSigUncompressToken_ref (tl pSigCurrent)) (\<lambda>(valuetype_type_token, pSigCurrent).
       obind (GetTypeInfo (rp_fuel r) md valuetype_type_token) (\<lambda>i.
         Done (if info_name i = WStr ''System.Threading.CancellationToken'' then [valuetype_type_token] else [], pSigCurrent))))"

definition box_generic_type ::
  "Replacing \<Rightarrow> MetaDataImport \<Rightarrow> bytes \<Rightarrow> emit_call list \<Rightarrow> (mdToken list \<times> emit_call list) outcome" where
  "box_generic_type r md p_start_byte reqs =
     obind (peek p_start_byte) (\<lambda>b.
     if b \<noteq> elt ELEMENT_TYPE_GENERICINST then Done ([], reqs)
     else obind (peek (tl p_start_byte)) (\<lambda>b.
     if b \<noteq> elt ELEMENT_TYPE_VALUETYPE then Done ([], reqs)
     else obind (CorSigUncompressToken_ref (tl (tl p_start_byte))) (\<lambda>(valuetype_type_token, pSigCurrent).
       obind (GetTypeInfo (rp_fuel r) md valuetype_type_token) (\<lambda>i.
       if info_name i \<noteq> WStr ''System.ReadOnlyMemory`1'' then Done ([], reqs)
       else obind (parsed (ParseType p_start_byte)) (\<lambda>p_end_byte.
         case p_end_byte of None \<Rightarrow> Done ([], reqs)
         | Some e \<Rightarrow>
             let ((hr, type_token), reqs) = request (rp_env r)
                   (GetTokenFromTypeSpec (take (length p_start_byte - length e) p_start_byte)) (held_token r) reqs
             in Done ([type_token], reqs))))))"

definition box_tokens ::
  "Replacing \<Rightarrow> MetaDataImport \<Rightarrow> FunctionInfo \<Rightarrow> emit_call list \<Rightarrow> (mdToken list \<times> emit_call list) outcome" where
  "box_tokens r md target reqs =
     (let sig = fi_signature target in
      obind (skip_types (unat (NumberOfArguments sig)) (drop (IndexOfReturnType sig) (data sig) @ behind_signature r)) (\<lambda>p.
      case p of None \<Rightarrow> Done ([], reqs)
      | Some pSigCurrent \<Rightarrow>
          obind (box_value_type r md pSigCurrent) (\<lambda>(a, pSigCurrent).
          obind (box_generic_type r md pSigCurrent reqs) (\<lambda>(b, reqs). Done (a @ b, reqs)))))"

definition unbox_token ::
  "Replacing \<Rightarrow> MethodReplacement \<Rightarrow> MetaDataImport \<Rightarrow> FunctionInfo \<Rightarrow> emit_call list \<Rightarrow> (mdToken option \<times> emit_call list) outcome" where
  "unbox_token r method_replacement md target reqs =
     obind (ReturnTypeIsObject (method_signature (wrapper_method method_replacement))) (\<lambda>object.
     if \<not> object then Done (None, reqs)
     else obind (ReturnTypeIsValueTypeOrGeneric (rp_env r) md (rp_cor r) (fi_id target) (fi_signature target) (held_token r) reqs)
       (\<lambda>((unboxed, typeToken), reqs). Done (if unboxed then Some typeToken else None, reqs)))"

definition is_call :: "u32 \<Rightarrow> bool" where
  "is_call opcode \<longleftrightarrow> opcode = CEE_CALL \<or> opcode = CEE_CALLVIRT"

text \<open>
  The changes at a call: it becomes a no-operation, so that branches to it stay, and the new
  instructions come behind it; the position is moved from the next instruction to the new call.
\<close>

definition write_site ::
  "Replacing \<Rightarrow> mdToken \<Rightarrow> mdToken \<Rightarrow> mdToken list \<Rightarrow> mdToken option \<Rightarrow> ptr \<Rightarrow> ILRewriter \<Rightarrow> ptr \<times> ILRewriter" where
  "write_site r wrapper_method_ref method_def_md_token boxed unboxed pInstr s =
     (let w = SetILPosition pInstr (new_ILRewriterWrapper s);
          original_methodcall_opcode = m_opcode (heap s pInstr);
          w = w \<lparr>m_ILRewriter := upd pInstr (set_opcode CEE_NOP) (m_ILRewriter w)\<rparr>;
          pInstr = m_pNext (heap (m_ILRewriter w) pInstr);
          w = SetILPosition pInstr w;
          w = fold Box boxed w;
          w = snd (CallMember wrapper_method_ref False w);
          w = SetILPosition (m_pPrev (heap (m_ILRewriter w) pInstr)) w;
          w = LoadInt32 original_methodcall_opcode w;
          w = LoadInt32 method_def_md_token w;
          w = LoadInt64 (mvid_address r) w;
          w = (case unboxed of None \<Rightarrow> w | Some typeToken \<Rightarrow> UnboxAnyAfter typeToken w)
      in (pInstr, m_ILRewriter w))"

section \<open>The loops\<close>

text \<open>
  All that is decided about an instruction: the token of the wrapper and that of the definition,
  the types to box to and the one to unbox to. The requests are made in the order of the code;
  those for the return type come behind the new call in the source, which they do not look at.
\<close>

definition site_plan ::
  "Replacing \<Rightarrow> MethodReplacement \<Rightarrow> u32 \<Rightarrow> u32 \<Rightarrow> mdToken \<Rightarrow> builder_state \<Rightarrow>
   ((mdToken \<times> mdToken \<times> mdToken list \<times> mdToken option) option \<times> builder_state) exec" where
  "site_plan r method_replacement previous_opcode opcode token st =
     (if \<not> is_call opcode then Ok (None, st)
      else xbind (target_site r method_replacement token st) (\<lambda>(found, st).
        case found of None \<Rightarrow> Ok (None, st)
        | Some (target, wrapper_method_ref, method_def_md_token) \<Rightarrow>
            if opcode = CEE_CALLVIRT \<and> previous_opcode = CEE_CONSTRAINED then Ok (None, st)
            else
              let md = metadata_import (fst st) in
              xbind (as_exec (box_tokens r md target (snd st))) (\<lambda>(boxed, reqs).
              xbind (as_exec (unbox_token r method_replacement md target reqs)) (\<lambda>(unboxed, reqs).
                Ok (Some (wrapper_method_ref, method_def_md_token, boxed, unboxed), fst st, reqs)))))"

text \<open>The body of the loop over the instructions, with the instruction the loop goes on behind.\<close>

definition replace_site ::
  "Replacing \<Rightarrow> MethodReplacement \<Rightarrow> ptr \<Rightarrow> bool \<times> ILRewriter \<times> builder_state \<Rightarrow> (ptr \<times> bool \<times> ILRewriter \<times> builder_state) exec" where
  "replace_site r method_replacement pInstr state =
     (let (modified, s, st) = state; i = heap s pInstr in
      xbind (site_plan r method_replacement (m_opcode (heap s (m_pPrev i))) (m_opcode i) (get_Arg32 i) st) (\<lambda>(plan, st).
        case plan of None \<Rightarrow> Ok (pInstr, modified, s, st)
        | Some (wrapper_method_ref, method_def_md_token, boxed, unboxed) \<Rightarrow>
            let (pInstr, s) = write_site r wrapper_method_ref method_def_md_token boxed unboxed pInstr s
            in Ok (pInstr, True, s, st)))"

partial_function (option) replace_loop ::
  "Replacing \<Rightarrow> MethodReplacement \<Rightarrow> ptr \<Rightarrow> bool \<times> ILRewriter \<times> builder_state \<Rightarrow> (bool \<times> ILRewriter \<times> builder_state) exec option" where
  "replace_loop r method_replacement pInstr state =
     (if pInstr = il_head then Some (Ok state)
      else case replace_site r method_replacement pInstr state of
          Overrun \<Rightarrow> Some Overrun
        | Fail hr \<Rightarrow> Some (Fail hr)
        | Ok (pInstr, state) \<Rightarrow> replace_loop r method_replacement (m_pNext (heap (fst (snd state)) pInstr)) state)"

declare replace_loop.simps [code]

definition replaces_target :: "MethodReplacement \<Rightarrow> bool" where
  "replaces_target method_replacement \<longleftrightarrow> action (wrapper_method method_replacement) = WStr ''ReplaceTargetMethod''"

definition failed_before :: "builder_state \<Rightarrow> MethodReplacement \<Rightarrow> bool" where
  "failed_before st method_replacement \<longleftrightarrow> IsFailedWrapperMemberKey (fst st) (get_method_cache_key (wrapper_method method_replacement))"

primrec replace_each ::
  "Replacing \<Rightarrow> MethodReplacement list \<Rightarrow> bool \<times> ILRewriter \<times> builder_state \<Rightarrow> (bool \<times> ILRewriter \<times> builder_state) exec option" where
  "replace_each r [] state = Some (Ok state)"
| "replace_each r (method_replacement # ms) state =
     (let (modified, s, st) = state in
      if \<not> replaces_target method_replacement \<or> failed_before st method_replacement then replace_each r ms state
      else obind_exec (replace_loop r method_replacement (first_instr s) state) (replace_each r ms))"

text \<open>The end of both: the body is exported only if it was changed.\<close>

definition export_modified ::
  "clr \<Rightarrow> (nat \<Rightarrow> u8) \<Rightarrow> bool \<times> ILRewriter \<times> builder_state \<Rightarrow> ((hresult \<times> bytes option) \<times> builder_state) exec option" where
  "export_modified ci mem' state =
     (let (modified, s, st) = state in
      if \<not> modified then Some (Ok ((S_OK, None), st))
      else case Export ci mem' s of
          None \<Rightarrow> None
        | Some Overrun \<Rightarrow> Some Overrun
        | Some (Fail hr) \<Rightarrow> Some (Ok ((hr, None), st))
        | Some (Ok (s, totalSize, pBody)) \<Rightarrow> Some (Ok ((S_OK, Some pBody), st)))"

definition import_then ::
  "clr \<Rightarrow> ILRewriter \<Rightarrow> builder_state \<Rightarrow> (ILRewriter \<Rightarrow> ((hresult \<times> bytes option) \<times> builder_state) exec option) \<Rightarrow>
   ((hresult \<times> bytes option) \<times> builder_state) exec option" where
  "import_then ci mem st k =
     (case Import ci (new_ILRewriter mem) of
        None \<Rightarrow> None
      | Some Overrun \<Rightarrow> Some Overrun
      | Some (Fail hr) \<Rightarrow> Some (Ok ((hr, None), st))
      | Some (Ok rewriter) \<Rightarrow> k rewriter)"

definition ProcessReplacementCalls ::
  "Replacing \<Rightarrow> clr \<Rightarrow> ILRewriter \<Rightarrow> (nat \<Rightarrow> u8) \<Rightarrow> MethodReplacement list \<Rightarrow> builder_state \<Rightarrow>
   ((hresult \<times> bytes option) \<times> builder_state) exec option" where
  "ProcessReplacementCalls r ci mem mem' method_replacements st =
     import_then ci mem st (\<lambda>rewriter.
       obind_exec (replace_each r method_replacements (False, rewriter, st)) (export_modified ci mem'))"

text \<open>The body of the loop of \<^verbatim>\<open>ProcessInsertionCalls\<close>; the state has the first instruction.\<close>

definition insert_call ::
  "Replacing \<Rightarrow> MethodReplacement \<Rightarrow> ptr \<times> bool \<times> ILRewriter \<times> builder_state \<Rightarrow> ptr \<times> bool \<times> ILRewriter \<times> builder_state" where
  "insert_call r method_replacement state =
     (let (firstInstr, modified, s, st) = state in
      if replaces_target method_replacement \<or> failed_before st method_replacement then state
      else let ((generated, wrapper_method_ref, _), st) =
          GetWrapperMethodRef (rp_info r) (rp_env r) (rp_lookups r) (rp_module r) method_replacement st in
        if \<not> generated then (firstInstr, modified, s, st)
        else if action (wrapper_method method_replacement) = WStr ''InsertFirst'' then
          let s = m_ILRewriter (snd (CallMember wrapper_method_ref False (SetILPosition firstInstr (new_ILRewriterWrapper s))))
          in (m_pPrev (heap s firstInstr), True, s, st)
        else (firstInstr, modified, s, st))"

definition ProcessInsertionCalls ::
  "Replacing \<Rightarrow> clr \<Rightarrow> ILRewriter \<Rightarrow> (nat \<Rightarrow> u8) \<Rightarrow> MethodReplacement list \<Rightarrow> builder_state \<Rightarrow>
   ((hresult \<times> bytes option) \<times> builder_state) exec option" where
  "ProcessInsertionCalls r ci mem mem' method_replacements st =
     import_then ci mem st (\<lambda>rewriter.
       export_modified ci mem' (snd (fold (insert_call r) method_replacements (first_instr rewriter, False, rewriter, st))))"

section \<open>What is written\<close>

text \<open>
  \<open>puts s xs ys s' new cs\<close>: instructions \<open>new\<close> with the codes \<open>cs\<close> stand between \<open>xs\<close> and \<open>ys\<close>, the
  others and the sentinel are as they were, and the list can still be exported.
\<close>

definition puts :: "ILRewriter \<Rightarrow> ptr list \<Rightarrow> ptr list \<Rightarrow> ILRewriter \<Rightarrow> ptr list \<Rightarrow> code list \<Rightarrow> bool" where
  "puts s xs ys s' new cs \<longleftrightarrow>
     rewritable s' (xs @ new @ ys) \<and> map (code (heap s')) new = cs \<and>
     (\<forall>q\<in>set (il_head # xs @ ys). code (heap s') q = code (heap s) q) \<and>
     unat (m_nInstrs s') = unat (m_nInstrs s) + length new \<and> same_header s s'"

lemma puts_refl: "rewritable s (xs @ ys) \<Longrightarrow> puts s xs ys s [] []"
  by (simp add: puts_def)

text \<open>A second insertion within the first.\<close>

lemma puts_within:
  assumes "puts s xs ys s1 (a @ b) (ca @ cb)" and "length a = length ca" and "puts s1 (xs @ a) (b @ ys) s2 new cs"
  shows "puts s xs ys s2 (a @ new @ b) (ca @ cs @ cb)"
proof -
  have "map (code (heap s1)) a = ca" "map (code (heap s1)) b = cb"
    using assms(1,2) by (auto simp: puts_def)
  moreover have "map (code (heap s2)) a = map (code (heap s1)) a" "map (code (heap s2)) b = map (code (heap s1)) b"
    using assms(3) by (auto simp: puts_def)
  ultimately show ?thesis using assms(1,3) by (auto simp: puts_def intro: same_header_trans)
qed

lemmas puts_trans = puts_within [where b = "[]" and cb = "[]", simplified]

lemma puts_room: "puts s xs ys s' new cs \<Longrightarrow> room s (length cs + k) \<Longrightarrow> room s' k"
  by (auto simp: puts_def room_def)

lemma linked_puts:
  assumes "linked s xs ys p i s'" and "room s 1" and "code (heap s') il_head = code (heap s) il_head"
  shows "puts s xs ys s' [p] [(m_opcode i, m_arg i)]"
  using assms by (auto simp: puts_def linked_def ILLayout.agree_def code_def room_def unat_add32)

lemma new_instr_head:
  assumes "unlinking f" and "ring s ps" and "NewILInstr s = (p, s1)"
    and "s' = InsertBefore q p (upd p f s1) \<or> s' = InsertAfter q p (upd p f s1)"
  shows "code (heap s') il_head = code (heap s) il_head"
proof -
  have "p \<noteq> il_head" using NewILInstr_unlinked(2) [OF assms(2,3)] by (auto simp: unlinked_def)
  then show ?thesis using assms(3,4)
    by (auto simp: NewILInstr_def InsertBefore_def InsertAfter_def AdjustState_def upd_def code_def Let_def)
qed

lemma plain_unlinking: "plain f \<Longrightarrow> unlinking f"
  by (simp add: plain_def unlinking_def)

lemma insert_puts:
  assumes w: "rewritable (m_ILRewriter w) (xs @ ys)" and q: "right_of ys = m_ILInstr w" and f: "plain f"
    and k: "room (m_ILRewriter w) 1" and i: "insert_new f w = (p, w')"
  shows "puts (m_ILRewriter w) xs ys (m_ILRewriter w') [p] [op_code f]" and "m_ILInstr w' = m_ILInstr w"
proof -
  have fits: "fits_list (m_ILRewriter w) (xs @ ys) f" using f by (simp add: fits_list_def)
  note L = insert_new_linked [OF w q fits k i]
  obtain s1 where n: "NewILInstr (m_ILRewriter w) = (p, s1)" and w': "m_ILRewriter w' = InsertBefore (m_ILInstr w) p (upd p f s1)"
    using i by (auto simp: insert_new_def Let_def split: prod.splits)
  have "ring (m_ILRewriter w) (xs @ ys)" using w by (simp add: rewritable_def exportable_def)
  from new_instr_head [OF plain_unlinking [OF f] this n disjI1 [OF w']]
  show "puts (m_ILRewriter w) xs ys (m_ILRewriter w') [p] [op_code f]"
    using linked_puts [OF L(1) k] by (simp add: op_code_def)
  show "m_ILInstr w' = m_ILInstr w" by (rule L(2))
qed

lemma in_order_puts:
  assumes "rewritable (m_ILRewriter w) (xs @ ys)" and "right_of ys = m_ILInstr w" and "list_all plain fs"
    and "room (m_ILRewriter w) (length fs)"
  shows "\<exists>new. puts (m_ILRewriter w) xs ys (m_ILRewriter (in_order (map insert_new fs) w)) new (map op_code fs) \<and>
    m_ILInstr (in_order (map insert_new fs) w) = m_ILInstr w"
  using assms
proof (induction fs arbitrary: w xs)
  case Nil
  then show ?case using puts_refl by (auto simp: in_order_def)
next
  case (Cons f fs)
  obtain p w1 where i: "insert_new f w = (p, w1)" by fastforce
  have "room (m_ILRewriter w) 1" using Cons.prems(4) by (rule room_mono) simp
  note P = insert_puts [OF Cons.prems(1,2) _ this i]
  have g: "puts (m_ILRewriter w) xs ys (m_ILRewriter w1) [p] [op_code f]" and pos: "m_ILInstr w1 = m_ILInstr w"
    using P Cons.prems(3) by simp_all
  have "rewritable (m_ILRewriter w1) ((xs @ [p]) @ ys)" "room (m_ILRewriter w1) (length fs)"
    using g puts_room [OF g, of "length fs"] Cons.prems(4) by (simp_all add: puts_def)
  then obtain new where n: "puts (m_ILRewriter w1) (xs @ [p]) ys (m_ILRewriter (in_order (map insert_new fs) w1)) new (map op_code fs)"
    and pos': "m_ILInstr (in_order (map insert_new fs) w1) = m_ILInstr w1"
    using Cons.IH [of w1 "xs @ [p]"] Cons.prems(2,3) pos by auto
  have "in_order (map insert_new (f # fs)) w = in_order (map insert_new fs) w1" using i by (simp add: in_order_def)
  then show ?case using puts_trans [OF g _ n] pos pos' by auto
qed

lemma not_target [simp]: "\<not> has_target CEE_NOP" "\<not> has_target CEE_CALL" "\<not> has_target CEE_CALLVIRT"
proof -
  have "plain (set_opcode CEE_NOP)" "plain (set_opcode CEE_CALL)" "plain (set_opcode CEE_CALLVIRT)"
    by (rule plain_opcode; simp)+
  then show "\<not> has_target CEE_NOP" "\<not> has_target CEE_CALL" "\<not> has_target CEE_CALLVIRT" by (simp_all add: plain_def)
qed

text \<open>The call that becomes a no-operation.\<close>

lemma nop_rewritable:
  assumes w: "rewritable s ps" and p: "p \<in> set ps" "is_call (m_opcode (heap s p))"
  shows "rewritable (upd p (set_opcode CEE_NOP) s) ps"
proof -
  let ?s = "upd p (set_opcode CEE_NOP) s"
  note W = w [unfolded rewritable_def exportable_def]
  have op: "m_opcode (heap ?s q) = (if q = p then CEE_NOP else m_opcode (heap s q))" "m_arg (heap ?s q) = m_arg (heap s q)" for q
    by (simp_all add: upd_def)
  have "ring ?s ps" using W ring_upd [of "set_opcode CEE_NOP" p s ps] by simp
  moreover have "known_opcode (m_opcode (heap ?s q))" if "q \<in> set ps" for q
    using W that by (auto simp: op known_opcode_def)
  moreover have "points_into (heap ?s) ps"
  proof -
    have "\<exists>t. m_arg (heap ?s q) = Target t \<and> (t = il_head \<or> t \<in> set ps \<and> m_opcode (heap ?s t) \<noteq> CEE_SWITCH_ARG)"
      if q: "q \<in> set ps" "has_target (m_opcode (heap ?s q))" for q
    proof -
      have "has_target (m_opcode (heap s q))" using q(2) by (auto simp: op split: if_splits)
      then obtain t where "m_arg (heap s q) = Target t" "t = il_head \<or> t \<in> set ps \<and> m_opcode (heap s t) \<noteq> CEE_SWITCH_ARG"
        using W q(1) unfolding points_into_def by blast
      then show ?thesis by (auto simp: op)
    qed
    then show ?thesis by (simp add: points_into_def)
  qed
  moreover have "readable ?s" using W by (cases "m_pEH s") (simp_all add: readable_def eh_clauses_def upd_def)
  ultimately show ?thesis using W by (simp add: rewritable_def exportable_def upd_def)
qed

definition long_code :: "u64 \<Rightarrow> code" where
  "long_code v = op_code (\<lambda>i. set_Arg64 v (set_opcode CEE_LDC_I8 i))"

definition unbox_code :: "mdToken option \<Rightarrow> code list" where
  "unbox_code unboxed = (case unboxed of None \<Rightarrow> [] | Some token \<Rightarrow> [token_code CEE_UNBOX_ANY token])"

text \<open>The code that takes the place of a call.\<close>

definition site_code :: "Replacing \<Rightarrow> mdToken \<Rightarrow> mdToken \<Rightarrow> mdToken list \<Rightarrow> mdToken option \<Rightarrow> code \<Rightarrow> code list" where
  "site_code r wrapper_method_ref method_def_md_token boxed unboxed c =
     (CEE_NOP, snd c) # map (token_code CEE_BOX) boxed @
     [int_code (fst c), int_code method_def_md_token, long_code (mvid_address r), token_code CEE_CALL wrapper_method_ref] @
     unbox_code unboxed"

lemma unbox_after_puts:
  assumes w: "rewritable (m_ILRewriter w) (xs @ ys)" and q: "left_of xs = m_ILInstr w" and k: "room (m_ILRewriter w) 1"
  shows "\<exists>p. puts (m_ILRewriter w) xs ys (m_ILRewriter (UnboxAnyAfter token w)) [p] [token_code CEE_UNBOX_ANY token]"
proof -
  let ?f = "\<lambda>i. set_Arg32 token (set_opcode CEE_UNBOX_ANY i)"
  obtain p s1 where n: "NewILInstr (m_ILRewriter w) = (p, s1)" by (cases "NewILInstr (m_ILRewriter w)")
  let ?s = "InsertAfter (left_of xs) p (upd p ?f s1)"
  have w': "m_ILRewriter (UnboxAnyAfter token w) = ?s"
    by (simp add: UnboxAnyAfter_def n Let_def q del: last.simps)
  have f: "plain ?f" by (rule plain_opcode) simp_all
  then have "fits_list (m_ILRewriter w) (xs @ ys) ?f" by (simp add: fits_list_def)
  note L = linked_new [OF w n this k disjI2 [OF refl]]
  have "ring (m_ILRewriter w) (xs @ ys)" using w by (simp add: rewritable_def exportable_def)
  from new_instr_head [OF plain_unlinking [OF f] this n disjI2 [OF refl]]
  have "code (heap ?s) il_head = code (heap (m_ILRewriter w)) il_head" .
  from linked_puts [OF L k this] show ?thesis
    unfolding w' token_code_def op_code_def by blast
qed

lemma fold_Box: "fold Box boxed w = in_order (map insert_new (map (\<lambda>token i. set_Arg32 token (set_opcode CEE_BOX i)) boxed)) w"
  by (induction boxed arbitrary: w) (simp_all add: in_order_def Box_def)

lemma ring_neighbours:
  assumes "ring s (xs @ p # ys)"
  shows "m_pNext (heap s p) = right_of ys" and "m_pPrev (heap s (right_of ys)) = p" and "m_pPrev (heap s p) = left_of xs"
  using ring_links [of s "xs @ [p]" ys] ring_links [of s xs "p # ys"] assms by simp_all

lemma rewritable_ring: "rewritable s ps \<Longrightarrow> ring s ps"
  by (simp add: rewritable_def exportable_def)

lemma write_site_exact:
  assumes w: "rewritable s (xs @ p # ys)" and call: "is_call (m_opcode (heap s p))" and k: "room s (length boxed + 5)"
  shows "\<exists>s' new. write_site r wrapper def boxed unboxed p s = (right_of ys, s') \<and> rewritable s' (xs @ p # new @ ys) \<and>
    map (code (heap s')) (p # new) = site_code r wrapper def boxed unboxed (code (heap s) p) \<and>
    (\<forall>q\<in>set (il_head # xs @ ys). code (heap s') q = code (heap s) q) \<and>
    unat (m_nInstrs s') = unat (m_nInstrs s) + length new \<and> same_header s s'"
proof -
  let ?s0 = "upd p (set_opcode CEE_NOP) s"
  let ?fs = "map (\<lambda>token i. set_Arg32 token (set_opcode CEE_BOX i)) boxed @ [\<lambda>i. set_Arg32 wrapper (set_opcode CEE_CALL i)]"
  let ?gs = "[int32_instr (m_opcode (heap s p)), int32_instr def, \<lambda>i. set_Arg64 (mvid_address r) (set_opcode CEE_LDC_I8 i)]"
  define w0 where "w0 = \<lparr>m_ILRewriter = ?s0, m_ILInstr = right_of ys\<rparr>"
  define w1 where "w1 = in_order (map insert_new ?fs) w0"
  have plain: "list_all plain ?fs" "list_all plain ?gs"
    using plain_opcode [of CEE_BOX] plain_opcode(2) [of CEE_CALL wrapper] plain_opcode(3) [of CEE_LDC_I8 "mvid_address r"]
    by (auto simp: list_all_iff plain_int32)
  have w0: "rewritable ?s0 ((xs @ [p]) @ ys)" using nop_rewritable [OF w _ call] by simp
  have room0: "room ?s0 (length boxed + 5)" using k by (simp add: room_def upd_def)
  have W0: "m_ILRewriter w0 = ?s0" "m_ILInstr w0 = right_of ys" by (simp_all add: w0_def)
  have "room ?s0 (length ?fs)" using room_mono [OF room0] by simp
  from in_order_puts [of w0 "xs @ [p]" ys ?fs, unfolded W0, OF w0 refl plain(1) this, folded w1_def]
  obtain new1 where n1: "puts ?s0 (xs @ [p]) ys (m_ILRewriter w1) new1 (map op_code ?fs)" by blast
  have "length (map (code (heap (m_ILRewriter w1))) new1) = length (map op_code ?fs)" using n1 unfolding puts_def by metis
  then have len1: "length new1 = length boxed + 1" by simp
  then obtain bx c where new1: "new1 = bx @ [c]" and bx: "length bx = length boxed" by (cases new1 rule: rev_cases) auto
  define w1' where "w1' = w1 \<lparr>m_ILInstr := c\<rparr>"
  define w2 where "w2 = in_order (map insert_new ?gs) w1'"
  have W1: "m_ILRewriter w1' = m_ILRewriter w1" "m_ILInstr w1' = c" by (simp_all add: w1'_def)
  have rw1: "rewritable (m_ILRewriter w1) ((xs @ p # bx) @ c # ys)" using n1 by (simp add: puts_def new1)
  have room1: "room (m_ILRewriter w1) 4" using puts_room [OF n1, of 4] room0 by (simp add: add.commute)
  from room_mono [OF room1, of "length ?gs"] have "room (m_ILRewriter w1) (length ?gs)" by simp
  from in_order_puts [of w1' "xs @ p # bx" "c # ys" ?gs, unfolded W1, OF rw1 _ plain(2) this, folded w2_def]
  obtain new2 where n2: "puts (m_ILRewriter w1) (xs @ p # bx) (c # ys) (m_ILRewriter w2) new2 (map op_code ?gs)"
    and pos2: "m_ILInstr w2 = c" by auto
  let ?cs = "map (token_code CEE_BOX) boxed @ [int_code (m_opcode (heap s p)), int_code def, long_code (mvid_address r), token_code CEE_CALL wrapper]"
  have boxes: "map (token_code CEE_BOX) boxed = map (\<lambda>token. op_code (\<lambda>i. set_Arg32 token (set_opcode CEE_BOX i))) boxed"
    by (simp add: token_code_def)
  have P1: "puts ?s0 (xs @ [p]) ys (m_ILRewriter w2) (bx @ new2 @ [c]) ?cs"
    using puts_within [of ?s0 "xs @ [p]" ys "m_ILRewriter w1" bx "[c]" "map op_code (butlast ?fs)" "[op_code (last ?fs)]" "m_ILRewriter w2" new2 "map op_code ?gs"]
      n1 n2 bx unfolding boxes by (simp add: new1 token_code_def int_code_def long_code_def comp_def)
  then have len: "length (bx @ new2 @ [c]) = length ?cs" unfolding puts_def by (metis length_map)
  define w3 where "w3 = (case unboxed of None \<Rightarrow> w2 | Some token \<Rightarrow> UnboxAnyAfter token w2)"
  have "\<exists>new3. puts (m_ILRewriter w2) ((xs @ [p]) @ bx @ new2 @ [c]) ys (m_ILRewriter w3) new3 (unbox_code unboxed)"
  proof -
    have rw2: "rewritable (m_ILRewriter w2) (((xs @ [p]) @ bx @ new2 @ [c]) @ ys)" using n2 by (simp add: puts_def)
    have "room (m_ILRewriter w2) 1" using puts_room [OF n2, of 1] room1 by (simp add: numeral_eq_Suc)
    then show ?thesis using unbox_after_puts [OF rw2] puts_refl [OF rw2] pos2
      by (cases unboxed) (auto simp: unbox_code_def w3_def)
  qed
  then obtain new3 where n3: "puts (m_ILRewriter w2) ((xs @ [p]) @ bx @ new2 @ [c]) ys (m_ILRewriter w3) new3 (unbox_code unboxed)" by blast
  note P = puts_trans [OF P1 len n3]
  have next0: "m_pNext (heap s p) = right_of ys" and prev1: "m_pPrev (heap (m_ILRewriter w1) (right_of ys)) = c"
    using ring_neighbours [OF rewritable_ring [OF w]] ring_neighbours [OF rewritable_ring [OF rw1]] by simp_all
  have result: "write_site r wrapper def boxed unboxed p s =
      (right_of ys, m_ILRewriter w3)"
  proof -
    have call1: "snd (CallMember wrapper False (fold Box boxed \<lparr>m_ILRewriter = ?s0, m_ILInstr = right_of ys\<rparr>)) = w1"
      by (simp add: w1_def w0_def fold_Box in_order_def CallMember_def)
    have loads: "LoadInt64 v (LoadInt32 b (LoadInt32 a w)) =
        in_order (map insert_new [int32_instr a, int32_instr b, \<lambda>i. set_Arg64 v (set_opcode CEE_LDC_I8 i)]) w" for a b v w
      by (simp add: in_order_def LoadInt64_def LoadInt32_def)
    have next1: "m_pNext (heap ?s0 p) = right_of ys" using next0 by (simp add: upd_def)
    show ?thesis
      unfolding write_site_def Let_def SetILPosition_def new_ILRewriterWrapper_def loads
      by (simp only: ILRewriterWrapper.simps next1 call1 prev1)
        (simp only: w3_def w2_def w1'_def)
  qed
  have "p \<notin> set (il_head # xs @ ys)" using rewritable_ring [OF w] by (auto simp: ring_def)
  then have old: "code (heap ?s0) q = (if q = p then (CEE_NOP, m_arg (heap s p)) else code (heap s) q)" for q
    by (simp add: code_def upd_def)
  have n0: "m_nInstrs ?s0 = m_nInstrs s" "same_header ?s0 s' \<longleftrightarrow> same_header s s'" for s'
    by (simp_all add: upd_def same_header_def)
  show ?thesis
    unfolding result
    by (rule exI [of _ "m_ILRewriter w3"], rule exI [of _ "(bx @ new2 @ [c]) @ new3"])
      (use P \<open>p \<notin> set (il_head # xs @ ys)\<close> in \<open>simp add: puts_def site_code_def old n0 code_def\<close>)
qed

section \<open>The loop on the list of codes\<close>

text \<open>
  The loop over the instructions as a function on their codes, with the opcode before them. The
  instruction behind a replaced call is passed over.
\<close>

definition code_token :: "code \<Rightarrow> mdToken" where
  "code_token c = ucast (arg_bits (snd c))"

fun replaced_codes ::
  "Replacing \<Rightarrow> MethodReplacement \<Rightarrow> u32 \<Rightarrow> code list \<Rightarrow> builder_state \<Rightarrow> (code list \<times> bool \<times> builder_state) exec" where
  "replaced_codes r m previous [] st = Ok ([], False, st)"
| "replaced_codes r m previous (c # cs) st =
     xbind (site_plan r m previous (fst c) (code_token c) st) (\<lambda>(plan, st).
     case plan of
       None \<Rightarrow> xbind (replaced_codes r m (fst c) cs st) (\<lambda>(cs', b, st). Ok (c # cs', b, st))
     | Some (wrapper, def, boxed, unboxed) \<Rightarrow>
         let new = site_code r wrapper def boxed unboxed c in
         case cs of
           [] \<Rightarrow> Ok (new, True, st)
         | n # cs \<Rightarrow> xbind (replaced_codes r m (fst n) cs st) (\<lambda>(cs', b, st). Ok (new @ n # cs', True, st)))"

text \<open>The instructions \<open>ys\<close> at the end of the list become \<open>qs\<close>, which have the codes \<open>cs\<close>.\<close>

definition becomes :: "ILRewriter \<Rightarrow> ptr list \<Rightarrow> ptr list \<Rightarrow> ILRewriter \<Rightarrow> ptr list \<Rightarrow> code list \<Rightarrow> bool" where
  "becomes s xs ys s' qs cs \<longleftrightarrow>
     rewritable s' (xs @ qs) \<and> map (code (heap s')) qs = cs \<and> subseq ys qs \<and>
     (\<forall>q\<in>set (il_head # xs). code (heap s') q = code (heap s) q) \<and>
     unat (m_nInstrs s') + length ys = unat (m_nInstrs s) + length qs \<and> same_header s s'"

lemma box_one:
  "box_value_type r md p = Done (boxed, p') \<Longrightarrow> length boxed \<le> 1"
  "box_generic_type r md p reqs = Done (boxed, reqs') \<Longrightarrow> length boxed \<le> 1"
  by (auto simp: box_value_type_def box_generic_type_def split_beta Let_def outcome_simps
      split: option.splits if_splits)

lemma box_tokens_two:
  assumes "box_tokens r md target reqs = Done (boxed, reqs')"
  shows "length boxed \<le> 2"
proof -
  obtain p where p: "(case p of None \<Rightarrow> Done ([], reqs)
      | Some pSigCurrent \<Rightarrow> obind (box_value_type r md pSigCurrent) (\<lambda>(a, pSigCurrent).
          obind (box_generic_type r md pSigCurrent reqs) (\<lambda>(b, reqs). Done (a @ b, reqs)))) = Done (boxed, reqs')"
    using assms by (auto simp: box_tokens_def Let_def outcome_simps)
  show ?thesis
  proof (cases p)
    case (Some q)
    then obtain a q' b where "box_value_type r md q = Done (a, q')" "box_generic_type r md q' reqs = Done (b, reqs')" "boxed = a @ b"
      using p by (auto simp: outcome_simps)
    then show ?thesis using box_one by fastforce
  qed (use p in simp)
qed

lemma as_exec_Ok: "as_exec m = Ok x \<longleftrightarrow> m = Done x"
  by (cases m) (simp_all add: as_exec_def)

lemma site_plan_call: "\<not> is_call opcode \<Longrightarrow> site_plan r m previous opcode token st = Ok (None, st)"
  by (simp add: site_plan_def)

lemma site_plan_two:
  assumes "site_plan r m previous opcode token st = Ok (Some (wrapper, def, boxed, unboxed), st')"
  shows "length boxed \<le> 2"
  using assms box_tokens_two
  by (fastforce simp: site_plan_def as_exec_Ok xbind_Ok_iff Let_def split: if_splits option.splits)

lemma becomes_kept:
  assumes "becomes s (xs @ [p]) zs s' qs cs"
  shows "becomes s xs (p # zs) s' (p # qs) (code (heap s) p # cs)"
  using assms by (auto simp: becomes_def)

lemma becomes_site:
  assumes b: "becomes s1 (xs @ p # new @ [n]) us s' qs cs" and c: "map (code (heap s1)) (p # new) = site"
    and o: "\<forall>q\<in>set (il_head # xs @ n # us). code (heap s1) q = code (heap s) q"
    and k: "unat (m_nInstrs s1) = unat (m_nInstrs s) + length new" and h: "same_header s s1"
  shows "becomes s xs (p # n # us) s' (p # new @ n # qs) (site @ code (heap s) n # cs)"
proof -
  have "subseq us qs" using b by (simp add: becomes_def)
  then have "subseq (n # us) (new @ n # qs)" using list_emb_append2 [of "(=)" "n # us" "n # qs" new] by simp
  moreover have "map (code (heap s')) (p # new) = site" unfolding c [symmetric]
    by (rule map_cong [OF refl]) (use b in \<open>auto simp: becomes_def\<close>)
  moreover have "code (heap s') n = code (heap s) n" using b o by (simp add: becomes_def)
  moreover have "\<forall>q\<in>set (il_head # xs). code (heap s') q = code (heap s) q" using b o by (simp add: becomes_def)
  moreover have "same_header s s'" using h b same_header_trans by (auto simp: becomes_def)
  ultimately show ?thesis using b k by (simp add: becomes_def)
qed

lemma site_code_length:
  assumes "length boxed \<le> 2"
  shows "length (site_code r wrapper def boxed unboxed c) \<le> 8"
  using assms by (cases unboxed) (simp_all add: site_code_def unbox_code_def)

lemma becomes_room: "becomes s xs ys s' qs cs \<Longrightarrow> room s k \<Longrightarrow> length cs + l \<le> k + length ys \<Longrightarrow> room s' l"
  by (auto simp: becomes_def room_def)

text \<open>What the loop returns, given what the function returns on the codes from the position on.\<close>

definition loop_gives ::
  "(bool \<times> ILRewriter \<times> builder_state) exec option \<Rightarrow> bool \<Rightarrow> ILRewriter \<Rightarrow> ptr list \<Rightarrow> ptr list \<Rightarrow>
   (code list \<times> bool \<times> builder_state) exec \<Rightarrow> bool" where
  "loop_gives result modified s xs ys m \<longleftrightarrow> (case m of
       Overrun \<Rightarrow> result = Some Overrun
     | Fail hr \<Rightarrow> result = Some (Fail hr)
     | Ok (cs, b, st) \<Rightarrow> \<exists>s' qs. result = Some (Ok (modified \<or> b, s', st)) \<and> becomes s xs ys s' qs cs)"

lemma loop_gives_kept:
  assumes "loop_gives result modified s (xs @ [p]) zs m"
  shows "loop_gives result modified s xs (p # zs) (xbind m (\<lambda>(cs', b, st). Ok (code (heap s) p # cs', b, st)))"
  using assms becomes_kept by (cases m) (fastforce simp: loop_gives_def split: prod.splits)+

lemma loop_gives_site:
  assumes g: "loop_gives result True s1 (xs @ p # new @ [n]) us m" and c: "map (code (heap s1)) (p # new) = site"
    and o: "\<forall>q\<in>set (il_head # xs @ n # us). code (heap s1) q = code (heap s) q"
    and k: "unat (m_nInstrs s1) = unat (m_nInstrs s) + length new" and h: "same_header s s1"
  shows "loop_gives result modified s xs (p # n # us) (xbind m (\<lambda>(cs', b, st). Ok (site @ code (heap s) n # cs', True, st)))"
  using g becomes_site [OF _ c o k h] by (cases m) (fastforce simp: loop_gives_def split: prod.splits)+

lemma replace_loop_codes:
  assumes "rewritable s (xs @ ys)" and "room s (7 * length ys)" and "ys \<noteq> [] \<Longrightarrow> \<not> is_call (m_opcode (heap s (last ys)))"
  shows "loop_gives (replace_loop r m (right_of ys) (modified, s, st)) modified s xs ys
    (replaced_codes r m (m_opcode (heap s (left_of xs))) (map (code (heap s)) ys) st)"
  using assms
proof (induction "length ys" arbitrary: ys xs s modified st rule: less_induct)
  case less
  show ?case
  proof (cases ys)
    case Nil
    then show ?thesis using less.prems
      by (auto simp: loop_gives_def becomes_def replace_loop.simps [of _ _ il_head])
  next
    case (Cons p zs)
    note N = ring_neighbours [OF rewritable_ring [OF less.prems(1) [unfolded Cons]]]
    have p: "p \<noteq> il_head" using rewritable_ring [OF less.prems(1)] by (auto simp: Cons ring_def)
    let ?c = "code (heap s) p"
    have plan: "site_plan r m (m_opcode (heap s (m_pPrev (heap s p)))) (m_opcode (heap s p)) (get_Arg32 (heap s p)) st =
        site_plan r m (m_opcode (heap s (left_of xs))) (fst ?c) (code_token ?c) st"
      by (simp add: N(3) code_def code_token_def get_Arg32_def del: last.simps)
    let ?plan = "site_plan r m (m_opcode (heap s (left_of xs))) (fst ?c) (code_token ?c) st"
    have loop: "replace_loop r m (right_of ys) (modified, s, st) =
        (case replace_site r m p (modified, s, st) of
          Overrun \<Rightarrow> Some Overrun
        | Fail hr \<Rightarrow> Some (Fail hr)
        | Ok (pInstr, state) \<Rightarrow> replace_loop r m (m_pNext (heap (fst (snd state)) pInstr)) state)"
      using p by (simp add: Cons replace_loop.simps [of _ _ p])
    show ?thesis
    proof (cases ?plan)
      case (Ok x)
      obtain found st1 where x: "x = (found, st1)" by (cases x)
      show ?thesis
      proof (cases found)
        case None
        have "loop_gives (replace_loop r m (right_of zs) (modified, s, st1)) modified s (xs @ [p]) zs
            (replaced_codes r m (fst ?c) (map (code (heap s)) zs) st1)"
          using less.hyps [of zs s "xs @ [p]" modified st1] less.prems room_mono [of s "7 * length ys" "7 * length zs"]
          by (auto simp: Cons code_def split: if_splits)
        from loop_gives_kept [OF this] show ?thesis
          unfolding loop by (simp add: replace_site_def plan Ok x None Cons N(1) del: last.simps)
      next
        case (Some y)
        obtain wrapper def boxed unboxed where y: "y = (wrapper, def, boxed, unboxed)" by (cases y)
        note ok = Ok [unfolded x Some y]
        have call: "is_call (m_opcode (heap s p))" using ok site_plan_call [of "m_opcode (heap s p)"] by (cases "is_call (m_opcode (heap s p))") (simp_all add: code_def)
        have two: "length boxed \<le> 2" using site_plan_two [OF ok] .
        obtain n us where zs: "zs = n # us" using less.prems(3) call by (cases zs) (auto simp: Cons)
        have "room s (length boxed + 5)" using less.prems(2) two by (auto simp: Cons zs intro: room_mono)
        from write_site_exact [OF less.prems(1) [unfolded Cons] call this, of r wrapper def unboxed]
        obtain s1 new where ws: "write_site r wrapper def boxed unboxed p s = (n, s1)" and rw: "rewritable s1 (xs @ p # new @ zs)"
          and c: "map (code (heap s1)) (p # new) = site_code r wrapper def boxed unboxed ?c"
          and o: "\<forall>q\<in>set (il_head # xs @ zs). code (heap s1) q = code (heap s) q"
          and k: "unat (m_nInstrs s1) = unat (m_nInstrs s) + length new" and h: "same_header s s1"
          unfolding zs by auto
        have "length (p # new) \<le> 8" using arg_cong [OF c, of length] site_code_length [OF two] by simp
        then have room1: "room s1 (7 * length us)" using less.prems(2) k by (simp add: room_def Cons zs)
        have next1: "m_pNext (heap s1 n) = right_of us"
          using ring_neighbours(1) [of s1 "xs @ p # new" n us] rewritable_ring [OF rw] by (simp add: zs)
        have us: "map (code (heap s1)) us = map (code (heap s)) us" "code (heap s1) n = code (heap s) n" using o by (simp_all add: zs)
        have "\<not> is_call (m_opcode (heap s1 (last us)))" if "us \<noteq> []"
        proof -
          have "code (heap s1) (last us) = code (heap s) (last us)" using o that by (simp add: zs)
          then show ?thesis using less.prems(3) that by (simp add: Cons zs code_def)
        qed
        then have "loop_gives (replace_loop r m (right_of us) (True, s1, st1)) True s1 (xs @ p # new @ [n]) us
            (replaced_codes r m (m_opcode (heap s1 n)) (map (code (heap s)) us) st1)"
          using less.hyps [of us s1 "xs @ p # new @ [n]" True st1] rw room1 by (simp add: Cons zs us(1))
        from loop_gives_site [OF this c, of s modified] have G: "loop_gives (replace_loop r m (right_of us) (True, s1, st1)) modified s xs ys
            (xbind (replaced_codes r m (fst (code (heap s) n)) (map (code (heap s)) us) st1)
              (\<lambda>(cs', b, st). Ok (site_code r wrapper def boxed unboxed ?c @ code (heap s) n # cs', True, st)))"
          using o k h us(2) by (simp add: Cons zs code_def)
        have "replace_site r m p (modified, s, st) = Ok (n, True, s1, st1)"
          by (simp add: replace_site_def plan ok ws Let_def del: last.simps)
        then have "replace_loop r m (right_of ys) (modified, s, st) = replace_loop r m (right_of us) (True, s1, st1)"
          by (simp add: loop next1)
        moreover have "replaced_codes r m (m_opcode (heap s (left_of xs))) (map (code (heap s)) ys) st =
            xbind (replaced_codes r m (fst (code (heap s) n)) (map (code (heap s)) us) st1)
              (\<lambda>(cs', b, st). Ok (site_code r wrapper def boxed unboxed ?c @ code (heap s) n # cs', True, st))"
          by (simp add: Cons zs ok Let_def del: last.simps)
        ultimately show ?thesis using G by simp
      qed
    qed (use loop in \<open>simp_all add: replace_site_def plan Cons loop_gives_def del: last.simps\<close>)
  qed
qed

section \<open>All replacements\<close>

primrec all_replaced ::
  "Replacing \<Rightarrow> u32 \<Rightarrow> MethodReplacement list \<Rightarrow> code list \<Rightarrow> builder_state \<Rightarrow> (code list \<times> bool \<times> builder_state) exec" where
  "all_replaced r previous [] cs st = Ok (cs, False, st)"
| "all_replaced r previous (m # ms) cs st =
     (if \<not> replaces_target m \<or> failed_before st m then all_replaced r previous ms cs st
      else xbind (replaced_codes r m previous cs st) (\<lambda>(cs, b, st).
        xbind (all_replaced r previous ms cs st) (\<lambda>(cs, b', st). Ok (cs, b \<or> b', st))))"

lemma replaced_codes_list:
  assumes "replaced_codes r m previous cs st = Ok (cs', b, st')"
  shows "length cs' \<le> 8 * length cs \<and> (cs \<noteq> [] \<longrightarrow> \<not> is_call (fst (last cs)) \<longrightarrow> cs' \<noteq> [] \<and> last cs' = last cs)"
  using assms
proof (induction "length cs" arbitrary: cs previous st cs' b rule: less_induct)
  case less
  show ?case
  proof (cases cs)
    case (Cons c ds)
    obtain found st1 where plan: "site_plan r m previous (fst c) (code_token c) st = Ok (found, st1)"
      using less.prems by (auto simp: Cons xbind_Ok_iff)
    show ?thesis
    proof (cases found)
      case None
      then obtain ds' where "replaced_codes r m (fst c) ds st1 = Ok (ds', b, st')" "cs' = c # ds'"
        using less.prems plan by (auto simp: Cons xbind_Ok_iff)
      with less.hyps [of ds] show ?thesis by (cases ds) (fastforce simp: Cons)+
    next
      case (Some y)
      obtain wrapper def boxed unboxed where y: "y = (wrapper, def, boxed, unboxed)" by (cases y)
      note two = site_plan_two [OF plan [unfolded Some y]]
      have call: "is_call (fst c)" using plan Some site_plan_call [of "fst c"] by (cases "is_call (fst c)") simp_all
      let ?site = "site_code r wrapper def boxed unboxed c"
      have site: "length ?site \<le> 8" using site_code_length [OF two] .
      show ?thesis
      proof (cases ds)
        case Nil
        then show ?thesis using less.prems plan site call by (simp add: Cons Some y Let_def)
      next
        case D: (Cons n es)
        then obtain es' b' where es: "replaced_codes r m (fst n) es st1 = Ok (es', b', st')" and cs': "cs' = ?site @ n # es'"
          using less.prems plan by (auto simp: Cons Some y xbind_Ok_iff Let_def)
        have "length es' \<le> 8 * length es \<and> (es \<noteq> [] \<longrightarrow> \<not> is_call (fst (last es)) \<longrightarrow> es' \<noteq> [] \<and> last es' = last es)"
          using less.hyps [OF _ es] by (simp add: Cons D)
        then show ?thesis using site es by (cases "es = []") (auto simp: Cons D cs')
      qed
    qed
  qed (use less.prems in simp)
qed

lemma becomes_again:
  assumes "becomes s [] ps s1 qs cs" and "becomes s1 [] qs s2 rs cs'"
  shows "becomes s [] ps s2 rs cs'"
  using assms by (auto simp: becomes_def intro: same_header_trans subseq_order.trans)

lemma loop_gives_again:
  assumes "becomes s [] ps s1 qs cs" and "loop_gives result (modified \<or> b) s1 [] qs m"
  shows "loop_gives result modified s [] ps (xbind m (\<lambda>(cs', b', st). Ok (cs', b \<or> b', st)))"
  using assms becomes_again [OF assms(1)] by (cases m) (fastforce simp: loop_gives_def split: prod.splits)+

lemma first_instr_ring: "ring s ps \<Longrightarrow> first_instr s = right_of ps"
  using ring_links(1) [of s "[]" ps] by (simp add: first_instr_def)

lemma replace_each_codes:
  assumes "rewritable s ps" and "room s ((8 ^ length ms - 1) * length ps)"
    and "ps \<noteq> [] \<Longrightarrow> \<not> is_call (m_opcode (heap s (last ps)))"
  shows "loop_gives (replace_each r ms (modified, s, st)) modified s [] ps
    (all_replaced r (m_opcode (heap s il_head)) ms (map (code (heap s)) ps) st)"
  using assms
proof (induction ms arbitrary: s ps modified st)
  case Nil
  then show ?case by (auto simp: loop_gives_def becomes_def)
next
  case (Cons m ms)
  let ?n = "length ps" and ?k = "length ms"
  have grow: "(8 ^ ?k - 1) * ?n + 7 * ?n \<le> (8 ^ Suc ?k - 1) * ?n"
  proof -
    have "1 \<le> (8 :: nat) ^ ?k" by simp
    then have "(8 ^ ?k - 1) + 7 \<le> (8 ^ Suc ?k - 1 :: nat)" unfolding power_Suc by arith
    then show ?thesis by (metis add_mult_distrib mult_le_mono1)
  qed
  show ?case
  proof (cases "\<not> replaces_target m \<or> failed_before st m")
    case True
    have "room s ((8 ^ ?k - 1) * ?n)" using Cons.prems(2) grow by (auto intro: room_mono)
    with Cons.IH [OF Cons.prems(1) this Cons.prems(3)] True show ?thesis by auto
  next
    case False
    have room: "room s (7 * ?n)" using Cons.prems(2) grow by (auto intro: room_mono)
    let ?m = "replaced_codes r m (m_opcode (heap s il_head)) (map (code (heap s)) ps) st"
    note first = first_instr_ring [OF rewritable_ring [OF Cons.prems(1)]]
    have L: "loop_gives (replace_loop r m (first_instr s) (modified, s, st)) modified s [] ps ?m"
      using replace_loop_codes [of s "[]" ps r m modified st] Cons.prems room by (simp add: first)
    show ?thesis
    proof (cases ?m)
      case (Ok x)
      obtain cs b st1 where x: "x = (cs, b, st1)" by (cases x)
      obtain s1 qs where loop: "replace_loop r m (first_instr s) (modified, s, st) = Some (Ok (modified \<or> b, s1, st1))"
        and g: "becomes s [] ps s1 qs cs" using L by (auto simp: loop_gives_def Ok x)
      have cs: "cs = map (code (heap s1)) qs" and rw: "rewritable s1 qs" and head: "m_opcode (heap s1 il_head) = m_opcode (heap s il_head)"
        using g by (auto simp: becomes_def code_def)
      have len: "length qs \<le> 8 * ?n" and last: "ps \<noteq> [] \<longrightarrow> \<not> is_call (m_opcode (heap s1 (last qs)))"
        using replaced_codes_list [OF Ok [unfolded x]] Cons.prems(3) by (auto simp: cs last_map code_def)
      have "ps = [] \<Longrightarrow> qs = []" using len by simp
      have "room s1 ((8 ^ ?k - 1) * length qs)"
      proof -
        have "(8 ^ ?k - 1) * length qs + length qs = 8 ^ ?k * length qs" by (simp add: algebra_simps)
        also have "\<dots> \<le> 8 ^ ?k * (8 * ?n)" using len by simp
        also have "\<dots> = (8 ^ Suc ?k - 1) * ?n + ?n" by (simp add: algebra_simps)
        finally show ?thesis using becomes_room [OF g Cons.prems(2) [simplified length_Cons]] by (simp add: cs)
      qed
      from Cons.IH [OF rw this, of "modified \<or> b" st1] last \<open>ps = [] \<Longrightarrow> qs = []\<close>
      have "loop_gives (replace_each r ms (modified \<or> b, s1, st1)) (modified \<or> b) s1 [] qs
          (all_replaced r (m_opcode (heap s il_head)) ms cs st1)" by (auto simp: head cs)
      from loop_gives_again [OF g this] show ?thesis using False by (simp add: Ok x loop obind_exec_def)
    qed (use L False in \<open>simp_all add: loop_gives_def obind_exec_def\<close>)
  qed
qed

lemma holds_room:
  assumes h: "holds s ps body d" and k: "10 * (8 ^ n * unat (dec_CodeSize d)) + 2 ^ 25 < 2 ^ 32"
  shows "rewritable s ps" and "room s ((8 ^ n - 1) * length ps)"
proof -
  have "unat (dec_CodeSize d) \<le> 8 ^ n * unat (dec_CodeSize d)" by simp
  then have small: "10 * unat (dec_CodeSize d) + 2 ^ 25 < 2 ^ 32" using k by linarith
  note X = holds_exportable [OF h small]
  have sp: "spells s ps (code_of body d)" using h by (simp add: holds_def)
  show "rewritable s ps" using X sp by (simp add: rewritable_def spells_def)
  have "length ps \<le> unat (dec_CodeSize d)" using spells_length [OF sp] X(3) by simp
  then have "8 ^ n * length ps \<le> 8 ^ n * unat (dec_CodeSize d)" by (rule mult_le_mono2)
  moreover have "unat (m_nInstrs s) = length ps" using h X(3) spells_length [OF sp] small by (simp add: holds_def unat_of_nat_small)
  moreover have "length ps + (8 ^ n - 1) * length ps = 8 ^ n * length ps" by (simp add: algebra_simps)
  ultimately have "unat (m_nInstrs s) + (8 ^ n - 1) * length ps \<le> 8 ^ n * unat (dec_CodeSize d)" by simp
  then have "10 * (unat (m_nInstrs s) + (8 ^ n - 1) * length ps) \<le> 10 * (8 ^ n * unat (dec_CodeSize d))" by (rule mult_le_mono2)
  then show "room s ((8 ^ n - 1) * length ps)" unfolding room_def using k by (meson add_le_mono1 le_less_trans)
qed

text \<open>The body that is exported decodes to the list, with the clauses of the method.\<close>

lemma exported_list:
  assumes rw: "rewritable t qs" and tiny: "\<not> m_fGenerateTinyHeader t"
  shows "\<exists>u out totalSize. Export ci mem' t = Some (submit ci totalSize out u) \<and> relaxed (heap t) (heap u) \<and>
    spells u qs (code_of (nth out) (DecoderInit (nth out) True)) \<and>
    clauses_of (nth out) (DecoderInit (nth out) True) = map (export_clause (heap u)) (eh_clauses t)"
proof -
  have R: "exportable t qs" "points_into (heap t) qs" "readable t" using rw by (simp_all add: rewritable_def)
  obtain u where u: "Export ci mem' t = Some (finish ci mem' (of_nat (code_len (heap u) qs)) u)"
    and xp: "exported (max_code t) u qs" and rel: "relaxed (heap t) (heap u)"
    and fr: "u = t \<lparr>heap := heap u, m_pOutputBuffer := m_pOutputBuffer u\<rparr>"
    using Export_exported [OF R(1)] by blast
  let ?n = "of_nat (code_len (heap u) qs) :: u32"
  note Z = exported_size [OF R(1) xp]
  have hdr: "readable u" "\<not> m_fGenerateTinyHeader u" "eh_clauses u = eh_clauses t"
    using R(3) tiny by (subst fr, simp add: readable_def)+
  have nn: "unat ?n \<le> length (m_pOutputBuffer u)" "unat ?n + 2 ^ 25 < 2 ^ 32" using Z by simp_all
  note D = decode_fat [OF hdr(1) nn refl refl, of mem']
  have "\<forall>p\<in>set qs. known_opcode (m_opcode (heap t p))" using R(1) by (simp add: exportable_def)
  then have "spells u qs (take (code_len (heap u) qs) (m_pOutputBuffer u))"
    using exported_spells [OF xp relaxed_points_into [OF rel R(2)]] by blast
  then have "spells u qs (code_of (nth (fat_body mem' ?n u)) (DecoderInit (nth (fat_body mem' ?n u)) True))"
    using D(1) Z(1) by simp
  then show ?thesis using u hdr(2,3) rel D(2) by (auto simp: finish_def)
qed

definition answer_of :: "(ILRewriter \<times> u32 \<times> bytes) exec \<Rightarrow> builder_state \<Rightarrow> ((hresult \<times> bytes option) \<times> builder_state) exec" where
  "answer_of m st = (case m of Overrun \<Rightarrow> Overrun | Fail hr \<Rightarrow> Ok ((hr, None), st) | Ok (s, totalSize, out) \<Rightarrow> Ok ((S_OK, Some out), st))"

text \<open>
  A body for the method with the instructions \<open>ps\<close>: it decodes to a list with the codes \<open>cs\<close> that has
  those instructions in their order, up to the long form of branches, and to the method's clauses.
\<close>

definition decodes_to :: "ILRewriter \<Rightarrow> ptr list \<Rightarrow> code list \<Rightarrow> ILRewriter \<Rightarrow> bytes \<Rightarrow> bool" where
  "decodes_to s ps cs u out \<longleftrightarrow> (\<exists>(t :: ILRewriter) qs. map (code (heap t)) qs = cs \<and> subseq ps qs \<and> relaxed (heap t) (heap u) \<and>
     spells u qs (code_of (nth out) (DecoderInit (nth out) True)) \<and>
     clauses_of (nth out) (DecoderInit (nth out) True) = map (export_clause (heap u)) (eh_clauses s))"

lemma export_becomes:
  assumes g: "becomes s [] ps t qs cs" and h: "holds s ps body d"
  shows "\<exists>u out totalSize. export_modified ci mem' (True, t, st) = Some (answer_of (submit ci totalSize out u) st) \<and>
    decodes_to s ps cs u out"
proof -
  have rw: "rewritable t qs" and tiny: "\<not> m_fGenerateTinyHeader t" and eh: "eh_clauses t = eh_clauses s"
    and cs: "map (code (heap t)) qs = cs" "subseq ps qs"
    using g h by (auto simp: becomes_def same_header_def holds_def eh_clauses_def split: option.splits)
  obtain u out totalSize where E: "Export ci mem' t = Some (submit ci totalSize out u)" "relaxed (heap t) (heap u)"
    "spells u qs (code_of (nth out) (DecoderInit (nth out) True))"
    "clauses_of (nth out) (DecoderInit (nth out) True) = map (export_clause (heap u)) (eh_clauses t)"
    using exported_list [OF rw tiny] by blast
  have "decodes_to s ps cs u out" unfolding decodes_to_def
    by (rule exI [of _ t], rule exI [of _ qs]) (simp add: E cs eh)
  moreover have "export_modified ci mem' (True, t, st) = Some (answer_of (submit ci totalSize out u) st)"
    using E(1) by (simp add: export_modified_def answer_of_def split: exec.splits)
  ultimately show ?thesis by blast
qed



section \<open>The last argument\<close>

definition type_called :: "Replacing \<Rightarrow> MetaDataImport \<Rightarrow> mdToken \<Rightarrow> wstring \<Rightarrow> bool" where
  "type_called r md token n \<longleftrightarrow> (case GetTypeInfo (rp_fuel r) md token of Done i \<Rightarrow> info_name i = n | _ \<Rightarrow> False)"

text \<open>What a type is boxed to, and the requests that are made.\<close>

fun boxed_as :: "Replacing \<Rightarrow> MetaDataImport \<Rightarrow> sigtype \<Rightarrow> emit_call list \<Rightarrow> mdToken list \<times> emit_call list" where
  "boxed_as r md (Named k tk) reqs =
     (if k = ELEMENT_TYPE_VALUETYPE \<and> type_called r md tk (WStr ''System.Threading.CancellationToken'') then ([tk], reqs) else ([], reqs))"
| "boxed_as r md (GenericInst k tk ts) reqs =
     (if k = ELEMENT_TYPE_VALUETYPE \<and> type_called r md tk (WStr ''System.ReadOnlyMemory`1'')
      then (let ((hr, token), reqs) = request (rp_env r) (GetTokenFromTypeSpec (TypeNames.encode (GenericInst k tk ts))) (held_token r) reqs
        in ([token], reqs))
      else ([], reqs))"
| "boxed_as r md t reqs = ([], reqs)"

fun known_type :: "Replacing \<Rightarrow> MetaDataImport \<Rightarrow> sigtype \<Rightarrow> bool" where
  "known_type r md (Named k tk) \<longleftrightarrow> result_is (GetTypeInfo (rp_fuel r) md tk) (\<lambda>_. True)"
| "known_type r md (GenericInst k tk ts) \<longleftrightarrow> result_is (GetTypeInfo (rp_fuel r) md tk) (\<lambda>_. True)"
| "known_type r md t \<longleftrightarrow> True"

lemma skip_to_last:
  assumes "\<forall>t\<in>set (butlast (t # ts)). parseable t"
  shows "skip_types (length ts) (concat (map TypeNames.encode (t # ts)) @ r) = Done (Some (TypeNames.encode (last (t # ts)) @ r))"
  using assms
proof (induction ts arbitrary: t)
  case (Cons u ts)
  then have "parseable t" by simp
  with Cons parsed_type [of t "concat (map TypeNames.encode (u # ts)) @ r"] show ?case by simp
qed simp

lemma uncompress_token_ref:
  assumes "TypeFromToken tk \<in> set g_tkCorEncodeToken"
  shows "CorSigUncompressToken_ref (snd (CorSigCompressToken tk) @ r) = Done (tk, r)"
proof -
  have "number_bytes (snd (CorSigCompressToken tk)) (token_number tk)"
    using CompressData_number(1) [OF token_number_le] by (simp add: CompressToken_number)
  from UncompressData_ref_number [OF this] show ?thesis
    using decode_encodable [OF assms] by (simp add: CorSigUncompressToken_ref_def)
qed

lemma box_generic_parsed:
  assumes e: "e = elt ELEMENT_TYPE_GENERICINST # elt k # snd (CorSigCompressToken tk) @ f"
    and tk: "TypeFromToken tk \<in> set g_tkCorEncodeToken" and i: "GetTypeInfo (rp_fuel r) md tk = Done i"
    and p: "parsed (ParseType (e @ b)) = Done (Some b)"
  shows "box_generic_type r md (e @ b) reqs = Done (if k = ELEMENT_TYPE_VALUETYPE \<and> info_name i = WStr ''System.ReadOnlyMemory`1''
    then ([snd (fst (request (rp_env r) (GetTokenFromTypeSpec e) (held_token r) reqs))],
      snd (request (rp_env r) (GetTokenFromTypeSpec e) (held_token r) reqs)) else ([], reqs))"
proof -
  have "peek (e @ b) = Done (elt ELEMENT_TYPE_GENERICINST)" "peek (tl (e @ b)) = Done (elt k)"
    "CorSigUncompressToken_ref (tl (tl (e @ b))) = Done (tk, f @ b)" "take (length (e @ b) - length b) (e @ b) = e"
    using uncompress_token_ref [OF tk] by (simp_all add: e)
  then show ?thesis using i p unfolding box_generic_type_def
    by (simp add: split_beta Let_def)
qed

lemma box_type:
  assumes "parseable t" and "known_type r md t" and "behind_signature r \<noteq> []" and "hd (behind_signature r) \<noteq> elt ELEMENT_TYPE_GENERICINST"
  shows "obind (box_value_type r md (TypeNames.encode t @ behind_signature r)) (\<lambda>(a, pSigCurrent).
      obind (box_generic_type r md pSigCurrent reqs) (\<lambda>(b, reqs). Done (a @ b, reqs))) = Done (boxed_as r md t reqs)"
proof -
  have peek: "peek (behind_signature r) = Done (hd (behind_signature r))" using assms(3) by (cases "behind_signature r") simp_all
  show ?thesis
  proof (cases t)
    case (Named k tk)
    then have tk: "TypeFromToken tk \<in> set g_tkCorEncodeToken" and k: "k \<in> {ELEMENT_TYPE_CLASS, ELEMENT_TYPE_VALUETYPE}" using assms(1) by auto
    obtain i where "GetTypeInfo (rp_fuel r) md tk = Done i" using assms(2) by (auto simp: Named)
    then show ?thesis using k assms(4) peek uncompress_token_ref [OF tk]
      by (auto simp: Named box_value_type_def box_generic_type_def type_called_def)
  next
    case (GenericInst k tk ts)
    then have tk: "TypeFromToken tk \<in> set g_tkCorEncodeToken" and k: "k \<in> {ELEMENT_TYPE_CLASS, ELEMENT_TYPE_VALUETYPE}" using assms(1) by auto
    obtain i where i: "GetTypeInfo (rp_fuel r) md tk = Done i" using assms(2) by (auto simp: GenericInst)
    let ?f = "snd (CorSigCompressData (of_nat (length ts))) @ concat (map TypeNames.encode ts)"
    have e: "TypeNames.encode t = elt ELEMENT_TYPE_GENERICINST # elt k # snd (CorSigCompressToken tk) @ ?f" by (simp add: GenericInst)
    have "box_value_type r md (TypeNames.encode t @ behind_signature r) = Done ([], TypeNames.encode t @ behind_signature r)"
      by (simp add: box_value_type_def GenericInst)
    then show ?thesis using box_generic_parsed [where e = "TypeNames.encode t", OF e tk i parsed_type [OF assms(1)], of "behind_signature r" reqs]
      by (simp add: GenericInst type_called_def i split_beta Let_def del: TypeNames.encode.simps)
  qed (use assms(1) in \<open>auto simp: box_value_type_def box_generic_type_def\<close>)
qed

text \<open>
  C13: The type that is looked at for boxing is the last of the signature: that of the last argument, and
  where the method has no argument that of the return value. A value type is boxed if it is the
  cancellation token, a generic value type if it is the read-only memory. What is read behind the
  signature must be readable and not \<^verbatim>\<open>GENERICINST\<close>.
\<close>

theorem last_argument_boxed:
  assumes "data (fi_signature target) = [conv] @ gen @ [of_nat (length args)] @ concat (map TypeNames.encode (t # args))"
    and "length args < 256" and "if conv AND IMAGE_CEE_CS_CALLCONV_GENERIC \<noteq> 0 then \<exists>g. gen = [g] else gen = []"
    and "\<forall>u\<in>set (t # args). parseable u" and "known_type r md (last (t # args))"
    and "behind_signature r \<noteq> []" and "hd (behind_signature r) \<noteq> elt ELEMENT_TYPE_GENERICINST"
  shows "box_tokens r md target reqs = Done (boxed_as r md (last (t # args)) reqs)"
proof -
  let ?s = "fi_signature target"
  have "TypeNames.encode t \<noteq> []" by (cases t) simp_all
  then have n: "unat (NumberOfArguments ?s) = length args"
    and d: "drop (IndexOfReturnType ?s) (data ?s) = concat (map TypeNames.encode (t # args))"
    using assms(1-3) by (auto simp: NumberOfArguments_def IndexOfReturnType_def is_generic_sig_def CallingConvention_def unat_of_nat
        split: if_splits)
  have "\<forall>u\<in>set (butlast (t # args)). parseable u" using assms(4) in_set_butlastD by fastforce
  from skip_to_last [OF this, of "behind_signature r"]
  have skip: "skip_types (length args) (concat (map TypeNames.encode (t # args)) @ behind_signature r) =
      Done (Some (TypeNames.encode (last (t # args)) @ behind_signature r))" .
  have "parseable (last (t # args))" using assms(4) last_in_set [of "t # args"] by blast
  from box_type [OF this assms(5-7), of reqs] show ?thesis
    unfolding box_tokens_def Let_def n d skip by simp
qed

section \<open>Insertion of calls\<close>

text \<open>The wrappers whose calls are inserted, in the order of the integrations.\<close>

primrec inserted_tokens :: "Replacing \<Rightarrow> MethodReplacement list \<Rightarrow> builder_state \<Rightarrow> mdToken list \<times> builder_state" where
  "inserted_tokens r [] st = ([], st)"
| "inserted_tokens r (m # ms) st =
     (if replaces_target m \<or> failed_before st m then inserted_tokens r ms st
      else let ((generated, wrapper_method_ref, _), st) =
          GetWrapperMethodRef (rp_info r) (rp_env r) (rp_lookups r) (rp_module r) m st in
        if generated \<and> action (wrapper_method m) = WStr ''InsertFirst''
        then let (ts, st) = inserted_tokens r ms st in (wrapper_method_ref # ts, st)
        else inserted_tokens r ms st)"

lemma insert_first_puts:
  assumes "rewritable s ps" and "room s 1"
  shows "\<exists>p s'. m_ILRewriter (snd (CallMember token False (SetILPosition (right_of ps) (new_ILRewriterWrapper s)))) = s' \<and>
    puts s [] ps s' [p] [token_code CEE_CALL token] \<and> m_pPrev (heap s' (right_of ps)) = p"
proof -
  let ?f = "\<lambda>i. set_Arg32 token (set_opcode CEE_CALL i)" and ?w = "SetILPosition (right_of ps) (new_ILRewriterWrapper s)"
  obtain p w' where i: "insert_new ?f ?w = (p, w')" by fastforce
  have f: "plain ?f" by (rule plain_opcode) simp_all
  have "rewritable (m_ILRewriter ?w) ([] @ ps)" "right_of ps = m_ILInstr ?w" "room (m_ILRewriter ?w) 1"
    using assms by (simp_all add: SetILPosition_def new_ILRewriterWrapper_def)
  from insert_puts(1) [OF this(1,2) f this(3) i]
  have P: "puts s [] ps (m_ILRewriter w') [p] [token_code CEE_CALL token]"
    by (simp add: SetILPosition_def new_ILRewriterWrapper_def token_code_def)
  then have "ring (m_ILRewriter w') ([] @ p # ps)" by (simp add: puts_def rewritable_ring)
  from ring_neighbours(2) [OF this] P i show ?thesis by (auto simp: CallMember_def)
qed

lemma insert_calls_puts:
  assumes "rewritable s ps" and "room s (length ms)" and "inserted_tokens r ms st = (ts, st')"
  shows "\<exists>s' new. fold (insert_call r) ms (right_of ps, modified, s, st) = (right_of (new @ ps), modified \<or> ts \<noteq> [], s', st') \<and>
    puts s [] ps s' new (map (token_code CEE_CALL) (rev ts))"
  using assms
proof (induction ms arbitrary: s ps st ts modified)
  case Nil
  then show ?case using puts_refl [of s "[]" ps] by (intro exI [of _ s] exI [of _ "[]"]) simp
next
  case (Cons m ms)
  have room: "room s (length ms)" using Cons.prems(2) by (auto intro: room_mono)
  show ?case
  proof (cases "replaces_target m \<or> failed_before st m")
    case True
    then have "insert_call r m (right_of ps, modified, s, st) = (right_of ps, modified, s, st)" by (simp add: insert_call_def)
    then show ?thesis using Cons.IH [OF Cons.prems(1) room, of st ts modified] Cons.prems(3) True by simp
  next
    case False
    obtain ok wrapper tr st1 where g: "GetWrapperMethodRef (rp_info r) (rp_env r) (rp_lookups r) (rp_module r) m st = ((ok, wrapper, tr), st1)"
      by (metis prod.exhaust)
    show ?thesis
    proof (cases "ok \<and> action (wrapper_method m) = WStr ''InsertFirst''")
      case True
      obtain us where us: "inserted_tokens r ms st1 = (us, st')" and ts: "ts = wrapper # us"
        using Cons.prems(3) False g True by (auto split: prod.splits)
      have "room s 1" using Cons.prems(2) by (auto intro: room_mono)
      from insert_first_puts [OF Cons.prems(1) this] obtain p s1
        where s1: "m_ILRewriter (snd (CallMember wrapper False (SetILPosition (right_of ps) (new_ILRewriterWrapper s)))) = s1"
          and P: "puts s [] ps s1 [p] [token_code CEE_CALL wrapper]" and prev: "m_pPrev (heap s1 (right_of ps)) = p" by blast
      have one: "insert_call r m (right_of ps, modified, s, st) = (right_of (p # ps), True, s1, st1)"
        using False True by (simp add: insert_call_def g s1 prev Let_def)
      have "rewritable s1 (p # ps)" "room s1 (length ms)" using P puts_room [OF P, of "length ms"] Cons.prems(2) by (simp_all add: puts_def)
      from Cons.IH [OF this us, of True] obtain s' new
        where run: "fold (insert_call r) ms (right_of (p # ps), True, s1, st1) = (right_of (new @ p # ps), True, s', st')"
          and Q: "puts s1 [] (p # ps) s' new (map (token_code CEE_CALL) (rev us))" by auto
      have "puts s [] ps s' ([] @ new @ [p]) ([] @ map (token_code CEE_CALL) (rev us) @ [token_code CEE_CALL wrapper])"
        by (rule puts_within [of s "[]" ps s1]) (use P Q in simp_all)
      then show ?thesis using run one ts by (intro exI [of _ s'] exI [of _ "new @ [p]"]) simp
    next
      case no: False
      then have "insert_call r m (right_of ps, modified, s, st) = (right_of ps, modified, s, st1)"
        using False by (auto simp: insert_call_def g Let_def)
      moreover have "inserted_tokens r ms st1 = (ts, st')" using Cons.prems(3) False g no by auto
      ultimately show ?thesis using Cons.IH [OF Cons.prems(1) room, of st1 ts modified] by simp
    qed
  qed
qed

text \<open>
  C8: The inserted calls come before the first instruction, each before those inserted earlier, so they
  are made in the reverse order of the integrations; the instructions and clauses stay.
\<close>

theorem inserted_calls_first:
  assumes "Import ci (new_ILRewriter mem) = Some (Ok s)" and "holds s ps body d"
    and "10 * (unat (dec_CodeSize d) + length ms) + 2 ^ 25 < 2 ^ 32" and "inserted_tokens r ms st = (ts, st')"
  shows "if ts = [] then ProcessInsertionCalls r ci mem mem' ms st = Some (Ok ((S_OK, None), st'))
    else \<exists>u out totalSize. ProcessInsertionCalls r ci mem mem' ms st = Some (answer_of (submit ci totalSize out u) st') \<and>
      decodes_to s ps (map (token_code CEE_CALL) (rev ts) @ map (code (heap s)) ps) u out"
proof -
  have small: "10 * (8 ^ 0 * unat (dec_CodeSize d)) + 2 ^ 25 < 2 ^ 32" using assms(3) by simp
  have rw: "rewritable s ps" using holds_room [OF assms(2) small] by simp
  have "unat (m_nInstrs s) \<le> unat (dec_CodeSize d)"
    using holds_exportable(3) [OF assms(2)] assms(2) spells_length [of s ps "code_of body d"] small
    by (simp add: holds_def unat_of_nat_small)
  then have room: "room s (length ms)" using assms(3) by (simp add: room_def)
  from insert_calls_puts [OF rw room assms(4), of False] obtain s' new
    where run: "fold (insert_call r) ms (right_of ps, False, s, st) = (right_of (new @ ps), ts \<noteq> [], s', st')"
      and P: "puts s [] ps s' new (map (token_code CEE_CALL) (rev ts))" by auto
  have "becomes s [] ps s' (new @ ps) (map (token_code CEE_CALL) (rev ts) @ map (code (heap s)) ps)"
    using P list_emb_append2 [of "(=)" ps ps new] by (auto simp: becomes_def puts_def)
  from export_becomes [OF this assms(2), of ci mem' st'] show ?thesis
    by (auto simp: ProcessInsertionCalls_def import_then_def assms(1) first_instr_ring [OF rewritable_ring [OF rw]] run export_modified_def)
qed

section \<open>A concrete call site\<close>

text \<open>A method that calls \<^verbatim>\<open>Outer.Run\<close>, whose calls an integration replaces.\<close>

definition sample_call :: MethodReplacement where
  "sample_call = \<lparr>caller_method = no_MethodReference,
     target_method = no_MethodReference \<lparr>type_name_of := WStr ''Outer'', method_name := WStr ''Run'',
       signature_types := [WStr ''System.Void'', WStr ''_'']\<rparr>,
     wrapper_method = sample_reference \<lparr>action := WStr ''ReplaceTargetMethod'',
       method_signature := MethodSignature [0x00, 0x05, 0x1c, 0x1c, 0x08, 0x08, 0x08, 0x0a]\<rparr>\<rparr>"

definition sample_replacing :: Replacing where
  "sample_replacing = \<lparr>rp_info = sample_profiler, rp_loaded = \<lparr>managed_profiler_loaded_domain_neutral = True,
       managed_profiler_loaded_app_domains = {}\<rparr>,
     rp_env = sample_token_env [], rp_lookups = sample_lookups, rp_module = 1, rp_fuel = 4, rp_cor = sample_cor,
     is_desktop = False, corlib_module_loaded = True, corlib_app_domain_id = 1, instrument_domain_neutral_assemblies = False,
     behind_signature = [0], held_token = 0, mvid_address = 0x1000\<rparr>"

definition sample_run :: FunctionInfo where
  "sample_run = \<lparr>fi_id = 0x06000001, fi_name = WStr ''Run'', fi_type = sample_outer, is_generic = False,
     fi_signature = MethodSignature [0x20, 0x01, 0x01, 0x08], function_spec_signature = MethodSignature [], method_def_id = 0,
     fi_blob = blob_of [0x20, 0x01, 0x01, 0x08], fi_method_signature = new_signature\<rparr>"

lemma sample_run_info: "GetFunctionInfo 4 sample_metadata 0x06000001 = Done sample_run"
proof -
  have "GetTypeInfo 3 sample_metadata 0x02000002 = Done sample_outer" by code_simp
  moreover have "GetMemberProps sample_metadata 0x06000001 = (S_OK, 0x02000002, WStr ''Run'', 4, blob_of [0x20, 0x01, 0x01, 0x08])"
    by (simp add: sample_metadata_def)
  ultimately show ?thesis
    using GetFunctionInfo_simps(2) [of 3 sample_metadata "0x06000001"]
    by (simp add: GetFunctionInfo_body_def sample_run_def TypeFromToken_def)
qed

lemma sample_run_types: "TryParseSignatureTypes 4 sample_metadata 0 sample_run = Done [WStr ''System.Void'', WStr ''System.Int32'']"
proof -
  have "sig_loop 4 sample_metadata 0 [0x20, 0x01, 0x01, 0x08] 2 (sig_state 2 0 [[], []] [] [] []) =
      Done (sig_state 4 2 [WStr ''System.Void'', WStr ''System.Int32''] [] [] [])" by code_simp
  then show ?thesis
    by (simp add: TryParseSignatureTypes_def sample_run_def NumberOfArguments_def NumberOfTypeArguments_def is_generic_sig_def
        CallingConvention_def numeral_2_eq_2)
qed

lemma import_kept [simp]:
  "metadata_import (SetWrapperMemberRef mm k v) = metadata_import mm"
  "metadata_import (SetWrapperParentTypeRef mm k v) = metadata_import mm"
  by (simp_all add: SetWrapperMemberRef_def SetWrapperParentTypeRef_def)

lemma sample_call_wrapper:
  "\<exists>mm reqs tr. GetWrapperMethodRef sample_profiler (sample_token_env []) sample_lookups 1 sample_call (sample_module, []) =
     ((True, 0x0a000003, tr), mm, reqs) \<and> metadata_import mm = sample_metadata"
proof -
  have "TryGetWrapperMemberRef sample_module k = None" "TryGetWrapperParentTypeRef sample_module k = None"
    "mm_assemblyName sample_module = name (assembly sample_reference)" "metadata_import sample_module = sample_metadata" for k
    by (simp_all add: sample_module_def new_ModuleMetadata_def TryGetWrapperMemberRef_def TryGetWrapperParentTypeRef_def)
  then show ?thesis
    by (simp add: GetWrapperMethodRef_def StoreWrapperMethodRef_def FindWrapperTypeRef_def EmitAssemblyRef_def request_def
        sample_token_env_def sample_answer_def sample_lookups_def sample_call_def stored_def Let_def
        GetModuleInfo_def sample_profiler_def ModuleInfo_IsValid_def sample_reference_def no_MethodReference_def assembly_request_def)
qed

lemma sample_plan:
  "\<exists>st'. site_plan sample_replacing sample_call previous CEE_CALL 0x06000001 (sample_module, []) = Ok (Some (0x0a000003, 0x06000001, [], None), st')"
proof -
  obtain mm reqs tr where g: "GetWrapperMethodRef sample_profiler (sample_token_env []) sample_lookups 1 sample_call (sample_module, []) =
     ((True, 0x0a000003, tr), mm, reqs)" "metadata_import mm = sample_metadata" using sample_call_wrapper by blast
  have md: "metadata_import sample_module = sample_metadata" by (simp add: sample_module_def new_ModuleMetadata_def)
  have "call_matches sample_call sample_run"
    by (simp add: call_matches_def sample_call_def sample_run_def FunctionInfo_IsValid_def sample_outer_def expected_number_args_def
        NumberOfArguments_def is_generic_sig_def CallingConvention_def IsInstanceMethod_def added_parameters_count_def)
  moreover have "types_match (signature_types (target_method sample_call)) [WStr ''System.Void'', WStr ''System.Int32'']"
    by (simp add: types_match_def sample_call_def)
  ultimately have target: "target_site sample_replacing sample_call 0x06000001 (sample_module, []) = Ok (Some (sample_run, 0x0a000003, 0x06000001), mm, reqs)"
    using sample_run_info sample_run_types g md
    by (simp add: target_site_def sample_replacing_def as_exec_def sample_run_def ProfilerAssemblyIsLoadedIntoAppDomain_def
        caller_assembly_is_domain_neutral_def)
  have sig: "drop (IndexOfReturnType (fi_signature sample_run)) (data (fi_signature sample_run)) @ behind_signature sample_replacing =
      concat (map TypeNames.encode [Prim ELEMENT_TYPE_VOID, Prim ELEMENT_TYPE_I4]) @ [0]" "unat (NumberOfArguments (fi_signature sample_run)) = 1"
    by (simp_all add: sample_run_def IndexOfReturnType_def NumberOfArguments_def is_generic_sig_def CallingConvention_def
        sample_replacing_def elt_def)
  have "skip_types 1 (concat (map TypeNames.encode [Prim ELEMENT_TYPE_VOID, Prim ELEMENT_TYPE_I4]) @ [0]) = Done (Some ([0x08, 0]))"
    using skip_to_last [of "Prim ELEMENT_TYPE_VOID" "[Prim ELEMENT_TYPE_I4]" "[0]"] by (simp add: elt_def)
  then have "box_tokens sample_replacing sample_metadata sample_run reqs = Done ([], reqs)"
    unfolding box_tokens_def Let_def sig by (simp add: box_value_type_def box_generic_type_def elt_def)
  moreover have "unbox_token sample_replacing sample_call sample_metadata sample_run reqs = Done (None, reqs)"
    by (simp add: unbox_token_def sample_call_def ReturnTypeIsObject_def is_generic_sig_def CallingConvention_def at_index_def elt_def
        sample_run_def ReturnTypeIsValueTypeOrGeneric_def NumberOfTypeArguments_def)
  ultimately show ?thesis by (simp add: site_plan_def is_call_def target as_exec_def g(2))
qed

text \<open>The import of an instruction without a branch target, which gives the list behind it.\<close>

definition operand_of :: "u8 \<Rightarrow> u32 \<Rightarrow> ILArg" where
  "operand_of flags v = (if flags = 4 then m_arg (set_Arg32 v zero_instr) else Bits 0)"

lemma plain_operand:
  "import_operand pIL 0 p fBranch pos s = Ok (pos, fBranch, s)"
  "import_operand pIL 4 p fBranch pos s = Ok (pos, fBranch, upd p (set_Arg32 (read_INT32 pIL pos)) s)"
  by (simp_all add: import_operand_def)

lemma import_plain:
  assumes "ring s ps" and "fetch_opcode pIL (m_CodeSize s) pos = Ok (op, pos1)"
    and "\<not> (CEE_PREFIX7 \<le> op \<and> op \<le> CEE_PREFIX2)" "op < CEE_COUNT" and "op_flags op = 0 \<or> op_flags op = 4"
    and "pos1 + ucast (op_flags op AND OPCODEFLAGS_SizeMask) \<le> m_CodeSize s"
  shows "\<exists>s' p. import_instr pIL (pos, False, s) = Ok (pos1 + ucast (op_flags op AND OPCODEFLAGS_SizeMask), False, s') \<and>
    ring s' (ps @ [p]) \<and> map (code (heap s')) (ps @ [p]) = map (code (heap s)) ps @ [(op, operand_of (op_flags op) (read_INT32 pIL pos1))] \<and>
    m_CodeSize s' = m_CodeSize s \<and> m_opcode (heap s' il_head) = m_opcode (heap s il_head)"
proof -
  obtain p s1 where n: "NewILInstr s = (p, s1)" by (cases "NewILInstr s")
  define s3 where s3: "s3 = InsertBefore il_head p (upd p (m_opcode_update (\<lambda>_. op)) s1)"
  define s4 where s4: "s4 = s3 \<lparr>m_pOffsetToInstr := (m_pOffsetToInstr s3) [unat pos := p]\<rparr>"
  define s5 where s5: "s5 = (if op_flags op = 4 then upd p (set_Arg32 (read_INT32 pIL pos1)) s4 else s4)"
  note A = append_instr [OF assms(1) n _ _ s3, simplified]
  have run: "import_instr pIL (pos, False, s) = Ok (pos1 + ucast (op_flags op AND OPCODEFLAGS_SizeMask), False, s5)"
  proof -
    have "import_operand pIL (op_flags op) p False pos1 s4 = Ok (pos1, False, s5)"
      using assms(5) unfolding s5 by (elim disjE; simp only: plain_operand; simp)
    moreover have "\<not> CEE_COUNT \<le> op" "\<not> m_CodeSize s < pos1 + ucast (op_flags op AND OPCODEFLAGS_SizeMask)"
      using assms(4,6) by (simp_all only: not_le not_less)
    ultimately show ?thesis
      using assms(3) unfolding import_instr_def Let_def by (simp only: prod.case assms(2) xbind.simps n s3 [symmetric] s4 [symmetric] if_False)
  qed
  have "ring s4 (ps @ [p])" using A(1) ring_frame [of s4 s3 "ps @ [p]"] by (simp add: s4)
  then have ring: "ring s5 (ps @ [p])" by (simp add: s5 ring_upd)
  have old: "code (heap s5) q = code (heap s) q" if "q \<noteq> p" for q
    using A(4) that by (auto simp: s5 s4 code_def agree_def)
  have "code (heap s5) p = (op, operand_of (op_flags op) (read_INT32 pIL pos1))"
    using A(5,6) by (simp add: s5 s4 code_def operand_of_def set_Arg32_def zero_instr_def)
  then have "map (code (heap s5)) (ps @ [p]) = map (code (heap s)) ps @ [(op, operand_of (op_flags op) (read_INT32 pIL pos1))]"
    using A(2) old by (auto intro!: old)
  moreover have "m_CodeSize s5 = m_CodeSize s" using A(7) by (simp add: s5 s4)
  moreover have "m_opcode (heap s5 il_head) = m_opcode (heap s il_head)" using old [of il_head] A(2) by (simp add: code_def)
  ultimately show ?thesis using run ring by blast
qed

text \<open>A body of two such calls, one directly behind the other, and a return.\<close>

definition calling_body :: "nat \<Rightarrow> u8" where
  "calling_body i = (if i < 12 then [0x2E, 0x28, 0x01, 0x00, 0x00, 0x06, 0x28, 0x01, 0x00, 0x00, 0x06, 0x2A] ! i else 0)"

definition calling_clr :: clr where
  "calling_clr = sample_clr \<lparr>GetILFunctionBody := Inr (calling_body, False)\<rparr>"

lemma calling_decoder: "DecoderInit calling_body False =
    \<lparr>dec_Flags = 2, dec_MaxStack = 8, dec_CodeSize = 11, dec_LocalVarSigTok = 0, dec_Code = Some 1, dec_EH = None\<rparr>"
  by code_simp

lemma calling_reads:
  "fetch_opcode (\<lambda>i. calling_body (Suc i)) 11 0 = Ok (CEE_CALL, 1)" "read_INT32 (\<lambda>i. calling_body (Suc i)) 1 = 0x06000001"
  "fetch_opcode (\<lambda>i. calling_body (Suc i)) 11 5 = Ok (CEE_CALL, 6)" "read_INT32 (\<lambda>i. calling_body (Suc i)) 6 = 0x06000001"
  "fetch_opcode (\<lambda>i. calling_body (Suc i)) 11 10 = Ok (CEE_RET, 11)"
  "op_flags CEE_CALL = 4" "op_flags CEE_RET = 0" "operand_of 4 0x06000001 = Bits 0x06000001" "operand_of 0 v = Bits 0"
  by (code_simp, code_simp, code_simp, code_simp, code_simp, code_simp, code_simp, code_simp, simp add: operand_of_def)

lemma calling_ImportIL:
  assumes "ring s []" and "m_CodeSize s = 11"
  shows "\<exists>s' ps. ImportIL (\<lambda>i. calling_body (1 + i)) s = Some (Ok s') \<and> ring s' ps \<and> m_opcode (heap s' il_head) = -1 \<and>
    map (code (heap s')) ps = [(CEE_CALL, Bits 0x06000001), (CEE_CALL, Bits 0x06000001), (CEE_RET, Bits 0)]"
proof -
  let ?pIL = "\<lambda>i. calling_body (1 + i)"
  have r: "ring (import_start s) []" using assms(1) ring_frame [of "import_start s" s "[]"] by (simp add: import_start_def)
  have i: "m_CodeSize (import_start s) = 11" "m_opcode (heap (import_start s) il_head) = -1"
    by (simp_all add: import_start_def assms(2))
  obtain s1 p where 1: "import_instr ?pIL (0, False, import_start s) = Ok (5, False, s1)" "ring s1 [p]"
    "map (code (heap s1)) [p] = [(CEE_CALL, Bits 0x06000001)]" "m_CodeSize s1 = 11" "m_opcode (heap s1 il_head) = -1"
    using import_plain [OF r, of ?pIL 0 CEE_CALL 1] by (auto simp: calling_reads i)
  obtain s2 q where 2: "import_instr ?pIL (5, False, s1) = Ok (10, False, s2)" "ring s2 [p, q]"
    "map (code (heap s2)) [p, q] = [(CEE_CALL, Bits 0x06000001), (CEE_CALL, Bits 0x06000001)]"
    "m_CodeSize s2 = 11" "m_opcode (heap s2 il_head) = -1"
    using import_plain [OF 1(2), of ?pIL 5 CEE_CALL 6] 1 by (auto simp: calling_reads)
  obtain s3 e where 3: "import_instr ?pIL (10, False, s2) = Ok (11, False, s3)" "ring s3 [p, q, e]"
    "map (code (heap s3)) [p, q, e] = [(CEE_CALL, Bits 0x06000001), (CEE_CALL, Bits 0x06000001), (CEE_RET, Bits 0)]"
    "m_CodeSize s3 = 11" "m_opcode (heap s3 il_head) = -1"
    using import_plain [OF 2(2), of ?pIL 10 CEE_RET 11] 2 by (auto simp: calling_reads)
  have "import_loop ?pIL (0, False, import_start s) = Some (Ok (11, False, s3))"
    using 1(1,4) 2(1,4) 3(1,4) i
    by (simp add: import_loop.simps [of _ "(0, False, import_start s)"] import_loop.simps [of _ "(5, False, s1)"]
        import_loop.simps [of _ "(10, False, s2)"] import_loop.simps [of _ "(11, False, s3)"])
  then have "ImportIL ?pIL s = Some (Ok s3)" using 3(4) by (simp add: ImportIL_def import_start_def)
  moreover note 3(2,5,3)
  ultimately show ?thesis by (intro exI conjI)
qed

lemma calling_list:
  "\<exists>s ps. Import calling_clr (new_ILRewriter blank_memory) = Some (Ok s) \<and>
    holds s ps calling_body (DecoderInit calling_body False) \<and> m_opcode (heap s il_head) = -1 \<and>
    map (code (heap s)) ps = [(CEE_CALL, Bits 0x06000001), (CEE_CALL, Bits 0x06000001), (CEE_RET, Bits 0)]"
proof -
  define s1 where s1: "s1 = (new_ILRewriter blank_memory) \<lparr>m_tkLocalVarSig := 0, m_maxStack := 8, m_flags := 2 AND 0x10, m_CodeSize := 11\<rparr>"
  have "ring s1 []" using ring_new [of blank_memory] ring_frame [of s1 "new_ILRewriter blank_memory" "[]"] by (simp add: s1)
  from calling_ImportIL [OF this] obtain s ps where il: "ImportIL (\<lambda>i. calling_body (1 + i)) s1 = Some (Ok s)"
    and s: "ring s ps" "m_opcode (heap s il_head) = -1" "map (code (heap s)) ps = [(CEE_CALL, Bits 0x06000001), (CEE_CALL, Bits 0x06000001), (CEE_RET, Bits 0)]"
    by (auto simp: s1)
  have get: "GetILFunctionBody calling_clr = Inr (calling_body, False)" by (simp add: calling_clr_def)
  obtain s' where s': "ImportEH (SectEH_EHClause calling_body 0) 0 s = Ok s'" "heap s' = heap s" "m_brk s' = m_brk s"
    using ImportIL_header [OF il] by (simp add: ImportEH_def same_header_def s1 new_ILRewriter_def)
  then have imp: "Import calling_clr (new_ILRewriter blank_memory) = Some (Ok s')"
    using il by (simp add: Import_def get calling_decoder dec_EHCount_def Let_def s1)
  from Import_holds [OF get refl _ imp] obtain qs where h: "holds s' qs calling_body (DecoderInit calling_body False)"
    by (auto simp: calling_decoder)
  then have "ring s' qs" by (simp add: holds_def spells_def)
  moreover have "ring s' ps" using s(1) s' by (simp add: ring_def)
  ultimately have "qs = ps" by (rule ring_unique)
  then show ?thesis using imp h s s' by auto
qed

lemma calling_replaced:
  "\<exists>st'. all_replaced sample_replacing (-1) [sample_call]
     [(CEE_CALL, Bits 0x06000001), (CEE_CALL, Bits 0x06000001), (CEE_RET, Bits 0)] (sample_module, []) =
     Ok (site_code sample_replacing 0x0a000003 0x06000001 [] None (CEE_CALL, Bits 0x06000001) @
       [(CEE_CALL, Bits 0x06000001), (CEE_RET, Bits 0)], True, st')"
proof -
  have "replaces_target sample_call" "\<not> failed_before (sample_module, []) sample_call"
    by (simp_all add: replaces_target_def failed_before_def sample_call_def sample_module_def new_ModuleMetadata_def
        IsFailedWrapperMemberKey_def)
  moreover have "\<not> is_call CEE_RET" "code_token (CEE_CALL, Bits 0x06000001) = 0x06000001" by (simp_all add: is_call_def code_token_def)
  ultimately show ?thesis using sample_plan [of "-1"] by (auto simp: Let_def site_plan_call)
qed

lemma calling_submit: "submit calling_clr n out u = Ok (u, n, out)"
  by (simp add: submit_def calling_clr_def sample_clr_def AllocateILMemory_def SetILFunctionBody_def)




definition cancel_metadata :: MetaDataImport where
  "cancel_metadata = sample_metadata \<lparr>GetTypeRefProps := (\<lambda>tk. (S_OK, WStr ''System.Threading.CancellationToken'', 34))\<rparr>"

theorem last_argument_boxed_witness:
  "box_tokens sample_replacing cancel_metadata
     (sample_run \<lparr>fi_signature := MethodSignature [0x00, 0x01, 0x01, 0x11, 0x05]\<rparr>) [] = Done ([0x01000001], [])"
proof -
  have enc: "token_bytes 0x01000001 = [0x05]" by code_simp
  have "type_called sample_replacing cancel_metadata 0x01000001 (WStr ''System.Threading.CancellationToken'')"
    "known_type sample_replacing cancel_metadata (Named ELEMENT_TYPE_VALUETYPE 0x01000001)"
    "TypeFromToken 0x01000001 \<in> set g_tkCorEncodeToken" by code_simp+
  then show ?thesis
    using last_argument_boxed [where t = "Prim ELEMENT_TYPE_VOID" and args = "[Named ELEMENT_TYPE_VALUETYPE 0x01000001]" and gen = "[]"
        and conv = 0 and r = sample_replacing and md = cancel_metadata and reqs = "[]"
        and target = "sample_run \<lparr>fi_signature := MethodSignature [0x00, 0x01, 0x01, 0x11, 0x05]\<rparr>"]
    by (simp add: enc elt_def sample_replacing_def)
qed

definition sample_insertion :: MethodReplacement where
  "sample_insertion = sample_call \<lparr>wrapper_method := (wrapper_method sample_call) \<lparr>action := WStr ''InsertFirst''\<rparr>\<rparr>"

lemma sample_inserted: "\<exists>st'. inserted_tokens sample_replacing [sample_insertion] (sample_module, []) = ([0x0a000003], st')"
proof -
  have "TryGetWrapperMemberRef sample_module k = None" "TryGetWrapperParentTypeRef sample_module k = None"
    "mm_assemblyName sample_module = name (assembly sample_reference)" "metadata_import sample_module = sample_metadata"
    "\<not> failed_before (sample_module, []) sample_insertion" for k
    by (simp_all add: sample_module_def new_ModuleMetadata_def TryGetWrapperMemberRef_def TryGetWrapperParentTypeRef_def
        failed_before_def IsFailedWrapperMemberKey_def)
  then have "\<exists>mm reqs tr. GetWrapperMethodRef sample_profiler (sample_token_env []) sample_lookups 1 sample_insertion (sample_module, []) =
     ((True, 0x0a000003, tr), mm, reqs)"
    by (simp add: GetWrapperMethodRef_def StoreWrapperMethodRef_def FindWrapperTypeRef_def EmitAssemblyRef_def request_def
        sample_token_env_def sample_answer_def sample_lookups_def sample_call_def sample_insertion_def stored_def Let_def
        GetModuleInfo_def sample_profiler_def ModuleInfo_IsValid_def sample_reference_def no_MethodReference_def assembly_request_def)
  moreover have "action (wrapper_method sample_insertion) = WStr ''InsertFirst''" "\<not> replaces_target sample_insertion"
    by (simp_all add: sample_insertion_def replaces_target_def)
  ultimately show ?thesis using \<open>\<not> failed_before (sample_module, []) sample_insertion\<close> by (auto simp: sample_replacing_def)
qed

theorem inserted_calls_first_witness:
  "\<exists>s ps u out st'. Import calling_clr (new_ILRewriter blank_memory) = Some (Ok s) \<and>
    ProcessInsertionCalls sample_replacing calling_clr blank_memory (\<lambda>_. 0) [sample_insertion] (sample_module, []) =
      Some (Ok ((S_OK, Some out), st')) \<and>
    decodes_to s ps (token_code CEE_CALL 0x0a000003 # map (code (heap s)) ps) u out"
proof -
  obtain s ps where s: "Import calling_clr (new_ILRewriter blank_memory) = Some (Ok s)"
    "holds s ps calling_body (DecoderInit calling_body False)"
    using calling_list by (elim exE conjE) (rule that)
  obtain st' where "inserted_tokens sample_replacing [sample_insertion] (sample_module, []) = ([0x0a000003], st')"
    using sample_inserted by blast
  moreover have "10 * (unat (dec_CodeSize (DecoderInit calling_body False)) + length [sample_insertion]) + 2 ^ 25 < (2 ^ 32 :: nat)"
    by (simp add: calling_decoder)
  ultimately have "\<exists>u out totalSize. ProcessInsertionCalls sample_replacing calling_clr blank_memory (\<lambda>_. 0) [sample_insertion]
      (sample_module, []) = Some (answer_of (submit calling_clr totalSize out u) st') \<and>
      decodes_to s ps (token_code CEE_CALL 0x0a000003 # map (code (heap s)) ps) u out"
    using inserted_calls_first [OF s, where ms = "[sample_insertion]" and r = sample_replacing and st = "(sample_module, [])"
        and ts = "[0x0a000003]" and st' = st' and mem' = "\<lambda>_. 0"] by (simp del: inserted_tokens.simps)
  then show ?thesis unfolding calling_submit answer_of_def exec.case prod.case using s(1) by blast
qed

end
