(* ===== verification/Spec2Isabelle.thy ===== *)
theory Spec2Isabelle
  imports Prelude CorHdr CorSig SigHelpers Strings MethodSig TypeNames SigAgreement SigTypes Integration IntegrationLoader
    ILOpcodes ILRewriter ILLayout ILImport ILExport ILMethod ILRoundTrip ILRewriterWrapper ClrInfo ModuleMetadata RejitHandler RejitAnalysis RejitThread RejitLocks
    CallTargetTokens CallTargetSigs MetadataBuilder CallTarget CallTargetWrites CallTargetShape CallTargetRuns
    ReturnTypes CallSites
begin

text \<open>
  Verification library of the native part of the .NET tracer: the CLR profiler in
  \<^verbatim>\<open>tracer/src/Datadog.Trace.ClrProfiler.Native\<close>, with the helper code of the CLR it
  compiles in (\<^verbatim>\<open>lib/coreclr/src/inc\<close>).

  \<^bold>\<open>The program.\<close> The CLR loads the profiler and tells it of every module and method. The
  profiler reads a list of integrations (\<^verbatim>\<open>integration_loader.cpp\<close>: JSON files named by an
  environment variable) and keeps those that concern a module (the filters of
  \<^verbatim>\<open>clr_helpers.cpp\<close>). For a loaded module the rejit handler (\<^verbatim>\<open>rejit_handler.cpp\<close>) searches
  the metadata for the methods an integration targets, parsing their signatures
  (\<^verbatim>\<open>sig_helpers.cpp\<close>, \<^verbatim>\<open>FunctionMethodSignature\<close>), and asks the runtime to compile them again.
  When the runtime does, the callback \<^verbatim>\<open>CallTarget_RewriterCallback\<close> of \<^verbatim>\<open>cor_profiler.cpp\<close> wraps
  the body: \<^verbatim>\<open>ILRewriter::Import\<close> turns it into a list of instructions, \<^verbatim>\<open>ILRewriterWrapper\<close>
  inserts instructions whose tokens come from \<^verbatim>\<open>CallTargetTokens\<close>, and \<^verbatim>\<open>ILRewriter::Export\<close>
  writes the new body. The older way instruments the callers instead: before a method is compiled,
  \<^verbatim>\<open>ProcessReplacementCalls\<close> replaces its calls of a target by calls of a wrapper.

  \<^bold>\<open>Signatures, names and integrations.\<close>
  \<^item> \<open>Prelude\<close>: machine integers, HRESULT, outcomes of routines that read memory, equations
    of words by bits.
  \<^item> \<open>CorHdr\<close>, \<open>CorSig\<close>: the constants of \<^verbatim>\<open>corhdr.h\<close> and the compressed numbers and tokens
    of \<^verbatim>\<open>cor.h\<close>, with the round trips of the three encoders.
  \<^item> \<open>SigHelpers\<close>: the recogniser of type signatures, equal to the grammar in its comments.
    Its fuel is the length of the buffer plus one, enough because every recursive call consumes
    a byte.
  \<^item> \<open>Strings\<close>: splitting, trimming and rendering (\<^verbatim>\<open>util.cpp\<close>, \<^verbatim>\<open>string.cpp\<close>).
  \<^item> \<open>MethodSig\<close>: \<^verbatim>\<open>FunctionMethodSignature::TryParse\<close>, its layout and its independence of
    the bytes behind the signature.
  \<^item> \<open>TypeNames\<close>: the answers \<^verbatim>\<open>FunctionMethodArgument\<close> gives on a parsed type.
  \<^item> \<open>SigAgreement\<close>: the two signature parsers agree on the types both describe.
  \<^item> \<open>SigTypes\<close>: \<^verbatim>\<open>TryParseSignatureTypes\<close>, a loop with a stack; on well-formed signatures it
    names every type as the recursive \<open>sig_name\<close> does.
  \<^item> \<open>Integration\<close>, \<open>IntegrationLoader\<close>: the integration data model with its regular
    expressions, caches and keys; the loader with exceptions as results; the filters.
  \<^item> \<open>ClrInfo\<close>: what the profiler asks the runtime about modules, types and functions. The
    readers of types call themselves without a bound; their fuel is a rank of the metadata's
    references, and with it they are shown to return.
  \<^item> \<open>ModuleMetadata\<close>: the caches of a module (\<^verbatim>\<open>module_metadata.h\<close>).

  \<^bold>\<open>Method bodies.\<close>
  \<^item> \<open>ILOpcodes\<close>: the rows of \<^verbatim>\<open>opcode.def\<close> and the two tables made of them.
  \<^item> \<open>ILRewriter\<close>: the state of the rewriter and its doubly linked list. Pointers are
    addresses of an explicit store, 0 is \<^verbatim>\<open>NULL\<close>; \<open>ring s ps\<close> says that the list is the ring
    through the sentinel and \<open>ps\<close>; insertion refines insertion into \<open>ps\<close>.
  \<^item> \<open>ILLayout\<close>: sizes, positions and encoding of a list of instructions, the specification
    both directions are measured by.
  \<^item> \<open>ILImport\<close>: \<^verbatim>\<open>ImportIL\<close>; the loop invariant \<open>imported\<close> and the result \<open>spells\<close>: the list
    encodes to the code that was read and every branch points into the list.
  \<^item> \<open>ILExport\<close>: layout, branch relaxation and relocation. The loop \<^verbatim>\<open>goto again\<close> ends
    because every further round has lengthened a short branch and none is ever shortened.
  \<^item> \<open>ILMethod\<close>: the decoder of method bodies (\<^verbatim>\<open>corhlpr.cpp\<close>), \<^verbatim>\<open>Import\<close> with the exception
    clauses and \<^verbatim>\<open>Export\<close> with both headers.
  \<^item> \<open>ILRoundTrip\<close>: export after import is the identity on bodies, and the properties of the
    rewriter as a whole.
  \<^item> \<open>ILRewriterWrapper\<close>: the builder, its operations as a step relation, the invariant of the
    steps and the pipeline of import, instrumentation and export.

  \<^bold>\<open>The rejit handler.\<close>
  \<^item> \<open>RejitHandler\<close>: its tables, queue and outputs as one record, each public operation and
    each round of its thread as a function on it.
  \<^item> \<open>RejitAnalysis\<close>: the methods it requests are those a specification over the metadata
    selects; the invariant of its tables; a selected method is the one that is rewritten.
  \<^item> \<open>RejitThread\<close>: the thread over time: when it comes to rest and when it does not, the
    promises, and how the shutdown ends it.
  \<^item> \<open>RejitLocks\<close>: the locks each operation takes, as interleaved actions: the operations
    among themselves do not deadlock, with the shutdown they can.

  \<^bold>\<open>The call target.\<close>
  \<^item> \<open>CallTargetTokens\<close>: \<^verbatim>\<open>calltarget_tokens.cpp\<close>. The metadata emitters are a parameter that
    answers a request in view of all before it; the requests are kept in order.
  \<^item> \<open>CallTargetSigs\<close>: every signature that is requested is well formed; the new signature of
    the locals extends the old one.
  \<^item> \<open>MetadataBuilder\<close>: the references to the wrappers and the caches they are kept in.
  \<^item> \<open>CallTarget\<close>: the callback, its parts in the order of the code.
  \<^item> \<open>CallTargetWrites\<close>: a calculus of writers: what each part inserts at the position, and
    nothing else; from it the codes of both parts.
  \<^item> \<open>CallTargetShape\<close>: the loop over the returns, the list and the clauses of the wrapped
    method (\<open>wraps\<close>), and that they can be exported.
  \<^item> \<open>CallTargetRuns\<close>: the body handed to the runtime decodes to the wrapped method; no request
    fails and no buffer is overrun on a method the code supports; the callback always ends.

  \<^bold>\<open>Call sites.\<close>
  \<^item> \<open>ReturnTypes\<close>: \<^verbatim>\<open>ReturnTypeIsValueTypeOrGeneric\<close> of \<^verbatim>\<open>clr_helpers.cpp\<close>, the token the result of
    a wrapper is unboxed to: that of the return type, with its type parameter replaced.
  \<^item> \<open>CallSites\<close>: \<^verbatim>\<open>ProcessReplacementCalls\<close> and \<^verbatim>\<open>ProcessInsertionCalls\<close>, which instrument the
    callers of a method. \<open>site_plan\<close> is what is decided of an instruction, \<open>write_site\<close> what is
    done to the list; both refine a function on the codes of the method. The bound
    \<open>10 * 8 ^ n * size + 2 ^ 25 < 2 ^ 32\<close> for \<open>n\<close> integrations allows each to make eight
    instructions of one.

  \<^bold>\<open>Conventions.\<close> A loop that may not end is a \<^theory_text>\<open>partial_function\<close> whose value \<open>None\<close> stands for
  not returning; its termination is proved. \<open>Overrun\<close> is undefined behaviour: a store outside a
  buffer, or the use of a pointer that was not set. Sizes are words of 32 bits; the bound
  \<open>10 * n + 2 ^ 25 < 2 ^ 32\<close> of the IL properties keeps the buffer of ten bytes an instruction
  and the clauses (at most 699050, read from 24 bits) in range; for the callback \<open>n\<close> is twice the
  size of the code, 40 instructions and five for each argument. The 200 bytes of locals, 400 of
  arguments and 100 of return type in the property on success keep every signature within the
  array of 500 bytes it is built in. Memory that is read before it is written is an argument.

  \<^bold>\<open>Not modelled.\<close> The interfaces of the CLR are parameters (the records \<open>clr\<close>, \<open>MetaDataImport\<close>,
  \<open>CorProfilerInfo\<close>, \<open>TokenEnv\<close>), as is the JSON package. Left out are the COM callbacks
  around the CLR interfaces and the startup hook in \<^verbatim>\<open>cor_profiler.cpp\<close>, the UTF codecs, the native
  loader, logging, statistics, reference counting and the release of memory: they call the
  operating system or the runtime and decide little themselves. The managed tracer is not in the
  language of this development.
\<close>

end
